(* ===== verification/Prelude.thy ===== *)
theory Prelude
  imports Complex_Main "HOL-Library.AList" "HOL-Library.Multiset"
begin

section \<open>Prelude: JavaScript collections and numbers\<close>

text \<open>
  What every component of the plugin and the gateway uses of the language: the insertion-ordered
  \<open>Map\<close> of JavaScript as an association list (\<open>set\<close> keeps the place of a key that is already there,
  \<open>delete\<close> closes the gap, \<open>keys().next()\<close> is the head), the loop that deletes the oldest key
  while a map is too large, removal by index (\<open>splice(i, 1)\<close>), numbers that may fail to be finite,
  and the hint collections of the development. The locale \<open>bounded_store\<close> is the contract that
  the size-limited caches share.
\<close>

named_theorems map_simps \<open>equations of the ordered map operations\<close>
named_theorems inv_intros \<open>preservation of component invariants\<close>

subsection \<open>Numbers\<close>

text \<open>A JavaScript number as the code inspects it: a finite value, or NaN or an infinity.\<close>

datatype jsnum = Finite rat | PosInfinity | NegInfinity | NaN

definition isFinite :: "jsnum \<Rightarrow> bool" where
  "isFinite x = (case x of Finite _ \<Rightarrow> True | _ \<Rightarrow> False)"

text \<open>\<open>Number.isInteger(value) && value > 0\<close>, as the positive capacity when it holds.\<close>

definition positiveInteger :: "jsnum \<Rightarrow> nat option" where
  "positiveInteger x =
     (case x of
        Finite r \<Rightarrow> if of_int \<lfloor>r\<rfloor> = r \<and> r > 0 then Some (nat \<lfloor>r\<rfloor>) else None
      | _ \<Rightarrow> None)"

lemma positiveInteger_pos: "positiveInteger x = Some n \<Longrightarrow> 0 < n"
proof (cases x)
  case (Finite r)
  assume "positiveInteger x = Some n"
  with Finite have "of_int \<lfloor>r\<rfloor> = r" "r > 0" "n = nat \<lfloor>r\<rfloor>"
    by (auto simp: positiveInteger_def split: if_splits)
  then have "0 < \<lfloor>r\<rfloor>" by (metis of_int_0_less_iff)
  with \<open>n = nat \<lfloor>r\<rfloor>\<close> show ?thesis by simp
qed (simp_all add: positiveInteger_def)

subsection \<open>Lists\<close>

text \<open>\<open>entries.splice(i, 1)\<close>: the list without the element at index \<open>i\<close>.\<close>

definition remove_at :: "nat \<Rightarrow> 'a list \<Rightarrow> 'a list" where
  "remove_at i xs = take i xs @ drop (Suc i) xs"

lemma length_remove_at [simp]: "i < length xs \<Longrightarrow> length (remove_at i xs) = length xs - 1"
  by (simp add: remove_at_def)

lemma mset_remove_at:
  assumes "i < length xs"
  shows "add_mset (xs ! i) (mset (remove_at i xs)) = mset xs"
proof -
  have "mset xs = mset (take i xs @ xs ! i # drop (Suc i) xs)"
    using id_take_nth_drop [OF assms] by simp
  then show ?thesis by (simp add: remove_at_def)
qed

lemma mset_remove_at_eq: "i < length xs \<Longrightarrow> mset (remove_at i xs) = mset xs - {#xs ! i#}"
  by (metis add_mset_remove_trivial mset_remove_at)

lemma set_remove_at_subset: "set (remove_at i xs) \<subseteq> set xs"
  by (auto simp: remove_at_def dest: in_set_takeD in_set_dropD)

lemma split_at: "i < length xs \<Longrightarrow> xs = take i xs @ xs ! i # drop (Suc i) xs"
  by (rule id_take_nth_drop)

lemma map_remove_at: "map f (remove_at i xs) = remove_at i (map f xs)"
  by (simp add: remove_at_def take_map drop_map)

lemma distinct_remove_at: "distinct xs \<Longrightarrow> distinct (remove_at i xs)"
  using set_take_disj_set_drop_if_distinct [of xs i "Suc i"]
  by (auto simp: remove_at_def)

lemma sorted_wrt_remove_at: "sorted_wrt P xs \<Longrightarrow> sorted_wrt P (remove_at i xs)"
proof (cases "i < length xs")
  case True
  assume "sorted_wrt P xs"
  then have "sorted_wrt P (take i xs @ xs ! i # drop (Suc i) xs)"
    using split_at [OF True] by simp
  then show ?thesis by (auto simp: remove_at_def sorted_wrt_append)
qed (simp add: remove_at_def)

subsection \<open>Insertion-ordered maps\<close>

type_synonym ('k, 'v) jsmap = "('k \<times> 'v) list"

definition map_keys :: "('k, 'v) jsmap \<Rightarrow> 'k list" where
  "map_keys m = map fst m"

definition map_vals :: "('k, 'v) jsmap \<Rightarrow> 'v list" where
  "map_vals m = map snd m"

definition map_get :: "('k, 'v) jsmap \<Rightarrow> 'k \<Rightarrow> 'v option" where
  "map_get m k = map_of m k"

definition map_has :: "('k, 'v) jsmap \<Rightarrow> 'k \<Rightarrow> bool" where
  "map_has m k = (map_of m k \<noteq> None)"

definition map_set :: "'k \<Rightarrow> 'v \<Rightarrow> ('k, 'v) jsmap \<Rightarrow> ('k, 'v) jsmap" where
  "map_set k v m = AList.update k v m"

definition map_delete :: "'k \<Rightarrow> ('k, 'v) jsmap \<Rightarrow> ('k, 'v) jsmap" where
  "map_delete k m = AList.delete k m"

definition distinct_keys :: "('k, 'v) jsmap \<Rightarrow> bool" where
  "distinct_keys m = distinct (map fst m)"

lemma map_keys_simps [map_simps, simp]:
  "map_keys [] = []" "map_keys ((k, v) # m) = k # map_keys m"
  by (simp_all add: map_keys_def)

lemma map_vals_simps [map_simps, simp]:
  "map_vals [] = []" "map_vals ((k, v) # m) = v # map_vals m"
  by (simp_all add: map_vals_def)

lemma map_get_simps [map_simps, simp]:
  "map_get [] k = None" "map_get ((k', v) # m) k = (if k = k' then Some v else map_get m k)"
  by (simp_all add: map_get_def)

lemma map_set_simps [map_simps, simp]:
  "map_set k v [] = [(k, v)]"
  "map_set k v ((k', v') # m) = (if k = k' then (k, v) # m else (k', v') # map_set k v m)"
  by (auto simp: map_set_def)

lemma map_delete_simps [map_simps, simp]:
  "map_delete k [] = []"
  "map_delete k ((k', v) # m) = (if k = k' then map_delete k m else (k', v) # map_delete k m)"
  by (auto simp: map_delete_def AList.delete_eq)

lemma distinct_keys_simps [map_simps, simp]:
  "distinct_keys []"
  "distinct_keys ((k, v) # m) \<longleftrightarrow> k \<notin> set (map_keys m) \<and> distinct_keys m"
  by (auto simp: distinct_keys_def map_keys_def)

lemma map_has_iff: "map_has m k \<longleftrightarrow> map_get m k \<noteq> None"
  by (simp add: map_has_def map_get_def)

lemma map_has_keys: "map_has m k \<longleftrightarrow> k \<in> set (map_keys m)"
  by (simp add: map_has_def map_keys_def map_of_eq_None_iff)

lemma map_has_Nil [simp]: "\<not> map_has [] k"
  by (simp add: map_has_def)

lemma map_get_None_iff: "map_get m k = None \<longleftrightarrow> k \<notin> set (map_keys m)"
  by (simp add: map_get_def map_keys_def map_of_eq_None_iff)

lemma map_get_set [simp]: "map_get (map_set k v m) k' = (if k' = k then Some v else map_get m k')"
  by (simp add: map_get_def map_set_def update_conv')

lemma distinct_keys_set [simp]: "distinct_keys m \<Longrightarrow> distinct_keys (map_set k v m)"
  by (simp add: distinct_keys_def map_set_def AList.distinct_update)

lemma distinct_keys_delete [simp]: "distinct_keys m \<Longrightarrow> distinct_keys (map_delete k m)"
  by (simp add: distinct_keys_def map_delete_def AList.distinct_delete)

lemma map_get_delete [simp]: "map_get (map_delete k m) k' = (if k' = k then None else map_get m k')"
  by (induction m) auto

lemma map_has_set [simp]: "map_has (map_set k v m) k' \<longleftrightarrow> k' = k \<or> map_has m k'"
  by (auto simp: map_has_iff)

lemma map_has_delete [simp]: "map_has (map_delete k m) k' \<longleftrightarrow> k' \<noteq> k \<and> map_has m k'"
  by (auto simp: map_has_iff)

lemma set_keys_set [simp]: "set (map_keys (map_set k v m)) = insert k (set (map_keys m))"
  by (induction m) (auto split: if_splits)

lemma map_delete_filter: "map_delete k m = filter (\<lambda>(a, _). a \<noteq> k) m"
  by (induction m) auto

lemma set_keys_delete [simp]: "set (map_keys (map_delete k m)) = set (map_keys m) - {k}"
  by (force simp: map_delete_filter map_keys_def)

lemma map_get_in_set: "map_get m k = Some v \<Longrightarrow> (k, v) \<in> set m"
  by (auto simp: map_get_def dest: map_of_SomeD)

lemma map_get_iff: "distinct_keys m \<Longrightarrow> map_get m k = Some v \<longleftrightarrow> (k, v) \<in> set m"
  by (simp add: map_get_def distinct_keys_def)

lemma map_get_in_vals: "map_get m k = Some v \<Longrightarrow> v \<in> set (map_vals m)"
  unfolding map_vals_def by (drule map_get_in_set) force

lemma set_map_set: "p \<in> set (map_set k v m) \<Longrightarrow> p = (k, v) \<or> p \<in> set m"
  by (induction m) (auto split: if_splits)

lemma set_map_delete: "set (map_delete k m) = {(a, b) \<in> set m. a \<noteq> k}"
  by (auto simp: map_delete_filter)

lemma map_set_new: "map_get m k = None \<Longrightarrow> map_set k v m = m @ [(k, v)]"
  by (induction m) auto

lemma length_map_set: "length (map_set k v m) = (if map_has m k then length m else Suc (length m))"
  by (induction m) (auto simp: map_has_iff split: if_splits)

lemma length_map_delete_le [simp]: "length (map_delete k m) \<le> length m"
  by (induction m) auto

lemma map_delete_absent: "k \<notin> set (map_keys m) \<Longrightarrow> map_delete k m = m"
  by (induction m) auto

lemma length_map_delete_present:
  "distinct_keys m \<Longrightarrow> map_has m k \<Longrightarrow> Suc (length (map_delete k m)) = length m"
  by (induction m) (auto simp: map_has_keys map_delete_absent)

lemma distinct_keys_filter: "distinct_keys m \<Longrightarrow> distinct_keys (filter P m)"
  by (simp add: distinct_keys_def distinct_map_filter)

lemma map_get_filter:
  "distinct_keys m \<Longrightarrow>
   map_get (filter P m) k = (case map_get m k of None \<Rightarrow> None | Some v \<Rightarrow> if P (k, v) then Some v else None)"
proof (induction m)
  case (Cons a m)
  obtain k' v where a: "a = (k', v)" by force
  show ?case
  proof (cases "k = k'")
    case True
    with Cons.prems a have "k \<notin> set (map_keys m)" by simp
    then have "map_get m k = None" "map_get (filter P m) k = None"
      by (auto simp: map_get_None_iff map_keys_def)
    with True a show ?thesis by simp
  next
    case False
    with Cons a show ?thesis by simp
  qed
qed simp

text \<open>
  A write through a reference that was read from a map before: it is visible in the map only while
  the map still holds the key.
\<close>

definition write_back :: "'k \<Rightarrow> 'v \<Rightarrow> ('k, 'v) jsmap \<Rightarrow> ('k, 'v) jsmap" where
  "write_back k v m = (if map_has m k then map_set k v m else m)"

lemma map_get_write_back [simp]:
  "map_get (write_back k v m) k' = (if k' = k \<and> map_has m k then Some v else map_get m k')"
  by (simp add: write_back_def)

lemma map_keys_write_back [simp]: "map_keys (write_back k v m) = map_keys m"
proof -
  have "k \<in> set (map_keys m) \<Longrightarrow> map_keys (map_set k v m) = map_keys m"
    by (induction m) auto
  then show ?thesis by (simp add: write_back_def map_has_keys)
qed

lemma length_write_back [simp]: "length (write_back k v m) = length m"
  by (simp add: write_back_def length_map_set)

lemma distinct_keys_write_back [simp]: "distinct_keys m \<Longrightarrow> distinct_keys (write_back k v m)"
  by (simp add: write_back_def)

subsection \<open>Deleting the oldest keys of a map that is too large\<close>

text \<open>
  The loop \<open>while (m.size > cap) m.delete(m.keys().next().value)\<close>, which the plugin and the gateway
  run on every bounded cache.
\<close>

function evict_oldest :: "nat \<Rightarrow> ('k, 'v) jsmap \<Rightarrow> ('k, 'v) jsmap" where
  "evict_oldest cap m =
     (if cap < length m
      then (case m of [] \<Rightarrow> [] | (k, _) # _ \<Rightarrow> evict_oldest cap (map_delete k m))
      else m)"
  by pat_completeness auto
termination
proof (relation "measure (\<lambda>(_, m). length m)", goal_cases)
  case (2 cap m p ps k v)
  then show ?case using length_map_delete_le [of k ps] by (auto simp: less_Suc_eq_le)
qed simp

declare evict_oldest.simps [simp del]

lemma evict_oldest_small: "length m \<le> cap \<Longrightarrow> evict_oldest cap m = m"
  by (simp add: evict_oldest.simps)

lemma evict_oldest_drop:
  "distinct_keys m \<Longrightarrow> evict_oldest cap m = drop (length m - cap) m"
proof (induction cap m rule: evict_oldest.induct)
  case (1 cap m)
  show ?case
  proof (cases "cap < length m")
    case True
    then obtain k v m' where m: "m = (k, v) # m'" by (cases m) auto
    with "1.prems" have d: "map_delete k m = m'" by (simp add: map_delete_absent)
    from m "1.prems" have dk: "distinct_keys m'" by simp
    have "evict_oldest cap m = evict_oldest cap m'"
      using True d by (subst evict_oldest.simps) (simp add: m)
    also have "\<dots> = drop (length m' - cap) m'"
      using "1.IH" [OF True m] d dk by simp
    also have "\<dots> = drop (length m - cap) m"
    proof -
      from True m have "length m - cap = Suc (length m' - cap)" by simp
      then show ?thesis using m by simp
    qed
    finally show ?thesis .
  qed (simp add: evict_oldest_small)
qed

lemma length_evict_oldest: "length (evict_oldest cap m) \<le> cap"
proof (induction cap m rule: evict_oldest.induct)
  case (1 cap m)
  show ?case
  proof (cases "cap < length m")
    case True
    then obtain k v m' where m: "m = (k, v) # m'" by (cases m) auto
    have "evict_oldest cap m = evict_oldest cap (map_delete k m)"
      using True by (subst evict_oldest.simps) (simp add: m)
    with "1.IH" [OF True m] show ?thesis by simp
  qed (simp add: evict_oldest_small)
qed

lemma set_evict_oldest: "distinct_keys m \<Longrightarrow> set (evict_oldest cap m) \<subseteq> set m"
  by (auto simp: evict_oldest_drop dest: in_set_dropD)

lemma distinct_keys_evict [simp]: "distinct_keys m \<Longrightarrow> distinct_keys (evict_oldest cap m)"
  by (simp add: evict_oldest_drop distinct_keys_def drop_map [symmetric])

lemma map_get_evict_oldest:
  "distinct_keys m \<Longrightarrow> map_get (evict_oldest cap m) k = Some v \<Longrightarrow> map_get m k = Some v"
  using set_evict_oldest by (fastforce simp: map_get_iff)

text \<open>The newest key survives as long as the limit is positive.\<close>

lemma evict_oldest_keeps_last:
  assumes "distinct_keys (m @ [(k, v)])" "0 < cap"
  shows "map_get (evict_oldest cap (m @ [(k, v)])) k = Some v"
proof -
  let ?m = "m @ [(k, v)]"
  have "(k, v) \<in> set (drop (length ?m - cap) ?m)"
  proof -
    have "length ?m - cap \<le> length m" using assms(2) by simp
    then show ?thesis by simp
  qed
  then have "(k, v) \<in> set (evict_oldest cap ?m)"
    using evict_oldest_drop [OF assms(1)] by simp
  then show ?thesis
    using map_get_iff [OF distinct_keys_evict [OF assms(1)]] by blast
qed

subsection \<open>The contract of a bounded cache\<close>

text \<open>
  A store with a key lookup and an insertion that is limited to \<open>cap\<close> entries. What a client
  relies on: an insertion is visible right after, the size never passes the limit, and nothing
  appears that was not there or just inserted.
\<close>

locale bounded_store =
  fixes inv :: "'s \<Rightarrow> bool"
    and store_size :: "'s \<Rightarrow> nat"
    and lookup :: "'s \<Rightarrow> 'k \<Rightarrow> 'v option"
    and put :: "'k \<Rightarrow> 'v \<Rightarrow> 's \<Rightarrow> 's"
    and cap :: nat
  assumes put_inv: "inv s \<Longrightarrow> inv (put k v s)"
    and put_size: "inv s \<Longrightarrow> store_size (put k v s) \<le> cap"
    and put_new: "inv s \<Longrightarrow> lookup (put k v s) k = Some v"
    and put_other: "inv s \<Longrightarrow> k' \<noteq> k \<Longrightarrow> lookup (put k v s) k' = Some w \<Longrightarrow> lookup s k' = Some w"
begin

fun put_all :: "('k \<times> 'v) list \<Rightarrow> 's \<Rightarrow> 's" where
  "put_all [] s = s"
| "put_all ((k, v) # kvs) s = put_all kvs (put k v s)"

lemma put_all_inv: "inv s \<Longrightarrow> inv (put_all kvs s)"
  by (induction kvs s rule: put_all.induct) (auto intro: put_inv)

lemma put_all_snoc: "put_all (kvs @ [(k, v)]) s = put k v (put_all kvs s)"
  by (induction kvs s rule: put_all.induct) auto

lemma put_all_size: "inv s \<Longrightarrow> kvs \<noteq> [] \<Longrightarrow> store_size (put_all kvs s) \<le> cap"
proof (induction kvs rule: rev_induct)
  case (snoc kv kvs)
  obtain k v where kv: "kv = (k, v)" by force
  show ?case using snoc.prems
    by (simp add: kv put_all_snoc put_size put_all_inv)
qed simp

lemma put_all_lookup:
  "inv s \<Longrightarrow> lookup (put_all kvs s) k = Some v \<Longrightarrow>
   map_of (rev kvs) k = Some v \<or> map_of (rev kvs) k = None \<and> lookup s k = Some v"
proof (induction kvs arbitrary: v rule: rev_induct)
  case (snoc kv kvs)
  obtain k' v' where kv: "kv = (k', v')" by force
  show ?case
  proof (cases "k = k'")
    case True
    with snoc.prems kv show ?thesis by (simp add: put_all_snoc put_new put_all_inv)
  next
    case False
    with snoc.prems kv have "lookup (put_all kvs s) k = Some v"
      by (auto simp: put_all_snoc intro: put_other put_all_inv)
    with snoc.IH [OF snoc.prems(1)] False kv show ?thesis by simp
  qed
qed simp

end

text \<open>
  The usual implementation: the key moves to the tail and the oldest keys go while the map is too
  large.
\<close>

definition put_last :: "nat \<Rightarrow> 'k \<Rightarrow> 'v \<Rightarrow> ('k, 'v) jsmap \<Rightarrow> ('k, 'v) jsmap" where
  "put_last cap k v m = evict_oldest cap (map_set k v (map_delete k m))"

lemma map_set_delete: "map_set k v (map_delete k m) = map_delete k m @ [(k, v)]"
  by (rule map_set_new) simp

interpretation last_store: bounded_store distinct_keys length map_get "put_last (Suc n)" "Suc n" for n
proof
  fix s :: "('a, 'b) jsmap" and k k' v w
  assume dk: "distinct_keys s"
  then have dk': "distinct_keys (map_delete k s @ [(k, v)])"
    using distinct_keys_set [OF distinct_keys_delete [OF dk], of k v k] by (simp add: map_set_delete)
  show "distinct_keys (put_last (Suc n) k v s)" using dk by (simp add: put_last_def)
  show "length (put_last (Suc n) k v s) \<le> Suc n" by (simp add: put_last_def length_evict_oldest)
  show "map_get (put_last (Suc n) k v s) k = Some v"
    using evict_oldest_keeps_last [OF dk', of "Suc n"] by (simp add: put_last_def map_set_delete)
  assume "k' \<noteq> k" "map_get (put_last (Suc n) k v s) k' = Some w"
  then show "map_get s k' = Some w"
    using map_get_evict_oldest [of "map_set k v (map_delete k s)" "Suc n" k' w] dk
    by (simp add: put_last_def)
qed

text \<open>The newest entry is the last one.\<close>

lemma put_last_snoc:
  assumes "distinct_keys m" "0 < cap"
  shows "\<exists>m'. put_last cap k v m = m' @ [(k, v)] \<and> set m' \<subseteq> set m"
proof -
  have dk: "distinct_keys (map_set k v (map_delete k m))" using assms(1) by simp
  have "put_last cap k v m = drop (length (map_delete k m @ [(k, v)]) - cap) (map_delete k m @ [(k, v)])"
    using evict_oldest_drop [OF dk, of cap] by (simp add: put_last_def map_set_delete)
  also have "\<dots> = drop (Suc (length (map_delete k m)) - cap) (map_delete k m) @ [(k, v)]"
    using assms(2) by simp
  finally show ?thesis
    by (intro exI conjI) (auto dest!: in_set_dropD simp: set_map_delete)
qed

end
