(* ===== verification/JsString.thy ===== *)
theory JsString
  imports Prelude "HOL-Library.Word" "HOL-Library.Sublist"
begin

section \<open>JavaScript strings\<close>

text \<open>
  A JavaScript string is a sequence of 16-bit code units: \<open>jstr\<close>. \<open>length\<close> counts units;
  \<open>Array.from(text)\<close> and \<open>[...text]\<close> split a string into code points, where a high surrogate
  followed by a low one is one point (\<open>code_points\<close>). The theory models the string operations
  the plugin and the gateway share: truncation to a number of code points, \<open>trim\<close>, \<open>includes\<close>,
  \<open>split(sep).join(r)\<close>, \<open>indexOf\<close>/\<open>slice\<close> at a separator and decimal printing of integers.
\<close>

type_synonym jstr = "16 word list"

text \<open>The literal \<open>"abc"\<close> of the source.\<close>

definition js :: "string \<Rightarrow> jstr" where
  "js s = map (\<lambda>c. word_of_nat (of_char c)) s"

lemma of_char_nat_less: "(of_char c :: nat) < 256"
  by (metis of_char_of char_of_char of_char_mod_256 mod_less_divisor zero_less_numeral)

lemma js_char_inj: "(word_of_nat (of_char c) :: 16 word) = word_of_nat (of_char d) \<longleftrightarrow> c = d"
proof
  assume "(word_of_nat (of_char c) :: 16 word) = word_of_nat (of_char d)"
  then have "of_char c mod 65536 = (of_char d mod 65536 :: nat)"
    by (simp add: word_of_nat_eq_iff take_bit_eq_mod)
  moreover have "(of_char c :: nat) < 65536" "(of_char d :: nat) < 65536"
    using of_char_nat_less [of c] of_char_nat_less [of d] by linarith+
  ultimately show "c = d" by simp
qed simp

lemma js_eq_iff [simp]: "js s = js t \<longleftrightarrow> s = t"
proof
  assume "js s = js t"
  moreover have "inj (\<lambda>c. word_of_nat (of_char c) :: 16 word)"
    by (auto intro: injI simp: js_char_inj)
  ultimately show "s = t"
    unfolding js_def by (metis map_injective)
qed simp

lemma length_js [simp]: "length (js s) = length s"
  by (simp add: js_def)

lemma js_Nil [simp]: "js s = [] \<longleftrightarrow> s = []" "[] = js s \<longleftrightarrow> s = []"
  by (auto simp: js_def)

lemma js_append: "js (s @ t) = js s @ js t"
  by (simp add: js_def)

subsection \<open>Code points\<close>

definition high_surrogate :: "16 word \<Rightarrow> bool" where
  "high_surrogate u \<longleftrightarrow> 0xD800 \<le> u \<and> u \<le> 0xDBFF"

definition low_surrogate :: "16 word \<Rightarrow> bool" where
  "low_surrogate u \<longleftrightarrow> 0xDC00 \<le> u \<and> u \<le> 0xDFFF"

fun code_points :: "jstr \<Rightarrow> jstr list" where
  "code_points [] = []"
| "code_points [u] = [[u]]"
| "code_points (u # v # us) =
     (if high_surrogate u \<and> low_surrogate v then [u, v] # code_points us
      else [u] # code_points (v # us))"

lemma concat_code_points [simp]: "concat (code_points s) = s"
  by (induction s rule: code_points.induct) auto

lemma code_points_Nil_iff [simp]: "code_points s = [] \<longleftrightarrow> s = []"
  by (cases s rule: code_points.cases) auto

lemma code_points_nonempty: "p \<in> set (code_points s) \<Longrightarrow> p \<noteq> []"
  by (induction s rule: code_points.induct) (auto split: if_splits)

lemma length_code_points_le: "length (code_points s) \<le> length s"
  by (induction s rule: code_points.induct) auto

text \<open>
  Splitting the first points of a string again gives these points: a cut between two points never
  makes a pair out of two lone units, nor breaks one up.
\<close>

lemma code_points_take: "code_points (concat (take n (code_points s))) = take n (code_points s)"
proof (induction s arbitrary: n rule: code_points.induct)
  case (2 u)
  then show ?case by (cases n) auto
next
  case (3 u v us)
  show ?case
  proof (cases n)
    case (Suc k)
    show ?thesis
    proof (cases "high_surrogate u \<and> low_surrogate v")
      case True
      with 3 Suc show ?thesis by simp
    next
      case False
      have eq: "code_points (u # v # us) = [u] # code_points (v # us)" using False by auto
      show ?thesis
      proof (cases k)
        case 0
        with eq Suc show ?thesis by simp
      next
        case (Suc k')
        let ?r = "concat (take k (code_points (v # us)))"
        have "code_points (v # us) \<noteq> []" by simp
        then obtain p ps where ps: "code_points (v # us) = p # ps"
          by (cases "code_points (v # us)") auto
        then have "p \<noteq> []" using code_points_nonempty [of p "v # us"] by simp
        moreover have "concat (code_points (v # us)) = v # us" by simp
        then have "p @ concat ps = v # us" by (simp only: ps concat.simps)
        ultimately obtain p' where p: "p = v # p'" by (cases p) auto
        then have r: "?r = v # (p' @ concat (take k' ps))" by (simp add: Suc ps)
        have "code_points (concat (take n (code_points (u # v # us)))) = code_points (u # ?r)"
          using eq \<open>n = Suc k\<close> by simp
        also have "\<dots> = [u] # code_points ?r" using False by (auto simp: r)
        also have "\<dots> = [u] # take k (code_points (v # us))"
          using "3.IH"(2) [OF False] by simp
        finally show ?thesis using eq \<open>n = Suc k\<close> by simp
      qed
    qed
  qed simp
qed simp

text \<open>\<open>truncateCodePoints\<close> of \<open>message-cache.ts\<close> and \<open>log.ts\<close>: the first \<open>max\<close> code points.\<close>

definition truncateCodePoints :: "jstr \<Rightarrow> nat \<Rightarrow> jstr" where
  "truncateCodePoints text mx =
     (let points = code_points text in
      if length points \<le> mx then text else concat (take mx points))"

lemma truncateCodePoints_points:
  "code_points (truncateCodePoints s n) = take n (code_points s)"
  by (simp add: truncateCodePoints_def Let_def code_points_take)

lemma length_truncateCodePoints: "length (code_points (truncateCodePoints s n)) \<le> n"
  by (simp add: truncateCodePoints_points)

lemma truncateCodePoints_prefix: "prefix (truncateCodePoints s n) s"
proof -
  have "s = concat (take n (code_points s)) @ concat (drop n (code_points s))"
    by (metis append_take_drop_id concat_append concat_code_points)
  then show ?thesis unfolding truncateCodePoints_def Let_def prefix_def by auto
qed

lemma truncateCodePoints_Nil: "0 < n \<Longrightarrow> truncateCodePoints s n = [] \<longleftrightarrow> s = []"
  by (metis code_points_Nil_iff not_less0 take_eq_Nil truncateCodePoints_points)

text \<open>A string without lone surrogates.\<close>

definition well_formed :: "jstr \<Rightarrow> bool" where
  "well_formed s \<longleftrightarrow>
     list_all (\<lambda>p. case p of [u] \<Rightarrow> \<not> high_surrogate u \<and> \<not> low_surrogate u | _ \<Rightarrow> True) (code_points s)"

lemma well_formed_truncate: "well_formed s \<Longrightarrow> well_formed (truncateCodePoints s n)"
  by (auto simp: well_formed_def truncateCodePoints_points list_all_iff dest: in_set_takeD)

lemma js_no_surrogate:
  "\<not> high_surrogate (word_of_nat (of_char c))" "\<not> low_surrogate (word_of_nat (of_char c))"
proof -
  have "unat (word_of_nat (of_char c) :: 16 word) < 256"
    using of_char_nat_less [of c] order_le_less_trans [OF mod_less_eq_dividend]
    by (simp add: unat_of_nat)
  then show "\<not> high_surrogate (word_of_nat (of_char c))" "\<not> low_surrogate (word_of_nat (of_char c))"
    by (simp_all add: high_surrogate_def low_surrogate_def word_le_nat_alt)
qed

lemma code_points_no_surrogate:
  "\<forall>u \<in> set s. \<not> high_surrogate u \<Longrightarrow> code_points s = map (\<lambda>u. [u]) s"
  by (induction s rule: code_points.induct) auto

lemma code_points_js: "code_points (js s) = map (\<lambda>c. js [c]) s"
  by (subst code_points_no_surrogate) (auto simp: js_def js_no_surrogate)

lemma length_code_points_js [simp]: "length (code_points (js s)) = length s"
  by (simp add: code_points_js)

lemma truncateCodePoints_js: "truncateCodePoints (js s) n = js (take n s)"
proof -
  have "concat (map (\<lambda>c. js [c]) t) = js t" for t
    by (induction t) (auto simp: js_def)
  then show ?thesis by (simp add: truncateCodePoints_def Let_def code_points_js take_map)
qed

subsection \<open>White space\<close>

text \<open>The white space and line terminators that \<open>trim\<close> removes.\<close>

definition whitespace :: "16 word \<Rightarrow> bool" where
  "whitespace u \<longleftrightarrow>
     9 \<le> u \<and> u \<le> 13 \<or> u = 32 \<or> u = 160 \<or> u = 0x1680 \<or> 0x2000 \<le> u \<and> u \<le> 0x200A
     \<or> u = 0x2028 \<or> u = 0x2029 \<or> u = 0x202F \<or> u = 0x205F \<or> u = 0x3000 \<or> u = 0xFEFF"

definition trim :: "jstr \<Rightarrow> jstr" where
  "trim s = rev (dropWhile whitespace (rev (dropWhile whitespace s)))"

definition blank :: "jstr \<Rightarrow> bool" where
  "blank s \<longleftrightarrow> list_all whitespace s"

lemma trim_Nil_iff: "trim s = [] \<longleftrightarrow> blank s"
proof -
  have "dropWhile whitespace s = [] \<longleftrightarrow> blank s"
    by (simp add: blank_def list_all_iff)
  moreover have "trim s = [] \<longleftrightarrow> dropWhile whitespace s = []"
  proof
    assume "trim s = []"
    then have "\<forall>u \<in> set (dropWhile whitespace s). whitespace u" by (simp add: trim_def)
    then show "dropWhile whitespace s = []"
      by (metis dropWhile_eq_Nil_conv hd_dropWhile list.set_sel(1))
  qed (simp only: trim_def rev.simps dropWhile.simps)
  ultimately show ?thesis by simp
qed

subsection \<open>Occurrences, \<open>split\<close> and \<open>join\<close>\<close>

text \<open>\<open>text.includes(s)\<close>.\<close>

fun js_includes :: "jstr \<Rightarrow> jstr \<Rightarrow> bool" where
  "js_includes [] s = (s = [])"
| "js_includes (c # cs) s = (prefix s (c # cs) \<or> js_includes cs s)"

lemma includes_iff: "js_includes t s \<longleftrightarrow> (\<exists>a b. t = a @ s @ b)"
proof (induction t)
  case step: (Cons c cs)
  show ?case
  proof
    assume "js_includes (c # cs) s"
    then consider z where "c # cs = s @ z" | a b where "cs = a @ s @ b"
      using step.IH by (auto simp: prefix_def)
    then show "\<exists>a b. c # cs = a @ s @ b"
    proof cases
      case 1
      then have "c # cs = [] @ s @ z" by simp
      then show ?thesis by blast
    next
      case 2
      then have "c # cs = (c # a) @ s @ b" by simp
      then show ?thesis by blast
    qed
  next
    assume "\<exists>a b. c # cs = a @ s @ b"
    then obtain a b where ab: "c # cs = a @ s @ b" by blast
    then show "js_includes (c # cs) s"
    proof (cases a)
      case Nil
      with ab have "prefix s (c # cs)" by simp
      then show ?thesis by simp
    next
      case (Cons a0 a')
      with ab have "cs = a' @ s @ b" by simp
      then show ?thesis using step.IH by auto
    qed
  qed
qed auto

text \<open>\<open>text.split(sep)\<close> for a nonempty separator: cut at the leftmost occurrences, left to right.\<close>

function split_from :: "jstr \<Rightarrow> jstr \<Rightarrow> jstr \<Rightarrow> jstr list" where
  "split_from sep acc [] = [rev acc]"
| "split_from sep acc (c # cs) =
     (if prefix sep (c # cs) then rev acc # split_from sep [] (drop (length sep - 1) cs)
      else split_from sep (c # acc) cs)"
  by pat_completeness auto
termination
  by (relation "measure (\<lambda>(_, _, s). length s)") auto

definition split_on :: "jstr \<Rightarrow> jstr \<Rightarrow> jstr list" where
  "split_on sep text = split_from sep [] text"

fun join_with :: "jstr \<Rightarrow> jstr list \<Rightarrow> jstr" where
  "join_with r [] = []"
| "join_with r [p] = p"
| "join_with r (p # ps) = p @ r @ join_with r ps"

lemma split_from_nonempty [simp]: "split_from sep acc s \<noteq> []"
  by (induction sep acc s rule: split_from.induct) auto

lemma join_with_Cons: "ps \<noteq> [] \<Longrightarrow> join_with r (p # ps) = p @ r @ join_with r ps"
  by (cases ps) auto

text \<open>Joining with the separator itself gives the text back.\<close>

lemma join_split_from:
  "sep \<noteq> [] \<Longrightarrow> join_with sep (split_from sep acc s) = rev acc @ s"
proof (induction sep acc s rule: split_from.induct)
  case (2 sep acc c cs)
  show ?case
  proof (cases "prefix sep (c # cs)")
    case True
    then obtain z where z: "c # cs = sep @ z" by (auto simp: prefix_def)
    with \<open>sep \<noteq> []\<close> have "drop (length sep - 1) cs = z"
      by (metis append_eq_conv_conj drop_Cons' length_0_conv)
    with 2 True have "join_with sep (split_from sep acc (c # cs)) = rev acc @ sep @ z"
      by (simp add: join_with_Cons)
    with z show ?thesis by simp
  next
    case False
    with 2 show ?thesis by simp
  qed
qed simp

lemma join_split: "sep \<noteq> [] \<Longrightarrow> join_with sep (split_on sep text) = text"
  by (simp add: split_on_def join_split_from)

subsection \<open>Cutting at a separator\<close>

text \<open>\<open>text.indexOf(c)\<close> for one unit: the first index, or None for -1.\<close>

fun index_of :: "jstr \<Rightarrow> 16 word \<Rightarrow> nat option" where
  "index_of [] c = None"
| "index_of (x # xs) c = (if x = c then Some 0 else map_option Suc (index_of xs c))"

lemma index_of_None_iff: "index_of s c = None \<longleftrightarrow> c \<notin> set s"
  by (induction s) auto

lemma index_of_append: "c \<notin> set s \<Longrightarrow> index_of (s @ c # t) c = Some (length s)"
  by (induction s) auto

lemma index_of_Some:
  "index_of s c = Some i \<Longrightarrow> i < length s \<and> s ! i = c \<and> c \<notin> set (take i s)"
  by (induction s arbitrary: i) (auto split: if_splits)

text \<open>
  Composite keys \<open>a + sep + b\<close>: the first part never holds the separator (it is a UUID or a
  number), so both parts can be read back and no two keys collide.
\<close>

lemma key_inj:
  fixes sep :: "16 word"
  assumes "sep \<notin> set a" "sep \<notin> set a'"
  shows "a @ sep # b = a' @ sep # b' \<longleftrightarrow> a = a' \<and> b = b'"
proof
  assume eq: "a @ sep # b = a' @ sep # b'"
  then have "index_of (a @ sep # b) sep = index_of (a' @ sep # b') sep" by simp
  with assms have "length a = length a'" by (simp add: index_of_append)
  with eq show "a = a' \<and> b = b'" by simp
qed simp

subsection \<open>Decimal numbers\<close>

text \<open>\<open>String(n)\<close> for a nonnegative integer, and \<open>Number(text)\<close> for a text of digits.\<close>

definition digit :: "nat \<Rightarrow> 16 word" where
  "digit d = word_of_nat (48 + d)"

fun decimal :: "nat \<Rightarrow> jstr" where
  "decimal n = (if n < 10 then [digit n] else decimal (n div 10) @ [digit (n mod 10)])"

declare decimal.simps [simp del]

definition is_digit :: "16 word \<Rightarrow> bool" where
  "is_digit u \<longleftrightarrow> 48 \<le> u \<and> u \<le> 57"

text \<open>The test \<open>/^\d+$/\<close>.\<close>

definition all_digits :: "jstr \<Rightarrow> bool" where
  "all_digits s \<longleftrightarrow> s \<noteq> [] \<and> list_all is_digit s"

definition parse_decimal :: "jstr \<Rightarrow> nat" where
  "parse_decimal s = foldl (\<lambda>n u. 10 * n + (unat u - 48)) 0 s"

lemma unat_digit: "d < 10 \<Longrightarrow> unat (digit d) = 48 + d"
  by (simp add: digit_def unat_of_nat del: of_nat_add)

lemma is_digit_digit: "d < 10 \<Longrightarrow> is_digit (digit d)"
  by (simp add: is_digit_def word_le_nat_alt unat_digit)

lemma all_digits_decimal: "all_digits (decimal n)"
proof (induction n rule: decimal.induct)
  case (1 n)
  then show ?case
    by (subst decimal.simps) (auto simp: all_digits_def is_digit_digit)
qed

lemma parse_decimal_decimal: "parse_decimal (decimal n) = n"
proof (induction n rule: decimal.induct)
  case (1 n)
  then show ?case
    by (subst decimal.simps) (auto simp: parse_decimal_def unat_digit)
qed

end
