(* ===== verification/Contracts.thy ===== *)
theory Contracts
  imports JsString
begin

section \<open>The notification contract\<close>

text \<open>
  The event schemas of \<open>packages/contracts/src/schemas/events.ts\<close>: one type per object schema, one
  constructor per \<open>oneOf\<close> branch, and one predicate per schema with its value constraints. Closed
  objects (\<open>additionalProperties: false\<close>), \<open>required\<close>, \<open>enum\<close> and \<open>const\<close> are carried by the types.
  \<open>minLength\<close> and \<open>maxLength\<close> count code points, as the schema language defines them. The string
  formats \<open>uuid\<close>, \<open>date-time\<close> and \<open>uri\<close> are checked by a third-party package: the record \<open>formats\<close>
  stands for these three tests and is an argument of every predicate that needs one.
\<close>

record formats =
  is_uuid :: "jstr \<Rightarrow> bool"
  is_date_time :: "jstr \<Rightarrow> bool"
  is_uri :: "jstr \<Rightarrow> bool"

record source =
  machine :: jstr
  project :: jstr
  directory :: jstr

record session_ref =
  session_id :: jstr
  session_title :: jstr

datatype active_status = Busy | Retry

datatype outcome = Completed | Failed | Stopped

record question_option =
  option_label :: jstr
  option_description :: "jstr option"

record question_item =
  question :: jstr
  question_options :: "question_option list option"
  question_multiple :: "bool option"

record permission_section =
  permission :: jstr
  permission_summary :: jstr

record provider_action =
  pa_provider :: jstr
  pa_title :: jstr
  pa_message :: jstr
  pa_label :: jstr
  pa_link :: "jstr option"

datatype resolved_kind = QuestionKind | PermissionKind

datatype action_payload =
    QuestionAction (action_request: jstr) "question_item list"
  | PermissionAction (action_request: jstr) permission_section
  | ProviderAction (action_request: jstr) provider_action

datatype payload =
    Heartbeat active_status int
  | ActionRequired action_payload
  | ActionResolved jstr resolved_kind
  | Terminal outcome int "jstr option"

record notify_event =
  eventId :: jstr
  occurredAt :: jstr
  event_source :: source
  event_session :: session_ref
  payload :: payload

datatype event_type = HeartbeatType | ActionRequiredType | ActionResolvedType | TerminalType

definition payload_type :: "payload \<Rightarrow> event_type" where
  "payload_type p =
     (case p of
        Heartbeat _ _ \<Rightarrow> HeartbeatType
      | ActionRequired _ \<Rightarrow> ActionRequiredType
      | ActionResolved _ _ \<Rightarrow> ActionResolvedType
      | Terminal _ _ _ \<Rightarrow> TerminalType)"

abbreviation event_type :: "notify_event \<Rightarrow> event_type" where
  "event_type e \<equiv> payload_type (payload e)"

subsection \<open>The schemas\<close>

definition minLength :: "nat \<Rightarrow> jstr \<Rightarrow> bool" where
  "minLength n s \<longleftrightarrow> n \<le> length (code_points s)"

definition maxLength :: "nat \<Rightarrow> jstr \<Rightarrow> bool" where
  "maxLength n s \<longleftrightarrow> length (code_points s) \<le> n"

definition sourceSchema :: "source \<Rightarrow> bool" where
  "sourceSchema s \<longleftrightarrow> minLength 1 (machine s) \<and> minLength 1 (project s) \<and> minLength 1 (directory s)"

definition sessionSchema :: "session_ref \<Rightarrow> bool" where
  "sessionSchema s \<longleftrightarrow> minLength 1 (session_id s)"

definition heartbeatPayloadSchema :: "int \<Rightarrow> bool" where
  "heartbeatPayloadSchema elapsedSeconds \<longleftrightarrow> 0 \<le> elapsedSeconds"

definition terminalPayloadSchema :: "int \<Rightarrow> jstr option \<Rightarrow> bool" where
  "terminalPayloadSchema elapsedSeconds summary \<longleftrightarrow>
     0 \<le> elapsedSeconds \<and> (case summary of None \<Rightarrow> True | Some s \<Rightarrow> maxLength 500 s)"

definition questionOptionSchema :: "question_option \<Rightarrow> bool" where
  "questionOptionSchema op \<longleftrightarrow> minLength 1 (option_label op)"

definition questionItemSchema :: "question_item \<Rightarrow> bool" where
  "questionItemSchema q \<longleftrightarrow>
     minLength 1 (question q) \<and> maxLength 2000 (question q) \<and>
     (case question_options q of
        None \<Rightarrow> True
      | Some ops \<Rightarrow> length ops \<le> 16 \<and> list_all questionOptionSchema ops)"

definition permissionSectionSchema :: "permission_section \<Rightarrow> bool" where
  "permissionSectionSchema p \<longleftrightarrow>
     minLength 1 (permission p) \<and> minLength 1 (permission_summary p) \<and>
     maxLength 500 (permission_summary p)"

definition providerActionSectionSchema :: "formats \<Rightarrow> provider_action \<Rightarrow> bool" where
  "providerActionSectionSchema fs a \<longleftrightarrow>
     minLength 1 (pa_provider a) \<and> maxLength 120 (pa_provider a) \<and>
     minLength 1 (pa_title a) \<and> maxLength 120 (pa_title a) \<and>
     minLength 1 (pa_message a) \<and> maxLength 500 (pa_message a) \<and>
     minLength 1 (pa_label a) \<and> maxLength 120 (pa_label a) \<and>
     (case pa_link a of None \<Rightarrow> True | Some l \<Rightarrow> is_uri fs l \<and> maxLength 2048 l)"

definition actionRequiredPayloadSchema :: "formats \<Rightarrow> action_payload \<Rightarrow> bool" where
  "actionRequiredPayloadSchema fs a \<longleftrightarrow>
     minLength 1 (action_request a) \<and>
     (case a of
        QuestionAction _ qs \<Rightarrow> 1 \<le> length qs \<and> length qs \<le> 8 \<and> list_all questionItemSchema qs
      | PermissionAction _ p \<Rightarrow> permissionSectionSchema p
      | ProviderAction _ d \<Rightarrow> providerActionSectionSchema fs d)"

definition actionResolvedPayloadSchema :: "jstr \<Rightarrow> bool" where
  "actionResolvedPayloadSchema requestId \<longleftrightarrow> minLength 1 requestId"

definition eventEnvelope :: "formats \<Rightarrow> notify_event \<Rightarrow> bool" where
  "eventEnvelope fs e \<longleftrightarrow>
     is_uuid fs (eventId e) \<and> is_date_time fs (occurredAt e) \<and>
     sourceSchema (event_source e) \<and> sessionSchema (event_session e)"

text \<open>\<open>validateNotifyEvent\<close>: the envelope and the payload schema of the branch of \<open>oneOf\<close>.\<close>

definition validateNotifyEvent :: "formats \<Rightarrow> notify_event \<Rightarrow> bool" where
  "validateNotifyEvent fs e \<longleftrightarrow>
     eventEnvelope fs e \<and>
     (case payload e of
        Heartbeat _ n \<Rightarrow> heartbeatPayloadSchema n
      | ActionRequired a \<Rightarrow> actionRequiredPayloadSchema fs a
      | ActionResolved r _ \<Rightarrow> actionResolvedPayloadSchema r
      | Terminal _ n s \<Rightarrow> terminalPayloadSchema n s)"

lemma minLength_1 [simp]: "minLength (Suc 0) s \<longleftrightarrow> s \<noteq> []"
proof -
  have "1 \<le> length (code_points s) \<longleftrightarrow> code_points s \<noteq> []"
    by (cases "code_points s") auto
  then show ?thesis by (simp add: minLength_def)
qed

lemmas schema_defs = sourceSchema_def sessionSchema_def heartbeatPayloadSchema_def
  terminalPayloadSchema_def questionOptionSchema_def questionItemSchema_def
  permissionSectionSchema_def providerActionSectionSchema_def actionRequiredPayloadSchema_def
  actionResolvedPayloadSchema_def eventEnvelope_def validateNotifyEvent_def

end
