(* ===== verification/BoundedQueue.thy ===== *)
theory BoundedQueue
  imports Contracts
begin

section \<open>The bounded priority queue of the plugin\<close>

text \<open>
  \<open>packages/plugin/src/queue.ts\<close>: entries in arrival order, linear scans for the victim of a full
  queue and for the next event to deliver. The abstract view is three first-in-first-out lanes, one
  per priority; \<open>enqueue\<close> and \<open>dequeue\<close> refine the lane operations. The locale \<open>event_queue\<close> is what
  the pump relies on: no event appears or disappears except through the results of the operations.
\<close>

record 'a entry =
  item :: 'a
  priority :: nat
  seqno :: nat

record 'a bqueue =
  capacity :: nat
  priorityOf :: "'a \<Rightarrow> nat"
  entries :: "'a entry list"
  nextSeq :: nat

record 'a enqueue_result =
  accepted :: bool
  evicted :: "'a option"

datatype range_error = RangeError

definition DEFAULT_QUEUE_CAPACITY :: nat where
  "DEFAULT_QUEUE_CAPACITY = 100"

definition notifyEventPriority :: "event_type \<Rightarrow> nat" where
  "notifyEventPriority t =
     (case t of
        HeartbeatType \<Rightarrow> 0
      | ActionResolvedType \<Rightarrow> 1
      | ActionRequiredType \<Rightarrow> 2
      | TerminalType \<Rightarrow> 2)"

definition newBoundedQueue :: "('a \<Rightarrow> nat) \<Rightarrow> jsnum \<Rightarrow> range_error + 'a bqueue" where
  "newBoundedQueue prio c =
     (case positiveInteger c of
        None \<Rightarrow> Inl RangeError
      | Some n \<Rightarrow> Inr \<lparr>capacity = n, priorityOf = prio, entries = [], nextSeq = 0\<rparr>)"

definition queue_size :: "'a bqueue \<Rightarrow> nat" where
  "queue_size q = length (entries q)"

definition push_entry :: "'a \<Rightarrow> nat \<Rightarrow> 'a bqueue \<Rightarrow> 'a bqueue" where
  "push_entry x p q =
     q\<lparr>entries := entries q @ [\<lparr>item = x, priority = p, seqno = nextSeq q\<rparr>],
       nextSeq := nextSeq q + 1\<rparr>"

text \<open>One turn of the scan for the victim; \<open>None\<close> is the index -1.\<close>

definition eviction_step :: "nat \<Rightarrow> 'a entry list \<Rightarrow> nat \<Rightarrow> nat option \<Rightarrow> nat option" where
  "eviction_step p es i lowest =
     (if p = 0 \<and> priority (es ! i) \<noteq> 0 then lowest
      else case lowest of
          None \<Rightarrow> Some i
        | Some l \<Rightarrow> if priority (es ! i) < priority (es ! l) then Some i else lowest)"

definition evictionIndex :: "nat \<Rightarrow> 'a bqueue \<Rightarrow> nat option" where
  "evictionIndex p q =
     (case fold (eviction_step p (entries q)) [0..<length (entries q)] None of
        None \<Rightarrow> None
      | Some l \<Rightarrow> if priority (entries q ! l) \<le> p then Some l else None)"

definition enqueue :: "'a \<Rightarrow> 'a bqueue \<Rightarrow> 'a bqueue \<times> 'a enqueue_result" where
  "enqueue x q =
     (let p = priorityOf q x in
      if length (entries q) < capacity q
      then (push_entry x p q, \<lparr>accepted = True, evicted = None\<rparr>)
      else case evictionIndex p q of
          None \<Rightarrow> (q, \<lparr>accepted = False, evicted = None\<rparr>)
        | Some v \<Rightarrow>
            (push_entry x p (q\<lparr>entries := remove_at v (entries q)\<rparr>),
             \<lparr>accepted = True, evicted = Some (item (entries q ! v))\<rparr>))"

definition best_step :: "'a entry list \<Rightarrow> nat \<Rightarrow> nat \<Rightarrow> nat" where
  "best_step es i best = (if priority (es ! i) > priority (es ! best) then i else best)"

definition dequeue :: "'a bqueue \<Rightarrow> ('a bqueue \<times> 'a) option" where
  "dequeue q =
     (if entries q = [] then None
      else let best = fold (best_step (entries q)) [1..<length (entries q)] 0
           in Some (q\<lparr>entries := remove_at best (entries q)\<rparr>, item (entries q ! best)))"

subsection \<open>The scans\<close>

lemma eviction_scan:
  fixes es :: "'a entry list"
  defines "elig p j \<equiv> p = 0 \<longrightarrow> priority (es ! j) = 0"
  shows "case fold (eviction_step p es) [0..<n] None of
           None \<Rightarrow> \<forall>j<n. \<not> elig p j
         | Some l \<Rightarrow> l < n \<and> elig p l \<and> (\<forall>j<n. elig p j \<longrightarrow> priority (es ! l) \<le> priority (es ! j))
                   \<and> (\<forall>j<l. elig p j \<longrightarrow> priority (es ! l) < priority (es ! j))"
proof (induction n)
  case (Suc n)
  then show ?case
    by (auto simp: eviction_step_def elig_def less_Suc_eq split: option.splits)
qed simp

lemma best_scan:
  "0 < n \<Longrightarrow> let b = fold (best_step es) [1..<n] 0 in
     b < n \<and> (\<forall>j<n. priority (es ! j) \<le> priority (es ! b)) \<and> (\<forall>j<b. priority (es ! j) < priority (es ! b))"
proof (induction n)
  case (Suc n)
  then show ?case
    by (cases "n = 0") (auto simp: best_step_def Let_def less_Suc_eq intro: le_less_trans)
qed simp

text \<open>
  What the victim is, for every priority at once: the oldest entry of the lowest priority present,
  and none when even that one outranks the newcomer.
\<close>

lemma evictionIndex_Some:
  assumes "evictionIndex p q = Some v"
  shows "v < length (entries q)" "priority (entries q ! v) \<le> p"
    "\<forall>e \<in> set (entries q). priority (entries q ! v) \<le> priority e"
    "\<forall>e \<in> set (take v (entries q)). priority e \<noteq> priority (entries q ! v)"
proof -
  let ?es = "entries q"
  have fold: "fold (eviction_step p ?es) [0..<length ?es] None = Some v"
    and le: "priority (?es ! v) \<le> p"
    using assms by (auto simp: evictionIndex_def split: option.splits if_splits)
  from eviction_scan [where p = p and es = ?es and n = "length ?es"] fold
  have v: "v < length ?es" "p = 0 \<longrightarrow> priority (?es ! v) = 0"
    and least: "\<forall>j<length ?es. (p = 0 \<longrightarrow> priority (?es ! j) = 0) \<longrightarrow> priority (?es ! v) \<le> priority (?es ! j)"
    and first: "\<forall>j<v. (p = 0 \<longrightarrow> priority (?es ! j) = 0) \<longrightarrow> priority (?es ! v) < priority (?es ! j)"
    by simp_all
  show "v < length ?es" "priority (?es ! v) \<le> p" using v le by simp_all
  have "priority (?es ! v) \<le> priority (?es ! j)" if "j < length ?es" for j
    using that v least by (cases "p = 0") auto
  then show "\<forall>e \<in> set ?es. priority (?es ! v) \<le> priority e"
    by (auto simp: in_set_conv_nth)
  have "priority (?es ! j) \<noteq> priority (?es ! v)" if "j < v" for j
    using that v first by (cases "p = 0") auto
  then show "\<forall>e \<in> set (take v ?es). priority e \<noteq> priority (?es ! v)"
    by (auto simp: in_set_conv_nth)
qed

lemma evictionIndex_None:
  assumes "evictionIndex p q = None"
  shows "\<forall>e \<in> set (entries q). p < priority e"
proof (cases "fold (eviction_step p (entries q)) [0..<length (entries q)] None")
  case None
  with eviction_scan [where p = p and es = "entries q" and n = "length (entries q)"] show ?thesis
    by (auto simp: in_set_conv_nth)
next
  case (Some l)
  with assms have "p < priority (entries q ! l)"
    by (auto simp: evictionIndex_def split: if_splits)
  with eviction_scan [where p = p and es = "entries q" and n = "length (entries q)"] Some
  show ?thesis by (fastforce simp: in_set_conv_nth)
qed

lemma dequeue_Some:
  assumes "dequeue q = Some (q', x)"
  obtains v where "v < length (entries q)" "x = item (entries q ! v)"
    "q' = q\<lparr>entries := remove_at v (entries q)\<rparr>"
    "\<forall>e \<in> set (entries q). priority e \<le> priority (entries q ! v)"
    "\<forall>e \<in> set (take v (entries q)). priority e \<noteq> priority (entries q ! v)"
proof -
  let ?es = "entries q" and ?v = "fold (best_step (entries q)) [1..<length (entries q)] 0"
  have ne: "?es \<noteq> []" and q': "q' = q\<lparr>entries := remove_at ?v ?es\<rparr>" and x: "x = item (?es ! ?v)"
    using assms by (auto simp: dequeue_def Let_def split: if_splits)
  from ne best_scan [of "length ?es" ?es] have *: "?v < length ?es"
    "\<forall>j<length ?es. priority (?es ! j) \<le> priority (?es ! ?v)"
    "\<forall>j<?v. priority (?es ! j) < priority (?es ! ?v)"
    by (simp_all add: Let_def)
  show ?thesis
  proof (rule that [of ?v])
    show "\<forall>e \<in> set ?es. priority e \<le> priority (?es ! ?v)"
      using * by (metis in_set_conv_nth)
    show "\<forall>e \<in> set (take ?v ?es). priority e \<noteq> priority (?es ! ?v)"
      using * by (fastforce simp: in_set_conv_nth)
  qed (use * q' x in auto)
qed

lemma dequeue_None: "dequeue q = None \<longleftrightarrow> entries q = []"
  by (simp add: dequeue_def Let_def)

subsection \<open>Invariant\<close>

definition queue_inv :: "'a bqueue \<Rightarrow> bool" where
  "queue_inv q \<longleftrightarrow>
     0 < capacity q \<and> length (entries q) \<le> capacity q \<and>
     (\<forall>e \<in> set (entries q). priority e = priorityOf q (item e) \<and> seqno e < nextSeq q) \<and>
     sorted_wrt (<) (map seqno (entries q))"

lemma newBoundedQueue_inv [inv_intros]: "newBoundedQueue prio c = Inr q \<Longrightarrow> queue_inv q"
  by (auto simp: newBoundedQueue_def queue_inv_def positiveInteger_pos split: option.splits)

lemma queue_inv_remove:
  "queue_inv q \<Longrightarrow> v < length (entries q) \<Longrightarrow> queue_inv (q\<lparr>entries := remove_at v (entries q)\<rparr>)"
  using set_remove_at_subset [of v "entries q"]
  by (auto simp: queue_inv_def map_remove_at sorted_wrt_remove_at)

lemma queue_inv_push:
  "queue_inv q \<Longrightarrow> length (entries q) < capacity q \<Longrightarrow> queue_inv (push_entry x (priorityOf q x) q)"
  by (auto simp: queue_inv_def push_entry_def sorted_wrt_append less_SucI)

lemma enqueue_fields [simp]:
  "capacity (fst (enqueue x q)) = capacity q" "priorityOf (fst (enqueue x q)) = priorityOf q"
  by (auto simp: enqueue_def Let_def push_entry_def split: option.splits)

lemma enqueue_inv [inv_intros]:
  assumes "queue_inv q"
  shows "queue_inv (fst (enqueue x q))"
proof (cases "evictionIndex (priorityOf q x) q")
  case (Some v)
  let ?q' = "q\<lparr>entries := remove_at v (entries q)\<rparr>"
  have v: "v < length (entries q)" using evictionIndex_Some(1) [OF Some] .
  then have "length (entries ?q') < capacity ?q'"
    using assms by (cases "entries q") (auto simp: queue_inv_def)
  with queue_inv_remove [OF assms v] have "queue_inv (push_entry x (priorityOf ?q' x) ?q')"
    by (rule queue_inv_push)
  then show ?thesis
    using assms Some queue_inv_push [of q] by (simp add: enqueue_def Let_def)
qed (use assms queue_inv_push [of q] in \<open>simp add: enqueue_def Let_def\<close>)

lemma dequeue_fields:
  "dequeue q = Some (q', x) \<Longrightarrow> capacity q' = capacity q \<and> priorityOf q' = priorityOf q"
  by (erule dequeue_Some) simp

lemma dequeue_inv [inv_intros]: "queue_inv q \<Longrightarrow> dequeue q = Some (q', x) \<Longrightarrow> queue_inv q'"
  by (erule dequeue_Some) (simp add: queue_inv_remove)

subsection \<open>Three lanes\<close>

text \<open>The abstract queue: a first-in-first-out list per priority level, 0 the least important.\<close>

record 'a lanes =
  low :: "'a list"
  mid :: "'a list"
  high :: "'a list"

definition lane :: "nat \<Rightarrow> 'a entry list \<Rightarrow> 'a list" where
  "lane p es = map item (filter (\<lambda>e. priority e = p) es)"

definition lanes_of :: "'a bqueue \<Rightarrow> 'a lanes" where
  "lanes_of q = \<lparr>low = lane 0 (entries q), mid = lane 1 (entries q), high = lane 2 (entries q)\<rparr>"

definition lanes_size :: "'a lanes \<Rightarrow> nat" where
  "lanes_size l = length (low l) + length (mid l) + length (high l)"

definition lanes_push :: "nat \<Rightarrow> 'a \<Rightarrow> 'a lanes \<Rightarrow> 'a lanes" where
  "lanes_push p x l =
     (if p = 0 then l\<lparr>low := low l @ [x]\<rparr>
      else if p = 1 then l\<lparr>mid := mid l @ [x]\<rparr> else l\<lparr>high := high l @ [x]\<rparr>)"

text \<open>
  The promise of a full queue: the newcomer replaces the oldest event of the lowest nonempty lane
  that does not outrank it, and is refused when there is none. An event of priority 0 can only
  replace one of priority 0.
\<close>

definition lanes_enqueue :: "nat \<Rightarrow> nat \<Rightarrow> 'a \<Rightarrow> 'a lanes \<Rightarrow> 'a lanes \<times> 'a enqueue_result" where
  "lanes_enqueue cap p x l =
     (if lanes_size l < cap then (lanes_push p x l, \<lparr>accepted = True, evicted = None\<rparr>)
      else if low l \<noteq> [] then
        (lanes_push p x (l\<lparr>low := tl (low l)\<rparr>), \<lparr>accepted = True, evicted = Some (hd (low l))\<rparr>)
      else if mid l \<noteq> [] \<and> 1 \<le> p then
        (lanes_push p x (l\<lparr>mid := tl (mid l)\<rparr>), \<lparr>accepted = True, evicted = Some (hd (mid l))\<rparr>)
      else if mid l = [] \<and> high l \<noteq> [] \<and> 2 \<le> p then
        (lanes_push p x (l\<lparr>high := tl (high l)\<rparr>), \<lparr>accepted = True, evicted = Some (hd (high l))\<rparr>)
      else (l, \<lparr>accepted = False, evicted = None\<rparr>))"

definition lanes_dequeue :: "'a lanes \<Rightarrow> ('a lanes \<times> 'a) option" where
  "lanes_dequeue l =
     (if high l \<noteq> [] then Some (l\<lparr>high := tl (high l)\<rparr>, hd (high l))
      else if mid l \<noteq> [] then Some (l\<lparr>mid := tl (mid l)\<rparr>, hd (mid l))
      else if low l \<noteq> [] then Some (l\<lparr>low := tl (low l)\<rparr>, hd (low l))
      else None)"

definition three_levels :: "'a bqueue \<Rightarrow> bool" where
  "three_levels q \<longleftrightarrow> (\<forall>e \<in> set (entries q). priority e \<le> 2)"

lemma lane_append [simp]: "lane p (es @ fs) = lane p es @ lane p fs"
  by (simp add: lane_def)

lemma lane_Cons [simp]: "lane p (e # es) = (if priority e = p then item e # lane p es else lane p es)"
  by (simp add: lane_def)

lemma lane_Nil [simp]: "lane p [] = []"
  by (simp add: lane_def)

lemma lane_empty: "lane p es = [] \<longleftrightarrow> (\<forall>e \<in> set es. priority e \<noteq> p)"
  by (auto simp: lane_def filter_empty_conv)

text \<open>Removing the first entry of its level removes the head of that lane and nothing else.\<close>

lemma lane_remove_first:
  assumes "v < length es" "\<forall>e \<in> set (take v es). priority e \<noteq> priority (es ! v)"
  shows "lane (priority (es ! v)) es = item (es ! v) # lane (priority (es ! v)) (remove_at v es)"
    and "p \<noteq> priority (es ! v) \<Longrightarrow> lane p (remove_at v es) = lane p es"
proof -
  define pre post e where "pre = take v es" and "post = drop (Suc v) es" and "e = es ! v"
  have es: "es = pre @ e # post" and rem: "remove_at v es = pre @ post"
    using split_at [OF assms(1)] by (simp_all add: pre_def post_def e_def remove_at_def)
  have "lane (priority e) pre = []"
    using assms(2) by (simp add: lane_empty pre_def e_def)
  then show "lane (priority (es ! v)) es = item (es ! v) # lane (priority (es ! v)) (remove_at v es)"
    unfolding rem by (subst (2) es) (simp add: e_def)
  show "lane p (remove_at v es) = lane p es" if "p \<noteq> priority (es ! v)"
    unfolding rem using that by (subst es) (simp add: e_def)
qed

lemma lanes_size_of: "three_levels q \<Longrightarrow> lanes_size (lanes_of q) = length (entries q)"
proof -
  have "\<forall>e \<in> set es. priority e \<le> 2 \<Longrightarrow>
      length (lane 0 es) + length (lane (Suc 0) es) + length (lane 2 es) = length es"
    for es :: "'a entry list"
    by (induction es) (auto simp: le_less_Suc_eq numeral_2_eq_2 le_Suc_eq)
  then show "three_levels q \<Longrightarrow> ?thesis"
    by (simp add: three_levels_def lanes_size_def lanes_of_def)
qed

lemma lanes_of_push:
  "p \<le> 2 \<Longrightarrow> lanes_of (push_entry x p q) = lanes_push p x (lanes_of q)"
  by (auto simp: lanes_of_def push_entry_def lanes_push_def)

text \<open>Removing the first entry of level \<open>p\<close> as an operation on the lanes.\<close>

lemma lanes_of_remove:
  assumes "v < length (entries q)" "\<forall>e \<in> set (take v (entries q)). priority e \<noteq> priority (entries q ! v)"
  defines "q' \<equiv> q\<lparr>entries := remove_at v (entries q)\<rparr>" and "e \<equiv> entries q ! v"
  shows "priority e = 0 \<Longrightarrow> item e = hd (low (lanes_of q)) \<and>
           lanes_of q' = (lanes_of q)\<lparr>low := tl (low (lanes_of q))\<rparr>"
    and "priority e = 1 \<Longrightarrow> item e = hd (mid (lanes_of q)) \<and>
           lanes_of q' = (lanes_of q)\<lparr>mid := tl (mid (lanes_of q))\<rparr>"
    and "priority e = 2 \<Longrightarrow> item e = hd (high (lanes_of q)) \<and>
           lanes_of q' = (lanes_of q)\<lparr>high := tl (high (lanes_of q))\<rparr>"
  using lane_remove_first [OF assms(1,2)]
  by (auto simp: lanes_of_def q'_def e_def)

lemma full_lanes_min:
  assumes "three_levels q" "\<forall>e \<in> set (entries q). m \<le> priority e" "e \<in> set (entries q)" "priority e = m"
  shows "m = 0 \<and> low (lanes_of q) \<noteq> [] \<or>
         m = 1 \<and> low (lanes_of q) = [] \<and> mid (lanes_of q) \<noteq> [] \<or>
         m = 2 \<and> low (lanes_of q) = [] \<and> mid (lanes_of q) = [] \<and> high (lanes_of q) \<noteq> []"
proof -
  have "m \<le> 2" using assms by (auto simp: three_levels_def)
  then consider "m = 0" | "m = 1" | "m = 2" by linarith
  then show ?thesis
    using assms(2-4) by cases (fastforce simp: lanes_of_def lane_empty)+
qed

lemma enqueue_lanes:
  assumes "queue_inv q" "three_levels q" "priorityOf q x \<le> 2"
  shows "lanes_enqueue (capacity q) (priorityOf q x) x (lanes_of q)
         = (lanes_of (fst (enqueue x q)), snd (enqueue x q))"
proof (cases "length (entries q) < capacity q")
  case True
  then show ?thesis
    using assms by (simp add: lanes_enqueue_def enqueue_def lanes_size_of lanes_of_push)
next
  case False
  let ?p = "priorityOf q x"
  show ?thesis
  proof (cases "evictionIndex ?p q")
    case None
    from evictionIndex_None [OF None] have above: "\<forall>e \<in> set (entries q). ?p < priority e" .
    then have "low (lanes_of q) = []" "1 \<le> ?p \<longrightarrow> mid (lanes_of q) = []"
      "2 \<le> ?p \<longrightarrow> high (lanes_of q) = []"
      by (auto simp: lanes_of_def lane_empty)
    then show ?thesis
      using False None assms by (auto simp: lanes_enqueue_def enqueue_def lanes_size_of)
  next
    case (Some v)
    note v = evictionIndex_Some [OF Some]
    let ?e = "entries q ! v" and ?q' = "q\<lparr>entries := remove_at v (entries q)\<rparr>"
    have "?e \<in> set (entries q)" using v(1) by simp
    note min = full_lanes_min [OF assms(2) v(3) this refl]
    note rem = lanes_of_remove [OF v(1) v(4)]
    have enq: "enqueue x q = (push_entry x ?p ?q', \<lparr>accepted = True, evicted = Some (item ?e)\<rparr>)"
      using False Some by (simp add: enqueue_def Let_def)
    have push: "lanes_of (push_entry x ?p ?q') = lanes_push ?p x (lanes_of ?q')"
      using assms(3) by (rule lanes_of_push)
    have full: "\<not> lanes_size (lanes_of q) < capacity q"
      using False assms(2) by (simp add: lanes_size_of)
    from min show ?thesis
    proof (elim disjE conjE)
      assume "priority ?e = 0" "low (lanes_of q) \<noteq> []"
      with rem(1) show ?thesis by (simp add: lanes_enqueue_def full enq push)
    next
      assume "priority ?e = 1" "low (lanes_of q) = []" "mid (lanes_of q) \<noteq> []"
      with rem(2) v(2) show ?thesis by (simp add: lanes_enqueue_def full enq push)
    next
      assume "priority ?e = 2" "low (lanes_of q) = []" "mid (lanes_of q) = []" "high (lanes_of q) \<noteq> []"
      with rem(3) v(2) show ?thesis by (simp add: lanes_enqueue_def full enq push)
    qed
  qed
qed

lemma full_lanes_max:
  assumes "three_levels q" "\<forall>e \<in> set (entries q). priority e \<le> m" "e \<in> set (entries q)" "priority e = m"
  shows "m = 2 \<and> high (lanes_of q) \<noteq> [] \<or>
         m = 1 \<and> high (lanes_of q) = [] \<and> mid (lanes_of q) \<noteq> [] \<or>
         m = 0 \<and> high (lanes_of q) = [] \<and> mid (lanes_of q) = [] \<and> low (lanes_of q) \<noteq> []"
proof -
  have "m \<le> 2" using assms by (auto simp: three_levels_def)
  then consider "m = 0" | "m = 1" | "m = 2" by linarith
  then show ?thesis
    using assms(2-4) by cases (fastforce simp: lanes_of_def lane_empty)+
qed

lemma dequeue_lanes:
  assumes "three_levels q"
  shows "lanes_dequeue (lanes_of q) = map_option (\<lambda>(q', x). (lanes_of q', x)) (dequeue q)"
proof (cases "dequeue q")
  case None
  then show ?thesis by (simp add: dequeue_None lanes_dequeue_def lanes_of_def)
next
  case (Some r)
  obtain q' x where r: "r = (q', x)" by force
  from Some r obtain v where v: "v < length (entries q)" "x = item (entries q ! v)"
    "q' = q\<lparr>entries := remove_at v (entries q)\<rparr>"
    "\<forall>e \<in> set (entries q). priority e \<le> priority (entries q ! v)"
    "\<forall>e \<in> set (take v (entries q)). priority e \<noteq> priority (entries q ! v)"
    by (blast elim: dequeue_Some)
  have "entries q ! v \<in> set (entries q)" using v(1) by simp
  note max = full_lanes_max [OF assms v(4) this refl]
  note rem = lanes_of_remove [OF v(1) v(5)]
  from max show ?thesis
  proof (elim disjE conjE)
    assume "priority (entries q ! v) = 2" "high (lanes_of q) \<noteq> []"
    with rem(3) v(2,3) show ?thesis by (simp add: lanes_dequeue_def Some r)
  next
    assume "priority (entries q ! v) = 1" "high (lanes_of q) = []" "mid (lanes_of q) \<noteq> []"
    with rem(2) v(2,3) show ?thesis by (simp add: lanes_dequeue_def Some r)
  next
    assume "priority (entries q ! v) = 0" "high (lanes_of q) = []" "mid (lanes_of q) = []"
      "low (lanes_of q) \<noteq> []"
    with rem(1) v(2,3) show ?thesis by (simp add: lanes_dequeue_def Some r)
  qed
qed

lemma three_levels_enqueue [inv_intros]:
  assumes "three_levels q" "priorityOf q x \<le> 2"
  shows "three_levels (fst (enqueue x q))"
  using assms set_remove_at_subset [of _ "entries q"]
  by (fastforce simp: three_levels_def enqueue_def push_entry_def Let_def split: option.splits)

lemma three_levels_dequeue [inv_intros]:
  "three_levels q \<Longrightarrow> dequeue q = Some (q', x) \<Longrightarrow> three_levels q'"
  by (erule dequeue_Some) (use set_remove_at_subset in \<open>fastforce simp: three_levels_def\<close>)

subsection \<open>The queue as the pump uses it\<close>

datatype 'a qop = Enq 'a | Deq

text \<open>
  A history of operations: the queue left behind, the events taken out in order, and the events
  that were refused or evicted.
\<close>

fun queue_run ::
  "('a \<Rightarrow> 's \<Rightarrow> 's \<times> 'a enqueue_result) \<Rightarrow> ('s \<Rightarrow> ('s \<times> 'a) option) \<Rightarrow> 'a qop list \<Rightarrow> 's \<Rightarrow>
   's \<times> 'a list \<times> 'a list" where
  "queue_run enq deq [] s = (s, [], [])"
| "queue_run enq deq (Enq x # ops) s =
     (let (s', r) = enq x s; (t, out, lost) = queue_run enq deq ops s' in
      (t, out, (if accepted r then [] else [x]) @ (case evicted r of None \<Rightarrow> [] | Some y \<Rightarrow> [y]) @ lost))"
| "queue_run enq deq (Deq # ops) s =
     (case deq s of
        None \<Rightarrow> queue_run enq deq ops s
      | Some (s', x) \<Rightarrow> (let (t, out, lost) = queue_run enq deq ops s' in (t, x # out, lost)))"

fun offered :: "'a qop list \<Rightarrow> 'a list" where
  "offered [] = []"
| "offered (Enq x # ops) = x # offered ops"
| "offered (Deq # ops) = offered ops"

text \<open>The loop that takes events until the queue is empty, with at most \<open>n\<close> turns.\<close>

fun drain_turns :: "('s \<Rightarrow> ('s \<times> 'a) option) \<Rightarrow> nat \<Rightarrow> 's \<Rightarrow> 's \<times> 'a list" where
  "drain_turns deq 0 s = (s, [])"
| "drain_turns deq (Suc n) s =
     (case deq s of
        None \<Rightarrow> (s, [])
      | Some (s', x) \<Rightarrow> (let (t, xs) = drain_turns deq n s' in (t, x # xs)))"

lemma queue_run_preserves:
  assumes "P s" "\<And>s x. P s \<Longrightarrow> P (fst (enq x s))" "\<And>s s' x. P s \<Longrightarrow> deq s = Some (s', x) \<Longrightarrow> P s'"
  shows "P (fst (queue_run enq deq ops s))"
  using assms(1)
proof (induction ops arbitrary: s)
  case (Cons a ops)
  show ?case
  proof (cases a)
    case (Enq x)
    have "P (fst (queue_run enq deq ops (fst (enq x s))))"
      by (rule Cons.IH [OF assms(2) [OF Cons.prems]])
    then show ?thesis by (auto simp: Enq Let_def split: prod.splits)
  next
    case Deq
    have "P (fst (queue_run enq deq ops s'))" if "deq s = Some (s', x)" for s' x
      by (rule Cons.IH [OF assms(3) [OF Cons.prems that]])
    with Cons show ?thesis by (auto simp: Deq Let_def split: prod.splits option.splits)
  qed
qed simp

locale event_queue =
  fixes inv :: "'s \<Rightarrow> bool"
    and contents :: "'s \<Rightarrow> 'a multiset"
    and enq :: "'a \<Rightarrow> 's \<Rightarrow> 's \<times> 'a enqueue_result"
    and deq :: "'s \<Rightarrow> ('s \<times> 'a) option"
  assumes enq_inv: "inv s \<Longrightarrow> inv (fst (enq x s))"
    and deq_inv: "inv s \<Longrightarrow> deq s = Some (s', x) \<Longrightarrow> inv s'"
    and enq_contents: "inv s \<Longrightarrow> enq x s = (s', r) \<Longrightarrow>
      contents s' + mset (case evicted r of None \<Rightarrow> [] | Some y \<Rightarrow> [y])
      = contents s + (if accepted r then {#x#} else {#})"
    and deq_none: "inv s \<Longrightarrow> deq s = None \<longleftrightarrow> contents s = {#}"
    and deq_some: "inv s \<Longrightarrow> deq s = Some (s', x) \<Longrightarrow> contents s = add_mset x (contents s')"
begin

lemma run_inv: "inv s \<Longrightarrow> inv (fst (queue_run enq deq ops s))"
  by (rule queue_run_preserves [where P = inv]) (auto intro: enq_inv deq_inv)

lemma run_conserves:
  "inv s \<Longrightarrow> queue_run enq deq ops s = (t, out, lost) \<Longrightarrow>
   contents s + mset (offered ops) = contents t + mset out + mset lost"
proof (induction ops arbitrary: s t out lost)
  case (Cons a ops)
  show ?case
  proof (cases a)
    case (Enq x)
    obtain s' r where e: "enq x s = (s', r)" by force
    obtain lost' where run: "queue_run enq deq ops s' = (t, out, lost')"
      and lost: "lost = (if accepted r then [] else [x]) @ (case evicted r of None \<Rightarrow> [] | Some y \<Rightarrow> [y]) @ lost'"
      using Cons.prems(2) Enq e by (auto simp: Let_def split: prod.splits)
    have "inv s'" using enq_inv [OF Cons.prems(1), of x] e by simp
    from Cons.IH [OF this run]
    have *: "contents s' + mset (offered ops) = contents t + mset out + mset lost'" .
    let ?ev = "mset (case evicted r of None \<Rightarrow> [] | Some y \<Rightarrow> [y])"
    have "contents s' + ?ev = contents s + (if accepted r then {#x#} else {#})"
      by (rule enq_contents [OF Cons.prems(1) e])
    then have "contents s + {#x#} = contents s' + ?ev + (if accepted r then {#} else {#x#})"
      by (auto split: if_splits)
    then have "contents s + mset (offered (a # ops))
        = contents s' + mset (offered ops) + ?ev + (if accepted r then {#} else {#x#})"
      by (simp add: Enq ac_simps)
    also have "\<dots> = contents t + mset out + mset lost"
      by (simp add: * lost ac_simps)
    finally show ?thesis .
  next
    case Deq
    show ?thesis
    proof (cases "deq s")
      case None
      with Cons Deq show ?thesis by simp
    next
      case (Some p)
      obtain s' x where p: "p = (s', x)" by force
      with Some Cons.prems(2) Deq obtain out' where run: "queue_run enq deq ops s' = (t, out', lost)"
        and out: "out = x # out'"
        by (auto simp: Let_def split: prod.splits)
      from deq_inv [OF Cons.prems(1)] Some p have "inv s'" by simp
      from Cons.IH [OF this run] deq_some [OF Cons.prems(1)] Some p Deq out
      show ?thesis by simp
    qed
  qed
qed simp

lemma drain_contents:
  "inv s \<Longrightarrow> size (contents s) \<le> n \<Longrightarrow> drain_turns deq n s = (t, xs) \<Longrightarrow>
   inv t \<and> contents t = {#} \<and> mset xs = contents s"
proof (induction n arbitrary: s t xs)
  case (Suc n)
  show ?case
  proof (cases "deq s")
    case None
    with Suc.prems show ?thesis by (auto simp: deq_none)
  next
    case (Some p)
    obtain s' x where p: "p = (s', x)" by force
    with Some Suc.prems(3) obtain xs' where run: "drain_turns deq n s' = (t, xs')" and xs: "xs = x # xs'"
      by (auto simp: Let_def split: prod.splits)
    from Some p have inv: "inv s'" and c: "contents s = add_mset x (contents s')"
      using deq_inv deq_some Suc.prems(1) by blast+
    with Suc.prems(2) have "size (contents s') \<le> n" by simp
    from Suc.IH [OF inv this run] c xs show ?thesis by simp
  qed
qed auto

end

definition queue_contents :: "'a bqueue \<Rightarrow> 'a multiset" where
  "queue_contents q = mset (map item (entries q))"

lemma size_queue_contents: "size (queue_contents q) = queue_size q"
  by (simp add: queue_contents_def queue_size_def)

lemma contents_remove:
  "v < length (entries q) \<Longrightarrow>
   queue_contents q = add_mset (item (entries q ! v)) (queue_contents (q\<lparr>entries := remove_at v (entries q)\<rparr>))"
  using mset_remove_at [of v "entries q"]
  by (simp add: queue_contents_def) (metis image_mset_add_mset)

lemma contents_push: "queue_contents (push_entry x p q) = add_mset x (queue_contents q)"
  by (simp add: queue_contents_def push_entry_def)

interpretation bq: event_queue queue_inv queue_contents enqueue dequeue
proof
  show "queue_contents s' + mset (case evicted r of None \<Rightarrow> [] | Some y \<Rightarrow> [y])
      = queue_contents s + (if accepted r then {#x#} else {#})"
    if "enqueue x s = (s', r)" for s :: "'a bqueue" and x s' r
    using that contents_remove [symmetric, OF evictionIndex_Some(1)]
    by (auto simp: enqueue_def Let_def contents_push split: option.splits if_splits)
  show "dequeue s = None \<longleftrightarrow> queue_contents s = {#}" for s :: "'a bqueue"
    by (simp add: dequeue_None queue_contents_def)
  show "queue_contents s = add_mset x (queue_contents s')" if "dequeue s = Some (s', x)"
    for s s' :: "'a bqueue" and x
    using that contents_remove by (blast elim: dequeue_Some)
qed (auto intro: inv_intros)

subsection \<open>Properties\<close>

definition reachable_queue :: "('a \<Rightarrow> nat) \<Rightarrow> jsnum \<Rightarrow> 'a qop list \<Rightarrow> 'a bqueue \<Rightarrow> bool" where
  "reachable_queue prio c ops q \<longleftrightarrow>
     (case newBoundedQueue prio c of
        Inl _ \<Rightarrow> False
      | Inr q0 \<Rightarrow> q = fst (queue_run enqueue dequeue ops q0))"

lemma reachable_queue_inv:
  assumes "reachable_queue prio c ops q"
  shows "queue_inv q" "priorityOf q = prio" "positiveInteger c = Some (capacity q)"
    "\<forall>x. prio x \<le> 2 \<Longrightarrow> three_levels q"
proof -
  from assms obtain q0 where q0: "newBoundedQueue prio c = Inr q0"
    and q: "q = fst (queue_run enqueue dequeue ops q0)"
    by (auto simp: reachable_queue_def split: sum.splits)
  have f: "priorityOf q0 = prio" "positiveInteger c = Some (capacity q0)" "entries q0 = []"
    using q0 by (auto simp: newBoundedQueue_def split: option.splits)
  show "queue_inv q" unfolding q by (rule bq.run_inv [OF newBoundedQueue_inv [OF q0]])
  have "capacity q = capacity q0 \<and> priorityOf q = priorityOf q0"
    unfolding q by (rule queue_run_preserves) (auto dest: dequeue_fields)
  with f show "priorityOf q = prio" "positiveInteger c = Some (capacity q)" by simp_all
  show "three_levels q" if "\<forall>x. prio x \<le> 2"
  proof -
    have "three_levels q \<and> priorityOf q = prio"
      unfolding q
      by (rule queue_run_preserves)
        (use f that in \<open>auto intro: inv_intros dest: dequeue_fields simp: three_levels_def [of q0]\<close>)
    then show ?thesis ..
  qed
qed

text \<open>
  C38: Every queue that \<open>BoundedQueue\<close> reaches from its constructor behaves as three first-in-first-out
  lanes with a shared capacity: \<open>enqueue\<close> and \<open>dequeue\<close> return and leave what the lane operations do,
  on every branch (room left, eviction in each lane, rejection, empty queue).
\<close>

theorem queue_refines_lanes:
  assumes "reachable_queue prio c ops q" "\<forall>x. prio x \<le> 2"
  shows "lanes_enqueue (capacity q) (prio x) x (lanes_of q)
           = (lanes_of (fst (enqueue x q)), snd (enqueue x q))
         \<and> lanes_dequeue (lanes_of q) = map_option (\<lambda>(q', y). (lanes_of q', y)) (dequeue q)
         \<and> queue_size q \<le> capacity q"
  using reachable_queue_inv [OF assms(1)] assms(2) enqueue_lanes [of q x] dequeue_lanes [of q]
  by (auto simp: queue_inv_def queue_size_def)

definition sample_prio :: "nat \<Rightarrow> nat" where
  "sample_prio n = n mod 3"

lemma sample_prio_le: "\<forall>x. sample_prio x \<le> 2"
  by (auto simp: sample_prio_def)

definition sample_queue :: "nat bqueue" where
  "sample_queue =
     \<lparr>capacity = 2, priorityOf = sample_prio,
      entries = [\<lparr>item = 5, priority = 2, seqno = 1\<rparr>, \<lparr>item = 4, priority = 1, seqno = 2\<rparr>], nextSeq = 3\<rparr>"

lemma sample_reachable: "reachable_queue sample_prio (Finite 2) [Enq 3, Enq 5, Enq 4] sample_queue"
  by (simp add: reachable_queue_def newBoundedQueue_def positiveInteger_def enqueue_def push_entry_def
    evictionIndex_def eviction_step_def sample_prio_def sample_queue_def upt_rec remove_at_def
    numeral_2_eq_2 Let_def)

lemma queue_refines_lanes_witness:
  "lanes_enqueue 2 2 8 (lanes_of sample_queue)
     = (lanes_of (fst (enqueue 8 sample_queue)), snd (enqueue 8 sample_queue))
   \<and> evicted (snd (enqueue 8 sample_queue)) = Some 4"
proof -
  have "evicted (snd (enqueue 8 sample_queue)) = Some 4"
    by (simp add: sample_queue_def enqueue_def evictionIndex_def eviction_step_def sample_prio_def upt_rec)
  then show ?thesis
    using queue_refines_lanes [OF sample_reachable sample_prio_le, of 8]
    by (simp add: sample_prio_def sample_queue_def)
qed

text \<open>
  No event is lost silently or delivered twice: over any history of \<open>enqueue\<close> and \<open>dequeue\<close>
  calls, the events offered to the queue are exactly those taken out, those reported as rejected or
  evicted, and those still queued, with their multiplicities.
\<close>

theorem queue_history_conserves:
  assumes "newBoundedQueue prio c = Inr q0" "queue_run enqueue dequeue ops q0 = (q, out, lost)"
  shows "mset (offered ops) = mset out + mset lost + queue_contents q"
proof -
  have "queue_contents q0 = {#}"
    using assms(1) by (auto simp: newBoundedQueue_def queue_contents_def split: option.splits)
  with bq.run_conserves [OF newBoundedQueue_inv [OF assms(1)] assms(2)] show ?thesis by simp
qed

lemma queue_history_conserves_witness:
  "\<exists>q0 q. newBoundedQueue sample_prio (Finite 1) = Inr q0 \<and>
     queue_run enqueue dequeue [Enq 3, Enq 5, Enq 4, Deq, Enq 6] q0 = (q, [5], [3, 4]) \<and>
     mset [3, 5, 4, 6] = mset [5] + mset [3, 4] + queue_contents q"
proof -
  let ?q0 = "\<lparr>capacity = 1, priorityOf = sample_prio, entries = [], nextSeq = 0\<rparr>"
  have new: "newBoundedQueue sample_prio (Finite 1) = Inr ?q0"
    by (simp add: newBoundedQueue_def positiveInteger_def)
  obtain q where run: "queue_run enqueue dequeue [Enq 3, Enq 5, Enq 4, Deq, Enq 6] ?q0 = (q, [5], [3, 4])"
    by (simp add: enqueue_def push_entry_def evictionIndex_def eviction_step_def dequeue_def best_step_def
      sample_prio_def upt_rec remove_at_def Let_def)
  from queue_history_conserves [OF new run] new run show ?thesis by auto
qed

text \<open>Delivery order.\<close>

lemma lanes_dequeue_order:
  "lanes_dequeue l = Some (l', x) \<Longrightarrow> high l @ mid l @ low l = x # high l' @ mid l' @ low l'"
  by (auto simp: lanes_dequeue_def split: if_splits)

lemma drain_lanes:
  "three_levels q \<Longrightarrow> length (entries q) \<le> n \<Longrightarrow>
   snd (drain_turns dequeue n q) = high (lanes_of q) @ mid (lanes_of q) @ low (lanes_of q)"
proof (induction n arbitrary: q)
  case 0
  then show ?case by (simp add: lanes_of_def)
next
  case (Suc n)
  show ?case
  proof (cases "dequeue q")
    case None
    with dequeue_None [of q] show ?thesis by (simp add: lanes_of_def)
  next
    case (Some r)
    obtain q' x where r: "r = (q', x)" by force
    with Some have d: "dequeue q = Some (q', x)" by simp
    then have "length (entries q') \<le> n"
      using Suc.prems(2) by (elim dequeue_Some) simp
    from Suc.IH [OF three_levels_dequeue [OF Suc.prems(1) d] this]
    have "snd (drain_turns dequeue (Suc n) q)
        = x # high (lanes_of q') @ mid (lanes_of q') @ low (lanes_of q')"
      by (auto simp: d Let_def split: prod.splits)
    moreover have "lanes_dequeue (lanes_of q) = Some (lanes_of q', x)"
      by (simp add: dequeue_lanes [OF Suc.prems(1)] d)
    ultimately show ?thesis by (simp add: lanes_dequeue_order)
  qed
qed

lemma lane_by_priority:
  "queue_inv q \<Longrightarrow> lane p (entries q) = filter (\<lambda>x. priorityOf q x = p) (map item (entries q))"
proof -
  have "\<forall>e \<in> set es. priority e = f (item e) \<Longrightarrow> lane p es = filter (\<lambda>x. f x = p) (map item es)"
    for f and es :: "'a entry list"
    by (induction es) auto
  then show "queue_inv q \<Longrightarrow> ?thesis" by (simp add: queue_inv_def)
qed

text \<open>
  Emptying a reachable queue takes as many \<open>dequeue\<close> calls as it holds events, and delivers
  first all events of priority 2, then those of priority 1, then the heartbeats, each group in the
  order in which the events arrived.
\<close>

theorem queue_drains_by_priority:
  assumes "reachable_queue prio c ops q" "\<forall>x. prio x \<le> 2"
  defines "arrived \<equiv> map item (entries q)"
  shows "snd (drain_turns dequeue (queue_size q) q)
           = filter (\<lambda>x. prio x = 2) arrived @ filter (\<lambda>x. prio x = 1) arrived @ filter (\<lambda>x. prio x = 0) arrived
         \<and> entries (fst (drain_turns dequeue (queue_size q) q)) = []"
proof -
  note q = reachable_queue_inv [OF assms(1)]
  obtain t xs where run: "drain_turns dequeue (queue_size q) q = (t, xs)" by force
  from bq.drain_contents [OF q(1) _ run] have "queue_contents t = {#}"
    by (simp add: size_queue_contents)
  then have "entries t = []" by (simp add: queue_contents_def)
  moreover have "xs = high (lanes_of q) @ mid (lanes_of q) @ low (lanes_of q)"
    using drain_lanes [OF q(4) [OF assms(2)], of "queue_size q"] run by (simp add: queue_size_def)
  ultimately show ?thesis
    using q(1,2) run by (simp add: lanes_of_def lane_by_priority arrived_def)
qed

lemma queue_drains_by_priority_witness:
  "snd (drain_turns dequeue (queue_size sample_queue) sample_queue) = [5, 4]"
proof -
  have "map item (entries sample_queue) = [5, 4]" by (simp add: sample_queue_def)
  then show ?thesis
    using queue_drains_by_priority [OF sample_reachable sample_prio_le] by (simp add: sample_prio_def)
qed

text \<open>
  The loss policy: an event is only dropped when the queue is full. A rejected newcomer is
  outranked by every queued event, an evicted event is the oldest of the lowest priority present and
  does not outrank the newcomer; so a heartbeat never costs a terminal, action or resolution event.
\<close>

theorem queue_loss_policy:
  assumes "queue_inv q" "enqueue x q = (q', r)"
  shows "(\<not> accepted r \<longrightarrow>
            q' = q \<and> queue_size q = capacity q \<and> (\<forall>y \<in> set (map item (entries q)). priorityOf q x < priorityOf q y))
       \<and> (\<forall>y. evicted r = Some y \<longrightarrow>
            accepted r \<and> queue_size q = capacity q \<and> priorityOf q y \<le> priorityOf q x \<and>
            (\<exists>before after. map item (entries q) = before @ y # after \<and>
               map item (entries q') = before @ after @ [x] \<and>
               (\<forall>z \<in> set before. priorityOf q y < priorityOf q z) \<and>
               (\<forall>z \<in> set after. priorityOf q y \<le> priorityOf q z)))"
proof (cases "length (entries q) < capacity q")
  case True
  then show ?thesis using assms by (auto simp: enqueue_def)
next
  case False
  with assms(1) have full: "queue_size q = capacity q" by (simp add: queue_inv_def queue_size_def)
  have prio: "\<forall>e \<in> set (entries q). priority e = priorityOf q (item e)"
    using assms(1) by (simp add: queue_inv_def)
  show ?thesis
  proof (cases "evictionIndex (priorityOf q x) q")
    case None
    with assms(2) False full prio evictionIndex_None [OF None] show ?thesis
      by (auto simp: enqueue_def)
  next
    case (Some v)
    note v = evictionIndex_Some [OF Some]
    let ?b = "map item (take v (entries q))" and ?a = "map item (drop (Suc v) (entries q))"
    let ?y = "item (entries q ! v)"
    have split: "map item (entries q) = ?b @ ?y # ?a"
      using split_at [OF v(1)] by (metis list.map(2) map_append)
    have y: "priority (entries q ! v) = priorityOf q ?y" using prio v(1) by simp
    have "priorityOf q ?y < priorityOf q (item e)" if "e \<in> set (take v (entries q))" for e
      using v(3,4) prio y that in_set_takeD [OF that] by (metis le_neq_implies_less)
    then have "\<forall>z \<in> set ?b. priorityOf q ?y < priorityOf q z" by auto
    moreover have "\<forall>z \<in> set ?a. priorityOf q ?y \<le> priorityOf q z"
      using v(3) prio y by (auto dest!: in_set_dropD)
    moreover have q': "map item (entries q') = ?b @ ?a @ [x]"
      and r: "r = \<lparr>accepted = True, evicted = Some ?y\<rparr>"
      using assms(2) False Some by (auto simp: enqueue_def push_entry_def remove_at_def)
    ultimately have "\<exists>before after. map item (entries q) = before @ ?y # after \<and>
        map item (entries q') = before @ after @ [x] \<and>
        (\<forall>z \<in> set before. priorityOf q ?y < priorityOf q z) \<and>
        (\<forall>z \<in> set after. priorityOf q ?y \<le> priorityOf q z)"
      using split by blast
    then show ?thesis using full v(2) y r by simp
  qed
qed

lemma queue_loss_policy_witness:
  "\<not> accepted (snd (enqueue 6 (\<lparr>capacity = 1, priorityOf = sample_prio,
       entries = [\<lparr>item = 5, priority = 2, seqno = 0\<rparr>], nextSeq = 1\<rparr> :: nat bqueue)))
   \<and> sample_prio 6 < sample_prio 5"
proof -
  let ?q = "\<lparr>capacity = 1, priorityOf = sample_prio,
    entries = [\<lparr>item = 5, priority = 2, seqno = 0\<rparr>], nextSeq = 1\<rparr> :: nat bqueue"
  have inv: "queue_inv ?q" by (simp add: queue_inv_def sample_prio_def)
  have e: "enqueue 6 ?q = (?q, \<lparr>accepted = False, evicted = None\<rparr>)"
    by (simp add: enqueue_def evictionIndex_def eviction_step_def sample_prio_def)
  from queue_loss_policy [OF inv e] e show ?thesis by simp
qed

end
