(* ===== verification/Pump.thy ===== *)
theory Pump
  imports BoundedQueue
begin

section \<open>The delivery pump\<close>

text \<open>
  \<open>packages/plugin/src/pump.ts\<close>. The methods run to their first \<open>await\<close> without interruption; what
  follows an \<open>await\<close> is a later step. So a drain loop is either waiting for one \<open>send\<close>
  (\<open>Sending e\<close>) or has returned with its \<open>settle\<close> callback still to come (\<open>Returned\<close>), and
  \<open>stop\<close> is a task of its own that waits for the running loop, runs a last drain, and is done.
  The steps \<open>pump_step\<close> may come in any order: producers may enqueue between any two of them. The
  logger and the sender are seen as a list of outputs. The delivery promise of \<open>send\<close> settles either
  way (the flag of \<open>Sent\<close> and \<open>FinalSent\<close>).
\<close>

datatype drain_run = Sending notify_event | Returned

datatype stop_phase = AwaitingRun | FinalDrain drain_run | StopDone

datatype log_level = DebugLevel | ErrorLevel

datatype loss_kind = EvictedLoss | RejectedLoss

datatype pump_out =
    SendCall notify_event
  | LogDelivered notify_event
  | LogFailed notify_event
  | LogLoss log_level loss_kind notify_event
  | LogStopped notify_event

record pump =
  queue :: "notify_event bqueue"
  draining :: "drain_run option"
  stopped :: bool
  stopping :: "stop_phase option"
  outputs :: "pump_out list"

abbreviation event_priority :: "notify_event \<Rightarrow> nat" where
  "event_priority e \<equiv> notifyEventPriority (event_type e)"

definition newQueuePump :: "jsnum option \<Rightarrow> range_error + pump" where
  "newQueuePump cap =
     (case newBoundedQueue event_priority
         (case cap of None \<Rightarrow> Finite (of_nat DEFAULT_QUEUE_CAPACITY) | Some c \<Rightarrow> c) of
        Inl e \<Rightarrow> Inl e
      | Inr q \<Rightarrow> Inr \<lparr>queue = q, draining = None, stopped = False, stopping = None, outputs = []\<rparr>)"

definition logLoss :: "loss_kind \<Rightarrow> notify_event \<Rightarrow> pump_out" where
  "logLoss kind e =
     LogLoss (if event_type e = HeartbeatType then DebugLevel else ErrorLevel) kind e"

text \<open>One turn of the loop of \<open>drain\<close>: the next \<open>send\<close>, or the end of the loop.\<close>

definition drain_turn :: "notify_event bqueue \<Rightarrow> notify_event bqueue \<times> drain_run \<times> pump_out list" where
  "drain_turn q =
     (case dequeue q of
        None \<Rightarrow> (q, Returned, [])
      | Some (q', e) \<Rightarrow> (q', Sending e, [SendCall e]))"

definition send_log_entry :: "bool \<Rightarrow> notify_event \<Rightarrow> pump_out" where
  "send_log_entry ok e = (if ok then LogDelivered e else LogFailed e)"

definition kick :: "pump \<Rightarrow> pump" where
  "kick p =
     (if stopped p \<or> draining p \<noteq> None then p
      else let (q, run, outs) = drain_turn (queue p)
           in p\<lparr>queue := q, draining := Some run, outputs := outputs p @ outs\<rparr>)"

definition pump_enqueue :: "notify_event \<Rightarrow> pump \<Rightarrow> pump \<times> notify_event enqueue_result" where
  "pump_enqueue e p =
     (if stopped p
      then (p\<lparr>outputs := outputs p @ [LogStopped e]\<rparr>, \<lparr>accepted = False, evicted = None\<rparr>)
      else let (q, r) = enqueue e (queue p);
               logs = (case evicted r of None \<Rightarrow> [] | Some v \<Rightarrow> [logLoss EvictedLoss v])
                      @ (if accepted r then [] else [logLoss RejectedLoss e])
           in (kick (p\<lparr>queue := q, outputs := outputs p @ logs\<rparr>), r))"

text \<open>The \<open>send\<close> of the running loop settles: log, then the next turn.\<close>

definition send_settled :: "bool \<Rightarrow> notify_event \<Rightarrow> pump \<Rightarrow> pump" where
  "send_settled ok e p =
     (let (q, run, outs) = drain_turn (queue p)
      in p\<lparr>queue := q, draining := Some run, outputs := outputs p @ send_log_entry ok e # outs\<rparr>)"

text \<open>The callback \<open>settle\<close> of \<open>kick\<close>.\<close>

definition settle :: "pump \<Rightarrow> pump" where
  "settle p =
     (let p' = p\<lparr>draining := None\<rparr>
      in if \<not> stopped p' \<and> 0 < queue_size (queue p') then kick p' else p')"

text \<open>What \<open>stop\<close> does once no loop runs: the last drain when events are left.\<close>

definition final_drain :: "pump \<Rightarrow> pump" where
  "final_drain p =
     (if 0 < queue_size (queue p)
      then let (q, run, outs) = drain_turn (queue p)
           in p\<lparr>queue := q, stopping := Some (FinalDrain run), outputs := outputs p @ outs\<rparr>
      else p\<lparr>stopping := Some StopDone\<rparr>)"

definition stop :: "pump \<Rightarrow> pump" where
  "stop p =
     (if stopping p \<noteq> None then p
      else let p' = p\<lparr>stopped := True\<rparr>
           in if draining p' \<noteq> None then p'\<lparr>stopping := Some AwaitingRun\<rparr> else final_drain p')"

definition final_settled :: "bool \<Rightarrow> notify_event \<Rightarrow> pump \<Rightarrow> pump" where
  "final_settled ok e p =
     (let (q, run, outs) = drain_turn (queue p)
      in p\<lparr>queue := q, stopping := Some (FinalDrain run), outputs := outputs p @ send_log_entry ok e # outs\<rparr>)"

datatype pump_label =
  Enqueue notify_event | Kick | Stop | Sent bool | Settle | Resume | FinalSent bool | FinalSettle

inductive pump_step :: "pump_label \<Rightarrow> pump \<Rightarrow> pump \<Rightarrow> bool" where
  enqueue_step: "pump_step (Enqueue e) p (fst (pump_enqueue e p))"
| kick_step: "pump_step Kick p (kick p)"
| stop_step: "pump_step Stop p (stop p)"
| sent_step: "draining p = Some (Sending e) \<Longrightarrow> pump_step (Sent ok) p (send_settled ok e p)"
| settle_step: "draining p = Some Returned \<Longrightarrow> pump_step Settle p (settle p)"
| resume_step: "stopping p = Some AwaitingRun \<Longrightarrow> \<forall>e. draining p \<noteq> Some (Sending e) \<Longrightarrow>
    pump_step Resume p (final_drain p)"
| final_sent_step: "stopping p = Some (FinalDrain (Sending e)) \<Longrightarrow>
    pump_step (FinalSent ok) p (final_settled ok e p)"
| final_settle_step: "stopping p = Some (FinalDrain Returned) \<Longrightarrow>
    pump_step FinalSettle p (p\<lparr>stopping := Some StopDone\<rparr>)"

inductive_cases pump_stepE: "pump_step l p p'"

text \<open>A run from the constructor; the list collects the events passed to \<open>enqueue\<close>.\<close>

inductive pump_reach :: "jsnum option \<Rightarrow> notify_event list \<Rightarrow> pump \<Rightarrow> bool" for cap where
  start: "newQueuePump cap = Inr p \<Longrightarrow> pump_reach cap [] p"
| step: "pump_reach cap es p \<Longrightarrow> pump_step l p p' \<Longrightarrow>
    pump_reach cap (es @ (case l of Enqueue e \<Rightarrow> [e] | _ \<Rightarrow> [])) p'"

text \<open>The steps that the event loop takes by itself.\<close>

definition internal :: "pump_label \<Rightarrow> bool" where
  "internal l = (case l of Enqueue _ \<Rightarrow> False | Kick \<Rightarrow> False | Stop \<Rightarrow> False | _ \<Rightarrow> True)"

definition pump_internal :: "pump \<Rightarrow> pump \<Rightarrow> bool" where
  "pump_internal p p' \<longleftrightarrow> (\<exists>l. internal l \<and> pump_step l p p')"

subsection \<open>Accounting of events\<close>

fun sent_event :: "pump_out \<Rightarrow> notify_event list" where
  "sent_event (SendCall e) = [e]"
| "sent_event _ = []"

fun settled_event :: "pump_out \<Rightarrow> notify_event list" where
  "settled_event (LogDelivered e) = [e]"
| "settled_event (LogFailed e) = [e]"
| "settled_event _ = []"

fun dropped_event :: "pump_out \<Rightarrow> notify_event list" where
  "dropped_event (LogLoss _ _ e) = [e]"
| "dropped_event (LogStopped e) = [e]"
| "dropped_event _ = []"

definition sent :: "pump \<Rightarrow> notify_event multiset" where
  "sent p = mset (concat (map sent_event (outputs p)))"

definition settled :: "pump \<Rightarrow> notify_event multiset" where
  "settled p = mset (concat (map settled_event (outputs p)))"

definition dropped :: "pump \<Rightarrow> notify_event multiset" where
  "dropped p = mset (concat (map dropped_event (outputs p)))"

fun run_flight :: "drain_run \<Rightarrow> notify_event multiset" where
  "run_flight (Sending e) = {#e#}"
| "run_flight Returned = {#}"

definition in_flight :: "pump \<Rightarrow> notify_event multiset" where
  "in_flight p =
     (case draining p of None \<Rightarrow> {#} | Some r \<Rightarrow> run_flight r)
     + (case stopping p of Some (FinalDrain r) \<Rightarrow> run_flight r | _ \<Rightarrow> {#})"

definition pump_inv :: "notify_event list \<Rightarrow> pump \<Rightarrow> bool" where
  "pump_inv es p \<longleftrightarrow>
     queue_inv (queue p) \<and>
     mset es = sent p + dropped p + queue_contents (queue p) \<and>
     sent p = settled p + in_flight p \<and>
     (stopped p \<longleftrightarrow> stopping p \<noteq> None) \<and>
     (draining p = None \<and> \<not> stopped p \<longrightarrow> entries (queue p) = []) \<and>
     (case stopping p of
        Some (FinalDrain r) \<Rightarrow>
          (\<forall>e. draining p \<noteq> Some (Sending e)) \<and> (r = Returned \<longrightarrow> entries (queue p) = [])
      | Some StopDone \<Rightarrow> (\<forall>e. draining p \<noteq> Some (Sending e)) \<and> entries (queue p) = []
      | _ \<Rightarrow> True)"

lemma outputs_append [simp]:
  "sent (p\<lparr>outputs := a @ b\<rparr>) = mset (concat (map sent_event a)) + mset (concat (map sent_event b))"
  "settled (p\<lparr>outputs := a @ b\<rparr>) = mset (concat (map settled_event a)) + mset (concat (map settled_event b))"
  "dropped (p\<lparr>outputs := a @ b\<rparr>) = mset (concat (map dropped_event a)) + mset (concat (map dropped_event b))"
  by (simp_all add: sent_def settled_def dropped_def)

lemma send_log_entry_events [simp]:
  "sent_event (send_log_entry ok e) = []" "settled_event (send_log_entry ok e) = [e]"
  "dropped_event (send_log_entry ok e) = []"
  by (simp_all add: send_log_entry_def)

lemma logLoss_events [simp]:
  "sent_event (logLoss k e) = []" "settled_event (logLoss k e) = []" "dropped_event (logLoss k e) = [e]"
  by (simp_all add: logLoss_def)

text \<open>What one turn of a drain loop does to the accounts.\<close>

lemma drain_turn_cases:
  assumes "queue_inv q" "drain_turn q = (q', run, outs)"
  obtains (empty) "run = Returned" "outs = []" "q' = q" "entries q = []"
  | (more) e where "run = Sending e" "outs = [SendCall e]" "queue_inv q'"
      "queue_contents q = add_mset e (queue_contents q')"
      "Suc (queue_size q') = queue_size q"
proof (cases "dequeue q")
  case None
  with assms(2) empty show thesis by (auto simp: drain_turn_def dequeue_None)
next
  case (Some r)
  then obtain q1 e where d: "dequeue q = Some (q1, e)" by (cases r) auto
  with assms(2) have eq: "q' = q1" "run = Sending e" "outs = [SendCall e]"
    by (auto simp: drain_turn_def)
  have c: "queue_contents q = add_mset e (queue_contents q')"
    using bq.deq_some [OF assms(1) d] eq by simp
  have "Suc (queue_size q') = queue_size q"
    using arg_cong [OF c, of size] by (simp add: size_queue_contents)
  then show thesis
    using more eq c dequeue_inv [OF assms(1) d] by simp
qed

lemma queue_empty_contents [simp]: "entries q = [] \<Longrightarrow> queue_contents q = {#}"
  by (simp add: queue_contents_def)

lemma queue_size_pos: "0 < queue_size q \<longleftrightarrow> entries q \<noteq> []"
  by (simp add: queue_size_def)

lemma kick_accounts:
  assumes "queue_inv (queue p)"
  shows "queue_inv (queue (kick p))"
    "sent (kick p) + queue_contents (queue (kick p)) = sent p + queue_contents (queue p)"
    "dropped (kick p) = dropped p" "settled (kick p) = settled p"
    "sent p = settled p + in_flight p \<Longrightarrow> sent (kick p) = settled (kick p) + in_flight (kick p)"
    "stopped (kick p) = stopped p" "stopping (kick p) = stopping p"
    "stopped p \<Longrightarrow> kick p = p"
    "\<not> stopped p \<Longrightarrow> draining (kick p) \<noteq> None"
proof -
  obtain q run outs where turn: "drain_turn (queue p) = (q, run, outs)" by (metis prod_cases3)
  have *: "queue_inv (queue (kick p)) \<and>
    sent (kick p) + queue_contents (queue (kick p)) = sent p + queue_contents (queue p) \<and>
    dropped (kick p) = dropped p \<and> settled (kick p) = settled p \<and>
    (sent p = settled p + in_flight p \<longrightarrow> sent (kick p) = settled (kick p) + in_flight (kick p))"
    by (rule drain_turn_cases [OF assms turn])
      (auto simp: kick_def turn assms in_flight_def sent_def settled_def dropped_def)
  then show "queue_inv (queue (kick p))"
    "sent (kick p) + queue_contents (queue (kick p)) = sent p + queue_contents (queue p)"
    "dropped (kick p) = dropped p" "settled (kick p) = settled p"
    "sent p = settled p + in_flight p \<Longrightarrow> sent (kick p) = settled (kick p) + in_flight (kick p)"
    by blast+
  show "stopped (kick p) = stopped p" "stopping (kick p) = stopping p"
    "stopped p \<Longrightarrow> kick p = p" "\<not> stopped p \<Longrightarrow> draining (kick p) \<noteq> None"
    by (auto simp: kick_def turn)
qed

lemma pump_inv_kick: 
  assumes "queue_inv (queue p)" "mset es = sent p + dropped p + queue_contents (queue p)"
    "sent p = settled p + in_flight p" "\<not> stopped p" "stopping p = None"
  shows "pump_inv es (kick p)"
  using kick_accounts [OF assms(1)] assms(2-5)
  by (auto simp: pump_inv_def ac_simps)

lemma pump_inv_start: "newQueuePump cap = Inr p \<Longrightarrow> pump_inv [] p"
proof -
  assume "newQueuePump cap = Inr p"
  then obtain c q where q: "newBoundedQueue event_priority c = Inr q"
    and p: "p = \<lparr>queue = q, draining = None, stopped = False, stopping = None, outputs = []\<rparr>"
    by (auto simp: newQueuePump_def split: sum.splits)
  have "entries q = []" using q by (auto simp: newBoundedQueue_def split: option.splits)
  then show ?thesis
    by (simp add: pump_inv_def p newBoundedQueue_inv [OF q] sent_def settled_def dropped_def in_flight_def)
qed

lemma concat_map_Nil: "\<forall>x \<in> set xs. f x = [] \<Longrightarrow> concat (map f xs) = []"
  by simp

lemma pump_inv_enqueue:
  assumes "pump_inv es p"
  shows "pump_inv (es @ [e]) (fst (pump_enqueue e p))"
proof (cases "stopped p")
  case True
  with assms show ?thesis
    by (auto simp: pump_inv_def pump_enqueue_def sent_def settled_def dropped_def in_flight_def
      split: option.splits stop_phase.splits)
next
  case False
  obtain q r where enq: "enqueue e (queue p) = (q, r)" by force
  define logs where "logs = (case evicted r of None \<Rightarrow> [] | Some v \<Rightarrow> [logLoss EvictedLoss v])
    @ (if accepted r then [] else [logLoss RejectedLoss e])"
  let ?p = "p\<lparr>queue := q, outputs := outputs p @ logs\<rparr>"
  have inv: "queue_inv (queue p)" and es: "mset es = sent p + dropped p + queue_contents (queue p)"
    and flight: "sent p = settled p + in_flight p" and stop: "stopping p = None"
    using assms False by (auto simp: pump_inv_def)
  have "pump_inv (es @ [e]) (kick ?p)"
  proof (rule pump_inv_kick)
    show "queue_inv (queue ?p)" using enqueue_inv [OF inv, of e] enq by simp
    have logs: "\<forall>x \<in> set logs. sent_event x = []" "\<forall>x \<in> set logs. settled_event x = []"
      by (auto simp: logs_def split: option.splits)
    have "mset (concat (map dropped_event logs)) + queue_contents q = queue_contents (queue p) + {#e#}"
      using bq.enq_contents [OF inv enq] by (auto simp: logs_def split: option.splits if_splits)
    then show "mset (es @ [e]) = sent ?p + dropped ?p + queue_contents (queue ?p)"
      using es logs by (simp add: sent_def dropped_def concat_map_Nil ac_simps)
    show "sent ?p = settled ?p + in_flight ?p"
      using flight logs by (simp add: sent_def settled_def in_flight_def concat_map_Nil)
  qed (use False stop in auto)
  then show ?thesis using False by (simp add: pump_enqueue_def enq logs_def Let_def)
qed

lemma pump_inv_turn:
  fixes res :: "pump_out list"
  assumes "queue_inv (queue p)" "mset es = sent p + dropped p + queue_contents (queue p)"
    "drain_turn (queue p) = (q, run, outs)"
  defines "p' \<equiv> p\<lparr>queue := q, outputs := outputs p @ res @ outs\<rparr>"
  assumes "concat (map sent_event res) = []" "concat (map dropped_event res) = []"
  shows "queue_inv q \<and> mset es = sent p' + dropped p' + queue_contents q \<and>
    sent p' = sent p + run_flight run \<and>
    settled p' = settled p + mset (concat (map settled_event res)) \<and>
    (run = Returned \<longrightarrow> entries q = [])"
  by (rule drain_turn_cases [OF assms(1,3)])
    (use assms in \<open>auto simp: p'_def sent_def settled_def dropped_def concat_map_Nil\<close>)

lemma pump_inv_sent:
  assumes "pump_inv es p" "draining p = Some (Sending e)"
  shows "pump_inv es (send_settled ok e p)"
proof -
  obtain q run outs where turn: "drain_turn (queue p) = (q, run, outs)" by (metis prod_cases3)
  have "queue_inv (queue p)" "mset es = sent p + dropped p + queue_contents (queue p)"
    using assms(1) by (auto simp: pump_inv_def)
  note turn' = pump_inv_turn [OF this turn, of "[send_log_entry ok e]"]
  from assms turn' show ?thesis
    by (auto simp: pump_inv_def send_settled_def turn in_flight_def sent_def settled_def dropped_def
      split: option.splits stop_phase.splits)
qed

lemma pump_inv_settle:
  assumes "pump_inv es p" "draining p = Some Returned"
  shows "pump_inv es (settle p)"
proof -
  let ?p = "p\<lparr>draining := None\<rparr>"
  have acc: "sent ?p = sent p" "settled ?p = settled p" "dropped ?p = dropped p"
    by (simp_all add: sent_def settled_def dropped_def)
  have flight: "in_flight ?p = in_flight p" using assms(2) by (simp add: in_flight_def)
  show ?thesis
  proof (cases "\<not> stopped p \<and> 0 < queue_size (queue p)")
    case True
    have "pump_inv es (kick ?p)"
      using assms(1) True acc flight by (intro pump_inv_kick) (auto simp: pump_inv_def)
    with True show ?thesis by (simp add: settle_def Let_def)
  next
    case False
    with assms acc flight show ?thesis
      by (auto simp: pump_inv_def settle_def Let_def queue_size_pos split: option.splits stop_phase.splits)
  qed
qed

lemma pump_inv_final_drain:
  assumes "queue_inv (queue p)" "mset es = sent p + dropped p + queue_contents (queue p)"
    "sent p = settled p + in_flight p" "stopped p" "\<forall>e. draining p \<noteq> Some (Sending e)"
    "\<forall>r. stopping p \<noteq> Some (FinalDrain r)"
  shows "pump_inv es (final_drain p)"
proof (cases "0 < queue_size (queue p)")
  case True
  obtain q run outs where turn: "drain_turn (queue p) = (q, run, outs)" by (metis prod_cases3)
  from pump_inv_turn [OF assms(1,2) turn, of "[]"] assms(3-6) show ?thesis
    by (auto simp: pump_inv_def final_drain_def turn True in_flight_def sent_def settled_def dropped_def
      split: option.splits stop_phase.splits)
next
  case False
  with assms show ?thesis
    by (auto simp: pump_inv_def final_drain_def queue_size_pos in_flight_def sent_def settled_def
      dropped_def split: option.splits stop_phase.splits)
qed

lemma pump_inv_final_sent:
  assumes "pump_inv es p" "stopping p = Some (FinalDrain (Sending e))"
  shows "pump_inv es (final_settled ok e p)"
proof -
  obtain q run outs where turn: "drain_turn (queue p) = (q, run, outs)" by (metis prod_cases3)
  have "queue_inv (queue p)" "mset es = sent p + dropped p + queue_contents (queue p)"
    using assms(1) by (auto simp: pump_inv_def)
  note turn' = pump_inv_turn [OF this turn, of "[send_log_entry ok e]"]
  from assms turn' show ?thesis
    by (auto simp: pump_inv_def final_settled_def turn in_flight_def sent_def settled_def dropped_def
      split: option.splits drain_run.splits)
qed

lemma pump_inv_stop:
  assumes "pump_inv es p"
  shows "pump_inv es (stop p)"
proof (cases "stopping p")
  case None
  let ?p = "p\<lparr>stopped := True\<rparr>"
  have acc: "sent ?p = sent p" "settled ?p = settled p" "dropped ?p = dropped p" "in_flight ?p = in_flight p"
    by (simp_all add: sent_def settled_def dropped_def in_flight_def)
  show ?thesis
  proof (cases "draining p")
    case None
    have "pump_inv es (final_drain ?p)"
      using assms \<open>stopping p = None\<close> None acc
      by (intro pump_inv_final_drain) (auto simp: pump_inv_def)
    with None \<open>stopping p = None\<close> show ?thesis by (simp add: stop_def Let_def)
  next
    case (Some r)
    with assms \<open>stopping p = None\<close> acc show ?thesis
      by (auto simp: pump_inv_def stop_def Let_def sent_def settled_def dropped_def in_flight_def)
  qed
qed (use assms in \<open>simp add: stop_def\<close>)

lemma pump_inv_step:
  assumes "pump_inv es p" "pump_step l p p'"
  shows "pump_inv (es @ (case l of Enqueue e \<Rightarrow> [e] | _ \<Rightarrow> [])) p'"
  using assms(2)
proof (cases rule: pump_step.cases)
  case kick_step
  have "pump_inv es (kick p)"
  proof (cases "stopped p")
    case False
    with assms(1) show ?thesis by (intro pump_inv_kick) (auto simp: pump_inv_def)
  qed (use assms(1) in \<open>simp add: kick_def\<close>)
  with kick_step show ?thesis by simp
next
  case resume_step
  with assms(1) have "pump_inv es (final_drain p)"
    by (intro pump_inv_final_drain) (auto simp: pump_inv_def)
  with resume_step show ?thesis by simp
next
  case final_settle_step
  with assms(1) show ?thesis
    by (auto simp: pump_inv_def sent_def settled_def dropped_def in_flight_def)
qed (use assms(1) in \<open>auto simp: pump_inv_enqueue pump_inv_sent pump_inv_settle pump_inv_final_sent
  pump_inv_stop\<close>)

lemma pump_reach_inv: "pump_reach cap es p \<Longrightarrow> pump_inv es p"
  by (induction rule: pump_reach.induct) (auto intro: pump_inv_start pump_inv_step)

subsection \<open>Progress\<close>

text \<open>The number of internal steps still possible without a new event.\<close>

definition pump_work :: "pump \<Rightarrow> nat" where
  "pump_work p =
     2 * queue_size (queue p)
     + (case draining p of None \<Rightarrow> 0 | Some Returned \<Rightarrow> 1 | Some (Sending _) \<Rightarrow> 2)
     + (case stopping p of
          Some AwaitingRun \<Rightarrow> 2
        | Some (FinalDrain Returned) \<Rightarrow> 2
        | Some (FinalDrain (Sending _)) \<Rightarrow> 3
        | _ \<Rightarrow> 0)"

lemma drain_turn_size:
  assumes "drain_turn q = (q', run, outs)"
  shows "queue_size q = 0 \<and> run = Returned \<and> q' = q \<or>
    (\<exists>e. queue_size q = Suc (queue_size q') \<and> run = Sending e)"
proof (cases "dequeue q")
  case None
  with assms show ?thesis by (auto simp: drain_turn_def dequeue_None queue_size_def)
next
  case (Some r)
  then obtain q1 e where d: "dequeue q = Some (q1, e)" by (cases r) auto
  then have "Suc (length (entries q1)) = length (entries q)"
    by (elim dequeue_Some) auto
  with assms d show ?thesis by (auto simp: drain_turn_def queue_size_def)
qed

lemma internal_step_work:
  assumes "pump_internal p p'"
  shows "pump_work p' < pump_work p"
proof -
  obtain q run outs where turn: "drain_turn (queue p) = (q, run, outs)" by (metis prod_cases3)
  from assms obtain l where l: "internal l" and st: "pump_step l p p'" by (auto simp: pump_internal_def)
  consider "queue_size (queue p) = 0" "run = Returned" "q = queue p"
    | e where "queue_size (queue p) = Suc (queue_size q)" "run = Sending e"
    using drain_turn_size [OF turn] by auto
  note size = this
  from st show ?thesis
  proof (cases rule: pump_step.cases)
    case (sent_step e ok)
    then show ?thesis
      by (cases rule: size) (simp_all add: pump_work_def send_settled_def turn)
  next
    case settle_step
    then show ?thesis
      by (cases rule: size) (auto simp: pump_work_def settle_def kick_def turn Let_def)
  next
    case resume_step
    then show ?thesis
      by (cases rule: size)
        (auto simp: pump_work_def final_drain_def turn split: option.splits drain_run.splits)
  next
    case (final_sent_step e ok)
    then show ?thesis
      by (cases rule: size) (simp_all add: pump_work_def final_settled_def turn)
  next
    case final_settle_step
    then show ?thesis by (simp add: pump_work_def)
  qed (use l in \<open>simp_all add: internal_def\<close>)
qed

lemma internal_steps_work: "(pump_internal ^^ n) p p' \<Longrightarrow> n + pump_work p' \<le> pump_work p"
proof (induction n arbitrary: p')
  case (Suc n)
  then obtain p1 where "(pump_internal ^^ n) p p1" "pump_internal p1 p'" by auto
  with Suc.IH internal_step_work [of p1 p'] show ?case by fastforce
qed simp

lemma internal_keeps:
  assumes "pump_inv es p" "pump_internal p p'"
  shows "pump_inv es p'" "dropped p' = dropped p" "stopped p' = stopped p"
proof -
  from assms(2) obtain l where l: "internal l" and st: "pump_step l p p'" by (auto simp: pump_internal_def)
  then have "(case l of Enqueue e \<Rightarrow> [e] | _ \<Rightarrow> []) = []" by (cases l) (auto simp: internal_def)
  with pump_inv_step [OF assms(1) st] show "pump_inv es p'" by simp
  obtain q run outs where turn: "drain_turn (queue p) = (q, run, outs)" by (metis prod_cases3)
  have "queue_inv (queue p)" using assms(1) by (simp add: pump_inv_def)
  then have outs: "concat (map dropped_event outs) = []"
    by (rule drain_turn_cases [OF _ turn]) auto
  from l st outs show "dropped p' = dropped p" "stopped p' = stopped p"
    by (auto elim!: pump_stepE simp: internal_def dropped_def send_settled_def settle_def Let_def kick_def
      final_drain_def final_settled_def turn split: if_splits)
qed

lemma internal_steps_keep:
  assumes "pump_inv es p" "(pump_internal ^^ n) p p'"
  shows "pump_inv es p' \<and> dropped p' = dropped p \<and> stopped p' = stopped p"
  using assms(2)
proof (induction n arbitrary: p')
  case (Suc n)
  then obtain p1 where p1: "(pump_internal ^^ n) p p1" "pump_internal p1 p'" by auto
  from Suc.IH [OF p1(1)] internal_keeps [OF _ p1(2)] show ?case by auto
qed (use assms(1) in simp)

lemma pump_internalI: "pump_step l p p' \<Longrightarrow> internal l \<Longrightarrow> \<exists>p'. pump_internal p p'"
  by (auto simp: pump_internal_def)

lemma internal_labels [simp]:
  "internal (Sent ok)" "internal Settle" "internal Resume" "internal (FinalSent ok)" "internal FinalSettle"
  by (simp_all add: internal_def)

lemma internal_enabled:
  assumes "draining p \<noteq> None \<or> stopping p \<notin> {None, Some StopDone}"
  shows "\<exists>p'. pump_internal p p'"
proof (cases "draining p")
  case None
  with assms obtain ph where "stopping p = Some ph" "ph \<noteq> StopDone" by auto
  then consider "stopping p = Some AwaitingRun" | e where "stopping p = Some (FinalDrain (Sending e))"
    | "stopping p = Some (FinalDrain Returned)"
    by (metis drain_run.exhaust stop_phase.exhaust)
  then show ?thesis
  proof cases
    case 1
    with None show ?thesis by (intro pump_internalI [OF resume_step]) auto
  next
    case 2
    then show ?thesis by (intro pump_internalI [OF final_sent_step [where ok = True]]) auto
  next
    case 3
    then show ?thesis by (intro pump_internalI [OF final_settle_step]) auto
  qed
next
  case (Some r)
  show ?thesis
  proof (cases r)
    case (Sending e)
    with Some show ?thesis by (intro pump_internalI [OF sent_step [where ok = True]]) auto
  next
    case Returned
    with Some show ?thesis by (intro pump_internalI [OF settle_step]) auto
  qed
qed

lemma size_run_flight: "size (run_flight r) \<le> Suc 0"
  by (cases r) auto

subsection \<open>Properties\<close>

text \<open>
  C14: Whatever the order of \<open>enqueue\<close>, \<open>kick\<close>, \<open>stop\<close> and settling calls, every event given to the
  pump is accounted for exactly once (delivered or failed, in flight, dropped with a log entry, or
  queued), there is never more than one \<open>send\<close> in flight, and a pump that is not stopped and holds
  events has a drain loop that will take them (no lost wake-up).
\<close>

theorem pump_accounts:
  assumes "pump_reach cap es p"
  shows "mset es = settled p + in_flight p + dropped p + queue_contents (queue p)
       \<and> size (in_flight p) \<le> 1
       \<and> (queue_size (queue p) \<noteq> 0 \<and> \<not> stopped p \<longrightarrow> draining p \<noteq> None)"
proof -
  from pump_reach_inv [OF assms] have inv: "pump_inv es p" .
  have "size (in_flight p) \<le> 1"
  proof (cases "\<exists>r. stopping p = Some (FinalDrain r)")
    case True
    with inv have "\<forall>e. draining p \<noteq> Some (Sending e)" by (auto simp: pump_inv_def)
    then have "draining p = None \<or> draining p = Some Returned"
      by (metis drain_run.exhaust option.exhaust)
    with True show ?thesis by (auto simp: in_flight_def size_run_flight)
  next
    case False
    then show ?thesis
      by (auto simp: in_flight_def size_run_flight split: option.splits stop_phase.splits)
  qed
  with inv show ?thesis by (auto simp: pump_inv_def queue_size_def)
qed

definition sample_event :: "string \<Rightarrow> payload \<Rightarrow> notify_event" where
  "sample_event n p =
     \<lparr>eventId = js n, occurredAt = js ''2026-01-01T00:00:00.000Z'',
      event_source = \<lparr>machine = js ''m'', project = js ''p'', directory = js ''/d''\<rparr>,
      event_session = \<lparr>session_id = js ''s'', session_title = js ''t''\<rparr>, payload = p\<rparr>"

abbreviation sample_beat :: notify_event where
  "sample_beat \<equiv> sample_event ''1'' (Heartbeat Busy 3)"

abbreviation sample_end :: notify_event where
  "sample_end \<equiv> sample_event ''2'' (Terminal Completed 5 None)"

definition sample_pump :: "drain_run option \<Rightarrow> notify_event entry list \<Rightarrow> nat \<Rightarrow> pump_out list \<Rightarrow> pump" where
  "sample_pump run es n outs =
     \<lparr>queue = \<lparr>capacity = 100, priorityOf = event_priority, entries = es, nextSeq = n\<rparr>,
      draining = run, stopped = False, stopping = None, outputs = outs\<rparr>"

lemma sample_pump_start: "newQueuePump None = Inr (sample_pump None [] 0 [])"
  by (simp add: newQueuePump_def newBoundedQueue_def positiveInteger_def DEFAULT_QUEUE_CAPACITY_def
    sample_pump_def)

lemma sample_pump_first:
  "fst (pump_enqueue e (sample_pump None [] n [])) = sample_pump (Some (Sending e)) [] (Suc n) [SendCall e]"
  by (simp add: pump_enqueue_def sample_pump_def enqueue_def push_entry_def kick_def drain_turn_def
    dequeue_def remove_at_def)

lemma sample_pump_second:
  "fst (pump_enqueue e (sample_pump (Some r) [] n outs))
   = sample_pump (Some r) [\<lparr>item = e, priority = event_priority e, seqno = n\<rparr>] (Suc n) outs"
  by (simp add: pump_enqueue_def sample_pump_def enqueue_def push_entry_def kick_def)

definition sample_running :: pump where
  "sample_running =
     sample_pump (Some (Sending sample_beat))
       [\<lparr>item = sample_end, priority = event_priority sample_end, seqno = 1\<rparr>] 2 [SendCall sample_beat]"

lemma sample_pump_reach: "pump_reach None [sample_beat, sample_end] sample_running"
proof -
  from step [OF start [OF sample_pump_start] enqueue_step [of sample_beat]]
  have "pump_reach None [sample_beat] (sample_pump (Some (Sending sample_beat)) [] 1 [SendCall sample_beat])"
    by (simp add: sample_pump_first)
  from step [OF this enqueue_step [of sample_end]] show ?thesis
    by (simp add: sample_pump_second numeral_2_eq_2 sample_running_def)
qed

lemma pump_accounts_witness:
  "draining sample_running = Some (Sending sample_beat) \<and>
   mset [sample_beat, sample_end] = settled sample_running + in_flight sample_running
     + dropped sample_running + queue_contents (queue sample_running)"
  using pump_accounts [OF sample_pump_reach]
  by (simp add: sample_running_def sample_pump_def)

text \<open>
  C19: \<open>stop\<close> drains and terminates: from any reachable state in which \<open>stop\<close> was called, the event
  loop can take at most \<open>pump_work\<close> further steps on its own, it is never stuck before the stop
  promise resolves, and when nothing is left to do every event is settled or was dropped before: all
  events accepted before the shutdown have been delivered or their delivery has failed.
\<close>

theorem pump_stop_drains:
  assumes "pump_reach cap es p" "stopping p \<noteq> None" "(pump_internal ^^ n) p p'"
  shows "n \<le> pump_work p
       \<and> ((\<nexists>p''. pump_internal p' p'') \<longrightarrow>
           stopping p' = Some StopDone \<and> draining p' = None \<and> dropped p' = dropped p
           \<and> mset es = settled p' + dropped p)"
proof -
  from pump_reach_inv [OF assms(1)] have inv: "pump_inv es p" .
  from internal_steps_keep [OF inv assms(3)] have keep: "pump_inv es p'" "dropped p' = dropped p"
    "stopped p' = stopped p" by auto
  have "stopping p' \<noteq> None" using keep inv assms(2) by (auto simp: pump_inv_def)
  then have "draining p' = None \<and> stopping p' = Some StopDone" if "\<nexists>p''. pump_internal p' p''"
    using internal_enabled [of p'] that by (cases "draining p'") auto
  moreover have "in_flight p' = {#} \<and> entries (queue p') = []"
    if "draining p' = None" "stopping p' = Some StopDone"
    using that keep(1) by (simp add: pump_inv_def in_flight_def)
  ultimately show ?thesis
    using keep internal_steps_work [OF assms(3)] by (auto simp: pump_inv_def)
qed

lemma pump_internal_step: "pump_step l p p' \<Longrightarrow> internal l \<Longrightarrow> pump_internal p p'"
  by (auto simp: pump_internal_def)

lemma sample_shutdown:
  "\<exists>p. (pump_internal ^^ 4) (stop sample_running) p \<and> (\<nexists>p'. pump_internal p p')
       \<and> settled p = {#sample_beat, sample_end#} \<and> dropped p = {#}"
proof -
  let ?p0 = "stop sample_running"
  let ?p1 = "send_settled True sample_beat ?p0"
  let ?p2 = "send_settled False sample_end ?p1"
  let ?p3 = "settle ?p2"
  let ?p4 = "final_drain ?p3"
  note defs = sample_running_def sample_pump_def stop_def Let_def send_settled_def drain_turn_def dequeue_def
    settle_def final_drain_def queue_size_def remove_at_def send_log_entry_def
  have "pump_step (Sent True) ?p0 ?p1" by (rule sent_step) (simp add: defs)
  moreover have "pump_step (Sent False) ?p1 ?p2" by (rule sent_step) (simp add: defs)
  moreover have "pump_step Settle ?p2 ?p3" by (rule settle_step) (simp add: defs)
  moreover have "pump_step Resume ?p3 ?p4" by (rule resume_step) (simp_all add: defs)
  ultimately have "pump_internal ?p0 ?p1" "pump_internal ?p1 ?p2" "pump_internal ?p2 ?p3" "pump_internal ?p3 ?p4"
    by (auto intro: pump_internal_step)
  then have "(pump_internal ^^ 4) ?p0 ?p4"
    by (auto simp: eval_nat_numeral)
  moreover have p4: "draining ?p4 = None" "stopping ?p4 = Some StopDone"
    by (simp_all add: defs)
  have "\<nexists>p'. pump_internal ?p4 p'"
  proof
    assume "\<exists>p'. pump_internal ?p4 p'"
    then obtain l p' where "pump_step l ?p4 p'" "internal l" by (auto simp: pump_internal_def)
    then show False using p4 by (cases rule: pump_step.cases) (simp_all add: internal_def)
  qed
  moreover have "settled ?p4 = {#sample_beat, sample_end#}" "dropped ?p4 = {#}"
    by (simp_all add: defs settled_def dropped_def)
  ultimately show ?thesis by blast
qed

lemma pump_stop_drains_witness:
  "\<exists>p. (pump_internal ^^ 4) (stop sample_running) p \<and> 4 \<le> pump_work (stop sample_running)
       \<and> stopping p = Some StopDone \<and> mset [sample_beat, sample_end] = settled p"
proof -
  obtain p where p: "(pump_internal ^^ 4) (stop sample_running) p" "\<nexists>p'. pump_internal p p'"
    using sample_shutdown by blast
  have reach: "pump_reach None [sample_beat, sample_end] (stop sample_running)"
    using step [OF sample_pump_reach stop_step] by simp
  have st: "stopping (stop sample_running) \<noteq> None" and dr: "dropped (stop sample_running) = {#}"
    by (simp_all add: stop_def Let_def sample_running_def sample_pump_def dropped_def)
  from pump_stop_drains [OF reach st p(1)] p(2) dr have "4 \<le> pump_work (stop sample_running)"
    "stopping p = Some StopDone" "mset [sample_beat, sample_end] = settled p"
    by simp_all
  with p(1) show ?thesis by blast
qed

end
