(* ===== verification/Redaction.thy ===== *)
theory Redaction
  imports JsString
begin

section \<open>Redaction and safe logging\<close>

text \<open>
  \<open>packages/plugin/src/log.ts\<close>, and the redaction loop that \<open>sender.ts\<close> repeats: every occurrence of
  a configured secret is cut out of a text and replaced by \<open>[redacted]\<close>, one secret after the other.
  The lemmas show that no later replacement, truncation or surrounding text brings a secret back,
  for secrets of the shape the gateway issues (base64url text longer than the word \<open>redacted\<close>).
\<close>

definition REDACTED :: jstr where
  "REDACTED = js ''[redacted]''"

fun redact :: "jstr \<Rightarrow> jstr list \<Rightarrow> jstr" where
  "redact out [] = out"
| "redact out (secret # secrets) =
     redact (if secret \<noteq> [] \<and> js_includes out secret then join_with REDACTED (split_on secret out) else out)
       secrets"

subsection \<open>Occurrences\<close>

text \<open>A text without the unit \<open>c\<close> that occurs in \<open>u c v\<close> occurs on one side of \<open>c\<close>.\<close>

lemma includes_separated:
  assumes "js_includes (u @ c # v) s" "c \<notin> set s"
  shows "js_includes u s \<or> js_includes v s"
proof -
  obtain x y where eq: "u @ c # v = x @ s @ y" using assms(1) includes_iff by blast
  then consider (left) z where "u = x @ s @ z" | (right) z where "v = z @ s @ y"
    | (mid) z z' where "s = z @ c # z'"
    using assms(2)
    by (auto simp: append_eq_append_conv2 append_eq_Cons_conv Cons_eq_append_conv)
  then show ?thesis
  proof cases
    case left
    then show ?thesis using includes_iff by blast
  next
    case right
    then show ?thesis using includes_iff by blast
  next
    case mid
    with assms(2) show ?thesis by simp
  qed
qed

lemma includes_refl [simp]: "js_includes s s"
  unfolding includes_iff by (intro exI [of _ "[]"]) simp

lemma includes_append [intro]: "js_includes u s \<Longrightarrow> js_includes (u @ v) s" "js_includes v s \<Longrightarrow> js_includes (u @ v) s"
  by (metis append.assoc includes_iff)+

lemma includes_factor: "js_includes t s \<Longrightarrow> js_includes s r \<Longrightarrow> js_includes t r"
  by (metis append.assoc includes_iff)

lemma includes_prefix: "prefix p t \<Longrightarrow> js_includes p s \<Longrightarrow> js_includes t s"
  by (metis includes_append(1) prefixE)

lemma includes_length: "js_includes t s \<Longrightarrow> length s \<le> length t"
  by (auto simp: includes_iff)

lemma not_includes_Nil: "s \<noteq> [] \<Longrightarrow> \<not> js_includes [] s"
  by simp

text \<open>The longest run of units of a class in a text bounds every word over that class in it.\<close>

fun run_from :: "(16 word \<Rightarrow> bool) \<Rightarrow> nat \<Rightarrow> jstr \<Rightarrow> nat" where
  "run_from P n [] = n"
| "run_from P n (c # cs) = (if P c then run_from P (Suc n) cs else max n (run_from P 0 cs))"

definition longest_run :: "(16 word \<Rightarrow> bool) \<Rightarrow> jstr \<Rightarrow> nat" where
  "longest_run P t = run_from P 0 t"

lemma run_from_ge: "n \<le> run_from P n t"
  by (induction P n t rule: run_from.induct) auto

lemma run_from_mono: "m \<le> n \<Longrightarrow> run_from P m t \<le> run_from P n t"
  by (induction t arbitrary: m n) (auto simp: max.coboundedI1)

lemma run_from_word: "list_all P s \<Longrightarrow> run_from P n (s @ t) = run_from P (n + length s) t"
  by (induction s arbitrary: n) auto

lemma run_from_includes:
  "js_includes t s \<Longrightarrow> list_all P s \<Longrightarrow> length s \<le> run_from P n t"
proof (induction t arbitrary: n)
  case (Cons c cs)
  show ?case
  proof (cases "prefix s (c # cs)")
    case True
    then obtain z where "c # cs = s @ z" by (auto simp: prefix_def)
    with run_from_word [OF Cons.prems(2), of n z] run_from_ge [of "n + length s" P z] show ?thesis
      by simp
  next
    case False
    with Cons.prems have "js_includes cs s" by simp
    from Cons.IH [OF this Cons.prems(2)] show ?thesis
      by (auto simp: le_max_iff_disj)
  qed
qed simp

lemma longest_run_includes: "js_includes t s \<Longrightarrow> list_all P s \<Longrightarrow> length s \<le> longest_run P t"
  by (simp add: longest_run_def run_from_includes)

subsection \<open>Pieces of \<open>split\<close>\<close>

lemma includes_join_piece: "p \<in> set ps \<Longrightarrow> js_includes (join_with r ps) p"
proof (induction r ps rule: join_with.induct)
  case (3 r q q' ps)
  then show ?case by (auto intro: includes_append)
qed auto

lemma split_pieces_in: "sep \<noteq> [] \<Longrightarrow> p \<in> set (split_on sep t) \<Longrightarrow> js_includes t p"
  using includes_join_piece [of p "split_on sep t" sep] by (simp add: join_split)

lemma includes_drop_iff: "js_includes t s \<longleftrightarrow> (\<exists>i. i \<le> length t \<and> prefix s (drop i t))"
proof (induction t)
  case (Cons c cs)
  show ?case
  proof
    assume "js_includes (c # cs) s"
    then consider "prefix s (drop 0 (c # cs))" | i where "i \<le> length cs" "prefix s (drop (Suc i) (c # cs))"
      using Cons.IH by auto
    then show "\<exists>i. i \<le> length (c # cs) \<and> prefix s (drop i (c # cs))"
      by cases (metis le0, metis Suc_le_mono length_Cons)
  next
    assume "\<exists>i. i \<le> length (c # cs) \<and> prefix s (drop i (c # cs))"
    then obtain i where i: "i \<le> length (c # cs)" "prefix s (drop i (c # cs))" by blast
    then show "js_includes (c # cs) s" using Cons.IH by (cases i) auto
  qed
qed simp

text \<open>No piece of a split holds the separator: it would have been cut there.\<close>

lemma split_from_clean:
  assumes "sep \<noteq> []" "\<forall>i < length acc. \<not> prefix sep (drop i (rev acc @ s))" "p \<in> set (split_from sep acc s)"
  shows "\<not> js_includes p sep"
  using assms
proof (induction sep acc s arbitrary: p rule: split_from.induct)
  case (1 sep acc)
  have "\<not> prefix sep (drop i (rev acc))" if "i \<le> length acc" for i
    using 1 that by (cases "i = length acc") auto
  with 1 show ?case by (auto simp: includes_drop_iff)
next
  case (2 sep acc c cs)
  show ?case
  proof (cases "prefix sep (c # cs)")
    case True
    show ?thesis
    proof (cases "p = rev acc")
      case p: True
      have "\<not> prefix sep (drop i (rev acc))" if "i \<le> length acc" for i
      proof (cases "i = length acc")
        case False
        with that 2 have "\<not> prefix sep (drop i (rev acc @ c # cs))" by simp
        then show ?thesis using that by (simp add: prefix_append)
      qed (use 2 in simp)
      with p show ?thesis by (auto simp: includes_drop_iff)
    next
      case False
      with True 2 show ?thesis by auto
    qed
  next
    case False
    have "\<forall>i < length (c # acc). \<not> prefix sep (drop i (rev (c # acc) @ cs))"
    proof (intro allI impI)
      fix i assume "i < length (c # acc)"
      with 2 False show "\<not> prefix sep (drop i (rev (c # acc) @ cs))"
        by (cases "i = length acc") auto
    qed
    with False 2 show ?thesis by auto
  qed
qed

lemma split_clean: "sep \<noteq> [] \<Longrightarrow> p \<in> set (split_on sep t) \<Longrightarrow> \<not> js_includes p sep"
  unfolding split_on_def by (rule split_from_clean) auto

subsection \<open>Secrets of the gateway\<close>

text \<open>The alphabet of base64url, in which the gateway issues key ids and secrets.\<close>

definition base64url :: "16 word \<Rightarrow> bool" where
  "base64url u \<longleftrightarrow>
     65 \<le> u \<and> u \<le> 90 \<or> 97 \<le> u \<and> u \<le> 122 \<or> 48 \<le> u \<and> u \<le> 57 \<or> u = 45 \<or> u = 95"

definition issued_secret :: "jstr \<Rightarrow> bool" where
  "issued_secret s \<longleftrightarrow> list_all base64url s \<and> 8 < length s"

lemma issued_not_in_words: "longest_run base64url t \<le> 8 \<Longrightarrow> issued_secret s \<Longrightarrow> \<not> js_includes t s"
  using longest_run_includes [of t s base64url] by (auto simp: issued_secret_def)

lemma issued_separator:
  "issued_secret s \<Longrightarrow> \<not> base64url c \<Longrightarrow> js_includes (u @ c # v) s \<Longrightarrow> js_includes u s \<or> js_includes v s"
  using includes_separated by (fastforce simp: issued_secret_def list_all_iff)

lemma issued_nonempty: "issued_secret s \<Longrightarrow> s \<noteq> []"
  by (auto simp: issued_secret_def)

lemma redacted_word:
  obtains w where "REDACTED = 91 # w @ [93]" "longest_run base64url w = 8"
proof (rule that [of "js ''redacted''"])
  show "REDACTED = 91 # js ''redacted'' @ [93]" by (simp add: REDACTED_def js_def)
  show "longest_run base64url (js ''redacted'') = 8"
    by (simp add: longest_run_def js_def base64url_def)
qed

lemma brackets_not_base64url: "\<not> base64url 91" "\<not> base64url 93"
  by (simp_all add: base64url_def)

text \<open>An issued secret that occurs in pieces joined by \<open>[redacted]\<close> occurs in a piece.\<close>

lemma issued_in_join:
  "issued_secret s \<Longrightarrow> js_includes (join_with REDACTED ps) s \<Longrightarrow> \<exists>p \<in> set ps. js_includes p s"
proof (induction REDACTED ps rule: join_with.induct)
  case (3 p q ps)
  obtain w where w: "REDACTED = 91 # w @ [93]" "longest_run base64url w = 8" by (rule redacted_word)
  have "js_includes (p @ 91 # (w @ 93 # join_with REDACTED (q # ps))) s"
    using 3 by (simp add: w(1))
  then have "js_includes p s \<or> js_includes w s \<or> js_includes (join_with REDACTED (q # ps)) s"
    using issued_separator [OF 3(2)] brackets_not_base64url by blast
  moreover have "\<not> js_includes w s" using issued_not_in_words [OF _ 3(2)] w(2) by simp
  ultimately show ?case using 3 by auto
qed (auto dest: issued_nonempty)

lemma redact_no_new:
  "issued_secret s \<Longrightarrow> js_includes (redact out secrets) s \<Longrightarrow> js_includes out s"
proof (induction out secrets rule: redact.induct)
  case (2 out x secrets)
  show ?case
  proof (cases "x \<noteq> [] \<and> js_includes out x")
    case True
    with 2 have "js_includes (join_with REDACTED (split_on x out)) s" by simp
    then obtain p where "p \<in> set (split_on x out)" "js_includes p s"
      using issued_in_join [OF 2(2)] by blast
    with True show ?thesis using split_pieces_in includes_factor by blast
  next
    case False
    then have "redact out (x # secrets) = redact out secrets" by (simp only: redact.simps if_False)
    with 2 False show ?thesis by simp
  qed
qed simp

lemma redact_removes:
  "issued_secret s \<Longrightarrow> s \<in> set secrets \<Longrightarrow> \<not> js_includes (redact out secrets) s"
proof (induction out secrets rule: redact.induct)
  case (2 out x secrets)
  show ?case
  proof (cases "x = s")
    case True
    have "\<not> js_includes (if x \<noteq> [] \<and> js_includes out x
        then join_with REDACTED (split_on x out) else out) s"
      using True issued_nonempty [OF 2(2)] issued_in_join [OF 2(2)] split_clean [of x] by auto
    with redact_no_new [OF 2(2)] show ?thesis by (metis redact.simps(2))
  next
    case False
    with 2 show ?thesis by (simp only: redact.simps) auto
  qed
qed simp

subsection \<open>The safe logger\<close>

datatype log_value = StringValue jstr | NumberValue jsnum | BoolValue bool | NullValue | OtherValue

datatype level = Debug | Info | Warn | Error

text \<open>An ordered list of the own properties of an object, as \<open>Object.entries\<close> gives them.\<close>

type_synonym log_context = "(jstr \<times> log_value) list"

record log_entry =
  service :: jstr
  log_level :: level
  log_message :: jstr
  extra :: "log_context option"

record log_options =
  log_service :: "jstr option"
  log_secrets :: "jstr list option"
  maxMessageLength :: "nat option"
  maxContextValueLength :: "nat option"

definition DEFAULT_MAX_MESSAGE_LENGTH :: nat where
  "DEFAULT_MAX_MESSAGE_LENGTH = 500"

definition DEFAULT_MAX_CONTEXT_VALUE_LENGTH :: nat where
  "DEFAULT_MAX_CONTEXT_VALUE_LENGTH = 200"

definition DEFAULT_SERVICE :: jstr where
  "DEFAULT_SERVICE = js ''opencode-notify''"

text \<open>The loop over the entries; writing a key twice keeps its first place.\<close>

fun sanitize_entries :: "log_context \<Rightarrow> jstr list \<Rightarrow> nat \<Rightarrow> log_context \<Rightarrow> log_context" where
  "sanitize_entries out secrets mx [] = out"
| "sanitize_entries out secrets mx ((key, v) # rest) =
     sanitize_entries
       (case v of
          StringValue t \<Rightarrow> map_set key (StringValue (truncateCodePoints (redact t secrets) mx)) out
        | NumberValue n \<Rightarrow> if isFinite n then map_set key v out else out
        | BoolValue _ \<Rightarrow> map_set key v out
        | NullValue \<Rightarrow> map_set key v out
        | OtherValue \<Rightarrow> out)
       secrets mx rest"

definition sanitizeContext :: "log_context \<Rightarrow> jstr list \<Rightarrow> nat \<Rightarrow> log_context" where
  "sanitizeContext ctx secrets maxValueLength = sanitize_entries [] secrets maxValueLength ctx"

definition or_default :: "'a option \<Rightarrow> 'a \<Rightarrow> 'a" where
  "or_default x d = (case x of None \<Rightarrow> d | Some y \<Rightarrow> y)"

text \<open>The entry that \<open>emit\<close> hands to the sink.\<close>

definition emit :: "log_options \<Rightarrow> level \<Rightarrow> jstr \<Rightarrow> log_context option \<Rightarrow> log_entry" where
  "emit opts lvl message ctx =
     (let secrets = or_default (log_secrets opts) [];
          maxMessage = or_default (maxMessageLength opts) DEFAULT_MAX_MESSAGE_LENGTH;
          maxValue = or_default (maxContextValueLength opts) DEFAULT_MAX_CONTEXT_VALUE_LENGTH
      in \<lparr>service = or_default (log_service opts) DEFAULT_SERVICE,
          log_level = lvl,
          log_message = truncateCodePoints (redact message secrets) maxMessage,
          extra = (case ctx of
              None \<Rightarrow> None
            | Some c \<Rightarrow> (let e = sanitizeContext c secrets maxValue in if e = [] then None else Some e))\<rparr>)"

lemma sanitize_entries_values:
  "(k, v) \<in> set (sanitize_entries out secrets mx ctx) \<Longrightarrow>
   (k, v) \<in> set out \<or>
   (\<exists>t. v = StringValue (truncateCodePoints (redact t secrets) mx)) \<or>
   (\<exists>n. v = NumberValue n \<and> isFinite n) \<or> (\<exists>b. v = BoolValue b) \<or> v = NullValue"
  by (induction out secrets mx ctx rule: sanitize_entries.induct)
    (auto split: log_value.splits if_splits dest: set_map_set)

lemma truncate_includes: "js_includes (truncateCodePoints t n) s \<Longrightarrow> js_includes t s"
  by (rule includes_prefix [OF truncateCodePoints_prefix])

text \<open>
  The logger never leaks an issued secret and never passes an object on: no configured secret (base64url,
  longer than eight characters) occurs in the message or in a context value of the entry, every
  value is a bounded string, a finite number, a boolean or null, and the message is bounded.
\<close>

theorem log_entry_safe:
  fixes lvl message ctx
  assumes "log_secrets opts = Some secrets" "s \<in> set secrets" "issued_secret s"
  defines "e \<equiv> emit opts lvl message ctx"
  shows "\<not> js_includes (log_message e) s
       \<and> length (code_points (log_message e)) \<le> or_default (maxMessageLength opts) 500
       \<and> (\<forall>x. extra e = Some x \<longrightarrow> (\<forall>(k, v) \<in> set x.
            (\<exists>t. v = StringValue t \<and> \<not> js_includes t s
                 \<and> length (code_points t) \<le> or_default (maxContextValueLength opts) 200)
            \<or> (\<exists>n. v = NumberValue n \<and> isFinite n) \<or> (\<exists>b. v = BoolValue b) \<or> v = NullValue))"
proof (intro conjI allI impI ballI)
  have sec: "or_default (log_secrets opts) [] = secrets" using assms(1) by (simp add: or_default_def)
  show "\<not> js_includes (log_message e) s"
    using redact_removes [OF assms(3,2)] truncate_includes by (auto simp: e_def emit_def sec Let_def)
  show "length (code_points (log_message e)) \<le> or_default (maxMessageLength opts) 500"
    by (simp add: e_def emit_def Let_def length_truncateCodePoints DEFAULT_MAX_MESSAGE_LENGTH_def)
  fix x p
  assume x: "extra e = Some x" and p: "p \<in> set x"
  obtain k v where kv: "p = (k, v)" by force
  from x obtain c where "x = sanitizeContext c secrets (or_default (maxContextValueLength opts) 200)"
    by (auto simp: e_def emit_def sec Let_def DEFAULT_MAX_CONTEXT_VALUE_LENGTH_def split: option.splits if_splits)
  with p kv have "(k, v) \<in> set (sanitize_entries [] secrets (or_default (maxContextValueLength opts) 200) c)"
    by (simp add: sanitizeContext_def)
  have "\<not> js_includes (truncateCodePoints (redact t secrets) n) s" for t n
    using redact_removes [OF assms(3,2)] truncate_includes by blast
  with sanitize_entries_values [OF \<open>(k, v) \<in> _\<close>]
  show "case p of (k, v) \<Rightarrow>
      (\<exists>t. v = StringValue t \<and> \<not> js_includes t s
           \<and> length (code_points t) \<le> or_default (maxContextValueLength opts) 200)
      \<or> (\<exists>n. v = NumberValue n \<and> isFinite n) \<or> (\<exists>b. v = BoolValue b) \<or> v = NullValue"
    by (auto simp: kv length_truncateCodePoints)
qed

definition sample_options :: log_options where
  "sample_options = \<lparr>log_service = None, log_secrets = Some [js ''abcdefghi''], maxMessageLength = None,
     maxContextValueLength = None\<rparr>"

lemma log_entry_safe_witness:
  "\<not> js_includes (log_message (emit sample_options Info (js ''key abcdefghi bad'') None)) (js ''abcdefghi'')"
proof -
  have "issued_secret (js ''abcdefghi'')" by (simp add: issued_secret_def js_def base64url_def)
  from log_entry_safe [OF _ _ this, of sample_options] show ?thesis
    by (simp add: sample_options_def)
qed

end
