(* ===== verification/IngestKeys.thy ===== *)
theory IngestKeys
  imports Redaction
begin

section \<open>Ingest keys\<close>

text \<open>
  \<open>apps/gateway/src/modules/ingest-keys\<close>: the table of keys with the statements the repository runs
  on it, and the service that issues and verifies credentials \<open>keyId.secret\<close>. Row ids, random bytes,
  the time of a statement and the hash function are arguments. The locale \<open>key_store\<close> is the
  repository interface as the service uses it; it is interpreted on the table.
\<close>

record ingest_row =
  ik_id :: jstr
  ik_userId :: jstr
  ik_keyId :: jstr
  ik_secretHash :: jstr
  ik_name :: jstr
  ik_createdAt :: int
  ik_lastUsedAt :: "int option"
  ik_revokedAt :: "int option"

record key_record =
  kr_id :: jstr
  kr_userId :: jstr
  kr_keyId :: jstr
  kr_name :: jstr
  kr_createdAt :: int
  kr_lastUsedAt :: "int option"

record active_key =
  ak_id :: jstr
  ak_userId :: jstr
  ak_keyId :: jstr
  ak_secretHash :: jstr

record verified_key =
  vk_id :: jstr
  vk_userId :: jstr
  vk_keyId :: jstr

datatype db_error = UniqueViolation

definition ingestKeyColumns :: "ingest_row \<Rightarrow> key_record" where
  "ingestKeyColumns r =
     \<lparr>kr_id = ik_id r, kr_userId = ik_userId r, kr_keyId = ik_keyId r, kr_name = ik_name r,
      kr_createdAt = ik_createdAt r, kr_lastUsedAt = ik_lastUsedAt r\<rparr>"

definition list_keys :: "jstr \<Rightarrow> ingest_row list \<Rightarrow> key_record list" where
  "list_keys uid rows =
     map ingestKeyColumns (sort_key ik_createdAt (filter (\<lambda>r. ik_userId r = uid \<and> ik_revokedAt r = None) rows))"

definition create_key ::
  "jstr \<Rightarrow> int \<Rightarrow> jstr \<Rightarrow> jstr \<Rightarrow> jstr \<Rightarrow> jstr \<Rightarrow> ingest_row list \<Rightarrow> db_error + ingest_row list \<times> key_record" where
  "create_key rowId now uid keyId secretHash name rows =
     (if rowId \<in> set (map ik_id rows) \<or> keyId \<in> set (map ik_keyId rows) then Inl UniqueViolation
      else let r = \<lparr>ik_id = rowId, ik_userId = uid, ik_keyId = keyId, ik_secretHash = secretHash,
                    ik_name = name, ik_createdAt = now, ik_lastUsedAt = None, ik_revokedAt = None\<rparr>
           in Inr (rows @ [r], ingestKeyColumns r))"

definition owned_active :: "jstr \<Rightarrow> jstr \<Rightarrow> ingest_row \<Rightarrow> bool" where
  "owned_active uid rowId r \<longleftrightarrow> ik_id r = rowId \<and> ik_userId r = uid \<and> ik_revokedAt r = None"

definition revoke_key :: "jstr \<Rightarrow> jstr \<Rightarrow> int \<Rightarrow> ingest_row list \<Rightarrow> ingest_row list \<times> bool" where
  "revoke_key uid rowId now rows =
     (map (\<lambda>r. if owned_active uid rowId r then r\<lparr>ik_revokedAt := Some now\<rparr> else r) rows,
      \<exists>r \<in> set rows. owned_active uid rowId r)"

definition record_use :: "jstr \<Rightarrow> jstr \<Rightarrow> int \<Rightarrow> ingest_row list \<Rightarrow> ingest_row list" where
  "record_use uid rowId usedAt rows =
     map (\<lambda>r. if owned_active uid rowId r
              \<and> (case ik_lastUsedAt r of None \<Rightarrow> True | Some t \<Rightarrow> t < usedAt)
            then r\<lparr>ik_lastUsedAt := Some usedAt\<rparr> else r) rows"

definition findActiveByKeyId :: "ingest_row list \<Rightarrow> jstr \<Rightarrow> active_key option" where
  "findActiveByKeyId rows keyId =
     map_option (\<lambda>r. \<lparr>ak_id = ik_id r, ak_userId = ik_userId r, ak_keyId = ik_keyId r,
                       ak_secretHash = ik_secretHash r\<rparr>)
       (List.find (\<lambda>r. ik_keyId r = keyId \<and> ik_revokedAt r = None) rows)"

subsection \<open>The service\<close>

definition dot :: "16 word" where
  "dot = 46"

text \<open>\<open>create\<close>: the stored hash and the credential that is shown once.\<close>

definition issue_key ::
  "(jstr \<Rightarrow> jstr) \<Rightarrow> jstr \<Rightarrow> jstr \<Rightarrow> jstr \<Rightarrow> int \<Rightarrow> jstr \<Rightarrow> jstr \<Rightarrow> ingest_row list \<Rightarrow>
   db_error + ingest_row list \<times> key_record \<times> jstr" where
  "issue_key sha keyId secret rowId now uid name rows =
     (case create_key rowId now uid keyId (sha secret) name rows of
        Inl e \<Rightarrow> Inl e
      | Inr (rows', r) \<Rightarrow> Inr (rows', r, keyId @ dot # secret))"

text \<open>\<open>verify\<close>, over any lookup of active keys.\<close>

definition verify :: "(jstr \<Rightarrow> jstr) \<Rightarrow> (jstr \<Rightarrow> active_key option) \<Rightarrow> jstr \<Rightarrow> verified_key option" where
  "verify sha lookup credential =
     (case index_of credential dot of
        None \<Rightarrow> None
      | Some i \<Rightarrow>
          if i = 0 \<or> i = length credential - 1 \<or> dot \<in> set (drop (i + 1) credential) then None
          else let keyId = take i credential; secret = drop (i + 1) credential in
            (case lookup keyId of
               None \<Rightarrow> None
             | Some active \<Rightarrow>
                 if ak_secretHash active \<noteq> sha secret then None
                 else Some \<lparr>vk_id = ak_id active, vk_userId = ak_userId active, vk_keyId = ak_keyId active\<rparr>))"

lemma verify_credential:
  assumes "keyId \<noteq> []" "secret \<noteq> []" "dot \<notin> set keyId" "dot \<notin> set secret"
  shows "verify sha lookup (keyId @ dot # secret) =
    (case lookup keyId of
       None \<Rightarrow> None
     | Some a \<Rightarrow> if ak_secretHash a \<noteq> sha secret then None
                else Some \<lparr>vk_id = ak_id a, vk_userId = ak_userId a, vk_keyId = ak_keyId a\<rparr>)"
  using assms by (simp add: verify_def index_of_append Let_def)

lemma verify_Some_iff:
  "verify sha lookup cred = Some v \<longleftrightarrow>
   (\<exists>keyId secret a. cred = keyId @ dot # secret \<and> keyId \<noteq> [] \<and> secret \<noteq> [] \<and> dot \<notin> set keyId \<and>
      dot \<notin> set secret \<and> lookup keyId = Some a \<and> ak_secretHash a = sha secret \<and>
      v = \<lparr>vk_id = ak_id a, vk_userId = ak_userId a, vk_keyId = ak_keyId a\<rparr>)"
  (is "?l \<longleftrightarrow> ?r")
proof
  assume ?l
  then obtain i a where i: "index_of cred dot = Some i" "i \<noteq> 0" "i \<noteq> length cred - 1"
    "dot \<notin> set (drop (i + 1) cred)"
    and a: "lookup (take i cred) = Some a" "ak_secretHash a = sha (drop (i + 1) cred)"
      "v = \<lparr>vk_id = ak_id a, vk_userId = ak_userId a, vk_keyId = ak_keyId a\<rparr>"
    by (auto simp: verify_def Let_def split: option.splits if_splits)
  from index_of_Some [OF i(1)] have "i < length cred" "cred ! i = dot" "dot \<notin> set (take i cred)" by auto
  then have "cred = take i cred @ dot # drop (i + 1) cred" using id_take_nth_drop [of i cred] by simp
  then show ?r using i a \<open>i < length cred\<close> \<open>dot \<notin> set (take i cred)\<close>
    by (intro exI [of _ "take i cred"] exI [of _ "drop (i + 1) cred"] exI [of _ a]) auto
next
  assume ?r
  then show ?l by (auto simp: verify_credential)
qed

subsection \<open>The repository interface\<close>

datatype key_op =
    CreateKey jstr int jstr jstr jstr jstr
  | RevokeKey jstr jstr int
  | UseKey jstr jstr int

locale key_store =
  fixes inv :: "'db \<Rightarrow> bool"
    and lookup :: "'db \<Rightarrow> jstr \<Rightarrow> active_key option"
    and taken :: "'db \<Rightarrow> jstr \<Rightarrow> bool"
    and apply_op :: "key_op \<Rightarrow> 'db \<Rightarrow> 'db"
  assumes apply_inv: "inv db \<Longrightarrow> inv (apply_op op db)"
    and find_taken: "lookup db k = Some a \<Longrightarrow> taken db k"
    and taken_mono: "taken db k \<Longrightarrow> taken (apply_op op db) k"
    and create_other: "inv db \<Longrightarrow> taken db k \<Longrightarrow> lookup (apply_op (CreateKey i now u k' h n) db) k = lookup db k"
    and revoke_find: "inv db \<Longrightarrow> lookup (apply_op (RevokeKey u i now) db) k =
      (case lookup db k of None \<Rightarrow> None | Some a \<Rightarrow> if ak_id a = i \<and> ak_userId a = u then None else Some a)"
    and use_find: "inv db \<Longrightarrow> lookup (apply_op (UseKey u i t) db) k = lookup db k"
begin

lemma later_find:
  assumes "inv db" "lookup db k = Some a"
  shows "lookup (fold apply_op ops db) k =
    (if \<exists>now. RevokeKey (ak_userId a) (ak_id a) now \<in> set ops then None else Some a)
    \<and> inv (fold apply_op ops db) \<and> taken (fold apply_op ops db) k"
proof (induction ops rule: rev_induct)
  case Nil
  with assms show ?case by (auto intro: find_taken)
next
  case (snoc op ops)
  let ?db = "fold apply_op ops db"
  have inv: "inv ?db" and tk: "taken ?db k" using snoc by auto
  show ?case
  proof (cases op)
    case (CreateKey i now u k' h n)
    with snoc inv tk show ?thesis by (auto simp: create_other apply_inv taken_mono)
  next
    case (RevokeKey u i now)
    with snoc inv tk show ?thesis by (auto simp: revoke_find apply_inv taken_mono)
  next
    case (UseKey u i t)
    with snoc inv tk show ?thesis by (auto simp: use_find apply_inv taken_mono)
  qed
qed

end

definition key_step :: "key_op \<Rightarrow> ingest_row list \<Rightarrow> ingest_row list" where
  "key_step op rows =
     (case op of
        CreateKey i now u k h n \<Rightarrow> (case create_key i now u k h n rows of Inl _ \<Rightarrow> rows | Inr (rows', _) \<Rightarrow> rows')
      | RevokeKey u i now \<Rightarrow> fst (revoke_key u i now rows)
      | UseKey u i t \<Rightarrow> record_use u i t rows)"

definition keys_inv :: "ingest_row list \<Rightarrow> bool" where
  "keys_inv rows \<longleftrightarrow> distinct (map ik_keyId rows)"

lemma find_active_simps [simp]:
  "findActiveByKeyId [] k = None"
  "findActiveByKeyId (r # rows) k =
     (if ik_keyId r = k \<and> ik_revokedAt r = None
      then Some \<lparr>ak_id = ik_id r, ak_userId = ik_userId r, ak_keyId = ik_keyId r, ak_secretHash = ik_secretHash r\<rparr>
      else findActiveByKeyId rows k)"
  by (simp_all add: findActiveByKeyId_def)

lemma find_active_None_iff:
  "findActiveByKeyId rows k = None \<longleftrightarrow> (\<forall>r \<in> set rows. ik_keyId r = k \<longrightarrow> ik_revokedAt r \<noteq> None)"
  by (auto simp: findActiveByKeyId_def find_None_iff)

lemma map_keyId_step: "map ik_keyId (fst (revoke_key u i t rows)) = map ik_keyId rows"
  "map ik_keyId (record_use u i t rows) = map ik_keyId rows"
  by (simp_all add: revoke_key_def record_use_def)

lemma keys_inv_step: "keys_inv rows \<Longrightarrow> keys_inv (key_step op rows)"
  by (cases op) (auto simp: keys_inv_def key_step_def map_keyId_step create_key_def Let_def)

lemma find_active_revoke:
  "keys_inv rows \<Longrightarrow> findActiveByKeyId (fst (revoke_key u i now rows)) k =
     (case findActiveByKeyId rows k of None \<Rightarrow> None | Some a \<Rightarrow> if ak_id a = i \<and> ak_userId a = u then None else Some a)"
proof (induction rows)
  case (Cons r rows)
  have "findActiveByKeyId rows (ik_keyId r) = None" "findActiveByKeyId (fst (revoke_key u i now rows)) (ik_keyId r) = None"
    using Cons.prems by (fastforce simp: keys_inv_def find_active_None_iff revoke_key_def image_iff)+
  with Cons show ?case
    by (auto simp: keys_inv_def revoke_key_def owned_active_def)
qed (simp add: revoke_key_def)

lemma find_active_use: "findActiveByKeyId (record_use u i t rows) k = findActiveByKeyId rows k"
  by (induction rows) (auto simp: record_use_def)

lemma find_active_append: "ik_keyId r \<noteq> k \<Longrightarrow> findActiveByKeyId (rows @ [r]) k = findActiveByKeyId rows k"
  by (induction rows) auto

interpretation ik: key_store keys_inv findActiveByKeyId "\<lambda>rows k. k \<in> set (map ik_keyId rows)" key_step
proof
  show "keys_inv (key_step op db)" if "keys_inv db" for db op using that by (rule keys_inv_step)
  show "k \<in> set (map ik_keyId db)" if "findActiveByKeyId db k = Some a" for db k a
    using that by (auto simp: findActiveByKeyId_def find_Some_iff)
  show "k \<in> set (map ik_keyId (key_step op db))" if "k \<in> set (map ik_keyId db)" for db k op
    using that by (cases op) (simp_all add: key_step_def map_keyId_step create_key_def Let_def del: set_map)
  show "findActiveByKeyId (key_step (CreateKey i now u k' h n) db) k = findActiveByKeyId db k"
    if "k \<in> set (map ik_keyId db)" for db k i now u k' h n
    using that by (auto simp: key_step_def create_key_def Let_def intro!: find_active_append)
  show "findActiveByKeyId (key_step (RevokeKey u i now) db) k =
      (case findActiveByKeyId db k of None \<Rightarrow> None | Some a \<Rightarrow> if ak_id a = i \<and> ak_userId a = u then None else Some a)"
    if "keys_inv db" for db u i now k
    using find_active_revoke [OF that] by (simp add: key_step_def)
  show "findActiveByKeyId (key_step (UseKey u i t) db) k = findActiveByKeyId db k"
    if "keys_inv db" for db u i t k
    by (simp add: key_step_def find_active_use)
qed

subsection \<open>Properties\<close>

text \<open>
  C37: The life of a credential: once \<open>create\<close> has issued \<open>keyId.secret\<close>, it authenticates as the row
  and user it was issued for after any further creations, uses and revocations of keys, exactly until
  the owner revokes that key; from then on it is refused for ever (no later key can take the key id).
\<close>

theorem credential_lifecycle:
  assumes "keys_inv rows" "issue_key sha keyId secret rowId now uid name rows = Inr (rows', r, cred)"
    "list_all base64url keyId" "list_all base64url secret" "keyId \<noteq> []" "secret \<noteq> []"
  shows "verify sha (findActiveByKeyId (fold key_step ops rows')) cred =
    (if \<exists>t. RevokeKey uid rowId t \<in> set ops then None
     else Some \<lparr>vk_id = rowId, vk_userId = uid, vk_keyId = keyId\<rparr>)"
proof -
  from assms(2) have c: "create_key rowId now uid keyId (sha secret) name rows = Inr (rows', r)"
    and cred: "cred = keyId @ dot # secret"
    by (auto simp: issue_key_def split: sum.splits prod.splits)
  have inv: "keys_inv rows'"
    using keys_inv_step [OF assms(1), of "CreateKey rowId now uid keyId (sha secret) name"] c
    by (simp add: key_step_def)
  have new: "keyId \<notin> set (map ik_keyId rows)" and rows': "\<exists>r. rows' = rows @ [r] \<and> ik_id r = rowId \<and>
      ik_userId r = uid \<and> ik_keyId r = keyId \<and> ik_secretHash r = sha secret \<and> ik_revokedAt r = None"
    using c by (auto simp: create_key_def Let_def split: if_splits)
  from new have "findActiveByKeyId (rows @ [r]) keyId = findActiveByKeyId [r] keyId" for r
    by (induction rows) auto
  with rows' have find: "findActiveByKeyId rows' keyId =
      Some \<lparr>ak_id = rowId, ak_userId = uid, ak_keyId = keyId, ak_secretHash = sha secret\<rparr>"
    by (auto simp del: find_active_simps(2)) (simp add: find_active_simps)
  have nodot: "dot \<notin> set keyId" "dot \<notin> set secret"
    using assms(3,4) by (auto simp: list_all_iff dot_def base64url_def)
  show ?thesis
    using ik.later_find [OF inv find, of ops] assms(5,6) nodot
    by (simp add: cred verify_credential)
qed

lemma credential_lifecycle_witness:
  "\<exists>rows'. issue_key id (js ''kid'') (js ''sec'') (js ''r1'') 5 (js ''u1'') (js ''n'') [] = Inr (rows',
       \<lparr>kr_id = js ''r1'', kr_userId = js ''u1'', kr_keyId = js ''kid'', kr_name = js ''n'', kr_createdAt = 5,
        kr_lastUsedAt = None\<rparr>, js ''kid'' @ dot # js ''sec'') \<and>
     verify id (findActiveByKeyId (fold key_step [RevokeKey (js ''u2'') (js ''r1'') 6] rows')) (js ''kid'' @ dot # js ''sec'')
       = Some \<lparr>vk_id = js ''r1'', vk_userId = js ''u1'', vk_keyId = js ''kid''\<rparr>"
proof -
  let ?rec = "\<lparr>kr_id = js ''r1'', kr_userId = js ''u1'', kr_keyId = js ''kid'', kr_name = js ''n'',
    kr_createdAt = 5, kr_lastUsedAt = None\<rparr>"
  obtain rows' where i: "issue_key id (js ''kid'') (js ''sec'') (js ''r1'') 5 (js ''u1'') (js ''n'') []
      = Inr (rows', ?rec, js ''kid'' @ dot # js ''sec'')"
    by (simp add: issue_key_def create_key_def Let_def ingestKeyColumns_def)
  have "keys_inv []" by (simp add: keys_inv_def)
  moreover have "list_all base64url (js ''kid'')" "list_all base64url (js ''sec'')"
    by (simp_all add: js_def base64url_def)
  ultimately show ?thesis
    using credential_lifecycle [OF _ i, of "[RevokeKey (js ''u2'') (js ''r1'') 6]"] i by simp
qed

end
