(* ===== verification/IngestAuth.thy ===== *)
theory IngestAuth
  imports IngestKeys
begin

section \<open>Authentication of event requests\<close>

text \<open>
  \<open>apps/gateway/src/modules/events/ingest-auth.ts\<close>: the three headers and the exact body of a request
  are checked against the clock, the signature and the key store. The keyed hash (hex HMAC-SHA256)
  and the hash of the key store are arguments. A header is absent, a value, or a list of values.
\<close>

subsection \<open>UTF-8\<close>

text \<open>\<open>Buffer.from(text, "utf8")\<close>; a lone surrogate is written as the replacement character.\<close>

definition byte :: "nat \<Rightarrow> 8 word" where
  "byte n = word_of_nat n"

fun utf8_point :: "jstr \<Rightarrow> 8 word list" where
  "utf8_point [u] =
     (let n = unat u in
      if high_surrogate u \<or> low_surrogate u then [0xEF, 0xBF, 0xBD]
      else if n < 0x80 then [byte n]
      else if n < 0x800 then [byte (0xC0 + n div 64), byte (0x80 + n mod 64)]
      else [byte (0xE0 + n div 4096), byte (0x80 + n div 64 mod 64), byte (0x80 + n mod 64)])"
| "utf8_point [u, v] =
     (let n = 0x10000 + (unat u - 0xD800) * 0x400 + (unat v - 0xDC00) in
      [byte (0xF0 + n div 262144), byte (0x80 + n div 4096 mod 64), byte (0x80 + n div 64 mod 64),
       byte (0x80 + n mod 64)])"
| "utf8_point _ = []"

definition utf8 :: "jstr \<Rightarrow> 8 word list" where
  "utf8 s = concat (map utf8_point (code_points s))"

definition ascii :: "jstr \<Rightarrow> bool" where
  "ascii s \<longleftrightarrow> (\<forall>u \<in> set s. unat u < 0x80)"

lemma unat_byte: "n < 256 \<Longrightarrow> unat (byte n) = n"
  by (simp add: byte_def unat_of_nat)

lemma ascii_no_surrogate: "unat u < 0x80 \<Longrightarrow> \<not> high_surrogate u \<and> \<not> low_surrogate u"
  by (simp add: high_surrogate_def low_surrogate_def word_le_nat_alt)

lemma utf8_ascii: "ascii s \<Longrightarrow> utf8 s = map (\<lambda>u. byte (unat u)) s"
proof -
  assume a: "ascii s"
  then have "code_points s = map (\<lambda>u. [u]) s"
    by (intro code_points_no_surrogate) (auto simp: ascii_def dest: ascii_no_surrogate)
  moreover have "concat (map (\<lambda>u. utf8_point [u]) s) = map (\<lambda>u. byte (unat u)) s"
    using a by (induction s) (auto simp: ascii_def Let_def dest: ascii_no_surrogate)
  ultimately show ?thesis by (simp add: utf8_def comp_def)
qed

lemma unat_unit_less: "unat (u :: 16 word) < 65536"
proof -
  have "unat u < 2 ^ LENGTH(16)" by (rule unsigned_less)
  then show ?thesis by simp
qed

text \<open>The first byte of a code point is below 128 only for an ASCII character.\<close>

lemma utf8_point_ascii:
  assumes "p \<in> set (code_points s)" "\<forall>b \<in> set (utf8_point p). unat b < 0x80"
  shows "\<exists>u. p = [u] \<and> unat u < 0x80"
proof -
  have len: "length p = 1 \<or> length p = 2" using assms(1)
    by (induction s rule: code_points.induct) (auto split: if_splits)
  have surr: "length p = 2 \<Longrightarrow> high_surrogate (p ! 0)" using assms(1)
    by (induction s rule: code_points.induct) (auto split: if_splits)
  from len show ?thesis
  proof
    assume "length p = 1"
    then obtain u where p: "p = [u]" by (auto simp: length_Suc_conv)
    have "unat u < 65536" by (rule unat_unit_less)
    then have "unat u div 4096 < 16" "unat u div 64 mod 64 < 64" by simp_all
    with assms(2) p show ?thesis
      by (auto simp: Let_def unat_byte split: if_splits)
  next
    assume "length p = 2"
    then obtain u v where p: "p = [u, v]" by (auto simp: length_Suc_conv numeral_2_eq_2)
    let ?n = "0x10000 + (unat u - 0xD800) * 0x400 + (unat v - 0xDC00)"
    have "unat u \<le> 0xDBFF" using surr \<open>length p = 2\<close> p by (simp add: high_surrogate_def word_le_nat_alt)
    moreover have "unat v < 65536" by (rule unat_unit_less)
    ultimately have "?n \<le> 1122303" by linarith
    then have "?n div 262144 \<le> 1122303 div 262144" by (rule div_le_mono)
    then have "?n div 262144 \<le> 4" by simp
    with assms(2) p show ?thesis by (auto simp: Let_def unat_byte)
  qed
qed

lemma utf8_inj_ascii:
  assumes "ascii e" "utf8 e = utf8 c"
  shows "e = c"
proof -
  have bytes: "\<forall>b \<in> set (utf8 c). unat b < 0x80"
    using utf8_ascii [OF assms(1)] assms by (auto simp: ascii_def unat_byte)
  have pt: "\<exists>u. p = [u] \<and> unat u < 0x80" if "p \<in> set (code_points c)" for p
  proof (rule utf8_point_ascii [OF that])
    show "\<forall>b \<in> set (utf8_point p). unat b < 0x80" using bytes that by (auto simp: utf8_def)
  qed
  have "ascii (concat (code_points c))"
    unfolding ascii_def
  proof
    fix u assume "u \<in> set (concat (code_points c))"
    then obtain p where "p \<in> set (code_points c)" "u \<in> set p"
      unfolding set_concat by blast
    with pt [of p] show "unat u < 128" by auto
  qed
  then have c: "ascii c" by simp
  have eq: "map (\<lambda>u. byte (unat u)) e = map (\<lambda>u. byte (unat u)) c"
    using assms utf8_ascii c by simp
  have "map (\<lambda>u. unat (byte (unat u))) e = map (\<lambda>u. unat (byte (unat u))) c"
    using arg_cong [OF eq, of "map unat"] by (simp add: comp_def)
  moreover have "map (\<lambda>u. unat (byte (unat u))) x = map unat x" if "ascii x" for x
    using that by (auto simp: ascii_def unat_byte)
  ultimately have "map unat e = map unat c" using assms(1) c by simp
  then show ?thesis by (metis map_injective injI word_unat_eq_iff)
qed

subsection \<open>The checks\<close>

datatype header = NoHeader | OneValue jstr | ManyValues "jstr list"

definition firstHeaderValue :: "header \<Rightarrow> jstr option" where
  "firstHeaderValue h =
     (case h of
        NoHeader \<Rightarrow> None
      | OneValue v \<Rightarrow> Some v
      | ManyValues vs \<Rightarrow> (case vs of [] \<Rightarrow> None | v # _ \<Rightarrow> Some v))"

record auth_input =
  authorization :: header
  timestamp :: header
  signature :: header
  rawBody :: jstr

definition INGEST_TIMESTAMP_TOLERANCE_MS :: int where
  "INGEST_TIMESTAMP_TOLERANCE_MS = 5 * 60 * 1000"

definition MAX_SAFE_INTEGER :: int where
  "MAX_SAFE_INTEGER = 2 ^ 53 - 1"

definition expectedIngestSignature :: "(jstr \<Rightarrow> jstr \<Rightarrow> jstr) \<Rightarrow> jstr \<Rightarrow> jstr \<Rightarrow> jstr \<Rightarrow> jstr" where
  "expectedIngestSignature hmac secret ts body = hmac secret (ts @ dot # body)"

definition timingSafeStringEqual :: "jstr \<Rightarrow> jstr \<Rightarrow> bool" where
  "timingSafeStringEqual expected candidate =
     (let left = utf8 expected; right = utf8 candidate in
      if length left \<noteq> length right then False else left = right)"

definition bearer :: jstr where
  "bearer = js ''Bearer ''"

definition bearer_credential :: "jstr option \<Rightarrow> jstr option" where
  "bearer_credential auth =
     (case auth of
        None \<Rightarrow> None
      | Some a \<Rightarrow> if prefix bearer a then Some (drop (length bearer) a) else None)"

text \<open>
  \<open>Number.isSafeInteger(timestampMs) && Math.abs(now - timestampMs) <= tolerance\<close>; a text of digits
  that is too large for a safe integer is read as a number above the bound.
\<close>

definition timestamp_ok :: "int \<Rightarrow> jstr option \<Rightarrow> bool" where
  "timestamp_ok nowMs ts =
     (case ts of
        None \<Rightarrow> False
      | Some t \<Rightarrow>
          all_digits t \<and> int (parse_decimal t) \<le> MAX_SAFE_INTEGER \<and>
          \<bar>nowMs - int (parse_decimal t)\<bar> \<le> INGEST_TIMESTAMP_TOLERANCE_MS)"

definition signing_secret :: "jstr option \<Rightarrow> jstr" where
  "signing_secret credential =
     (case credential of
        None \<Rightarrow> []
      | Some c \<Rightarrow> (case index_of c dot of None \<Rightarrow> c | Some i \<Rightarrow> drop (i + 1) c))"

definition authenticateIngestRequest ::
  "(jstr \<Rightarrow> jstr \<Rightarrow> jstr) \<Rightarrow> (jstr \<Rightarrow> jstr) \<Rightarrow> (jstr \<Rightarrow> active_key option) \<Rightarrow> int \<Rightarrow> auth_input \<Rightarrow>
   verified_key option" where
  "authenticateIngestRequest hmac sha lookup nowMs input =
     (let auth = firstHeaderValue (authorization input);
          ts = firstHeaderValue (timestamp input);
          sig = firstHeaderValue (signature input);
          credential = bearer_credential auth;
          expected = expectedIngestSignature hmac (signing_secret credential)
            (case ts of None \<Rightarrow> [] | Some t \<Rightarrow> t) (rawBody input);
          signatureOk = (case sig of None \<Rightarrow> False | Some s \<Rightarrow> timingSafeStringEqual expected s);
          verified = (case credential of None \<Rightarrow> None | Some c \<Rightarrow> verify sha lookup c)
      in if \<not> timestamp_ok nowMs ts \<or> \<not> signatureOk then None else verified)"

lemma timingSafe_iff: "ascii e \<Longrightarrow> timingSafeStringEqual e c \<longleftrightarrow> e = c"
  by (auto simp: timingSafeStringEqual_def Let_def dest: utf8_inj_ascii)

text \<open>
  C26: A request is accepted only with a credential of an active key, a timestamp of plain digits within
  five minutes of the clock, and the signature of exactly this timestamp and body under the secret of
  that credential; the user it counts for is the owner of the key in the store.
\<close>

theorem accepted_request_is_signed:
  assumes "\<forall>k d. ascii (hmac k d)"
    "authenticateIngestRequest hmac sha (findActiveByKeyId rows) nowMs input = Some v"
  shows "\<exists>keyId secret ts a.
    firstHeaderValue (authorization input) = Some (bearer @ keyId @ dot # secret) \<and>
    firstHeaderValue (timestamp input) = Some ts \<and> all_digits ts \<and>
    \<bar>nowMs - int (parse_decimal ts)\<bar> \<le> 300000 \<and>
    firstHeaderValue (signature input) = Some (hmac secret (ts @ dot # rawBody input)) \<and>
    findActiveByKeyId rows keyId = Some a \<and> ak_secretHash a = sha secret \<and>
    v = \<lparr>vk_id = ak_id a, vk_userId = ak_userId a, vk_keyId = ak_keyId a\<rparr>"
proof -
  from assms(2) obtain ts c sig where ts: "firstHeaderValue (timestamp input) = Some ts"
    and tok: "timestamp_ok nowMs (Some ts)"
    and sig: "firstHeaderValue (signature input) = Some sig"
    and c: "bearer_credential (firstHeaderValue (authorization input)) = Some c"
    and eq: "timingSafeStringEqual (hmac (signing_secret (Some c)) (ts @ dot # rawBody input)) sig"
    and ver: "verify sha (findActiveByKeyId rows) c = Some v"
    by (auto simp: authenticateIngestRequest_def Let_def expectedIngestSignature_def timestamp_ok_def
      split: option.splits if_splits)
  from ver obtain keyId secret a where parts: "c = keyId @ dot # secret" "dot \<notin> set keyId"
    "findActiveByKeyId rows keyId = Some a" "ak_secretHash a = sha secret"
    "v = \<lparr>vk_id = ak_id a, vk_userId = ak_userId a, vk_keyId = ak_keyId a\<rparr>"
    by (auto simp: verify_Some_iff)
  have "signing_secret (Some c) = secret"
    using parts by (simp add: signing_secret_def index_of_append)
  with eq assms(1) have "sig = hmac secret (ts @ dot # rawBody input)"
    by (simp add: timingSafe_iff)
  moreover from c obtain auth where "firstHeaderValue (authorization input) = Some auth" "auth = bearer @ c"
    by (auto simp: bearer_credential_def prefix_def split: option.splits if_splits)
  ultimately show ?thesis
    using ts tok sig parts
    by (auto simp: timestamp_ok_def INGEST_TIMESTAMP_TOLERANCE_MS_def)
qed

text \<open>A toy keyed hash and store for the examples.\<close>

definition sample_hmac :: "jstr \<Rightarrow> jstr \<Rightarrow> jstr" where
  "sample_hmac k d = js (if k = js ''sec'' then ''ok'' else ''no'')"

definition sample_rows :: "ingest_row list" where
  "sample_rows = [\<lparr>ik_id = js ''r1'', ik_userId = js ''u1'', ik_keyId = js ''kid'', ik_secretHash = js ''sec'',
     ik_name = js ''n'', ik_createdAt = 1, ik_lastUsedAt = None, ik_revokedAt = None\<rparr>]"

definition sample_input :: auth_input where
  "sample_input = \<lparr>authorization = OneValue (js ''Bearer kid.sec''), timestamp = OneValue (js ''1000''),
     signature = OneValue (js ''ok''), rawBody = js ''{}''\<rparr>"

lemma ascii_js_sample: "ascii (sample_hmac k d)"
  by (simp add: ascii_def sample_hmac_def js_def)

lemma accepted_request_is_signed_witness:
  "\<exists>keyId secret. firstHeaderValue (authorization sample_input) = Some (bearer @ keyId @ dot # secret)
     \<and> sample_hmac secret (js ''1000'' @ dot # js ''{}'') = js ''ok''"
proof -
  have "authenticateIngestRequest sample_hmac id (findActiveByKeyId sample_rows) 2000 sample_input
      = Some \<lparr>vk_id = js ''r1'', vk_userId = js ''u1'', vk_keyId = js ''kid''\<rparr>"
    by code_simp
  from accepted_request_is_signed [OF _ this] ascii_js_sample
  obtain keyId secret ts where h:
    "firstHeaderValue (authorization sample_input) = Some (bearer @ keyId @ dot # secret)"
    "firstHeaderValue (timestamp sample_input) = Some ts"
    "firstHeaderValue (signature sample_input) = Some (sample_hmac secret (ts @ dot # rawBody sample_input))"
    by blast
  from h(2,3) have "sample_hmac secret (js ''1000'' @ dot # js ''{}'') = js ''ok''"
    by (simp add: sample_input_def firstHeaderValue_def)
  with h(1) show ?thesis by blast
qed

end
