(* ===== verification/Sender.thy ===== *)
theory Sender
  imports IngestAuth
begin

section \<open>Signed delivery to the gateway\<close>

text \<open>
  \<open>packages/plugin/src/sender.ts\<close>: the retry loop of \<open>send\<close> over the attempts, with the headers of
  each attempt. What an attempt reads from outside (clock, jitter, answer of \<open>fetch\<close>) is a function
  of its number; the raw body is the text of \<open>JSON.stringify(event)\<close>, and the keyed hash is an
  argument. The clock is taken to be nonnegative.
\<close>

record sender =
  gatewayUrl :: jstr
  sender_keyId :: jstr
  sender_secret :: jstr
  maxRetries :: int
  backoffBaseMs :: rat
  backoffCapMs :: rat

definition DEFAULT_BACKOFF_BASE_MS :: rat where
  "DEFAULT_BACKOFF_BASE_MS = 100"

definition DEFAULT_BACKOFF_CAP_MS :: rat where
  "DEFAULT_BACKOFF_CAP_MS = 5000"

text \<open>The answer of \<open>fetch\<close>: an error with its description \<open>name: message\<close>, or a response status.\<close>

datatype fetch_result = FetchThrew jstr | Responded nat

record attempt_world =
  clock :: rat
  jitter :: rat
  reply :: fetch_result

record post_request =
  url :: jstr
  contentType :: jstr
  authorizationHeader :: jstr
  timestampHeader :: jstr
  signatureHeader :: jstr
  requestBody :: jstr

datatype attempt_outcome = Ok | Retryable jstr | Permanent jstr

datatype send_action = Sleep rat | Post post_request

definition js_int :: "int \<Rightarrow> jstr" where
  "js_int n = (if n < 0 then js ''-'' @ decimal (nat (- n)) else decimal (nat n))"

definition backoffDelay :: "sender \<Rightarrow> nat \<Rightarrow> rat \<Rightarrow> rat" where
  "backoffDelay s failedAttempts random =
     random * min (backoffCapMs s) (backoffBaseMs s * 2 ^ failedAttempts)"

definition sender_redact :: "sender \<Rightarrow> jstr \<Rightarrow> jstr \<Rightarrow> jstr" where
  "sender_redact s text body =
     redact text [sender_keyId s @ dot # sender_secret s, sender_secret s, sender_keyId s, body]"

definition signed_request :: "(jstr \<Rightarrow> jstr \<Rightarrow> jstr) \<Rightarrow> sender \<Rightarrow> jstr \<Rightarrow> rat \<Rightarrow> post_request" where
  "signed_request hmac s body now =
     (let ts = decimal (nat \<lfloor>now\<rfloor>) in
      \<lparr>url = gatewayUrl s @ js ''/v1/events'', contentType = js ''application/json'',
       authorizationHeader = js ''Bearer '' @ sender_keyId s @ dot # sender_secret s,
       timestampHeader = ts,
       signatureHeader = hmac (sender_secret s) (ts @ dot # body),
       requestBody = body\<rparr>)"

definition reply_outcome :: "sender \<Rightarrow> jstr \<Rightarrow> fetch_result \<Rightarrow> attempt_outcome" where
  "reply_outcome s body r =
     (case r of
        FetchThrew text \<Rightarrow> Retryable (js ''network error ('' @ sender_redact s text body @ js '')'')
      | Responded status \<Rightarrow>
          if 200 \<le> status \<and> status < 300 then Ok
          else if 500 \<le> status then Retryable (js ''HTTP '' @ decimal status)
          else Permanent (js ''HTTP '' @ decimal status))"

definition tryOnce :: "(jstr \<Rightarrow> jstr \<Rightarrow> jstr) \<Rightarrow> sender \<Rightarrow> jstr \<Rightarrow> attempt_world \<Rightarrow> post_request \<times> attempt_outcome" where
  "tryOnce hmac s body w = (signed_request hmac s body (clock w), reply_outcome s body (reply w))"

definition rejected_text :: "jstr \<Rightarrow> jstr" where
  "rejected_text detail = js ''gateway event delivery rejected: '' @ detail"

definition failed_text :: "sender \<Rightarrow> jstr \<Rightarrow> jstr" where
  "failed_text s detail =
     js ''gateway event delivery failed after '' @ js_int (maxRetries s + 1) @ js '' attempts: '' @ detail"

function send_from ::
  "(jstr \<Rightarrow> jstr \<Rightarrow> jstr) \<Rightarrow> sender \<Rightarrow> jstr \<Rightarrow> (nat \<Rightarrow> attempt_world) \<Rightarrow> nat \<Rightarrow> jstr \<Rightarrow>
   send_action list \<times> (jstr + unit)" where
  "send_from hmac s body w attempt lastDetail =
     (if int attempt \<le> maxRetries s then
        let wait = (if 0 < attempt then [Sleep (backoffDelay s (attempt - 1) (jitter (w attempt)))] else []);
            (req, outcome) = tryOnce hmac s body (w attempt)
        in case outcome of
             Ok \<Rightarrow> (wait @ [Post req], Inr ())
           | Permanent detail \<Rightarrow> (wait @ [Post req], Inl (rejected_text detail))
           | Retryable detail \<Rightarrow>
               (let (acts, result) = send_from hmac s body w (attempt + 1) detail
                in (wait @ [Post req] @ acts, result))
      else ([], Inl (failed_text s lastDetail)))"
  by pat_completeness auto
termination
  by (relation "measure (\<lambda>(_, s, _, _, attempt, _). nat (maxRetries s + 1 - int attempt))") auto

declare send_from.simps [simp del]

definition send :: "(jstr \<Rightarrow> jstr \<Rightarrow> jstr) \<Rightarrow> sender \<Rightarrow> jstr \<Rightarrow> (nat \<Rightarrow> attempt_world) \<Rightarrow>
   send_action list \<times> (jstr + unit)" where
  "send hmac s body w = send_from hmac s body w 0 (js ''no attempt made'')"

subsection \<open>The attempts of a delivery\<close>

definition retryable :: "attempt_outcome \<Rightarrow> bool" where
  "retryable oc = (case oc of Retryable _ \<Rightarrow> True | _ \<Rightarrow> False)"

abbreviation outcome_at :: "sender \<Rightarrow> jstr \<Rightarrow> (nat \<Rightarrow> attempt_world) \<Rightarrow> nat \<Rightarrow> attempt_outcome" where
  "outcome_at s body w n \<equiv> reply_outcome s body (reply (w n))"

definition attempt_actions ::
  "(jstr \<Rightarrow> jstr \<Rightarrow> jstr) \<Rightarrow> sender \<Rightarrow> jstr \<Rightarrow> (nat \<Rightarrow> attempt_world) \<Rightarrow> nat \<Rightarrow> send_action list" where
  "attempt_actions hmac s body w n =
     (if 0 < n then [Sleep (backoffDelay s (n - 1) (jitter (w n)))] else [])
     @ [Post (signed_request hmac s body (clock (w n)))]"

text \<open>The attempts from \<open>n\<close> on: all up to the first answer that is not retryable.\<close>

lemma send_from_final:
  "m \<le> nat (maxRetries s + 1 - int n) \<Longrightarrow> \<forall>k<m. retryable (outcome_at s body w (n + k)) \<Longrightarrow>
   send_from hmac s body w n detail =
     (let r = send_from hmac s body w (n + m)
          (if m = 0 then detail
           else case outcome_at s body w (n + m - 1) of Retryable d \<Rightarrow> d | _ \<Rightarrow> detail)
      in (concat (map (attempt_actions hmac s body w) [n..<n + m]) @ fst r, snd r))"
proof (induction m arbitrary: n detail)
  case (Suc m)
  have "retryable (outcome_at s body w n)"
    using Suc.prems(2) by (metis add_0_right zero_less_Suc)
  then obtain d where d: "outcome_at s body w n = Retryable d"
    by (auto simp: retryable_def split: attempt_outcome.splits)
  have "retryable (outcome_at s body w (n + m))" using Suc.prems(2) by blast
  then obtain d' where d': "outcome_at s body w (n + m) = Retryable d'"
    by (auto simp: retryable_def split: attempt_outcome.splits)
  have le: "int n \<le> maxRetries s" using Suc.prems(1) by linarith
  have "send_from hmac s body w n detail =
    (let r = send_from hmac s body w (n + 1) d in (attempt_actions hmac s body w n @ fst r, snd r))"
    by (subst send_from.simps) (simp add: le tryOnce_def d attempt_actions_def Let_def split: prod.splits)
  moreover have "\<forall>k<m. retryable (outcome_at s body w (n + 1 + k))"
    using Suc.prems(2) by (metis Suc_less_eq add.assoc plus_1_eq_Suc)
  moreover have "m \<le> nat (maxRetries s + 1 - int (n + 1))" using Suc.prems(1) by linarith
  moreover have "[n..<n + Suc m] = n # [n + 1..<n + 1 + m]" by (simp add: upt_conv_Cons)
  ultimately show ?case
    using Suc.IH [of "n + 1" d] d d' by (cases "m = 0") (simp_all add: Let_def)
qed simp

lemma find_upt_Some: "List.find P [0..<N] = Some k \<longleftrightarrow> k < N \<and> P k \<and> (\<forall>j<k. \<not> P j)"
  by (auto simp: find_Some_iff)

lemma send_policy_None:
  assumes "\<forall>k<nat (maxRetries s + 1). retryable (outcome_at s body w k)"
  shows "send hmac s body w =
    (concat (map (attempt_actions hmac s body w) [0..<nat (maxRetries s + 1)]),
     Inl (failed_text s
       (if maxRetries s < 0 then js ''no attempt made''
        else case outcome_at s body w (nat (maxRetries s)) of Retryable d \<Rightarrow> d | _ \<Rightarrow> undefined)))"
proof -
  let ?N = "nat (maxRetries s + 1)"
  have "\<forall>k<?N. retryable (outcome_at s body w (0 + k))" using assms by simp
  note loop = send_from_final [OF _ this, of hmac]
  have "send_from hmac s body w ?N d = ([], Inl (failed_text s d))" for d
    by (subst send_from.simps) simp
  moreover have "retryable (outcome_at s body w (nat (maxRetries s)))" if "0 \<le> maxRetries s"
    using assms that by auto
  moreover have "?N - 1 = nat (maxRetries s)" by simp
  ultimately show ?thesis
    by (auto simp: send_def loop Let_def retryable_def split: attempt_outcome.splits)
qed

lemma send_policy_Some:
  assumes "k < nat (maxRetries s + 1)" "\<not> retryable (outcome_at s body w k)"
    "\<forall>j<k. retryable (outcome_at s body w j)"
  shows "send hmac s body w =
    (concat (map (attempt_actions hmac s body w) [0..<Suc k]),
     case outcome_at s body w k of
       Ok \<Rightarrow> Inr () | Permanent d \<Rightarrow> Inl (rejected_text d) | Retryable d \<Rightarrow> undefined)"
proof -
  have le: "int k \<le> maxRetries s" using assms(1) by linarith
  have "send_from hmac s body w k d =
    (attempt_actions hmac s body w k,
     case outcome_at s body w k of Ok \<Rightarrow> Inr () | Permanent d \<Rightarrow> Inl (rejected_text d) | Retryable d \<Rightarrow> undefined)"
    for d
    using assms(2) by (subst send_from.simps)
      (auto simp: le tryOnce_def attempt_actions_def Let_def retryable_def split: attempt_outcome.splits)
  moreover have "\<forall>j<k. retryable (outcome_at s body w (0 + j))" using assms(3) by simp
  ultimately show ?thesis
    using assms(1) send_from_final [of k s 0 body w hmac] by (simp add: send_def Let_def)
qed

text \<open>
  The retry policy of \<open>send\<close>: attempts are made in order, each a \<open>POST\<close> signed with its own clock
  reading over the same body and preceded (but for the first) by one backoff sleep, up to the first
  answer that is not retryable; a 2xx answer resolves, a permanent one rejects at once, and only
  \<open>maxRetries + 1\<close> retryable answers in a row reject with the summary.
\<close>

theorem send_retry_policy:
  "case List.find (\<lambda>n. \<not> retryable (outcome_at s body w n)) [0..<nat (maxRetries s + 1)] of
     Some k \<Rightarrow>
       send hmac s body w =
         (concat (map (attempt_actions hmac s body w) [0..<Suc k]),
          case outcome_at s body w k of
            Ok \<Rightarrow> Inr ()
          | Permanent d \<Rightarrow> Inl (rejected_text d)
          | Retryable d \<Rightarrow> undefined)
   | None \<Rightarrow>
       fst (send hmac s body w)
         = concat (map (attempt_actions hmac s body w) [0..<nat (maxRetries s + 1)]) \<and>
       snd (send hmac s body w) = Inl (failed_text s
         (if maxRetries s < 0 then js ''no attempt made''
          else case outcome_at s body w (nat (maxRetries s)) of Retryable d \<Rightarrow> d | _ \<Rightarrow> undefined))"
proof (cases "List.find (\<lambda>n. \<not> retryable (outcome_at s body w n)) [0..<nat (maxRetries s + 1)]")
  case None
  then have "\<forall>k<nat (maxRetries s + 1). retryable (outcome_at s body w k)" by (auto simp: find_None_iff)
  from send_policy_None [OF this] None show ?thesis by simp
next
  case (Some k)
  then have "k < nat (maxRetries s + 1)" "\<not> retryable (outcome_at s body w k)"
    "\<forall>j<k. retryable (outcome_at s body w j)"
    by (auto simp: find_upt_Some)
  from send_policy_Some [OF this] Some show ?thesis by simp
qed

text \<open>
  Full jitter: with a random number in [0, 1) the sleep before retry \<open>n\<close> is at least 0 and below
  the doubling bound, never above the cap.
\<close>

theorem backoff_bounds:
  assumes "0 \<le> r" "r < 1" "0 < backoffBaseMs s" "0 < backoffCapMs s"
  shows "0 \<le> backoffDelay s n r \<and> backoffDelay s n r < backoffBaseMs s * 2 ^ n
       \<and> backoffDelay s n r < backoffCapMs s"
proof -
  let ?m = "min (backoffCapMs s) (backoffBaseMs s * 2 ^ n)"
  have m: "0 < ?m" using assms(3,4) by simp
  have "0 \<le> r * ?m" using assms(1) m by (intro mult_nonneg_nonneg) auto
  moreover have "r * ?m < 1 * ?m" using assms(2) m by (intro mult_strict_right_mono)
  ultimately show ?thesis
    unfolding backoffDelay_def by (metis less_le_trans min.cobounded1 min.cobounded2 mult_1)
qed

lemma backoff_bounds_witness:
  "backoffDelay \<lparr>gatewayUrl = [], sender_keyId = [], sender_secret = [], maxRetries = 5,
     backoffBaseMs = 500, backoffCapMs = 8000\<rparr> 6 (3 / 4) < 8000"
  using backoff_bounds [of "3 / 4" "\<lparr>gatewayUrl = [], sender_keyId = [], sender_secret = [], maxRetries = 5,
     backoffBaseMs = 500, backoffCapMs = 8000\<rparr>" 6] by simp

subsection \<open>Messages without secrets\<close>

lemma decimal_word: "longest_run base64url (decimal n) \<le> length (decimal n)"
proof -
  have "run_from P m t \<le> m + length t" for P m t
    by (induction P m t rule: run_from.induct) auto
  from this [of base64url 0] show ?thesis by (simp add: longest_run_def)
qed

lemma decimal_length: "n < 10 ^ k \<Longrightarrow> 0 < k \<Longrightarrow> length (decimal n) \<le> k"
proof (induction n arbitrary: k rule: decimal.induct)
  case (1 n)
  show ?case
  proof (cases "n < 10")
    case False
    with "1.prems" obtain k' where k: "k = Suc k'" "0 < k'"
      by (cases k; cases "k - 1") auto
    with "1.prems" have "n div 10 < 10 ^ k'" by (simp add: div_less_iff_less_mult mult.commute)
    with 1 False k have "length (decimal (n div 10)) \<le> k'" by simp
    with False k show ?thesis by (subst decimal.simps) simp
  qed (use "1.prems" in \<open>subst decimal.simps, simp\<close>)
qed

lemma short_decimal_clean: "n < 10 ^ 8 \<Longrightarrow> issued_secret s \<Longrightarrow> \<not> js_includes (decimal n) s"
  using decimal_length [of n 8] includes_length [of "decimal n" s] by (auto simp: issued_secret_def)

lemma js_end: "js (xs @ [c]) = js xs @ [word_of_nat (of_char c)]"
  by (simp add: js_def)

lemma issued_skip:
  "issued_secret x \<Longrightarrow> \<not> base64url c \<Longrightarrow> longest_run base64url u \<le> 8 \<Longrightarrow> js_includes (u @ c # v) x \<Longrightarrow> js_includes v x"
  using issued_separator issued_not_in_words by blast

lemma text_runs:
  "longest_run base64url (js ''gateway event delivery rejected:'') \<le> 8"
  "longest_run base64url (js ''gateway event delivery failed after'') \<le> 8"
  "longest_run base64url (js ''attempts:'') \<le> 8"
  "longest_run base64url (js ''network error'') \<le> 8"
  "longest_run base64url (js ''HTTP'') \<le> 8"
  "longest_run base64url (js ''no attempt made'') \<le> 8"
  by (simp_all add: longest_run_def js_def base64url_def)

lemma not_base64url: "\<not> base64url 32" "\<not> base64url 40" "\<not> base64url 41"
  by (simp_all add: base64url_def)

lemma http_clean: "issued_secret x \<Longrightarrow> st < 10 ^ 8 \<Longrightarrow> \<not> js_includes (js ''HTTP '' @ decimal st) x"
proof
  assume x: "issued_secret x" "st < 10 ^ 8" "js_includes (js ''HTTP '' @ decimal st) x"
  have "js ''HTTP '' = js ''HTTP'' @ [32]" by (simp add: js_def)
  with x(3) have "js_includes (js ''HTTP'' @ 32 # decimal st) x" by simp
  from issued_skip [OF x(1) not_base64url(1) text_runs(5) this] short_decimal_clean [OF x(2,1)]
  show False by simp
qed

lemma network_clean:
  assumes "issued_secret x" "x \<in> {sender_keyId s, sender_secret s}"
  shows "\<not> js_includes (js ''network error ('' @ sender_redact s text body @ js '')'') x"
proof
  let ?r = "sender_redact s text body"
  assume "js_includes (js ''network error ('' @ ?r @ js '')'') x"
  moreover have "js ''network error ('' = js ''network error'' @ [32, 40]" "js '')'' = [41]"
    by (simp_all add: js_def)
  ultimately have "js_includes (js ''network error'' @ 32 # ([] @ 40 # (?r @ 41 # []))) x" by simp
  from issued_skip [OF assms(1) not_base64url(1) text_runs(4) this]
  have "js_includes ([] @ 40 # (?r @ 41 # [])) x" .
  from issued_separator [OF assms(1) not_base64url(2) this] issued_nonempty [OF assms(1)]
  have "js_includes (?r @ 41 # []) x" by simp
  from issued_separator [OF assms(1) not_base64url(3) this] issued_nonempty [OF assms(1)]
  have "js_includes ?r x" by simp
  then show False using redact_removes [OF assms(1)] assms(2) by (auto simp: sender_redact_def simp del: redact.simps)
qed

lemma outcome_clean:
  assumes "issued_secret x" "x \<in> {sender_keyId s, sender_secret s}"
    "\<forall>st. r = Responded st \<longrightarrow> st < 10 ^ 8"
    "reply_outcome s body r = Retryable d \<or> reply_outcome s body r = Permanent d"
  shows "\<not> js_includes d x"
proof (cases r)
  case (FetchThrew t)
  with assms network_clean [OF assms(1,2)] show ?thesis by (auto simp: reply_outcome_def)
next
  case (Responded st)
  with assms http_clean [OF assms(1)] show ?thesis
    by (auto simp: reply_outcome_def split: if_splits)
qed

lemma rejected_clean: "issued_secret x \<Longrightarrow> \<not> js_includes d x \<Longrightarrow> \<not> js_includes (rejected_text d) x"
proof
  assume x: "issued_secret x" "\<not> js_includes d x" "js_includes (rejected_text d) x"
  have "js ''gateway event delivery rejected: '' = js ''gateway event delivery rejected:'' @ [32]"
    by (simp add: js_def)
  with x(3) have "js_includes (js ''gateway event delivery rejected:'' @ 32 # d) x"
    by (simp add: rejected_text_def)
  from issued_skip [OF x(1) not_base64url(1) text_runs(1) this] x(2) show False by simp
qed

lemma failed_clean:
  assumes "issued_secret x" "\<not> js_includes d x" "0 \<le> maxRetries s + 1" "maxRetries s + 1 < 10 ^ 8"
  shows "\<not> js_includes (failed_text s d) x"
proof
  let ?n = "decimal (nat (maxRetries s + 1))"
  assume f: "js_includes (failed_text s d) x"
  have "js ''gateway event delivery failed after '' = js ''gateway event delivery failed after'' @ [32]"
    "js '' attempts: '' = 32 # js ''attempts:'' @ [32]" by (simp_all add: js_def)
  with f assms(3) have
    "js_includes (js ''gateway event delivery failed after'' @ 32 # (?n @ 32 # (js ''attempts:'' @ 32 # d))) x"
    by (simp add: failed_text_def js_int_def)
  from issued_skip [OF assms(1) not_base64url(1) text_runs(2) this]
  have "js_includes (?n @ 32 # (js ''attempts:'' @ 32 # d)) x" .
  moreover have "nat (maxRetries s + 1) < 10 ^ 8" using assms(4) by simp
  ultimately have "js_includes (js ''attempts:'' @ 32 # d) x"
    using issued_separator [OF assms(1) not_base64url(1)] short_decimal_clean [OF _ assms(1)] by blast
  from issued_skip [OF assms(1) not_base64url(1) text_runs(3) this] assms(2) show False by simp
qed

text \<open>
  A delivery never fails with a message that discloses the credential: whatever text \<open>fetch\<close>
  throws, neither the secret nor the key id (as the gateway issues them) occurs in the rejection.
\<close>

theorem send_error_hides_credential:
  assumes "issued_secret x" "x \<in> {sender_keyId s, sender_secret s}"
    "0 \<le> maxRetries s" "maxRetries s + 1 < 10 ^ 8"
    "\<forall>n st. reply (w n) = Responded st \<longrightarrow> st < 1000"
    "snd (send hmac s body w) = Inl msg"
  shows "\<not> js_includes msg x"
proof -
  let ?N = "nat (maxRetries s + 1)"
  have "(1000 :: nat) < 10 ^ 8" by simp
  with assms(5) have small: "\<forall>st. reply (w n) = Responded st \<longrightarrow> st < 10 ^ 8" for n
    by (meson less_trans)
  note clean = outcome_clean [OF assms(1,2) small]
  show ?thesis
  proof (cases "\<forall>k<?N. retryable (outcome_at s body w k)")
    case True
    have "nat (maxRetries s) < ?N" using assms(3) by simp
    with True obtain d where d: "outcome_at s body w (nat (maxRetries s)) = Retryable d"
      by (fastforce simp: retryable_def split: attempt_outcome.splits)
    with send_policy_None [OF True] assms(3,6) have "msg = failed_text s d" by simp
    moreover have "\<not> js_includes d x" using clean d by blast
    ultimately show ?thesis using failed_clean [OF assms(1) _ _ assms(4)] assms(3) by simp
  next
    case False
    then obtain k where k: "k < ?N \<and> \<not> retryable (outcome_at s body w k)"
      "\<forall>j<k. \<not> (j < ?N \<and> \<not> retryable (outcome_at s body w j))"
      using exists_least_iff [of "\<lambda>k. k < ?N \<and> \<not> retryable (outcome_at s body w k)"] by blast
    then have "k < ?N" "\<not> retryable (outcome_at s body w k)" "\<forall>j<k. retryable (outcome_at s body w j)"
      by auto
    note k = this
    from send_policy_Some [OF k] assms(6) k(2) obtain d
      where "outcome_at s body w k = Permanent d" "msg = rejected_text d"
      by (auto simp: retryable_def split: attempt_outcome.splits)
    then show ?thesis using rejected_clean [OF assms(1)] clean by blast
  qed
qed

definition sample_sender :: sender where
  "sample_sender = \<lparr>gatewayUrl = js ''http://g'', sender_keyId = js ''k'', sender_secret = js ''abcdefghij'',
     maxRetries = 0, backoffBaseMs = 100, backoffCapMs = 5000\<rparr>"

lemma send_error_hides_credential_witness:
  "\<not> js_includes (failed_text sample_sender
       (js ''network error ('' @ sender_redact sample_sender (js ''abcdefghij'') [] @ js '')'')) (js ''abcdefghij'')"
proof -
  let ?w = "\<lambda>n. \<lparr>clock = 1, jitter = 0, reply = FetchThrew (js ''abcdefghij'')\<rparr>"
  have "issued_secret (js ''abcdefghij'')" by (simp add: issued_secret_def js_def base64url_def)
  moreover have "snd (send sample_hmac sample_sender [] ?w) = Inl (failed_text sample_sender
       (js ''network error ('' @ sender_redact sample_sender (js ''abcdefghij'') [] @ js '')''))"
    by (simp add: send_policy_None reply_outcome_def retryable_def) (simp add: sample_sender_def)
  ultimately show ?thesis
    using send_error_hides_credential [of "js ''abcdefghij''" sample_sender ?w]
    by (simp add: sample_sender_def)
qed

subsection \<open>Sender and gateway agree\<close>

definition as_auth_input :: "post_request \<Rightarrow> auth_input" where
  "as_auth_input r =
     \<lparr>authorization = OneValue (authorizationHeader r), timestamp = OneValue (timestampHeader r),
      signature = OneValue (signatureHeader r), rawBody = requestBody r\<rparr>"

text \<open>
  C4: End-to-end authentication: the request that an attempt of the plugin sends is accepted by the
  gateway for the owner of the key, whenever the key is active, the stored hash is that of the
  plugin's secret, and the two clocks differ by at most five minutes.
\<close>

theorem gateway_accepts_sender:
  assumes "findActiveByKeyId rows (sender_keyId s) = Some a" "ak_secretHash a = sha (sender_secret s)"
    "list_all base64url (sender_keyId s)" "list_all base64url (sender_secret s)"
    "sender_keyId s \<noteq> []" "sender_secret s \<noteq> []"
    "0 \<le> now" "\<lfloor>now\<rfloor> \<le> MAX_SAFE_INTEGER" "\<bar>nowMs - \<lfloor>now\<rfloor>\<bar> \<le> INGEST_TIMESTAMP_TOLERANCE_MS"
  shows "authenticateIngestRequest hmac sha (findActiveByKeyId rows) nowMs
           (as_auth_input (fst (tryOnce hmac s body \<lparr>clock = now, jitter = j, reply = r\<rparr>)))
         = Some \<lparr>vk_id = ak_id a, vk_userId = ak_userId a, vk_keyId = ak_keyId a\<rparr>"
proof -
  let ?cred = "sender_keyId s @ dot # sender_secret s"
  have nodot: "dot \<notin> set (sender_keyId s)" "dot \<notin> set (sender_secret s)"
    using assms(3,4) by (auto simp: list_all_iff dot_def base64url_def)
  have ts: "timestamp_ok nowMs (Some (decimal (nat \<lfloor>now\<rfloor>)))"
    using assms(7-9) by (simp add: timestamp_ok_def all_digits_decimal parse_decimal_decimal)
  have "signing_secret (Some ?cred) = sender_secret s"
    by (simp add: signing_secret_def index_of_append nodot)
  moreover have "verify sha (findActiveByKeyId rows) ?cred
      = Some \<lparr>vk_id = ak_id a, vk_userId = ak_userId a, vk_keyId = ak_keyId a\<rparr>"
    using assms by (simp add: verify_credential nodot)
  ultimately show ?thesis
    using ts by (simp add: authenticateIngestRequest_def as_auth_input_def tryOnce_def signed_request_def
      firstHeaderValue_def bearer_credential_def bearer_def expectedIngestSignature_def
      timingSafeStringEqual_def Let_def)
qed

lemma gateway_accepts_sender_witness:
  "authenticateIngestRequest sample_hmac id (findActiveByKeyId sample_rows) 2000
     (as_auth_input (fst (tryOnce sample_hmac (sample_sender\<lparr>sender_keyId := js ''kid'', sender_secret := js ''sec''\<rparr>)
        (js ''{}'') \<lparr>clock = 1500, jitter = 0, reply = Responded 202\<rparr>)))
   = Some \<lparr>vk_id = js ''r1'', vk_userId = js ''u1'', vk_keyId = js ''kid''\<rparr>"
proof -
  let ?s = "sample_sender\<lparr>sender_keyId := js ''kid'', sender_secret := js ''sec''\<rparr>"
  have "findActiveByKeyId sample_rows (sender_keyId ?s) = Some \<lparr>ak_id = js ''r1'', ak_userId = js ''u1'',
      ak_keyId = js ''kid'', ak_secretHash = js ''sec''\<rparr>"
    by (simp add: sample_rows_def)
  from gateway_accepts_sender [OF this, of id 1500 2000] show ?thesis
    by (simp add: MAX_SAFE_INTEGER_def INGEST_TIMESTAMP_TOLERANCE_MS_def base64url_def js_def)
qed

end
