(* ===== verification/EventIngress.thy ===== *)
theory EventIngress
  imports Sender Contracts
begin

section \<open>Event ingress of the gateway\<close>

text \<open>
  \<open>apps/gateway/src/lib/dedupe.ts\<close> and \<open>modules/events/events.routes.ts\<close>. \<open>dispatchOnce\<close> is split at
  its \<open>await\<close>: \<open>dispatch_once\<close> runs up to it (a duplicate is answered, a second request for a pair in
  flight waits, the first becomes the owner and starts the dispatch), \<open>dispatch_settled\<close> is what the
  owner and the waiters do when the dispatch promise settles. Requests are numbered. The rate limiter
  and the order of the checks of the route follow; the IP limiter of the plugin in front is not part
  of it.
\<close>

definition DEDUPE_TTL_MS :: int where
  "DEDUPE_TTL_MS = 10 * 60 * 1000"

definition DEDUPE_MAX_SIZE :: nat where
  "DEDUPE_MAX_SIZE = 100000"

record flight =
  owner :: nat
  waiters :: "nat list"

record dedupe =
  committed :: "(jstr, int) jsmap"
  inFlight :: "(jstr, flight) jsmap"
  ttlMs :: int
  maxSize :: nat

definition newEventDedupe :: "int \<Rightarrow> nat \<Rightarrow> dedupe" where
  "newEventDedupe ttl mx = \<lparr>committed = [], inFlight = [], ttlMs = ttl, maxSize = mx\<rparr>"

definition space :: "16 word" where
  "space = 32"

definition dedupe_key :: "jstr \<Rightarrow> jstr \<Rightarrow> jstr" where
  "dedupe_key userId evId = userId @ space # evId"

text \<open>How a call of \<open>dispatchOnce\<close> goes on after its first synchronous part.\<close>

datatype dispatch_start = AlreadyDone | Waits | Dispatches

definition dispatch_once :: "int \<Rightarrow> nat \<Rightarrow> jstr \<Rightarrow> dedupe \<Rightarrow> dedupe \<times> dispatch_start" where
  "dispatch_once nowMs req key d =
     (if (case map_get (committed d) key of None \<Rightarrow> False | Some expiresAt \<Rightarrow> expiresAt > nowMs)
      then (d, AlreadyDone)
      else case map_get (inFlight d) key of
          Some f \<Rightarrow> (d\<lparr>inFlight := map_set key (f\<lparr>waiters := waiters f @ [req]\<rparr>) (inFlight d)\<rparr>, Waits)
        | None \<Rightarrow> (d\<lparr>inFlight := map_set key \<lparr>owner = req, waiters = []\<rparr> (inFlight d)\<rparr>, Dispatches))"

definition evictExpired :: "int \<Rightarrow> (jstr, int) jsmap \<Rightarrow> (jstr, int) jsmap" where
  "evictExpired nowMs m = filter (\<lambda>(_, expiresAt). \<not> expiresAt \<le> nowMs) m"

definition commit :: "int \<Rightarrow> jstr \<Rightarrow> dedupe \<Rightarrow> dedupe" where
  "commit nowMs key d =
     (let m = map_set key (nowMs + ttlMs d) (map_delete key (committed d));
          m' = (if length m > maxSize d then evictExpired nowMs m else m)
      in d\<lparr>committed := evict_oldest (maxSize d) m'\<rparr>)"

text \<open>The answers of a settled dispatch: \<open>Some duplicate\<close> for each request, or the error for all.\<close>

definition dispatch_settled :: "int \<Rightarrow> bool \<Rightarrow> jstr \<Rightarrow> dedupe \<Rightarrow> dedupe \<times> (nat \<times> bool option) list" where
  "dispatch_settled nowMs success key d =
     (case map_get (inFlight d) key of
        None \<Rightarrow> (d, [])
      | Some f \<Rightarrow>
          let d' = d\<lparr>inFlight := map_delete key (inFlight d)\<rparr> in
          if success
          then (commit nowMs key d', (owner f, Some False) # map (\<lambda>r. (r, Some True)) (waiters f))
          else (d', (owner f, None) # map (\<lambda>r. (r, None)) (waiters f)))"

lemma evictExpired_delete: "map_get (evictExpired t m) k = Some e \<Longrightarrow> distinct_keys m \<Longrightarrow> map_get m k = Some e"
  by (auto simp: evictExpired_def map_get_filter split: option.splits if_splits)

subsection \<open>Histories\<close>

datatype dedupe_op = Request nat jstr int | Settle jstr bool int

datatype dedupe_log = Dispatched jstr int | Succeeded jstr int | FailedDispatch jstr int

text \<open>One operation, and what it adds to the log of dispatches (the newest entry first).\<close>

definition dedupe_step :: "dedupe_op \<Rightarrow> dedupe \<times> dedupe_log list \<Rightarrow> dedupe \<times> dedupe_log list" where
  "dedupe_step op s =
     (let (d, lg) = s in
      case op of
        Request req key t \<Rightarrow>
          (let (d', r) = dispatch_once t req key d
           in (d', if r = Dispatches then Dispatched key t # lg else lg))
      | Settle key ok t \<Rightarrow>
          (if map_has (inFlight d) key
           then (fst (dispatch_settled t ok key d),
                 (if ok then Succeeded key t else FailedDispatch key t) # lg)
           else (d, lg)))"

definition dedupe_run :: "dedupe \<Rightarrow> dedupe_op list \<Rightarrow> dedupe \<times> dedupe_log list" where
  "dedupe_run d ops = fold dedupe_step ops (d, [])"

fun flying :: "jstr \<Rightarrow> dedupe_log list \<Rightarrow> bool" where
  "flying k [] = False"
| "flying k (Dispatched k' t # lg) = (k' = k \<or> flying k lg)"
| "flying k (Succeeded k' t # lg) = (k' \<noteq> k \<and> flying k lg)"
| "flying k (FailedDispatch k' t # lg) = (k' \<noteq> k \<and> flying k lg)"

fun last_success :: "jstr \<Rightarrow> dedupe_log list \<Rightarrow> int option" where
  "last_success k [] = None"
| "last_success k (Succeeded k' t # lg) = (if k' = k then Some t else last_success k lg)"
| "last_success k (_ # lg) = last_success k lg"

text \<open>
  A log without repeated deliveries: a dispatch of a key starts only while none is in flight, and not
  before the window of its last successful dispatch is over.
\<close>

fun no_repeats :: "int \<Rightarrow> dedupe_log list \<Rightarrow> bool" where
  "no_repeats ttl [] = True"
| "no_repeats ttl (Dispatched k t # lg) =
     (\<not> flying k lg \<and> (case last_success k lg of None \<Rightarrow> True | Some t0 \<Rightarrow> t0 + ttl \<le> t) \<and> no_repeats ttl lg)"
| "no_repeats ttl (_ # lg) = no_repeats ttl lg"

fun successes :: "dedupe_log list \<Rightarrow> nat" where
  "successes [] = 0"
| "successes (Succeeded k t # lg) = Suc (successes lg)"
| "successes (_ # lg) = successes lg"

definition dedupe_inv :: "dedupe \<times> dedupe_log list \<Rightarrow> bool" where
  "dedupe_inv s \<longleftrightarrow>
     (let (d, lg) = s in
      distinct_keys (committed d) \<and> distinct_keys (inFlight d) \<and>
      length (committed d) \<le> successes lg \<and>
      (\<forall>k. map_has (inFlight d) k \<longleftrightarrow> flying k lg) \<and>
      (\<forall>k t. last_success k lg = Some t \<longrightarrow> map_get (committed d) k = Some (t + ttlMs d)) \<and>
      no_repeats (ttlMs d) lg)"

lemma length_refresh: "length (map_set k v (map_delete k m)) \<le> Suc (length m)"
  using length_map_delete_le [of k m] by (auto simp: length_map_set simp del: length_map_delete_le)

lemma commit_fits:
  assumes "distinct_keys (committed d)" "length (committed d) < maxSize d"
  shows "committed (commit t k d) = map_set k (t + ttlMs d) (map_delete k (committed d))"
proof -
  have "length (map_set k (t + ttlMs d) (map_delete k (committed d))) \<le> maxSize d"
    using assms(2) length_refresh [of k "t + ttlMs d" "committed d"] by linarith
  then show ?thesis by (simp add: commit_def Let_def evict_oldest_small)
qed

lemma commit_fields [simp]:
  "ttlMs (commit t k d) = ttlMs d" "maxSize (commit t k d) = maxSize d" "inFlight (commit t k d) = inFlight d"
  by (simp_all add: commit_def Let_def)

lemma dedupe_step_fields [simp]:
  "ttlMs (fst (dedupe_step op s)) = ttlMs (fst s)" "maxSize (fst (dedupe_step op s)) = maxSize (fst s)"
  by (cases s; cases op; auto simp: dedupe_step_def dispatch_once_def dispatch_settled_def Let_def
    split: option.splits)+

lemma successes_step: "successes (snd s) \<le> successes (snd (dedupe_step op s))"
  by (cases s; cases op) (auto simp: dedupe_step_def Let_def split: prod.splits)

lemma dedupe_inv_request:
  assumes "dedupe_inv (d, lg)"
  shows "dedupe_inv (dedupe_step (Request req key t) (d, lg))"
proof (cases "snd (dispatch_once t req key d)")
  case AlreadyDone
  then have "dedupe_step (Request req key t) (d, lg) = (d, lg)"
    by (auto simp: dedupe_step_def dispatch_once_def Let_def split: option.splits if_splits)
  with assms show ?thesis by simp
next
  case Waits
  then obtain f where f: "map_get (inFlight d) key = Some f"
    and st: "dedupe_step (Request req key t) (d, lg) =
      (d\<lparr>inFlight := map_set key (f\<lparr>waiters := waiters f @ [req]\<rparr>) (inFlight d)\<rparr>, lg)"
    by (auto simp: dedupe_step_def dispatch_once_def Let_def split: option.splits if_splits)
  moreover have "map_has (inFlight d) key" using f by (simp add: map_has_iff)
  ultimately show ?thesis using assms by (auto simp: dedupe_inv_def)
next
  case Dispatches
  then have f: "map_get (inFlight d) key = None"
    and exp: "\<forall>e. map_get (committed d) key = Some e \<longrightarrow> e \<le> t"
    and st: "dedupe_step (Request req key t) (d, lg) =
      (d\<lparr>inFlight := map_set key \<lparr>owner = req, waiters = []\<rparr> (inFlight d)\<rparr>, Dispatched key t # lg)"
    by (auto simp: dedupe_step_def dispatch_once_def Let_def split: option.splits if_splits)
  from f have "\<not> map_has (inFlight d) key" by (simp add: map_has_iff)
  with assms have "\<not> flying key lg" by (simp add: dedupe_inv_def)
  with assms exp show ?thesis
    unfolding st by (auto simp: dedupe_inv_def split: option.splits)
qed

lemma dedupe_inv_unsettled:
  assumes "dedupe_inv (d, lg)" "\<not> (ok \<and> map_has (inFlight d) key)"
  shows "dedupe_inv (dedupe_step (Settle key ok t) (d, lg))"
proof (cases "map_get (inFlight d) key")
  case None
  then have "\<not> map_has (inFlight d) key" by (simp add: map_has_iff)
  with assms show ?thesis by (simp add: dedupe_step_def)
next
  case (Some f)
  then have "map_has (inFlight d) key" by (simp add: map_has_iff)
  with assms Some show ?thesis
    by (auto simp: dedupe_step_def dispatch_settled_def Let_def dedupe_inv_def)
qed

lemma dedupe_inv_settle:
  assumes "dedupe_inv (d, lg)" "successes lg < maxSize d"
  shows "dedupe_inv (dedupe_step (Settle key ok t) (d, lg))"
proof (cases "map_get (inFlight d) key")
  case None
  with assms show ?thesis by (simp add: dedupe_step_def map_has_iff)
next
  case (Some f)
  let ?d = "d\<lparr>inFlight := map_delete key (inFlight d)\<rparr>"
  have len: "length (committed ?d) < maxSize ?d" and dk: "distinct_keys (committed ?d)"
    using assms by (auto simp: dedupe_inv_def)
  show ?thesis
  proof (cases ok)
    case True
    have "length (map_set key (t + ttlMs d) (map_delete key (committed d))) \<le> Suc (length (committed d))"
      by (rule length_refresh)
    with assms Some True commit_fits [OF dk len, of t key] show ?thesis
      by (auto simp: dedupe_step_def dispatch_settled_def Let_def dedupe_inv_def map_has_iff [of _ key])
  qed (use assms dedupe_inv_unsettled in blast)
qed

lemma fold_fields [simp]:
  "ttlMs (fst (fold dedupe_step ops s)) = ttlMs (fst s)" "maxSize (fst (fold dedupe_step ops s)) = maxSize (fst s)"
  by (induction ops arbitrary: s) simp_all

lemma dedupe_run_inv:
  "dedupe_inv s \<Longrightarrow> successes (snd (fold dedupe_step ops s)) \<le> maxSize (fst s) \<Longrightarrow>
   dedupe_inv (fold dedupe_step ops s)"
proof (induction ops rule: rev_induct)
  case (snoc op ops)
  let ?s = "fold dedupe_step ops s"
  obtain d lg where s: "?s = (d, lg)" by force
  have mx: "maxSize d = maxSize (fst s)" using fold_fields(2) [of ops s] s by simp
  have le: "successes (snd (dedupe_step op ?s)) \<le> maxSize d" using snoc.prems(2) mx by simp
  then have inv: "dedupe_inv (d, lg)"
    using snoc s mx successes_step [of ?s op] by simp
  show ?case
  proof (cases op)
    case (Request r k t)
    with dedupe_inv_request [OF inv] s show ?thesis by simp
  next
    case (Settle k ok t)
    show ?thesis
    proof (cases "ok \<and> map_has (inFlight d) k")
      case True
      then have "successes lg < maxSize d"
        using le s Settle by (auto simp: dedupe_step_def Let_def)
      from dedupe_inv_settle [OF inv this] show ?thesis using s Settle by simp
    next
      case False
      from dedupe_inv_unsettled [OF inv this] s Settle show ?thesis by simp
    qed
  qed
qed simp

text \<open>
  C33: At-most-once delivery per window: whatever the interleaving of requests and settling dispatches,
  as long as no more dispatches succeed than the dedupe retains, a (user, event) pair is dispatched
  only while no dispatch of it is in flight, and after a successful one not again for the whole
  window. Failed dispatches may be retried at once.
\<close>

theorem dedupe_at_most_once:
  assumes "dedupe_run (newEventDedupe ttl mx) ops = (d, lg)" "successes lg \<le> mx"
  shows "no_repeats ttl lg"
proof -
  have "dedupe_inv (newEventDedupe ttl mx, [])" by (simp add: dedupe_inv_def newEventDedupe_def map_has_iff)
  from dedupe_run_inv [OF this, of ops] assms have "dedupe_inv (d, lg)"
    by (simp add: dedupe_run_def newEventDedupe_def)
  moreover have "ttlMs d = ttl"
    using arg_cong [OF assms(1), of "\<lambda>x. ttlMs (fst x)"] by (simp add: dedupe_run_def newEventDedupe_def)
  ultimately show ?thesis by (simp add: dedupe_inv_def)
qed

lemma dedupe_at_most_once_witness:
  "\<exists>d. dedupe_run (newEventDedupe 10 2)
       [Request 1 (js ''k'') 0, Request 2 (js ''k'') 1, Settle (js ''k'') True 2, Request 3 (js ''k'') 5,
        Request 4 (js ''k'') 12] =
     (d, [Dispatched (js ''k'') 12, Succeeded (js ''k'') 2, Dispatched (js ''k'') 0])
   \<and> no_repeats 10 [Dispatched (js ''k'') 12, Succeeded (js ''k'') 2, Dispatched (js ''k'') 0]"
proof -
  obtain d where run: "dedupe_run (newEventDedupe 10 2)
       [Request 1 (js ''k'') 0, Request 2 (js ''k'') 1, Settle (js ''k'') True 2, Request 3 (js ''k'') 5,
        Request 4 (js ''k'') 12] =
     (d, [Dispatched (js ''k'') 12, Succeeded (js ''k'') 2, Dispatched (js ''k'') 0])"
    by (simp add: dedupe_run_def newEventDedupe_def dedupe_step_def dispatch_once_def dispatch_settled_def
      commit_def evict_oldest_small map_has_iff Let_def)
  from dedupe_at_most_once [OF run] run show ?thesis by simp
qed

subsection \<open>Capacity\<close>

text \<open>
  A commit keeps the dedupe within its capacity and retains the committed pair; expired pairs go
  first, so a pair whose window is still open is only given up when more open pairs than the
  capacity exist.
\<close>

theorem commit_keeps_live:
  fixes t :: int and key :: jstr
  assumes "distinct_keys (committed d)" "0 < ttlMs d" "0 < maxSize d"
  defines "d' \<equiv> commit t key d"
    and "live \<equiv> filter (\<lambda>(_, e). t < e) (map_set key (t + ttlMs d) (map_delete key (committed d)))"
  shows "length (committed d') \<le> maxSize d
       \<and> map_get (committed d') key = Some (t + ttlMs d)
       \<and> (\<forall>k e. k \<noteq> key \<and> map_get (committed d) k = Some e \<and> t < e \<and> map_get (committed d') k = None
            \<longrightarrow> maxSize d < length live)"
proof -
  let ?m = "map_set key (t + ttlMs d) (map_delete key (committed d))"
  have m: "?m = map_delete key (committed d) @ [(key, t + ttlMs d)]" by (rule map_set_new) simp
  have dk: "distinct_keys ?m" using assms(1) by simp
  have live: "live = filter (\<lambda>(_, e). t < e) (map_delete key (committed d)) @ [(key, t + ttlMs d)]"
    using assms(2) unfolding live_def m by simp
  have ev: "evictExpired t ?m = live" by (simp add: evictExpired_def live_def not_le)
  have d': "committed d' = evict_oldest (maxSize d) (if maxSize d < length ?m then live else ?m)"
    by (simp add: d'_def commit_def Let_def ev)
  have dkl: "distinct_keys live" unfolding live_def using dk by (rule distinct_keys_filter)
  have "map_get (committed d') key = Some (t + ttlMs d)"
    using evict_oldest_keeps_last [OF _ assms(3)] dk dkl unfolding d' by (auto simp: live m)
  moreover have "map_get (committed d') k = Some e"
    if "k \<noteq> key" "map_get (committed d) k = Some e" "t < e" "length live \<le> maxSize d" for k e
  proof (cases "maxSize d < length ?m")
    case True
    then have "committed d' = live" using that(4) by (simp add: d' evict_oldest_small)
    then show ?thesis using that dk by (simp add: live_def map_get_filter)
  next
    case False
    then show ?thesis using that by (simp add: d' evict_oldest_small)
  qed
  moreover have "length (committed d') \<le> maxSize d" by (simp add: d' length_evict_oldest)
  ultimately show ?thesis by (metis not_le_imp_less option.discI)
qed

definition sample_dedupe :: dedupe where
  "sample_dedupe = \<lparr>committed = [(js ''a'', 3), (js ''b'', 20)], inFlight = [], ttlMs = 10, maxSize = 2\<rparr>"

lemma commit_keeps_live_witness:
  "map_get (committed (commit 15 (js ''c'') sample_dedupe)) (js ''c'') = Some 25"
proof -
  have "distinct_keys (committed sample_dedupe)" "0 < ttlMs sample_dedupe" "0 < maxSize sample_dedupe"
    by (simp_all add: sample_dedupe_def)
  from commit_keeps_live [OF this, of 15 "js ''c''"] show ?thesis by (simp add: sample_dedupe_def)
qed

subsection \<open>The rate limiter behind authentication\<close>

record bucket =
  windowStartMs :: int
  bucket_count :: nat

definition ceil_div :: "int \<Rightarrow> int \<Rightarrow> int" where
  "ceil_div a b = - ((- a) div b)"

definition consume ::
  "int \<Rightarrow> nat \<Rightarrow> int \<Rightarrow> jstr \<Rightarrow> (jstr, bucket) jsmap \<Rightarrow> (jstr, bucket) jsmap \<times> bool \<times> int" where
  "consume windowMs limit now key buckets =
     (let fresh = \<lparr>windowStartMs = now, bucket_count = 0\<rparr>;
          b = (case map_get buckets key of
                 None \<Rightarrow> fresh
               | Some b \<Rightarrow> if now - windowStartMs b \<ge> windowMs then fresh else b);
          b' = b\<lparr>bucket_count := bucket_count b + 1\<rparr>;
          retryAfterSeconds = max 1 (ceil_div (windowStartMs b' + windowMs - now) 1000)
      in (map_set key b' buckets, bucket_count b' \<le> limit, retryAfterSeconds))"

record consumed =
  c_key :: jstr
  c_time :: int
  c_window :: int
  c_allowed :: bool

text \<open>A history of calls; the newest first in the record of what happened.\<close>

fun consume_run :: "int \<Rightarrow> nat \<Rightarrow> (jstr \<times> int) list \<Rightarrow> (jstr, bucket) jsmap \<times> consumed list" where
  "consume_run W limit [] = ([], [])"
| "consume_run W limit ((key, now) # earlier) =
     (let (buckets, done) = consume_run W limit earlier;
          (buckets', ok, _) = consume W limit now key buckets
      in (buckets',
          \<lparr>c_key = key, c_time = now,
           c_window = (case map_get buckets' key of Some b \<Rightarrow> windowStartMs b | None \<Rightarrow> now),
           c_allowed = ok\<rparr> # done))"

definition calls :: "jstr \<Rightarrow> int \<Rightarrow> consumed list \<Rightarrow> consumed list" where
  "calls k ws cs = filter (\<lambda>c. c_key c = k \<and> c_window c = ws) cs"

definition limiter_inv :: "int \<Rightarrow> nat \<Rightarrow> int \<Rightarrow> (jstr, bucket) jsmap \<times> consumed list \<Rightarrow> bool" where
  "limiter_inv W limit now s \<longleftrightarrow>
     (let (buckets, cs) = s in
      (\<forall>c \<in> set cs. c_window c \<le> c_time c \<and> c_time c < c_window c + W \<and>
         (\<exists>b. map_get buckets (c_key c) = Some b \<and> (c_window c = windowStartMs b \<or> c_window c + W \<le> windowStartMs b))) \<and>
      (\<forall>k b. map_get buckets k = Some b \<longrightarrow>
         windowStartMs b \<le> now \<and> length (calls k (windowStartMs b) cs) = bucket_count b) \<and>
      (\<forall>k ws. length (filter c_allowed (calls k ws cs)) \<le> limit) \<and>
      (\<forall>c \<in> set cs. \<forall>c' \<in> set cs. c_key c = c_key c' \<and> c_window c < c_window c' \<longrightarrow> c_window c + W \<le> c_window c'))"

lemma calls_Cons:
  "calls k ws (c # cs) = (if c_key c = k \<and> c_window c = ws then c # calls k ws cs else calls k ws cs)"
  by (simp add: calls_def)

lemma filter_calls_le: "length (filter P (calls k ws cs)) \<le> length (calls k ws cs)"
  by (rule length_filter_le)

lemma limiter_old_calls:
  assumes "limiter_inv W limit now (buckets, cs)"
    "map_get buckets key = None \<or> (\<exists>b. map_get buckets key = Some b \<and> windowStartMs b < ws)"
    "0 < W"
  shows "calls key ws cs = []"
proof -
  have "c_window c < ws" if "c \<in> set cs" "c_key c = key" for c
    using assms that by (fastforce simp: limiter_inv_def)
  then show ?thesis by (fastforce simp: calls_def filter_empty_conv)
qed

lemma limiter_inv_new_window:
  assumes "limiter_inv W limit now (buckets, cs)" "now \<le> now'" "0 < W"
    "map_get buckets key = None \<or> (\<exists>b. map_get buckets key = Some b \<and> windowStartMs b + W \<le> now')"
  shows "limiter_inv W limit now'
    (map_set key \<lparr>windowStartMs = now', bucket_count = 1\<rparr> buckets,
     \<lparr>c_key = key, c_time = now', c_window = now', c_allowed = (1 \<le> limit)\<rparr> # cs)"
proof -
  have none: "calls key now' cs = []"
    using assms by (intro limiter_old_calls [OF assms(1) _ assms(3)]) auto
  have old: "c_window c + W \<le> now'" if "c \<in> set cs" "c_key c = key" for c
    using assms that by (fastforce simp: limiter_inv_def)
  have "windowStartMs b \<le> now'" if "map_get buckets k = Some b" for k b
    using assms(1,2) that by (fastforce simp: limiter_inv_def)
  moreover have "\<forall>c \<in> set cs. \<not> now' < c_window c" if "c_key c = key" for c
    using assms(1-3) by (fastforce simp: limiter_inv_def)
  ultimately show ?thesis
    using assms(1,3) none old
    by (auto simp: limiter_inv_def calls_Cons split: if_splits)
qed

lemma limiter_inv_same_window:
  assumes "limiter_inv W limit now (buckets, cs)" "now \<le> now'" "0 < W"
    "map_get buckets key = Some b" "now' < windowStartMs b + W"
  shows "limiter_inv W limit now'
    (map_set key (b\<lparr>bucket_count := Suc (bucket_count b)\<rparr>) buckets,
     \<lparr>c_key = key, c_time = now', c_window = windowStartMs b, c_allowed = (Suc (bucket_count b) \<le> limit)\<rparr> # cs)"
proof -
  have len: "length (calls key (windowStartMs b) cs) = bucket_count b"
    and le: "windowStartMs b \<le> now'"
    using assms(1,2,4) by (fastforce simp: limiter_inv_def)+
  have "length (filter c_allowed (calls key (windowStartMs b) cs)) \<le> bucket_count b"
    using len by (metis length_filter_le)
  moreover have "windowStartMs b' \<le> now'" if "map_get buckets k = Some b'" for k b'
    using assms(1,2) that by (fastforce simp: limiter_inv_def)
  moreover have "c_window c = windowStartMs b \<or> c_window c + W \<le> windowStartMs b"
    if "c \<in> set cs" "c_key c = key" for c
    using assms(1,4) that by (fastforce simp: limiter_inv_def)
  ultimately show ?thesis
    using assms le len by (auto simp: limiter_inv_def calls_Cons split: if_splits)
qed

lemma consume_run_inv:
  "sorted_wrt (\<lambda>(_, t) (_, t'). t' \<le> t) ops \<Longrightarrow> \<forall>(_, t) \<in> set ops. t \<le> now \<Longrightarrow> 0 < W \<Longrightarrow>
   limiter_inv W limit now (consume_run W limit ops)"
proof (induction ops arbitrary: now)
  case Nil
  then show ?case by (simp add: limiter_inv_def calls_def)
next
  case (Cons op ops)
  obtain key t where op: "op = (key, t)" by force
  obtain buckets cs where run: "consume_run W limit ops = (buckets, cs)" by force
  have inv: "limiter_inv W limit t (buckets, cs)"
    using Cons.IH [of t] Cons.prems op run by auto
  have "limiter_inv W limit t (consume_run W limit (op # ops))"
  proof (cases "\<exists>b. map_get buckets key = Some b \<and> t < windowStartMs b + W")
    case True
    then obtain b where b: "map_get buckets key = Some b" "t < windowStartMs b + W" by blast
    with limiter_inv_same_window [OF inv order_refl \<open>0 < W\<close> b] show ?thesis
      by (simp add: op run consume_def Let_def)
  next
    case False
    then have "map_get buckets key = None \<or> (\<exists>b. map_get buckets key = Some b \<and> windowStartMs b + W \<le> t)"
      by (cases "map_get buckets key") auto
    with limiter_inv_new_window [OF inv order_refl \<open>0 < W\<close> this] show ?thesis
      by (auto simp: op run consume_def Let_def)
  qed
  moreover have "t \<le> now" using Cons.prems(2) op by auto
  ultimately show ?case
    by (auto simp: limiter_inv_def split: prod.splits) force
qed

lemma filter_two:
  "\<forall>x \<in> set xs. P x \<longrightarrow> Q x \<or> R x \<Longrightarrow>
   length (filter P xs) \<le> length (filter Q xs) + length (filter R xs)"
  by (induction xs) auto

text \<open>
  The limiter behind authentication: with a clock that does not run backwards, any stretch of time
  of one window length sees at most twice the limit of allowed requests of one key, and each single
  window at most the limit; the requests of other keys do not count.
\<close>

theorem limiter_bounds_rate:
  assumes "sorted_wrt (\<lambda>(_, t) (_, t'). t' \<le> t) ops" "0 < W"
    "consume_run W limit ops = (buckets, cs)"
  shows "length (filter (\<lambda>c. c_key c = key \<and> c_allowed c \<and> t \<le> c_time c \<and> c_time c < t + W) cs) \<le> 2 * limit
       \<and> length (filter (\<lambda>c. c_key c = key \<and> c_allowed c \<and> c_window c = ws) cs) \<le> limit"
proof -
  define now where "now = fold max (map snd ops) 0"
  have "\<forall>x \<in> set ts. x \<le> fold max ts a" and "a \<le> fold max ts a" for ts and a :: int
    by (induction ts arbitrary: a) (auto intro: order_trans [OF max.cobounded1] order_trans [OF max.cobounded2])
  then have "\<forall>(_, t) \<in> set ops. t \<le> now" by (force simp: now_def)
  from consume_run_inv [OF assms(1) this assms(2), of limit] assms(3)
  have inv: "limiter_inv W limit now (buckets, cs)" by simp
  then have pair: "\<forall>c \<in> set cs. \<forall>c' \<in> set cs. c_key c = c_key c' \<and> c_window c < c_window c' \<longrightarrow> c_window c + W \<le> c_window c'"
    by (simp add: limiter_inv_def)
  let ?P = "\<lambda>c. c_key c = key \<and> c_allowed c \<and> t \<le> c_time c \<and> c_time c < t + W"
  have per: "length (filter (\<lambda>c. c_key c = key \<and> c_allowed c \<and> c_window c = w) cs) \<le> limit" for w
    using inv by (auto simp: limiter_inv_def calls_def conj_commute conj_left_commute)
  have "length (filter ?P cs) \<le> 2 * limit"
  proof (cases "\<exists>c \<in> set cs. ?P c")
    case True
    let ?S = "c_window ` {c \<in> set cs. ?P c}"
    define a where "a = Min ?S"
    have fin: "finite ?S" "?S \<noteq> {}" using True by auto
    have "a \<in> ?S" unfolding a_def using fin by (rule Min_in)
    then obtain ca where ca: "ca \<in> set cs" "?P ca" "c_window ca = a" by auto
    have rest: "c_window c = a \<or> a + W \<le> c_window c" if "c \<in> set cs" "?P c" for c
    proof -
      have "a \<le> c_window c" unfolding a_def using that fin by (intro Min_le) auto
      then show ?thesis using inv ca that by (fastforce simp: limiter_inv_def)
    qed
    have bnd: "c_window c < t + W \<and> t < c_window c + W" if "c \<in> set cs" "?P c" for c
      using inv that by (fastforce simp: limiter_inv_def)
    have two: "c_window c = c_window c'" if "c \<in> set cs" "?P c" "c_window c \<noteq> a"
      "c' \<in> set cs" "?P c'" "c_window c' \<noteq> a" for c c'
    proof (rule ccontr)
      assume "c_window c \<noteq> c_window c'"
      then have "c_window c < c_window c' \<or> c_window c' < c_window c" by linarith
      then have "c_window c + W \<le> c_window c' \<or> c_window c' + W \<le> c_window c"
        using pair that by metis
      then show False using rest [of c] rest [of c'] bnd [of c] bnd [of c'] bnd [of ca] ca that by auto
    qed
    obtain b where b: "\<And>c. c \<in> set cs \<Longrightarrow> ?P c \<Longrightarrow> c_window c = a \<or> c_window c = b"
    proof (cases "\<exists>c \<in> set cs. ?P c \<and> c_window c \<noteq> a")
      case True
      then obtain c0 where c0: "c0 \<in> set cs" "?P c0" "c_window c0 \<noteq> a" by blast
      show thesis
      proof (rule that [of "c_window c0"])
        fix c assume c: "c \<in> set cs" "?P c"
        show "c_window c = a \<or> c_window c = c_window c0"
          using two [OF c _ c0] by blast
      qed
    next
      case False
      then show thesis by (intro that [of a]) blast
    qed
    let ?A = "\<lambda>w c. c_key c = key \<and> c_allowed c \<and> c_window c = w"
    have "\<forall>c \<in> set cs. ?P c \<longrightarrow> ?A a c \<or> ?A b c" using b by blast
    from filter_two [OF this] per [of a] per [of b] show ?thesis by linarith
  next
    case False
    then have "filter ?P cs = []" by (auto simp: filter_empty_conv)
    then show ?thesis by simp
  qed
  with per show ?thesis by blast
qed

lemma limiter_bounds_rate_witness:
  "\<exists>buckets. consume_run 60 1 [(js ''k'', 70), (js ''k'', 59), (js ''k'', 2), (js ''k'', 1)] =
     (buckets,
      [\<lparr>c_key = js ''k'', c_time = 70, c_window = 70, c_allowed = True\<rparr>,
       \<lparr>c_key = js ''k'', c_time = 59, c_window = 1, c_allowed = False\<rparr>,
       \<lparr>c_key = js ''k'', c_time = 2, c_window = 1, c_allowed = False\<rparr>,
       \<lparr>c_key = js ''k'', c_time = 1, c_window = 1, c_allowed = True\<rparr>])
   \<and> length (filter (\<lambda>c. c_key c = js ''k'' \<and> c_allowed c \<and> 1 \<le> c_time c \<and> c_time c < 1 + 60)
       [\<lparr>c_key = js ''k'', c_time = 59, c_window = 1, c_allowed = False\<rparr>]) \<le> 2"
proof -
  let ?ops = "[(js ''k'', 70), (js ''k'', 59), (js ''k'', 2), (js ''k'', 1 :: int)]"
  obtain buckets where run: "consume_run 60 1 ?ops = (buckets,
      [\<lparr>c_key = js ''k'', c_time = 70, c_window = 70, c_allowed = True\<rparr>,
       \<lparr>c_key = js ''k'', c_time = 59, c_window = 1, c_allowed = False\<rparr>,
       \<lparr>c_key = js ''k'', c_time = 2, c_window = 1, c_allowed = False\<rparr>,
       \<lparr>c_key = js ''k'', c_time = 1, c_window = 1, c_allowed = True\<rparr>])"
    by (simp add: consume_def Let_def)
  have "sorted_wrt (\<lambda>(_, t) (_, t'). t' \<le> t) ?ops" by simp
  from limiter_bounds_rate [OF this _ run] run show ?thesis by simp
qed

subsection \<open>The route\<close>

definition VERIFIED_LIMIT_WINDOW_MS :: int where
  "VERIFIED_LIMIT_WINDOW_MS = 60000"

definition INGEST_EVENTS_RATE_LIMIT :: nat where
  "INGEST_EVENTS_RATE_LIMIT = 240"

datatype event_response =
    EventUnavailable
  | EventUnauthorized
  | EventRateLimited int
  | EventInvalid
  | EventAccepted jstr bool

text \<open>
  The state of the route: the buckets, the dedupe, the requests that wait for a dispatch (with their
  key and event id), and the table of keys.
\<close>

record ingress =
  buckets :: "(jstr, bucket) jsmap"
  dedupe_state :: dedupe
  waiting :: "(nat, verified_key \<times> jstr) jsmap"
  key_rows :: "ingest_row list"

text \<open>
  \<open>preValidation\<close>, the schema check and the first part of the handler. The outcome of the
  authentication is None when the key store failed; the body is None when it is not of the shape of
  the schema. The result is a response, or the request is waiting (the flag: it starts the dispatch).
\<close>

definition event_request ::
  "formats \<Rightarrow> int \<Rightarrow> nat \<Rightarrow> verified_key option option \<Rightarrow> notify_event option \<Rightarrow> ingress \<Rightarrow>
   ingress \<times> (event_response + bool)" where
  "event_request fs now req auth body st =
     (case auth of
        None \<Rightarrow> (st, Inl EventUnavailable)
      | Some None \<Rightarrow> (st, Inl EventUnauthorized)
      | Some (Some v) \<Rightarrow>
          (let (bs, allowed, retryAfter) =
                 consume VERIFIED_LIMIT_WINDOW_MS INGEST_EVENTS_RATE_LIMIT now (vk_keyId v) (buckets st);
               st = st\<lparr>buckets := bs\<rparr>
           in if \<not> allowed then (st, Inl (EventRateLimited retryAfter))
              else case body of
                  None \<Rightarrow> (st, Inl EventInvalid)
                | Some e \<Rightarrow>
                    if \<not> validateNotifyEvent fs e then (st, Inl EventInvalid)
                    else
                      (let key = dedupe_key (vk_userId v) (eventId e);
                           (d, start) = dispatch_once now req key (dedupe_state st)
                       in case start of
                            AlreadyDone \<Rightarrow>
                              (st\<lparr>key_rows := record_use (vk_userId v) (vk_id v) now (key_rows st)\<rparr>,
                               Inl (EventAccepted (eventId e) True))
                          | _ \<Rightarrow>
                              (st\<lparr>dedupe_state := d, waiting := map_set req (v, eventId e) (waiting st)\<rparr>,
                               Inr (start = Dispatches)))))"

text \<open>The rest of the handler for one waiting request, once \<open>dispatchOnce\<close> returns or throws.\<close>

definition finish_request :: "int \<Rightarrow> nat \<times> bool option \<Rightarrow> ingress \<Rightarrow> ingress \<times> (nat \<times> event_response) list" where
  "finish_request now answer st =
     (let (req, result) = answer in
      case map_get (waiting st) req of
        None \<Rightarrow> (st, [])
      | Some (v, evId) \<Rightarrow>
          let st = st\<lparr>waiting := map_delete req (waiting st)\<rparr> in
          (case result of
             None \<Rightarrow> (st, [(req, EventUnavailable)])
           | Some duplicate \<Rightarrow>
               (st\<lparr>key_rows := record_use (vk_userId v) (vk_id v) now (key_rows st)\<rparr>,
                [(req, EventAccepted evId duplicate)])))"

fun finish_requests :: "int \<Rightarrow> (nat \<times> bool option) list \<Rightarrow> ingress \<Rightarrow> ingress \<times> (nat \<times> event_response) list" where
  "finish_requests now [] st = (st, [])"
| "finish_requests now (a # as) st =
     (let (st', r) = finish_request now a st; (st'', rs) = finish_requests now as st' in (st'', r @ rs))"

definition event_dispatched :: "int \<Rightarrow> bool \<Rightarrow> jstr \<Rightarrow> ingress \<Rightarrow> ingress \<times> (nat \<times> event_response) list" where
  "event_dispatched now success key st =
     (let (d, answers) = dispatch_settled now success key (dedupe_state st)
      in finish_requests now answers (st\<lparr>dedupe_state := d\<rparr>))"

text \<open>
  C31: The gate of the event route: a dispatch is started only for a request that was authenticated, is
  within the limit of its key, passes the schema, and whose (user, event) pair is neither delivered
  within the window nor in flight; and it is started under the authenticated owner of the key. A
  request without valid credentials changes nothing at all.
\<close>

theorem dispatch_is_guarded:
  assumes "event_request fs now req auth body st = (st', res)"
  shows "(res = Inr True \<longrightarrow>
            (\<exists>v e. auth = Some (Some v) \<and> body = Some e \<and> validateNotifyEvent fs e \<and>
               fst (snd (consume 60000 240 now (vk_keyId v) (buckets st))) \<and>
               (let key = dedupe_key (vk_userId v) (eventId e) in
                \<not> map_has (inFlight (dedupe_state st)) key \<and>
                (\<forall>t. map_get (committed (dedupe_state st)) key = Some t \<longrightarrow> t \<le> now) \<and>
                map_get (inFlight (dedupe_state st')) key = Some \<lparr>owner = req, waiters = []\<rparr> \<and>
                map_get (waiting st') req = Some (v, eventId e))))
       \<and> (auth = None \<or> auth = Some None \<longrightarrow> st' = st \<and> res \<in> {Inl EventUnavailable, Inl EventUnauthorized})"
  using assms
  by (auto simp: event_request_def dispatch_once_def Let_def VERIFIED_LIMIT_WINDOW_MS_def
      INGEST_EVENTS_RATE_LIMIT_def map_has_iff
      split: option.splits if_splits prod.splits dispatch_start.splits)

lemma key_of_user:
  "space \<notin> set u \<Longrightarrow> space \<notin> set u' \<Longrightarrow> u \<noteq> u' \<Longrightarrow> dedupe_key u ev \<noteq> dedupe_key u' ev'"
  by (simp add: dedupe_key_def key_inj)

text \<open>
  Tenants do not deduplicate each other: a request of one user leaves the delivered and in-flight
  entries of every event of every other user as they are, even for the same event id.
\<close>

theorem tenants_isolated:
  assumes "event_request fs now req (Some (Some v)) body st = (st', res)"
    "space \<notin> set (vk_userId v)" "space \<notin> set u" "u \<noteq> vk_userId v"
  shows "map_get (committed (dedupe_state st')) (dedupe_key u ev) = map_get (committed (dedupe_state st)) (dedupe_key u ev)
       \<and> map_get (inFlight (dedupe_state st')) (dedupe_key u ev) = map_get (inFlight (dedupe_state st)) (dedupe_key u ev)"
  using assms(1) key_of_user [OF assms(3,2) assms(4)]
  by (auto simp: event_request_def dispatch_once_def Let_def
      split: option.splits if_splits prod.splits dispatch_start.splits)

definition sample_ingress :: ingress where
  "sample_ingress = \<lparr>buckets = [], dedupe_state = newEventDedupe 600000 100000, waiting = [], key_rows = sample_rows\<rparr>"

definition any_formats :: formats where
  "any_formats = \<lparr>is_uuid = (\<lambda>_. True), is_date_time = (\<lambda>_. True), is_uri = (\<lambda>_. True)\<rparr>"

definition sample_notification :: notify_event where
  "sample_notification =
     \<lparr>eventId = js ''e1'', occurredAt = js ''2026-01-01T00:00:00.000Z'',
      event_source = \<lparr>machine = js ''m'', project = js ''p'', directory = js ''/d''\<rparr>,
      event_session = \<lparr>session_id = js ''s'', session_title = js ''t''\<rparr>,
      payload = Terminal Completed 5 None\<rparr>"

definition sample_key :: verified_key where
  "sample_key = \<lparr>vk_id = js ''r1'', vk_userId = js ''u1'', vk_keyId = js ''kid''\<rparr>"

lemma sample_dispatch:
  "\<exists>st'. event_request any_formats 5 7 (Some (Some sample_key)) (Some sample_notification) sample_ingress = (st', Inr True)"
  by (simp add: event_request_def sample_ingress_def consume_def Let_def sample_key_def any_formats_def
    sample_notification_def schema_defs dispatch_once_def newEventDedupe_def INGEST_EVENTS_RATE_LIMIT_def)

lemma dispatch_is_guarded_witness:
  "\<exists>st'. event_request any_formats 5 7 (Some (Some sample_key)) (Some sample_notification) sample_ingress = (st', Inr True)
     \<and> map_get (waiting st') 7 = Some (sample_key, js ''e1'')"
proof -
  obtain st' where st: "event_request any_formats 5 7 (Some (Some sample_key)) (Some sample_notification)
      sample_ingress = (st', Inr True)"
    using sample_dispatch by blast
  from dispatch_is_guarded [OF this] st show ?thesis
    by (auto simp: Let_def sample_notification_def)
qed

lemma tenants_isolated_witness:
  "\<exists>st'. event_request any_formats 5 7 (Some (Some sample_key)) (Some sample_notification) sample_ingress = (st', Inr True)
     \<and> map_get (inFlight (dedupe_state st')) (dedupe_key (js ''u2'') (js ''e1''))
       = map_get (inFlight (dedupe_state sample_ingress)) (dedupe_key (js ''u2'') (js ''e1''))"
proof -
  obtain st' where st: "event_request any_formats 5 7 (Some (Some sample_key)) (Some sample_notification)
      sample_ingress = (st', Inr True)"
    using sample_dispatch by blast
  have "space \<notin> set (js ''u2'')" "space \<notin> set (vk_userId sample_key)" "js ''u2'' \<noteq> vk_userId sample_key"
    by (simp_all add: js_def space_def sample_key_def)
  from tenants_isolated [OF st this(2,1,3)] st show ?thesis by blast
qed

end
