(* ===== verification/MessageCache.thy ===== *)
theory MessageCache
  imports JsString
begin

section \<open>The message-text cache\<close>

text \<open>
  \<open>packages/plugin/src/message-cache.ts\<close>: per session an ordered map of message records, the most
  recently active at the end. A method first finds or creates the records of the session, moves the
  record of the message to the end, and then writes to that record; \<open>write_back\<close> is the write through
  the reference. The privacy rule is stated over histories of method calls.
\<close>

datatype role = User | Assistant

record message_record =
  msg_role :: "role option"
  msg_text :: "jstr option"

type_synonym records = "(jstr, message_record) jsmap"

record message_cache =
  cached_sessions :: "(jstr, records) jsmap"
  maxMessagesPerSession :: nat
  maxTextLength :: nat
  maxSessions :: nat

datatype cache_error = NotPositive

definition boundedPositive :: "jsnum \<Rightarrow> cache_error + nat" where
  "boundedPositive v = (case positiveInteger v of None \<Rightarrow> Inl NotPositive | Some n \<Rightarrow> Inr n)"

definition DEFAULT_MAX_MESSAGES_PER_SESSION :: jsnum where
  "DEFAULT_MAX_MESSAGES_PER_SESSION = Finite 100"

definition DEFAULT_MAX_TEXT_LENGTH :: jsnum where
  "DEFAULT_MAX_TEXT_LENGTH = Finite 500"

definition DEFAULT_MAX_SESSIONS :: jsnum where
  "DEFAULT_MAX_SESSIONS = Finite 1000"

definition given :: "jsnum option \<Rightarrow> jsnum \<Rightarrow> jsnum" where
  "given v d = (case v of None \<Rightarrow> d | Some n \<Rightarrow> n)"

definition newMessageCache :: "jsnum option \<Rightarrow> jsnum option \<Rightarrow> jsnum option \<Rightarrow> cache_error + message_cache" where
  "newMessageCache messages textLength sessionCount =
     (case boundedPositive (given messages DEFAULT_MAX_MESSAGES_PER_SESSION) of
        Inl e \<Rightarrow> Inl e
      | Inr m \<Rightarrow>
          (case boundedPositive (given textLength DEFAULT_MAX_TEXT_LENGTH) of
             Inl e \<Rightarrow> Inl e
           | Inr t \<Rightarrow>
               (case boundedPositive (given sessionCount DEFAULT_MAX_SESSIONS) of
                  Inl e \<Rightarrow> Inl e
                | Inr s \<Rightarrow> Inr \<lparr>cached_sessions = [], maxMessagesPerSession = m, maxTextLength = t,
                                 maxSessions = s\<rparr>)))"

definition recordsFor :: "jstr \<Rightarrow> message_cache \<Rightarrow> message_cache \<times> records" where
  "recordsFor sid c =
     (case map_get (cached_sessions c) sid of
        Some records \<Rightarrow> (c, records)
      | None \<Rightarrow> (c\<lparr>cached_sessions := evict_oldest (maxSessions c) (map_set sid [] (cached_sessions c))\<rparr>, []))"

definition touch :: "nat \<Rightarrow> jstr \<Rightarrow> records \<Rightarrow> records \<times> message_record" where
  "touch mx mid records =
     (let (records', rec) =
            (case map_get records mid of
               None \<Rightarrow> (let rec = \<lparr>msg_role = None, msg_text = None\<rparr> in (map_set mid rec records, rec))
             | Some rec \<Rightarrow> (map_set mid rec (map_delete mid records), rec))
      in (evict_oldest mx records', rec))"

text \<open>The common frame of \<open>onRole\<close> and \<open>onText\<close>: \<open>f\<close> is the write to the touched record.\<close>

definition with_record :: "jstr \<Rightarrow> jstr \<Rightarrow> (message_record \<Rightarrow> message_record) \<Rightarrow> message_cache \<Rightarrow> message_cache" where
  "with_record sid mid f c =
     (let (c', records) = recordsFor sid c;
          (records', rec) = touch (maxMessagesPerSession c) mid records
      in c'\<lparr>cached_sessions := write_back sid (write_back mid (f rec) records') (cached_sessions c')\<rparr>)"

definition onRole :: "jstr \<Rightarrow> jstr \<Rightarrow> role \<Rightarrow> message_cache \<Rightarrow> message_cache" where
  "onRole sid mid r =
     with_record sid mid
       (\<lambda>rec. if r = User then rec\<lparr>msg_role := Some r, msg_text := None\<rparr> else rec\<lparr>msg_role := Some r\<rparr>)"

definition onText :: "jstr \<Rightarrow> jstr \<Rightarrow> jstr \<Rightarrow> message_cache \<Rightarrow> message_cache" where
  "onText sid mid t c =
     with_record sid mid
       (\<lambda>rec. if msg_role rec = Some User then rec
              else rec\<lparr>msg_text := Some (truncateCodePoints t (maxTextLength c))\<rparr>) c"

definition eligible :: "message_record \<Rightarrow> bool" where
  "eligible r \<longleftrightarrow>
     msg_role r = Some Assistant \<and>
     (case msg_text r of None \<Rightarrow> False | Some t \<Rightarrow> 0 < length (trim t))"

definition summary :: "message_cache \<Rightarrow> jstr \<Rightarrow> jstr option" where
  "summary c sid =
     (case map_get (cached_sessions c) sid of
        None \<Rightarrow> None
      | Some records \<Rightarrow>
          (case List.find eligible (rev (map_vals records)) of None \<Rightarrow> None | Some r \<Rightarrow> msg_text r))"

definition clearSession :: "jstr \<Rightarrow> message_cache \<Rightarrow> message_cache" where
  "clearSession sid c = c\<lparr>cached_sessions := map_delete sid (cached_sessions c)\<rparr>"

definition clear :: "message_cache \<Rightarrow> message_cache" where
  "clear c = c\<lparr>cached_sessions := []\<rparr>"

subsection \<open>Invariant\<close>

definition cache_inv :: "message_cache \<Rightarrow> bool" where
  "cache_inv c \<longleftrightarrow>
     0 < maxMessagesPerSession c \<and> 0 < maxSessions c \<and>
     distinct_keys (cached_sessions c) \<and> length (cached_sessions c) \<le> maxSessions c \<and>
     (\<forall>(sid, rs) \<in> set (cached_sessions c).
        distinct_keys rs \<and> length rs \<le> maxMessagesPerSession c \<and>
        (\<forall>(mid, r) \<in> set rs. \<forall>t. msg_text r = Some t \<longrightarrow> length (code_points t) \<le> maxTextLength c))"

definition cached :: "message_cache \<Rightarrow> jstr \<Rightarrow> jstr \<Rightarrow> message_record option" where
  "cached c sid mid =
     (case map_get (cached_sessions c) sid of None \<Rightarrow> None | Some rs \<Rightarrow> map_get rs mid)"

definition blank_record :: message_record where
  "blank_record = \<lparr>msg_role = None, msg_text = None\<rparr>"

lemma touch_put_last:
  "touch mx mid rs =
     (let rec = (case map_get rs mid of None \<Rightarrow> blank_record | Some r \<Rightarrow> r) in (put_last mx mid rec rs, rec))"
proof (cases "map_get rs mid")
  case None
  then have "map_delete mid rs = rs" by (intro map_delete_absent) (simp add: map_get_None_iff)
  with None show ?thesis by (simp add: touch_def put_last_def blank_record_def Let_def)
qed (simp add: touch_def put_last_def Let_def)

lemma write_back_last: "distinct_keys (m @ [(k, v)]) \<Longrightarrow> write_back k w (m @ [(k, v)]) = m @ [(k, w)]"
proof -
  assume "distinct_keys (m @ [(k, v)])"
  then have "k \<notin> set (map_keys m)" by (auto simp: distinct_keys_def map_keys_def)
  then have "map_set k w (m @ [(k, v)]) = m @ [(k, w)]" by (induction m) auto
  then show ?thesis by (simp add: write_back_def map_has_keys map_keys_def)
qed

text \<open>The records of a session after a touch and a write: the touched message is the last one.\<close>

lemma touched_records:
  assumes "distinct_keys rs" "0 < mx" "touch mx mid rs = (rs', rec)"
  shows "\<exists>rs0. write_back mid r rs' = rs0 @ [(mid, r)] \<and> set rs0 \<subseteq> set rs
         \<and> distinct_keys (rs0 @ [(mid, r)]) \<and> length (rs0 @ [(mid, r)]) \<le> mx"
    "rec = (case map_get rs mid of None \<Rightarrow> blank_record | Some r \<Rightarrow> r)"
proof -
  obtain n where n: "mx = Suc n" using assms(2) gr0_implies_Suc by blast
  show rec: "rec = (case map_get rs mid of None \<Rightarrow> blank_record | Some r \<Rightarrow> r)"
    using assms(3) by (auto simp: touch_put_last Let_def)
  have rs': "rs' = put_last mx mid rec rs"
    using assms(3) by (auto simp: touch_put_last Let_def)
  from put_last_snoc [OF assms(1,2), of mid rec] obtain rs0
    where rs0: "rs' = rs0 @ [(mid, rec)]" "set rs0 \<subseteq> set rs" unfolding rs' by blast
  have dk: "distinct_keys rs'" and len: "length rs' \<le> mx"
    using last_store.put_inv [OF assms(1)] last_store.put_size [OF assms(1)] by (simp_all add: rs' n)
  have "distinct_keys (rs0 @ [(mid, r)])" using dk rs0(1) by (simp add: distinct_keys_def)
  with rs0 dk len show "\<exists>rs0. write_back mid r rs' = rs0 @ [(mid, r)] \<and> set rs0 \<subseteq> set rs
      \<and> distinct_keys (rs0 @ [(mid, r)]) \<and> length (rs0 @ [(mid, r)]) \<le> mx"
    by (intro exI [of _ rs0]) (simp add: write_back_last)
qed

lemma recordsFor_facts:
  assumes "cache_inv c" "recordsFor sid c = (c', rs)"
  shows "map_get (cached_sessions c') sid = Some rs"
    "distinct_keys (cached_sessions c')" "length (cached_sessions c') \<le> maxSessions c"
    "\<And>s r. map_get (cached_sessions c') s = Some r \<Longrightarrow> s \<noteq> sid \<Longrightarrow> map_get (cached_sessions c) s = Some r"
    "rs = (case map_get (cached_sessions c) sid of None \<Rightarrow> [] | Some r \<Rightarrow> r)"
    "c' = c\<lparr>cached_sessions := cached_sessions c'\<rparr>"
proof -
  obtain n where n: "maxSessions c = Suc n"
    using assms(1) by (cases "maxSessions c") (auto simp: cache_inv_def)
  have dk: "distinct_keys (cached_sessions c)" and len: "length (cached_sessions c) \<le> maxSessions c"
    using assms(1) by (auto simp: cache_inv_def)
  have put: "evict_oldest (maxSessions c) (map_set sid [] (cached_sessions c)) = put_last (Suc n) sid [] (cached_sessions c)"
    if "map_get (cached_sessions c) sid = None"
    using that by (simp add: put_last_def n map_delete_absent map_get_None_iff)
  from last_store.put_new [OF dk] last_store.put_inv [OF dk] last_store.put_size [OF dk]
    last_store.put_other [OF dk] assms(2) dk len put
  show "map_get (cached_sessions c') sid = Some rs"
    "distinct_keys (cached_sessions c')" "length (cached_sessions c') \<le> maxSessions c"
    "\<And>s r. map_get (cached_sessions c') s = Some r \<Longrightarrow> s \<noteq> sid \<Longrightarrow> map_get (cached_sessions c) s = Some r"
    "rs = (case map_get (cached_sessions c) sid of None \<Rightarrow> [] | Some r \<Rightarrow> r)"
    "c' = c\<lparr>cached_sessions := cached_sessions c'\<rparr>"
    by (auto simp: recordsFor_def n split: option.splits)
qed

definition old_record :: "message_cache \<Rightarrow> jstr \<Rightarrow> jstr \<Rightarrow> message_record" where
  "old_record c sid mid = (case cached c sid mid of None \<Rightarrow> blank_record | Some r \<Rightarrow> r)"

definition bounded_text :: "message_cache \<Rightarrow> message_record \<Rightarrow> bool" where
  "bounded_text c r \<longleftrightarrow> (\<forall>t. msg_text r = Some t \<longrightarrow> length (code_points t) \<le> maxTextLength c)"

lemma cache_inv_records:
  assumes "cache_inv c" "map_get (cached_sessions c) sid = Some rs"
  shows "distinct_keys rs" "length rs \<le> maxMessagesPerSession c" "\<forall>(mid, r) \<in> set rs. bounded_text c r"
  using assms(1) map_get_in_set [OF assms(2)] by (fastforce simp: cache_inv_def bounded_text_def)+

text \<open>The session of a write holds the written record last; everything else is as before or evicted.\<close>

lemma with_record_facts:
  fixes sid mid f
  assumes "cache_inv c"
  defines "c' \<equiv> with_record sid mid f c" and "r \<equiv> f (old_record c sid mid)"
  shows "\<exists>rs0. map_get (cached_sessions c') sid = Some (rs0 @ [(mid, r)]) \<and> distinct_keys (rs0 @ [(mid, r)])
           \<and> length (rs0 @ [(mid, r)]) \<le> maxMessagesPerSession c
           \<and> (\<forall>p \<in> set rs0. \<exists>rs. map_get (cached_sessions c) sid = Some rs \<and> p \<in> set rs)"
    and "\<And>s rs. s \<noteq> sid \<Longrightarrow> map_get (cached_sessions c') s = Some rs \<Longrightarrow> map_get (cached_sessions c) s = Some rs"
    and "distinct_keys (cached_sessions c')" "length (cached_sessions c') \<le> maxSessions c"
    and "c' = c\<lparr>cached_sessions := cached_sessions c'\<rparr>"
proof -
  obtain c1 rs where rf: "recordsFor sid c = (c1, rs)" by force
  note rfs = recordsFor_facts [OF assms(1) rf]
  have mx: "0 < maxMessagesPerSession c" using assms(1) by (simp add: cache_inv_def)
  have dk: "distinct_keys rs"
    using rfs(5) cache_inv_records(1) [OF assms(1)] by (auto split: option.splits)
  obtain rs' rec where t: "touch (maxMessagesPerSession c) mid rs = (rs', rec)" by force
  from touched_records [OF dk mx t] obtain rs0 where
    rs0: "write_back mid r rs' = rs0 @ [(mid, r)]" "set rs0 \<subseteq> set rs" "distinct_keys (rs0 @ [(mid, r)])"
      "length (rs0 @ [(mid, r)]) \<le> maxMessagesPerSession c" by blast
  have "rec = old_record c sid mid"
    using touched_records(2) [OF dk mx t] rfs(5) by (auto simp: old_record_def cached_def split: option.splits)
  then have c': "c' = c1\<lparr>cached_sessions := write_back sid (rs0 @ [(mid, r)]) (cached_sessions c1)\<rparr>"
    using rs0(1) by (simp add: c'_def with_record_def rf t r_def)
  have has: "map_has (cached_sessions c1) sid" using rfs(1) by (simp add: map_has_iff)
  show "\<exists>rs0. map_get (cached_sessions c') sid = Some (rs0 @ [(mid, r)]) \<and> distinct_keys (rs0 @ [(mid, r)])
      \<and> length (rs0 @ [(mid, r)]) \<le> maxMessagesPerSession c
      \<and> (\<forall>p \<in> set rs0. \<exists>rs. map_get (cached_sessions c) sid = Some rs \<and> p \<in> set rs)"
    using rs0 rfs(5) has by (intro exI [of _ rs0]) (auto simp: c' split: option.splits)
  show "s \<noteq> sid \<Longrightarrow> map_get (cached_sessions c') s = Some rs \<Longrightarrow> map_get (cached_sessions c) s = Some rs" for s rs
    using rfs(4) by (simp add: c')
  show "distinct_keys (cached_sessions c')" "length (cached_sessions c') \<le> maxSessions c"
    using rfs(2,3) by (simp_all add: c')
  show "c' = c\<lparr>cached_sessions := cached_sessions c'\<rparr>"
    unfolding c' by (subst rfs(6)) simp
qed

lemma with_record_cached:
  assumes "cache_inv c"
  shows "cached (with_record sid mid f c) sid mid = Some (f (old_record c sid mid))"
    and "cached (with_record sid mid f c) s m = Some r \<Longrightarrow> (s, m) \<noteq> (sid, mid) \<Longrightarrow> cached c s m = Some r"
proof -
  note facts = with_record_facts [OF assms, where sid = sid and mid = mid and f = f]
  obtain rs0 where rs0: "map_get (cached_sessions (with_record sid mid f c)) sid = Some (rs0 @ [(mid, f (old_record c sid mid))])"
    "distinct_keys (rs0 @ [(mid, f (old_record c sid mid))])"
    "\<forall>p \<in> set rs0. \<exists>rs. map_get (cached_sessions c) sid = Some rs \<and> p \<in> set rs"
    using facts(1) by blast
  show "cached (with_record sid mid f c) sid mid = Some (f (old_record c sid mid))"
    using rs0(1) map_get_iff [OF rs0(2)] by (simp add: cached_def)
  assume r: "cached (with_record sid mid f c) s m = Some r" and ne: "(s, m) \<noteq> (sid, mid)"
  show "cached c s m = Some r"
  proof (cases "s = sid")
    case True
    with r rs0 ne have "(m, r) \<in> set rs0"
      using map_get_in_set [of "rs0 @ [(mid, f (old_record c sid mid))]" m r] by (auto simp: cached_def)
    with rs0(3) obtain rs where rs: "map_get (cached_sessions c) sid = Some rs" "(m, r) \<in> set rs" by blast
    with cache_inv_records(1) [OF assms rs(1)] True show ?thesis by (simp add: cached_def map_get_iff)
  next
    case False
    with r facts(2) show ?thesis by (auto simp: cached_def split: option.splits)
  qed
qed

lemma with_record_inv:
  assumes "cache_inv c" "bounded_text c (f (old_record c sid mid))"
  shows "cache_inv (with_record sid mid f c)"
proof -
  note facts = with_record_facts [OF assms(1), where sid = sid and mid = mid and f = f]
  have fld: "maxMessagesPerSession (with_record sid mid f c) = maxMessagesPerSession c"
    "maxSessions (with_record sid mid f c) = maxSessions c" "maxTextLength (with_record sid mid f c) = maxTextLength c"
    by (subst facts(5), simp)+
  have "distinct_keys rs \<and> length rs \<le> maxMessagesPerSession c \<and> (\<forall>(m, r) \<in> set rs. bounded_text c r)"
    if rs: "map_get (cached_sessions (with_record sid mid f c)) s = Some rs" for s rs
  proof (cases "s = sid")
    case True
    obtain rs0 where rs0: "rs = rs0 @ [(mid, f (old_record c sid mid))]" "distinct_keys rs"
      "length rs \<le> maxMessagesPerSession c"
      "\<forall>p \<in> set rs0. \<exists>rs. map_get (cached_sessions c) sid = Some rs \<and> p \<in> set rs"
      using facts(1) rs True by auto
    have "bounded_text c r" if "(m, r) \<in> set rs0" for m r
      using rs0(4) that cache_inv_records(3) [OF assms(1)] by fastforce
    with rs0 assms(2) show ?thesis by auto
  next
    case False
    from facts(2) [OF False rs] show ?thesis using cache_inv_records [OF assms(1)] by blast
  qed
  then have "\<forall>(s, rs) \<in> set (cached_sessions (with_record sid mid f c)). distinct_keys rs \<and>
      length rs \<le> maxMessagesPerSession c \<and> (\<forall>(m, r) \<in> set rs. bounded_text c r)"
    using map_get_iff [OF facts(3)] by blast
  then show ?thesis
    using assms(1) facts(3,4) unfolding cache_inv_def fld bounded_text_def by auto
qed

subsection \<open>Histories\<close>

datatype cache_op = RoleOp jstr jstr role | TextOp jstr jstr jstr | ClearSessionOp jstr | ClearOp

definition cache_step :: "cache_op \<Rightarrow> message_cache \<Rightarrow> message_cache" where
  "cache_step op c =
     (case op of
        RoleOp sid mid r \<Rightarrow> onRole sid mid r c
      | TextOp sid mid t \<Rightarrow> onText sid mid t c
      | ClearSessionOp sid \<Rightarrow> clearSession sid c
      | ClearOp \<Rightarrow> clear c)"

text \<open>The role a message has after a history: the last one reported for it.\<close>

fun last_role :: "jstr \<Rightarrow> jstr \<Rightarrow> cache_op list \<Rightarrow> role option" where
  "last_role sid mid [] = None"
| "last_role sid mid (op # ops) =
     (case last_role sid mid ops of
        Some r \<Rightarrow> Some r
      | None \<Rightarrow>
          (case op of
             RoleOp s m r \<Rightarrow> if s = sid \<and> m = mid then Some r else None
           | _ \<Rightarrow> None))"

lemma last_role_snoc:
  "last_role sid mid (ops @ [op]) =
     (case op of
        RoleOp s m r \<Rightarrow> if s = sid \<and> m = mid then Some r else last_role sid mid ops
      | _ \<Rightarrow> last_role sid mid ops)"
  by (induction ops) (auto split: cache_op.splits option.splits)

text \<open>
  Where a stored text comes from: the last text reported for the message, after which neither was the
  message called a user message nor its session cleared.
\<close>

definition text_source :: "nat \<Rightarrow> jstr \<Rightarrow> jstr \<Rightarrow> jstr \<Rightarrow> cache_op list \<Rightarrow> bool" where
  "text_source mx sid mid t ops \<longleftrightarrow>
     (\<exists>before raw after. ops = before @ TextOp sid mid raw # after \<and> t = truncateCodePoints raw mx \<and>
        RoleOp sid mid User \<notin> set after \<and> (\<forall>raw'. TextOp sid mid raw' \<notin> set after) \<and>
        ClearSessionOp sid \<notin> set after \<and> ClearOp \<notin> set after)"

lemma text_source_snoc:
  "text_source mx sid mid t ops \<Longrightarrow> op \<noteq> RoleOp sid mid User \<Longrightarrow> (\<forall>raw. op \<noteq> TextOp sid mid raw) \<Longrightarrow>
   op \<noteq> ClearSessionOp sid \<Longrightarrow> op \<noteq> ClearOp \<Longrightarrow> text_source mx sid mid t (ops @ [op])"
proof -
  assume src: "text_source mx sid mid t ops" and op: "op \<noteq> RoleOp sid mid User" "\<forall>raw. op \<noteq> TextOp sid mid raw"
    "op \<noteq> ClearSessionOp sid" "op \<noteq> ClearOp"
  then obtain before raw after where "ops = before @ TextOp sid mid raw # after" "t = truncateCodePoints raw mx"
    "RoleOp sid mid User \<notin> set after" "\<forall>raw'. TextOp sid mid raw' \<notin> set after"
    "ClearSessionOp sid \<notin> set after" "ClearOp \<notin> set after"
    unfolding text_source_def by blast
  with op show ?thesis
    unfolding text_source_def
    by (intro exI [of _ before] exI [of _ raw] exI [of _ "after @ [op]"]) auto
qed

definition history_inv :: "message_cache \<Rightarrow> cache_op list \<Rightarrow> bool" where
  "history_inv c ops \<longleftrightarrow>
     (\<forall>sid mid r. cached c sid mid = Some r \<longrightarrow>
        (\<forall>x. msg_role r = Some x \<longrightarrow> last_role sid mid ops = Some x) \<and>
        (\<forall>t. msg_text r = Some t \<longrightarrow> msg_role r \<noteq> Some User \<and> text_source (maxTextLength c) sid mid t ops))"

lemma with_record_config [simp]:
  "cache_inv c \<Longrightarrow> maxTextLength (with_record sid mid f c) = maxTextLength c"
  by (subst with_record_facts(5)) simp_all

lemma old_record_cached: "msg_role (old_record c sid mid) = Some x \<Longrightarrow> cached c sid mid = Some (old_record c sid mid)"
  "msg_text (old_record c sid mid) = Some t \<Longrightarrow> cached c sid mid = Some (old_record c sid mid)"
  by (auto simp: old_record_def blank_record_def split: option.splits)

lemma old_record_bounded:
  assumes "cache_inv c"
  shows "bounded_text c (old_record c sid mid)"
proof (cases "cached c sid mid")
  case (Some r)
  then obtain rs where rs: "map_get (cached_sessions c) sid = Some rs" "map_get rs mid = Some r"
    by (auto simp: cached_def split: option.splits)
  with cache_inv_records(3) [OF assms rs(1)] map_get_in_set [OF rs(2)] Some show ?thesis
    by (auto simp: old_record_def)
qed (simp add: old_record_def blank_record_def bounded_text_def)

lemma cache_step_inv:
  assumes "cache_inv c"
  shows "cache_inv (cache_step op c) \<and> maxTextLength (cache_step op c) = maxTextLength c"
proof (cases op)
  case (RoleOp sid mid x)
  with assms old_record_bounded [OF assms, of sid mid] show ?thesis
    by (auto simp: cache_step_def onRole_def bounded_text_def intro!: with_record_inv)
next
  case (TextOp sid mid t)
  with assms old_record_bounded [OF assms, of sid mid] show ?thesis
    by (auto simp: cache_step_def onText_def bounded_text_def length_truncateCodePoints intro!: with_record_inv)
next
  case (ClearSessionOp sid)
  have "length (map_delete sid (cached_sessions c)) \<le> maxSessions c"
    using assms length_map_delete_le [of sid "cached_sessions c"] unfolding cache_inv_def by linarith
  with ClearSessionOp assms show ?thesis
    by (fastforce simp: cache_step_def clearSession_def cache_inv_def set_map_delete)
next
  case ClearOp
  with assms show ?thesis by (simp add: cache_step_def clear_def cache_inv_def)
qed

lemma history_inv_step:
  assumes "cache_inv c" "history_inv c ops"
  shows "history_inv (cache_step op c) (ops @ [op])"
  unfolding history_inv_def
proof (intro allI impI)
  fix sid mid r
  assume r: "cached (cache_step op c) sid mid = Some r"
  have mx: "maxTextLength (cache_step op c) = maxTextLength c" using cache_step_inv [OF assms(1)] by simp
  have old: "(\<forall>x. msg_role q = Some x \<longrightarrow> last_role s m ops = Some x) \<and>
      (\<forall>t. msg_text q = Some t \<longrightarrow> msg_role q \<noteq> Some User \<and> text_source (maxTextLength c) s m t ops)"
    if "cached c s m = Some q" for s m q
    using assms(2) that by (auto simp: history_inv_def)
  show "(\<forall>x. msg_role r = Some x \<longrightarrow> last_role sid mid (ops @ [op]) = Some x) \<and>
      (\<forall>t. msg_text r = Some t \<longrightarrow> msg_role r \<noteq> Some User \<and>
        text_source (maxTextLength (cache_step op c)) sid mid t (ops @ [op]))"
  proof (cases op)
    case (RoleOp s m x)
    show ?thesis
    proof (cases "(sid, mid) = (s, m)")
      case True
      with r RoleOp have "r = (if x = User then (old_record c s m)\<lparr>msg_role := Some x, msg_text := None\<rparr>
          else (old_record c s m)\<lparr>msg_role := Some x\<rparr>)"
        by (simp add: cache_step_def onRole_def with_record_cached(1) [OF assms(1)])
      with True RoleOp mx old [of s m] old_record_cached [of c s m] show ?thesis
        by (auto simp: last_role_snoc intro!: text_source_snoc)
    next
      case False
      with r RoleOp have "cached c sid mid = Some r"
        by (auto simp: cache_step_def onRole_def dest: with_record_cached(2) [OF assms(1)])
      from old [OF this] False RoleOp mx show ?thesis
        by (auto simp: last_role_snoc intro!: text_source_snoc)
    qed
  next
    case (TextOp s m raw)
    show ?thesis
    proof (cases "(sid, mid) = (s, m)")
      case True
      let ?o = "old_record c s m"
      have r': "r = (if msg_role ?o = Some User then ?o
          else ?o\<lparr>msg_text := Some (truncateCodePoints raw (maxTextLength c))\<rparr>)"
        using r TextOp True by (simp add: cache_step_def onText_def with_record_cached(1) [OF assms(1)])
      have "text_source (maxTextLength c) s m (truncateCodePoints raw (maxTextLength c)) (ops @ [TextOp s m raw])"
        unfolding text_source_def by (intro exI [of _ ops] exI [of _ raw] exI [of _ "[]"]) simp
      with True TextOp mx r' old [of s m] old_record_cached [of c s m] show ?thesis
        by (cases "msg_role ?o = Some User") (auto simp: last_role_snoc)
    next
      case False
      with r TextOp have "cached c sid mid = Some r"
        by (auto simp: cache_step_def onText_def dest: with_record_cached(2) [OF assms(1)])
      from old [OF this] False TextOp mx show ?thesis
        by (auto simp: last_role_snoc intro!: text_source_snoc)
    qed
  next
    case (ClearSessionOp s)
    with r have "sid \<noteq> s" "cached c sid mid = Some r"
      by (auto simp: cache_step_def clearSession_def cached_def split: if_splits)
    from old [OF this(2)] this(1) ClearSessionOp mx show ?thesis
      by (auto simp: last_role_snoc intro!: text_source_snoc)
  next
    case ClearOp
    with r show ?thesis by (simp add: cache_step_def clear_def cached_def)
  qed
qed

lemma newMessageCache_inv:
  "newMessageCache a b d = Inr c \<Longrightarrow> cache_inv c \<and> history_inv c []"
  by (auto simp: newMessageCache_def boundedPositive_def cache_inv_def history_inv_def cached_def
    positiveInteger_pos split: sum.splits option.splits)

lemma cache_run_inv:
  "newMessageCache a b d = Inr c0 \<Longrightarrow> c = fold cache_step ops c0 \<Longrightarrow>
   cache_inv c \<and> history_inv c ops \<and> maxTextLength c = maxTextLength c0"
proof (induction ops arbitrary: c rule: rev_induct)
  case Nil
  then show ?case using newMessageCache_inv by simp
next
  case (snoc op ops)
  from snoc.IH [OF snoc.prems(1) refl] have "cache_inv (fold cache_step ops c0)"
    "history_inv (fold cache_step ops c0) ops" "maxTextLength (fold cache_step ops c0) = maxTextLength c0" by auto
  with snoc.prems(2) cache_step_inv history_inv_step show ?case by simp
qed

text \<open>
  Only assistant text ever becomes a summary: whatever the order of role, text and clear calls, a
  summary is the truncation of the last text reported for some message of that session whose last
  reported role is assistant, which was not called a user message after that text arrived, and whose
  session was not cleared since.
\<close>

theorem summary_is_assistant_text:
  assumes "newMessageCache a b d = Inr c0" "summary (fold cache_step ops c0) sid = Some t"
  shows "\<exists>mid. last_role sid mid ops = Some Assistant \<and> text_source (maxTextLength c0) sid mid t ops
         \<and> \<not> blank t"
proof -
  let ?c = "fold cache_step ops c0"
  from cache_run_inv [OF assms(1) refl] have inv: "cache_inv ?c" "history_inv ?c ops"
    and mx: "maxTextLength ?c = maxTextLength c0" by auto
  from assms(2) obtain rs r where rs: "map_get (cached_sessions ?c) sid = Some rs"
    and r: "List.find eligible (rev (map_vals rs)) = Some r" and t: "msg_text r = Some t"
    by (auto simp: summary_def split: option.splits)
  from r have el: "eligible r" and "r \<in> set (map_vals rs)"
    by (auto simp: find_Some_iff) (metis nth_mem rev_nth set_rev length_rev)
  then obtain mid where "(mid, r) \<in> set rs" by (auto simp: map_vals_def)
  then have "cached ?c sid mid = Some r"
    using rs cache_inv_records(1) [OF inv(1) rs] by (simp add: cached_def map_get_iff)
  with inv(2) el t mx show ?thesis
    by (intro exI [of _ mid]) (auto simp: history_inv_def eligible_def trim_Nil_iff [symmetric])
qed

lemma summary_is_assistant_text_witness:
  "\<exists>c0. newMessageCache None None None = Inr c0 \<and>
     summary (fold cache_step [TextOp (js ''s'') (js ''m'') (js ''hi''), RoleOp (js ''s'') (js ''m'') Assistant,
        TextOp (js ''s'') (js ''u'') (js ''secret''), RoleOp (js ''s'') (js ''u'') User] c0) (js ''s'') = Some (js ''hi'')
     \<and> (\<exists>mid. last_role (js ''s'') mid [TextOp (js ''s'') (js ''m'') (js ''hi''), RoleOp (js ''s'') (js ''m'') Assistant,
        TextOp (js ''s'') (js ''u'') (js ''secret''), RoleOp (js ''s'') (js ''u'') User] = Some Assistant)"
proof -
  let ?ops = "[TextOp (js ''s'') (js ''m'') (js ''hi''), RoleOp (js ''s'') (js ''m'') Assistant,
        TextOp (js ''s'') (js ''u'') (js ''secret''), RoleOp (js ''s'') (js ''u'') User]"
  let ?c0 = "\<lparr>cached_sessions = [], maxMessagesPerSession = 100, maxTextLength = 500, maxSessions = 1000\<rparr>"
  have new: "newMessageCache None None None = Inr ?c0"
    by (simp add: newMessageCache_def boundedPositive_def given_def positiveInteger_def
      DEFAULT_MAX_MESSAGES_PER_SESSION_def DEFAULT_MAX_TEXT_LENGTH_def DEFAULT_MAX_SESSIONS_def)
  have "0 < length (trim (js ''hi''))" by (simp add: trim_def js_def whitespace_def)
  then have s: "summary (fold cache_step ?ops ?c0) (js ''s'') = Some (js ''hi'')"
    by (simp add: cache_step_def onRole_def onText_def with_record_def recordsFor_def touch_def Let_def
      evict_oldest_small write_back_def map_has_def map_vals_def truncateCodePoints_js summary_def eligible_def)
  from summary_is_assistant_text [OF new s] new s show ?thesis by blast
qed

text \<open>
  Memory is bounded: after any history of calls the cache holds at most \<open>maxSessions\<close> sessions, at
  most \<open>maxMessagesPerSession\<close> records in each, and no text longer than \<open>maxTextLength\<close> code points.
\<close>

theorem cache_is_bounded:
  assumes "newMessageCache a b d = Inr c0" "c = fold cache_step ops c0"
  shows "length (cached_sessions c) \<le> maxSessions c
       \<and> (\<forall>sid rs. map_get (cached_sessions c) sid = Some rs \<longrightarrow> length rs \<le> maxMessagesPerSession c)
       \<and> (\<forall>sid mid r t. cached c sid mid = Some r \<and> msg_text r = Some t \<longrightarrow>
            length (code_points t) \<le> maxTextLength c)"
proof -
  from cache_run_inv [OF assms] have inv: "cache_inv c" by simp
  have "length (code_points t) \<le> maxTextLength c"
    if "cached c sid mid = Some r" "msg_text r = Some t" for sid mid r t
  proof -
    have "old_record c sid mid = r" using that(1) by (simp add: old_record_def)
    with old_record_bounded [OF inv, of sid mid] that(2) show ?thesis by (simp add: bounded_text_def)
  qed
  with inv cache_inv_records(2) [OF inv] show ?thesis by (auto simp: cache_inv_def)
qed

lemma cache_is_bounded_witness:
  "\<exists>c0. newMessageCache (Some (Finite 1)) None None = Inr c0 \<and>
     length (cached_sessions (fold cache_step [RoleOp (js ''s'') (js ''m'') User] c0))
       \<le> maxSessions (fold cache_step [RoleOp (js ''s'') (js ''m'') User] c0)"
proof -
  obtain c0 where new: "newMessageCache (Some (Finite 1)) None None = Inr c0"
    by (simp add: newMessageCache_def boundedPositive_def given_def positiveInteger_def
      DEFAULT_MAX_TEXT_LENGTH_def DEFAULT_MAX_SESSIONS_def)
  from cache_is_bounded [OF new refl] new show ?thesis by blast
qed

text \<open>
  The latest reply wins: the moment a text arrives for a message that is known to be the
  assistant's, the summary of the session is that text (truncated), unless it is blank.
\<close>

theorem latest_text_is_summary:
  assumes "cache_inv c" "cached c sid mid = Some r" "msg_role r = Some Assistant"
    "\<not> blank (truncateCodePoints t (maxTextLength c))"
  shows "summary (onText sid mid t c) sid = Some (truncateCodePoints t (maxTextLength c))"
proof -
  let ?r = "r\<lparr>msg_text := Some (truncateCodePoints t (maxTextLength c))\<rparr>"
  let ?f = "\<lambda>rec. if msg_role rec = Some User then rec
      else rec\<lparr>msg_text := Some (truncateCodePoints t (maxTextLength c))\<rparr>"
  have "?f (old_record c sid mid) = ?r" using assms(2,3) by (simp add: old_record_def)
  then obtain rs0 where "map_get (cached_sessions (onText sid mid t c)) sid = Some (rs0 @ [(mid, ?r)])"
    using with_record_facts(1) [OF assms(1), where sid = sid and mid = mid and f = ?f]
    by (auto simp: onText_def)
  moreover have "eligible ?r" using assms(3,4) by (simp add: eligible_def trim_Nil_iff)
  ultimately show ?thesis by (simp add: summary_def map_vals_def)
qed

lemma latest_text_is_summary_witness:
  "summary (onText (js ''s'') (js ''m'') (js ''hello'')
     \<lparr>cached_sessions = [(js ''s'', [(js ''m'', \<lparr>msg_role = Some Assistant, msg_text = None\<rparr>)])],
      maxMessagesPerSession = 2, maxTextLength = 4, maxSessions = 2\<rparr>) (js ''s'') = Some (js ''hell'')"
proof -
  let ?r = "\<lparr>msg_role = Some Assistant, msg_text = None\<rparr>"
  let ?c = "\<lparr>cached_sessions = [(js ''s'', [(js ''m'', ?r)])],
      maxMessagesPerSession = 2, maxTextLength = 4, maxSessions = 2\<rparr>"
  have "cache_inv ?c" by (simp add: cache_inv_def)
  moreover have "cached ?c (js ''s'') (js ''m'') = Some ?r" by (simp add: cached_def)
  moreover have "\<not> blank (js ''hell'')" by (simp add: blank_def js_def whitespace_def)
  then have "\<not> blank (truncateCodePoints (js ''hello'') 4)" by (simp add: truncateCodePoints_js)
  ultimately show ?thesis
    using latest_text_is_summary [of ?c "js ''s''" "js ''m''" ?r "js ''hello''"]
    by (simp add: truncateCodePoints_js)
qed

end
