(* ===== verification/Json.thy ===== *)
theory Json
  imports JsString
begin

section \<open>Values of unknown shape\<close>

text \<open>
  What the plugin receives from OpenCode is JSON of unknown shape, read defensively. An object is the
  ordered list of its own properties; reading a property that is not there gives \<open>undefined\<close>, which
  is \<open>None\<close> here.
\<close>

datatype json =
    JNull
  | JBool bool
  | JNumber jsnum
  | JString jstr
  | JArray "json list"
  | JObject "(jstr \<times> json) list"

definition isRecord :: "json \<Rightarrow> bool" where
  "isRecord v = (case v of JObject _ \<Rightarrow> True | _ \<Rightarrow> False)"

text \<open>The property \<open>v.name\<close> of a record; of duplicates the last one counts, as in a parsed text.\<close>

definition field :: "json \<Rightarrow> string \<Rightarrow> json option" where
  "field v name = (case v of JObject ps \<Rightarrow> map_of (rev ps) (js name) | _ \<Rightarrow> None)"

definition asString :: "json option \<Rightarrow> jstr option" where
  "asString v = (case v of Some (JString s) \<Rightarrow> Some s | _ \<Rightarrow> None)"

definition asNonEmptyString :: "json option \<Rightarrow> jstr option" where
  "asNonEmptyString v = (case v of Some (JString s) \<Rightarrow> if 0 < length s then Some s else None | _ \<Rightarrow> None)"

definition asFiniteNumber :: "json option \<Rightarrow> rat option" where
  "asFiniteNumber v = (case v of Some (JNumber (Finite n)) \<Rightarrow> Some n | _ \<Rightarrow> None)"

definition asRecord :: "json option \<Rightarrow> json option" where
  "asRecord v = (case v of Some r \<Rightarrow> if isRecord r then Some r else None | None \<Rightarrow> None)"

text \<open>\<open>typeof v === "number" && v > 0\<close>\<close>

definition positiveNumber :: "json option \<Rightarrow> bool" where
  "positiveNumber v =
     (case v of
        Some (JNumber (Finite n)) \<Rightarrow> 0 < n
      | Some (JNumber PosInfinity) \<Rightarrow> True
      | _ \<Rightarrow> False)"

lemma asNonEmptyString_nonempty [dest]: "asNonEmptyString v = Some s \<Longrightarrow> s \<noteq> []"
  by (auto simp: asNonEmptyString_def split: option.splits json.splits if_splits)

lemma asNonEmptyString_asString: "asNonEmptyString v = Some s \<Longrightarrow> asString v = Some s"
  by (auto simp: asNonEmptyString_def asString_def split: option.splits json.splits if_splits)

end
