(* ===== verification/SessionRegistry.thy ===== *)
theory SessionRegistry
  imports Json
begin

section \<open>The session registry\<close>

text \<open>
  \<open>packages/plugin/src/session-registry.ts\<close>: what the plugin knows of the ancestry of a session, with
  one SDK lookup on a miss that concurrent callers share. \<open>isMain\<close> is split at its \<open>await\<close>: a caller
  (a number) is answered at once, or waits for the lookup in flight; \<open>lookup_settled\<close> is what happens
  when the SDK answers (or fails: None). A parent is \<open>None\<close> for \<open>null\<close> (top level).
\<close>

record cache_entry =
  entry_parent :: "jstr option option"
  entry_title :: "jstr option"
  entry_excluded :: "bool option"

record registry =
  reg_entries :: "(jstr, cache_entry) jsmap"
  reg_inflight :: "(jstr, nat list) jsmap"

definition newRegistry :: registry where
  "newRegistry = \<lparr>reg_entries = [], reg_inflight = []\<rparr>"

definition isInternalSession :: "jstr option \<Rightarrow> bool" where
  "isInternalSession title = (case title of None \<Rightarrow> False | Some t \<Rightarrow> prefix (js ''magic-context-'') t)"

definition empty_entry :: cache_entry where
  "empty_entry = \<lparr>entry_parent = None, entry_title = None, entry_excluded = None\<rparr>"

definition reg_update :: "jstr \<Rightarrow> jstr option \<Rightarrow> jstr option \<Rightarrow> bool \<Rightarrow> registry \<Rightarrow> registry" where
  "reg_update sid parentID title archived r =
     (let e = (case map_get (reg_entries r) sid of None \<Rightarrow> empty_entry | Some e \<Rightarrow> e);
          e = e\<lparr>entry_parent := Some parentID\<rparr>;
          e = (case title of None \<Rightarrow> e | Some t \<Rightarrow> e\<lparr>entry_title := Some t\<rparr>);
          e = e\<lparr>entry_excluded := Some (archived \<or> isInternalSession (entry_title e))\<rparr>
      in r\<lparr>reg_entries := map_set sid e (reg_entries r)\<rparr>)"

definition reg_title :: "registry \<Rightarrow> jstr \<Rightarrow> jstr option" where
  "reg_title r sid = (case map_get (reg_entries r) sid of None \<Rightarrow> None | Some e \<Rightarrow> entry_title e)"

definition reg_excluded :: "registry \<Rightarrow> jstr \<Rightarrow> bool" where
  "reg_excluded r sid =
     (case map_get (reg_entries r) sid of
        None \<Rightarrow> False
      | Some e \<Rightarrow> entry_excluded e = Some True \<or> (case entry_parent e of Some (Some _) \<Rightarrow> True | _ \<Rightarrow> False))"

definition updateFromLookup :: "jstr \<Rightarrow> jstr option \<Rightarrow> jstr option \<Rightarrow> bool \<Rightarrow> registry \<Rightarrow> registry" where
  "updateFromLookup sid parentID title archived r =
     (if map_has (reg_entries r) sid then r else reg_update sid parentID title archived r)"

text \<open>The answer of a cached entry, when its ancestry is known.\<close>

definition known_main :: "registry \<Rightarrow> jstr \<Rightarrow> bool option" where
  "known_main r sid =
     (case map_get (reg_entries r) sid of
        None \<Rightarrow> None
      | Some e \<Rightarrow>
          (case entry_parent e of
             None \<Rightarrow> None
           | Some parentID \<Rightarrow> Some (parentID = None \<and> entry_excluded e \<noteq> Some True)))"

definition isMain :: "nat \<Rightarrow> jstr \<Rightarrow> registry \<Rightarrow> registry \<times> bool option" where
  "isMain caller sid r =
     (case known_main r sid of
        Some b \<Rightarrow> (r, Some b)
      | None \<Rightarrow>
          (case map_get (reg_inflight r) sid of
             Some callers \<Rightarrow> (r\<lparr>reg_inflight := map_set sid (callers @ [caller]) (reg_inflight r)\<rparr>, None)
           | None \<Rightarrow> (r\<lparr>reg_inflight := map_set sid [caller] (reg_inflight r)\<rparr>, None)))"

text \<open>\<open>resolve\<close> after the lookup: an upsert that landed meanwhile wins over the SDK answer.\<close>

definition resolve :: "jstr \<Rightarrow> jstr option option \<Rightarrow> registry \<Rightarrow> registry \<times> bool option" where
  "resolve sid looked_up r =
     (case known_main r sid of
        Some b \<Rightarrow> (r, Some b)
      | None \<Rightarrow>
          (case looked_up of
             None \<Rightarrow> (r, None)
           | Some parentID \<Rightarrow>
               (let e = (case map_get (reg_entries r) sid of None \<Rightarrow> empty_entry | Some e \<Rightarrow> e)
                in (r\<lparr>reg_entries := map_set sid (e\<lparr>entry_parent := Some parentID\<rparr>) (reg_entries r)\<rparr>,
                    Some (parentID = None)))))"

subsection \<open>The SDK adapter\<close>

record session_info =
  info_parent :: "jstr option"
  info_title :: "jstr option"
  info_archived :: bool

text \<open>
  \<open>getParentID\<close> of \<open>createSdkLookup\<close>: the session the response describes, if it is a well-formed answer
  for this session id. The ancestry it returns is the parent of that session; \<open>onSession\<close> gets all of
  it.
\<close>

definition sdk_session :: "jstr \<Rightarrow> json option \<Rightarrow> session_info option" where
  "sdk_session sid response =
     (case response of
        None \<Rightarrow> None
      | Some resp \<Rightarrow>
          if isRecord resp \<and> (case field resp ''error'' of None \<Rightarrow> False | Some e \<Rightarrow> e \<noteq> JNull) then None
          else
            let session = (if isRecord resp
                           then (case asRecord (field resp ''data'') of Some d \<Rightarrow> d | None \<Rightarrow> resp)
                           else resp) in
            if \<not> isRecord session \<or> field session ''id'' \<noteq> Some (JString sid) then None
            else
              let archived = (case asRecord (field session ''time'') of
                                None \<Rightarrow> False
                              | Some t \<Rightarrow> positiveNumber (field t ''archived''));
                  info = (\<lambda>parentID. \<lparr>info_parent = parentID, info_title = asString (field session ''title''),
                                    info_archived = archived\<rparr>)
              in (case field session ''parentID'' of
                    None \<Rightarrow> Some (info None)
                  | Some JNull \<Rightarrow> Some (info None)
                  | Some (JString p) \<Rightarrow> if p = [] then None else Some (info (Some p))
                  | Some _ \<Rightarrow> None))"

definition lookup_settled :: "jstr \<Rightarrow> json option \<Rightarrow> registry \<Rightarrow> registry \<times> (nat \<times> bool option) list" where
  "lookup_settled sid response r =
     (case map_get (reg_inflight r) sid of
        None \<Rightarrow> (r, [])
      | Some callers \<Rightarrow>
          (let info = sdk_session sid response;
               r = (case info of
                      None \<Rightarrow> r
                    | Some i \<Rightarrow> updateFromLookup sid (info_parent i) (info_title i) (info_archived i) r);
               (r, answer) = resolve sid (map_option info_parent info) r
           in (r\<lparr>reg_inflight := map_delete sid (reg_inflight r)\<rparr>, map (\<lambda>c. (c, answer)) callers)))"

subsection \<open>Histories\<close>

datatype registry_op =
    Upsert jstr "jstr option" "jstr option" bool
  | Snapshot jstr "jstr option" "jstr option" bool
  | IsMain nat jstr
  | LookupSettled jstr "json option"

definition registry_step :: "registry_op \<Rightarrow> registry \<Rightarrow> registry \<times> (jstr \<times> nat \<times> bool option) list" where
  "registry_step op r =
     (case op of
        Upsert sid p t a \<Rightarrow> (reg_update sid p t a r, [])
      | Snapshot sid p t a \<Rightarrow> (updateFromLookup sid p t a r, [])
      | IsMain caller sid \<Rightarrow>
          (let (r', answer) = isMain caller sid r
           in (r', case answer of None \<Rightarrow> [] | Some b \<Rightarrow> [(sid, caller, Some b)]))
      | LookupSettled sid response \<Rightarrow>
          (let (r', answers) = lookup_settled sid response r in (r', map (Pair sid) answers)))"

fun registry_run :: "registry_op list \<Rightarrow> registry \<Rightarrow> registry \<times> (jstr \<times> nat \<times> bool option) list" where
  "registry_run [] r = (r, [])"
| "registry_run (op # ops) r =
     (let (r', a) = registry_step op r; (r'', as) = registry_run ops r' in (r'', a @ as))"

text \<open>The verdict on a session after an upsert, and that nothing but a newer upsert changes it.\<close>

definition verdict :: "registry \<Rightarrow> jstr \<Rightarrow> jstr option \<Rightarrow> bool \<Rightarrow> bool" where
  "verdict r sid p excl \<longleftrightarrow>
     (\<exists>t. map_get (reg_entries r) sid = Some \<lparr>entry_parent = Some p, entry_title = t, entry_excluded = Some excl\<rparr>)"

lemma verdict_known: "verdict r sid p x \<Longrightarrow> known_main r sid = Some (p = None \<and> \<not> x)"
  by (auto simp: verdict_def known_main_def)

lemma resolve_known: "known_main r sid = Some b \<Longrightarrow> resolve sid l r = (r, Some b)"
  by (simp add: resolve_def)

lemma verdict_update_other: "s \<noteq> sid \<Longrightarrow> verdict (reg_update s p t a r) sid q x = verdict r sid q x"
  by (simp add: verdict_def reg_update_def Let_def)

lemma verdict_snapshot:
  assumes "verdict r sid q x"
  shows "verdict (updateFromLookup s p t a r) sid q x"
proof (cases "s = sid")
  case True
  with assms show ?thesis by (auto simp: updateFromLookup_def map_has_iff verdict_def)
next
  case False
  with assms show ?thesis by (simp add: updateFromLookup_def verdict_update_other)
qed

lemma verdict_resolve:
  assumes "verdict r sid q x"
  shows "verdict (fst (resolve s l r)) sid q x"
proof (cases "s = sid")
  case True
  with assms show ?thesis by (simp add: resolve_known [OF verdict_known])
next
  case False
  with assms show ?thesis by (auto simp: resolve_def verdict_def Let_def split: option.splits)
qed

lemma verdict_step:
  assumes "verdict r sid q x" "\<forall>p t a. op \<noteq> Upsert sid p t a"
  shows "verdict (fst (registry_step op r)) sid q x
       \<and> (\<forall>(s, c, b) \<in> set (snd (registry_step op r)). s = sid \<longrightarrow> b = Some (q = None \<and> \<not> x))"
proof (cases op)
  case (Upsert s p t a)
  with assms(2) have "s \<noteq> sid" by auto
  with assms(1) Upsert show ?thesis by (simp add: registry_step_def verdict_update_other)
next
  case (Snapshot s p t a)
  with assms show ?thesis by (simp add: registry_step_def verdict_snapshot)
next
  case (IsMain c s)
  show ?thesis
  proof (cases "s = sid")
    case True
    with IsMain assms verdict_known [OF assms(1)] show ?thesis
      by (simp add: registry_step_def isMain_def)
  next
    case False
    with IsMain assms show ?thesis
      by (auto simp: registry_step_def isMain_def verdict_def split: option.splits)
  qed
next
  case (LookupSettled s resp)
  show ?thesis
  proof (cases "map_get (reg_inflight r) s")
    case None
    with LookupSettled assms show ?thesis by (simp add: registry_step_def lookup_settled_def)
  next
    case (Some callers)
    let ?info = "sdk_session s resp"
    let ?r = "case ?info of None \<Rightarrow> r | Some i \<Rightarrow> updateFromLookup s (info_parent i) (info_title i) (info_archived i) r"
    have v: "verdict ?r sid q x" using assms(1) by (auto simp: verdict_snapshot split: option.splits)
    obtain r' ans where res: "resolve s (map_option info_parent ?info) ?r = (r', ans)" by force
    have "verdict r' sid q x" using verdict_resolve [OF v] res by (metis fst_conv)
    moreover have "s = sid \<Longrightarrow> ans = Some (q = None \<and> \<not> x)"
      using res resolve_known verdict_known [OF v] by auto
    ultimately show ?thesis
      using LookupSettled Some res by (auto simp: registry_step_def lookup_settled_def Let_def verdict_def)
  qed
qed

lemma verdict_run:
  "verdict r sid q x \<Longrightarrow> \<forall>op \<in> set ops. \<forall>p t a. op \<noteq> Upsert sid p t a \<Longrightarrow>
   \<forall>(s, c, b) \<in> set (snd (registry_run ops r)). s = sid \<longrightarrow> b = Some (q = None \<and> \<not> x)"
proof (induction ops arbitrary: r)
  case (Cons op ops)
  obtain r' a where st: "registry_step op r = (r', a)" by force
  have step: "verdict r' sid q x \<and> (\<forall>(s, c, b) \<in> set a. s = sid \<longrightarrow> b = Some (q = None \<and> \<not> x))"
    using verdict_step [OF Cons.prems(1), of op] Cons.prems(2) st by auto
  with Cons.IH [of r'] Cons.prems(2) show ?case
    by (auto simp: st Let_def split: prod.splits)
qed simp

text \<open>
  A session event is authoritative: after an upsert of a session, every caller of \<open>isMain\<close> for it,
  including those who were already waiting for a lookup, gets the answer that this upsert implies,
  until the next upsert; neither catalog snapshots nor SDK answers, late or failing, change it.
\<close>

theorem upsert_is_authoritative:
  assumes "\<forall>op \<in> set later. \<forall>p t a. op \<noteq> Upsert sid p t a"
    "(s, caller, answer) \<in> set (snd (registry_run later (reg_update sid parent (Some title) archived r)))" "s = sid"
  shows "answer = Some (parent = None \<and> \<not> archived \<and> \<not> isInternalSession (Some title))"
proof -
  have "verdict (reg_update sid parent (Some title) archived r) sid parent (archived \<or> isInternalSession (Some title))"
    by (cases "map_get (reg_entries r) sid")
      (auto simp: verdict_def reg_update_def Let_def intro: exI [of _ "Some title"] cache_entry.equality)
  from verdict_run [OF this assms(1)] assms(2,3) show ?thesis by auto
qed

lemma upsert_is_authoritative_witness:
  "\<exists>r. map_get (reg_inflight r) (js ''s'') = Some [7] \<and>
     (js ''s'', 7, Some False) \<in> set (snd (registry_run [LookupSettled (js ''s'') None]
        (reg_update (js ''s'') (Some (js ''parent'')) (Some (js ''t'')) False r)))"
proof -
  let ?r = "fst (isMain 7 (js ''s'') newRegistry)"
  let ?run = "registry_run [LookupSettled (js ''s'') None]
        (reg_update (js ''s'') (Some (js ''parent'')) (Some (js ''t'')) False ?r)"
  have infl: "map_get (reg_inflight ?r) (js ''s'') = Some [7]"
    by (simp add: isMain_def known_main_def newRegistry_def)
  obtain ans where ans: "(js ''s'', 7, ans) \<in> set (snd ?run)"
    by (simp add: registry_step_def lookup_settled_def sdk_session_def resolve_def isMain_def known_main_def
      newRegistry_def reg_update_def Let_def empty_entry_def)
  from upsert_is_authoritative [OF _ ans refl] have "ans = Some False" by simp
  with infl ans show ?thesis by blast
qed

subsection \<open>Every caller is answered once\<close>

definition asked :: "registry_op list \<Rightarrow> nat list" where
  "asked ops = concat (map (\<lambda>op. case op of IsMain c _ \<Rightarrow> [c] | _ \<Rightarrow> []) ops)"

definition waiting_callers :: "registry \<Rightarrow> nat multiset" where
  "waiting_callers r = mset (concat (map_vals (reg_inflight r)))"

lemma waiting_set:
  "map_get m k = Some old \<Longrightarrow> distinct_keys m \<Longrightarrow>
   mset (concat (map_vals (map_set k v m))) + mset old = mset (concat (map_vals m)) + mset v"
  by (induction m) (auto simp: ac_simps map_get_None_iff map_keys_def)

lemma waiting_new: "map_get m k = None \<Longrightarrow> mset (concat (map_vals (map_set k v m))) = mset (concat (map_vals m)) + mset v"
  by (simp add: map_set_new map_vals_def)

lemma waiting_delete:
  "map_get m k = Some v \<Longrightarrow> distinct_keys m \<Longrightarrow>
   mset (concat (map_vals m)) = mset (concat (map_vals (map_delete k m))) + mset v"
  by (induction m) (auto simp: ac_simps map_delete_absent)

lemma inflight_snapshot [simp]: "reg_inflight (updateFromLookup s p t a r) = reg_inflight r"
  by (simp add: updateFromLookup_def reg_update_def Let_def)

lemma inflight_resolve: "reg_inflight (fst (resolve s l r)) = reg_inflight r"
  by (auto simp: resolve_def Let_def split: option.splits)

lemma registry_step_callers:
  assumes "distinct_keys (reg_inflight r)" "registry_step op r = (r', as)"
  shows "distinct_keys (reg_inflight r') \<and>
    waiting_callers r + mset (asked [op]) = waiting_callers r' + mset (map (\<lambda>(_, c, _). c) as)"
proof (cases op)
  case (Upsert s p t a)
  with assms show ?thesis by (auto simp: registry_step_def reg_update_def waiting_callers_def asked_def Let_def)
next
  case (Snapshot s p t a)
  with assms show ?thesis
    by (auto simp: registry_step_def updateFromLookup_def reg_update_def waiting_callers_def asked_def Let_def)
next
  case (IsMain c s)
  with assms show ?thesis
    using waiting_set [of "reg_inflight r" s "the (map_get (reg_inflight r) s)" "the (map_get (reg_inflight r) s) @ [c]"]
      waiting_new [of "reg_inflight r" s "[c]"]
    by (auto simp: registry_step_def isMain_def waiting_callers_def asked_def split: option.splits)
next
  case (LookupSettled s resp)
  show ?thesis
  proof (cases "map_get (reg_inflight r) s")
    case None
    with assms LookupSettled show ?thesis
      by (auto simp: registry_step_def lookup_settled_def asked_def)
  next
    case (Some callers)
    define r1 where "r1 = (case sdk_session s resp of None \<Rightarrow> r
      | Some i \<Rightarrow> updateFromLookup s (info_parent i) (info_title i) (info_archived i) r)"
    obtain r2 ans where res: "resolve s (map_option info_parent (sdk_session s resp)) r1 = (r2, ans)" by force
    have "reg_inflight r2 = reg_inflight r"
      using inflight_resolve [of s "map_option info_parent (sdk_session s resp)" r1] res
      by (simp add: r1_def split: option.splits)
    moreover have "r' = r2\<lparr>reg_inflight := map_delete s (reg_inflight r2)\<rparr>" "as = map (\<lambda>c. (s, c, ans)) callers"
      using assms(2) LookupSettled Some res
      by (auto simp: registry_step_def lookup_settled_def Let_def r1_def [symmetric])
    ultimately show ?thesis
      using assms(1) LookupSettled waiting_delete [OF Some assms(1)]
      by (simp add: asked_def waiting_callers_def comp_def)
  qed
qed

lemma registry_run_callers:
  "distinct_keys (reg_inflight r) \<Longrightarrow> registry_run ops r = (r', as) \<Longrightarrow>
   waiting_callers r + mset (asked ops) = waiting_callers r' + mset (map (\<lambda>(_, c, _). c) as)"
proof (induction ops arbitrary: r r' as)
  case (Cons op ops)
  obtain r1 a where st: "registry_step op r = (r1, a)" by force
  obtain as' where run: "registry_run ops r1 = (r', as')" and as: "as = a @ as'"
    using Cons.prems(2) st by (auto simp: Let_def split: prod.splits)
  note step = registry_step_callers [OF Cons.prems(1) st]
  have "mset (asked (op # ops)) = mset (asked [op]) + mset (asked ops)" by (simp add: asked_def)
  then have "waiting_callers r + mset (asked (op # ops)) = (waiting_callers r + mset (asked [op])) + mset (asked ops)"
    by simp
  also have "\<dots> = (waiting_callers r1 + mset (asked ops)) + mset (map (\<lambda>(_, c, _). c) a)"
    using step by simp
  also have "waiting_callers r1 + mset (asked ops) = waiting_callers r' + mset (map (\<lambda>(_, c, _). c) as')"
    using step Cons.IH [OF _ run] by simp
  finally show ?case by (simp add: as)
qed (simp add: asked_def)

text \<open>
  Nobody waits for ever and nobody is answered twice: over any history, the callers of \<open>isMain\<close>
  are exactly those answered, once each, and those waiting for a lookup that is in flight.
\<close>

theorem callers_answered_once:
  assumes "registry_run ops newRegistry = (r, answers)"
  shows "mset (asked ops) = mset (map (\<lambda>(_, c, _). c) answers) + waiting_callers r"
proof -
  have "distinct_keys (reg_inflight newRegistry)" "waiting_callers newRegistry = {#}"
    by (simp_all add: newRegistry_def waiting_callers_def)
  with registry_run_callers [OF _ assms] show ?thesis by (simp add: ac_simps)
qed

lemma callers_answered_once_witness:
  "\<exists>r. registry_run [IsMain 1 (js ''s''), IsMain 2 (js ''s''), LookupSettled (js ''s'') None, IsMain 3 (js ''s'')] newRegistry
     = (r, [(js ''s'', 1, None), (js ''s'', 2, None)])
   \<and> mset [1, 2, 3] = mset [1, 2] + waiting_callers r"
proof -
  let ?ops = "[IsMain 1 (js ''s''), IsMain 2 (js ''s''), LookupSettled (js ''s'') None, IsMain 3 (js ''s'')]"
  obtain r where run: "registry_run ?ops newRegistry = (r, [(js ''s'', 1, None), (js ''s'', 2, None)])"
    by (simp add: registry_step_def isMain_def known_main_def newRegistry_def lookup_settled_def sdk_session_def
      resolve_def Let_def)
  from callers_answered_once [OF run] run show ?thesis by (auto simp: asked_def)
qed

end
