(* ===== verification/Events.thy ===== *)
theory Events
  imports Json
begin

section \<open>Normalisation of OpenCode events\<close>

text \<open>
  \<open>packages/plugin/src/events.ts\<close>: one total function per event kind, from a JSON value of unknown shape
  to the internal event or \<open>None\<close>. The lemmas say what every normalised event satisfies, and that a
  permission summary depends on nothing but the permission name and its patterns.
\<close>

subsection \<open>Internal events\<close>

record retry_action =
  ra_reason :: "jstr option"
  ra_provider :: jstr
  ra_title :: jstr
  ra_message :: jstr
  ra_label :: jstr
  ra_link :: "jstr option"

record normalized_retry =
  retry_attempt :: rat
  retry_message :: jstr
  retry_next :: rat
  retry_action :: "retry_action option"

record normalized_question =
  nq_question :: jstr
  nq_options :: "jstr list"
  nq_multiple :: "bool option"

record session_fields =
  sf_sessionID :: jstr
  sf_parentID :: "jstr option"
  sf_title :: jstr
  sf_directory :: "jstr option"
  sf_archived :: bool

datatype status_kind = BusyStatus | RetryStatus | IdleStatus

datatype error_outcome = StoppedOutcome | FailedOutcome

datatype message_role = UserRole | AssistantRole

datatype normalized_event =
    SessionUpsert session_fields
  | SessionDeleted session_fields
  | SessionStatus jstr status_kind "normalized_retry option"
  | SessionError "jstr option" error_outcome
  | MessageRole jstr jstr message_role "error_outcome option"
  | MessageText jstr jstr jstr jstr
  | QuestionAsked jstr jstr "normalized_question list"
  | QuestionResolved jstr jstr
  | PermissionAsked jstr jstr jstr jstr
  | PermissionResolved jstr jstr

definition PERMISSION_SUMMARY_MAX_LENGTH :: nat where
  "PERMISSION_SUMMARY_MAX_LENGTH = 200"

definition ABORT_ERROR_NAMES :: "jstr list" where
  "ABORT_ERROR_NAMES = [js ''MessageAbortedError'', js ''AbortError'']"

subsection \<open>Pieces\<close>

definition errorOutcome :: "json option \<Rightarrow> error_outcome" where
  "errorOutcome err =
     (case asRecord err of
        None \<Rightarrow> FailedOutcome
      | Some r \<Rightarrow>
          (case asString (field r ''name'') of
             None \<Rightarrow> FailedOutcome
           | Some n \<Rightarrow> if n \<in> set ABORT_ERROR_NAMES then StoppedOutcome else FailedOutcome))"

text \<open>\<open>text.replace(/[class]+/g, " ")\<close>\<close>

function replace_runs :: "(16 word \<Rightarrow> bool) \<Rightarrow> jstr \<Rightarrow> jstr" where
  "replace_runs P [] = []"
| "replace_runs P (c # cs) =
     (if P c then 32 # replace_runs P (dropWhile P cs) else c # replace_runs P cs)"
  by pat_completeness auto
termination
  by (relation "measure (\<lambda>(_, s). length s)") (auto simp: less_Suc_eq_le length_dropWhile_le)

definition control_unit :: "16 word \<Rightarrow> bool" where
  "control_unit u \<longleftrightarrow> u \<le> 0x1F \<or> u = 0x7F"

definition sanitizePattern :: "json \<Rightarrow> jstr option" where
  "sanitizePattern pattern =
     (case pattern of
        JString p \<Rightarrow>
          (let cleaned = trim (replace_runs whitespace (replace_runs control_unit p))
           in if 0 < length cleaned then Some cleaned else None)
      | _ \<Rightarrow> None)"

definition ellipsis :: "16 word" where
  "ellipsis = 0x2026"

definition buildPermissionSummary :: "jstr \<Rightarrow> json option \<Rightarrow> jstr" where
  "buildPermissionSummary permission patterns =
     (let patterns = (case patterns of None \<Rightarrow> [] | Some (JArray ps) \<Rightarrow> ps | Some p \<Rightarrow> [p]);
          sanitized = List.map_filter sanitizePattern patterns;
          summary = (if 0 < length sanitized
                     then permission @ js '': '' @ join_with (js '', '') sanitized
                     else permission)
      in if length summary \<le> PERMISSION_SUMMARY_MAX_LENGTH then summary
         else take (PERMISSION_SUMMARY_MAX_LENGTH - 1) summary @ [ellipsis])"

definition readSessionInfo :: "json \<Rightarrow> json option" where
  "readSessionInfo properties =
     (case asRecord (field properties ''info'') of
        Some info \<Rightarrow> Some info
      | None \<Rightarrow> if asString (field properties ''id'') \<noteq> None then Some properties else None)"

definition normalizeSessionUpsert :: "json \<Rightarrow> session_fields option" where
  "normalizeSessionUpsert properties =
     (case readSessionInfo properties of
        None \<Rightarrow> None
      | Some info \<Rightarrow>
          (case asNonEmptyString (field info ''id'') of
             None \<Rightarrow> None
           | Some sid \<Rightarrow>
               Some \<lparr>sf_sessionID = sid,
                     sf_parentID = asNonEmptyString (field info ''parentID''),
                     sf_title = (case asString (field info ''title'') of None \<Rightarrow> [] | Some t \<Rightarrow> t),
                     sf_directory = asString (field info ''directory''),
                     sf_archived = (case asRecord (field info ''time'') of
                                      None \<Rightarrow> False
                                    | Some t \<Rightarrow> positiveNumber (field t ''archived''))\<rparr>))"

definition normalizeRetryAction :: "json option \<Rightarrow> retry_action option" where
  "normalizeRetryAction action =
     (case asRecord action of
        None \<Rightarrow> None
      | Some a \<Rightarrow>
          (case (asNonEmptyString (field a ''provider''), asNonEmptyString (field a ''title''),
                 asNonEmptyString (field a ''message''), asNonEmptyString (field a ''label'')) of
             (Some provider, Some title, Some message, Some label) \<Rightarrow>
               Some \<lparr>ra_reason = asNonEmptyString (field a ''reason''), ra_provider = provider,
                     ra_title = title, ra_message = message, ra_label = label,
                     ra_link = asNonEmptyString (field a ''link'')\<rparr>
           | _ \<Rightarrow> None))"

definition normalizeSessionStatus :: "json \<Rightarrow> normalized_event option" where
  "normalizeSessionStatus properties =
     (case (asNonEmptyString (field properties ''sessionID''), asRecord (field properties ''status'')) of
        (Some sid, Some status) \<Rightarrow>
          (case asString (field status ''type'') of
             None \<Rightarrow> None
           | Some t \<Rightarrow>
               if t = js ''busy'' then Some (SessionStatus sid BusyStatus None)
               else if t = js ''idle'' then Some (SessionStatus sid IdleStatus None)
               else if t = js ''retry'' then
                 (case (asFiniteNumber (field status ''attempt''), asFiniteNumber (field status ''next'')) of
                    (Some attempt, Some nxt) \<Rightarrow>
                      Some (SessionStatus sid RetryStatus
                        (Some \<lparr>retry_attempt = attempt,
                               retry_message = (case asString (field status ''message'') of None \<Rightarrow> [] | Some m \<Rightarrow> m),
                               retry_next = nxt,
                               retry_action = normalizeRetryAction (field status ''action'')\<rparr>))
                  | _ \<Rightarrow> None)
               else None)
      | _ \<Rightarrow> None)"

definition normalizeSessionIdle :: "json \<Rightarrow> normalized_event option" where
  "normalizeSessionIdle properties =
     map_option (\<lambda>sid. SessionStatus sid IdleStatus None) (asNonEmptyString (field properties ''sessionID''))"

definition normalizeSessionError :: "json \<Rightarrow> normalized_event" where
  "normalizeSessionError properties =
     SessionError (asNonEmptyString (field properties ''sessionID'')) (errorOutcome (field properties ''error''))"

definition normalizeMessage :: "json \<Rightarrow> normalized_event option" where
  "normalizeMessage properties =
     (case asRecord (field properties ''info'') of
        None \<Rightarrow> None
      | Some info \<Rightarrow>
          (case (asNonEmptyString (field info ''sessionID''), asNonEmptyString (field info ''id'')) of
             (Some sid, Some mid) \<Rightarrow>
               if field info ''role'' = Some (JString (js ''user'')) then Some (MessageRole sid mid UserRole None)
               else if field info ''role'' = Some (JString (js ''assistant'')) then
                 Some (MessageRole sid mid AssistantRole
                   (case field info ''error'' of None \<Rightarrow> None | Some e \<Rightarrow> Some (errorOutcome (Some e))))
               else None
           | _ \<Rightarrow> None))"

definition normalizeMessagePart :: "json \<Rightarrow> normalized_event option" where
  "normalizeMessagePart properties =
     (case asRecord (field properties ''part'') of
        None \<Rightarrow> None
      | Some part \<Rightarrow>
          if field part ''type'' \<noteq> Some (JString (js ''text'')) then None
          else
            (case (asNonEmptyString (field part ''sessionID''), asNonEmptyString (field part ''messageID''),
                   asNonEmptyString (field part ''id''), asString (field part ''text'')) of
               (Some sid, Some mid, Some pid, Some t) \<Rightarrow> Some (MessageText sid mid pid t)
             | _ \<Rightarrow> None))"

definition questionOption :: "json \<Rightarrow> jstr option" where
  "questionOption opt = (if isRecord opt then asNonEmptyString (field opt ''label'') else None)"

definition normalizeQuestion :: "json \<Rightarrow> normalized_question option" where
  "normalizeQuestion q =
     (if \<not> isRecord q then None
      else case asNonEmptyString (field q ''question'') of
          None \<Rightarrow> None
        | Some t \<Rightarrow>
            Some \<lparr>nq_question = t,
                  nq_options = (case field q ''options'' of
                                  Some (JArray os) \<Rightarrow> List.map_filter questionOption os
                                | _ \<Rightarrow> []),
                  nq_multiple = (case field q ''multiple'' of Some (JBool b) \<Rightarrow> Some b | _ \<Rightarrow> None)\<rparr>)"

definition normalizeQuestionAsked :: "json \<Rightarrow> normalized_event option" where
  "normalizeQuestionAsked properties =
     (case (asNonEmptyString (field properties ''sessionID''), asNonEmptyString (field properties ''id''),
            field properties ''questions'') of
        (Some sid, Some rid, Some (JArray qs)) \<Rightarrow>
          (let questions = List.map_filter normalizeQuestion qs
           in if length questions = 0 then None else Some (QuestionAsked sid rid questions))
      | _ \<Rightarrow> None)"

definition or_else :: "'a option \<Rightarrow> 'a option \<Rightarrow> 'a option" where
  "or_else a b = (case a of None \<Rightarrow> b | Some x \<Rightarrow> Some x)"

definition normalizeResolved :: "(jstr \<Rightarrow> jstr \<Rightarrow> normalized_event) \<Rightarrow> json \<Rightarrow> normalized_event option" where
  "normalizeResolved kind properties =
     (case (asNonEmptyString (field properties ''sessionID''),
            or_else (asNonEmptyString (field properties ''requestID'')) (asNonEmptyString (field properties ''permissionID''))) of
        (Some sid, Some rid) \<Rightarrow> Some (kind sid rid)
      | _ \<Rightarrow> None)"

definition normalizePermissionAsked :: "json \<Rightarrow> normalized_event option" where
  "normalizePermissionAsked properties =
     (case (asNonEmptyString (field properties ''sessionID''), asNonEmptyString (field properties ''id''),
            or_else (asNonEmptyString (field properties ''permission'')) (asNonEmptyString (field properties ''type''))) of
        (Some sid, Some rid, Some permission) \<Rightarrow>
          (let patterns = or_else (field properties ''patterns'') (field properties ''pattern'')
           in Some (PermissionAsked sid rid permission (buildPermissionSummary permission patterns)))
      | _ \<Rightarrow> None)"

definition normalizeEvent :: "json \<Rightarrow> normalized_event option" where
  "normalizeEvent event =
     (case (asString (field event ''type''), asRecord (field event ''properties'')) of
        (Some t, Some p) \<Rightarrow>
          if t = js ''session.created'' \<or> t = js ''session.updated'' then
            map_option SessionUpsert (normalizeSessionUpsert p)
          else if t = js ''session.deleted'' then map_option SessionDeleted (normalizeSessionUpsert p)
          else if t = js ''session.status'' then normalizeSessionStatus p
          else if t = js ''session.idle'' then normalizeSessionIdle p
          else if t = js ''session.error'' then Some (normalizeSessionError p)
          else if t = js ''message.updated'' then normalizeMessage p
          else if t = js ''message.part.updated'' then normalizeMessagePart p
          else if t = js ''question.asked'' then normalizeQuestionAsked p
          else if t = js ''question.replied'' \<or> t = js ''question.rejected'' then normalizeResolved QuestionResolved p
          else if t = js ''permission.asked'' \<or> t = js ''permission.updated'' then normalizePermissionAsked p
          else if t = js ''permission.replied'' then normalizeResolved PermissionResolved p
          else None
      | _ \<Rightarrow> None)"

subsection \<open>What a normalised event satisfies\<close>

definition wf_question :: "normalized_question \<Rightarrow> bool" where
  "wf_question q \<longleftrightarrow> nq_question q \<noteq> [] \<and> (\<forall>l \<in> set (nq_options q). l \<noteq> [])"

definition wf_retry_action :: "retry_action \<Rightarrow> bool" where
  "wf_retry_action a \<longleftrightarrow> ra_provider a \<noteq> [] \<and> ra_title a \<noteq> [] \<and> ra_message a \<noteq> [] \<and> ra_label a \<noteq> [] \<and>
     ra_reason a \<noteq> Some [] \<and> ra_link a \<noteq> Some []"

definition wf_normalized :: "normalized_event \<Rightarrow> bool" where
  "wf_normalized ev =
     (case ev of
        SessionUpsert s \<Rightarrow> sf_sessionID s \<noteq> [] \<and> sf_parentID s \<noteq> Some []
      | SessionDeleted s \<Rightarrow> sf_sessionID s \<noteq> [] \<and> sf_parentID s \<noteq> Some []
      | SessionStatus sid st r \<Rightarrow>
          sid \<noteq> [] \<and> (st = RetryStatus \<longleftrightarrow> r \<noteq> None) \<and>
          (\<forall>x a. r = Some x \<and> retry_action x = Some a \<longrightarrow> wf_retry_action a)
      | SessionError sid _ \<Rightarrow> sid \<noteq> Some []
      | MessageRole sid mid _ _ \<Rightarrow> sid \<noteq> [] \<and> mid \<noteq> []
      | MessageText sid mid pid _ \<Rightarrow> sid \<noteq> [] \<and> mid \<noteq> [] \<and> pid \<noteq> []
      | QuestionAsked sid rid qs \<Rightarrow> sid \<noteq> [] \<and> rid \<noteq> [] \<and> qs \<noteq> [] \<and> (\<forall>q \<in> set qs. wf_question q)
      | QuestionResolved sid rid \<Rightarrow> sid \<noteq> [] \<and> rid \<noteq> []
      | PermissionAsked sid rid permission summary \<Rightarrow>
          sid \<noteq> [] \<and> rid \<noteq> [] \<and> permission \<noteq> [] \<and> summary \<noteq> [] \<and> length summary \<le> 200
      | PermissionResolved sid rid \<Rightarrow> sid \<noteq> [] \<and> rid \<noteq> [])"

lemma nonempty_not_Nil: "asNonEmptyString v \<noteq> Some []"
  by (auto dest: asNonEmptyString_nonempty)

lemma summary_bounds:
  "permission \<noteq> [] \<Longrightarrow> buildPermissionSummary permission ps \<noteq> [] \<and> length (buildPermissionSummary permission ps) \<le> 200"
  by (auto simp: buildPermissionSummary_def Let_def PERMISSION_SUMMARY_MAX_LENGTH_def)

lemma set_map_filter: "x \<in> set (List.map_filter f xs) \<Longrightarrow> \<exists>y \<in> set xs. f y = Some x"
  by (induction xs) (auto simp: List.map_filter_simps split: option.splits)

lemma options_nonempty:
  "l \<in> set (case v of Some (JArray os) \<Rightarrow> List.map_filter questionOption os | _ \<Rightarrow> []) \<Longrightarrow> l \<noteq> []"
  by (cases v) (auto simp: questionOption_def split: json.splits if_splits
    dest!: set_map_filter asNonEmptyString_nonempty)

lemma wf_normalizeQuestion: "normalizeQuestion q = Some n \<Longrightarrow> wf_question n"
proof -
  assume "normalizeQuestion q = Some n"
  then obtain t where "asNonEmptyString (field q ''question'') = Some t" "nq_question n = t"
    "nq_options n = (case field q ''options'' of Some (JArray os) \<Rightarrow> List.map_filter questionOption os | _ \<Rightarrow> [])"
    by (cases "asNonEmptyString (field q ''question'')") (auto simp: normalizeQuestion_def split: if_splits)
  then show ?thesis using options_nonempty by (auto simp: wf_question_def dest: asNonEmptyString_nonempty)
qed

lemma wf_upsert:
  "normalizeSessionUpsert p = Some s \<Longrightarrow> sf_sessionID s \<noteq> [] \<and> sf_parentID s \<noteq> Some []"
  using nonempty_not_Nil
  by (auto simp: normalizeSessionUpsert_def split: option.splits dest: asNonEmptyString_nonempty)

lemma wf_retry: "normalizeRetryAction v = Some a \<Longrightarrow> wf_retry_action a"
  by (auto simp: normalizeRetryAction_def wf_retry_action_def nonempty_not_Nil
    split: option.splits dest: asNonEmptyString_nonempty)

lemma wf_status: "normalizeSessionStatus p = Some ev \<Longrightarrow> wf_normalized ev"
  by (auto simp: normalizeSessionStatus_def wf_normalized_def
    split: option.splits if_splits dest: asNonEmptyString_nonempty wf_retry)

lemma wf_idle: "normalizeSessionIdle p = Some ev \<Longrightarrow> wf_normalized ev"
  by (auto simp: normalizeSessionIdle_def wf_normalized_def dest: asNonEmptyString_nonempty)

lemma wf_error: "wf_normalized (normalizeSessionError p)"
  by (simp add: normalizeSessionError_def wf_normalized_def nonempty_not_Nil)

lemma wf_message: "normalizeMessage p = Some ev \<Longrightarrow> wf_normalized ev"
  by (auto simp: normalizeMessage_def wf_normalized_def
    split: option.splits if_splits dest: asNonEmptyString_nonempty)

lemma wf_part: "normalizeMessagePart p = Some ev \<Longrightarrow> wf_normalized ev"
  by (auto simp: normalizeMessagePart_def wf_normalized_def
    split: option.splits if_splits dest: asNonEmptyString_nonempty)

lemma wf_asked: "normalizeQuestionAsked p = Some ev \<Longrightarrow> wf_normalized ev"
  by (auto simp: normalizeQuestionAsked_def wf_normalized_def Let_def
    split: option.splits json.splits if_splits dest: asNonEmptyString_nonempty
    dest!: set_map_filter wf_normalizeQuestion)

lemma wf_resolved:
  "normalizeResolved kind p = Some ev \<Longrightarrow> kind \<in> {QuestionResolved, PermissionResolved} \<Longrightarrow> wf_normalized ev"
  by (auto simp: normalizeResolved_def wf_normalized_def or_else_def
    split: option.splits dest: asNonEmptyString_nonempty)

lemma or_else_nonempty: "or_else (asNonEmptyString v) (asNonEmptyString w) = Some s \<Longrightarrow> s \<noteq> []"
  by (auto simp: or_else_def split: option.splits dest: asNonEmptyString_nonempty)

lemma wf_permission: "normalizePermissionAsked p = Some ev \<Longrightarrow> wf_normalized ev"
proof -
  assume "normalizePermissionAsked p = Some ev"
  then obtain sid rid permission ps where "asNonEmptyString (field p ''sessionID'') = Some sid"
    "asNonEmptyString (field p ''id'') = Some rid"
    "or_else (asNonEmptyString (field p ''permission'')) (asNonEmptyString (field p ''type'')) = Some permission"
    "ev = PermissionAsked sid rid permission (buildPermissionSummary permission ps)"
    by (auto simp: normalizePermissionAsked_def Let_def split: option.splits)
  then show ?thesis
    using or_else_nonempty summary_bounds [of permission ps]
    by (auto simp: wf_normalized_def dest: asNonEmptyString_nonempty)
qed

lemmas wf_cases = wf_upsert wf_status wf_idle wf_error wf_message wf_part wf_asked wf_resolved wf_permission

text \<open>
  Whatever JSON OpenCode sends, a normalised event is well formed: ids, question texts, option labels
  and retry-action fields are nonempty, a question request has at least one question, a retry
  status always and only carries retry data, and a permission summary is nonempty and at most 200 units.
\<close>

theorem normalized_events_well_formed:
  "normalizeEvent event = Some ev \<Longrightarrow> wf_normalized ev"
  using wf_upsert
  by (auto simp: normalizeEvent_def wf_normalized_def [of "SessionUpsert _"] wf_normalized_def [of "SessionDeleted _"]
    split: option.splits if_splits intro: wf_cases)

text \<open>Objects of the examples.\<close>

definition obj :: "(string \<times> json) list \<Rightarrow> json" where
  "obj ps = JObject (map (\<lambda>(k, v). (js k, v)) ps)"

definition str :: "string \<Rightarrow> json" where
  "str s = JString (js s)"

definition sample_permission :: "json list \<Rightarrow> json" where
  "sample_permission metadata =
     obj [(''sessionID'', str ''s1''), (''id'', str ''r1''), (''permission'', str ''bash''),
          (''patterns'', JArray [str ''ls'']), (''metadata'', JArray metadata)]"

lemma field_obj [simp]: "field (obj ps) n = map_of (rev ps) n"
proof -
  have "map_of (map (\<lambda>(k, v). (js k, v)) qs) (js n) = map_of qs n" for qs :: "(string \<times> json) list"
    by (induction qs) auto
  then show ?thesis by (simp add: field_def obj_def rev_map)
qed

lemma isRecord_obj [simp]: "isRecord (obj ps)"
  by (simp add: obj_def isRecord_def)

lemma asString_str [simp]: "asString (Some (str s)) = Some (js s)"
  by (simp add: asString_def str_def)

lemma asNonEmptyString_str [simp]: "asNonEmptyString (Some (str s)) = (if s = [] then None else Some (js s))"
  by (simp add: asNonEmptyString_def str_def)

lemma asRecord_obj [simp]: "asRecord (Some (obj ps)) = Some (obj ps)"
  by (simp add: asRecord_def)

lemma normalized_events_well_formed_witness:
  "\<exists>summary. normalizeEvent (obj [(''type'', str ''permission.asked''), (''properties'', sample_permission [])])
     = Some (PermissionAsked (js ''s1'') (js ''r1'') (js ''bash'') summary) \<and> summary \<noteq> []"
proof -
  obtain summary where ev: "normalizeEvent (obj [(''type'', str ''permission.asked''), (''properties'', sample_permission [])])
     = Some (PermissionAsked (js ''s1'') (js ''r1'') (js ''bash'') summary)"
    by (simp add: normalizeEvent_def sample_permission_def normalizePermissionAsked_def or_else_def)
  from normalized_events_well_formed [OF this] ev show ?thesis by (simp add: wf_normalized_def)
qed

text \<open>
  C39: The privacy rule for permissions: what is normalised of a permission request depends on the session
  id, the request id, the permission name and its patterns only. Two requests that agree on these
  are indistinguishable afterwards, whatever their metadata, title or any other property holds.
\<close>

theorem permission_noninterference:
  assumes "t \<in> {''permission.asked'', ''permission.updated''}"
    "\<forall>n \<in> {''sessionID'', ''id'', ''permission'', ''type'', ''patterns'', ''pattern''}. field p n = field p' n"
    "isRecord p" "isRecord p'"
  shows "normalizeEvent (obj [(''type'', str t), (''properties'', p)])
       = normalizeEvent (obj [(''type'', str t), (''properties'', p')])"
proof -
  have fields: "field p ''sessionID'' = field p' ''sessionID''" "field p ''id'' = field p' ''id''"
    "field p ''permission'' = field p' ''permission''" "field p ''type'' = field p' ''type''"
    "field p ''patterns'' = field p' ''patterns''" "field p ''pattern'' = field p' ''pattern''"
    using assms(2) by simp_all
  have "normalizePermissionAsked p = normalizePermissionAsked p'"
    unfolding normalizePermissionAsked_def fields ..
  moreover have "normalizeEvent (obj [(''type'', str t), (''properties'', q)]) = normalizePermissionAsked q"
    if "isRecord q" for q
    using assms(1) that by (elim insertE emptyE) (simp_all add: normalizeEvent_def asRecord_def)
  ultimately show ?thesis using assms(3,4) by simp
qed

lemma permission_noninterference_witness:
  "normalizeEvent (obj [(''type'', str ''permission.asked''), (''properties'', sample_permission [])])
   = normalizeEvent (obj [(''type'', str ''permission.asked''), (''properties'', sample_permission [str ''rm -rf /''])])"
  by (rule permission_noninterference) (simp_all add: sample_permission_def)

text \<open>
  The cut of a permission summary counts code units, not code points: a text of 198 units, a
  surrogate pair and one more unit is well formed, and its summary ends in half of the pair.
\<close>

theorem permission_summary_splits_pair:
  "well_formed (js (replicate 198 CHR ''a'') @ [0xD83D, 0xDE00] @ js ''b'') \<and>
   \<not> well_formed (buildPermissionSummary (js (replicate 198 CHR ''a'') @ [0xD83D, 0xDE00] @ js ''b'') None)"
proof -
  have js_a: "js (replicate n CHR ''a'') = replicate n 97" "js ''a'' = [97]" for n
    by (simp_all add: js_def)
  have split: "code_points (js (replicate n CHR ''a'') @ t) = replicate n (js ''a'') @ code_points t" if "t \<noteq> []" for n t
    unfolding js_a
  proof (induction n)
    case (Suc n)
    have "replicate n 97 @ t \<noteq> []" using that by simp
    then obtain v us where v: "replicate n 97 @ t = v # us" unfolding neq_Nil_conv by (elim exE)
    have "code_points (97 # v # us) = [97] # code_points (v # us)" by (simp add: high_surrogate_def)
    then show ?case using Suc by (simp only: replicate_Suc append_Cons v)
  qed simp
  let ?p = "js (replicate 198 CHR ''a'') @ [0xD83D, 0xDE00] @ js ''b''"
  have "code_points ([0xD83D, 0xDE00] @ js ''b'') = [[0xD83D, 0xDE00], [98]]"
    by (simp add: js_def high_surrogate_def low_surrogate_def)
  then have "code_points ?p = replicate 198 (js ''a'') @ [[0xD83D, 0xDE00], [98]]" by (simp add: split)
  then have "well_formed ?p"
    by (simp add: well_formed_def list_all_iff set_replicate_conv_if js_def high_surrogate_def low_surrogate_def)
  moreover have "buildPermissionSummary ?p None = js (replicate 198 CHR ''a'') @ [0xD83D, 0x2026]"
    by (simp add: buildPermissionSummary_def PERMISSION_SUMMARY_MAX_LENGTH_def ellipsis_def)
  moreover have "code_points [0xD83D, 0x2026] = [[0xD83D], [0x2026]]"
    by (simp add: high_surrogate_def low_surrogate_def)
  then have "code_points (js (replicate 198 CHR ''a'') @ [0xD83D, 0x2026])
      = replicate 198 (js ''a'') @ [[0xD83D], [0x2026]]" by (simp add: split)
  then have "\<not> well_formed (js (replicate 198 CHR ''a'') @ [0xD83D, 0x2026])"
    by (simp add: well_formed_def high_surrogate_def)
  ultimately show ?thesis by simp
qed

end
