(* ===== verification/JsonText.thy ===== *)
theory JsonText
  imports JsString
begin

section \<open>JSON text of an array of strings\<close>

text \<open>
  \<open>JSON.stringify\<close> on an array of strings, which the plugin hashes as the identity of a provider
  action. The text can be read back: quoting is injective and no string can cross its quotes
  (\<open>stringify_list_inj\<close>).
\<close>

text \<open>\<open>JSON.stringify\<close> on strings: quotes, backslashes, control units and lone surrogates are escaped.\<close>

definition hex_digit :: "nat \<Rightarrow> 16 word" where
  "hex_digit d = word_of_nat (if d < 10 then 48 + d else 87 + d)"

definition hex4 :: "16 word \<Rightarrow> jstr" where
  "hex4 u = (let n = unat u in
     [hex_digit (n div 4096), hex_digit (n div 256 mod 16), hex_digit (n div 16 mod 16), hex_digit (n mod 16)])"

definition escape_unit :: "16 word \<Rightarrow> jstr" where
  "escape_unit u =
     (if u = 0x22 then [0x5C, 0x22]
      else if u = 0x5C then [0x5C, 0x5C]
      else if u = 8 then [0x5C, 0x62]
      else if u = 12 then [0x5C, 0x66]
      else if u = 10 then [0x5C, 0x6E]
      else if u = 13 then [0x5C, 0x72]
      else if u = 9 then [0x5C, 0x74]
      else if u < 0x20 \<or> high_surrogate u \<or> low_surrogate u then [0x5C, 0x75] @ hex4 u
      else [u])"

definition escape_point :: "jstr \<Rightarrow> jstr" where
  "escape_point p = (case p of [u] \<Rightarrow> escape_unit u | _ \<Rightarrow> p)"

definition quote_json :: "jstr \<Rightarrow> jstr" where
  "quote_json s = [0x22] @ concat (map escape_point (code_points s)) @ [0x22]"

definition stringify_list :: "jstr list \<Rightarrow> jstr" where
  "stringify_list ss = [0x5B] @ join_with [0x2C] (map quote_json ss) @ [0x5D]"

subsection \<open>Reading the text back\<close>

lemma unat_hex_digit: "x < 16 \<Longrightarrow> unat (hex_digit x) = (if x < 10 then 48 + x else 87 + x)"
  by (simp add: hex_digit_def unat_of_nat del: of_nat_add)

lemma hex_digit_inj:
  assumes "d < 16" "d' < 16" "hex_digit d = hex_digit d'"
  shows "d = d'"
proof -
  have "unat (hex_digit d) = unat (hex_digit d')" by (simp only: assms(3))
  then have "(if d < 10 then 48 + d else 87 + d) = (if d' < 10 then 48 + d' else 87 + d')"
    by (simp only: unat_hex_digit [OF assms(1)] unat_hex_digit [OF assms(2)])
  then show ?thesis using assms(1,2) by (simp split: if_splits)
qed

lemma length_hex4 [simp]: "length (hex4 u) = 4"
  by (simp add: hex4_def Let_def)

lemma hex4_inj: "hex4 u = hex4 v \<Longrightarrow> u = v"
proof -
  assume eq: "hex4 u = hex4 v"
  have lt: "unat w div 4096 < 16" for w :: "16 word"
  proof -
    have "unat w < 65536" using unsigned_less [of w, where 'a = nat] by simp
    then show ?thesis by (simp add: less_mult_imp_div_less)
  qed
  from eq have hd: "hex_digit (unat u div 4096) = hex_digit (unat v div 4096)"
    "hex_digit (unat u div 256 mod 16) = hex_digit (unat v div 256 mod 16)"
    "hex_digit (unat u div 16 mod 16) = hex_digit (unat v div 16 mod 16)"
    "hex_digit (unat u mod 16) = hex_digit (unat v mod 16)" by (simp_all add: hex4_def Let_def)
  have nib: "unat u div 4096 = unat v div 4096" "unat u div 256 mod 16 = unat v div 256 mod 16"
    "unat u div 16 mod 16 = unat v div 16 mod 16" "unat u mod 16 = unat v mod 16"
    using hex_digit_inj [OF lt lt hd(1)] hex_digit_inj [OF _ _ hd(2)] hex_digit_inj [OF _ _ hd(3)]
      hex_digit_inj [OF _ _ hd(4)] by simp_all
  have digit: "m div 16 = n div 16 \<Longrightarrow> m mod 16 = n mod 16 \<Longrightarrow> m = n" for m n :: nat
    by (metis div_mult_mod_eq)
  have div: "n div 4096 = n div 256 div 16" "n div 256 = n div 16 div 16" for n :: nat
    by (simp_all add: div_mult2_eq [symmetric])
  have "unat u div 256 = unat v div 256" using digit nib(1,2) unfolding div(1) by blast
  then have "unat u div 16 = unat v div 16" using digit nib(3) unfolding div(2) by blast
  then have "unat u = unat v" using digit nib(4) by blast
  then show ?thesis by (simp add: word_unat_eq_iff)
qed

lemma hex4_append: "hex4 u @ x = hex4 v @ y \<longleftrightarrow> u = v \<and> x = y"
  using hex4_inj by auto

lemma escape_unit_cases:
  obtains (raw) "escape_unit u = [u]" "u \<noteq> 0x22" "u \<noteq> 0x5C" "\<not> high_surrogate u"
  | (short) c where "escape_unit u = [0x5C, c]" "c \<noteq> 0x75"
      "u = (if c = 0x62 then 8 else if c = 0x66 then 12 else if c = 0x6E then 10 else if c = 0x72 then 13
            else if c = 0x74 then 9 else c)"
  | (long) "escape_unit u = [0x5C, 0x75] @ hex4 u"
proof -
  consider "u \<in> {0x22, 0x5C, 8, 12, 10, 13, 9}" | "u \<notin> {0x22, 0x5C, 8, 12, 10, 13, 9}" by blast
  then show thesis
  proof cases
    case 1
    then show ?thesis
      using short [of "0x22"] short [of "0x5C"] short [of "0x62"] short [of "0x66"]
        short [of "0x6E"] short [of "0x72"] short [of "0x74"]
      by (elim insertE emptyE) (simp_all add: escape_unit_def)
  next
    case 2
    then show ?thesis
    proof (cases "u < 0x20 \<or> high_surrogate u \<or> low_surrogate u")
      case True
      with 2 show ?thesis by (intro long) (simp add: escape_unit_def)
    next
      case False
      with 2 show ?thesis by (intro raw) (simp_all add: escape_unit_def)
    qed
  qed
qed

lemma escape_unit_inj:
  assumes "escape_unit u @ x = escape_unit v @ y"
  shows "u = v \<and> x = y"
proof (cases u rule: escape_unit_cases)
  case raw
  with assms show ?thesis by (cases v rule: escape_unit_cases) auto
next
  case (short c)
  with assms show ?thesis by (cases v rule: escape_unit_cases) auto
next
  case long
  with assms show ?thesis by (cases v rule: escape_unit_cases) (auto simp: hex4_append)
qed

lemma escape_unit_head:
  obtains a z where "escape_unit u = a # z" "a \<noteq> 0x22" "\<not> high_surrogate a"
  by (cases u rule: escape_unit_cases) (auto simp: high_surrogate_def)

text \<open>A code point: one unit, or a surrogate pair.\<close>

definition is_point :: "jstr \<Rightarrow> bool" where
  "is_point p \<longleftrightarrow> (\<exists>u. p = [u]) \<or> (\<exists>u v. p = [u, v] \<and> high_surrogate u \<and> low_surrogate v)"

lemma code_points_are_points: "p \<in> set (code_points s) \<Longrightarrow> is_point p"
  by (induction s rule: code_points.induct) (auto simp: is_point_def split: if_splits)

lemma escape_pair: "escape_point [u, v] = [u, v]" "escape_point [u] = escape_unit u"
  by (simp_all add: escape_point_def)

lemma escape_unit_not_pair:
  assumes "u # z = escape_unit w @ y" "high_surrogate u"
  shows False
  using assms by (cases w rule: escape_unit_head) auto

lemma escape_point_inj:
  assumes p: "is_point p" and q: "is_point q" and eq: "escape_point p @ x = escape_point q @ y"
  shows "p = q \<and> x = y"
proof -
  consider (uu) u w where "p = [u]" "q = [w]" | (up) u w w' where "p = [u]" "q = [w, w']" "high_surrogate w"
    | (pu) u u' w where "p = [u, u']" "high_surrogate u" "q = [w]" | (pp) u u' w w' where "p = [u, u']" "q = [w, w']"
    using p q unfolding is_point_def by blast
  then show ?thesis
  proof cases
    case uu
    with eq escape_unit_inj show ?thesis by (simp add: escape_pair)
  next
    case up
    with eq escape_unit_not_pair [of w "w' # y" u x] show ?thesis by (simp add: escape_pair)
  next
    case pu
    with eq escape_unit_not_pair [of u "u' # x" w y] show ?thesis by (simp add: escape_pair)
  next
    case pp
    with eq show ?thesis by (simp add: escape_pair)
  qed
qed

lemma escape_point_head:
  assumes "is_point p"
  obtains a z where "escape_point p = a # z" "a \<noteq> 0x22"
proof -
  consider u where "p = [u]" | u v where "p = [u, v]" "high_surrogate u" using assms by (auto simp: is_point_def)
  then show thesis
  proof cases
    case 1
    then show ?thesis using that escape_unit_head [of u] by (metis escape_pair(2))
  next
    case 2
    then have "u \<noteq> 0x22" by (auto simp: high_surrogate_def)
    with 2 that show ?thesis by (simp add: escape_pair)
  qed
qed

lemma escape_points_inj:
  assumes "\<forall>p \<in> set ps. is_point p" "\<forall>p \<in> set qs. is_point p"
    and "concat (map escape_point ps) @ 0x22 # x = concat (map escape_point qs) @ 0x22 # y"
  shows "ps = qs \<and> x = y"
  using assms
proof (induction ps arbitrary: qs)
  case Nil
  show ?case
  proof (cases qs)
    case (Cons q qs')
    with Nil obtain a z where "escape_point q = a # z" "a \<noteq> 0x22" by (metis escape_point_head list.set_intros(1))
    with Nil Cons show ?thesis by simp
  qed (use Nil in simp)
next
  case (Cons p ps)
  show ?case
  proof (cases qs)
    case Nil
    from Cons.prems obtain a z where "escape_point p = a # z" "a \<noteq> 0x22" by (metis escape_point_head list.set_intros(1))
    with Nil Cons.prems show ?thesis by simp
  next
    case (Cons q qs')
    have "p = q \<and> concat (map escape_point ps) @ 0x22 # x = concat (map escape_point qs') @ 0x22 # y"
      by (rule escape_point_inj) (use Cons Cons.prems in simp_all)
    with Cons.IH [of qs'] Cons.prems Cons show ?thesis by simp
  qed
qed

lemma quote_json_inj:
  assumes "quote_json s @ x = quote_json t @ y"
  shows "s = t \<and> x = y"
proof -
  have "code_points s = code_points t \<and> x = y"
    using escape_points_inj [of "code_points s" "code_points t" x y] assms code_points_are_points
    by (simp add: quote_json_def)
  then show ?thesis by (metis concat_code_points)
qed

lemma join_quoted_inj:
  assumes "length ss = length ts"
    and "join_with [0x2C] (map quote_json ss) @ x = join_with [0x2C] (map quote_json ts) @ y"
  shows "ss = ts"
  using assms
proof (induction ss ts rule: list_induct2)
  case (Cons s ss t ts)
  show ?case
  proof (cases "ss = []")
    case True
    with Cons.hyps have "ts = []" by simp
    with True Cons.prems show ?thesis using quote_json_inj [of s x t y] by simp
  next
    case False
    with Cons.hyps have ne: "map quote_json ss \<noteq> []" "map quote_json ts \<noteq> []" by auto
    from Cons.prems have "quote_json s @ [0x2C] @ join_with [0x2C] (map quote_json ss) @ x
        = quote_json t @ [0x2C] @ join_with [0x2C] (map quote_json ts) @ y"
      by (simp add: join_with_Cons [OF ne(1)] join_with_Cons [OF ne(2)])
    from quote_json_inj [OF this] have "s = t"
      "join_with [0x2C] (map quote_json ss) @ x = join_with [0x2C] (map quote_json ts) @ y" by simp_all
    with Cons.IH show ?thesis by simp
  qed
qed simp

lemma stringify_list_inj: "length ss = length ts \<Longrightarrow> stringify_list ss = stringify_list ts \<Longrightarrow> ss = ts"
  by (rule join_quoted_inj [of ss ts "[0x5D]" "[0x5D]"]) (simp_all add: stringify_list_def)

end
