(* ===== verification/SessionMachine.thy ===== *)
theory SessionMachine
  imports Events JsonText
begin

section \<open>The busy/idle machine of a session\<close>

text \<open>
  \<open>packages/plugin/src/state-machine.ts\<close>. A session is an object (\<open>session_state\<close>) on a small heap,
  because timer callbacks capture the object and not its id: a callback could outlive the session.
  \<open>sessions\<close> maps ids to objects in insertion order; \<open>timers\<close> is what the injected scheduler still
  holds. The callbacks of the options are not reentrant here: what they are called with is the
  output list of an operation, in order. Every operation takes the answer \<open>t\<close> of \<open>scheduler.now()\<close>,
  which may go backwards.

  The machine refines a phase machine of four phases per session (\<open>phase\<close>); the properties of
  rounds, elapsed times, timers and action requests follow from it.
\<close>

subsection \<open>Data\<close>

datatype session_status = SBusy | SRetry | SIdle

datatype terminal_outcome = OCompleted | OFailed | OStopped

datatype pending_kind = KQuestion | KPermission | KProvider

fun OUTCOME_RANK :: "terminal_outcome \<Rightarrow> nat" where
  "OUTCOME_RANK OCompleted = 1"
| "OUTCOME_RANK OFailed = 2"
| "OUTCOME_RANK OStopped = 3"

record session_state =
  status :: session_status
  busySince :: "int option"
  idleTimer :: "nat option"
  pendingElapsedMs :: "int option"
  heartbeatTimer :: "nat option"
  terminalSent :: bool
  terminalOutcome :: "terminal_outcome option"
  pendingActions :: "(jstr, pending_kind) jsmap"

datatype timer_kind = DebounceTimer | HeartbeatTimer

record timer =
  timer_kind :: timer_kind
  timer_delay :: int
  timer_session :: jstr
  timer_object :: nat

record machine_options =
  idleDebounceMs :: int
  heartbeatMs :: int
  observesHeartbeat :: bool

record machine =
  sessions :: "(jstr, nat) jsmap"
  heap :: "nat \<Rightarrow> session_state"
  next_object :: nat
  timers :: "nat \<Rightarrow> timer option"
  next_handle :: nat

text \<open>\<open>providerAction\<close> of an effect; the reason is identity only.\<close>

record provider_details =
  pd_provider :: jstr
  pd_title :: jstr
  pd_message :: jstr
  pd_label :: jstr
  pd_link :: "jstr option"

datatype machine_effect =
    Completed jstr int
  | Heartbeat jstr session_status int
  | FailedTerminal jstr int
  | StoppedTerminal jstr int
  | QuestionRequired jstr jstr "normalized_question list"
  | PermissionRequired jstr jstr jstr jstr
  | ProviderRequired jstr jstr provider_details
  | ActionResolved jstr jstr pending_kind

definition fresh_state :: session_state where
  "fresh_state = \<lparr>status = SIdle, busySince = None, idleTimer = None, pendingElapsedMs = None,
     heartbeatTimer = None, terminalSent = False, terminalOutcome = None, pendingActions = []\<rparr>"

definition newMachine :: machine where
  "newMachine = \<lparr>sessions = [], heap = \<lambda>_. fresh_state, next_object = 0, timers = \<lambda>_. None, next_handle = 0\<rparr>"

subsection \<open>The key of a provider action\<close>

text \<open>The identity of a provider action, and its key: \<open>sha\<close> is SHA-256 in hexadecimal.\<close>

definition provider_identity :: "jstr \<Rightarrow> retry_action \<Rightarrow> jstr list" where
  "provider_identity sessionID a =
     [sessionID, ra_provider a, (case ra_reason a of Some r \<Rightarrow> r | None \<Rightarrow> ra_title a), ra_label a]"

definition providerActionKey :: "(jstr \<Rightarrow> jstr) \<Rightarrow> jstr \<Rightarrow> retry_action \<Rightarrow> jstr" where
  "providerActionKey sha sessionID a =
     js ''provider:'' @ sha (stringify_list (provider_identity sessionID a))"

subsection \<open>Scheduler and heap\<close>

definition setTimeout :: "timer \<Rightarrow> machine \<Rightarrow> nat \<times> machine" where
  "setTimeout t m =
     (next_handle m, m\<lparr>timers := (timers m)(next_handle m := Some t), next_handle := Suc (next_handle m)\<rparr>)"

definition clearTimeout :: "nat \<Rightarrow> machine \<Rightarrow> machine" where
  "clearTimeout h m = m\<lparr>timers := (timers m)(h := None)\<rparr>"

definition modify :: "nat \<Rightarrow> (session_state \<Rightarrow> session_state) \<Rightarrow> machine \<Rightarrow> machine" where
  "modify ob f m = m\<lparr>heap := (heap m)(ob := f (heap m ob))\<rparr>"

definition stateFor :: "jstr \<Rightarrow> machine \<Rightarrow> nat \<times> machine" where
  "stateFor sessionID m =
     (case map_get (sessions m) sessionID of
        Some ob \<Rightarrow> (ob, m)
      | None \<Rightarrow> (next_object m,
          m\<lparr>heap := (heap m)(next_object m := fresh_state),
            sessions := map_set sessionID (next_object m) (sessions m),
            next_object := Suc (next_object m)\<rparr>))"

subsection \<open>Timers of a session\<close>

text \<open>\<open>if (state.idleTimer !== null) { clearTimeout; idleTimer = null }\<close>, and the heartbeat's.\<close>

definition cancelIdle :: "nat \<Rightarrow> machine \<Rightarrow> machine" where
  "cancelIdle ob m =
     (case idleTimer (heap m ob) of
        None \<Rightarrow> m
      | Some h \<Rightarrow> modify ob (\<lambda>s. s\<lparr>idleTimer := None\<rparr>) (clearTimeout h m))"

definition clearHeartbeat :: "nat \<Rightarrow> machine \<Rightarrow> machine" where
  "clearHeartbeat ob m =
     (case heartbeatTimer (heap m ob) of
        None \<Rightarrow> m
      | Some h \<Rightarrow> modify ob (\<lambda>s. s\<lparr>heartbeatTimer := None\<rparr>) (clearTimeout h m))"

definition armHeartbeat :: "machine_options \<Rightarrow> jstr \<Rightarrow> nat \<Rightarrow> machine \<Rightarrow> machine" where
  "armHeartbeat opts sessionID ob m =
     (if \<not> observesHeartbeat opts \<or> heartbeatTimer (heap m ob) \<noteq> None then m
      else let (h, m') = setTimeout \<lparr>timer_kind = HeartbeatTimer, timer_delay = heartbeatMs opts,
                 timer_session = sessionID, timer_object = ob\<rparr> m
           in modify ob (\<lambda>s. s\<lparr>heartbeatTimer := Some h\<rparr>) m')"

subsection \<open>Rounds\<close>

definition elapsed :: "int \<Rightarrow> int option \<Rightarrow> int" where
  "elapsed t since = (case since of None \<Rightarrow> 0 | Some b \<Rightarrow> max 0 (t - b))"

definition onActive :: "machine_options \<Rightarrow> int \<Rightarrow> jstr \<Rightarrow> session_status \<Rightarrow> machine \<Rightarrow> machine" where
  "onActive opts t sessionID st m =
     (let (ob, m1) = stateFor sessionID m;
          m2 = modify ob (\<lambda>s. s\<lparr>pendingElapsedMs := None\<rparr>) (cancelIdle ob m1);
          m3 = (if busySince (heap m2 ob) = None
                then modify ob (\<lambda>s. s\<lparr>busySince := Some t, terminalSent := False, terminalOutcome := None\<rparr>) m2
                else m2)
      in armHeartbeat opts sessionID ob (modify ob (\<lambda>s. s\<lparr>status := st\<rparr>) m3))"

definition completePendingIdle :: "jstr \<Rightarrow> nat \<Rightarrow> machine \<Rightarrow> machine \<times> machine_effect list" where
  "completePendingIdle sessionID ob m =
     (if terminalSent (heap m ob) then (m, [])
      else (modify ob (\<lambda>s. s\<lparr>terminalSent := True, terminalOutcome := Some OCompleted, busySince := None,
                          pendingActions := [], pendingElapsedMs := None\<rparr>) m,
            [Completed sessionID (case pendingElapsedMs (heap m ob) of Some e \<Rightarrow> e | None \<Rightarrow> 0)]))"

definition onIdle :: "machine_options \<Rightarrow> int \<Rightarrow> jstr \<Rightarrow> machine \<Rightarrow> machine" where
  "onIdle opts t sessionID m =
     (let (ob, m1) = stateFor sessionID m;
          m2 = clearHeartbeat ob (modify ob (\<lambda>s. s\<lparr>status := SIdle\<rparr>) m1)
      in if idleTimer (heap m2 ob) \<noteq> None then m2
         else if terminalSent (heap m2 ob) then m2
         else let m3 = modify ob (\<lambda>s. s\<lparr>pendingElapsedMs := Some (elapsed t (busySince s))\<rparr>) m2;
                  (h, m4) = setTimeout \<lparr>timer_kind = DebounceTimer, timer_delay = idleDebounceMs opts,
                    timer_session = sessionID, timer_object = ob\<rparr> m3
              in modify ob (\<lambda>s. s\<lparr>idleTimer := Some h\<rparr>) m4)"

definition onTerminalSignal ::
    "int \<Rightarrow> jstr \<Rightarrow> terminal_outcome \<Rightarrow> machine \<Rightarrow> machine \<times> machine_effect list" where
  "onTerminalSignal t sessionID outcome m =
     (let (ob, m1) = stateFor sessionID m;
          e = (case pendingElapsedMs (heap m1 ob) of
                 Some e \<Rightarrow> e
               | None \<Rightarrow> elapsed t (busySince (heap m1 ob)));
          m2 = clearHeartbeat ob (modify ob (\<lambda>s. s\<lparr>pendingElapsedMs := None\<rparr>) (cancelIdle ob m1));
          m3 = modify ob (\<lambda>s. s\<lparr>busySince := None, status := SIdle, pendingActions := []\<rparr>) m2;
          outranks = (case terminalOutcome (heap m3 ob) of
                        None \<Rightarrow> True
                      | Some old \<Rightarrow> OUTCOME_RANK old < OUTCOME_RANK outcome);
          m4 = (if outranks then modify ob (\<lambda>s. s\<lparr>terminalOutcome := Some outcome\<rparr>) m3 else m3)
      in if terminalSent (heap m4 ob) then (m4, [])
         else (modify ob (\<lambda>s. s\<lparr>terminalSent := True\<rparr>) m4,
               [if outcome = OFailed then FailedTerminal sessionID e else StoppedTerminal sessionID e]))"

subsection \<open>Timer callbacks\<close>

definition onIdleTimer :: "jstr \<Rightarrow> nat \<Rightarrow> machine \<Rightarrow> machine \<times> machine_effect list" where
  "onIdleTimer sessionID ob m = completePendingIdle sessionID ob (modify ob (\<lambda>s. s\<lparr>idleTimer := None\<rparr>) m)"

definition onHeartbeatTick ::
    "machine_options \<Rightarrow> int \<Rightarrow> jstr \<Rightarrow> nat \<Rightarrow> machine \<Rightarrow> machine \<times> machine_effect list" where
  "onHeartbeatTick opts t sessionID ob m =
     (let m1 = modify ob (\<lambda>s. s\<lparr>heartbeatTimer := None\<rparr>) m;
          s = heap m1 ob;
          out = (if busySince s \<noteq> None \<and> status s \<noteq> SIdle \<and> observesHeartbeat opts
                 then [Heartbeat sessionID (status s) (elapsed t (busySince s))] else [])
      in (if map_get (sessions m1) sessionID = Some ob \<and> busySince s \<noteq> None \<and> status s \<noteq> SIdle
             \<and> heartbeatTimer s = None
          then armHeartbeat opts sessionID ob m1 else m1, out))"

text \<open>The scheduler runs the callback of a timer it still holds, and forgets the timer.\<close>

definition fire :: "machine_options \<Rightarrow> int \<Rightarrow> nat \<Rightarrow> machine \<Rightarrow> machine \<times> machine_effect list" where
  "fire opts t h m =
     (case timers m h of
        None \<Rightarrow> (m, [])
      | Some tm \<Rightarrow>
          let m1 = clearTimeout h m in
          case timer_kind tm of
            DebounceTimer \<Rightarrow> onIdleTimer (timer_session tm) (timer_object tm) m1
          | HeartbeatTimer \<Rightarrow> onHeartbeatTick opts t (timer_session tm) (timer_object tm) m1)"

subsection \<open>Action requests\<close>

definition clearPendingProviderAction :: "nat \<Rightarrow> machine \<Rightarrow> machine" where
  "clearPendingProviderAction ob m =
     modify ob (\<lambda>s. s\<lparr>pendingActions := filter (\<lambda>(_, k). k \<noteq> KProvider) (pendingActions s)\<rparr>) m"

definition onBusy :: "machine_options \<Rightarrow> int \<Rightarrow> jstr \<Rightarrow> machine \<Rightarrow> machine" where
  "onBusy opts t sessionID m =
     (let (ob, m1) = stateFor sessionID (onActive opts t sessionID SBusy m)
      in clearPendingProviderAction ob m1)"

definition onProviderAction ::
    "(jstr \<Rightarrow> jstr) \<Rightarrow> jstr \<Rightarrow> retry_action \<Rightarrow> machine \<Rightarrow> machine \<times> machine_effect list" where
  "onProviderAction sha sessionID action m =
     (let (ob, m1) = stateFor sessionID m;
          requestId = providerActionKey sha sessionID action
      in if map_get (pendingActions (heap m1 ob)) requestId = Some KProvider then (m1, [])
         else (modify ob (\<lambda>s. s\<lparr>pendingActions := map_set requestId KProvider (pendingActions s)\<rparr>)
                 (clearPendingProviderAction ob m1),
               [ProviderRequired sessionID requestId
                  \<lparr>pd_provider = ra_provider action, pd_title = ra_title action, pd_message = ra_message action,
                   pd_label = ra_label action, pd_link = ra_link action\<rparr>]))"

definition onRetry ::
    "(jstr \<Rightarrow> jstr) \<Rightarrow> machine_options \<Rightarrow> int \<Rightarrow> jstr \<Rightarrow> retry_action option \<Rightarrow> machine
      \<Rightarrow> machine \<times> machine_effect list" where
  "onRetry sha opts t sessionID action m =
     (let m1 = onActive opts t sessionID SRetry m in
      case action of None \<Rightarrow> (m1, []) | Some a \<Rightarrow> onProviderAction sha sessionID a m1)"

definition action_key :: "pending_kind \<Rightarrow> jstr \<Rightarrow> jstr" where
  "action_key k requestID = (if k = KQuestion then js ''question:'' else js ''permission:'') @ requestID"

definition onAsked ::
    "jstr \<Rightarrow> pending_kind \<Rightarrow> jstr \<Rightarrow> machine_effect \<Rightarrow> machine \<Rightarrow> machine \<times> machine_effect list" where
  "onAsked sessionID kind requestID eff m =
     (let (ob, m1) = stateFor sessionID m; key = action_key kind requestID
      in if map_has (pendingActions (heap m1 ob)) key then (m1, [])
         else (modify ob (\<lambda>s. s\<lparr>pendingActions := map_set key kind (pendingActions s)\<rparr>) m1, [eff]))"

definition onQuestionAsked ::
    "jstr \<Rightarrow> jstr \<Rightarrow> normalized_question list \<Rightarrow> machine \<Rightarrow> machine \<times> machine_effect list" where
  "onQuestionAsked sessionID requestID questions m =
     onAsked sessionID KQuestion requestID (QuestionRequired sessionID requestID questions) m"

definition onPermissionAsked ::
    "jstr \<Rightarrow> jstr \<Rightarrow> jstr \<Rightarrow> jstr \<Rightarrow> machine \<Rightarrow> machine \<times> machine_effect list" where
  "onPermissionAsked sessionID requestID perm summ m =
     onAsked sessionID KPermission requestID (PermissionRequired sessionID requestID perm summ) m"

definition onResolved ::
    "jstr \<Rightarrow> pending_kind \<Rightarrow> jstr \<Rightarrow> machine \<Rightarrow> machine \<times> machine_effect list" where
  "onResolved sessionID kind requestID m =
     (let (ob, m1) = stateFor sessionID m; key = action_key kind requestID
      in if map_get (pendingActions (heap m1 ob)) key \<noteq> Some kind then (m1, [])
         else (modify ob (\<lambda>s. s\<lparr>pendingActions := map_delete key (pendingActions s)\<rparr>) m1,
               [ActionResolved sessionID requestID kind]))"

subsection \<open>Shutdown\<close>

text \<open>
  The loops run over the map while the body changes objects; \<open>disposeSession\<close> deletes only the key
  the iteration has just given, which a JavaScript map iterator allows.
\<close>

fun flush_from :: "(jstr \<times> nat) list \<Rightarrow> machine \<Rightarrow> machine \<times> machine_effect list" where
  "flush_from [] m = (m, [])"
| "flush_from ((sessionID, ob) # rest) m =
     (case idleTimer (heap m ob) of
        None \<Rightarrow> flush_from rest m
      | Some _ \<Rightarrow>
          let (m1, out) = completePendingIdle sessionID ob (cancelIdle ob m);
              (m2, out') = flush_from rest m1
          in (m2, out @ out'))"

definition flushPendingCompletions :: "machine \<Rightarrow> machine \<times> machine_effect list" where
  "flushPendingCompletions m = flush_from (sessions m) m"

definition disposeSession :: "jstr \<Rightarrow> machine \<Rightarrow> machine" where
  "disposeSession sessionID m =
     (let m1 = (case map_get (sessions m) sessionID of
                  None \<Rightarrow> m
                | Some ob \<Rightarrow> clearHeartbeat ob (cancelIdle ob m))
      in m1\<lparr>sessions := map_delete sessionID (sessions m1)\<rparr>)"

definition disposeAll :: "machine \<Rightarrow> machine" where
  "disposeAll m = fold disposeSession (map_keys (sessions m)) m"

subsection \<open>Runs\<close>

datatype machine_op =
    Busy jstr
  | Retry jstr "retry_action option"
  | Idle jstr
  | Fail jstr
  | Stop jstr
  | AskQuestion jstr jstr "normalized_question list"
  | AskPermission jstr jstr jstr jstr
  | ResolveQuestion jstr jstr
  | ResolvePermission jstr jstr
  | Fire nat
  | Flush
  | Dispose jstr
  | DisposeAll

fun machine_step ::
    "(jstr \<Rightarrow> jstr) \<Rightarrow> machine_options \<Rightarrow> int \<Rightarrow> machine_op \<Rightarrow> machine \<Rightarrow> machine \<times> machine_effect list" where
  "machine_step sha opts t (Busy s) m = (onBusy opts t s m, [])"
| "machine_step sha opts t (Retry s a) m = onRetry sha opts t s a m"
| "machine_step sha opts t (Idle s) m = (onIdle opts t s m, [])"
| "machine_step sha opts t (Fail s) m = onTerminalSignal t s OFailed m"
| "machine_step sha opts t (Stop s) m = onTerminalSignal t s OStopped m"
| "machine_step sha opts t (AskQuestion s r qs) m = onQuestionAsked s r qs m"
| "machine_step sha opts t (AskPermission s r p y) m = onPermissionAsked s r p y m"
| "machine_step sha opts t (ResolveQuestion s r) m = onResolved s KQuestion r m"
| "machine_step sha opts t (ResolvePermission s r) m = onResolved s KPermission r m"
| "machine_step sha opts t (Fire h) m = fire opts t h m"
| "machine_step sha opts t Flush m = flushPendingCompletions m"
| "machine_step sha opts t (Dispose s) m = (disposeSession s m, [])"
| "machine_step sha opts t DisposeAll m = (disposeAll m, [])"

fun machine_run ::
    "(jstr \<Rightarrow> jstr) \<Rightarrow> machine_options \<Rightarrow> (int \<times> machine_op) list \<Rightarrow> machine \<Rightarrow> machine \<times> machine_effect list" where
  "machine_run sha opts [] m = (m, [])"
| "machine_run sha opts ((t, op) # ops) m =
     (let (m1, out) = machine_step sha opts t op m;
          (m2, out') = machine_run sha opts ops m1
      in (m2, out @ out'))"

end
