(* ===== verification/SessionRounds.thy ===== *)
theory SessionRounds
  imports SessionMachine
begin

section \<open>Rounds: what the session machine promises\<close>

text \<open>
  The abstract machine of a session has four phases and knows no timers: \<open>Fresh\<close> (nothing observed),
  \<open>Working\<close> since a time, \<open>Settling\<close> (idle, the elapsed time frozen, the debounce running) and \<open>Ended\<close>.
  \<open>machine_refines_phases\<close> shows that the record-and-timer machine of \<open>SessionMachine\<close> is this machine for
  every session, with the timers exactly those of its phases; the other properties are read off it.
\<close>

subsection \<open>The phase machine\<close>

datatype phase = Fresh | Working session_status int | Settling int "int option" | Ended terminal_outcome

datatype session_event =
    EBusy
  | ERetry "retry_action option"
  | EIdle
  | ETerminal terminal_outcome
  | EAsk pending_kind jstr machine_effect
  | EResolve pending_kind jstr
  | EDebounce
  | ETick
  | EDispose

type_synonym spec_state = "phase \<times> (jstr, pending_kind) jsmap"

definition activate :: "int \<Rightarrow> session_status \<Rightarrow> phase \<Rightarrow> phase" where
  "activate t st ph =
     (case ph of
        Working _ b \<Rightarrow> Working st b
      | Settling _ (Some b) \<Rightarrow> Working st b
      | _ \<Rightarrow> Working st t)"

definition settle_idle :: "int \<Rightarrow> phase \<Rightarrow> phase" where
  "settle_idle t ph =
     (case ph of
        Fresh \<Rightarrow> Settling 0 None
      | Working _ b \<Rightarrow> Settling (max 0 (t - b)) (Some b)
      | _ \<Rightarrow> ph)"

definition end_round :: "int \<Rightarrow> jstr \<Rightarrow> terminal_outcome \<Rightarrow> phase \<Rightarrow> phase \<times> machine_effect list" where
  "end_round t sid out ph =
     (let emit = (\<lambda>e. [if out = OFailed then FailedTerminal sid e else StoppedTerminal sid e]) in
      case ph of
        Ended old \<Rightarrow> (Ended (if OUTCOME_RANK old < OUTCOME_RANK out then out else old), [])
      | Fresh \<Rightarrow> (Ended out, emit 0)
      | Working _ b \<Rightarrow> (Ended out, emit (max 0 (t - b)))
      | Settling e _ \<Rightarrow> (Ended out, emit e))"

definition without_provider :: "(jstr, pending_kind) jsmap \<Rightarrow> (jstr, pending_kind) jsmap" where
  "without_provider pa = filter (\<lambda>(_, k). k \<noteq> KProvider) pa"

definition request_provider ::
    "(jstr \<Rightarrow> jstr) \<Rightarrow> jstr \<Rightarrow> retry_action \<Rightarrow> (jstr, pending_kind) jsmap
      \<Rightarrow> (jstr, pending_kind) jsmap \<times> machine_effect list" where
  "request_provider sha sid a pa =
     (let key = providerActionKey sha sid a in
      if map_get pa key = Some KProvider then (pa, [])
      else (map_set key KProvider (without_provider pa),
            [ProviderRequired sid key
               \<lparr>pd_provider = ra_provider a, pd_title = ra_title a, pd_message = ra_message a,
                pd_label = ra_label a, pd_link = ra_link a\<rparr>]))"

fun spec_step ::
    "(jstr \<Rightarrow> jstr) \<Rightarrow> int \<Rightarrow> jstr \<Rightarrow> session_event \<Rightarrow> spec_state \<Rightarrow> spec_state \<times> machine_effect list" where
  "spec_step sha t sid EBusy (ph, pa) = ((activate t SBusy ph, without_provider pa), [])"
| "spec_step sha t sid (ERetry None) (ph, pa) = ((activate t SRetry ph, pa), [])"
| "spec_step sha t sid (ERetry (Some a)) (ph, pa) =
     (let (pa', out) = request_provider sha sid a pa in ((activate t SRetry ph, pa'), out))"
| "spec_step sha t sid EIdle (ph, pa) = ((settle_idle t ph, pa), [])"
| "spec_step sha t sid (ETerminal oc) (ph, pa) = (let (ph', out) = end_round t sid oc ph in ((ph', []), out))"
| "spec_step sha t sid (EAsk k r eff) (ph, pa) =
     (if map_has pa (action_key k r) then ((ph, pa), [])
      else ((ph, map_set (action_key k r) k pa), [eff]))"
| "spec_step sha t sid (EResolve k r) (ph, pa) =
     (if map_get pa (action_key k r) \<noteq> Some k then ((ph, pa), [])
      else ((ph, map_delete (action_key k r) pa), [ActionResolved sid r k]))"
| "spec_step sha t sid EDebounce (ph, pa) =
     (case ph of
        Settling e _ \<Rightarrow> ((Ended OCompleted, []), [Completed sid e])
      | _ \<Rightarrow> ((ph, pa), []))"
| "spec_step sha t sid ETick (ph, pa) =
     ((ph, pa), case ph of Working st b \<Rightarrow> [Heartbeat sid st (max 0 (t - b))] | _ \<Rightarrow> [])"
| "spec_step sha t sid EDispose (ph, pa) = ((Fresh, []), [])"

text \<open>All sessions side by side.\<close>

type_synonym spec_machine = "jstr \<Rightarrow> spec_state"

definition spec_init :: spec_machine where
  "spec_init = (\<lambda>_. (Fresh, []))"

fun spec_run ::
    "(jstr \<Rightarrow> jstr) \<Rightarrow> (int \<times> jstr \<times> session_event) list \<Rightarrow> spec_machine \<Rightarrow> spec_machine \<times> machine_effect list" where
  "spec_run sha [] v = (v, [])"
| "spec_run sha ((t, sid, ev) # evs) v =
     (let (st, out) = spec_step sha t sid ev (v sid);
          (v', out') = spec_run sha evs (v(sid := st))
      in (v', out @ out'))"

lemma spec_run_append:
  "spec_run sha (xs @ ys) v =
     (let (v1, o1) = spec_run sha xs v; (v2, o2) = spec_run sha ys v1 in (v2, o1 @ o2))"
proof (induction xs arbitrary: v)
  case (Cons x xs)
  obtain t sid ev where "x = (t, sid, ev)" by (cases x)
  with Cons show ?case by (simp add: split_beta Let_def)
qed simp

subsection \<open>Abstraction and invariant\<close>

definition phase_of :: "session_state \<Rightarrow> phase" where
  "phase_of s =
     (if terminalSent s then Ended (case terminalOutcome s of Some oc \<Rightarrow> oc | None \<Rightarrow> OCompleted)
      else if idleTimer s \<noteq> None
      then Settling (case pendingElapsedMs s of Some e \<Rightarrow> e | None \<Rightarrow> 0) (busySince s)
      else case busySince s of None \<Rightarrow> Fresh | Some b \<Rightarrow> Working (status s) b)"

definition view :: "machine \<Rightarrow> spec_machine" where
  "view m sid =
     (case map_get (sessions m) sid of
        None \<Rightarrow> (Fresh, [])
      | Some ob \<Rightarrow> (phase_of (heap m ob), pendingActions (heap m ob)))"

definition debounce_timer :: "machine_options \<Rightarrow> jstr \<Rightarrow> nat \<Rightarrow> timer" where
  "debounce_timer opts sid ob = \<lparr>timer_kind = DebounceTimer, timer_delay = idleDebounceMs opts,
     timer_session = sid, timer_object = ob\<rparr>"

definition heartbeat_timer :: "machine_options \<Rightarrow> jstr \<Rightarrow> nat \<Rightarrow> timer" where
  "heartbeat_timer opts sid ob = \<lparr>timer_kind = HeartbeatTimer, timer_delay = heartbeatMs opts,
     timer_session = sid, timer_object = ob\<rparr>"

lemma timer_distinct [simp]:
  "debounce_timer opts sid ob \<noteq> heartbeat_timer opts' sid' ob'"
  "heartbeat_timer opts sid ob \<noteq> debounce_timer opts' sid' ob'"
  by (simp_all add: debounce_timer_def heartbeat_timer_def)

lemma timer_fields [simp]:
  "timer_object (debounce_timer opts sid ob) = ob" "timer_object (heartbeat_timer opts sid ob) = ob"
  "timer_session (debounce_timer opts sid ob) = sid" "timer_session (heartbeat_timer opts sid ob) = sid"
  "timer_kind (debounce_timer opts sid ob) = DebounceTimer" "timer_kind (heartbeat_timer opts sid ob) = HeartbeatTimer"
  by (simp_all add: debounce_timer_def heartbeat_timer_def)

text \<open>Consistency of one session object.\<close>

definition state_ok :: "machine_options \<Rightarrow> session_state \<Rightarrow> bool" where
  "state_ok opts s \<longleftrightarrow>
     (terminalSent s \<longrightarrow> busySince s = None \<and> idleTimer s = None) \<and>
     (terminalSent s \<longleftrightarrow> terminalOutcome s \<noteq> None) \<and>
     (pendingElapsedMs s = None \<longleftrightarrow> idleTimer s = None) \<and>
     (heartbeatTimer s \<noteq> None \<longleftrightarrow> status s \<noteq> SIdle \<and> observesHeartbeat opts) \<and>
     (status s \<noteq> SIdle \<longrightarrow> busySince s \<noteq> None \<and> idleTimer s = None) \<and>
     (status s = SIdle \<and> busySince s \<noteq> None \<longrightarrow> idleTimer s \<noteq> None)"

lemma state_ok_fresh [simp]: "state_ok opts fresh_state"
  by (simp add: state_ok_def fresh_state_def)

text \<open>The armed timers are those of the live objects, and no others.\<close>

definition links :: "machine_options \<Rightarrow> machine \<Rightarrow> bool" where
  "links opts m \<longleftrightarrow>
     distinct_keys (sessions m) \<and>
     (\<forall>sid ob. map_get (sessions m) sid = Some ob \<longrightarrow> ob < next_object m) \<and>
     (\<forall>sid sid' ob. map_get (sessions m) sid = Some ob \<and> map_get (sessions m) sid' = Some ob \<longrightarrow> sid = sid') \<and>
     (\<forall>h tm. timers m h = Some tm \<longleftrightarrow>
        (\<exists>sid ob. map_get (sessions m) sid = Some ob \<and>
           (tm = debounce_timer opts sid ob \<and> idleTimer (heap m ob) = Some h \<or>
            tm = heartbeat_timer opts sid ob \<and> heartbeatTimer (heap m ob) = Some h))) \<and>
     (\<forall>h. timers m h \<noteq> None \<longrightarrow> h < next_handle m)"

lemma linksI:
  assumes "distinct_keys (sessions m)"
    "\<And>sid ob. map_get (sessions m) sid = Some ob \<Longrightarrow> ob < next_object m"
    "\<And>sid sid' ob. map_get (sessions m) sid = Some ob \<Longrightarrow> map_get (sessions m) sid' = Some ob \<Longrightarrow> sid = sid'"
    "\<And>h tm. timers m h = Some tm \<longleftrightarrow>
        (\<exists>sid ob. map_get (sessions m) sid = Some ob \<and>
           (tm = debounce_timer opts sid ob \<and> idleTimer (heap m ob) = Some h \<or>
            tm = heartbeat_timer opts sid ob \<and> heartbeatTimer (heap m ob) = Some h))"
    "\<And>h. timers m h \<noteq> None \<Longrightarrow> h < next_handle m"
  shows "links opts m"
  unfolding links_def
  by (intro conjI allI impI; (elim conjE)?) (rule assms; assumption)+

definition machine_inv :: "machine_options \<Rightarrow> machine \<Rightarrow> bool" where
  "machine_inv opts m \<longleftrightarrow>
     links opts m \<and> (\<forall>sid ob. map_get (sessions m) sid = Some ob \<longrightarrow> state_ok opts (heap m ob))"

lemma machine_inv_new [simp]: "machine_inv opts newMachine"
  by (simp add: machine_inv_def links_def newMachine_def)

lemma view_new [simp]: "view newMachine = spec_init"
  by (rule ext) (simp add: view_def newMachine_def spec_init_def)

lemma links_idle:
  assumes "links opts m" "map_get (sessions m) sid = Some ob" "idleTimer (heap m ob) = Some h"
  shows "timers m h = Some (debounce_timer opts sid ob)"
  using assms unfolding links_def by blast

lemma links_heartbeat:
  assumes "links opts m" "map_get (sessions m) sid = Some ob" "heartbeatTimer (heap m ob) = Some h"
  shows "timers m h = Some (heartbeat_timer opts sid ob)"
  using assms unfolding links_def by blast

lemma links_owner:
  assumes "links opts m" "map_get (sessions m) sid = Some ob" "map_get (sessions m) sid' = Some ob"
  shows "sid' = sid"
  using assms unfolding links_def by blast

lemma links_timer:
  assumes "links opts m" "timers m h = Some tm"
  obtains sid ob where "map_get (sessions m) sid = Some ob"
    "tm = debounce_timer opts sid ob \<and> idleTimer (heap m ob) = Some h \<or>
     tm = heartbeat_timer opts sid ob \<and> heartbeatTimer (heap m ob) = Some h"
  using assms unfolding links_def by blast

text \<open>Replacing one live object and the timers it owns.\<close>

lemma links_update:
  assumes l: "links opts m" and live: "map_get (sessions m) sid = Some ob"
    and m': "sessions m' = sessions m" "next_object m' = next_object m" "heap m' = (heap m)(ob := s')"
    and T: "\<And>h tm. timers m' h = Some tm \<longleftrightarrow>
        (tm = debounce_timer opts sid ob \<and> idleTimer s' = Some h \<or>
         tm = heartbeat_timer opts sid ob \<and> heartbeatTimer s' = Some h) \<or>
        (timers m h = Some tm \<and> timer_object tm \<noteq> ob)"
    and fresh: "\<And>h. timers m' h \<noteq> None \<Longrightarrow> h < next_handle m'"
  shows "links opts m'"
proof -
  have "timers m' h = Some tm \<longleftrightarrow>
     (\<exists>sid ob. map_get (sessions m') sid = Some ob \<and>
        (tm = debounce_timer opts sid ob \<and> idleTimer (heap m' ob) = Some h \<or>
         tm = heartbeat_timer opts sid ob \<and> heartbeatTimer (heap m' ob) = Some h))" (is "_ \<longleftrightarrow> ?R") for h tm
  proof
    assume "timers m' h = Some tm"
    with T consider "tm = debounce_timer opts sid ob \<and> idleTimer s' = Some h \<or>
         tm = heartbeat_timer opts sid ob \<and> heartbeatTimer s' = Some h" | "timers m h = Some tm" "timer_object tm \<noteq> ob"
      by blast
    then show ?R
    proof cases
      case 1
      then show ?thesis using live m' by (intro exI [of _ sid] exI [of _ ob]) simp
    next
      case 2
      from links_timer [OF l 2(1)] obtain sid1 ob1 where one: "map_get (sessions m) sid1 = Some ob1"
        "tm = debounce_timer opts sid1 ob1 \<and> idleTimer (heap m ob1) = Some h \<or>
         tm = heartbeat_timer opts sid1 ob1 \<and> heartbeatTimer (heap m ob1) = Some h" .
      with 2(2) have "ob1 \<noteq> ob" by auto
      with one m' show ?thesis by (intro exI [of _ sid1] exI [of _ ob1]) simp
    qed
  next
    assume ?R
    then obtain sid' ob' where R: "map_get (sessions m) sid' = Some ob'"
        "tm = debounce_timer opts sid' ob' \<and> idleTimer (heap m' ob') = Some h \<or>
         tm = heartbeat_timer opts sid' ob' \<and> heartbeatTimer (heap m' ob') = Some h" using m' by auto
    show "timers m' h = Some tm"
    proof (cases "ob' = ob")
      case True
      then have "sid' = sid" using R(1) live links_owner [OF l] by blast
      then show ?thesis using R True m' T by auto
    next
      case False
      then have "timers m h = Some tm" using R m' links_idle [OF l R(1)] links_heartbeat [OF l R(1)] by auto
      moreover have "timer_object tm \<noteq> ob" using R(2) False by auto
      ultimately show ?thesis using T by blast
    qed
  qed
  then have "\<forall>h tm. timers m' h = Some tm \<longleftrightarrow>
     (\<exists>sid ob. map_get (sessions m') sid = Some ob \<and>
        (tm = debounce_timer opts sid ob \<and> idleTimer (heap m' ob) = Some h \<or>
         tm = heartbeat_timer opts sid ob \<and> heartbeatTimer (heap m' ob) = Some h))" by blast
  moreover have "\<forall>h. timers m' h \<noteq> None \<longrightarrow> h < next_handle m'" using fresh by blast
  moreover have "distinct_keys (sessions m')"
    "\<forall>sid ob. map_get (sessions m') sid = Some ob \<longrightarrow> ob < next_object m'"
    "\<forall>sid sid' ob. map_get (sessions m') sid = Some ob \<and> map_get (sessions m') sid' = Some ob \<longrightarrow> sid = sid'"
    using l m'(1,2) unfolding links_def by (metis, metis, metis)
  ultimately show ?thesis unfolding links_def by (intro conjI)
qed

text \<open>What an object's timers are, and that no other timer is its own.\<close>

lemma own_timer:
  assumes "links opts m" "map_get (sessions m) sid = Some ob"
  shows "timers m h = Some tm \<longleftrightarrow>
     (tm = debounce_timer opts sid ob \<and> idleTimer (heap m ob) = Some h \<or>
      tm = heartbeat_timer opts sid ob \<and> heartbeatTimer (heap m ob) = Some h) \<or>
     (timers m h = Some tm \<and> timer_object tm \<noteq> ob)"
proof (cases "timers m h = Some tm \<and> timer_object tm = ob")
  case True
  from True links_timer [OF assms(1)] obtain sid1 ob1 where one: "map_get (sessions m) sid1 = Some ob1"
    "tm = debounce_timer opts sid1 ob1 \<and> idleTimer (heap m ob1) = Some h \<or>
     tm = heartbeat_timer opts sid1 ob1 \<and> heartbeatTimer (heap m ob1) = Some h" by blast
  with True have "ob1 = ob" by auto
  with one links_owner [OF assms] have "sid1 = sid" by blast
  with one True \<open>ob1 = ob\<close> show ?thesis by auto
next
  case False
  with links_idle [OF assms] links_heartbeat [OF assms] show ?thesis by auto
qed

subsection \<open>Working on one session\<close>

text \<open>
  An operation looks up its object and works on it alone: \<open>focus opts sid ob b s m\<close> says that \<open>m\<close> is the
  machine \<open>b\<close> with the object of \<open>sid\<close> now \<open>s\<close>, its timers kept in step.
\<close>

definition focus ::
    "machine_options \<Rightarrow> jstr \<Rightarrow> nat \<Rightarrow> machine \<Rightarrow> session_state \<Rightarrow> machine \<Rightarrow> bool" where
  "focus opts sid ob b s m \<longleftrightarrow>
     links opts m \<and> sessions m = sessions b \<and> next_object m = next_object b \<and>
     heap m = (heap b)(ob := s) \<and> map_get (sessions b) sid = Some ob"

lemma focus_start: "links opts m \<Longrightarrow> map_get (sessions m) sid = Some ob \<Longrightarrow> focus opts sid ob m (heap m ob) m"
  by (simp add: focus_def)

lemma focus_heap: "focus opts sid ob b s m \<Longrightarrow> heap m ob = s"
  by (simp add: focus_def)

lemma focus_live: "focus opts sid ob b s m \<Longrightarrow> map_get (sessions m) sid = Some ob"
  by (simp add: focus_def)

lemma focus_links: "focus opts sid ob b s m \<Longrightarrow> links opts m"
  by (simp add: focus_def)

lemma focus_update:
  assumes "focus opts sid ob b s m"
    and "sessions m' = sessions m" "next_object m' = next_object m" "heap m' = (heap m)(ob := s')"
    and "\<And>h tm. timers m' h = Some tm \<longleftrightarrow>
        (tm = debounce_timer opts sid ob \<and> idleTimer s' = Some h \<or>
         tm = heartbeat_timer opts sid ob \<and> heartbeatTimer s' = Some h) \<or>
        (timers m h = Some tm \<and> timer_object tm \<noteq> ob)"
    and "\<And>h. timers m' h \<noteq> None \<Longrightarrow> h < next_handle m'"
  shows "focus opts sid ob b s' m'"
proof -
  have "links opts m'"
    by (rule links_update [OF focus_links focus_live]) (use assms in auto)
  with assms show ?thesis by (simp add: focus_def)
qed

lemma focus_bound: "focus opts sid ob b s m \<Longrightarrow> timers m h \<noteq> None \<Longrightarrow> h < next_handle m"
  unfolding focus_def links_def by blast

lemma focus_modify:
  assumes "focus opts sid ob b s m" "idleTimer (f s) = idleTimer s" "heartbeatTimer (f s) = heartbeatTimer s"
  shows "focus opts sid ob b (f s) (modify ob f m)"
proof (rule focus_update [OF assms(1)])
  fix h tm
  show "timers (modify ob f m) h = Some tm \<longleftrightarrow>
        (tm = debounce_timer opts sid ob \<and> idleTimer (f s) = Some h \<or>
         tm = heartbeat_timer opts sid ob \<and> heartbeatTimer (f s) = Some h) \<or>
        (timers m h = Some tm \<and> timer_object tm \<noteq> ob)"
    using own_timer [OF focus_links focus_live, OF assms(1,1), of h tm] assms focus_heap [OF assms(1)]
    by (simp add: modify_def)
qed (use focus_heap [OF assms(1)] focus_bound [OF assms(1)] in \<open>auto simp: modify_def\<close>)

lemma focus_unchanged: "focus opts sid ob b s m \<Longrightarrow> s' = s \<Longrightarrow> focus opts sid ob b s' m"
  by simp

lemma focus_drop_timer:
  assumes foc: "focus opts sid ob b s m"
    and slot: "idleTimer s = Some h \<and> f = (\<lambda>s. s\<lparr>idleTimer := None\<rparr>) \<or>
               heartbeatTimer s = Some h \<and> f = (\<lambda>s. s\<lparr>heartbeatTimer := None\<rparr>)"
  shows "focus opts sid ob b (f s) (modify ob f (clearTimeout h m))"
proof (rule focus_update [OF foc])
  fix h' tm
  note own = own_timer [OF focus_links [OF foc] focus_live [OF foc], unfolded focus_heap [OF foc]]
  show "timers (modify ob f (clearTimeout h m)) h' = Some tm \<longleftrightarrow>
        (tm = debounce_timer opts sid ob \<and> idleTimer (f s) = Some h' \<or>
         tm = heartbeat_timer opts sid ob \<and> heartbeatTimer (f s) = Some h') \<or>
        (timers m h' = Some tm \<and> timer_object tm \<noteq> ob)"
  proof (cases "h' = h")
    case True
    have "timers m h = Some (if f = (\<lambda>s. s\<lparr>idleTimer := None\<rparr>) \<and> idleTimer s = Some h
        then debounce_timer opts sid ob else heartbeat_timer opts sid ob)"
      using slot own by auto
    then have "timer_object tm = ob" if "timers m h = Some tm"
      using that by (auto split: if_splits)
    moreover have "idleTimer (f s) \<noteq> Some h" "heartbeatTimer (f s) \<noteq> Some h"
      using slot own [of h "debounce_timer opts sid ob"] own [of h "heartbeat_timer opts sid ob"] by auto
    ultimately show ?thesis using True by (auto simp: modify_def clearTimeout_def)
  next
    case False
    then show ?thesis using own [of h' tm] slot by (auto simp: modify_def clearTimeout_def)
  qed
qed (use focus_heap [OF foc] focus_bound [OF foc] in \<open>auto simp: modify_def clearTimeout_def split: if_splits\<close>)

lemma focus_cancelIdle:
  assumes "focus opts sid ob b s m"
  shows "focus opts sid ob b (s\<lparr>idleTimer := None\<rparr>) (cancelIdle ob m)"
proof (cases "idleTimer s")
  case None
  then have eq: "s\<lparr>idleTimer := None\<rparr> = s" by simp
  have m: "cancelIdle ob m = m" using None focus_heap [OF assms] by (simp add: cancelIdle_def)
  show ?thesis unfolding eq m by (rule assms)
next
  case (Some h)
  with focus_drop_timer [OF assms, of h "\<lambda>s. s\<lparr>idleTimer := None\<rparr>"] focus_heap [OF assms]
  show ?thesis by (simp add: cancelIdle_def)
qed

lemma focus_clearHeartbeat:
  assumes "focus opts sid ob b s m"
  shows "focus opts sid ob b (s\<lparr>heartbeatTimer := None\<rparr>) (clearHeartbeat ob m)"
proof (cases "heartbeatTimer s")
  case None
  then have eq: "s\<lparr>heartbeatTimer := None\<rparr> = s" by simp
  have m: "clearHeartbeat ob m = m" using None focus_heap [OF assms] by (simp add: clearHeartbeat_def)
  show ?thesis unfolding eq m by (rule assms)
next
  case (Some h)
  with focus_drop_timer [OF assms, of h "\<lambda>s. s\<lparr>heartbeatTimer := None\<rparr>"] focus_heap [OF assms]
  show ?thesis by (simp add: clearHeartbeat_def)
qed

lemma focus_add_timer:
  assumes foc: "focus opts sid ob b s m"
    and slot: "idleTimer s = None \<and> tm = debounce_timer opts sid ob \<and> f = (\<lambda>s. s\<lparr>idleTimer := Some (next_handle m)\<rparr>) \<or>
       heartbeatTimer s = None \<and> tm = heartbeat_timer opts sid ob \<and> f = (\<lambda>s. s\<lparr>heartbeatTimer := Some (next_handle m)\<rparr>)"
  shows "focus opts sid ob b (f s) (modify ob f (snd (setTimeout tm m)))"
proof (rule focus_update [OF foc])
  fix h' tm'
  note own = own_timer [OF focus_links [OF foc] focus_live [OF foc], unfolded focus_heap [OF foc]]
  have new: "timers m (next_handle m) = None" using focus_bound [OF foc, of "next_handle m"] by blast
  show "timers (modify ob f (snd (setTimeout tm m))) h' = Some tm' \<longleftrightarrow>
        (tm' = debounce_timer opts sid ob \<and> idleTimer (f s) = Some h' \<or>
         tm' = heartbeat_timer opts sid ob \<and> heartbeatTimer (f s) = Some h') \<or>
        (timers m h' = Some tm' \<and> timer_object tm' \<noteq> ob)"
  proof (cases "h' = next_handle m")
    case True
    with new own [of h' tm'] have "\<not> (tm' = debounce_timer opts sid ob \<and> idleTimer s = Some h')"
      "\<not> (tm' = heartbeat_timer opts sid ob \<and> heartbeatTimer s = Some h')" by auto
    with True new slot show ?thesis by (auto simp: modify_def setTimeout_def)
  next
    case False
    then show ?thesis using own [of h' tm'] slot by (auto simp: modify_def setTimeout_def)
  qed
next
  fix h assume "timers (modify ob f (snd (setTimeout tm m))) h \<noteq> None"
  then show "h < next_handle (modify ob f (snd (setTimeout tm m)))"
    using focus_bound [OF foc, of h] by (auto simp: modify_def setTimeout_def less_Suc_eq split: if_splits)
qed (use focus_heap [OF foc] in \<open>auto simp: modify_def setTimeout_def\<close>)

lemma focus_armHeartbeat:
  assumes "focus opts sid ob b s m"
  shows "\<exists>h. focus opts sid ob b (if observesHeartbeat opts \<and> heartbeatTimer s = None
                then s\<lparr>heartbeatTimer := Some h\<rparr> else s) (armHeartbeat opts sid ob m)"
  using focus_add_timer [OF assms, of "heartbeat_timer opts sid ob" "\<lambda>s. s\<lparr>heartbeatTimer := Some (next_handle m)\<rparr>"]
    assms focus_heap [OF assms]
  by (auto simp: armHeartbeat_def setTimeout_def heartbeat_timer_def)

text \<open>Back to the whole machine.\<close>

lemma focus_end:
  assumes "machine_inv opts b" "focus opts sid ob b s m" "state_ok opts s"
  shows "machine_inv opts m" "view m = (view b)(sid := (phase_of s, pendingActions s))"
proof -
  from assms(2) have m: "links opts m" "sessions m = sessions b" "heap m = (heap b)(ob := s)"
    "map_get (sessions b) sid = Some ob" by (simp_all add: focus_def)
  from assms(1) have inv: "links opts b" "\<And>sid ob. map_get (sessions b) sid = Some ob \<Longrightarrow> state_ok opts (heap b ob)"
    by (auto simp: machine_inv_def)
  show "machine_inv opts m" using m inv(2) assms(3) by (simp add: machine_inv_def)
  show "view m = (view b)(sid := (phase_of s, pendingActions s))"
  proof
    fix sid'
    show "view m sid' = ((view b)(sid := (phase_of s, pendingActions s))) sid'"
    proof (cases "sid' = sid")
      case False
      then have "map_get (sessions b) sid' \<noteq> Some ob" using links_owner [OF inv(1) m(4)] by blast
      with False m show ?thesis by (cases "map_get (sessions b) sid'") (simp_all add: view_def)
    qed (simp add: view_def m)
  qed
qed

lemma stateFor_inv:
  assumes inv: "machine_inv opts m" and st: "stateFor sid m = (ob, m1)"
  shows "machine_inv opts m1" "view m1 = view m" "map_get (sessions m1) sid = Some ob"
    "focus opts sid ob m1 (heap m1 ob) m1" "state_ok opts (heap m1 ob)"
    "view m sid = (phase_of (heap m1 ob), pendingActions (heap m1 ob))"
proof -
  have "machine_inv opts m1 \<and> view m1 = view m \<and> map_get (sessions m1) sid = Some ob"
  proof (cases "map_get (sessions m) sid")
    case None
    have m1: "sessions m1 = map_set sid ob (sessions m)" "heap m1 = (heap m)(ob := fresh_state)"
      "next_object m1 = Suc ob" "ob = next_object m" "timers m1 = timers m" "next_handle m1 = next_handle m"
      using st None by (auto simp: stateFor_def)
    have old: "ob' \<noteq> ob" if "map_get (sessions m) sid' = Some ob'" for sid' ob'
      using inv that m1(4) by (auto simp: machine_inv_def links_def)
    have slots: "idleTimer fresh_state = None" "heartbeatTimer fresh_state = None" by (simp_all add: fresh_state_def)
    have "timers m1 h = Some tm \<longleftrightarrow>
       (\<exists>sid ob. map_get (sessions m1) sid = Some ob \<and>
          (tm = debounce_timer opts sid ob \<and> idleTimer (heap m1 ob) = Some h \<or>
           tm = heartbeat_timer opts sid ob \<and> heartbeatTimer (heap m1 ob) = Some h))" (is "_ \<longleftrightarrow> ?R") for h tm
    proof -
      have "?R \<longleftrightarrow> (\<exists>sid ob. map_get (sessions m) sid = Some ob \<and>
          (tm = debounce_timer opts sid ob \<and> idleTimer (heap m ob) = Some h \<or>
           tm = heartbeat_timer opts sid ob \<and> heartbeatTimer (heap m ob) = Some h))"
        (is "_ \<longleftrightarrow> (\<exists>sid ob. ?Q sid ob)")
      proof
        assume ?R
        then obtain sid' ob' where R: "map_get (sessions m1) sid' = Some ob'"
          "tm = debounce_timer opts sid' ob' \<and> idleTimer (heap m1 ob') = Some h \<or>
           tm = heartbeat_timer opts sid' ob' \<and> heartbeatTimer (heap m1 ob') = Some h" by blast
        then have "ob' \<noteq> ob" using m1(2) slots by auto
        with R m1 have "?Q sid' ob'" by (auto split: if_splits)
        then show "\<exists>sid ob. ?Q sid ob" by blast
      next
        assume "\<exists>sid ob. ?Q sid ob"
        then obtain sid' ob' where Q: "?Q sid' ob'" by blast
        with None old have "sid' \<noteq> sid" "ob' \<noteq> ob" by auto
        with Q m1 show ?R by (intro exI [of _ sid'] exI [of _ ob']) simp
      qed
      moreover have "timers m h = Some tm \<longleftrightarrow> (\<exists>sid ob. ?Q sid ob)"
        using inv unfolding machine_inv_def links_def by blast
      ultimately show ?thesis using m1(5) by simp
    qed
    moreover have "ob' < next_object m1" if "map_get (sessions m1) sid' = Some ob'" for sid' ob'
      using that inv m1 by (auto simp: machine_inv_def links_def less_Suc_eq split: if_splits)
    moreover have "sid1 = sid2" if "map_get (sessions m1) sid1 = Some ob'" "map_get (sessions m1) sid2 = Some ob'" for sid1 sid2 ob'
      using that m1 old inv by (auto simp: machine_inv_def links_def split: if_splits)
    moreover have "distinct_keys (sessions m1)" "\<forall>h. timers m1 h \<noteq> None \<longrightarrow> h < next_handle m1"
      using inv m1 by (auto simp: machine_inv_def links_def)
    ultimately have "links opts m1" unfolding links_def by blast
    then have "machine_inv opts m1" using inv m1 old by (auto simp: machine_inv_def)
    moreover have "view m1 = view m"
      using m1 old None by (auto simp: view_def fun_eq_iff fresh_state_def phase_of_def split: option.splits)
    ultimately show ?thesis using m1 by simp
  qed (use st inv in \<open>auto simp: stateFor_def\<close>)
  then have all: "machine_inv opts m1" "view m1 = view m" "map_get (sessions m1) sid = Some ob" by blast+
  then show "machine_inv opts m1" "view m1 = view m" "map_get (sessions m1) sid = Some ob" by blast+
  show "focus opts sid ob m1 (heap m1 ob) m1" "state_ok opts (heap m1 ob)"
    using all by (auto simp: machine_inv_def focus_start)
  have "view m1 sid = (phase_of (heap m1 ob), pendingActions (heap m1 ob))" by (simp add: view_def all(3))
  then show "view m sid = (phase_of (heap m1 ob), pendingActions (heap m1 ob))" by (simp only: all(2))
qed

subsection \<open>Every operation refines the phase machine\<close>

text \<open>What an operation on one session has to show.\<close>

definition refines ::
    "(jstr \<Rightarrow> jstr) \<Rightarrow> machine_options \<Rightarrow> int \<Rightarrow> jstr \<Rightarrow> session_event \<Rightarrow> machine \<Rightarrow> machine \<times> machine_effect list \<Rightarrow> bool" where
  "refines sha opts t sid ev m r \<longleftrightarrow>
     machine_inv opts (fst r) \<and>
     (let (st, out) = spec_step sha t sid ev (view m sid) in view (fst r) = (view m)(sid := st) \<and> snd r = out)"

lemma refinesI:
  assumes "machine_inv opts b" "focus opts sid ob b s m'" "state_ok opts s" "view b = view m"
    "spec_step sha t sid ev (view m sid) = ((phase_of s, pendingActions s), out)"
  shows "refines sha opts t sid ev m (m', out)"
  using focus_end [OF assms(1-3)] assms(4,5) by (simp add: refines_def)

lemma elapsed_simps [simp]: "elapsed t None = 0" "elapsed t (Some b) = max 0 (t - b)"
  by (simp_all add: elapsed_def)

definition active_state :: "machine_options \<Rightarrow> int \<Rightarrow> session_status \<Rightarrow> nat \<Rightarrow> session_state \<Rightarrow> session_state" where
  "active_state opts t st h s =
     (let s1 = s\<lparr>idleTimer := None, pendingElapsedMs := None\<rparr>;
          s2 = (if busySince s1 = None then s1\<lparr>busySince := Some t, terminalSent := False, terminalOutcome := None\<rparr> else s1);
          s3 = s2\<lparr>status := st\<rparr>
      in if observesHeartbeat opts \<and> heartbeatTimer s3 = None then s3\<lparr>heartbeatTimer := Some h\<rparr> else s3)"

lemma active_state:
  assumes "state_ok opts s" "st \<noteq> SIdle"
  shows "state_ok opts (active_state opts t st h s)" "pendingActions (active_state opts t st h s) = pendingActions s"
    "phase_of (active_state opts t st h s) = activate t st (phase_of s)"
  using assms
  by (auto simp: active_state_def Let_def state_ok_def phase_of_def activate_def split: option.splits)

lemma onActive_focus:
  assumes inv: "machine_inv opts m" and st: "stateFor sid m = (ob, m1)"
  shows "\<exists>h. focus opts sid ob m1 (active_state opts t st' h (heap m1 ob)) (onActive opts t sid st' m)"
proof -
  note F = stateFor_inv [OF inv st]
  let ?m2 = "modify ob (\<lambda>s. s\<lparr>pendingElapsedMs := None\<rparr>) (cancelIdle ob m1)"
  let ?s2 = "(heap m1 ob)\<lparr>idleTimer := None, pendingElapsedMs := None\<rparr>"
  have f2: "focus opts sid ob m1 ?s2 ?m2"
    using focus_modify [OF focus_cancelIdle [OF F(4)], of "\<lambda>s. s\<lparr>pendingElapsedMs := None\<rparr>"] by simp
  define m3 where "m3 = (if busySince (heap ?m2 ob) = None
      then modify ob (\<lambda>s. s\<lparr>busySince := Some t, terminalSent := False, terminalOutcome := None\<rparr>) ?m2 else ?m2)"
  define s3 where "s3 = (if busySince ?s2 = None
      then ?s2\<lparr>busySince := Some t, terminalSent := False, terminalOutcome := None\<rparr> else ?s2)"
  have f3: "focus opts sid ob m1 s3 m3"
  proof (cases "busySince ?s2 = None")
    case True
    with focus_modify [OF f2, of "\<lambda>s. s\<lparr>busySince := Some t, terminalSent := False, terminalOutcome := None\<rparr>"]
    show ?thesis by (simp add: m3_def s3_def focus_heap [OF f2])
  next
    case False
    have "m3 = ?m2" "s3 = ?s2" using False by (simp_all only: m3_def s3_def focus_heap [OF f2] if_False)
    with f2 show ?thesis by simp
  qed
  have f4: "focus opts sid ob m1 (s3\<lparr>status := st'\<rparr>) (modify ob (\<lambda>s. s\<lparr>status := st'\<rparr>) m3)"
    using focus_modify [OF f3, of "\<lambda>s. s\<lparr>status := st'\<rparr>"] by simp
  have "onActive opts t sid st' m = armHeartbeat opts sid ob (modify ob (\<lambda>s. s\<lparr>status := st'\<rparr>) m3)"
    by (simp add: onActive_def st m3_def Let_def)
  moreover have "active_state opts t st' h (heap m1 ob) =
      (if observesHeartbeat opts \<and> heartbeatTimer (s3\<lparr>status := st'\<rparr>) = None
       then (s3\<lparr>status := st'\<rparr>)\<lparr>heartbeatTimer := Some h\<rparr> else s3\<lparr>status := st'\<rparr>)" for h
    by (simp only: active_state_def s3_def Let_def)
  ultimately show ?thesis using focus_armHeartbeat [OF f4] by simp
qed

lemma stateFor_live: "map_get (sessions m) sid = Some ob \<Longrightarrow> stateFor sid m = (ob, m)"
  by (simp add: stateFor_def)

lemma pending_only [simp]:
  "state_ok opts (s\<lparr>pendingActions := p\<rparr>) = state_ok opts s" "phase_of (s\<lparr>pendingActions := p\<rparr>) = phase_of s"
  by (simp_all add: state_ok_def phase_of_def split: option.split)

lemma focus_clearProvider:
  "focus opts sid ob b s m \<Longrightarrow>
   focus opts sid ob b (s\<lparr>pendingActions := without_provider (pendingActions s)\<rparr>) (clearPendingProviderAction ob m)"
  unfolding clearPendingProviderAction_def without_provider_def
  by (rule focus_modify [where f = "\<lambda>s. s\<lparr>pendingActions := filter (\<lambda>(_, k). k \<noteq> KProvider) (pendingActions s)\<rparr>"])
    simp_all

lemma busy_refines:
  assumes inv: "machine_inv opts m"
  shows "refines sha opts t sid EBusy m (onBusy opts t sid m, [])"
proof -
  obtain ob m1 where st: "stateFor sid m = (ob, m1)" by force
  note F = stateFor_inv [OF inv st]
  obtain h where foc: "focus opts sid ob m1 (active_state opts t SBusy h (heap m1 ob)) (onActive opts t sid SBusy m)"
    using onActive_focus [OF inv st] by blast
  have "onBusy opts t sid m = clearPendingProviderAction ob (onActive opts t sid SBusy m)"
    using stateFor_live [OF focus_live [OF foc]] by (simp add: onBusy_def)
  then show ?thesis
    using refinesI [OF F(1) focus_clearProvider [OF foc] _ F(2), of sha t EBusy "[]"]
      active_state [OF F(5), of SBusy t h] F(6) by simp
qed

lemma retry_refines:
  assumes inv: "machine_inv opts m"
  shows "refines sha opts t sid (ERetry a) m (onRetry sha opts t sid a m)"
proof -
  obtain ob m1 where st: "stateFor sid m = (ob, m1)" by force
  note F = stateFor_inv [OF inv st]
  obtain h where foc: "focus opts sid ob m1 (active_state opts t SRetry h (heap m1 ob)) (onActive opts t sid SRetry m)"
    using onActive_focus [OF inv st] by blast
  let ?s = "active_state opts t SRetry h (heap m1 ob)" and ?m = "onActive opts t sid SRetry m"
  note A = active_state [OF F(5), of SRetry t h]
  show ?thesis
  proof (cases a)
    case None
    with refinesI [OF F(1) foc _ F(2), of sha t "ERetry a" "[]"] show ?thesis using A F(6) by (simp add: onRetry_def)
  next
    case (Some act)
    let ?key = "providerActionKey sha sid act"
    have live: "stateFor sid ?m = (ob, ?m)" using stateFor_live [OF focus_live [OF foc]] .
    have foc': "focus opts sid ob m1 (?s\<lparr>pendingActions := map_set ?key KProvider (without_provider (pendingActions ?s))\<rparr>)
       (modify ob (\<lambda>s. s\<lparr>pendingActions := map_set ?key KProvider (pendingActions s)\<rparr>) (clearPendingProviderAction ob ?m))"
      using focus_modify [OF focus_clearProvider [OF foc],
          where f = "\<lambda>s. s\<lparr>pendingActions := map_set ?key KProvider (pendingActions s)\<rparr>"] by simp
    show ?thesis
    proof (cases "map_get (pendingActions ?s) ?key = Some KProvider")
      case True
      with refinesI [OF F(1) foc _ F(2), of sha t "ERetry a" "[]"] Some live focus_heap [OF foc] show ?thesis
        using A F(6) by (simp add: onRetry_def onProviderAction_def Let_def request_provider_def)
    next
      case False
      with refinesI [OF F(1) foc' _ F(2), of sha t "ERetry a"] Some live focus_heap [OF foc] show ?thesis
        using A F(6) by (simp add: onRetry_def onProviderAction_def Let_def request_provider_def)
    qed
  qed
qed

lemma asked_refines:
  assumes inv: "machine_inv opts m"
  shows "refines sha opts t sid (EAsk k r eff) m (onAsked sid k r eff m)"
proof -
  obtain ob m1 where st: "stateFor sid m = (ob, m1)" by force
  note F = stateFor_inv [OF inv st]
  have "focus opts sid ob m1 ((heap m1 ob)\<lparr>pendingActions := map_set (action_key k r) k (pendingActions (heap m1 ob))\<rparr>)
     (modify ob (\<lambda>s. s\<lparr>pendingActions := map_set (action_key k r) k (pendingActions s)\<rparr>) m1)"
    using focus_modify [OF F(4), where f = "\<lambda>s. s\<lparr>pendingActions := map_set (action_key k r) k (pendingActions s)\<rparr>"]
    by simp
  note set = refinesI [OF F(1) this _ F(2), of sha t "EAsk k r eff"]
  show ?thesis
    using set refinesI [OF F(1) F(4,5) F(2), of sha t "EAsk k r eff" "[]"] st F(5,6)
    by (cases "map_has (pendingActions (heap m1 ob)) (action_key k r)") (simp_all add: onAsked_def Let_def)
qed

lemma resolved_refines:
  assumes inv: "machine_inv opts m"
  shows "refines sha opts t sid (EResolve k r) m (onResolved sid k r m)"
proof -
  obtain ob m1 where st: "stateFor sid m = (ob, m1)" by force
  note F = stateFor_inv [OF inv st]
  have "focus opts sid ob m1 ((heap m1 ob)\<lparr>pendingActions := map_delete (action_key k r) (pendingActions (heap m1 ob))\<rparr>)
     (modify ob (\<lambda>s. s\<lparr>pendingActions := map_delete (action_key k r) (pendingActions s)\<rparr>) m1)"
    using focus_modify [OF F(4), where f = "\<lambda>s. s\<lparr>pendingActions := map_delete (action_key k r) (pendingActions s)\<rparr>"]
    by simp
  note set = refinesI [OF F(1) this _ F(2), of sha t "EResolve k r"]
  show ?thesis
    using set refinesI [OF F(1) F(4,5) F(2), of sha t "EResolve k r" "[]"] st F(5,6)
    by (cases "map_get (pendingActions (heap m1 ob)) (action_key k r) \<noteq> Some k") (simp_all add: onResolved_def Let_def)
qed

lemma idle_refines:
  assumes inv: "machine_inv opts m"
  shows "refines sha opts t sid EIdle m (onIdle opts t sid m, [])"
proof -
  obtain ob m1 where st: "stateFor sid m = (ob, m1)" by force
  note F = stateFor_inv [OF inv st]
  let ?m2 = "clearHeartbeat ob (modify ob (\<lambda>s. s\<lparr>status := SIdle\<rparr>) m1)"
  define s0 where "s0 = heap m1 ob"
  let ?s2 = "s0\<lparr>status := SIdle, heartbeatTimer := None\<rparr>"
  have ok: "state_ok opts s0" "view m sid = (phase_of s0, pendingActions s0)" using F(5,6) by (simp_all add: s0_def)
  have f2: "focus opts sid ob m1 ?s2 ?m2"
    using focus_clearHeartbeat [OF focus_modify [OF F(4), of "\<lambda>s. s\<lparr>status := SIdle\<rparr>"]] by (simp add: s0_def)
  show ?thesis
  proof (cases "idleTimer s0 = None \<and> \<not> terminalSent s0")
    case False
    then have "onIdle opts t sid m = ?m2" by (auto simp: onIdle_def st focus_heap [OF f2] Let_def)
    moreover have "state_ok opts ?s2" "phase_of ?s2 = settle_idle t (phase_of s0)"
      using ok(1) False by (auto simp: state_ok_def phase_of_def settle_idle_def split: option.splits)
    ultimately show ?thesis using refinesI [OF F(1) f2 _ F(2), of sha t EIdle "[]"] ok by simp
  next
    case True
    define m3 where "m3 = modify ob (\<lambda>s. s\<lparr>pendingElapsedMs := Some (elapsed t (busySince s))\<rparr>) ?m2"
    let ?s3 = "?s2\<lparr>pendingElapsedMs := Some (elapsed t (busySince s0))\<rparr>"
    have f3: "focus opts sid ob m1 ?s3 m3"
      using focus_modify [OF f2, of "\<lambda>s. s\<lparr>pendingElapsedMs := Some (elapsed t (busySince s))\<rparr>"] by (simp add: m3_def)
    let ?s4 = "?s3\<lparr>idleTimer := Some (next_handle m3)\<rparr>"
    have f4: "focus opts sid ob m1 ?s4
        (modify ob (\<lambda>s. s\<lparr>idleTimer := Some (next_handle m3)\<rparr>) (snd (setTimeout (debounce_timer opts sid ob) m3)))"
      by (rule focus_add_timer [OF f3]) (use True in simp)
    have "onIdle opts t sid m =
        modify ob (\<lambda>s. s\<lparr>idleTimer := Some (next_handle m3)\<rparr>) (snd (setTimeout (debounce_timer opts sid ob) m3))"
      using True by (simp add: onIdle_def st focus_heap [OF f2] Let_def m3_def [symmetric] debounce_timer_def setTimeout_def)
    moreover have "state_ok opts ?s4" "phase_of ?s4 = settle_idle t (phase_of s0)"
      using ok(1) True by (auto simp: state_ok_def phase_of_def settle_idle_def split: option.splits)
    ultimately show ?thesis using refinesI [OF F(1) f4 _ F(2), of sha t EIdle "[]"] ok by simp
  qed
qed

lemma terminal_refines:
  assumes inv: "machine_inv opts m" and oc: "oc \<noteq> OCompleted"
  shows "refines sha opts t sid (ETerminal oc) m (onTerminalSignal t sid oc m)"
proof -
  obtain ob m1 where st: "stateFor sid m = (ob, m1)" by force
  note F = stateFor_inv [OF inv st]
  define s0 where "s0 = heap m1 ob"
  have ok: "state_ok opts s0" "view m sid = (phase_of s0, pendingActions s0)" using F(5,6) by (simp_all add: s0_def)
  let ?f3 = "\<lambda>s. s\<lparr>busySince := None, status := SIdle, pendingActions := []\<rparr>"
  define m3 where "m3 = modify ob ?f3 (clearHeartbeat ob (modify ob (\<lambda>s. s\<lparr>pendingElapsedMs := None\<rparr>) (cancelIdle ob m1)))"
  define s3 where "s3 = ?f3 (s0\<lparr>idleTimer := None, pendingElapsedMs := None, heartbeatTimer := None\<rparr>)"
  have f3: "focus opts sid ob m1 s3 m3"
    using focus_modify [OF focus_clearHeartbeat [OF focus_modify [OF focus_cancelIdle [OF F(4)],
        of "\<lambda>s. s\<lparr>pendingElapsedMs := None\<rparr>"]], of ?f3] by (simp add: m3_def s3_def s0_def)
  let ?out = "\<lambda>w. case w of None \<Rightarrow> oc | Some old \<Rightarrow> if OUTCOME_RANK old < OUTCOME_RANK oc then oc else old"
  define m4 where "m4 = (if (case terminalOutcome (heap m3 ob) of None \<Rightarrow> True | Some old \<Rightarrow> OUTCOME_RANK old < OUTCOME_RANK oc)
     then modify ob (\<lambda>s. s\<lparr>terminalOutcome := Some oc\<rparr>) m3 else m3)"
  define s4 where "s4 = s3\<lparr>terminalOutcome := Some (?out (terminalOutcome s0))\<rparr>"
  have f4: "focus opts sid ob m1 s4 m4"
  proof (cases "case terminalOutcome s0 of None \<Rightarrow> True | Some old \<Rightarrow> OUTCOME_RANK old < OUTCOME_RANK oc")
    case True
    with focus_modify [OF f3, of "\<lambda>s. s\<lparr>terminalOutcome := Some oc\<rparr>"] show ?thesis
      by (auto simp: m4_def s4_def s3_def focus_heap [OF f3] split: option.splits)
  next
    case False
    then have "s4 = s3" by (auto simp: s4_def s3_def split: option.splits)
    with False f3 show ?thesis by (auto simp: m4_def s3_def focus_heap [OF f3] split: option.splits)
  qed
  let ?m5 = "modify ob (\<lambda>s. s\<lparr>terminalSent := True\<rparr>) m4"
  have f5: "focus opts sid ob m1 (s4\<lparr>terminalSent := True\<rparr>) ?m5"
    using focus_modify [OF f4, of "\<lambda>s. s\<lparr>terminalSent := True\<rparr>"] by simp
  have res: "state_ok opts (s4\<lparr>terminalSent := True\<rparr>)" "pendingActions (s4\<lparr>terminalSent := True\<rparr>) = []"
    "phase_of (s4\<lparr>terminalSent := True\<rparr>) = Ended (?out (terminalOutcome s0))"
    by (auto simp: s4_def s3_def state_ok_def phase_of_def split: option.splits)
  define e where "e = (case pendingElapsedMs s0 of Some e \<Rightarrow> e | None \<Rightarrow> elapsed t (busySince s0))"
  have "onTerminalSignal t sid oc m = (if terminalSent (heap m4 ob) then (m4, [])
      else (?m5, [if oc = OFailed then FailedTerminal sid e else StoppedTerminal sid e]))"
    by (simp only: onTerminalSignal_def st Let_def split_conv m3_def m4_def e_def s0_def)
  then have run: "onTerminalSignal t sid oc m = (if terminalSent s4 then (m4, [])
      else (?m5, [if oc = OFailed then FailedTerminal sid e else StoppedTerminal sid e]))"
    by (simp only: focus_heap [OF f4])
  have sent: "terminalSent s4 = terminalSent s0" by (simp add: s4_def s3_def)
  show ?thesis
  proof (cases "terminalSent s0")
    case True
    then have eq: "s4\<lparr>terminalSent := True\<rparr> = s4" using sent by simp
    from True ok(1) obtain old where "terminalOutcome s0 = Some old" "phase_of s0 = Ended old"
      by (auto simp: state_ok_def phase_of_def)
    with refinesI [OF F(1) f4 _ F(2), of sha t "ETerminal oc" "[]"] True sent run res [unfolded eq] ok
    show ?thesis by (simp add: end_round_def split: if_splits)
  next
    case False
    with ok(1) have none: "terminalOutcome s0 = None" by (simp add: state_ok_def)
    have "end_round t sid oc (phase_of s0)
        = (Ended oc, [if oc = OFailed then FailedTerminal sid e else StoppedTerminal sid e])"
      using False ok(1) by (auto simp: end_round_def phase_of_def e_def state_ok_def split: option.splits)
    with refinesI [OF F(1) f5 _ F(2), of sha t "ETerminal oc"] False sent run res ok none
    show ?thesis by simp
  qed
qed

lemma complete_refines:
  assumes inv: "machine_inv opts m" and live: "map_get (sessions m) sid = Some ob"
    and armed: "idleTimer (heap m ob) \<noteq> None"
  shows "refines sha opts t sid EDebounce m (completePendingIdle sid ob (cancelIdle ob m))"
proof -
  define s0 where "s0 = heap m ob"
  have ok: "state_ok opts s0" "view m sid = (phase_of s0, pendingActions s0)"
    using inv live by (auto simp: machine_inv_def s0_def view_def)
  have f0: "focus opts sid ob m s0 m"
    using inv live by (auto simp: machine_inv_def s0_def intro: focus_start)
  let ?f = "\<lambda>s. s\<lparr>terminalSent := True, terminalOutcome := Some OCompleted, busySince := None,
              pendingActions := [], pendingElapsedMs := None\<rparr>"
  note f1 = focus_cancelIdle [OF f0]
  have f2: "focus opts sid ob m (?f (s0\<lparr>idleTimer := None\<rparr>)) (modify ob ?f (cancelIdle ob m))"
    using focus_modify [OF f1, of ?f] by simp
  from armed ok obtain e where s0: "\<not> terminalSent s0" "pendingElapsedMs s0 = Some e" "status s0 = SIdle" "heartbeatTimer s0 = None"
    "idleTimer s0 \<noteq> None"
    by (auto simp: state_ok_def s0_def)
  have "completePendingIdle sid ob (cancelIdle ob m) = (modify ob ?f (cancelIdle ob m), [Completed sid e])"
    using s0 by (simp add: completePendingIdle_def focus_heap [OF f1])
  moreover have "state_ok opts (?f (s0\<lparr>idleTimer := None\<rparr>))" using s0 by (simp add: state_ok_def)
  moreover have "phase_of s0 = Settling e (busySince s0)" using s0 by (simp add: phase_of_def)
  moreover have "phase_of (?f (s0\<lparr>idleTimer := None\<rparr>)) = Ended OCompleted" by (simp add: phase_of_def)
  ultimately show ?thesis
    using refinesI [OF inv f2 _ refl, of sha t EDebounce "[Completed sid e]"] ok(2) by simp
qed

lemma tick_refines:
  assumes inv: "machine_inv opts m" and live: "map_get (sessions m) sid = Some ob"
    and h: "heartbeatTimer (heap m ob) = Some h"
  shows "refines sha opts t sid ETick m (onHeartbeatTick opts t sid ob (clearTimeout h m))"
proof -
  define s0 where "s0 = heap m ob"
  have ok: "state_ok opts s0" "view m sid = (phase_of s0, pendingActions s0)"
    using inv live by (auto simp: machine_inv_def s0_def view_def)
  have f0: "focus opts sid ob m s0 m"
    using inv live by (auto simp: machine_inv_def s0_def intro: focus_start)
  let ?m1 = "modify ob (\<lambda>s. s\<lparr>heartbeatTimer := None\<rparr>) (clearTimeout h m)"
  have f1: "focus opts sid ob m (s0\<lparr>heartbeatTimer := None\<rparr>) ?m1"
    using focus_drop_timer [OF f0, of h "\<lambda>s. s\<lparr>heartbeatTimer := None\<rparr>"] h by (simp add: s0_def)
  obtain h' where f2: "focus opts sid ob m (if observesHeartbeat opts \<and> heartbeatTimer (s0\<lparr>heartbeatTimer := None\<rparr>) = None
      then s0\<lparr>heartbeatTimer := None\<rparr>\<lparr>heartbeatTimer := Some h'\<rparr> else s0\<lparr>heartbeatTimer := None\<rparr>) (armHeartbeat opts sid ob ?m1)"
    using focus_armHeartbeat [OF f1] by blast
  from h ok obtain b where s0: "observesHeartbeat opts" "status s0 \<noteq> SIdle" "busySince s0 = Some b" "idleTimer s0 = None" "\<not> terminalSent s0"
    by (auto simp: state_ok_def s0_def)
  have f2': "focus opts sid ob m (s0\<lparr>heartbeatTimer := Some h'\<rparr>) (armHeartbeat opts sid ob ?m1)"
    using f2 s0 by simp
  have "onHeartbeatTick opts t sid ob (clearTimeout h m)
      = (armHeartbeat opts sid ob ?m1, [Heartbeat sid (status s0) (max 0 (t - b))])"
    using s0 focus_live [OF f1] by (simp add: onHeartbeatTick_def Let_def focus_heap [OF f1])
  moreover have "state_ok opts (s0\<lparr>heartbeatTimer := Some h'\<rparr>)" using ok s0 by (simp add: state_ok_def)
  moreover have "phase_of (s0\<lparr>heartbeatTimer := Some h'\<rparr>) = Working (status s0) b" "phase_of s0 = Working (status s0) b"
    using s0 by (simp_all add: phase_of_def)
  ultimately show ?thesis
    using refinesI [OF inv f2' _ refl, of sha t ETick "[Heartbeat sid (status s0) (max 0 (t - b))]"] ok(2) by simp
qed

lemma dispose_refines:
  assumes inv: "machine_inv opts m"
  shows "refines sha opts t sid EDispose m (disposeSession sid m, [])"
proof (cases "map_get (sessions m) sid")
  case None
  then have "map_delete sid (sessions m) = sessions m"
    by (simp add: map_delete_absent map_get_None_iff)
  with None inv show ?thesis by (auto simp: refines_def disposeSession_def view_def fun_eq_iff)
next
  case (Some ob)
  have f0: "focus opts sid ob m (heap m ob) m"
    using inv Some by (auto simp: machine_inv_def intro: focus_start)
  define m1 where "m1 = clearHeartbeat ob (cancelIdle ob m)"
  have f1: "focus opts sid ob m ((heap m ob)\<lparr>idleTimer := None, heartbeatTimer := None\<rparr>) m1"
    using focus_clearHeartbeat [OF focus_cancelIdle [OF f0]] by (simp add: m1_def)
  let ?m' = "m1\<lparr>sessions := map_delete sid (sessions m1)\<rparr>"
  have m': "disposeSession sid m = ?m'" by (simp add: disposeSession_def Some m1_def Let_def)
  have l: "links opts m1" by (rule focus_links [OF f1])
  have other: "ob' \<noteq> ob" if "map_get (sessions m) sid' = Some ob'" "sid' \<noteq> sid" for sid' ob'
    using inv Some that unfolding machine_inv_def links_def by blast
  have heap1: "heap m1 ob' = heap m ob'" if "ob' \<noteq> ob" for ob' using f1 that by (simp add: focus_def)
  have sess: "sessions m1 = sessions m" "map_get (sessions m1) sid = Some ob" using f1 by (simp_all add: focus_def)
  have slots: "idleTimer (heap m1 ob) = None" "heartbeatTimer (heap m1 ob) = None"
    by (simp_all add: focus_heap [OF f1])
  have timers: "timers ?m' h = Some tm \<longleftrightarrow>
     (\<exists>sid ob. map_get (sessions ?m') sid = Some ob \<and>
        (tm = debounce_timer opts sid ob \<and> idleTimer (heap ?m' ob) = Some h \<or>
         tm = heartbeat_timer opts sid ob \<and> heartbeatTimer (heap ?m' ob) = Some h))" for h tm
  proof
    assume "timers ?m' h = Some tm"
    then have "timers m1 h = Some tm" by simp
    from links_timer [OF l this] obtain sid' ob' where R: "map_get (sessions m1) sid' = Some ob'"
      "tm = debounce_timer opts sid' ob' \<and> idleTimer (heap m1 ob') = Some h \<or>
       tm = heartbeat_timer opts sid' ob' \<and> heartbeatTimer (heap m1 ob') = Some h" .
    with slots sess have "sid' \<noteq> sid" by auto
    with R show "\<exists>sid ob. map_get (sessions ?m') sid = Some ob \<and>
        (tm = debounce_timer opts sid ob \<and> idleTimer (heap ?m' ob) = Some h \<or>
         tm = heartbeat_timer opts sid ob \<and> heartbeatTimer (heap ?m' ob) = Some h)"
      by (intro exI [of _ sid'] exI [of _ ob']) simp
  next
    assume "\<exists>sid ob. map_get (sessions ?m') sid = Some ob \<and>
        (tm = debounce_timer opts sid ob \<and> idleTimer (heap ?m' ob) = Some h \<or>
         tm = heartbeat_timer opts sid ob \<and> heartbeatTimer (heap ?m' ob) = Some h)"
    then obtain sid' ob' where "map_get (sessions m1) sid' = Some ob'"
      "tm = debounce_timer opts sid' ob' \<and> idleTimer (heap m1 ob') = Some h \<or>
       tm = heartbeat_timer opts sid' ob' \<and> heartbeatTimer (heap m1 ob') = Some h"
      by (auto split: if_splits)
    then show "timers ?m' h = Some tm" using links_idle [OF l] links_heartbeat [OF l] by auto
  qed
  have sub: "map_get (sessions m1) sid' = Some ob'" if "map_get (sessions ?m') sid' = Some ob'" for sid' ob'
    using that by (simp split: if_splits)
  have "links opts ?m'"
  proof (rule linksI)
    show "distinct_keys (sessions ?m')" using l by (simp add: links_def)
    show "ob' < next_object ?m'" if "map_get (sessions ?m') sid' = Some ob'" for sid' ob'
      using sub [OF that] l by (simp add: links_def)
    show "sid1 = sid2" if "map_get (sessions ?m') sid1 = Some ob'" "map_get (sessions ?m') sid2 = Some ob'" for sid1 sid2 ob'
      using links_owner [OF l sub [OF that(2)] sub [OF that(1)]] .
    show "h < next_handle ?m'" if "timers ?m' h \<noteq> None" for h using l that by (simp add: links_def)
  qed (rule timers)
  moreover have "state_ok opts (heap ?m' ob')" if "map_get (sessions ?m') sid' = Some ob'" for sid' ob'
  proof -
    have "sid' \<noteq> sid" "map_get (sessions m) sid' = Some ob'" using that sess by (auto split: if_splits)
    with inv other heap1 show ?thesis by (auto simp: machine_inv_def)
  qed
  ultimately have "machine_inv opts ?m'" by (auto simp: machine_inv_def)
  moreover have "view ?m' = (view m)(sid := (Fresh, []))"
  proof
    fix sid'
    show "view ?m' sid' = ((view m)(sid := (Fresh, []))) sid'"
    proof (cases "sid' = sid")
      case False
      show ?thesis
      proof (cases "map_get (sessions m) sid'")
        case None
        with False sess show ?thesis by (simp add: view_def)
      next
        case (Some ob')
        with heap1 [OF other [OF Some False]] False sess show ?thesis by (simp add: view_def)
      qed
    qed (simp add: view_def)
  qed
  ultimately show ?thesis unfolding m' by (cases "view m sid") (simp add: refines_def)
qed

text \<open>The session events an operation amounts to.\<close>

fun events_of :: "machine \<Rightarrow> machine_op \<Rightarrow> (jstr \<times> session_event) list" where
  "events_of m (Busy s) = [(s, EBusy)]"
| "events_of m (Retry s a) = [(s, ERetry a)]"
| "events_of m (Idle s) = [(s, EIdle)]"
| "events_of m (Fail s) = [(s, ETerminal OFailed)]"
| "events_of m (Stop s) = [(s, ETerminal OStopped)]"
| "events_of m (AskQuestion s r qs) = [(s, EAsk KQuestion r (QuestionRequired s r qs))]"
| "events_of m (AskPermission s r p y) = [(s, EAsk KPermission r (PermissionRequired s r p y))]"
| "events_of m (ResolveQuestion s r) = [(s, EResolve KQuestion r)]"
| "events_of m (ResolvePermission s r) = [(s, EResolve KPermission r)]"
| "events_of m (Fire h) =
     (case timers m h of
        None \<Rightarrow> []
      | Some tm \<Rightarrow> [(timer_session tm, case timer_kind tm of DebounceTimer \<Rightarrow> EDebounce | HeartbeatTimer \<Rightarrow> ETick)])"
| "events_of m Flush = map (\<lambda>(s, _). (s, EDebounce)) (sessions m)"
| "events_of m (Dispose s) = [(s, EDispose)]"
| "events_of m DisposeAll = map (\<lambda>s. (s, EDispose)) (map_keys (sessions m))"

definition at_time :: "int \<Rightarrow> (jstr \<times> session_event) list \<Rightarrow> (int \<times> jstr \<times> session_event) list" where
  "at_time t evs = map (\<lambda>(s, e). (t, s, e)) evs"

lemma at_time_simps [simp]:
  "at_time t [] = []" "at_time t ((s, e) # evs) = (t, s, e) # at_time t evs"
  by (simp_all add: at_time_def)

definition refines_run ::
    "(jstr \<Rightarrow> jstr) \<Rightarrow> machine_options \<Rightarrow> (int \<times> jstr \<times> session_event) list \<Rightarrow> machine \<Rightarrow> machine \<times> machine_effect list \<Rightarrow> bool" where
  "refines_run sha opts evs m r \<longleftrightarrow>
     machine_inv opts (fst r) \<and> spec_run sha evs (view m) = (view (fst r), snd r)"

lemma refines_run1: "refines sha opts t sid ev m r \<Longrightarrow> refines_run sha opts [(t, sid, ev)] m r"
  by (cases r) (auto simp: refines_def refines_run_def split_beta Let_def)

lemma refines_run_append:
  assumes "refines_run sha opts evs m (m1, out)" "refines_run sha opts evs' m1 (m2, out')"
  shows "refines_run sha opts (evs @ evs') m (m2, out @ out')"
  using assms by (simp add: refines_run_def spec_run_append)

lemma fire_refines:
  assumes inv: "machine_inv opts m"
  shows "refines_run sha opts (at_time t (events_of m (Fire h))) m (fire opts t h m)"
proof (cases "timers m h")
  case None
  with inv show ?thesis by (simp add: refines_run_def fire_def)
next
  case (Some tm)
  have l: "links opts m" using inv by (simp add: machine_inv_def)
  from links_timer [OF l Some] obtain sid ob where live: "map_get (sessions m) sid = Some ob"
    and tm: "tm = debounce_timer opts sid ob \<and> idleTimer (heap m ob) = Some h \<or>
             tm = heartbeat_timer opts sid ob \<and> heartbeatTimer (heap m ob) = Some h" .
  from tm show ?thesis
  proof
    assume d: "tm = debounce_timer opts sid ob \<and> idleTimer (heap m ob) = Some h"
    then have "fire opts t h m = completePendingIdle sid ob (cancelIdle ob m)"
      using Some by (simp add: fire_def onIdleTimer_def cancelIdle_def Let_def)
    with complete_refines [OF inv live, of sha t] d Some show ?thesis by (simp add: refines_run1)
  next
    assume d: "tm = heartbeat_timer opts sid ob \<and> heartbeatTimer (heap m ob) = Some h"
    then have "fire opts t h m = onHeartbeatTick opts t sid ob (clearTimeout h m)"
      using Some by (simp add: fire_def Let_def)
    with tick_refines [OF inv live, of h sha t] d Some show ?thesis by (simp add: refines_run1)
  qed
qed

lemma complete_sessions: "sessions (fst (completePendingIdle sid ob (cancelIdle ob m))) = sessions m"
  by (simp add: completePendingIdle_def cancelIdle_def modify_def clearTimeout_def split: option.split)

lemma not_settling:
  assumes "machine_inv opts m" "map_get (sessions m) sid = Some ob" "idleTimer (heap m ob) = None"
  shows "refines_run sha opts [(t, sid, EDebounce)] m (m, [])"
proof -
  have "phase_of (heap m ob) \<noteq> Settling e b" for e b
    using assms(3) by (auto simp: phase_of_def split: option.splits)
  then show ?thesis
    using assms by (cases "phase_of (heap m ob)") (auto simp: refines_run_def view_def fun_eq_iff)
qed

lemma flush_from_refines:
  "machine_inv opts m \<Longrightarrow> (\<forall>(sid, ob) \<in> set ps. map_get (sessions m) sid = Some ob) \<Longrightarrow>
   refines_run sha opts (at_time t (map (\<lambda>(s, _). (s, EDebounce)) ps)) m (flush_from ps m)"
proof (induction ps arbitrary: m)
  case Nil
  then show ?case by (simp add: refines_run_def)
next
  case (Cons p ps)
  obtain sid ob where p: "p = (sid, ob)" by force
  with Cons.prems have live: "map_get (sessions m) sid = Some ob" by simp
  show ?case
  proof (cases "idleTimer (heap m ob)")
    case None
    from Cons.IH [OF Cons.prems(1)] Cons.prems(2)
    have IH: "refines_run sha opts (at_time t (map (\<lambda>(s, _). (s, EDebounce)) ps)) m (flush_from ps m)" by simp
    obtain m' out where fl: "flush_from ps m = (m', out)" by force
    from refines_run_append [OF not_settling [OF Cons.prems(1) live None] IH [unfolded fl], of t] None p fl
    show ?thesis by simp
  next
    case (Some h)
    obtain m1 out where c: "completePendingIdle sid ob (cancelIdle ob m) = (m1, out)" by force
    have first: "refines_run sha opts [(t, sid, EDebounce)] m (m1, out)"
      using complete_refines [OF Cons.prems(1) live, of sha t] Some c by (simp add: refines_run1)
    then have "machine_inv opts m1" by (simp add: refines_run_def)
    moreover have "sessions m1 = sessions m" using complete_sessions [of sid ob m] c by simp
    ultimately have IH: "refines_run sha opts (at_time t (map (\<lambda>(s, _). (s, EDebounce)) ps)) m1 (flush_from ps m1)"
      using Cons.IH [of m1] Cons.prems(2) by simp
    obtain m' out' where fl: "flush_from ps m1 = (m', out')" by force
    from refines_run_append [OF first IH [unfolded fl]] Some p c fl show ?thesis by simp
  qed
qed

lemma disposeAll_refines:
  "machine_inv opts m \<Longrightarrow>
   refines_run sha opts (at_time t (map (\<lambda>s. (s, EDispose)) sids)) m (fold disposeSession sids m, [])"
proof (induction sids arbitrary: m)
  case (Cons sid sids)
  from refines_run1 [OF dispose_refines [OF Cons.prems, of sha t sid]]
  have first: "refines_run sha opts [(t, sid, EDispose)] m (disposeSession sid m, [])" .
  then have "machine_inv opts (disposeSession sid m)" by (simp add: refines_run_def)
  from refines_run_append [OF first Cons.IH [OF this]] show ?case by simp
qed (simp add: refines_run_def)

lemma step_refines:
  assumes inv: "machine_inv opts m"
  shows "refines_run sha opts (at_time t (events_of m op)) m (machine_step sha opts t op m)"
proof (cases op)
  case (Fire h)
  with fire_refines [OF inv] show ?thesis by simp
next
  case Flush
  have "\<forall>(sid, ob) \<in> set (sessions m). map_get (sessions m) sid = Some ob"
    using inv by (auto simp: machine_inv_def links_def map_get_iff)
  from flush_from_refines [OF inv this] Flush show ?thesis by (simp add: flushPendingCompletions_def)
next
  case DisposeAll
  with disposeAll_refines [OF inv] show ?thesis by (simp add: disposeAll_def)
qed (use busy_refines [OF inv] retry_refines [OF inv] idle_refines [OF inv] terminal_refines [OF inv]
      asked_refines [OF inv] resolved_refines [OF inv] dispose_refines [OF inv]
  in \<open>simp_all add: refines_run1 onQuestionAsked_def onPermissionAsked_def\<close>)

fun events_run ::
    "(jstr \<Rightarrow> jstr) \<Rightarrow> machine_options \<Rightarrow> (int \<times> machine_op) list \<Rightarrow> machine \<Rightarrow> (int \<times> jstr \<times> session_event) list" where
  "events_run sha opts [] m = []"
| "events_run sha opts ((t, op) # ops) m =
     at_time t (events_of m op) @ events_run sha opts ops (fst (machine_step sha opts t op m))"

lemma run_refines:
  "machine_inv opts m \<Longrightarrow> refines_run sha opts (events_run sha opts ops m) m (machine_run sha opts ops m)"
proof (induction ops arbitrary: m)
  case (Cons x ops)
  obtain t op where x: "x = (t, op)" by force
  obtain m1 out where st: "machine_step sha opts t op m = (m1, out)" by force
  from step_refines [OF Cons.prems, of sha t op] st
  have first: "refines_run sha opts (at_time t (events_of m op)) m (m1, out)" by simp
  then have "machine_inv opts m1" by (simp add: refines_run_def)
  note IH = Cons.IH [OF this]
  obtain m2 out' where r: "machine_run sha opts ops m1 = (m2, out')" by force
  from refines_run_append [OF first IH [unfolded r]] x st r show ?case by simp
qed (simp add: refines_run_def)

end
