(* ===== verification/SessionProps.thy ===== *)
theory SessionProps
  imports SessionRounds
begin

section \<open>Properties of rounds, timers and action requests\<close>

text \<open>
  What follows from the refinement of \<open>SessionRounds\<close>: the trace properties hold of the phase machine
  and carry over to every run of the record-and-timer machine of \<open>state-machine.ts\<close>.
\<close>

abbreviation reached :: "(jstr \<Rightarrow> jstr) \<Rightarrow> machine_options \<Rightarrow> (int \<times> machine_op) list \<Rightarrow> machine" where
  "reached sha opts ops \<equiv> fst (machine_run sha opts ops newMachine)"

lemma reached_inv [simp]: "machine_inv opts (reached sha opts ops)"
  using run_refines [of opts newMachine sha ops] by (simp add: refines_run_def)

text \<open>
  C15: From the start, whatever the callers and the timers do, the session objects, their timers and the
  effects are those of the phase machine: every operation is a sequence of session events, the
  abstraction of the state is the abstract state they lead to and the outputs are the same.
\<close>

theorem machine_refines_phases:
  "spec_run sha (events_run sha opts ops newMachine) spec_init
     = (view (reached sha opts ops), snd (machine_run sha opts ops newMachine))"
  using run_refines [of opts newMachine sha ops] by (simp add: refines_run_def)

subsection \<open>Timers\<close>

definition armed :: "machine \<Rightarrow> jstr \<Rightarrow> timer_kind \<Rightarrow> nat set" where
  "armed m sid k = {h. \<exists>tm. timers m h = Some tm \<and> timer_session tm = sid \<and> timer_kind tm = k}"

lemma armed_slot:
  assumes "machine_inv opts m"
  shows "armed m sid k =
     (case map_get (sessions m) sid of
        None \<Rightarrow> {}
      | Some ob \<Rightarrow> set_option (case k of DebounceTimer \<Rightarrow> idleTimer (heap m ob) | HeartbeatTimer \<Rightarrow> heartbeatTimer (heap m ob)))"
proof -
  have l: "links opts m" using assms by (simp add: machine_inv_def)
  have "h \<in> armed m sid k \<longleftrightarrow> (\<exists>ob. map_get (sessions m) sid = Some ob \<and>
      (case k of DebounceTimer \<Rightarrow> idleTimer (heap m ob) | HeartbeatTimer \<Rightarrow> heartbeatTimer (heap m ob)) = Some h)" for h
  proof
    assume "h \<in> armed m sid k"
    then obtain tm where "timers m h = Some tm" "timer_session tm = sid" "timer_kind tm = k" by (auto simp: armed_def)
    then show "\<exists>ob. map_get (sessions m) sid = Some ob \<and>
      (case k of DebounceTimer \<Rightarrow> idleTimer (heap m ob) | HeartbeatTimer \<Rightarrow> heartbeatTimer (heap m ob)) = Some h"
      by (elim links_timer [OF l]) auto
  next
    assume "\<exists>ob. map_get (sessions m) sid = Some ob \<and>
      (case k of DebounceTimer \<Rightarrow> idleTimer (heap m ob) | HeartbeatTimer \<Rightarrow> heartbeatTimer (heap m ob)) = Some h"
    then show "h \<in> armed m sid k"
      using links_idle [OF l] links_heartbeat [OF l] by (cases k) (auto simp: armed_def)
  qed
  then show ?thesis by (auto split: option.splits)
qed

text \<open>
  Timers and phases correspond in every reachable state: a session has exactly one debounce timer
  while it is settling, exactly one heartbeat timer while it works (when heartbeats are observed)
  and no other timer; disposed sessions have none.
\<close>

theorem timers_match_phases:
  "card (armed (reached sha opts ops) sid k) =
     (case (fst (view (reached sha opts ops) sid), k) of
        (Settling _ _, DebounceTimer) \<Rightarrow> 1
      | (Working _ _, HeartbeatTimer) \<Rightarrow> if observesHeartbeat opts then 1 else 0
      | _ \<Rightarrow> 0)"
proof (cases "map_get (sessions (reached sha opts ops)) sid")
  case None
  then show ?thesis by (simp add: armed_slot [OF reached_inv] view_def)
next
  case (Some ob)
  let ?s = "heap (reached sha opts ops) ob"
  have ok: "state_ok opts ?s" using reached_inv Some by (auto simp: machine_inv_def)
  have "card (set_option (case k of DebounceTimer \<Rightarrow> idleTimer ?s | HeartbeatTimer \<Rightarrow> heartbeatTimer ?s)) =
     (case (phase_of ?s, k) of
        (Settling _ _, DebounceTimer) \<Rightarrow> 1
      | (Working _ _, HeartbeatTimer) \<Rightarrow> if observesHeartbeat opts then 1 else 0
      | _ \<Rightarrow> 0)"
    using ok by (cases k; cases "idleTimer ?s"; cases "heartbeatTimer ?s"; cases "busySince ?s")
      (auto simp: state_ok_def phase_of_def)
  then show ?thesis using Some by (simp add: armed_slot [OF reached_inv] view_def)
qed

subsection \<open>One terminal per round\<close>

definition is_terminal :: "jstr \<Rightarrow> machine_effect \<Rightarrow> bool" where
  "is_terminal sid eff =
     (case eff of
        Completed s _ \<Rightarrow> s = sid
      | FailedTerminal s _ \<Rightarrow> s = sid
      | StoppedTerminal s _ \<Rightarrow> s = sid
      | _ \<Rightarrow> False)"

lemma is_terminal_simps [simp]:
  "is_terminal sid (Completed s e) \<longleftrightarrow> s = sid"
  "is_terminal sid (FailedTerminal s e) \<longleftrightarrow> s = sid"
  "is_terminal sid (StoppedTerminal s e) \<longleftrightarrow> s = sid"
  "\<not> is_terminal sid (Heartbeat s st e)" "\<not> is_terminal sid (QuestionRequired s r qs)"
  "\<not> is_terminal sid (PermissionRequired s r p y)" "\<not> is_terminal sid (ProviderRequired s r d)"
  "\<not> is_terminal sid (ActionResolved s r k)"
  by (auto simp: is_terminal_def)

definition terminals :: "jstr \<Rightarrow> machine_effect list \<Rightarrow> machine_effect list" where
  "terminals sid out = filter (is_terminal sid) out"

lemma terminals_simps [simp]:
  "terminals sid [] = []"
  "terminals sid (e # out) = (if is_terminal sid e then e # terminals sid out else terminals sid out)"
  "terminals sid (out @ out') = terminals sid out @ terminals sid out'"
  by (simp_all add: terminals_def)

definition has_ended :: "phase \<Rightarrow> bool" where
  "has_ended ph = (case ph of Ended _ \<Rightarrow> True | _ \<Rightarrow> False)"

text \<open>Events that the machine produces: an ask emits a request of its own.\<close>

definition plain_event :: "jstr \<times> session_event \<Rightarrow> bool" where
  "plain_event = (\<lambda>(sid, ev).
     case ev of
       EAsk k r eff \<Rightarrow> k \<noteq> KProvider \<and>
         (k = KQuestion \<and> (\<exists>qs. eff = QuestionRequired sid r qs) \<or>
          k = KPermission \<and> (\<exists>p y. eff = PermissionRequired sid r p y))
     | EResolve k r \<Rightarrow> k \<noteq> KProvider
     | ETerminal oc \<Rightarrow> oc \<noteq> OCompleted
     | _ \<Rightarrow> True)"

lemma not_debounce [simp]: "k \<noteq> DebounceTimer \<longleftrightarrow> k = HeartbeatTimer"
  by (cases k) auto

lemma spec_step_retry:
  "spec_step sha t sid (ERetry a) (ph, pa) =
     (let (pa', out) = (case a of None \<Rightarrow> (pa, []) | Some x \<Rightarrow> request_provider sha sid x pa)
      in ((activate t SRetry ph, pa'), out))"
  by (cases a) auto

lemma events_of_plain: "x \<in> set (events_of m op) \<Longrightarrow> plain_event x"
  by (cases op) (auto simp: plain_event_def split: option.splits timer_kind.splits)

lemma events_run_plain: "(t, x) \<in> set (events_run sha opts ops m) \<Longrightarrow> plain_event x"
  by (induction ops arbitrary: m) (auto simp: at_time_def dest: events_of_plain)

definition reopening :: "session_event \<Rightarrow> bool" where
  "reopening ev = (case ev of EBusy \<Rightarrow> True | ERetry _ \<Rightarrow> True | EDispose \<Rightarrow> True | _ \<Rightarrow> False)"

lemma step_terminal_other:
  "plain_event (s, ev) \<Longrightarrow> s \<noteq> sid \<Longrightarrow> terminals sid (snd (spec_step sha t s ev st)) = []"
  by (cases st; cases ev rule: session_event.exhaust)
    (auto simp: plain_event_def request_provider_def end_round_def Let_def spec_step_retry
      split: option.splits phase.splits prod.splits)

lemma step_terminal:
  assumes "plain_event (sid, ev)" "\<not> reopening ev"
  shows "length (terminals sid (snd (spec_step sha t sid ev (ph, pa)))) + (if has_ended ph then 1 else 0)
     = (if has_ended (fst (fst (spec_step sha t sid ev (ph, pa)))) then 1 else 0)"
  using assms
  by (cases ev; cases ph)
    (auto simp: reopening_def plain_event_def has_ended_def end_round_def settle_idle_def Let_def)

lemma terminal_count:
  "(\<forall>(t, x) \<in> set evs. plain_event x) \<Longrightarrow> (\<forall>(t, s, ev) \<in> set evs. s = sid \<longrightarrow> \<not> reopening ev) \<Longrightarrow>
   length (terminals sid (snd (spec_run sha evs v))) + (if has_ended (fst (v sid)) then 1 else 0)
     = (if has_ended (fst (fst (spec_run sha evs v) sid)) then 1 else 0)"
proof (induction evs arbitrary: v)
  case (Cons x evs)
  obtain t s ev where x: "x = (t, s, ev)" by (cases x)
  obtain st out where st: "spec_step sha t s ev (v s) = (st, out)" by (metis surj_pair)
  define v' where "v' = v(s := st)"
  from Cons.IH [of v'] Cons.prems
  have IH: "length (terminals sid (snd (spec_run sha evs v'))) + (if has_ended (fst (v' sid)) then 1 else 0)
     = (if has_ended (fst (fst (spec_run sha evs v') sid)) then 1 else 0)" by simp
  have run: "spec_run sha (x # evs) v = (fst (spec_run sha evs v'), out @ snd (spec_run sha evs v'))"
    by (simp add: x st v'_def split_beta Let_def)
  show ?case
  proof (cases "s = sid")
    case True
    have "v' sid = st" using True by (simp add: v'_def)
    moreover have "length (terminals sid out) + (if has_ended (fst (v sid)) then 1 else 0) = (if has_ended (fst st) then 1 else 0)"
      using Cons.prems x step_terminal [of sid ev sha t "fst (v sid)" "snd (v sid)"] st True by simp
    ultimately show ?thesis using IH by (simp add: run)
  next
    case False
    then have "v' sid = v sid" "terminals sid out = []"
      using Cons.prems x step_terminal_other [of s ev sid sha t "v s"] st by (auto simp: v'_def)
    with IH show ?thesis by (simp add: run)
  qed
qed simp

definition reopens :: "jstr \<Rightarrow> machine_op \<Rightarrow> bool" where
  "reopens sid op =
     (case op of Busy s \<Rightarrow> s = sid | Retry s _ \<Rightarrow> s = sid | Dispose s \<Rightarrow> s = sid | DisposeAll \<Rightarrow> True | _ \<Rightarrow> False)"

lemma events_of_reopens: "\<not> reopens sid op \<Longrightarrow> (sid, ev) \<in> set (events_of m op) \<Longrightarrow> \<not> reopening ev"
  by (cases op) (auto simp: reopens_def reopening_def split: option.splits timer_kind.splits)

lemma events_run_reopens:
  "(\<forall>(t, op) \<in> set ops. \<not> reopens sid op) \<Longrightarrow> (t, sid, ev) \<in> set (events_run sha opts ops m) \<Longrightarrow> \<not> reopening ev"
proof (induction ops arbitrary: m)
  case (Cons x ops)
  then show ?case using events_of_reopens [of sid "snd x" ev m] by (cases x) (auto simp: at_time_def)
qed simp

text \<open>
  C34: A round ends at most once: from any reachable state, until the session is busy again, retries or
  is disposed, at most one of completed, failed and stopped is emitted for it, whatever idles,
  errors, aborts, timers, flushes and requests come in between and however other sessions behave.
\<close>

theorem one_terminal_per_round:
  assumes "\<forall>(t, op) \<in> set ops'. \<not> reopens sid op"
  shows "length (terminals sid (snd (machine_run sha opts ops' (reached sha opts ops)))) \<le> 1"
proof -
  let ?m = "reached sha opts ops"
  have "spec_run sha (events_run sha opts ops' ?m) (view ?m)
      = (view (fst (machine_run sha opts ops' ?m)), snd (machine_run sha opts ops' ?m))"
    using run_refines [OF reached_inv] by (simp add: refines_run_def)
  then have "snd (machine_run sha opts ops' ?m) = snd (spec_run sha (events_run sha opts ops' ?m) (view ?m))" by simp
  moreover have "\<forall>(t, x) \<in> set (events_run sha opts ops' ?m). plain_event x"
    "\<forall>(t, s, ev) \<in> set (events_run sha opts ops' ?m). s = sid \<longrightarrow> \<not> reopening ev"
    using events_run_plain events_run_reopens [OF assms] by blast+
  note terminal_count [OF this, of sha "view ?m"]
  ultimately show ?thesis by (simp split: if_splits)
qed

text \<open>Two sessions and identity-free options for the examples.\<close>

abbreviation sample_options :: machine_options where
  "sample_options \<equiv> \<lparr>idleDebounceMs = 15000, heartbeatMs = 60000, observesHeartbeat = True\<rparr>"

lemmas machine_ops_simps =
  onBusy_def onActive_def onIdle_def stateFor_def cancelIdle_def clearHeartbeat_def armHeartbeat_def
  setTimeout_def clearTimeout_def modify_def clearPendingProviderAction_def onTerminalSignal_def
  newMachine_def fresh_state_def elapsed_def Let_def

lemma one_terminal_per_round_witness:
  "length (terminals (js ''s1'') (snd (machine_run id sample_options
     [(2000, Stop (js ''s1'')), (2500, Fail (js ''s1'')), (3000, Idle (js ''s1'')), (3100, Flush)]
     (reached id sample_options [(1000, Busy (js ''s1''))])))) \<le> 1"
  by (rule one_terminal_per_round) (simp add: reopens_def)

subsection \<open>Elapsed time\<close>

lemma quiet_run:
  "(\<forall>(t, x) \<in> set evs. plain_event x) \<Longrightarrow> (\<forall>(t, s, ev) \<in> set evs. s = sid \<longrightarrow> ev = EIdle) \<Longrightarrow>
   v sid = (Settling e b, pa) \<Longrightarrow>
   fst (spec_run sha evs v) sid = (Settling e b, pa) \<and> terminals sid (snd (spec_run sha evs v)) = []"
proof (induction evs arbitrary: v)
  case (Cons x evs)
  obtain t s ev where x: "x = (t, s, ev)" by (cases x)
  obtain st out where st: "spec_step sha t s ev (v s) = (st, out)" by (metis surj_pair)
  define v' where "v' = v(s := st)"
  have "v' sid = (Settling e b, pa) \<and> terminals sid out = []"
  proof (cases "s = sid")
    case True
    with Cons.prems x have "ev = EIdle" by simp
    with st True Cons.prems(3) show ?thesis by (auto simp: settle_idle_def v'_def)
  next
    case False
    with Cons.prems x step_terminal_other [of s ev sid sha t "v s"] st show ?thesis by (simp add: v'_def)
  qed
  moreover have "spec_run sha (x # evs) v = (fst (spec_run sha evs v'), out @ snd (spec_run sha evs v'))"
    by (simp add: x st v'_def split_beta Let_def)
  ultimately show ?case using Cons.IH [of v'] Cons.prems(1,2) by simp
qed simp

lemma run_view:
  "machine_inv opts m \<Longrightarrow>
   spec_run sha (events_run sha opts ops m) (view m) = (view (fst (machine_run sha opts ops m)), snd (machine_run sha opts ops m))"
  using run_refines [of opts m sha ops] by (simp add: refines_run_def)

lemma settling_fire:
  assumes inv: "machine_inv opts m" and ph: "view m sid = (Settling e b, pa)" and h: "h \<in> armed m sid k"
  shows "snd (fire opts t h m) = [Completed sid e]"
proof -
  from h armed_slot [OF inv, of sid k] obtain ob where live: "map_get (sessions m) sid = Some ob"
    and slot: "(case k of DebounceTimer \<Rightarrow> idleTimer (heap m ob) | HeartbeatTimer \<Rightarrow> heartbeatTimer (heap m ob)) = Some h"
    by (auto split: option.splits)
  have ok: "state_ok opts (heap m ob)" "links opts m" using inv live by (auto simp: machine_inv_def)
  have "phase_of (heap m ob) = Settling e b" using ph live by (simp add: view_def)
  then have "idleTimer (heap m ob) \<noteq> None" by (auto simp: phase_of_def split: if_splits option.splits)
  with ok slot have "idleTimer (heap m ob) = Some h" by (cases k) (auto simp: state_ok_def)
  from links_idle [OF ok(2) live this] have tm: "timers m h = Some (debounce_timer opts sid ob)" .
  have "refines_run id opts (at_time t (events_of m (Fire h))) m (fire opts t h m)" by (rule fire_refines [OF inv])
  then show ?thesis using tm ph by (simp add: refines_run_def split_beta Let_def)
qed

text \<open>
  The elapsed time of a completion is frozen at the first idle: a session working since \<open>b\<close> that goes
  idle at \<open>t1\<close> and sees nothing but further idles reports \<open>max 0 (t1 - b)\<close>, however much later its
  timer fires and whatever the other sessions do. Its only armed timer is that one.
\<close>

theorem completion_elapsed_frozen:
  assumes "view (reached sha opts ops) sid = (Working st b, pa)"
    and "\<forall>(t, s, ev) \<in> set (events_run sha opts rest (onIdle opts t1 sid (reached sha opts ops))). s = sid \<longrightarrow> ev = EIdle"
    and "m' = fst (machine_run sha opts ((t1, Idle sid) # rest) (reached sha opts ops))"
    and "h \<in> armed m' sid k"
  shows "snd (fire opts t2 h m') = [Completed sid (max 0 (t1 - b))]"
proof -
  let ?m = "reached sha opts ops"
  let ?m1 = "onIdle opts t1 sid ?m"
  have r: "refines sha opts t1 sid EIdle ?m (?m1, [])" by (rule idle_refines) simp
  then have inv1: "machine_inv opts ?m1" and v1: "view ?m1 sid = (Settling (max 0 (t1 - b)) (Some b), pa)"
    using assms(1) by (auto simp: refines_def settle_idle_def)
  have m': "m' = fst (machine_run sha opts rest ?m1)" using assms(3) by (simp add: split_beta Let_def)
  have "machine_inv opts m'" using run_refines [OF inv1] m' by (simp add: refines_run_def)
  moreover have "view m' sid = (Settling (max 0 (t1 - b)) (Some b), pa)"
  proof -
    have plain: "\<forall>(t, x) \<in> set (events_run sha opts rest ?m1). plain_event x" using events_run_plain by blast
    from quiet_run [where v = "view ?m1" and sid = sid, OF plain assms(2) v1, of sha] run_view [OF inv1, of sha rest] m'
    show ?thesis by simp
  qed
  ultimately show ?thesis using assms(4) by (rule settling_fire)
qed

lemma completion_elapsed_frozen_witness:
  "snd (fire sample_options 99000 1 (fst (machine_run id sample_options
     [(4000, Idle (js ''s1'')), (5000, Idle (js ''s1''))] (reached id sample_options [(1000, Busy (js ''s1''))]))))
   = [Completed (js ''s1'') 3000]"
proof -
  let ?m = "reached id sample_options [(1000, Busy (js ''s1''))]"
  let ?m' = "fst (machine_run id sample_options [(4000, Idle (js ''s1'')), (5000, Idle (js ''s1''))] ?m)"
  have "snd (fire sample_options 99000 1 ?m') = [Completed (js ''s1'') (max 0 (4000 - 1000))]"
  proof (rule completion_elapsed_frozen [where ops = "[(1000, Busy (js ''s1''))]" and rest = "[(5000, Idle (js ''s1''))]"
        and st = SBusy and pa = "[]" and k = DebounceTimer and sha = id])
    show "view ?m (js ''s1'') = (Working SBusy 1000, [])"
      by (simp add: machine_ops_simps view_def phase_of_def)
    show "1 \<in> armed ?m' (js ''s1'') DebounceTimer"
      by (simp add: machine_ops_simps armed_def)
  qed simp_all
  then show ?thesis by simp
qed

end
