(* ===== verification/SessionActions.thy ===== *)
theory SessionActions
  imports SessionProps
begin

section \<open>Action requests of a session\<close>

text \<open>
  Resolutions never outnumber requests, and the synthetic key of a provider action identifies the
  action: the JSON text of its identity can be read back, so keys collide only where SHA-256 does.
\<close>

subsection \<open>No fabricated resolution\<close>

definition asks :: "jstr \<Rightarrow> pending_kind \<Rightarrow> jstr \<Rightarrow> machine_effect \<Rightarrow> bool" where
  "asks sid k r eff =
     (case eff of
        QuestionRequired s r' _ \<Rightarrow> s = sid \<and> r' = r \<and> k = KQuestion
      | PermissionRequired s r' _ _ \<Rightarrow> s = sid \<and> r' = r \<and> k = KPermission
      | _ \<Rightarrow> False)"

definition resolves :: "jstr \<Rightarrow> pending_kind \<Rightarrow> jstr \<Rightarrow> machine_effect \<Rightarrow> bool" where
  "resolves sid k r eff = (eff = ActionResolved sid r k)"

definition count_of :: "(machine_effect \<Rightarrow> bool) \<Rightarrow> machine_effect list \<Rightarrow> nat" where
  "count_of P out = length (filter P out)"

lemma count_of_simps [simp]:
  "count_of P [] = 0" "count_of P (e # out) = (if P e then Suc (count_of P out) else count_of P out)"
  "count_of P (out @ out') = count_of P out + count_of P out'"
  by (simp_all add: count_of_def)

definition pending :: "spec_state \<Rightarrow> pending_kind \<Rightarrow> jstr \<Rightarrow> nat" where
  "pending st k r = (if map_get (snd st) (action_key k r) = Some k then 1 else 0)"

lemma action_key_eq:
  "k \<noteq> KProvider \<Longrightarrow> k' \<noteq> KProvider \<Longrightarrow> action_key k r = action_key k' r' \<longleftrightarrow> k = k' \<and> r = r'"
  by (cases k; cases k') (auto simp: action_key_def js_def)

lemma provider_key_fresh: "providerActionKey sha sid a \<noteq> action_key k r" "action_key k r \<noteq> providerActionKey sha sid a"
  by (auto simp: action_key_def providerActionKey_def js_def)

lemma distinct_without_provider: "distinct_keys pa \<Longrightarrow> distinct_keys (without_provider pa)"
  by (simp add: without_provider_def distinct_keys_filter)

lemma distinct_step:
  "distinct_keys (snd st) \<Longrightarrow> distinct_keys (snd (fst (spec_step sha t sid ev st)))"
  by (cases st; cases ev)
    (auto simp: spec_step_retry request_provider_def distinct_without_provider Let_def
      split: option.splits phase.splits prod.splits)

lemma get_without_provider:
  "distinct_keys pa \<Longrightarrow> k \<noteq> KProvider \<Longrightarrow> map_get (without_provider pa) key = Some k \<longleftrightarrow> map_get pa key = Some k"
  by (auto simp: without_provider_def map_get_filter split: option.splits)

lemma step_resolution:
  assumes "plain_event (sid, ev)" "distinct_keys (snd st)" "k \<noteq> KProvider"
  shows "count_of (resolves sid k r) (snd (spec_step sha t sid ev st)) + pending (fst (spec_step sha t sid ev st)) k r
     \<le> count_of (asks sid k r) (snd (spec_step sha t sid ev st)) + pending st k r"
proof (cases ev)
  case (ERetry a)
  then show ?thesis using assms
    by (cases st) (auto simp: spec_step_retry request_provider_def pending_def resolves_def get_without_provider
      provider_key_fresh Let_def split: option.splits)
next
  case EBusy
  then show ?thesis using assms
    by (cases st) (auto simp: pending_def get_without_provider)
next
  case (EAsk k' r' eff)
  then show ?thesis using assms
    by (cases st) (auto simp: plain_event_def pending_def resolves_def asks_def action_key_eq map_has_iff)
next
  case (EResolve k' r')
  then show ?thesis using assms
    by (cases st) (auto simp: plain_event_def pending_def resolves_def action_key_eq)
next
  case (ETerminal oc)
  then show ?thesis
    by (cases st) (auto simp: pending_def resolves_def end_round_def Let_def split: phase.splits)
qed (cases st; auto simp: pending_def resolves_def split: phase.splits)+

lemma step_resolution_other:
  assumes "plain_event (s, ev)" "s \<noteq> sid"
  shows "count_of (resolves sid k r) (snd (spec_step sha t s ev st)) = 0"
  using assms
  by (cases st; cases ev)
    (auto simp: plain_event_def resolves_def spec_step_retry request_provider_def end_round_def Let_def
      split: option.splits phase.splits prod.splits)

lemma run_resolution:
  "(\<forall>(t, x) \<in> set evs. plain_event x) \<Longrightarrow> (\<forall>s. distinct_keys (snd (v s))) \<Longrightarrow> k \<noteq> KProvider \<Longrightarrow>
   count_of (resolves sid k r) (snd (spec_run sha evs v)) + pending (fst (spec_run sha evs v) sid) k r
     \<le> count_of (asks sid k r) (snd (spec_run sha evs v)) + pending (v sid) k r"
proof (induction evs arbitrary: v)
  case (Cons x evs)
  obtain t s ev where x: "x = (t, s, ev)" by (cases x)
  obtain st out where st: "spec_step sha t s ev (v s) = (st, out)" by (metis surj_pair)
  define v' where "v' = v(s := st)"
  have "distinct_keys (snd st)" using distinct_step [of "v s" sha t s ev] Cons.prems(2) st by simp
  then have "\<forall>s. distinct_keys (snd (v' s))" using Cons.prems(2) by (simp add: v'_def)
  note IH = Cons.IH [OF _ this Cons.prems(3)]
  have run: "spec_run sha (x # evs) v = (fst (spec_run sha evs v'), out @ snd (spec_run sha evs v'))"
    by (simp add: x st v'_def split_beta Let_def)
  have "count_of (resolves sid k r) out + pending (v' sid) k r \<le> count_of (asks sid k r) out + pending (v sid) k r"
  proof (cases "s = sid")
    case True
    with step_resolution [of sid ev "v sid" k r sha t] Cons.prems x st show ?thesis by (simp add: v'_def)
  next
    case False
    with step_resolution_other [of s ev sid k r sha t "v s"] Cons.prems(1) x st show ?thesis by (simp add: v'_def)
  qed
  with IH Cons.prems(1) show ?case by (simp add: run)
qed simp

text \<open>
  Resolutions are never fabricated: in every run, the \<open>action_resolved\<close> effects for a question or a
  permission of a session, and the request if it is still pending, are at most the \<open>action_required\<close>
  effects emitted for that session, kind and request id.
\<close>

theorem resolutions_answer_requests:
  assumes "k \<in> {KQuestion, KPermission}"
  shows "count_of (resolves sid k r) (snd (machine_run sha opts ops newMachine))
       + pending (view (reached sha opts ops) sid) k r
     \<le> count_of (asks sid k r) (snd (machine_run sha opts ops newMachine))"
proof -
  have plain: "\<forall>(t, x) \<in> set (events_run sha opts ops newMachine). plain_event x" using events_run_plain by blast
  have "k \<noteq> KProvider" using assms by auto
  from run_resolution [OF plain _ this, of spec_init sid r sha] run_view [OF machine_inv_new, of sha opts ops]
  show ?thesis by (simp add: spec_init_def pending_def)
qed

lemma resolutions_answer_requests_witness:
  "count_of (resolves (js ''s1'') KQuestion (js ''q''))
     (snd (machine_run id sample_options [(1, AskPermission (js ''s1'') (js ''q'') [] []), (2, ResolveQuestion (js ''s1'') (js ''q''))] newMachine)) = 0"
proof -
  let ?ops = "[(1, AskPermission (js ''s1'') (js ''q'') [] []), (2, ResolveQuestion (js ''s1'') (js ''q''))]"
  have "count_of (asks (js ''s1'') KQuestion (js ''q'')) (snd (machine_run id sample_options ?ops newMachine)) = 0"
    by (simp add: machine_ops_simps onPermissionAsked_def onAsked_def onResolved_def asks_def action_key_def)
  with resolutions_answer_requests [of KQuestion "js ''s1''" "js ''q''" id sample_options ?ops] show ?thesis by simp
qed

subsection \<open>The identity of a provider action\<close>

text \<open>
  The key of a provider action stands for its identity: two actions have the same key exactly when
  session, provider, reason (or title) and label agree, as long as SHA-256 does not collide on their two
  JSON texts. Quotes, commas and control characters inside the fields cannot shift a boundary.
\<close>

theorem provider_key_identity:
  assumes "sha (stringify_list (provider_identity s a)) = sha (stringify_list (provider_identity s' a'))
       \<Longrightarrow> stringify_list (provider_identity s a) = stringify_list (provider_identity s' a')"
  shows "providerActionKey sha s a = providerActionKey sha s' a' \<longleftrightarrow> provider_identity s a = provider_identity s' a'"
proof
  assume "providerActionKey sha s a = providerActionKey sha s' a'"
  with assms have "stringify_list (provider_identity s a) = stringify_list (provider_identity s' a')"
    by (simp add: providerActionKey_def)
  moreover have "length (provider_identity s a) = length (provider_identity s' a')" by (simp add: provider_identity_def)
  ultimately show "provider_identity s a = provider_identity s' a'"
    using stringify_list_inj by blast
qed (simp add: providerActionKey_def)

lemma provider_key_identity_witness:
  "providerActionKey id (js ''s'') \<lparr>ra_reason = None, ra_provider = js ''a,b'', ra_title = js ''c'', ra_message = [], ra_label = [], ra_link = None\<rparr>
   \<noteq> providerActionKey id (js ''s'') \<lparr>ra_reason = None, ra_provider = js ''a'', ra_title = js ''b,c'', ra_message = [], ra_label = [], ra_link = None\<rparr>"
  by (subst provider_key_identity) (simp_all add: provider_identity_def)

end
