(* ===== verification/Envelope.thy ===== *)
theory Envelope
  imports SessionProps Contracts
begin

section \<open>Contract-valid envelopes\<close>

text \<open>
  \<open>packages/plugin/src/envelope.ts\<close>: the factory that turns the effects of the session machine into
  events of the contract. A thrown error is \<open>Inl\<close>. The contract's format checks (\<open>formats\<close>) and the
  URL parser (\<open>url_ok\<close>: \<open>new URL(value)\<close> does not throw) are arguments, as are the injected clock and
  the random UUID; \<open>toISOString\<close> is written out.
\<close>

subsection \<open>Caps\<close>

definition MAX_QUESTIONS :: nat where "MAX_QUESTIONS = 8"
definition MAX_QUESTION_TEXT_CODE_POINTS :: nat where "MAX_QUESTION_TEXT_CODE_POINTS = 2000"
definition MAX_QUESTION_OPTIONS :: nat where "MAX_QUESTION_OPTIONS = 16"
definition MAX_PERMISSION_SUMMARY_CODE_POINTS :: nat where "MAX_PERMISSION_SUMMARY_CODE_POINTS = 500"
definition MAX_PROVIDER_FIELD_CODE_POINTS :: nat where "MAX_PROVIDER_FIELD_CODE_POINTS = 120"
definition MAX_PROVIDER_MESSAGE_CODE_POINTS :: nat where "MAX_PROVIDER_MESSAGE_CODE_POINTS = 500"
definition MAX_PROVIDER_LINK_CODE_POINTS :: nat where "MAX_PROVIDER_LINK_CODE_POINTS = 2048"
definition MAX_SUMMARY_CODE_POINTS :: nat where "MAX_SUMMARY_CODE_POINTS = 500"

lemmas cap_defs = MAX_QUESTIONS_def MAX_QUESTION_TEXT_CODE_POINTS_def MAX_QUESTION_OPTIONS_def
  MAX_PERMISSION_SUMMARY_CODE_POINTS_def MAX_PROVIDER_FIELD_CODE_POINTS_def
  MAX_PROVIDER_MESSAGE_CODE_POINTS_def MAX_PROVIDER_LINK_CODE_POINTS_def MAX_SUMMARY_CODE_POINTS_def

subsection \<open>Text\<close>

text \<open>\<open>truncateCodePoints\<close> of this file: a cut text ends in the ellipsis and stays within \<open>max\<close>.\<close>

definition truncateMarked :: "jstr \<Rightarrow> nat \<Rightarrow> jstr" where
  "truncateMarked text mx =
     (let points = code_points text in
      if length points \<le> mx then text else concat (take (mx - 1) points) @ [ellipsis])"

text \<open>
  The cut may leave a lone high surrogate of the input before the mark; the mark is no low surrogate,
  so it does not pair up.
\<close>

lemma code_points_snoc:
  "\<not> low_surrogate w \<Longrightarrow> code_points (s @ [w]) = code_points s @ [[w]]"
  by (induction s rule: code_points.induct) auto

lemma ellipsis_not_low [simp]: "\<not> low_surrogate ellipsis"
  by (simp add: low_surrogate_def ellipsis_def)

lemma code_points_truncateMarked:
  "0 < n \<Longrightarrow> length (code_points (truncateMarked s n)) \<le> n"
  by (simp add: truncateMarked_def Let_def code_points_snoc code_points_take)

lemma truncateMarked_nonempty: "s \<noteq> [] \<Longrightarrow> truncateMarked s n \<noteq> []"
  by (simp add: truncateMarked_def Let_def)

lemma truncateMarked_max: "0 < n \<Longrightarrow> n \<le> m \<Longrightarrow> maxLength m (truncateMarked s n)"
  using code_points_truncateMarked [of n s] by (simp add: maxLength_def)

lemma truncateMarked_prefix:
  obtains "truncateMarked s n = s" | p where "prefix p s" "truncateMarked s n = p @ [ellipsis]"
proof (cases "length (code_points s) \<le> n")
  case True
  then show ?thesis using that(1) by (simp add: truncateMarked_def)
next
  case False
  have "s = concat (take (n - 1) (code_points s)) @ concat (drop (n - 1) (code_points s))"
    by (metis append_take_drop_id concat_append concat_code_points)
  then have "prefix (concat (take (n - 1) (code_points s))) s" unfolding prefix_def by blast
  then show ?thesis using that(2) False by (simp add: truncateMarked_def Let_def)
qed

text \<open>\<open>floor(max(0, ms) / 1000)\<close>\<close>

definition elapsedSeconds :: "int \<Rightarrow> int" where
  "elapsedSeconds elapsedMs = max 0 elapsedMs div 1000"

subsection \<open>Time\<close>

text \<open>
  \<open>new Date(ms).toISOString()\<close> for the years 0 to 9999, \<open>None\<close> outside: the proleptic Gregorian date of a
  count of days, and fields padded with zeros.
\<close>

definition civil_from_days :: "int \<Rightarrow> int \<times> int \<times> int" where
  "civil_from_days days =
     (let z = days + 719468;
          era = z div 146097;
          doe = z mod 146097;
          yoe = (doe - doe div 1460 + doe div 36524 - doe div 146096) div 365;
          doy = doe - (365 * yoe + yoe div 4 - yoe div 100);
          mp = (5 * doy + 2) div 153;
          d = doy - (153 * mp + 2) div 5 + 1;
          m = (if mp < 10 then mp + 3 else mp - 9);
          y = yoe + era * 400 + (if m \<le> 2 then 1 else 0)
      in (y, m, d))"

definition pad :: "nat \<Rightarrow> int \<Rightarrow> jstr" where
  "pad w n = (let s = decimal (nat n) in replicate (w - length s) (digit 0) @ s)"

definition toISOString :: "int \<Rightarrow> jstr option" where
  "toISOString ms =
     (let (y, m, d) = civil_from_days (ms div 86400000);
          r = ms mod 86400000
      in if y < 0 \<or> 9999 < y then None
         else Some (pad 4 y @ js ''-'' @ pad 2 m @ js ''-'' @ pad 2 d @ js ''T''
                @ pad 2 (r div 3600000) @ js '':'' @ pad 2 (r div 60000 mod 60) @ js '':''
                @ pad 2 (r div 1000 mod 60) @ js ''.'' @ pad 3 (r mod 1000) @ js ''Z''))"

subsection \<open>Bounding of action details\<close>

definition asContractUri :: "(jstr \<Rightarrow> bool) \<Rightarrow> jstr \<Rightarrow> jstr option" where
  "asContractUri url_ok value =
     (if MAX_PROVIDER_LINK_CODE_POINTS < length (code_points value) then None
      else if list_ex (\<lambda>u. whitespace u \<or> u \<le> 0x1F \<or> u = 0x7F) value then None
      else if \<not> url_ok value then None
      else Some value)"

definition boundQuestion :: "normalized_question \<Rightarrow> question_item option" where
  "boundQuestion q =
     (if nq_question q = [] then None
      else let ops = map (\<lambda>l. \<lparr>option_label = l, option_description = None\<rparr>)
                 (take MAX_QUESTION_OPTIONS (filter (\<lambda>l. 0 < length l) (nq_options q)))
           in Some \<lparr>question = truncateMarked (nq_question q) MAX_QUESTION_TEXT_CODE_POINTS,
                    question_options = (if 0 < length ops then Some ops else None),
                    question_multiple = nq_multiple q\<rparr>)"

definition boundProviderAction :: "(jstr \<Rightarrow> bool) \<Rightarrow> provider_details \<Rightarrow> provider_action" where
  "boundProviderAction url_ok d =
     \<lparr>pa_provider = truncateMarked (pd_provider d) MAX_PROVIDER_FIELD_CODE_POINTS,
      pa_title = truncateMarked (pd_title d) MAX_PROVIDER_FIELD_CODE_POINTS,
      pa_message = truncateMarked (pd_message d) MAX_PROVIDER_MESSAGE_CODE_POINTS,
      pa_label = truncateMarked (pd_label d) MAX_PROVIDER_FIELD_CODE_POINTS,
      pa_link = (case pd_link d of None \<Rightarrow> None | Some l \<Rightarrow> asContractUri url_ok l)\<rparr>"

subsection \<open>The factory\<close>

record envelope_factory =
  factory_source :: source
  includeSummary :: bool

record envelope_session =
  es_id :: jstr
  es_title :: "jstr option"

text \<open>What the seams of the factory answer for one event: \<open>randomUUID()\<close> and \<open>now()\<close>.\<close>

record seams =
  seam_uuid :: jstr
  seam_now :: int

datatype envelope_error =
    ContractInvalid
  | NoQuestionRemains jstr
  | EmptyPermissionSummary jstr
  | InvalidTime

definition unnamed_session :: jstr where
  "unnamed_session = [0x672A, 0x547D, 0x540D, 0x4F1A, 0x8BDD]"

definition sessionSection :: "envelope_session \<Rightarrow> session_ref" where
  "sessionSection s =
     \<lparr>session_id = es_id s,
      session_title = (case es_title s of
         Some t \<Rightarrow> if 0 < length (trim t) then t else unnamed_session
       | None \<Rightarrow> unnamed_session)\<rparr>"

definition finalize :: "formats \<Rightarrow> notify_event \<Rightarrow> envelope_error + notify_event" where
  "finalize fs e = (if validateNotifyEvent fs e then Inr e else Inl ContractInvalid)"

definition build ::
    "formats \<Rightarrow> envelope_factory \<Rightarrow> seams \<Rightarrow> envelope_session \<Rightarrow> payload \<Rightarrow> envelope_error + notify_event" where
  "build fs F w s p =
     (case toISOString (seam_now w) of
        None \<Rightarrow> Inl InvalidTime
      | Some t \<Rightarrow> finalize fs
          \<lparr>eventId = seam_uuid w, occurredAt = t, event_source = factory_source F,
           event_session = sessionSection s, payload = p\<rparr>)"

definition heartbeat ::
    "formats \<Rightarrow> envelope_factory \<Rightarrow> seams \<Rightarrow> envelope_session \<Rightarrow> active_status \<Rightarrow> int \<Rightarrow> envelope_error + notify_event" where
  "heartbeat fs F w s st elapsedMs = build fs F w s (Contracts.Heartbeat st (elapsedSeconds elapsedMs))"

definition terminal ::
    "formats \<Rightarrow> envelope_factory \<Rightarrow> seams \<Rightarrow> envelope_session \<Rightarrow> int \<Rightarrow> outcome \<Rightarrow> jstr option
      \<Rightarrow> envelope_error + notify_event" where
  "terminal fs F w s elapsedMs oc summary =
     build fs F w s (Terminal oc (elapsedSeconds elapsedMs)
       (case summary of
          Some t \<Rightarrow> if includeSummary F \<and> 0 < length t then Some (truncateMarked t MAX_SUMMARY_CODE_POINTS) else None
        | None \<Rightarrow> None))"

definition questionRequired ::
    "formats \<Rightarrow> envelope_factory \<Rightarrow> seams \<Rightarrow> envelope_session \<Rightarrow> jstr \<Rightarrow> normalized_question list
      \<Rightarrow> envelope_error + notify_event" where
  "questionRequired fs F w s requestId qs =
     (let questions = take MAX_QUESTIONS (List.map_filter boundQuestion qs) in
      if questions = [] then Inl (NoQuestionRemains requestId)
      else build fs F w s (ActionRequired (QuestionAction requestId questions)))"

definition permissionRequired ::
    "formats \<Rightarrow> envelope_factory \<Rightarrow> seams \<Rightarrow> envelope_session \<Rightarrow> jstr \<Rightarrow> jstr \<Rightarrow> jstr
      \<Rightarrow> envelope_error + notify_event" where
  "permissionRequired fs F w s requestId perm summary =
     (if length summary = 0 then Inl (EmptyPermissionSummary requestId)
      else build fs F w s (ActionRequired (PermissionAction requestId
        \<lparr>permission = perm, permission_summary = truncateMarked summary MAX_PERMISSION_SUMMARY_CODE_POINTS\<rparr>)))"

definition providerRequired ::
    "formats \<Rightarrow> (jstr \<Rightarrow> bool) \<Rightarrow> envelope_factory \<Rightarrow> seams \<Rightarrow> envelope_session \<Rightarrow> jstr \<Rightarrow> provider_details
      \<Rightarrow> envelope_error + notify_event" where
  "providerRequired fs url_ok F w s requestId d =
     build fs F w s (ActionRequired (ProviderAction requestId (boundProviderAction url_ok d)))"

definition actionResolved ::
    "formats \<Rightarrow> envelope_factory \<Rightarrow> seams \<Rightarrow> envelope_session \<Rightarrow> jstr \<Rightarrow> resolved_kind \<Rightarrow> envelope_error + notify_event" where
  "actionResolved fs F w s requestId k = build fs F w s (Contracts.ActionResolved requestId k)"

lemmas factory_defs = heartbeat_def terminal_def questionRequired_def permissionRequired_def
  providerRequired_def actionResolved_def

subsection \<open>From effects to envelopes\<close>

text \<open>
  The callbacks of \<open>index.ts\<close>: each effect of the machine with the session's title (\<open>registry.title\<close>)
  and, for terminals, the assistant's last text (\<open>cache.summary\<close>).
\<close>

definition envelope_of ::
    "formats \<Rightarrow> (jstr \<Rightarrow> bool) \<Rightarrow> envelope_factory \<Rightarrow> seams \<Rightarrow> (jstr \<Rightarrow> jstr option) \<Rightarrow> (jstr \<Rightarrow> jstr option)
      \<Rightarrow> machine_effect \<Rightarrow> envelope_error + notify_event" where
  "envelope_of fs url_ok F w title summary eff =
     (let sessionOf = (\<lambda>sid. \<lparr>es_id = sid, es_title = title sid\<rparr>) in
      case eff of
        SessionMachine.Completed sid e \<Rightarrow> terminal fs F w (sessionOf sid) e Contracts.Completed (summary sid)
      | SessionMachine.Heartbeat sid st e \<Rightarrow>
          heartbeat fs F w (sessionOf sid) (if st = SRetry then Contracts.Retry else Contracts.Busy) e
      | FailedTerminal sid e \<Rightarrow> terminal fs F w (sessionOf sid) e Failed (summary sid)
      | StoppedTerminal sid e \<Rightarrow> terminal fs F w (sessionOf sid) e Stopped (summary sid)
      | QuestionRequired sid r qs \<Rightarrow> questionRequired fs F w (sessionOf sid) r qs
      | PermissionRequired sid r p y \<Rightarrow> permissionRequired fs F w (sessionOf sid) r p y
      | ProviderRequired sid r d \<Rightarrow> providerRequired fs url_ok F w (sessionOf sid) r d
      | SessionMachine.ActionResolved sid r k \<Rightarrow>
          actionResolved fs F w (sessionOf sid) r (if k = KQuestion then QuestionKind else PermissionKind))"

definition wf_effect :: "machine_effect \<Rightarrow> bool" where
  "wf_effect eff =
     (case eff of
        SessionMachine.Completed sid e \<Rightarrow> sid \<noteq> []
      | SessionMachine.Heartbeat sid st e \<Rightarrow> sid \<noteq> [] \<and> st \<noteq> SIdle
      | FailedTerminal sid e \<Rightarrow> sid \<noteq> []
      | StoppedTerminal sid e \<Rightarrow> sid \<noteq> []
      | QuestionRequired sid r qs \<Rightarrow> sid \<noteq> [] \<and> r \<noteq> [] \<and> qs \<noteq> [] \<and> (\<forall>q \<in> set qs. wf_question q)
      | PermissionRequired sid r p y \<Rightarrow> sid \<noteq> [] \<and> r \<noteq> [] \<and> p \<noteq> [] \<and> y \<noteq> []
      | ProviderRequired sid r d \<Rightarrow> sid \<noteq> [] \<and> r \<noteq> [] \<and> pd_provider d \<noteq> [] \<and> pd_title d \<noteq> [] \<and>
          pd_message d \<noteq> [] \<and> pd_label d \<noteq> []
      | SessionMachine.ActionResolved sid r k \<Rightarrow> sid \<noteq> [] \<and> r \<noteq> [] \<and> k \<noteq> KProvider)"

text \<open>A link the factory keeps is one the contract's \<open>uri\<close> format takes.\<close>

definition link_in_contract :: "formats \<Rightarrow> (jstr \<Rightarrow> bool) \<Rightarrow> machine_effect \<Rightarrow> bool" where
  "link_in_contract fs url_ok eff =
     (case eff of
        ProviderRequired _ _ d \<Rightarrow>
          (case pd_link d of
             None \<Rightarrow> True
           | Some l \<Rightarrow> (case asContractUri url_ok l of None \<Rightarrow> True | Some l' \<Rightarrow> is_uri fs l'))
      | _ \<Rightarrow> True)"

definition seams_ok :: "formats \<Rightarrow> envelope_factory \<Rightarrow> seams \<Rightarrow> bool" where
  "seams_ok fs F w \<longleftrightarrow>
     sourceSchema (factory_source F) \<and> is_uuid fs (seam_uuid w) \<and>
     0 \<le> seam_now w \<and> seam_now w < 240784704000000"

lemma year_bound:
  assumes "0 \<le> days" "days < 2786860"
  shows "\<exists>y m d. civil_from_days days = (y, m, d) \<and> 0 \<le> y \<and> y \<le> 9999"
proof -
  let ?z = "days + 719468" let ?era = "?z div 146097" let ?doe = "?z mod 146097"
  define yoe where "yoe = (?doe - ?doe div 1460 + ?doe div 36524 - ?doe div 146096) div 365"
  have doe: "0 \<le> ?doe" "?doe \<le> 146096" using pos_mod_bound [of 146097 ?z] by simp_all
  have "?doe div 1460 \<le> ?doe" "0 \<le> ?doe div 1460" "0 \<le> ?doe div 36524" "?doe div 36524 \<le> 4"
    "0 \<le> ?doe div 146096" "?doe div 146096 \<le> 1" using doe by (auto simp: zdiv_mono1 div_le_dividend intro: order_trans)
  then have "- 1 \<le> ?doe - ?doe div 1460 + ?doe div 36524 - ?doe div 146096"
    "?doe - ?doe div 1460 + ?doe div 36524 - ?doe div 146096 \<le> 146100" using doe by linarith+
  then have "- 1 \<le> yoe" "yoe \<le> 400" unfolding yoe_def by linarith+
  moreover have "4 \<le> ?era" "?era \<le> 23" using assms by linarith+
  ultimately show ?thesis
    unfolding civil_from_days_def Let_def yoe_def [symmetric] by (auto split: if_splits)
qed

lemma toISOString_total:
  assumes "0 \<le> ms" "ms < 240784704000000"
  shows "toISOString ms \<noteq> None"
proof -
  have "0 \<le> ms div 86400000" "ms div 86400000 < 2786860" using assms by linarith+
  from year_bound [OF this] show ?thesis by (auto simp: toISOString_def Let_def)
qed

lemma build_iff:
  assumes "seams_ok fs F w" "es_id s \<noteq> []" "\<And>ms t. toISOString ms = Some t \<Longrightarrow> is_date_time fs t"
  shows "(\<exists>e. build fs F w s p = Inr e) \<longleftrightarrow>
     (case p of
        Contracts.Heartbeat _ n \<Rightarrow> heartbeatPayloadSchema n
      | ActionRequired a \<Rightarrow> actionRequiredPayloadSchema fs a
      | Contracts.ActionResolved r _ \<Rightarrow> actionResolvedPayloadSchema r
      | Terminal _ n y \<Rightarrow> terminalPayloadSchema n y)"
  using assms toISOString_total [of "seam_now w"]
  by (auto simp: build_def finalize_def validateNotifyEvent_def eventEnvelope_def seams_ok_def
    sessionSchema_def sessionSection_def split: option.splits)

lemma boundQuestion_schema:
  "wf_question q \<Longrightarrow> \<exists>x. boundQuestion q = Some x \<and> questionItemSchema x"
proof -
  assume q: "wf_question q"
  have "list_all questionOptionSchema (map (\<lambda>l. \<lparr>option_label = l, option_description = None\<rparr>)
      (take MAX_QUESTION_OPTIONS (filter (\<lambda>l. 0 < length l) (nq_options q))))"
    by (auto simp: list_all_iff questionOptionSchema_def dest!: in_set_takeD)
  with q show ?thesis
    by (auto simp: boundQuestion_def questionItemSchema_def wf_question_def truncateMarked_nonempty
      truncateMarked_max cap_defs Let_def)
qed

lemma bound_questions:
  assumes "qs \<noteq> []" "\<forall>q \<in> set qs. wf_question q"
  shows "take MAX_QUESTIONS (List.map_filter boundQuestion qs) \<noteq> []"
    "actionRequiredPayloadSchema fs (QuestionAction r (take MAX_QUESTIONS (List.map_filter boundQuestion qs))) \<longleftrightarrow> r \<noteq> []"
proof -
  let ?qs = "take MAX_QUESTIONS (List.map_filter boundQuestion qs)"
  obtain q qs' where "qs = q # qs'" using assms(1) by (cases qs) auto
  with assms boundQuestion_schema [of q] show ne: "?qs \<noteq> []"
    by (auto simp: List.map_filter_simps MAX_QUESTIONS_def)
  have "\<forall>x \<in> set ?qs. questionItemSchema x"
    using assms(2) boundQuestion_schema by (fastforce dest!: in_set_takeD simp: List.map_filter_def)
  moreover have "1 \<le> length ?qs" using ne by (cases ?qs) auto
  moreover have "length ?qs \<le> 8" by (simp add: MAX_QUESTIONS_def)
  ultimately show "actionRequiredPayloadSchema fs (QuestionAction r ?qs) \<longleftrightarrow> r \<noteq> []"
    unfolding actionRequiredPayloadSchema_def action_payload.case action_payload.sel list_all_iff by simp
qed

lemma asContractUri_max: "asContractUri url_ok l = Some l' \<Longrightarrow> l' = l \<and> maxLength 2048 l"
  by (auto simp: asContractUri_def maxLength_def cap_defs split: if_splits)

lemma elapsedSeconds_nonneg [simp]: "0 \<le> elapsedSeconds e"
  by (simp add: elapsedSeconds_def)

lemma terminal_schema:
  "terminalPayloadSchema (elapsedSeconds e) (case y of
      Some t \<Rightarrow> if b \<and> 0 < length t then Some (truncateMarked t MAX_SUMMARY_CODE_POINTS) else None | None \<Rightarrow> None)"
  by (auto simp: terminalPayloadSchema_def elapsedSeconds_def truncateMarked_max cap_defs split: option.splits)

text \<open>
  C8: The factory emits every well-formed effect but one kind: with a nonempty source, a UUID and a clock
  that the formats accept, the envelope of an effect is built exactly when the link of a provider action, if
  the factory keeps it, satisfies the contract's \<open>uri\<close> format. A link that the URL parser takes and the
  format rejects costs the whole event, not only the link.
\<close>

theorem envelope_built_iff_link_in_contract:
  assumes "wf_effect eff" "seams_ok fs F w" "\<And>ms t. toISOString ms = Some t \<Longrightarrow> is_date_time fs t"
  shows "(\<exists>e. envelope_of fs url_ok F w title summary eff = Inr e) \<longleftrightarrow> link_in_contract fs url_ok eff"
proof (cases eff)
  case (QuestionRequired sid r qs)
  with assms(1) have wf: "sid \<noteq> []" "r \<noteq> []" "qs \<noteq> []" "\<forall>q \<in> set qs. wf_question q" by (auto simp: wf_effect_def)
  note bq = bound_questions [OF wf(3,4)]
  have "(\<exists>e. envelope_of fs url_ok F w title summary eff = Inr e) \<longleftrightarrow>
      actionRequiredPayloadSchema fs (QuestionAction r (take MAX_QUESTIONS (List.map_filter boundQuestion qs)))"
    using wf bq(1) build_iff [OF assms(2) _ assms(3), where s = "\<lparr>es_id = sid, es_title = title sid\<rparr>"]
    unfolding QuestionRequired envelope_of_def questionRequired_def Let_def by simp
  with bq(2) wf QuestionRequired show ?thesis by (simp add: link_in_contract_def)
next
  case (PermissionRequired sid r p y)
  with assms show ?thesis
    by (simp add: envelope_of_def permissionRequired_def build_iff wf_effect_def link_in_contract_def
      actionRequiredPayloadSchema_def permissionSectionSchema_def truncateMarked_nonempty truncateMarked_max cap_defs)
next
  case (ProviderRequired sid r d)
  have "(\<exists>e. envelope_of fs url_ok F w title summary eff = Inr e) \<longleftrightarrow>
      actionRequiredPayloadSchema fs (ProviderAction r (boundProviderAction url_ok d))"
    using ProviderRequired assms by (simp add: envelope_of_def providerRequired_def build_iff wf_effect_def)
  also have "\<dots> \<longleftrightarrow> link_in_contract fs url_ok eff"
    using ProviderRequired assms(1)
    by (auto simp: wf_effect_def link_in_contract_def actionRequiredPayloadSchema_def providerActionSectionSchema_def
      boundProviderAction_def truncateMarked_nonempty truncateMarked_max cap_defs
      split: option.splits dest!: asContractUri_max)
  finally show ?thesis .
qed (use assms in \<open>simp_all add: envelope_of_def terminal_def heartbeat_def actionResolved_def build_iff wf_effect_def
   link_in_contract_def terminal_schema heartbeatPayloadSchema_def actionResolvedPayloadSchema_def\<close>)

text \<open>Formats and seams of the examples: a URL parser that takes what the \<open>uri\<close> format rejects.\<close>

abbreviation sample_formats :: formats where
  "sample_formats \<equiv> \<lparr>is_uuid = \<lambda>s. length s = 36, is_date_time = \<lambda>_. True,
     is_uri = list_all (\<lambda>u. u < 0x80)\<rparr>"

abbreviation sample_factory :: envelope_factory where
  "sample_factory \<equiv> \<lparr>factory_source = \<lparr>machine = js ''m'', project = js ''p'', directory = js ''d''\<rparr>, includeSummary = False\<rparr>"

abbreviation sample_seams :: seams where
  "sample_seams \<equiv> \<lparr>seam_uuid = replicate 36 0x61, seam_now = 1700000000000\<rparr>"

lemma envelope_built_iff_link_in_contract_witness:
  "\<not> (\<exists>e. envelope_of sample_formats (\<lambda>_. True) sample_factory sample_seams (\<lambda>_. None) (\<lambda>_. None)
     (ProviderRequired (js ''s1'') (js ''provider:1'')
       \<lparr>pd_provider = js ''p'', pd_title = js ''t'', pd_message = js ''m'', pd_label = js ''l'',
        pd_link = Some (js ''https://'' @ [0x4F8B])\<rparr>) = Inr e)"
  by (subst envelope_built_iff_link_in_contract)
    (simp_all add: wf_effect_def seams_ok_def sourceSchema_def link_in_contract_def asContractUri_def cap_defs
      js_def whitespace_def high_surrogate_def)

text \<open>
  The assistant's text is opt-in and bounded: an envelope carries a summary only when the
  configuration includes summaries, and then it is the cached text of that session cut to 500
  code points.
\<close>

theorem summary_is_opt_in:
  assumes "envelope_of fs url_ok F w title summary eff = Inr e" "payload e = Terminal oc n (Some y)"
  shows "includeSummary F \<and> length (code_points y) \<le> 500 \<and>
    (\<exists>t. summary (session_id (event_session e)) = Some t \<and> y = truncateMarked t MAX_SUMMARY_CODE_POINTS)"
proof -
  have b: "payload e = p \<and> session_id (event_session e) = es_id s" if "build fs F w s p = Inr e" for s p
    using that by (auto simp: build_def finalize_def sessionSection_def split: option.splits if_splits)
  obtain sid ms oc' where t: "terminal fs F w \<lparr>es_id = sid, es_title = title sid\<rparr> ms oc' (summary sid) = Inr e"
  proof (cases eff)
    case (QuestionRequired sid r qs)
    with assms show ?thesis
      by (auto simp: envelope_of_def questionRequired_def Let_def split: if_splits dest!: b)
  next
    case (PermissionRequired sid r p y)
    with assms show ?thesis
      by (auto simp: envelope_of_def permissionRequired_def split: if_splits dest!: b)
  qed (use assms that in \<open>auto simp: envelope_of_def heartbeat_def providerRequired_def actionResolved_def dest!: b\<close>)
  from b [OF t [unfolded terminal_def]] assms(2)
  have "session_id (event_session e) = sid" "\<exists>t. summary sid = Some t \<and> includeSummary F \<and> y = truncateMarked t MAX_SUMMARY_CODE_POINTS"
    by (auto split: option.splits if_splits)
  then show ?thesis using code_points_truncateMarked [of 500] by (auto simp: MAX_SUMMARY_CODE_POINTS_def)
qed

lemma terminal_event:
  assumes "toISOString (seam_now w) = Some t"
    "validateNotifyEvent fs \<lparr>eventId = seam_uuid w, occurredAt = t, event_source = factory_source F,
       event_session = sessionSection s, payload = p\<rparr>"
  shows "build fs F w s p = Inr \<lparr>eventId = seam_uuid w, occurredAt = t, event_source = factory_source F,
       event_session = sessionSection s, payload = p\<rparr>"
  using assms by (simp add: build_def finalize_def)

lemma summary_is_opt_in_witness:
  "\<exists>e. envelope_of sample_formats (\<lambda>_. True) (sample_factory\<lparr>includeSummary := True\<rparr>) sample_seams (\<lambda>_. None) (\<lambda>_. Some (js ''Done''))
     (SessionMachine.Completed (js ''s1'') 4200) = Inr e \<and> payload e = Terminal Contracts.Completed 4 (Some (js ''Done''))
     \<and> length (code_points (js ''Done'')) \<le> 500"
proof -
  let ?F = "sample_factory\<lparr>includeSummary := True\<rparr>"
  let ?s = "\<lparr>es_id = js ''s1'', es_title = None\<rparr>"
  obtain t where t: "toISOString 1700000000000 = Some t" using toISOString_total [of 1700000000000] by auto
  let ?e = "\<lparr>eventId = replicate 36 0x61, occurredAt = t, event_source = factory_source ?F,
       event_session = sessionSection ?s, payload = Terminal Contracts.Completed 4 (Some (js ''Done''))\<rparr>"
  have "envelope_of sample_formats (\<lambda>_. True) ?F sample_seams (\<lambda>_. None) (\<lambda>_. Some (js ''Done''))
     (SessionMachine.Completed (js ''s1'') 4200) = Inr ?e"
    using terminal_event [of sample_seams t sample_formats ?F ?s "Terminal Contracts.Completed 4 (Some (js ''Done''))"] t
    by (simp add: envelope_of_def terminal_def elapsedSeconds_def truncateMarked_def MAX_SUMMARY_CODE_POINTS_def
      schema_defs sessionSection_def maxLength_def)
  from this summary_is_opt_in [OF this, of Contracts.Completed 4 "js ''Done''"] show ?thesis by auto
qed

end
