(* ===== verification/AuthStore.thy ===== *)
theory AuthStore
  imports JsString
begin

section \<open>Accounts and sessions: the tables\<close>

text \<open>
  The account tables of \<open>apps/gateway/src/db/schema.ts\<close> and the statements that
  \<open>DrizzleAuthRepository\<close> and \<open>DrizzleAdminRepository\<close> run on them. A statement or a transaction is one
  atomic step; row ids and times are arguments. A unique constraint that is hit makes the driver
  throw \<open>violation\<close>, a value with an error code and perhaps a cause that wraps another one. Rows are
  never deleted, so the foreign keys stay valid.

  The locale \<open>session_store\<close> is what the service relies on: a revoked family stays revoked and a
  lookup shows it; it is interpreted on the tables at the end.
\<close>

subsection \<open>Rows\<close>

record user_row =
  u_id :: jstr
  u_email :: jstr
  u_passwordHash :: jstr
  u_emailVerifiedAt :: "int option"
  u_createdAt :: int
  u_updatedAt :: int

record code_row =
  ct_id :: jstr
  ct_userId :: jstr
  ct_tokenHash :: jstr
  ct_expiresAt :: int
  ct_consumedAt :: "int option"

record family_row =
  fam_id :: jstr
  fam_userId :: jstr
  fam_revokedAt :: "int option"

record refresh_row =
  rt_id :: jstr
  rt_familyId :: jstr
  rt_tokenHash :: jstr
  rt_expiresAt :: int
  rt_rotatedAt :: "int option"

record auth_db =
  users :: "user_row list"
  emailVerificationTokens :: "code_row list"
  passwordResetTokens :: "code_row list"
  refreshTokenFamilies :: "family_row list"
  refreshTokens :: "refresh_row list"

definition empty_db :: auth_db where
  "empty_db = \<lparr>users = [], emailVerificationTokens = [], passwordResetTokens = [],
     refreshTokenFamilies = [], refreshTokens = []\<rparr>"

record user_record =
  ur_id :: jstr
  ur_email :: jstr
  ur_passwordHash :: jstr
  ur_emailVerifiedAt :: "int option"

record refresh_record =
  rr_id :: jstr
  rr_familyId :: jstr
  rr_userId :: jstr
  rr_tokenHash :: jstr
  rr_expiresAt :: int
  rr_rotatedAt :: "int option"
  rr_familyRevokedAt :: "int option"

datatype rotation_outcome = Rotated | Reused

subsection \<open>Errors of the driver\<close>

datatype thrown = Thrown (thrown_code: "jstr option") (thrown_cause: "thrown option")

definition PG_UNIQUE_VIOLATION :: jstr where
  "PG_UNIQUE_VIOLATION = js ''23505''"

text \<open>\<open>isUniqueViolation\<close> of the auth repository, and the one of the admin repository, which also looks
  through four causes.\<close>

definition auth_isUniqueViolation :: "thrown \<Rightarrow> bool" where
  "auth_isUniqueViolation e = (thrown_code e = Some PG_UNIQUE_VIOLATION)"

function admin_isUniqueViolation :: "thrown option \<Rightarrow> nat \<Rightarrow> bool" where
  "admin_isUniqueViolation e depth =
     (case e of
        None \<Rightarrow> False
      | Some t \<Rightarrow>
          if 4 < depth then False
          else if thrown_code t = Some PG_UNIQUE_VIOLATION then True
          else admin_isUniqueViolation (thrown_cause t) (depth + 1))"
  by pat_completeness auto
termination by (relation "measure (\<lambda>(_, depth). 5 - depth)") auto

declare admin_isUniqueViolation.simps [simp del]

datatype repo_error = DuplicateEmailError | DriverError thrown

subsection \<open>Statements on users\<close>

definition user_of :: "user_row \<Rightarrow> user_record" where
  "user_of u = \<lparr>ur_id = u_id u, ur_email = u_email u, ur_passwordHash = u_passwordHash u,
     ur_emailVerifiedAt = u_emailVerifiedAt u\<rparr>"

definition findUserByEmail :: "jstr \<Rightarrow> auth_db \<Rightarrow> user_record option" where
  "findUserByEmail email db = map_option user_of (List.find (\<lambda>u. u_email u = email) (users db))"

definition insert_user :: "user_row \<Rightarrow> auth_db \<Rightarrow> auth_db option" where
  "insert_user u db =
     (if u_id u \<in> set (map u_id (users db)) \<or> u_email u \<in> set (map u_email (users db)) then None
      else Some (db\<lparr>users := users db @ [u]\<rparr>))"

definition createUser ::
    "thrown \<Rightarrow> jstr \<Rightarrow> int \<Rightarrow> jstr \<Rightarrow> jstr \<Rightarrow> auth_db \<Rightarrow> repo_error + (auth_db \<times> user_record)" where
  "createUser violation rowId now email passwordHash db =
     (let u = \<lparr>u_id = rowId, u_email = email, u_passwordHash = passwordHash, u_emailVerifiedAt = None,
               u_createdAt = now, u_updatedAt = now\<rparr> in
      case insert_user u db of
        Some db' \<Rightarrow> Inr (db', user_of u)
      | None \<Rightarrow> Inl (if auth_isUniqueViolation violation then DuplicateEmailError else DriverError violation))"

definition createVerifiedUser ::
    "thrown \<Rightarrow> jstr \<Rightarrow> int \<Rightarrow> jstr \<Rightarrow> jstr \<Rightarrow> auth_db \<Rightarrow> repo_error + (auth_db \<times> user_record)" where
  "createVerifiedUser violation rowId now email passwordHash db =
     (let u = \<lparr>u_id = rowId, u_email = email, u_passwordHash = passwordHash, u_emailVerifiedAt = Some now,
               u_createdAt = now, u_updatedAt = now\<rparr> in
      case insert_user u db of
        Some db' \<Rightarrow> Inr (db', user_of u)
      | None \<Rightarrow> Inl (if admin_isUniqueViolation (Some violation) 0 then DuplicateEmailError else DriverError violation))"

subsection \<open>One-time codes\<close>

definition insert_code :: "jstr \<Rightarrow> jstr \<Rightarrow> jstr \<Rightarrow> int \<Rightarrow> code_row list \<Rightarrow> code_row list option" where
  "insert_code rowId uid tokenHash expiresAt rows =
     (if rowId \<in> set (map ct_id rows) \<or> tokenHash \<in> set (map ct_tokenHash rows) then None
      else Some (rows @ [\<lparr>ct_id = rowId, ct_userId = uid, ct_tokenHash = tokenHash, ct_expiresAt = expiresAt,
                          ct_consumedAt = None\<rparr>]))"

definition live_code :: "jstr \<Rightarrow> jstr \<Rightarrow> int \<Rightarrow> code_row \<Rightarrow> bool" where
  "live_code uid tokenHash now c \<longleftrightarrow>
     ct_userId c = uid \<and> ct_tokenHash c = tokenHash \<and> ct_consumedAt c = None \<and> now < ct_expiresAt c"

definition consume_codes :: "jstr \<Rightarrow> jstr \<Rightarrow> int \<Rightarrow> code_row list \<Rightarrow> code_row list" where
  "consume_codes uid tokenHash now rows =
     map (\<lambda>c. if live_code uid tokenHash now c then c\<lparr>ct_consumedAt := Some now\<rparr> else c) rows"

definition createVerificationToken :: "jstr \<Rightarrow> jstr \<Rightarrow> jstr \<Rightarrow> int \<Rightarrow> auth_db \<Rightarrow> auth_db option" where
  "createVerificationToken rowId uid tokenHash expiresAt db =
     map_option (\<lambda>rows. db\<lparr>emailVerificationTokens := rows\<rparr>)
       (insert_code rowId uid tokenHash expiresAt (emailVerificationTokens db))"

definition createPasswordResetToken :: "jstr \<Rightarrow> jstr \<Rightarrow> jstr \<Rightarrow> int \<Rightarrow> auth_db \<Rightarrow> auth_db option" where
  "createPasswordResetToken rowId uid tokenHash expiresAt db =
     map_option (\<lambda>rows. db\<lparr>passwordResetTokens := rows\<rparr>)
       (insert_code rowId uid tokenHash expiresAt (passwordResetTokens db))"

definition consumeVerificationToken :: "jstr \<Rightarrow> jstr \<Rightarrow> int \<Rightarrow> auth_db \<Rightarrow> auth_db \<times> bool" where
  "consumeVerificationToken uid tokenHash now db =
     (if \<not> (\<exists>c \<in> set (emailVerificationTokens db). live_code uid tokenHash now c) then (db, False)
      else (db\<lparr>emailVerificationTokens := consume_codes uid tokenHash now (emailVerificationTokens db),
               users := map (\<lambda>u. if u_id u = uid then u\<lparr>u_emailVerifiedAt := Some now, u_updatedAt := now\<rparr> else u)
                 (users db)\<rparr>, True))"

subsection \<open>Sessions\<close>

definition revoke_families :: "(family_row \<Rightarrow> bool) \<Rightarrow> int \<Rightarrow> family_row list \<Rightarrow> family_row list" where
  "revoke_families P now fs =
     map (\<lambda>f. if P f \<and> fam_revokedAt f = None then f\<lparr>fam_revokedAt := Some now\<rparr> else f) fs"

definition set_password :: "jstr \<Rightarrow> jstr \<Rightarrow> int \<Rightarrow> auth_db \<Rightarrow> auth_db" where
  "set_password uid passwordHash now db =
     db\<lparr>users := map (\<lambda>u. if u_id u = uid then u\<lparr>u_passwordHash := passwordHash, u_updatedAt := now\<rparr> else u) (users db),
        refreshTokenFamilies := revoke_families (\<lambda>f. fam_userId f = uid) now (refreshTokenFamilies db)\<rparr>"

definition consumePasswordResetToken :: "jstr \<Rightarrow> jstr \<Rightarrow> int \<Rightarrow> jstr \<Rightarrow> auth_db \<Rightarrow> auth_db \<times> bool" where
  "consumePasswordResetToken uid tokenHash now passwordHash db =
     (if \<not> (\<exists>c \<in> set (passwordResetTokens db). live_code uid tokenHash now c) then (db, False)
      else (set_password uid passwordHash now
              (db\<lparr>passwordResetTokens := consume_codes uid tokenHash now (passwordResetTokens db)\<rparr>), True))"

text \<open>\<open>setUserPassword\<close> of the admin repository.\<close>

definition setUserPassword :: "jstr \<Rightarrow> jstr \<Rightarrow> int \<Rightarrow> auth_db \<Rightarrow> auth_db \<times> bool" where
  "setUserPassword uid passwordHash now db =
     (if \<not> (\<exists>u \<in> set (users db). u_id u = uid) then (db, False)
      else (set_password uid passwordHash now db, True))"

definition insert_refresh :: "refresh_row \<Rightarrow> auth_db \<Rightarrow> auth_db option" where
  "insert_refresh t db =
     (if rt_id t \<in> set (map rt_id (refreshTokens db)) \<or> rt_tokenHash t \<in> set (map rt_tokenHash (refreshTokens db))
      then None else Some (db\<lparr>refreshTokens := refreshTokens db @ [t]\<rparr>))"

definition createRefreshSession ::
    "jstr \<Rightarrow> jstr \<Rightarrow> jstr \<Rightarrow> jstr \<Rightarrow> int \<Rightarrow> auth_db \<Rightarrow> auth_db option" where
  "createRefreshSession familyId tokenId uid tokenHash expiresAt db =
     (if familyId \<in> set (map fam_id (refreshTokenFamilies db)) then None
      else insert_refresh \<lparr>rt_id = tokenId, rt_familyId = familyId, rt_tokenHash = tokenHash,
             rt_expiresAt = expiresAt, rt_rotatedAt = None\<rparr>
             (db\<lparr>refreshTokenFamilies := refreshTokenFamilies db @
                [\<lparr>fam_id = familyId, fam_userId = uid, fam_revokedAt = None\<rparr>]\<rparr>))"

definition findRefreshTokenByHash :: "auth_db \<Rightarrow> jstr \<Rightarrow> refresh_record option" where
  "findRefreshTokenByHash db tokenHash =
     (case [(t, f). t \<leftarrow> refreshTokens db, f \<leftarrow> refreshTokenFamilies db,
              rt_familyId t = fam_id f \<and> rt_tokenHash t = tokenHash] of
        [] \<Rightarrow> None
      | (t, f) # _ \<Rightarrow> Some \<lparr>rr_id = rt_id t, rr_familyId = rt_familyId t, rr_userId = fam_userId f,
           rr_tokenHash = rt_tokenHash t, rr_expiresAt = rt_expiresAt t, rr_rotatedAt = rt_rotatedAt t,
           rr_familyRevokedAt = fam_revokedAt f\<rparr>)"

definition revokeRefreshFamily :: "jstr \<Rightarrow> int \<Rightarrow> auth_db \<Rightarrow> auth_db" where
  "revokeRefreshFamily familyId now db =
     db\<lparr>refreshTokenFamilies := revoke_families (\<lambda>f. fam_id f = familyId) now (refreshTokenFamilies db)\<rparr>"

text \<open>The rotation: the compare-and-set on \<open>rotated_at\<close>; a failed insert rolls the transaction back.\<close>

definition rotateRefreshToken ::
    "jstr \<Rightarrow> jstr \<Rightarrow> int \<Rightarrow> jstr \<Rightarrow> jstr \<Rightarrow> int \<Rightarrow> auth_db \<Rightarrow> (auth_db \<times> rotation_outcome) option" where
  "rotateRefreshToken tokenId familyId now newId newHash newExpiresAt db =
     (if \<exists>t \<in> set (refreshTokens db). rt_id t = tokenId \<and> rt_rotatedAt t = None
      then map_option (\<lambda>db'. (db', Rotated))
             (insert_refresh \<lparr>rt_id = newId, rt_familyId = familyId, rt_tokenHash = newHash,
                rt_expiresAt = newExpiresAt, rt_rotatedAt = None\<rparr>
                (db\<lparr>refreshTokens := map (\<lambda>t. if rt_id t = tokenId \<and> rt_rotatedAt t = None
                     then t\<lparr>rt_rotatedAt := Some now\<rparr> else t) (refreshTokens db)\<rparr>))
      else Some (revokeRefreshFamily familyId now db, Reused))"

end
