(* ===== verification/AuthService.thy ===== *)
theory AuthService
  imports AuthStore
begin

section \<open>The authentication service\<close>

text \<open>
  \<open>apps/gateway/src/modules/auth/auth.service.ts\<close> over the tables of \<open>AuthStore\<close>, with the whitelist policy
  of \<open>admin.service.ts\<close>. Where another request can run between two awaits of a method and matters, the
  method is two steps: \<open>register\<close> (checks, then creation) and \<open>refresh\<close> (lookup, then rotation). Lower
  case (\<open>lower\<close>), SHA-256 (\<open>sha\<close>) and the check of a password against a hash (\<open>vp\<close>) are arguments; the
  record \<open>draws\<close> holds what one call draws: the time, row ids, the random text and whether mail goes out.
\<close>

definition VERIFICATION_CODE_TTL_MS :: int where "VERIFICATION_CODE_TTL_MS = 24 * 60 * 60 * 1000"
definition PASSWORD_RESET_CODE_TTL_MS :: int where "PASSWORD_RESET_CODE_TTL_MS = 60 * 60 * 1000"
definition REFRESH_TOKEN_TTL_MS :: int where "REFRESH_TOKEN_TTL_MS = 30 * 24 * 60 * 60 * 1000"

datatype auth_error_kind =
    EMAIL_TAKEN
  | EMAIL_NOT_ALLOWED
  | INVALID_CODE
  | MAIL_UNAVAILABLE
  | INVALID_CREDENTIALS
  | EMAIL_UNVERIFIED
  | INVALID_REFRESH
  | REFRESH_REUSED

text \<open>An \<open>AuthError\<close>, or an error of the driver that nothing catches.\<close>

datatype auth_failure = AuthError auth_error_kind | Uncaught

record draws =
  drawn_at :: int
  rowId1 :: jstr
  rowId2 :: jstr
  randomText :: jstr
  mailDelivered :: bool

text \<open>A token pair names the user of the access token.\<close>

record token_pair =
  access_user :: jstr
  refresh_token :: jstr

definition normalizeEmail :: "(jstr \<Rightarrow> jstr) \<Rightarrow> jstr \<Rightarrow> jstr" where
  "normalizeEmail lower email = lower (trim email)"

subsection \<open>The whitelist\<close>

datatype whitelist_entry = DomainEntry jstr | EmailEntry jstr

definition ends_with :: "jstr \<Rightarrow> jstr \<Rightarrow> bool" where
  "ends_with text s = suffix s text"

definition isEmailAllowed :: "(jstr \<Rightarrow> jstr) \<Rightarrow> whitelist_entry list \<Rightarrow> jstr \<Rightarrow> bool" where
  "isEmailAllowed lower ws email =
     (let normalized = normalizeEmail lower email in
      list_ex (\<lambda>w. case w of EmailEntry v \<Rightarrow> v = normalized | DomainEntry v \<Rightarrow> ends_with normalized (js ''@'' @ v)) ws)"

subsection \<open>Registration and codes\<close>

text \<open>
  Every method returns the tables as it leaves them: a failure after a committed statement (mail
  that cannot be delivered) does not undo it.
\<close>

definition issueVerificationCode ::
    "(jstr \<Rightarrow> jstr) \<Rightarrow> draws \<Rightarrow> jstr \<Rightarrow> auth_db \<Rightarrow> auth_db \<times> (auth_failure + unit)" where
  "issueVerificationCode sha d uid db =
     (case createVerificationToken (rowId2 d) uid (sha (randomText d)) (drawn_at d + VERIFICATION_CODE_TTL_MS) db of
        None \<Rightarrow> (db, Inl Uncaught)
      | Some db' \<Rightarrow> (db', if mailDelivered d then Inr () else Inl (AuthError MAIL_UNAVAILABLE)))"

definition register_check ::
    "(jstr \<Rightarrow> jstr) \<Rightarrow> whitelist_entry list option \<Rightarrow> jstr \<Rightarrow> auth_db \<Rightarrow> auth_failure + jstr" where
  "register_check lower policy email db =
     (let normalized = normalizeEmail lower email in
      if (case policy of None \<Rightarrow> False | Some ws \<Rightarrow> \<not> isEmailAllowed lower ws normalized)
      then Inl (AuthError EMAIL_NOT_ALLOWED)
      else if findUserByEmail normalized db \<noteq> None then Inl (AuthError EMAIL_TAKEN)
      else Inr normalized)"

definition register_create ::
    "(jstr \<Rightarrow> jstr) \<Rightarrow> thrown \<Rightarrow> draws \<Rightarrow> jstr \<Rightarrow> jstr \<Rightarrow> auth_db \<Rightarrow> auth_db \<times> (auth_failure + unit)" where
  "register_create sha violation d normalized passwordHash db =
     (case createUser violation (rowId1 d) (drawn_at d) normalized passwordHash db of
        Inl DuplicateEmailError \<Rightarrow> (db, Inl (AuthError EMAIL_TAKEN))
      | Inl (DriverError _) \<Rightarrow> (db, Inl Uncaught)
      | Inr (db', user) \<Rightarrow> issueVerificationCode sha d (ur_id user) db')"

definition verifyEmail ::
    "(jstr \<Rightarrow> jstr) \<Rightarrow> (jstr \<Rightarrow> jstr) \<Rightarrow> draws \<Rightarrow> jstr \<Rightarrow> jstr \<Rightarrow> auth_db \<Rightarrow> auth_db \<times> (auth_failure + unit)" where
  "verifyEmail lower sha d email code db =
     (case findUserByEmail (normalizeEmail lower email) db of
        None \<Rightarrow> (db, Inl (AuthError INVALID_CODE))
      | Some user \<Rightarrow>
          let (db', consumed) = consumeVerificationToken (ur_id user) (sha code) (drawn_at d) db
          in (db', if consumed then Inr () else Inl (AuthError INVALID_CODE)))"

definition resendVerification ::
    "(jstr \<Rightarrow> jstr) \<Rightarrow> (jstr \<Rightarrow> jstr) \<Rightarrow> draws \<Rightarrow> jstr \<Rightarrow> auth_db \<Rightarrow> auth_db \<times> (auth_failure + unit)" where
  "resendVerification lower sha d email db =
     (case findUserByEmail (normalizeEmail lower email) db of
        None \<Rightarrow> (db, Inr ())
      | Some user \<Rightarrow>
          if ur_emailVerifiedAt user \<noteq> None then (db, Inr ())
          else issueVerificationCode sha d (ur_id user) db)"

definition forgotPassword ::
    "(jstr \<Rightarrow> jstr) \<Rightarrow> (jstr \<Rightarrow> jstr) \<Rightarrow> draws \<Rightarrow> jstr \<Rightarrow> auth_db \<Rightarrow> auth_db \<times> (auth_failure + unit)" where
  "forgotPassword lower sha d email db =
     (case findUserByEmail (normalizeEmail lower email) db of
        None \<Rightarrow> (db, Inr ())
      | Some user \<Rightarrow>
          (case createPasswordResetToken (rowId2 d) (ur_id user) (sha (randomText d))
                  (drawn_at d + PASSWORD_RESET_CODE_TTL_MS) db of
             None \<Rightarrow> (db, Inl Uncaught)
           | Some db' \<Rightarrow> (db', Inr ())))"

definition resetPassword ::
    "(jstr \<Rightarrow> jstr) \<Rightarrow> (jstr \<Rightarrow> jstr) \<Rightarrow> draws \<Rightarrow> jstr \<Rightarrow> jstr \<Rightarrow> jstr \<Rightarrow> auth_db
      \<Rightarrow> auth_db \<times> (auth_failure + unit)" where
  "resetPassword lower sha d email code passwordHash db =
     (case findUserByEmail (normalizeEmail lower email) db of
        None \<Rightarrow> (db, Inl (AuthError INVALID_CODE))
      | Some user \<Rightarrow>
          let (db', consumed) = consumePasswordResetToken (ur_id user) (sha code) (drawn_at d) passwordHash db
          in (db', if consumed then Inr () else Inl (AuthError INVALID_CODE)))"

subsection \<open>Sessions\<close>

definition login ::
    "(jstr \<Rightarrow> jstr) \<Rightarrow> (jstr \<Rightarrow> jstr) \<Rightarrow> (jstr \<Rightarrow> jstr \<Rightarrow> bool) \<Rightarrow> draws \<Rightarrow> jstr \<Rightarrow> jstr \<Rightarrow> auth_db
      \<Rightarrow> auth_db \<times> (auth_failure + token_pair)" where
  "login lower sha vp d email password db =
     (case findUserByEmail (normalizeEmail lower email) db of
        None \<Rightarrow> (db, Inl (AuthError INVALID_CREDENTIALS))
      | Some user \<Rightarrow>
          if \<not> vp (ur_passwordHash user) password then (db, Inl (AuthError INVALID_CREDENTIALS))
          else if ur_emailVerifiedAt user = None then (db, Inl (AuthError EMAIL_UNVERIFIED))
          else (case createRefreshSession (rowId1 d) (rowId2 d) (ur_id user) (sha (randomText d))
                       (drawn_at d + REFRESH_TOKEN_TTL_MS) db of
                  None \<Rightarrow> (db, Inl Uncaught)
                | Some db' \<Rightarrow> (db', Inr \<lparr>access_user = ur_id user, refresh_token = randomText d\<rparr>)))"

definition refresh_lookup :: "(jstr \<Rightarrow> jstr) \<Rightarrow> int \<Rightarrow> jstr \<Rightarrow> auth_db \<Rightarrow> auth_failure + refresh_record" where
  "refresh_lookup sha nowMs refreshToken db =
     (case findRefreshTokenByHash db (sha refreshToken) of
        None \<Rightarrow> Inl (AuthError INVALID_REFRESH)
      | Some r \<Rightarrow>
          if rr_expiresAt r \<le> nowMs then Inl (AuthError INVALID_REFRESH)
          else if rr_familyRevokedAt r \<noteq> None then Inl (AuthError REFRESH_REUSED)
          else Inr r)"

definition refresh_rotate ::
    "(jstr \<Rightarrow> jstr) \<Rightarrow> draws \<Rightarrow> refresh_record \<Rightarrow> auth_db \<Rightarrow> auth_db \<times> (auth_failure + token_pair)" where
  "refresh_rotate sha d r db =
     (case rotateRefreshToken (rr_id r) (rr_familyId r) (drawn_at d) (rowId2 d) (sha (randomText d))
             (drawn_at d + REFRESH_TOKEN_TTL_MS) db of
        None \<Rightarrow> (db, Inl Uncaught)
      | Some (db', Reused) \<Rightarrow> (db', Inl (AuthError REFRESH_REUSED))
      | Some (db', Rotated) \<Rightarrow> (db', Inr \<lparr>access_user = rr_userId r, refresh_token = randomText d\<rparr>))"

definition logout :: "(jstr \<Rightarrow> jstr) \<Rightarrow> int \<Rightarrow> jstr \<Rightarrow> auth_db \<Rightarrow> auth_db" where
  "logout sha nowMs refreshToken db =
     (case findRefreshTokenByHash db (sha refreshToken) of
        None \<Rightarrow> db
      | Some r \<Rightarrow> if rr_familyRevokedAt r \<noteq> None then db else revokeRefreshFamily (rr_familyId r) nowMs db)"

subsection \<open>Interleaved requests\<close>

text \<open>
  The requests that have passed their lookup wait in \<open>pending_refreshes\<close>. \<open>answers\<close> logs the outcome of every
  rotation with the id of the token that was presented.
\<close>

record auth_state =
  tables :: auth_db
  pending_refreshes :: "refresh_record list"
  answers :: "(jstr \<times> (auth_failure + token_pair)) list"

definition auth_start :: auth_state where
  "auth_start = \<lparr>tables = empty_db, pending_refreshes = [], answers = []\<rparr>"

datatype auth_op =
    RegisterCreate jstr jstr
  | VerifyEmail jstr jstr
  | ResendVerification jstr
  | ForgotPassword jstr
  | ResetPassword jstr jstr jstr
  | Login jstr jstr
  | RefreshLookup jstr
  | RefreshRotate nat
  | Logout jstr
  | AdminCreateUser jstr jstr
  | AdminResetPassword jstr jstr

text \<open>The functions and constants of the environment, gathered.\<close>

record auth_env =
  env_lower :: "jstr \<Rightarrow> jstr"
  env_sha :: "jstr \<Rightarrow> jstr"
  env_verifyPassword :: "jstr \<Rightarrow> jstr \<Rightarrow> bool"
  env_violation :: thrown

fun auth_step :: "auth_env \<Rightarrow> draws \<Rightarrow> auth_op \<Rightarrow> auth_state \<Rightarrow> auth_state" where
  "auth_step E d (RegisterCreate normalized pw) s =
     s\<lparr>tables := fst (register_create (env_sha E) (env_violation E) d normalized pw (tables s))\<rparr>"
| "auth_step E d (VerifyEmail email code) s = s\<lparr>tables := fst (verifyEmail (env_lower E) (env_sha E) d email code (tables s))\<rparr>"
| "auth_step E d (ResendVerification email) s = s\<lparr>tables := fst (resendVerification (env_lower E) (env_sha E) d email (tables s))\<rparr>"
| "auth_step E d (ForgotPassword email) s = s\<lparr>tables := fst (forgotPassword (env_lower E) (env_sha E) d email (tables s))\<rparr>"
| "auth_step E d (ResetPassword email code pw) s =
     s\<lparr>tables := fst (resetPassword (env_lower E) (env_sha E) d email code pw (tables s))\<rparr>"
| "auth_step E d (Login email pw) s =
     s\<lparr>tables := fst (login (env_lower E) (env_sha E) (env_verifyPassword E) d email pw (tables s))\<rparr>"
| "auth_step E d (RefreshLookup token) s =
     (case refresh_lookup (env_sha E) (drawn_at d) token (tables s) of
        Inl e \<Rightarrow> s
      | Inr r \<Rightarrow> s\<lparr>pending_refreshes := pending_refreshes s @ [r]\<rparr>)"
| "auth_step E d (RefreshRotate i) s =
     (if i < length (pending_refreshes s)
      then let r = pending_refreshes s ! i; (db', answer) = refresh_rotate (env_sha E) d r (tables s)
           in s\<lparr>tables := db', pending_refreshes := remove_at i (pending_refreshes s),
                answers := answers s @ [(rr_id r, answer)]\<rparr>
      else s)"
| "auth_step E d (Logout token) s = s\<lparr>tables := logout (env_sha E) (drawn_at d) token (tables s)\<rparr>"
| "auth_step E d (AdminCreateUser normalized pw) s =
     (case createVerifiedUser (env_violation E) (rowId1 d) (drawn_at d) normalized pw (tables s) of
        Inl _ \<Rightarrow> s
      | Inr (db', _) \<Rightarrow> s\<lparr>tables := db'\<rparr>)"
| "auth_step E d (AdminResetPassword uid pw) s = s\<lparr>tables := fst (setUserPassword uid pw (drawn_at d) (tables s))\<rparr>"

definition auth_run :: "auth_env \<Rightarrow> (draws \<times> auth_op) list \<Rightarrow> auth_state \<Rightarrow> auth_state" where
  "auth_run E ops s = fold (\<lambda>(d, op) s. auth_step E d op s) ops s"

end
