(* ===== verification/AuthProps.thy ===== *)
theory AuthProps
  imports AuthService
begin

section \<open>Sessions and codes over histories\<close>

text \<open>
  The locale \<open>session_store\<close> is the contract of the session tables: a change keeps the invariant, a
  revoked family stays revoked, and a lookup reports it. It is interpreted on the tables with every change
  the service makes (\<open>session_change\<close>); the properties of refresh tokens and reset codes rest on it.
\<close>

locale session_store =
  fixes inv :: "'db \<Rightarrow> bool"
    and find :: "'db \<Rightarrow> jstr \<Rightarrow> refresh_record option"
    and revoked :: "'db \<Rightarrow> jstr \<Rightarrow> bool"
    and change :: "'db \<Rightarrow> 'db \<Rightarrow> bool"
  assumes change_inv: "inv s \<Longrightarrow> change s s' \<Longrightarrow> inv s'"
    and revoked_change: "inv s \<Longrightarrow> change s s' \<Longrightarrow> revoked s f \<Longrightarrow> revoked s' f"
    and find_revoked: "inv s \<Longrightarrow> find s h = Some r \<Longrightarrow> revoked s (rr_familyId r) \<Longrightarrow> rr_familyRevokedAt r \<noteq> None"
begin

lemma revoked_forever:
  assumes "change\<^sup>*\<^sup>* s s'" "inv s" "revoked s f"
  shows "inv s' \<and> revoked s' f"
  using assms by (induction rule: rtranclp_induct) (auto intro: change_inv revoked_change)

lemma revoked_found:
  assumes "change\<^sup>*\<^sup>* s s'" "inv s" "revoked s f" "find s' h = Some r" "rr_familyId r = f"
  shows "rr_familyRevokedAt r \<noteq> None"
  using revoked_forever [OF assms(1-3)] find_revoked assms(4,5) by blast

end

subsection \<open>The session tables\<close>

definition unrotated :: "jstr \<Rightarrow> refresh_row \<Rightarrow> bool" where
  "unrotated f t \<longleftrightarrow> rt_familyId t = f \<and> rt_rotatedAt t = None"

definition session_inv :: "auth_db \<Rightarrow> bool" where
  "session_inv db \<longleftrightarrow>
     distinct (map rt_id (refreshTokens db)) \<and> distinct (map rt_tokenHash (refreshTokens db)) \<and>
     distinct (map fam_id (refreshTokenFamilies db)) \<and>
     (\<forall>t \<in> set (refreshTokens db). rt_familyId t \<in> set (map fam_id (refreshTokenFamilies db))) \<and>
     (\<forall>f. length (filter (unrotated f) (refreshTokens db)) \<le> 1)"

definition family_revoked :: "auth_db \<Rightarrow> jstr \<Rightarrow> bool" where
  "family_revoked db f \<longleftrightarrow> (\<exists>row \<in> set (refreshTokenFamilies db). fam_id row = f \<and> fam_revokedAt row \<noteq> None)"

inductive session_change :: "auth_db \<Rightarrow> auth_db \<Rightarrow> bool" where
  same: "refreshTokens db' = refreshTokens db \<Longrightarrow> refreshTokenFamilies db' = refreshTokenFamilies db \<Longrightarrow>
     session_change db db'"
| revoke: "refreshTokens db' = refreshTokens db \<Longrightarrow>
     refreshTokenFamilies db' = revoke_families P t (refreshTokenFamilies db) \<Longrightarrow> session_change db db'"
| create: "createRefreshSession fid tid uid h e db = Some db' \<Longrightarrow> session_change db db'"
| rotate: "\<exists>t \<in> set (refreshTokens db). rt_id t = tid \<and> rt_familyId t = fid \<Longrightarrow>
     rotateRefreshToken tid fid t nid h e db = Some (db', Rotated) \<Longrightarrow> session_change db db'"

lemma fam_id_revoke [simp]: "map fam_id (revoke_families P t fs) = map fam_id fs"
  by (induction fs) (auto simp: revoke_families_def)

lemma family_revoked_revoke:
  "refreshTokenFamilies db' = revoke_families P t (refreshTokenFamilies db) \<Longrightarrow> family_revoked db f \<Longrightarrow> family_revoked db' f"
  by (auto simp: family_revoked_def revoke_families_def image_iff split: if_splits)

lemma revoke_revokes:
  "refreshTokenFamilies db' = revoke_families (\<lambda>f. fam_id f = fid) t (refreshTokenFamilies db) \<Longrightarrow>
   fid \<in> set (map fam_id (refreshTokenFamilies db)) \<Longrightarrow> family_revoked db' fid"
proof -
  assume fs: "refreshTokenFamilies db' = revoke_families (\<lambda>f. fam_id f = fid) t (refreshTokenFamilies db)"
    and "fid \<in> set (map fam_id (refreshTokenFamilies db))"
  then obtain row where row: "row \<in> set (refreshTokenFamilies db)" "fam_id row = fid" by auto
  define row' where "row' = (if fam_id row = fid \<and> fam_revokedAt row = None then row\<lparr>fam_revokedAt := Some t\<rparr> else row)"
  have "row' \<in> set (refreshTokenFamilies db')"
    unfolding fs revoke_families_def set_map row'_def using row(1) by (rule imageI)
  moreover have "fam_id row' = fid" "fam_revokedAt row' \<noteq> None" using row(2) by (auto simp: row'_def)
  ultimately show ?thesis by (auto simp: family_revoked_def)
qed

text \<open>What a rotation does to the tokens.\<close>

definition mark_rotated :: "jstr \<Rightarrow> int \<Rightarrow> refresh_row list \<Rightarrow> refresh_row list" where
  "mark_rotated tid t ts =
     map (\<lambda>r. if rt_id r = tid \<and> rt_rotatedAt r = None then r\<lparr>rt_rotatedAt := Some t\<rparr> else r) ts"

lemma mark_rotated_maps [simp]:
  "map rt_id (mark_rotated tid t ts) = map rt_id ts" "map rt_tokenHash (mark_rotated tid t ts) = map rt_tokenHash ts"
  "map rt_familyId (mark_rotated tid t ts) = map rt_familyId ts"
  by (induction ts) (auto simp: mark_rotated_def)

lemma rotate_cases:
  assumes "rotateRefreshToken tid fid t nid h e db = Some (db', oc)"
  obtains (rotated) r where "oc = Rotated" "r \<in> set (refreshTokens db)" "rt_id r = tid" "rt_rotatedAt r = None"
      "nid \<notin> set (map rt_id (refreshTokens db))" "h \<notin> set (map rt_tokenHash (refreshTokens db))"
      "refreshTokens db' = mark_rotated tid t (refreshTokens db) @
         [\<lparr>rt_id = nid, rt_familyId = fid, rt_tokenHash = h, rt_expiresAt = e, rt_rotatedAt = None\<rparr>]"
      "refreshTokenFamilies db' = refreshTokenFamilies db"
  | (reused) "oc = Reused" "db' = revokeRefreshFamily fid t db"
      "\<And>r. r \<in> set (refreshTokens db) \<Longrightarrow> rt_id r = tid \<Longrightarrow> rt_rotatedAt r \<noteq> None"
proof (cases "\<exists>r \<in> set (refreshTokens db). rt_id r = tid \<and> rt_rotatedAt r = None")
  case True
  let ?m = "mark_rotated tid t (refreshTokens db)"
  from True assms have ins: "insert_refresh \<lparr>rt_id = nid, rt_familyId = fid, rt_tokenHash = h, rt_expiresAt = e, rt_rotatedAt = None\<rparr>
      (db\<lparr>refreshTokens := ?m\<rparr>) = Some db'" "oc = Rotated"
    by (auto simp: rotateRefreshToken_def mark_rotated_def)
  have "nid \<notin> set (map rt_id ?m)" "h \<notin> set (map rt_tokenHash ?m)" "refreshTokens db' = ?m @
         [\<lparr>rt_id = nid, rt_familyId = fid, rt_tokenHash = h, rt_expiresAt = e, rt_rotatedAt = None\<rparr>]"
      "refreshTokenFamilies db' = refreshTokenFamilies db"
    using ins(1) by (auto simp: insert_refresh_def simp del: mark_rotated_maps split: if_splits)
  with True ins(2) rotated show ?thesis unfolding mark_rotated_maps by blast
next
  case False
  with assms reused show ?thesis by (auto simp: rotateRefreshToken_def split: if_splits)
qed

lemma create_cases:
  assumes "createRefreshSession fid tid uid h e db = Some db'"
  obtains "fid \<notin> set (map fam_id (refreshTokenFamilies db))" "tid \<notin> set (map rt_id (refreshTokens db))"
    "h \<notin> set (map rt_tokenHash (refreshTokens db))"
    "refreshTokens db' = refreshTokens db @
       [\<lparr>rt_id = tid, rt_familyId = fid, rt_tokenHash = h, rt_expiresAt = e, rt_rotatedAt = None\<rparr>]"
    "refreshTokenFamilies db' = refreshTokenFamilies db @ [\<lparr>fam_id = fid, fam_userId = uid, fam_revokedAt = None\<rparr>]"
  using assms by (auto simp: createRefreshSession_def insert_refresh_def split: if_splits)

lemma unrotated_mark:
  "filter (unrotated f) (mark_rotated tid t ts) = filter (\<lambda>r. unrotated f r \<and> rt_id r \<noteq> tid) ts"
  by (induction ts) (auto simp: mark_rotated_def unrotated_def)

lemma rotate_keeps_one:
  assumes "distinct (map rt_id ts)" "r \<in> set ts" "rt_id r = tid" "rt_rotatedAt r = None"
    and "length (filter (unrotated f) ts) \<le> 1"
  shows "length (filter (unrotated f) (mark_rotated tid t ts)) + (if rt_familyId r = f then 1 else 0) \<le> 1"
proof (cases "rt_familyId r = f")
  case True
  with assms have "r \<in> set (filter (unrotated f) ts)" by (simp add: unrotated_def)
  with assms(5) have "filter (unrotated f) ts = [r]"
    by (cases "filter (unrotated f) ts") (auto simp: le_Suc_eq)
  then have "filter (\<lambda>x. rt_id x \<noteq> tid) (filter (unrotated f) ts) = []" using assms(3) by simp
  then have "filter (unrotated f) (mark_rotated tid t ts) = []"
    unfolding unrotated_mark filter_filter by (simp add: conj_commute)
  with True show ?thesis by simp
next
  case False
  have "length (filter (\<lambda>r. unrotated f r \<and> rt_id r \<noteq> tid) ts) \<le> length (filter (unrotated f) ts)"
    by (induction ts) auto
  with False assms(5) show ?thesis by (simp add: unrotated_mark)
qed

lemma session_inv_change:
  assumes inv: "session_inv db" and ch: "session_change db db'"
  shows "session_inv db'"
  using ch
proof cases
  case (rotate tid fid t nid h e)
  from rotate(2) show ?thesis
  proof (cases rule: rotate_cases)
    case (rotated r)
    from rotate(1) obtain r' where "r' \<in> set (refreshTokens db)" "rt_id r' = tid" "rt_familyId r' = fid" by blast
    moreover have "distinct (map rt_id (refreshTokens db))" using inv by (simp add: session_inv_def)
    ultimately have fam: "rt_familyId r = fid" using rotated(2,3) by (metis distinct_map inj_onD)
    have "length (filter (unrotated f) (refreshTokens db')) \<le> 1" for f
      using rotate_keeps_one [of "refreshTokens db" r tid f t] inv rotated(2-4) fam
      by (auto simp: rotated(7) session_inv_def unrotated_def split: if_splits)
    moreover have "\<forall>x \<in> set (refreshTokens db'). rt_familyId x \<in> set (map fam_id (refreshTokenFamilies db'))"
    proof -
      have "set (map rt_familyId (refreshTokens db')) = insert fid (set (map rt_familyId (refreshTokens db)))"
        by (simp add: rotated(7) del: set_map)
      also have "\<dots> = set (map rt_familyId (refreshTokens db))" using fam rotated(2) by force
      finally have same: "rt_familyId ` set (refreshTokens db') = rt_familyId ` set (refreshTokens db)" by simp
      show ?thesis
      proof
        fix x assume "x \<in> set (refreshTokens db')"
        then have "rt_familyId x \<in> rt_familyId ` set (refreshTokens db)" using same by blast
        then obtain y where "y \<in> set (refreshTokens db)" "rt_familyId x = rt_familyId y" by blast
        with inv show "rt_familyId x \<in> set (map fam_id (refreshTokenFamilies db'))"
          by (simp add: session_inv_def rotated(8))
      qed
    qed
    ultimately show ?thesis using inv rotated(5-8) by (simp add: session_inv_def)
  qed simp
next
  case (create fid tid uid h e)
  then show ?thesis
  proof (cases rule: create_cases)
    case 1
    have none: "filter (unrotated fid) (refreshTokens db) = []"
      using inv 1(1) by (auto simp: session_inv_def unrotated_def filter_empty_conv)
    have "length (filter (unrotated f) (refreshTokens db')) \<le> 1" for f
      using inv none by (cases "f = fid") (auto simp: 1(4) session_inv_def unrotated_def)
    then show ?thesis using inv 1 by (auto simp: session_inv_def)
  qed
next
  case (revoke P t)
  have "set (map fam_id (refreshTokenFamilies db')) = set (map fam_id (refreshTokenFamilies db))"
    by (simp only: revoke fam_id_revoke)
  with inv revoke show ?thesis unfolding session_inv_def by (simp del: set_map)
qed (use inv in \<open>simp add: session_inv_def\<close>)

lemma revoked_session_change:
  assumes ch: "session_change db db'" and f: "family_revoked db f"
  shows "family_revoked db' f"
  using ch
proof cases
  case (rotate tid fid t nid h e)
  from rotate(2) show ?thesis
    using f by (cases rule: rotate_cases) (auto simp: family_revoked_def)
next
  case (create fid tid uid h e)
  then show ?thesis using f by (cases rule: create_cases) (auto simp: family_revoked_def)
next
  case (revoke P t)
  then show ?thesis using f family_revoked_revoke by blast
qed (use f in \<open>simp add: family_revoked_def\<close>)

lemma findRefresh_Some:
  assumes "findRefreshTokenByHash db h = Some r"
  obtains t f where "t \<in> set (refreshTokens db)" "f \<in> set (refreshTokenFamilies db)" "rt_familyId t = fam_id f"
    "rt_tokenHash t = h" "rr_id r = rt_id t" "rr_familyId r = fam_id f" "rr_userId r = fam_userId f"
    "rr_rotatedAt r = rt_rotatedAt t" "rr_familyRevokedAt r = fam_revokedAt f"
proof -
  let ?js = "[(t, f). t \<leftarrow> refreshTokens db, f \<leftarrow> refreshTokenFamilies db,
              rt_familyId t = fam_id f \<and> rt_tokenHash t = h]"
  obtain t f js where js: "?js = (t, f) # js"
    using assms by (cases ?js) (auto simp: findRefreshTokenByHash_def)
  then have "(t, f) \<in> set ?js" by simp
  then have "t \<in> set (refreshTokens db)" "f \<in> set (refreshTokenFamilies db)" "rt_familyId t = fam_id f"
    "rt_tokenHash t = h" by auto
  with assms js that show ?thesis by (auto simp: findRefreshTokenByHash_def)
qed

interpretation auth_tables: session_store session_inv findRefreshTokenByHash family_revoked session_change
proof
  fix s h r
  assume inv: "session_inv s" and fnd: "findRefreshTokenByHash s h = Some r" and rev: "family_revoked s (rr_familyId r)"
  from fnd obtain t f where f: "f \<in> set (refreshTokenFamilies s)" "rr_familyId r = fam_id f" "rr_familyRevokedAt r = fam_revokedAt f"
    by (rule findRefresh_Some)
  from rev obtain row where row: "row \<in> set (refreshTokenFamilies s)" "fam_id row = rr_familyId r" "fam_revokedAt row \<noteq> None"
    by (auto simp: family_revoked_def)
  have "distinct (map fam_id (refreshTokenFamilies s))" using inv by (simp add: session_inv_def)
  with f row have "row = f" by (metis distinct_map inj_onD)
  with f row show "rr_familyRevokedAt r \<noteq> None" by simp
qed (auto intro: session_inv_change revoked_session_change)

subsection \<open>Every request is a change of the session tables\<close>

lemma issueCode_change: "session_change db (fst (issueVerificationCode h d uid db))"
  by (intro session_change.same) (auto simp: issueVerificationCode_def createVerificationToken_def split: option.splits)

lemma issueCode_sessions:
  "refreshTokens (fst (issueVerificationCode h d uid db)) = refreshTokens db"
  "refreshTokenFamilies (fst (issueVerificationCode h d uid db)) = refreshTokenFamilies db"
  by (auto simp: issueVerificationCode_def createVerificationToken_def split: option.splits)

lemma register_change: "session_change db (fst (register_create h v d email pw db))"
  by (intro session_change.same)
    (auto simp: register_create_def createUser_def insert_user_def Let_def issueCode_sessions
      split: sum.splits repo_error.splits option.splits if_splits)

lemma verify_change: "session_change db (fst (verifyEmail lo h d email c db))"
  by (intro session_change.same)
    (auto simp: verifyEmail_def consumeVerificationToken_def split: option.splits prod.splits if_splits)

lemma resend_change: "session_change db (fst (resendVerification lo h d email db))"
  by (intro session_change.same) (auto simp: resendVerification_def issueCode_sessions split: option.splits)

lemma forgot_change: "session_change db (fst (forgotPassword lo h d email db))"
  by (intro session_change.same)
    (auto simp: forgotPassword_def createPasswordResetToken_def split: option.splits)

lemma set_password_change: "refreshTokens db0 = refreshTokens db \<Longrightarrow> refreshTokenFamilies db0 = refreshTokenFamilies db \<Longrightarrow>
   session_change db (set_password uid pw t db0)"
  by (rule session_change.revoke) (simp_all add: set_password_def)

lemma reset_change: "session_change db (fst (resetPassword lo h d email c pw db))"
  by (auto simp: resetPassword_def consumePasswordResetToken_def session_change.same set_password_change
    split: option.splits prod.splits if_splits)

lemma admin_reset_change: "session_change db (fst (setUserPassword uid pw t db))"
  by (auto simp: setUserPassword_def session_change.same set_password_change)

lemma login_change: "session_change db (fst (login lo h vp d email pw db))"
  by (auto simp: login_def session_change.same intro: session_change.create split: option.splits)

lemma logout_change: "session_change db (logout h t token db)"
  by (auto simp: logout_def session_change.same revokeRefreshFamily_def intro: session_change.revoke split: option.splits)

lemma admin_create_change:
  "createVerifiedUser v rid t email pw db = Inr (db', u) \<Longrightarrow> session_change db db'"
  by (intro session_change.same) (auto simp: createVerifiedUser_def insert_user_def Let_def split: option.splits if_splits)

lemmas request_changes = register_change verify_change resend_change forgot_change reset_change admin_reset_change
  login_change logout_change

lemma refresh_rotate_change:
  assumes "\<exists>t \<in> set (refreshTokens db). rt_id t = rr_id r \<and> rt_familyId t = rr_familyId r"
  shows "session_change db (fst (refresh_rotate h d r db))"
proof (cases "rotateRefreshToken (rr_id r) (rr_familyId r) (drawn_at d) (rowId2 d) (h (randomText d))
             (drawn_at d + REFRESH_TOKEN_TTL_MS) db")
  case None
  then show ?thesis by (simp add: refresh_rotate_def session_change.same)
next
  case (Some x)
  obtain db' oc where x: "x = (db', oc)" by force
  show ?thesis
  proof (cases oc)
    case Rotated
    with Some x session_change.rotate [OF assms] show ?thesis by (simp add: refresh_rotate_def)
  next
    case Reused
    with Some x have "db' = revokeRefreshFamily (rr_familyId r) (drawn_at d) db"
      by (auto simp: rotateRefreshToken_def split: if_splits)
    with Some x Reused show ?thesis
      by (auto simp: refresh_rotate_def revokeRefreshFamily_def intro: session_change.revoke)
  qed
qed

text \<open>A token row stays, with its family and hash, and a rotated one stays rotated.\<close>

lemma change_keeps_token:
  assumes ch: "session_change db db'" and t: "t \<in> set (refreshTokens db)"
  shows "\<exists>t' \<in> set (refreshTokens db'). rt_id t' = rt_id t \<and> rt_familyId t' = rt_familyId t
     \<and> (rt_rotatedAt t \<noteq> None \<longrightarrow> rt_rotatedAt t' \<noteq> None)"
  using ch
proof cases
  case (rotate tid fid tm nid h e)
  from rotate(2) show ?thesis
  proof (cases rule: rotate_cases)
    case (rotated r)
    define t' where "t' = (if rt_id t = tid \<and> rt_rotatedAt t = None then t\<lparr>rt_rotatedAt := Some tm\<rparr> else t)"
    have "t' \<in> set (refreshTokens db')" unfolding rotated(7) mark_rotated_def t'_def using t by simp
    moreover have "rt_id t' = rt_id t" "rt_familyId t' = rt_familyId t" "rt_rotatedAt t \<noteq> None \<longrightarrow> rt_rotatedAt t' \<noteq> None"
      by (auto simp: t'_def)
    ultimately show ?thesis by blast
  qed simp
next
  case (create fid tid uid h e)
  then show ?thesis using t by (cases rule: create_cases) auto
qed (use t in auto)

definition in_flight_ok :: "auth_state \<Rightarrow> bool" where
  "in_flight_ok s \<longleftrightarrow>
     (\<forall>r \<in> set (pending_refreshes s). \<exists>t \<in> set (refreshTokens (tables s)). rt_id t = rr_id r \<and> rt_familyId t = rr_familyId r)"

definition auth_inv :: "auth_state \<Rightarrow> bool" where
  "auth_inv s \<longleftrightarrow> session_inv (tables s) \<and> in_flight_ok s"

lemma in_flight_change:
  "in_flight_ok s \<Longrightarrow> session_change (tables s) db' \<Longrightarrow> set (pending_refreshes s') \<subseteq> set (pending_refreshes s) \<Longrightarrow>
   tables s' = db' \<Longrightarrow> in_flight_ok s'"
  unfolding in_flight_ok_def by (metis change_keeps_token subsetD)

lemma auth_step_change:
  assumes inv: "auth_inv s"
  shows "session_change (tables s) (tables (auth_step E d op s)) \<and> auth_inv (auth_step E d op s)"
proof -
  have si: "session_inv (tables s)" and fl: "in_flight_ok s" using inv by (simp_all add: auth_inv_def)
  have simple: "session_change (tables s) (tables (s\<lparr>tables := db'\<rparr>)) \<and> auth_inv (s\<lparr>tables := db'\<rparr>)"
    if "session_change (tables s) db'" for db'
    using that si fl session_inv_change in_flight_change [OF fl that] by (simp add: auth_inv_def)
  show ?thesis
  proof (cases op)
    case (RefreshLookup token)
    show ?thesis
    proof (cases "refresh_lookup (env_sha E) (drawn_at d) token (tables s)")
      case (Inl e)
      with RefreshLookup inv show ?thesis by (simp add: session_change.same)
    next
      case (Inr r)
      then have "findRefreshTokenByHash (tables s) (env_sha E token) = Some r"
        by (auto simp: refresh_lookup_def split: option.splits if_splits)
      then have "\<exists>t \<in> set (refreshTokens (tables s)). rt_id t = rr_id r \<and> rt_familyId t = rr_familyId r"
        by (elim findRefresh_Some) auto
      with RefreshLookup Inr inv show ?thesis
        by (simp add: session_change.same auth_inv_def in_flight_ok_def)
    qed
  next
    case (RefreshRotate i)
    show ?thesis
    proof (cases "i < length (pending_refreshes s)")
      case True
      let ?r = "pending_refreshes s ! i"
      have "?r \<in> set (pending_refreshes s)" using True by simp
      with fl have ch: "session_change (tables s) (fst (refresh_rotate (env_sha E) d ?r (tables s)))"
        by (intro refresh_rotate_change) (auto simp: in_flight_ok_def)
      have "in_flight_ok (auth_step E d op s)"
        by (rule in_flight_change [OF fl ch])
          (use RefreshRotate True set_remove_at_subset [of i "pending_refreshes s"] in \<open>simp_all add: split_beta Let_def\<close>)
      with ch session_inv_change [OF si ch] RefreshRotate True show ?thesis
        by (simp add: auth_inv_def split_beta Let_def)
    next
      case False
      with RefreshRotate inv show ?thesis by (simp add: session_change.same)
    qed
  next
    case (AdminCreateUser email pw)
    then show ?thesis
      using inv simple admin_create_change
      by (cases "createVerifiedUser (env_violation E) (rowId1 d) (drawn_at d) email pw (tables s)")
        (auto simp: session_change.same)
  qed (use simple request_changes in simp_all)
qed

lemma auth_run_simps [simp]:
  "auth_run E [] s = s" "auth_run E ((d, op) # ops) s = auth_run E ops (auth_step E d op s)"
  by (simp_all add: auth_run_def)

lemma auth_inv_start [simp]: "auth_inv auth_start"
  by (simp add: auth_inv_def auth_start_def empty_db_def session_inv_def in_flight_ok_def)

lemma auth_run_changes:
  "auth_inv s \<Longrightarrow> session_change\<^sup>*\<^sup>* (tables s) (tables (auth_run E ops s)) \<and> auth_inv (auth_run E ops s)"
proof (induction ops arbitrary: s)
  case (Cons x ops)
  obtain d op where x: "x = (d, op)" by force
  have "session_change (tables s) (tables (auth_step E d op s)) \<and> auth_inv (auth_step E d op s)"
    by (rule auth_step_change [OF Cons.prems])
  with Cons.IH [of "auth_step E d op s"] x show ?case by (auto intro: converse_rtranclp_into_rtranclp)
qed simp

lemma refused_if_revoked:
  assumes "auth_inv s" "family_revoked (tables s) f"
    "findRefreshTokenByHash (tables (auth_run E ops s)) (env_sha E token) = Some r" "rr_familyId r = f"
  shows "\<exists>e. refresh_lookup (env_sha E) t token (tables (auth_run E ops s)) = Inl (AuthError e)"
proof -
  have "rr_familyRevokedAt r \<noteq> None"
    using auth_tables.revoked_found [OF conjunct1 [OF auth_run_changes [OF assms(1)]] _ assms(2-4)] assms(1)
    by (simp add: auth_inv_def)
  with assms(3) show ?thesis by (auto simp: refresh_lookup_def)
qed

text \<open>An account and a session of the examples.\<close>

abbreviation sample_env :: auth_env where
  "sample_env \<equiv> \<lparr>env_lower = id, env_sha = id, env_verifyPassword = (=), env_violation = Thrown None None\<rparr>"

definition draw :: "int \<Rightarrow> string \<Rightarrow> string \<Rightarrow> draws" where
  "draw t i txt = \<lparr>drawn_at = t, rowId1 = js (CHR ''a'' # i), rowId2 = js (CHR ''b'' # i), randomText = js txt, mailDelivered = True\<rparr>"

abbreviation sample_session :: "(draws \<times> auth_op) list" where
  "sample_session \<equiv> [(draw 1 ''1'' ''x'', AdminCreateUser (js ''u'') (js ''p'')), (draw 2 ''2'' ''t1'', Login (js ''u'') (js ''p''))]"

lemma trim_js_u [simp]: "trim (js ''u'') = js ''u''"
  by (simp add: trim_def js_def whitespace_def)

lemmas auth_eval = auth_start_def empty_db_def draw_def createVerifiedUser_def insert_user_def user_of_def Let_def
  login_def normalizeEmail_def findUserByEmail_def createRefreshSession_def insert_refresh_def REFRESH_TOKEN_TTL_MS_def
  refresh_lookup_def findRefreshTokenByHash_def refresh_rotate_def rotateRefreshToken_def revokeRefreshFamily_def
  revoke_families_def remove_at_def forgotPassword_def createPasswordResetToken_def insert_code_def
  PASSWORD_RESET_CODE_TTL_MS_def resetPassword_def consumePasswordResetToken_def live_code_def set_password_def
  consume_codes_def

subsection \<open>Refresh tokens\<close>

definition wins :: "jstr \<Rightarrow> auth_state \<Rightarrow> nat" where
  "wins tid s = length (filter (\<lambda>(t, a). t = tid \<and> \<not> isl a) (answers s))"

definition is_rotated :: "jstr \<Rightarrow> auth_db \<Rightarrow> bool" where
  "is_rotated tid db \<longleftrightarrow> (\<exists>t \<in> set (refreshTokens db). rt_id t = tid \<and> rt_rotatedAt t \<noteq> None)"

lemma is_rotated_change: "session_change db db' \<Longrightarrow> is_rotated tid db \<Longrightarrow> is_rotated tid db'"
  unfolding is_rotated_def by (metis change_keeps_token)

lemma answers_step:
  "answers (auth_step E d op s) = answers s \<or>
   (\<exists>i. op = RefreshRotate i \<and> i < length (pending_refreshes s) \<and>
      (let r = pending_refreshes s ! i; (db', a) = refresh_rotate (env_sha E) d r (tables s)
       in tables (auth_step E d op s) = db' \<and> answers (auth_step E d op s) = answers s @ [(rr_id r, a)]))"
  by (cases op) (auto simp: split_beta Let_def split: sum.splits)

lemma rotate_answer:
  assumes "refresh_rotate h d r db = (db', a)" "session_inv db"
  shows "\<not> isl a \<Longrightarrow> \<not> is_rotated (rr_id r) db \<and> is_rotated (rr_id r) db'"
    "a = Inl (AuthError REFRESH_REUSED) \<Longrightarrow> rr_familyId r \<in> set (map fam_id (refreshTokenFamilies db)) \<Longrightarrow>
       family_revoked db' (rr_familyId r)"
proof -
  let ?rot = "rotateRefreshToken (rr_id r) (rr_familyId r) (drawn_at d) (rowId2 d) (h (randomText d))
             (drawn_at d + REFRESH_TOKEN_TTL_MS) db"
  show "\<not> is_rotated (rr_id r) db \<and> is_rotated (rr_id r) db'" if "\<not> isl a"
  proof -
    from that assms(1) have rot: "?rot = Some (db', Rotated)"
      by (auto simp: refresh_rotate_def split: option.splits prod.splits rotation_outcome.splits)
    then show ?thesis
    proof (cases rule: rotate_cases)
      case (rotated x)
      have "distinct (map rt_id (refreshTokens db))" using assms(2) by (simp add: session_inv_def)
      then have "\<not> is_rotated (rr_id r) db"
        using rotated(2-4) unfolding is_rotated_def by (metis distinct_map inj_onD)
      moreover have "x\<lparr>rt_rotatedAt := Some (drawn_at d)\<rparr> \<in> set (refreshTokens db')"
        unfolding rotated(7) mark_rotated_def using rotated(2-4) by force
      then have "is_rotated (rr_id r) db'" unfolding is_rotated_def
        by (rule bexI [rotated]) (simp add: rotated(3))
      ultimately show ?thesis by simp
    qed simp
  qed
  show "family_revoked db' (rr_familyId r)"
    if "a = Inl (AuthError REFRESH_REUSED)" "rr_familyId r \<in> set (map fam_id (refreshTokenFamilies db))"
  proof -
    from that assms(1) have "?rot = Some (db', Reused)"
      by (auto simp: refresh_rotate_def split: option.splits prod.splits rotation_outcome.splits)
    then show ?thesis
      using that(2) by (cases rule: rotate_cases) (auto simp: revokeRefreshFamily_def intro: revoke_revokes)
  qed
qed

lemma wins_step:
  assumes inv: "auth_inv s" and w: "wins tid s \<le> (if is_rotated tid (tables s) then 1 else 0)"
  shows "wins tid (auth_step E d op s) \<le> (if is_rotated tid (tables (auth_step E d op s)) then 1 else 0)"
proof -
  let ?s = "auth_step E d op s"
  have ch: "session_change (tables s) (tables ?s)" using auth_step_change [OF inv] by blast
  have si: "session_inv (tables s)" using inv by (simp add: auth_inv_def)
  from answers_step [of E d op s] show ?thesis
  proof
    assume "answers ?s = answers s"
    then have "wins tid ?s = wins tid s" by (simp add: wins_def)
    with w is_rotated_change [OF ch, of tid] show ?thesis by (simp split: if_splits)
  next
    assume "\<exists>i. op = RefreshRotate i \<and> i < length (pending_refreshes s) \<and>
      (let r = pending_refreshes s ! i; (db', a) = refresh_rotate (env_sha E) d r (tables s)
       in tables ?s = db' \<and> answers ?s = answers s @ [(rr_id r, a)])"
    then obtain i where i: "(let r = pending_refreshes s ! i; (db', a) = refresh_rotate (env_sha E) d r (tables s)
       in tables ?s = db' \<and> answers ?s = answers s @ [(rr_id r, a)])" by blast
    define r where "r = pending_refreshes s ! i"
    obtain db' a where ra: "refresh_rotate (env_sha E) d r (tables s) = (db', a)" by force
    with i have ra': "tables ?s = db'" "answers ?s = answers s @ [(rr_id r, a)]" by (simp_all add: r_def Let_def)
    show ?thesis
    proof (cases "rr_id r = tid \<and> \<not> isl a")
      case True
      with rotate_answer(1) [OF ra si] w ra' show ?thesis by (simp add: wins_def)
    next
      case False
      then have "wins tid ?s = wins tid s" using ra'(2) by (auto simp: wins_def)
      with w is_rotated_change [OF ch, of tid] show ?thesis by (simp split: if_splits)
    qed
  qed
qed

lemma wins_run:
  "auth_inv s \<Longrightarrow> wins tid s \<le> (if is_rotated tid (tables s) then 1 else 0) \<Longrightarrow> wins tid (auth_run E ops s) \<le> 1"
proof (induction ops arbitrary: s)
  case Nil
  then show ?case by (simp split: if_splits)
next
  case (Cons x ops)
  obtain d op where x: "x = (d, op)" by force
  have "auth_inv (auth_step E d op s)" using auth_step_change [OF Cons.prems(1)] by blast
  from Cons.IH [OF this wins_step [OF Cons.prems]] x show ?case by simp
qed

text \<open>
  C35: A refresh token rotates at most once: in any interleaving of requests, however many refreshes of the
  same token are between their lookup and their rotation, and whatever logins, logouts and resets run
  in between, at most one of them gets a new pair.
\<close>

theorem refresh_token_rotates_once:
  "wins tid (auth_run E ops auth_start) \<le> 1"
  by (rule wins_run [OF auth_inv_start]) (simp add: wins_def auth_start_def)

lemma in_flight_family:
  assumes "auth_inv s" "r \<in> set (pending_refreshes s)"
  shows "rr_familyId r \<in> set (map fam_id (refreshTokenFamilies (tables s)))"
proof -
  from assms obtain t where t: "t \<in> set (refreshTokens (tables s))" "rt_familyId t = rr_familyId r"
    by (auto simp: auth_inv_def in_flight_ok_def)
  then have "rt_familyId t \<in> set (map fam_id (refreshTokenFamilies (tables s)))"
    using assms(1) unfolding auth_inv_def session_inv_def by blast
  with t show ?thesis by simp
qed

text \<open>No request of a revoked family passes its lookup: those in flight only get fewer.\<close>

definition in_flight :: "jstr \<Rightarrow> auth_state \<Rightarrow> refresh_record multiset" where
  "in_flight f s = mset (filter (\<lambda>r. rr_familyId r = f) (pending_refreshes s))"

lemma in_flight_step:
  assumes inv: "auth_inv s" and rev: "family_revoked (tables s) f"
  shows "in_flight f (auth_step E d op s) \<subseteq># in_flight f s"
proof (cases op)
  case (RefreshLookup token)
  have "rr_familyId r \<noteq> f" if l: "refresh_lookup (env_sha E) (drawn_at d) token (tables s) = Inr r" for r
  proof
    assume f: "rr_familyId r = f"
    from l have found: "findRefreshTokenByHash (tables s) (env_sha E token) = Some r"
      by (auto simp: refresh_lookup_def split: option.splits if_splits)
    from refused_if_revoked [OF inv rev, of E "[]" token r "drawn_at d"] found f l show False by simp
  qed
  with RefreshLookup show ?thesis by (auto simp: in_flight_def split: sum.split)
next
  case (RefreshRotate i)
  then show ?thesis
    by (auto simp: in_flight_def Let_def split_beta mset_filter mset_remove_at_eq intro!: multiset_filter_mono)
qed (auto simp: in_flight_def Let_def split: sum.split prod.split)

lemma in_flight_run:
  "auth_inv s \<Longrightarrow> family_revoked (tables s) f \<Longrightarrow> in_flight f (auth_run E ops s) \<subseteq># in_flight f s"
proof (induction ops arbitrary: s)
  case (Cons x ops)
  obtain d op where x: "x = (d, op)" by force
  have inv: "auth_inv (auth_step E d op s)" and ch: "session_change (tables s) (tables (auth_step E d op s))"
    using auth_step_change [OF Cons.prems(1)] by blast+
  have "family_revoked (tables (auth_step E d op s)) f" using revoked_session_change [OF ch Cons.prems(2)] .
  from Cons.IH [OF inv this] in_flight_step [OF Cons.prems, of E d op] x show ?case by (auto intro: subset_mset.order_trans)
qed simp

text \<open>
  C36: Reuse ends a session: once the rotation of a waiting request finds its token already used, every
  token of that family, the successor that the winner of a race was given included, is refused at its lookup
  in every later history. Only refreshes that had passed their lookup before are still in flight, and no
  new one of the family ever joins them: one of these may still be answered with a pair, whose refresh
  token is of the family and refused like the others.
\<close>

theorem reuse_ends_the_session:
  assumes "s = auth_run E ops auth_start" "i < length (pending_refreshes s)" "pending_refreshes s ! i = r"
    and "refresh_rotate (env_sha E) d r (tables s) = (db', Inl (AuthError REFRESH_REUSED))"
    and "s' = auth_run E ((d, RefreshRotate i) # ops') s"
  shows "(\<forall>token r' t. findRefreshTokenByHash (tables s') (env_sha E token) = Some r' \<longrightarrow> rr_familyId r' = rr_familyId r \<longrightarrow>
            (\<exists>e. refresh_lookup (env_sha E) t token (tables s') = Inl (AuthError e))) \<and>
         in_flight (rr_familyId r) s' \<subseteq># in_flight (rr_familyId r) s - {#r#}"
proof -
  have inv: "auth_inv s" unfolding assms(1) using auth_run_changes [OF auth_inv_start] by blast
  let ?s1 = "auth_step E d (RefreshRotate i) s"
  have r: "r \<in> set (pending_refreshes s)" using assms(2,3) by auto
  have "tables ?s1 = db'" using assms(2-4) by simp
  then have rev: "family_revoked (tables ?s1) (rr_familyId r)"
    using rotate_answer(2) [OF assms(4) _ refl] in_flight_family [OF inv r] inv by (simp add: auth_inv_def)
  have inv1: "auth_inv ?s1" using auth_step_change [OF inv] by blast
  have "in_flight (rr_familyId r) ?s1 = in_flight (rr_familyId r) s - {#r#}"
    using assms(2-4) by (simp add: in_flight_def mset_filter mset_remove_at_eq)
  with in_flight_run [OF inv1 rev, of E ops'] have "in_flight (rr_familyId r) s' \<subseteq># in_flight (rr_familyId r) s - {#r#}"
    by (simp add: assms(5))
  moreover have "\<exists>e. refresh_lookup (env_sha E) t token (tables s') = Inl (AuthError e)"
    if "findRefreshTokenByHash (tables s') (env_sha E token) = Some r'" "rr_familyId r' = rr_familyId r" for token r' t
    using refused_if_revoked [OF inv1 rev, of E ops' token r' t] that by (simp add: assms(5))
  ultimately show ?thesis by blast
qed

lemma reuse_ends_the_session_witness:
  "\<exists>e. refresh_lookup id 9 (js ''t2'') (tables (auth_run sample_env (sample_session @
     [(draw 3 ''3'' ''x'', RefreshLookup (js ''t1'')), (draw 4 ''4'' ''x'', RefreshLookup (js ''t1'')),
      (draw 5 ''5'' ''t2'', RefreshRotate 0), (draw 6 ''6'' ''t3'', RefreshRotate 0)]) auth_start)) = Inl (AuthError e)"
proof -
  let ?ops = "sample_session @ [(draw 3 ''3'' ''x'', RefreshLookup (js ''t1'')), (draw 4 ''4'' ''x'', RefreshLookup (js ''t1'')),
      (draw 5 ''5'' ''t2'', RefreshRotate 0)]"
  let ?s = "auth_run sample_env ?ops auth_start"
  let ?r = "pending_refreshes ?s ! 0"
  let ?s' = "auth_run sample_env ((draw 6 ''6'' ''t3'', RefreshRotate 0) # []) ?s"
  have rot: "refresh_rotate (env_sha sample_env) (draw 6 ''6'' ''t3'') ?r (tables ?s) = (tables ?s', Inl (AuthError REFRESH_REUSED))"
    by (simp add: auth_eval)
  have len: "0 < length (pending_refreshes ?s)" by (simp add: auth_eval)
  have found: "findRefreshTokenByHash (tables ?s') (env_sha sample_env (js ''t2'')) =
      Some (the (findRefreshTokenByHash (tables ?s') (js ''t2'')))"
    "rr_familyId (the (findRefreshTokenByHash (tables ?s') (js ''t2''))) = rr_familyId ?r"
    by (simp_all add: auth_eval)
  have "\<exists>e. refresh_lookup (env_sha sample_env) 9 (js ''t2'') (tables ?s') = Inl (AuthError e)"
    using reuse_ends_the_session [OF refl len refl rot refl, of "[]", THEN conjunct1] found by blast
  then show ?thesis by (simp add: auth_run_def)
qed

text \<open>
  A refresh past its lookup is not stopped: the repository's rotation does not look at the family. The successor of a
  race winner, presented before the loser's rotation and rotated after it, is exchanged for a pair.
\<close>

theorem late_rotation_answered:
  "map (isl \<circ> snd) (answers (auth_run sample_env (sample_session @
     [(draw 3 ''3'' ''x'', RefreshLookup (js ''t1'')), (draw 4 ''4'' ''x'', RefreshLookup (js ''t1'')),
      (draw 5 ''5'' ''t2'', RefreshRotate 0), (draw 6 ''6'' ''x'', RefreshLookup (js ''t2'')),
      (draw 7 ''7'' ''t3'', RefreshRotate 0), (draw 8 ''8'' ''t4'', RefreshRotate 0)]) auth_start)) = [False, True, False]"
  by (simp add: auth_eval auth_run_def)

subsection \<open>Password resets\<close>

definition code_used :: "jstr \<Rightarrow> code_row list \<Rightarrow> bool" where
  "code_used h rows \<longleftrightarrow> distinct (map ct_tokenHash rows) \<and> (\<exists>c \<in> set rows. ct_tokenHash c = h \<and> ct_consumedAt c \<noteq> None)"

lemma code_used_dead: "code_used h rows \<Longrightarrow> c \<in> set rows \<Longrightarrow> \<not> live_code uid h t c"
  unfolding code_used_def live_code_def by (metis distinct_map inj_onD)

lemma map_hash_consume [simp]: "map ct_tokenHash (consume_codes uid h t rows) = map ct_tokenHash rows"
  by (induction rows) (auto simp: consume_codes_def)

lemma code_used_consume: "code_used h rows \<Longrightarrow> code_used h (consume_codes uid h' t rows)"
proof -
  assume used: "code_used h rows"
  then obtain c where c: "c \<in> set rows" "ct_tokenHash c = h" "ct_consumedAt c \<noteq> None" by (auto simp: code_used_def)
  then have "c = (if live_code uid h' t c then c\<lparr>ct_consumedAt := Some t\<rparr> else c)" by (simp add: live_code_def)
  with c(1) have "c \<in> set (consume_codes uid h' t rows)" unfolding consume_codes_def set_map by (rule image_eqI [rotated])
  with used c(2,3) show ?thesis unfolding code_used_def map_hash_consume by blast
qed

lemma code_used_insert:
  "code_used h rows \<Longrightarrow> insert_code rid uid h' e rows = Some rows' \<Longrightarrow> code_used h rows'"
  by (auto simp: insert_code_def code_used_def split: if_splits)

lemma code_used_fresh:
  "distinct (map ct_tokenHash rows) \<Longrightarrow> c \<in> set rows \<Longrightarrow> live_code uid h t c \<Longrightarrow> code_used h (consume_codes uid h t rows)"
proof -
  assume a: "distinct (map ct_tokenHash rows)" "c \<in> set rows" "live_code uid h t c"
  then have "c\<lparr>ct_consumedAt := Some t\<rparr> \<in> set (consume_codes uid h t rows)"
    unfolding consume_codes_def set_map by (intro image_eqI [of _ _ c]) simp_all
  moreover have "ct_tokenHash (c\<lparr>ct_consumedAt := Some t\<rparr>) = h" "ct_consumedAt (c\<lparr>ct_consumedAt := Some t\<rparr>) \<noteq> None"
    using a(3) by (simp_all add: live_code_def)
  ultimately show ?thesis using a(1) unfolding code_used_def map_hash_consume by blast
qed

definition reset_ok :: "auth_db \<Rightarrow> auth_db \<Rightarrow> bool" where
  "reset_ok db db' \<longleftrightarrow>
     (distinct (map ct_tokenHash (passwordResetTokens db)) \<longrightarrow> distinct (map ct_tokenHash (passwordResetTokens db'))) \<and>
     (\<forall>h. code_used h (passwordResetTokens db) \<longrightarrow> code_used h (passwordResetTokens db'))"

lemma reset_ok_same: "passwordResetTokens db' = passwordResetTokens db \<Longrightarrow> reset_ok db db'"
  by (simp add: reset_ok_def)

lemma issueCode_resets: "passwordResetTokens (fst (issueVerificationCode h d uid db)) = passwordResetTokens db"
  by (auto simp: issueVerificationCode_def createVerificationToken_def split: option.splits)

lemma set_password_resets: "passwordResetTokens (set_password uid pw t db) = passwordResetTokens db"
  by (simp add: set_password_def)

lemma insert_refresh_resets: "insert_refresh t db = Some db' \<Longrightarrow> passwordResetTokens db' = passwordResetTokens db"
  by (auto simp: insert_refresh_def split: if_splits)

lemma reset_ok_step: "reset_ok (tables s) (tables (auth_step E d op s))"
proof (cases op)
  case (ForgotPassword email)
  then show ?thesis
    by (auto simp: forgotPassword_def createPasswordResetToken_def reset_ok_def code_used_insert split: option.splits)
      (auto simp: insert_code_def split: if_splits)
next
  case (ResetPassword email c pw)
  then show ?thesis
    by (auto simp: resetPassword_def consumePasswordResetToken_def reset_ok_def set_password_resets code_used_consume
      split: option.splits prod.splits if_splits)
qed (auto intro!: reset_ok_same simp: register_create_def createUser_def insert_user_def issueCode_resets verifyEmail_def
      consumeVerificationToken_def resendVerification_def login_def createRefreshSession_def refresh_rotate_def
      rotateRefreshToken_def revokeRefreshFamily_def logout_def createVerifiedUser_def setUserPassword_def
      set_password_resets Let_def split_beta
    split: sum.splits repo_error.splits option.splits if_splits prod.splits rotation_outcome.splits
    dest!: insert_refresh_resets)

lemma reset_ok_run: "reset_ok (tables s) (tables (auth_run E ops s))"
proof (induction ops arbitrary: s)
  case (Cons x ops)
  obtain d op where x: "x = (d, op)" by force
  from reset_ok_step [of s E d op] Cons.IH [of "auth_step E d op s"] x show ?case by (simp add: reset_ok_def)
qed (simp add: reset_ok_def)

lemma distinct_resets: "distinct (map ct_tokenHash (passwordResetTokens (tables (auth_run E ops auth_start))))"
  using reset_ok_run [of auth_start E ops] by (simp add: reset_ok_def auth_start_def empty_db_def)

text \<open>
  A password reset is final: after one that succeeds, in every later history, every session the user
  had is refused at its next refresh, and the same code never resets a password again, whoever presents
  it.
\<close>

theorem password_reset_is_final:
  assumes "s = auth_run E ops auth_start"
    and "resetPassword (env_lower E) (env_sha E) d email c pw (tables s) = (db', Inr ())"
    and "findUserByEmail (normalizeEmail (env_lower E) email) (tables s) = Some user"
    and "s' = auth_run E ((d, ResetPassword email c pw) # ops') s"
  shows "(findRefreshTokenByHash (tables s) (env_sha E token) = Some r \<and> rr_userId r = ur_id user
          \<and> findRefreshTokenByHash (tables s') (env_sha E token') = Some r' \<and> rr_familyId r' = rr_familyId r
          \<longrightarrow> (\<exists>e. refresh_lookup (env_sha E) t token' (tables s') = Inl (AuthError e)))
       \<and> snd (resetPassword (env_lower E) (env_sha E) d2 email2 c pw2 (tables s')) = Inl (AuthError INVALID_CODE)"
proof
  let ?s1 = "auth_step E d (ResetPassword email c pw) s"
  have inv: "auth_inv s" unfolding assms(1) using auth_run_changes [OF auth_inv_start] by blast
  have inv1: "auth_inv ?s1" using auth_step_change [OF inv] by blast
  from assms(2,3) obtain code where code: "code \<in> set (passwordResetTokens (tables s))"
    "live_code (ur_id user) (env_sha E c) (drawn_at d) code"
    and t1: "tables ?s1 = set_password (ur_id user) pw (drawn_at d)
      (tables s\<lparr>passwordResetTokens := consume_codes (ur_id user) (env_sha E c) (drawn_at d) (passwordResetTokens (tables s))\<rparr>)"
    by (auto simp: resetPassword_def consumePasswordResetToken_def split: if_splits)
  show "findRefreshTokenByHash (tables s) (env_sha E token) = Some r \<and> rr_userId r = ur_id user
          \<and> findRefreshTokenByHash (tables s') (env_sha E token') = Some r' \<and> rr_familyId r' = rr_familyId r
          \<longrightarrow> (\<exists>e. refresh_lookup (env_sha E) t token' (tables s') = Inl (AuthError e))"
  proof (intro impI, elim conjE)
    assume fnd: "findRefreshTokenByHash (tables s) (env_sha E token) = Some r" "rr_userId r = ur_id user"
      and later: "findRefreshTokenByHash (tables s') (env_sha E token') = Some r'" "rr_familyId r' = rr_familyId r"
    from fnd(1) obtain f where f: "f \<in> set (refreshTokenFamilies (tables s))" "rr_familyId r = fam_id f" "rr_userId r = fam_userId f"
      by (rule findRefresh_Some) auto
    define f' where "f' = (if fam_userId f = ur_id user \<and> fam_revokedAt f = None then f\<lparr>fam_revokedAt := Some (drawn_at d)\<rparr> else f)"
    have "f' \<in> set (refreshTokenFamilies (tables ?s1))"
      unfolding t1 set_password_def revoke_families_def f'_def using f(1) by simp
    moreover have "fam_id f' = rr_familyId r" "fam_revokedAt f' \<noteq> None" using f fnd(2) by (auto simp: f'_def)
    ultimately have "family_revoked (tables ?s1) (rr_familyId r)" unfolding family_revoked_def by blast
    from refused_if_revoked [OF inv1 this _ later(2)] later(1) assms(4)
    show "\<exists>e. refresh_lookup (env_sha E) t token' (tables s') = Inl (AuthError e)" by simp
  qed
  have "code_used (env_sha E c) (passwordResetTokens (tables ?s1))"
    unfolding t1 set_password_resets using code_used_fresh [OF _ code] distinct_resets [of E ops] by (simp add: assms(1))
  then have "code_used (env_sha E c) (passwordResetTokens (tables s'))"
    using reset_ok_run [of ?s1 E ops'] assms(4) by (simp add: reset_ok_def)
  then show "snd (resetPassword (env_lower E) (env_sha E) d2 email2 c pw2 (tables s')) = Inl (AuthError INVALID_CODE)"
    using code_used_dead by (auto simp: resetPassword_def consumePasswordResetToken_def split: option.splits)
qed

lemma password_reset_is_final_witness:
  "\<exists>user. findUserByEmail (js ''u'') (tables (auth_run sample_env sample_session auth_start)) = Some user \<and>
     snd (resetPassword id id (draw 9 ''9'' ''x'') (js ''u'') (js ''c1'') (js ''p3'')
       (tables (auth_run sample_env (sample_session @ [(draw 3 ''3'' ''c1'', ForgotPassword (js ''u'')),
          (draw 4 ''4'' ''x'', ResetPassword (js ''u'') (js ''c1'') (js ''p2''))]) auth_start)))
     = Inl (AuthError INVALID_CODE)"
proof -
  let ?ops = "sample_session @ [(draw 3 ''3'' ''c1'', ForgotPassword (js ''u''))]"
  let ?s = "auth_run sample_env ?ops auth_start"
  let ?d = "draw 4 ''4'' ''x''"
  let ?s' = "auth_run sample_env ((?d, ResetPassword (js ''u'') (js ''c1'') (js ''p2'')) # []) ?s"
  obtain user where u: "findUserByEmail (js ''u'') (tables ?s) = Some user"
    "findUserByEmail (js ''u'') (tables (auth_run sample_env sample_session auth_start)) = Some user"
    by (simp add: auth_eval)
  have "snd (resetPassword (env_lower sample_env) (env_sha sample_env) (draw 9 ''9'' ''x'') (js ''u'') (js ''c1'') (js ''p3'') (tables ?s'))
      = Inl (AuthError INVALID_CODE)"
  proof (rule conjunct2, rule password_reset_is_final [where E = sample_env and s = ?s and d = ?d and email = "js ''u''"
          and pw = "js ''p2''" and db' = "tables ?s'" and user = user and ops' = "[]" and ops = ?ops])
    show "resetPassword (env_lower sample_env) (env_sha sample_env) ?d (js ''u'') (js ''c1'') (js ''p2'') (tables ?s) = (tables ?s', Inr ())"
      by (simp add: auth_eval)
    show "findUserByEmail (normalizeEmail (env_lower sample_env) (js ''u'')) (tables ?s) = Some user"
      using u(1) by (simp add: normalizeEmail_def)
  qed (rule refl)+
  with u(2) show ?thesis by (simp add: auth_run_def)
qed

subsection \<open>Wrapped driver errors\<close>

text \<open>
  A unique violation that the driver wraps in a cause is a taken address for the admin repository and an
  uncaught error for the auth repository.
\<close>

lemma wrapped_violation_differs:
  assumes "u_email u = email" "u \<in> set (users db)"
  shows "createVerifiedUser (Thrown None (Some (Thrown (Some PG_UNIQUE_VIOLATION) None))) rid t email pw db = Inl DuplicateEmailError"
    and "createUser (Thrown None (Some (Thrown (Some PG_UNIQUE_VIOLATION) None))) rid t email pw db
       = Inl (DriverError (Thrown None (Some (Thrown (Some PG_UNIQUE_VIOLATION) None))))"
  using assms by (auto simp: createVerifiedUser_def createUser_def insert_user_def Let_def auth_isUniqueViolation_def
    admin_isUniqueViolation.simps)

end
