(* ===== verification/Sockets.thy ===== *)
theory Sockets
  imports JsString
begin

section \<open>WebSockets as the registries drive them\<close>

text \<open>
  The structural subset of a \<open>ws\<close> socket (\<open>RealtimeSocket\<close> of \<open>connection-registry.ts\<close>) that the
  realtime registry and the control registry use. The library behind it is outside the repository:
  whether a socket is open, how many bytes it buffers and whether the next \<open>send\<close> throws are
  inputs that the environment changes at any time, except that \<open>close\<close> and \<open>terminate\<close> end the
  open state for good.
\<close>

record socket =
  ready_open :: bool
  bufferedAmount :: int
  send_throws :: bool

definition WS_PING_INTERVAL_MS :: int where "WS_PING_INTERVAL_MS = 30000"
definition WS_MAX_BUFFERED_BYTES :: int where "WS_MAX_BUFFERED_BYTES = 1024 * 1024"
definition WS_CLOSE_TOKEN_EXPIRED :: int where "WS_CLOSE_TOKEN_EXPIRED = 4401"
definition WS_CLOSE_SERVER_SHUTDOWN :: int where "WS_CLOSE_SERVER_SHUTDOWN = 1012"

text \<open>What a guarded send meets: a closed socket, a backlog, an exception, or none of them.\<close>

datatype send_fate = NotOpen | Backlogged | Throws | Writes

definition send_fate :: "socket \<Rightarrow> send_fate" where
  "send_fate s =
     (if \<not> ready_open s then NotOpen
      else if WS_MAX_BUFFERED_BYTES < bufferedAmount s then Backlogged
      else if send_throws s then Throws else Writes)"

text \<open>A socket as it is after the handshake.\<close>

definition fresh_socket :: socket where
  "fresh_socket = \<lparr>ready_open = True, bufferedAmount = 0, send_throws = False\<rparr>"

text \<open>What the environment may do to a socket: anything but reopen it.\<close>

definition socket_change :: "socket \<Rightarrow> socket \<Rightarrow> socket" where
  "socket_change new old = new\<lparr>ready_open := ready_open new \<and> ready_open old\<rparr>"

text \<open>The delay of a token's expiry timer: not negative, and below the timer's overflow.\<close>

definition expiry_delay :: "int \<Rightarrow> int \<Rightarrow> int" where
  "expiry_delay expiresAtMs nowMs = min (max 0 (expiresAtMs - nowMs)) 2147483647"

lemma expiry_delay_bounds: "0 \<le> expiry_delay e n \<and> expiry_delay e n < 2 ^ 31"
  by (simp add: expiry_delay_def)

lemma socket_change_open: "ready_open (socket_change new old) \<Longrightarrow> ready_open old"
  by (simp add: socket_change_def)

end
