(* ===== verification/InstanceRegistry.thy ===== *)
theory InstanceRegistry
  imports Sockets Json IngestKeys
begin

section \<open>Instance registry of the gateway\<close>

text \<open>
  \<open>InstanceRegistry\<close> of \<open>modules/control/instance-registry.ts\<close>: the plugin instances that are
  connected over the control socket, who controls a machine and directory, the pending requests an
  instance has reported, the commands that wait for a result, their outcomes, session catalogs and
  the tunnels of the web interface.

  Connections, web clients and tunnels are shared mutable objects in the code; they are cells of the
  state, addressed by the connection's uid, a client number and the tunnel id. Records of instances
  are reached only through their map, so they are values in it. What the registry does to the outside
  (frames sent, sockets closed, snapshots published, promises resolved) is appended to \<open>effects\<close>.
  A timer is armed exactly while its map holds the entry that it would remove. An instant is its
  milliseconds; the code prints it with \<open>toISOString\<close> where it leaves the registry. Random UUIDs,
  the locale's lower case, the verification of a renewed token, UTF-8 lengths, \<open>JSON.parse\<close> and the
  schema check of a frame are given by \<open>runtime\<close>.
\<close>

definition CONTROL_CLOSE_INVALID_FRAME :: int where "CONTROL_CLOSE_INVALID_FRAME = 4400"
definition CONTROL_CLOSE_KEY_REVOKED :: int where "CONTROL_CLOSE_KEY_REVOKED = 4403"
definition CONTROL_MAX_FRAME_BYTES :: nat where "CONTROL_MAX_FRAME_BYTES = 1024 * 1024"
definition MAX_STALE_REQUEST_IDS :: nat where "MAX_STALE_REQUEST_IDS = 256"
definition COMMAND_OUTCOME_TTL_MS :: int where "COMMAND_OUTCOME_TTL_MS = 10 * 60 * 1000"
definition MAX_COMMAND_OUTCOMES :: nat where "MAX_COMMAND_OUTCOMES = 1024"
definition SUPPORTED_PROTOCOL_VERSION :: nat where "SUPPORTED_PROTOCOL_VERSION = 2"

subsection \<open>Frames\<close>

datatype presence_state = Controllable | Conflicting | Incompatible | Offline

datatype command_kind = QuestionKind | PermissionKind

datatype outcome_status = Accepted | Confirmed | Stale | UpstreamError | ResultUnknown

record registration =
  rg_instanceId :: jstr
  rg_machine :: jstr
  rg_project :: jstr
  rg_directory :: jstr
  rg_openCodeVersion :: jstr
  rg_webUiAvailable :: "bool option"
  rg_protocolVersion :: nat

text \<open>\<open>PendingInteraction\<close>; the questions or the permission it asks about pass through untouched.\<close>

record interaction =
  ia_kind :: command_kind
  ia_instanceId :: jstr
  ia_machine :: jstr
  ia_project :: jstr
  ia_directory :: jstr
  ia_sessionId :: jstr
  ia_requestId :: jstr
  ia_content :: json

datatype catalog_status = CatalogReady | CatalogFailed | CatalogUnsupported

datatype web_part = ResponseStart | ResponseChunk | ResponseEnd

text \<open>The frames that pass \<open>validatePluginControlClientMessage\<close>.\<close>

datatype plugin_message =
    Register registration
  | CatalogResponse jstr jstr catalog_status "json option"
  | SnapshotResponse jstr jstr "interaction list"
  | CommandResult command_kind jstr jstr outcome_status
  | PromptResult jstr jstr outcome_status
  | WebUiResponse web_part jstr jstr json

datatype server_message =
    RegistrationResult jstr presence_state
  | SnapshotRequest jstr
  | Command command_kind jstr jstr jstr json
  | PromptCommand jstr jstr jstr
  | CatalogRequest jstr json
  | WebUiRequest jstr jstr jstr jstr json "json option"
  | WebUiTunnelClose jstr
  | WebUiCancel jstr jstr

datatype web_client_message =
    TunnelReady jstr int
  | TunnelError
  | AuthReady int
  | Relayed web_part jstr jstr json

datatype catalog_result =
    CatalogIs json | CatalogNotFound | CatalogTimeout | CatalogError | CatalogNotSupported

record presence =
  ps_instanceId :: jstr
  ps_machine :: jstr
  ps_project :: jstr
  ps_directory :: jstr
  ps_openCodeVersion :: jstr
  ps_webUiAvailable :: bool
  ps_protocolVersion :: nat
  ps_state :: presence_state
  ps_lastSeenAt :: int

datatype effect =
    Sent nat server_message
  | Closed nat int
  | Terminated nat
  | Pinged nat
  | Published jstr "presence list"
  | SnapshotSettled jstr "interaction list"
  | CatalogSettled jstr catalog_result
  | ClientSent nat web_client_message
  | ClientClosed nat int
  | ClientTerminated nat
  | ClientPinged nat

subsection \<open>State\<close>

record control_connection =
  cc_auth :: verified_key
  cc_alive :: bool
  cc_instanceId :: "jstr option"

record instance_record =
  ir_registration :: registration
  ir_userId :: jstr
  ir_sequence :: nat
  ir_state :: presence_state
  ir_lastSeenAt :: int
  ir_connection :: "nat option"
  ir_projected :: "(jstr, command_kind \<times> jstr) jsmap"
  ir_stale :: "(jstr, int) jsmap"

record snapshot_request =
  sr_connection :: nat
  sr_requestId :: jstr
  sr_registration :: registration

record pending_command =
  pc_connection :: nat
  pc_requestId :: jstr
  pc_commandId :: jstr

record pending_prompt =
  pp_connection :: nat
  pp_sessionID :: jstr
  pp_commandId :: jstr

record web_tunnel =
  wt_userId :: jstr
  wt_client :: nat
  wt_connection :: nat
  wt_pendingRequests :: "jstr list"

record outcome_entry =
  oe_userId :: jstr
  oe_commandId :: jstr
  oe_requestId :: jstr
  oe_instanceId :: jstr
  oe_kind :: command_kind
  oe_status :: outcome_status
  oe_updatedAt :: int
  oe_expiresAtMs :: int

text \<open>What the closures of \<open>addWebUiClient\<close> hold for one client socket.\<close>

record web_client =
  wc_userId :: jstr
  wc_expiresAtMs :: int
  wc_alive :: bool
  wc_expiryAt :: "int option"
  wc_timers :: bool
  wc_tunnel :: "jstr option"

record registry =
  records :: "(jstr, instance_record) jsmap"
  ownership :: "(jstr, jstr) jsmap"
  connections :: "nat list"
  connection_of :: "nat \<Rightarrow> control_connection"
  socket_of :: "nat \<Rightarrow> socket"
  snapshotRequests :: "(jstr, snapshot_request) jsmap"
  pendingCommands :: "command_kind \<Rightarrow> (jstr, pending_command) jsmap"
  pendingPrompts :: "(jstr, pending_prompt) jsmap"
  webUiTunnels :: "jstr list"
  tunnel_of :: "jstr \<Rightarrow> web_tunnel"
  client_of :: "nat \<Rightarrow> web_client"
  client_socket :: "nat \<Rightarrow> socket"
  catalogRequests :: "(jstr, nat) jsmap"
  commandOutcomes :: "(jstr, outcome_entry) jsmap"
  outcomeTtlMs :: int
  maxCommandOutcomes :: nat
  nextSequence :: nat
  nextConnectionUid :: nat
  nextClient :: nat
  uuids_drawn :: nat
  effects :: "effect list"
  uncaught :: bool

record runtime =
  lower_case :: "jstr \<Rightarrow> jstr"
  random_uuid :: "nat \<Rightarrow> jstr"
  verify_token :: "jstr \<Rightarrow> (jstr \<times> int) option"
  byte_length :: "jstr \<Rightarrow> nat"
  parse_json :: "jstr \<Rightarrow> json option"
  validate_message :: "json \<Rightarrow> plugin_message option"

definition emit :: "effect \<Rightarrow> registry \<Rightarrow> registry" where
  "emit e r = r\<lparr>effects := effects r @ [e]\<rparr>"

text \<open>The constructor, with the limits of the dependencies.\<close>

definition new_registry :: "int \<Rightarrow> nat \<Rightarrow> registry" where
  "new_registry ttl maxOutcomes =
     \<lparr>records = [], ownership = [], connections = [],
      connection_of = (\<lambda>_. \<lparr>cc_auth = \<lparr>vk_id = [], vk_userId = [], vk_keyId = []\<rparr>, cc_alive = False, cc_instanceId = None\<rparr>),
      socket_of = (\<lambda>_. fresh_socket), snapshotRequests = [], pendingCommands = (\<lambda>_. []), pendingPrompts = [],
      webUiTunnels = [], tunnel_of = (\<lambda>_. \<lparr>wt_userId = [], wt_client = 0, wt_connection = 0, wt_pendingRequests = []\<rparr>),
      client_of = (\<lambda>_. \<lparr>wc_userId = [], wc_expiresAtMs = 0, wc_alive = False, wc_expiryAt = None, wc_timers = False, wc_tunnel = None\<rparr>),
      client_socket = (\<lambda>_. fresh_socket), catalogRequests = [], commandOutcomes = [],
      outcomeTtlMs = ttl, maxCommandOutcomes = maxOutcomes,
      nextSequence = 0, nextConnectionUid = 0, nextClient = 0, uuids_drawn = 0, effects = [], uncaught = False\<rparr>"

subsection \<open>Keys\<close>

definition recordKey :: "jstr \<Rightarrow> jstr \<Rightarrow> jstr" where
  "recordKey userId instanceId = userId @ 0 # instanceId"

definition pendingKey :: "nat \<Rightarrow> jstr \<Rightarrow> jstr" where
  "pendingKey uid requestId = decimal uid @ 0 # requestId"

definition commandKey :: "nat \<Rightarrow> jstr \<Rightarrow> jstr" where
  "commandKey uid commandId = decimal uid @ 0 # commandId"

definition slash :: "16 word" where "slash = 47"
definition backslash :: "16 word" where "backslash = 92"

text \<open>\<open>replace(/\/{2,}/g, "/")\<close>: every run of slashes becomes one slash.\<close>

fun collapse_slashes :: "jstr \<Rightarrow> jstr" where
  "collapse_slashes (u # v # us) =
     (if u = slash \<and> v = slash then collapse_slashes (v # us) else u # collapse_slashes (v # us))"
| "collapse_slashes us = us"

text \<open>\<open>/^[A-Za-z]:\//\<close>\<close>

definition drive_path :: "jstr \<Rightarrow> bool" where
  "drive_path s =
     (case s of
        a # b # c # _ \<Rightarrow> (65 \<le> a \<and> a \<le> 90 \<or> 97 \<le> a \<and> a \<le> 122) \<and> b = 58 \<and> c = slash
      | _ \<Rightarrow> False)"

definition normal_directory :: "(jstr \<Rightarrow> jstr) \<Rightarrow> jstr \<Rightarrow> jstr" where
  "normal_directory low s =
     (let d = collapse_slashes (map (\<lambda>u. if u = backslash then slash else u) (trim s));
          d' = (if 1 < length d \<and> last d = slash then butlast d else d)
      in if drive_path d' then low d' else d')"

definition ownershipKey :: "runtime \<Rightarrow> jstr \<Rightarrow> registration \<Rightarrow> jstr" where
  "ownershipKey E userId g =
     userId @ 0 # lower_case E (trim (rg_machine g)) @ 0 # normal_directory (lower_case E) (rg_directory g)"


subsection \<open>Command outcomes\<close>

definition pruneExpiredOutcomes :: "int \<Rightarrow> registry \<Rightarrow> registry" where
  "pruneExpiredOutcomes t r =
     r\<lparr>commandOutcomes := filter (\<lambda>(_, e). \<not> oe_expiresAtMs e \<le> t) (commandOutcomes r)\<rparr>"

definition evictOldestOutcomes :: "registry \<Rightarrow> registry" where
  "evictOldestOutcomes r = r\<lparr>commandOutcomes := evict_oldest (maxCommandOutcomes r) (commandOutcomes r)\<rparr>"

definition recordOutcome :: "int \<Rightarrow> jstr \<Rightarrow> jstr \<Rightarrow> jstr \<Rightarrow> jstr \<Rightarrow> command_kind \<Rightarrow> registry \<Rightarrow> registry" where
  "recordOutcome t userId commandId requestId instanceId kind r =
     (let r1 = pruneExpiredOutcomes t r in
      if map_has (commandOutcomes r1) commandId then r1
      else evictOldestOutcomes
             (r1\<lparr>commandOutcomes := map_set commandId
                  \<lparr>oe_userId = userId, oe_commandId = commandId, oe_requestId = requestId,
                   oe_instanceId = instanceId, oe_kind = kind, oe_status = Accepted,
                   oe_updatedAt = t, oe_expiresAtMs = t + outcomeTtlMs r1\<rparr> (commandOutcomes r1)\<rparr>))"

definition settleOutcome :: "int \<Rightarrow> jstr \<Rightarrow> outcome_status \<Rightarrow> registry \<Rightarrow> registry" where
  "settleOutcome t commandId st r =
     (case map_get (commandOutcomes r) commandId of
        None \<Rightarrow> r
      | Some e \<Rightarrow>
          if oe_expiresAtMs e \<le> t then r\<lparr>commandOutcomes := map_delete commandId (commandOutcomes r)\<rparr>
          else r\<lparr>commandOutcomes := map_set commandId (e\<lparr>oe_status := st, oe_updatedAt := t\<rparr>) (commandOutcomes r)\<rparr>)"

text \<open>\<open>outcomeFor\<close>: the entry without its owner and expiry; expired entries are swept.\<close>

definition outcomeFor :: "int \<Rightarrow> jstr \<Rightarrow> jstr \<Rightarrow> registry \<Rightarrow> registry \<times> outcome_entry option" where
  "outcomeFor t userId commandId r =
     (let r1 = pruneExpiredOutcomes t r in
      (r1, case map_get (commandOutcomes r1) commandId of
             None \<Rightarrow> None
           | Some e \<Rightarrow> if oe_userId e \<noteq> userId \<or> oe_expiresAtMs e \<le> t then None else Some e))"

subsection \<open>Presence\<close>

definition toPresence :: "instance_record \<Rightarrow> presence" where
  "toPresence i =
     (let g = ir_registration i in
      \<lparr>ps_instanceId = rg_instanceId g, ps_machine = rg_machine g, ps_project = rg_project g,
       ps_directory = rg_directory g, ps_openCodeVersion = rg_openCodeVersion g,
       ps_webUiAvailable = (rg_webUiAvailable g = Some True), ps_protocolVersion = rg_protocolVersion g,
       ps_state = ir_state i, ps_lastSeenAt = ir_lastSeenAt i\<rparr>)"

text \<open>\<open>record.connection?.socket.readyState === READY_OPEN\<close>\<close>

definition reachable_record :: "registry \<Rightarrow> instance_record \<Rightarrow> bool" where
  "reachable_record r i = (case ir_connection i of Some c \<Rightarrow> ready_open (socket_of r c) | None \<Rightarrow> False)"

definition snapshot :: "jstr \<Rightarrow> registry \<Rightarrow> presence list" where
  "snapshot userId r =
     map toPresence
       (sort_key ir_sequence
         (filter (\<lambda>i. ir_userId i = userId \<and> ir_state i \<noteq> Offline \<and> reachable_record r i) (map_vals (records r))))"

definition publishSnapshot :: "jstr \<Rightarrow> registry \<Rightarrow> registry" where
  "publishSnapshot userId r = emit (Published userId (snapshot userId r)) r"

subsection \<open>Sending, disconnecting and promoting\<close>

definition terminate :: "nat \<Rightarrow> registry \<Rightarrow> registry" where
  "terminate c r = emit (Terminated c) (r\<lparr>socket_of := (socket_of r)(c := (socket_of r c)\<lparr>ready_open := False\<rparr>)\<rparr>)"

definition close_socket :: "nat \<Rightarrow> int \<Rightarrow> registry \<Rightarrow> registry" where
  "close_socket c code r =
     emit (Closed c code) (r\<lparr>socket_of := (socket_of r)(c := (socket_of r c)\<lparr>ready_open := False\<rparr>)\<rparr>)"

definition client_close :: "nat \<Rightarrow> int \<Rightarrow> registry \<Rightarrow> registry" where
  "client_close cl code r =
     emit (ClientClosed cl code)
       (r\<lparr>client_socket := (client_socket r)(cl := (client_socket r cl)\<lparr>ready_open := False\<rparr>)\<rparr>)"

definition client_terminate :: "nat \<Rightarrow> registry \<Rightarrow> registry" where
  "client_terminate cl r =
     emit (ClientTerminated cl)
       (r\<lparr>client_socket := (client_socket r)(cl := (client_socket r cl)\<lparr>ready_open := False\<rparr>)\<rparr>)"

text \<open>The loops at the start of \<open>disconnect\<close>, in their order.\<close>

definition drop_catalog_requests :: "nat \<Rightarrow> registry \<Rightarrow> registry" where
  "drop_catalog_requests c r =
     r\<lparr>catalogRequests := filter (\<lambda>(_, c'). c' \<noteq> c) (catalogRequests r),
       effects := effects r @ map (\<lambda>(rid, _). CatalogSettled rid CatalogNotFound)
                                  (filter (\<lambda>(_, c'). c' = c) (catalogRequests r))\<rparr>"

definition drop_snapshot_requests :: "nat \<Rightarrow> registry \<Rightarrow> registry" where
  "drop_snapshot_requests c r =
     r\<lparr>snapshotRequests := filter (\<lambda>(_, p). sr_connection p \<noteq> c) (snapshotRequests r),
       effects := effects r @ map (\<lambda>(_, p). SnapshotSettled (sr_requestId p) [])
                                  (filter (\<lambda>(_, p). sr_connection p = c) (snapshotRequests r))\<rparr>"

definition drop_commands :: "int \<Rightarrow> command_kind \<Rightarrow> nat \<Rightarrow> registry \<Rightarrow> registry" where
  "drop_commands t kind c r =
     fold (\<lambda>(_, p). settleOutcome t (pc_commandId p) ResultUnknown)
       (filter (\<lambda>(_, p). pc_connection p = c) (pendingCommands r kind))
       (r\<lparr>pendingCommands := (pendingCommands r)
            (kind := filter (\<lambda>(_, p). pc_connection p \<noteq> c) (pendingCommands r kind))\<rparr>)"

definition drop_prompts :: "nat \<Rightarrow> registry \<Rightarrow> registry" where
  "drop_prompts c r = r\<lparr>pendingPrompts := filter (\<lambda>(_, p). pp_connection p \<noteq> c) (pendingPrompts r)\<rparr>"

definition drop_tunnels :: "nat \<Rightarrow> registry \<Rightarrow> registry" where
  "drop_tunnels c r =
     fold (\<lambda>tid. client_close (wt_client (tunnel_of r tid)) 1011)
       (filter (\<lambda>tid. wt_connection (tunnel_of r tid) = c) (webUiTunnels r))
       (r\<lparr>webUiTunnels := filter (\<lambda>tid. wt_connection (tunnel_of r tid) \<noteq> c) (webUiTunnels r)\<rparr>)"

definition release :: "int \<Rightarrow> nat \<Rightarrow> registry \<Rightarrow> registry" where
  "release t c r =
     drop_tunnels c (drop_prompts c (drop_commands t PermissionKind c (drop_commands t QuestionKind c
       (drop_snapshot_requests c (drop_catalog_requests c r)))))"

text \<open>Writes through a record that was read from the map under \<open>k\<close>.\<close>

definition put_record :: "jstr \<Rightarrow> instance_record \<Rightarrow> registry \<Rightarrow> registry" where
  "put_record k i r = r\<lparr>records := write_back k i (records r)\<rparr>"

text \<open>The conflicting record of the user that waits longest for the key.\<close>

definition candidates :: "runtime \<Rightarrow> jstr \<Rightarrow> jstr \<Rightarrow> registry \<Rightarrow> (jstr \<times> instance_record) list" where
  "candidates E okey userId r =
     sort_key (\<lambda>(_, i). ir_sequence i)
       (filter (\<lambda>(_, i). ir_userId i = userId \<and> ir_state i = Conflicting \<and> ir_connection i \<noteq> None
                       \<and> ownershipKey E (ir_userId i) (ir_registration i) = okey) (records r))"

text \<open>What \<open>disconnect\<close> does before the record leaves every list of connections alone.\<close>

lemma connections_settleOutcome [simp]: "connections (settleOutcome t x st r) = connections r"
  by (simp add: settleOutcome_def split: option.split)

lemma connections_fold:
  "(\<And>x r. connections (f x r) = connections r) \<Longrightarrow> connections (fold f xs r) = connections r"
  by (induction xs arbitrary: r) simp_all

lemma connections_release [simp]: "connections (release t c r) = connections r"
proof -
  have "connections (client_close cl code r) = connections r" for cl code r
    by (simp add: client_close_def emit_def)
  then have "connections (drop_tunnels c r) = connections r" for r
    by (simp add: drop_tunnels_def connections_fold)
  moreover have "connections (drop_commands t k c r) = connections r" for k r
    by (simp add: drop_commands_def connections_fold case_prod_unfold)
  ultimately show ?thesis
    by (simp add: release_def drop_prompts_def drop_snapshot_requests_def drop_catalog_requests_def)
qed

lemma connections_put_record [simp]: "connections (put_record k i r) = connections r"
  by (simp add: put_record_def)

lemma length_removeAll_less': "c \<in> set cs \<Longrightarrow> length (removeAll c cs) < length cs"
  by (rule length_removeAll_less)

function disconnect :: "runtime \<Rightarrow> int \<Rightarrow> nat \<Rightarrow> registry \<Rightarrow> registry"
  and promote :: "runtime \<Rightarrow> int \<Rightarrow> jstr \<Rightarrow> jstr \<Rightarrow> registry \<Rightarrow> registry"
  and send :: "runtime \<Rightarrow> int \<Rightarrow> nat \<Rightarrow> server_message \<Rightarrow> registry \<Rightarrow> registry" where
  "disconnect E t c r =
     (if c \<notin> set (connections r) then r
      else let r1 = release t c (r\<lparr>connections := removeAll c (connections r)\<rparr>) in
        case cc_instanceId (connection_of r1 c) of
          None \<Rightarrow> r1
        | Some inst \<Rightarrow>
            (let k = recordKey (vk_userId (cc_auth (connection_of r1 c))) inst in
             case map_get (records r1) k of
               None \<Rightarrow> r1
             | Some i \<Rightarrow>
                 if ir_connection i \<noteq> Some c then r1
                 else let r2 = put_record k (i\<lparr>ir_connection := None, ir_state := Offline, ir_lastSeenAt := t\<rparr>) r1;
                          okey = ownershipKey E (ir_userId i) (ir_registration i);
                          r3 = (if ir_state i = Controllable \<and> map_get (ownership r2) okey = Some inst
                                then promote E t okey (ir_userId i) (r2\<lparr>ownership := map_delete okey (ownership r2)\<rparr>)
                                else r2)
                      in publishSnapshot (ir_userId i) r3))"
| "promote E t okey userId r =
     (case candidates E okey userId r of
        [] \<Rightarrow> r
      | (k, i) # _ \<Rightarrow>
          (case ir_connection i of
             None \<Rightarrow> r
           | Some c \<Rightarrow>
               let inst = rg_instanceId (ir_registration i);
                   r1 = put_record k (i\<lparr>ir_state := Controllable, ir_lastSeenAt := t\<rparr>) r
               in send E t c (RegistrationResult inst Controllable)
                    (r1\<lparr>ownership := map_set okey inst (ownership r1)\<rparr>)))"
| "send E t c m r =
     (case send_fate (socket_of r c) of
        NotOpen \<Rightarrow> terminate c (disconnect E t c r)
      | Backlogged \<Rightarrow> terminate c (disconnect E t c r)
      | Throws \<Rightarrow> disconnect E t c r
      | Writes \<Rightarrow> emit (Sent c m) r)"
  by pat_completeness auto
termination
  by (relation "measure (\<lambda>x. case x of
        Inl (E, t, c, r) \<Rightarrow> 3 * length (connections r)
      | Inr (Inl (E, t, okey, u, r)) \<Rightarrow> 3 * length (connections r) + 2
      | Inr (Inr (E, t, c, m, r)) \<Rightarrow> 3 * length (connections r) + 1)")
     (auto dest: length_removeAll_less')

declare disconnect.simps [simp del] promote.simps [simp del] send.simps [simp del]

subsection \<open>Pending requests of an instance\<close>

definition rememberStale :: "int \<Rightarrow> jstr \<Rightarrow> instance_record \<Rightarrow> instance_record" where
  "rememberStale t rid i = i\<lparr>ir_stale := evict_oldest MAX_STALE_REQUEST_IDS (map_set rid t (ir_stale i))\<rparr>"

definition incoming_requests :: "interaction list \<Rightarrow> (jstr, command_kind \<times> jstr) jsmap" where
  "incoming_requests ias = fold (\<lambda>a. map_set (ia_requestId a) (ia_kind a, ia_sessionId a)) ias []"

definition applyProjection :: "int \<Rightarrow> interaction list \<Rightarrow> instance_record \<Rightarrow> instance_record" where
  "applyProjection t ias i =
     (let incoming = incoming_requests ias;
          i1 = fold (rememberStale t) (filter (\<lambda>rid. \<not> map_has incoming rid) (map_keys (ir_projected i))) i
      in i1\<lparr>ir_projected := incoming\<rparr>)"

definition enrich :: "registration \<Rightarrow> interaction \<Rightarrow> interaction" where
  "enrich g a = a\<lparr>ia_instanceId := rg_instanceId g, ia_machine := rg_machine g,
                  ia_project := rg_project g, ia_directory := rg_directory g\<rparr>"

subsection \<open>Frames of a plugin\<close>

definition conn_user :: "registry \<Rightarrow> nat \<Rightarrow> jstr" where
  "conn_user r c = vk_userId (cc_auth (connection_of r c))"

definition set_connection :: "nat \<Rightarrow> control_connection \<Rightarrow> registry \<Rightarrow> registry" where
  "set_connection c cc r = r\<lparr>connection_of := (connection_of r)(c := cc)\<rparr>"

definition handleCatalogResponse ::
    "nat \<Rightarrow> jstr \<Rightarrow> jstr \<Rightarrow> catalog_status \<Rightarrow> json option \<Rightarrow> registry \<Rightarrow> registry" where
  "handleCatalogResponse c rid inst st cat r =
     (case map_get (catalogRequests r) rid of
        None \<Rightarrow> r
      | Some c' \<Rightarrow>
          if c' \<noteq> c \<or> cc_instanceId (connection_of r c) \<noteq> Some inst then r
          else emit (CatalogSettled rid
                       (case cat of
                          Some v \<Rightarrow> if st = CatalogReady then CatalogIs v
                                     else if st = CatalogUnsupported then CatalogNotSupported else CatalogError
                        | None \<Rightarrow> if st = CatalogUnsupported then CatalogNotSupported else CatalogError))
                    (r\<lparr>catalogRequests := map_delete rid (catalogRequests r)\<rparr>))"

definition handleSnapshotResponse :: "int \<Rightarrow> nat \<Rightarrow> jstr \<Rightarrow> jstr \<Rightarrow> interaction list \<Rightarrow> registry \<Rightarrow> registry" where
  "handleSnapshotResponse t c rid inst ias r =
     (if cc_instanceId (connection_of r c) \<noteq> Some inst then r
      else case map_get (snapshotRequests r) (pendingKey c rid) of
        None \<Rightarrow> r
      | Some p \<Rightarrow>
          let r1 = r\<lparr>snapshotRequests := map_delete (pendingKey c rid) (snapshotRequests r)\<rparr>;
              k = recordKey (conn_user r c) inst;
              r2 = (case map_get (records r1) k of
                      None \<Rightarrow> r1
                    | Some i \<Rightarrow> if ir_connection i = Some c then put_record k (applyProjection t ias i) r1 else r1)
          in emit (SnapshotSettled (sr_requestId p) (map (enrich (sr_registration p)) ias)) r2)"

text \<open>\<open>handleQuestionAnswerResult\<close> and \<open>handlePermissionDecideResult\<close> are the same but for their map.\<close>

definition handleCommandResult ::
    "int \<Rightarrow> command_kind \<Rightarrow> nat \<Rightarrow> jstr \<Rightarrow> jstr \<Rightarrow> outcome_status \<Rightarrow> registry \<Rightarrow> registry" where
  "handleCommandResult t kind c cmd inst st r =
     (if cc_instanceId (connection_of r c) \<noteq> Some inst then r
      else case map_get (pendingCommands r kind) (commandKey c cmd) of
        None \<Rightarrow> r
      | Some p \<Rightarrow>
          let r1 = r\<lparr>pendingCommands := (pendingCommands r)
                       (kind := map_delete (commandKey c cmd) (pendingCommands r kind))\<rparr>;
              k = recordKey (conn_user r c) inst;
              r2 = (if st = Confirmed then
                      (case map_get (records r1) k of
                         None \<Rightarrow> r1
                       | Some i \<Rightarrow>
                           if ir_connection i = Some c
                           then put_record k (rememberStale t (pc_requestId p)
                                  (i\<lparr>ir_projected := map_delete (pc_requestId p) (ir_projected i)\<rparr>)) r1
                           else r1)
                    else r1)
          in settleOutcome t (pc_commandId p) st r2)"

definition handleQuestionAnswerResult where
  "handleQuestionAnswerResult t = handleCommandResult t QuestionKind"

definition handlePermissionDecideResult where
  "handlePermissionDecideResult t = handleCommandResult t PermissionKind"

definition handleSessionPromptResult :: "nat \<Rightarrow> jstr \<Rightarrow> jstr \<Rightarrow> registry \<Rightarrow> registry" where
  "handleSessionPromptResult c cmd inst r =
     (if cc_instanceId (connection_of r c) \<noteq> Some inst then r
      else case map_get (pendingPrompts r) (commandKey c cmd) of
        None \<Rightarrow> r
      | Some _ \<Rightarrow> r\<lparr>pendingPrompts := map_delete (commandKey c cmd) (pendingPrompts r)\<rparr>)"

subsection \<open>Registration\<close>

definition pruneOfflineOwnership :: "runtime \<Rightarrow> jstr \<Rightarrow> jstr \<Rightarrow> jstr \<Rightarrow> registry \<Rightarrow> registry" where
  "pruneOfflineOwnership E userId okey exceptInst r =
     r\<lparr>records := filter (\<lambda>(_, i). \<not> (ir_userId i = userId \<and> rg_instanceId (ir_registration i) \<noteq> exceptInst
                     \<and> ir_state i = Offline \<and> ownershipKey E userId (ir_registration i) = okey)) (records r)\<rparr>"

text \<open>
  \<open>register\<close> from the moment the old connection of the record is out of the way. \<open>existing\<close> is the
  record that was read before.
\<close>

definition register_record :: "runtime \<Rightarrow> int \<Rightarrow> nat \<Rightarrow> registration \<Rightarrow> instance_record option \<Rightarrow> registry \<Rightarrow> registry" where
  "register_record E t c g existing r =
     (let u = conn_user r c;
          inst = rg_instanceId g;
          r1 = set_connection c ((connection_of r c)\<lparr>cc_instanceId := Some inst\<rparr>) r;
          okey = ownershipKey E u g;
          r2 = pruneOfflineOwnership E u okey inst r1;
          owner = map_get (ownership r2) okey;
          st = (if rg_protocolVersion g \<noteq> SUPPORTED_PROTOCOL_VERSION then Incompatible
                else if owner = None \<or> owner = Some inst then Controllable else Conflicting);
          r3 = (if st = Controllable then r2\<lparr>ownership := map_set okey inst (ownership r2)\<rparr> else r2);
          seq = (case existing of Some e \<Rightarrow> ir_sequence e | None \<Rightarrow> nextSequence r3);
          r4 = (if existing = None then r3\<lparr>nextSequence := Suc (nextSequence r3)\<rparr> else r3);
          i = \<lparr>ir_registration = g, ir_userId = u, ir_sequence = seq, ir_state = st, ir_lastSeenAt = t,
               ir_connection = Some c, ir_projected = [], ir_stale = []\<rparr>;
          r5 = r4\<lparr>records := map_set (recordKey u inst) i (records r4)\<rparr>
      in publishSnapshot u (send E t c (RegistrationResult inst st) r5))"

text \<open>
  A record that is held by another connection: \<open>disconnect(existing.connection)\<close>, and then
  \<open>existing.connection.socket.close(...)\<close>, which reads the property again. When \<open>disconnect\<close> has
  cleared it, reading \<open>socket\<close> of \<open>undefined\<close> throws out of the listener.
\<close>

definition register :: "runtime \<Rightarrow> int \<Rightarrow> nat \<Rightarrow> registration \<Rightarrow> registry \<Rightarrow> registry" where
  "register E t c g r =
     (let k = recordKey (conn_user r c) (rg_instanceId g);
          existing = map_get (records r) k
      in case existing of
           None \<Rightarrow> register_record E t c g None r
         | Some e \<Rightarrow>
             (case ir_connection e of
                None \<Rightarrow> register_record E t c g (Some e) r
              | Some c' \<Rightarrow>
                  if c' = c then register_record E t c g (Some e) r
                  else let r1 = disconnect E t c' r in
                    (case map_get (records r1) k of
                       None \<Rightarrow> r1\<lparr>uncaught := True\<rparr>
                     | Some e1 \<Rightarrow>
                         (case ir_connection e1 of
                            None \<Rightarrow> r1\<lparr>uncaught := True\<rparr>
                          | Some c1 \<Rightarrow> register_record E t c g (Some e1)
                                          (close_socket c1 CONTROL_CLOSE_INVALID_FRAME r1)))))"

subsection \<open>Tunnels of the web interface\<close>

definition client_send :: "nat \<Rightarrow> web_client_message \<Rightarrow> registry \<Rightarrow> registry" where
  "client_send cl m r =
     (if send_throws (client_socket r cl) then r\<lparr>uncaught := True\<rparr> else emit (ClientSent cl m) r)"

definition set_client :: "nat \<Rightarrow> (web_client \<Rightarrow> web_client) \<Rightarrow> registry \<Rightarrow> registry" where
  "set_client cl f r = r\<lparr>client_of := (client_of r)(cl := f (client_of r cl))\<rparr>"

definition closeWebUiTunnel :: "runtime \<Rightarrow> int \<Rightarrow> jstr \<Rightarrow> registry \<Rightarrow> registry" where
  "closeWebUiTunnel E t tid r =
     (if tid \<notin> set (webUiTunnels r) then r
      else let r1 = r\<lparr>webUiTunnels := removeAll tid (webUiTunnels r)\<rparr>;
               c = wt_connection (tunnel_of r tid)
           in if ready_open (socket_of r1 c) then send E t c (WebUiTunnelClose tid) r1 else r1)"

definition handleWebUiResponse :: "runtime \<Rightarrow> int \<Rightarrow> nat \<Rightarrow> web_part \<Rightarrow> jstr \<Rightarrow> jstr \<Rightarrow> json \<Rightarrow> registry \<Rightarrow> registry" where
  "handleWebUiResponse E t c part tid rid body r =
     (let w = tunnel_of r tid; cl = wt_client w in
      if tid \<notin> set (webUiTunnels r) \<or> wt_connection w \<noteq> c \<or> rid \<notin> set (wt_pendingRequests w) then r
      else let r1 = (if part = ResponseEnd
                     then r\<lparr>tunnel_of := (tunnel_of r)(tid := w\<lparr>wt_pendingRequests := removeAll rid (wt_pendingRequests w)\<rparr>)\<rparr>
                     else r)
           in if WS_MAX_BUFFERED_BYTES < bufferedAmount (client_socket r1 cl)
              then client_terminate cl (closeWebUiTunnel E t tid r1)
              else if send_throws (client_socket r1 cl) then closeWebUiTunnel E t tid r1
              else emit (ClientSent cl (Relayed part tid rid body)) r1)"

definition hex_digit :: "16 word \<Rightarrow> bool" where
  "hex_digit u \<longleftrightarrow> 48 \<le> u \<and> u \<le> 57 \<or> 97 \<le> u \<and> u \<le> 102 \<or> 65 \<le> u \<and> u \<le> 70"

text \<open>\<open>isUuid\<close>: 32 hexadecimal digits with dashes after 8, 12, 16 and 20 of them.\<close>

definition isUuid :: "json option \<Rightarrow> bool" where
  "isUuid v =
     (case v of
        Some (JString s) \<Rightarrow>
          length s = 36 \<and>
          list_all (\<lambda>(i, u). if i = 8 \<or> i = 13 \<or> i = 18 \<or> i = 23 then u = 45 else hex_digit u)
            (zip [0..<36] s)
      | _ \<Rightarrow> False)"

definition frame_type :: "json \<Rightarrow> string \<Rightarrow> bool" where
  "frame_type v name = (field v ''type'' = Some (JString (js name)))"

definition string_of :: "json option \<Rightarrow> jstr" where
  "string_of v = (case v of Some (JString s) \<Rightarrow> s | _ \<Rightarrow> [])"

definition string_between :: "nat \<Rightarrow> nat \<Rightarrow> json option \<Rightarrow> bool" where
  "string_between lo hi v = (case v of Some (JString s) \<Rightarrow> lo \<le> length s \<and> length s \<le> hi | _ \<Rightarrow> False)"

definition http_request_ok :: "jstr \<Rightarrow> json \<Rightarrow> bool" where
  "http_request_ok tid v \<longleftrightarrow>
     frame_type v ''webui_http_request'' \<and> field v ''tunnelId'' = Some (JString tid) \<and>
     isUuid (field v ''requestId'') \<and> string_between 1 16 (field v ''method'') \<and>
     string_between 1 8192 (field v ''path'') \<and>
     (case field v ''headers'' of Some (JObject _) \<Rightarrow> True | _ \<Rightarrow> False) \<and>
     (field v ''body'' = None \<or> string_between 0 700000 (field v ''body''))"

definition receiveWebUiRequest :: "runtime \<Rightarrow> int \<Rightarrow> jstr \<Rightarrow> json \<Rightarrow> registry \<Rightarrow> registry" where
  "receiveWebUiRequest E t tid v r =
     (let w = tunnel_of r tid; c = wt_connection w;
          same = (field v ''tunnelId'' = Some (JString tid));
          rid = string_of (field v ''requestId'')
      in if frame_type v ''webui_http_cancel'' \<and> same \<and> isUuid (field v ''requestId'') \<and> rid \<in> set (wt_pendingRequests w)
         then send E t c (WebUiCancel tid rid)
                (r\<lparr>tunnel_of := (tunnel_of r)(tid := w\<lparr>wt_pendingRequests := removeAll rid (wt_pendingRequests w)\<rparr>)\<rparr>)
         else if frame_type v ''webui_tunnel_close'' \<and> same then closeWebUiTunnel E t tid r
         else if \<not> http_request_ok tid v \<or> rid \<in> set (wt_pendingRequests w) then r
         else send E t c
                (WebUiRequest tid rid (string_of (field v ''method'')) (string_of (field v ''path''))
                   (the (field v ''headers'')) (field v ''body''))
                (r\<lparr>tunnel_of := (tunnel_of r)(tid := w\<lparr>wt_pendingRequests := wt_pendingRequests w @ [rid]\<rparr>)\<rparr>))"

text \<open>\<open>addWebUiClient\<close>: the client's cell; its listeners and timers are the operations below.\<close>

definition addWebUiClient :: "int \<Rightarrow> jstr \<Rightarrow> int \<Rightarrow> registry \<Rightarrow> registry" where
  "addWebUiClient t userId expiresAtMs r =
     (let cl = nextClient r in
      r\<lparr>client_of := (client_of r)(cl := \<lparr>wc_userId = userId, wc_expiresAtMs = expiresAtMs, wc_alive = True,
                                           wc_expiryAt = Some (t + expiry_delay expiresAtMs t), wc_timers = True, wc_tunnel = None\<rparr>),
        client_socket := (client_socket r)(cl := fresh_socket),
        nextClient := Suc cl\<rparr>)"

definition auth_refresh :: "runtime \<Rightarrow> int \<Rightarrow> nat \<Rightarrow> json \<Rightarrow> registry \<Rightarrow> registry" where
  "auth_refresh E t cl v r =
     (let payload = (case field v ''accessToken'' of Some (JString s) \<Rightarrow> verify_token E s | _ \<Rightarrow> None) in
      case payload of
        None \<Rightarrow> client_close cl 4401 r
      | Some (subject, expS) \<Rightarrow>
          if subject \<noteq> wc_userId (client_of r cl) \<or> expS * 1000 \<le> t then client_close cl 4401 r
          else client_send cl (AuthReady (expS * 1000))
                 (set_client cl (\<lambda>w. w\<lparr>wc_expiresAtMs := expS * 1000,
                                       wc_expiryAt := Some (t + expiry_delay (expS * 1000) t)\<rparr>) r))"

definition tunnel_target :: "registry \<Rightarrow> jstr \<Rightarrow> jstr \<Rightarrow> nat option" where
  "tunnel_target r userId inst =
     (case map_get (records r) (recordKey userId inst) of
        None \<Rightarrow> None
      | Some i \<Rightarrow>
          if ir_state i \<noteq> Controllable \<or> rg_webUiAvailable (ir_registration i) \<noteq> Some True then None
          else (case ir_connection i of
                  None \<Rightarrow> None
                | Some c \<Rightarrow> if ready_open (socket_of r c) then Some c else None))"

definition open_tunnel :: "runtime \<Rightarrow> nat \<Rightarrow> json \<Rightarrow> registry \<Rightarrow> registry" where
  "open_tunnel E cl v r =
     (if \<not> frame_type v ''webui_tunnel_open'' \<or> \<not> isUuid (field v ''instanceId'')
      then client_close cl CONTROL_CLOSE_INVALID_FRAME r
      else let u = wc_userId (client_of r cl) in
        case tunnel_target r u (string_of (field v ''instanceId'')) of
          None \<Rightarrow> if send_throws (client_socket r cl) then r\<lparr>uncaught := True\<rparr>
                  else client_close cl 1008 (client_send cl TunnelError r)
        | Some c \<Rightarrow>
            let tid = random_uuid E (uuids_drawn r) in
            client_send cl (TunnelReady tid (wc_expiresAtMs (client_of r cl)))
              ((set_client cl (\<lambda>w. w\<lparr>wc_tunnel := Some tid\<rparr>) r)
                 \<lparr>uuids_drawn := Suc (uuids_drawn r),
                  tunnel_of := (tunnel_of r)(tid := \<lparr>wt_userId = u, wt_client = cl, wt_connection = c, wt_pendingRequests = []\<rparr>),
                  webUiTunnels := webUiTunnels r @ [tid]\<rparr>))"

text \<open>The message listener; \<open>frame\<close> is the decoded frame when it is an object.\<close>

definition client_message :: "runtime \<Rightarrow> int \<Rightarrow> nat \<Rightarrow> json option \<Rightarrow> registry \<Rightarrow> registry" where
  "client_message E t cl frame r =
     (case frame of
        None \<Rightarrow> r
      | Some v \<Rightarrow>
          let r1 = set_client cl (\<lambda>w. w\<lparr>wc_alive := True\<rparr>) r in
          if frame_type v ''webui_auth_refresh'' then auth_refresh E t cl v r1
          else (case wc_tunnel (client_of r1 cl) of
                  None \<Rightarrow> open_tunnel E cl v r1
                | Some tid \<Rightarrow> receiveWebUiRequest E t tid v r1))"

definition client_gone :: "runtime \<Rightarrow> int \<Rightarrow> nat \<Rightarrow> registry \<Rightarrow> registry" where
  "client_gone E t cl r =
     (let r1 = set_client cl (\<lambda>w. w\<lparr>wc_timers := False\<rparr>) r in
      case wc_tunnel (client_of r1 cl) of None \<Rightarrow> r1 | Some tid \<Rightarrow> closeWebUiTunnel E t tid r1)"

definition client_heartbeat :: "nat \<Rightarrow> registry \<Rightarrow> registry" where
  "client_heartbeat cl r =
     (if \<not> wc_timers (client_of r cl) then r
      else if \<not> wc_alive (client_of r cl) then client_terminate cl r
      else emit (ClientPinged cl) (set_client cl (\<lambda>w. w\<lparr>wc_alive := False\<rparr>) r))"

definition client_expired :: "int \<Rightarrow> nat \<Rightarrow> registry \<Rightarrow> registry" where
  "client_expired t cl r =
     (case wc_expiryAt (client_of r cl) of
        None \<Rightarrow> r
      | Some due \<Rightarrow>
          if wc_timers (client_of r cl) \<and> due \<le> t
          then client_close cl 4401 (set_client cl (\<lambda>w. w\<lparr>wc_expiryAt := None\<rparr>) r) else r)"

subsection \<open>Control connections\<close>

definition add_connection :: "verified_key \<Rightarrow> registry \<Rightarrow> registry" where
  "add_connection auth r =
     (let c = nextConnectionUid r in
      r\<lparr>connection_of := (connection_of r)(c := \<lparr>cc_auth = auth, cc_alive = True, cc_instanceId = None\<rparr>),
        socket_of := (socket_of r)(c := fresh_socket),
        connections := connections r @ [c],
        nextConnectionUid := Suc c\<rparr>)"

text \<open>The interval of a connection; \<open>disconnect\<close> clears it.\<close>

definition heartbeat :: "runtime \<Rightarrow> int \<Rightarrow> nat \<Rightarrow> registry \<Rightarrow> registry" where
  "heartbeat E t c r =
     (if c \<notin> set (connections r) then r
      else if \<not> ready_open (socket_of r c) then disconnect E t c r
      else if \<not> cc_alive (connection_of r c) then terminate c (disconnect E t c r)
      else emit (Pinged c) (set_connection c ((connection_of r c)\<lparr>cc_alive := False\<rparr>) r))"

definition touch :: "int \<Rightarrow> nat \<Rightarrow> registry \<Rightarrow> registry" where
  "touch t c r =
     (case cc_instanceId (connection_of r c) of
        None \<Rightarrow> r
      | Some inst \<Rightarrow>
          (let k = recordKey (conn_user r c) inst in
           case map_get (records r) k of
             None \<Rightarrow> r
           | Some i \<Rightarrow> if ir_connection i = Some c then put_record k (i\<lparr>ir_lastSeenAt := t\<rparr>) r else r))"

definition markAlive :: "int \<Rightarrow> nat \<Rightarrow> registry \<Rightarrow> registry" where
  "markAlive t c r = touch t c (set_connection c ((connection_of r c)\<lparr>cc_alive := True\<rparr>) r)"

text \<open>\<open>raw\<close> is the text of the frame, absent when the frame is none of the accepted types.\<close>

definition decode :: "runtime \<Rightarrow> jstr option \<Rightarrow> json option" where
  "decode E raw =
     (case raw of
        None \<Rightarrow> None
      | Some text \<Rightarrow> if CONTROL_MAX_FRAME_BYTES < byte_length E text then None else parse_json E text)"

definition decodeWebUi :: "runtime \<Rightarrow> jstr option \<Rightarrow> json option" where
  "decodeWebUi E raw = (case decode E raw of Some (JObject ps) \<Rightarrow> Some (JObject ps) | _ \<Rightarrow> None)"

definition valid_message :: "runtime \<Rightarrow> jstr option \<Rightarrow> plugin_message option" where
  "valid_message E raw =
     (case decode E raw of None \<Rightarrow> None | Some JNull \<Rightarrow> None | Some v \<Rightarrow> validate_message E v)"

definition receive_message :: "runtime \<Rightarrow> int \<Rightarrow> nat \<Rightarrow> plugin_message \<Rightarrow> registry \<Rightarrow> registry" where
  "receive_message E t c msg r =
     (case msg of
        CatalogResponse rid inst st cat \<Rightarrow> handleCatalogResponse c rid inst st cat r
      | SnapshotResponse rid inst ias \<Rightarrow> handleSnapshotResponse t c rid inst ias r
      | CommandResult QuestionKind cmd inst st \<Rightarrow> handleQuestionAnswerResult t c cmd inst st r
      | CommandResult PermissionKind cmd inst st \<Rightarrow> handlePermissionDecideResult t c cmd inst st r
      | PromptResult cmd inst st \<Rightarrow> handleSessionPromptResult c cmd inst r
      | WebUiResponse part tid rid body \<Rightarrow> handleWebUiResponse E t c part tid rid body r
      | Register g \<Rightarrow>
          if cc_instanceId (connection_of r c) \<noteq> None
          then close_socket c CONTROL_CLOSE_INVALID_FRAME (disconnect E t c r)
          else register E t c g r)"

definition receive :: "runtime \<Rightarrow> int \<Rightarrow> nat \<Rightarrow> jstr option \<Rightarrow> registry \<Rightarrow> registry" where
  "receive E t c raw r =
     (let r1 = set_connection c ((connection_of r c)\<lparr>cc_alive := True\<rparr>) r in
      case valid_message E raw of
        None \<Rightarrow> close_socket c CONTROL_CLOSE_INVALID_FRAME (disconnect E t c r1)
      | Some msg \<Rightarrow> receive_message E t c msg r1)"

definition revokeKey :: "runtime \<Rightarrow> int \<Rightarrow> jstr \<Rightarrow> registry \<Rightarrow> registry" where
  "revokeKey E t keyId r =
     fold (\<lambda>c r. if vk_id (cc_auth (connection_of r c)) \<noteq> keyId then r
                 else close_socket c CONTROL_CLOSE_KEY_REVOKED (disconnect E t c r))
       (connections r) r"

definition closeAll :: "runtime \<Rightarrow> int \<Rightarrow> registry \<Rightarrow> registry" where
  "closeAll E t r =
     fold (\<lambda>c r. close_socket c WS_CLOSE_SERVER_SHUTDOWN (disconnect E t c r)) (connections r) r"

subsection \<open>Requests of clients\<close>

datatype command_error = NotFound | Conflict

text \<open>The guard that every operation on an instance starts with: its record and open connection.\<close>

definition controllable_connection :: "registry \<Rightarrow> jstr \<Rightarrow> jstr \<Rightarrow> (jstr \<times> instance_record \<times> nat) option" where
  "controllable_connection r userId inst =
     (let k = recordKey userId inst in
      case map_get (records r) k of
        None \<Rightarrow> None
      | Some i \<Rightarrow>
          if ir_userId i \<noteq> userId \<or> ir_state i \<noteq> Controllable then None
          else (case ir_connection i of
                  None \<Rightarrow> None
                | Some c \<Rightarrow> if ready_open (socket_of r c) then Some (k, i, c) else None))"

definition routeCommand ::
    "runtime \<Rightarrow> int \<Rightarrow> command_kind \<Rightarrow> jstr \<Rightarrow> jstr \<Rightarrow> jstr \<Rightarrow> jstr \<Rightarrow> jstr \<Rightarrow> json \<Rightarrow> registry
     \<Rightarrow> registry \<times> (command_error + jstr)" where
  "routeCommand E t kind userId instanceId requestId commandId sessionID payload r =
     (case controllable_connection r userId instanceId of
        None \<Rightarrow> (r, Inl NotFound)
      | Some (k, i, c) \<Rightarrow>
          (case map_get (ir_projected i) requestId of
             None \<Rightarrow> (r, Inl (if map_has (ir_stale i) requestId then Conflict else NotFound))
           | Some (pkind, psession) \<Rightarrow>
               if pkind \<noteq> kind \<or> psession \<noteq> sessionID then (r, Inl Conflict)
               else if list_ex (\<lambda>p. pc_connection p = c \<and> (pc_requestId p = requestId \<or> pc_commandId p = commandId))
                         (map_vals (pendingCommands r kind)) then (r, Inl Conflict)
               else
                 let r1 = recordOutcome t userId commandId requestId (rg_instanceId (ir_registration i)) kind r;
                     entry = \<lparr>pc_connection = c, pc_requestId = requestId, pc_commandId = commandId\<rparr>;
                     r2 = r1\<lparr>pendingCommands := (pendingCommands r1)
                            (kind := map_set (commandKey c commandId) entry (pendingCommands r1 kind))\<rparr>
                 in (send E t c (Command kind commandId requestId sessionID payload) r2, Inr commandId)))"

definition answerQuestion where
  "answerQuestion E t userId instanceId requestId commandId sessionID answers =
     routeCommand E t QuestionKind userId instanceId requestId commandId sessionID answers"

definition decidePermission where
  "decidePermission E t userId instanceId requestId commandId sessionID decision =
     routeCommand E t PermissionKind userId instanceId requestId commandId sessionID decision"

definition sendSessionPrompt ::
    "runtime \<Rightarrow> int \<Rightarrow> jstr \<Rightarrow> jstr \<Rightarrow> jstr \<Rightarrow> jstr \<Rightarrow> jstr \<Rightarrow> registry \<Rightarrow> registry \<times> (command_error + jstr)" where
  "sendSessionPrompt E t userId instanceId sessionID commandId text0 r =
     (case controllable_connection r userId instanceId of
        None \<Rightarrow> (r, Inl NotFound)
      | Some (k, i, c) \<Rightarrow>
          if list_ex (\<lambda>p. pp_connection p = c \<and> pp_commandId p = commandId) (map_vals (pendingPrompts r))
          then (r, Inl Conflict)
          else let entry = \<lparr>pp_connection = c, pp_sessionID = sessionID, pp_commandId = commandId\<rparr>;
                   r1 = r\<lparr>pendingPrompts := map_set (commandKey c commandId) entry (pendingPrompts r)\<rparr>
               in (send E t c (PromptCommand commandId sessionID text0) r1, Inr commandId))"

text \<open>
  The timers of a command and of a prompt. The answer's timer settles the outcome; the prompt has
  none.
\<close>

definition command_timeout :: "int \<Rightarrow> command_kind \<Rightarrow> jstr \<Rightarrow> registry \<Rightarrow> registry" where
  "command_timeout t kind key r =
     (case map_get (pendingCommands r kind) key of
        None \<Rightarrow> r
      | Some p \<Rightarrow> settleOutcome t (pc_commandId p) ResultUnknown
                    (r\<lparr>pendingCommands := (pendingCommands r)(kind := map_delete key (pendingCommands r kind))\<rparr>))"

definition prompt_timeout :: "jstr \<Rightarrow> registry \<Rightarrow> registry" where
  "prompt_timeout key r = r\<lparr>pendingPrompts := map_delete key (pendingPrompts r)\<rparr>"

definition collectSessions :: "runtime \<Rightarrow> int \<Rightarrow> jstr \<Rightarrow> jstr \<Rightarrow> json \<Rightarrow> registry \<Rightarrow> registry \<times> jstr option" where
  "collectSessions E t userId instanceId query r =
     (case map_get (records r) (recordKey userId instanceId) of
        None \<Rightarrow> (r, None)
      | Some i \<Rightarrow>
          (case ir_connection i of
             None \<Rightarrow> (r, None)
           | Some c \<Rightarrow>
               if ir_state i \<noteq> Controllable \<or> \<not> ready_open (socket_of r c) then (r, None)
               else let rid = random_uuid E (uuids_drawn r);
                        r1 = r\<lparr>uuids_drawn := Suc (uuids_drawn r),
                               catalogRequests := map_set rid c (catalogRequests r)\<rparr>
                    in (send E t c (CatalogRequest rid query) r1, Some rid)))"

definition catalog_timeout :: "jstr \<Rightarrow> registry \<Rightarrow> registry" where
  "catalog_timeout rid r =
     (if map_has (catalogRequests r) rid
      then emit (CatalogSettled rid CatalogTimeout) (r\<lparr>catalogRequests := map_delete rid (catalogRequests r)\<rparr>)
      else r)"

definition queryPendingSnapshot :: "runtime \<Rightarrow> int \<Rightarrow> instance_record \<times> nat \<Rightarrow> registry \<Rightarrow> registry" where
  "queryPendingSnapshot E t = (\<lambda>(i, c) r.
     let rid = random_uuid E (uuids_drawn r);
         p = \<lparr>sr_connection = c, sr_requestId = rid, sr_registration = ir_registration i\<rparr>;
         r1 = r\<lparr>uuids_drawn := Suc (uuids_drawn r),
                snapshotRequests := map_set (pendingKey c rid) p (snapshotRequests r)\<rparr>
     in send E t c (SnapshotRequest rid) r1)"

definition snapshot_targets :: "jstr \<Rightarrow> registry \<Rightarrow> (instance_record \<times> nat) list" where
  "snapshot_targets userId r =
     concat (map (\<lambda>i. case ir_connection i of
                        Some c \<Rightarrow> if ir_userId i = userId \<and> ir_state i = Controllable \<and> ready_open (socket_of r c)
                                  then [(i, c)] else []
                      | None \<Rightarrow> []) (map_vals (records r)))"

text \<open>
  The part of \<open>collectPendingInteractions\<close> that runs at once; the answer is put together from the
  settled requests. A query takes no connection away from another target, since only conflicting
  records are promoted while one fails.
\<close>

definition collectPendingInteractions :: "runtime \<Rightarrow> int \<Rightarrow> jstr \<Rightarrow> registry \<Rightarrow> registry \<times> jstr list" where
  "collectPendingInteractions E t userId r =
     (let ts = snapshot_targets userId r in
      (fold (queryPendingSnapshot E t) ts r, map (\<lambda>(i, _). rg_instanceId (ir_registration i)) ts))"

definition snapshot_timeout :: "jstr \<Rightarrow> registry \<Rightarrow> registry" where
  "snapshot_timeout key r =
     (case map_get (snapshotRequests r) key of
        None \<Rightarrow> r
      | Some p \<Rightarrow> emit (SnapshotSettled (sr_requestId p) [])
                    (r\<lparr>snapshotRequests := map_delete key (snapshotRequests r)\<rparr>))"

datatype forget_outcome = Deleted | ForgetNotFound | NotOffline

definition forgetOffline :: "jstr \<Rightarrow> jstr \<Rightarrow> registry \<Rightarrow> registry \<times> forget_outcome" where
  "forgetOffline userId instanceId r =
     (let key = recordKey userId instanceId in
      case map_get (records r) key of
        None \<Rightarrow> (r, ForgetNotFound)
      | Some i \<Rightarrow>
          if ir_state i \<noteq> Offline \<or> ir_connection i \<noteq> None then (r, NotOffline)
          else (publishSnapshot userId (r\<lparr>records := map_delete key (records r)\<rparr>), Deleted))"

subsection \<open>Everything that can happen\<close>

datatype registry_op =
    Connect verified_key
  | Beat nat | Pong nat | Gone nat | SendFailed nat | SocketState nat socket
  | Frame nat "jstr option"
  | ClientConnect jstr int
  | ClientFrame nat "jstr option" | ClientPong nat | ClientGone nat | ClientBeat nat | ClientExpired nat
  | ClientState nat socket
  | AskCatalog jstr jstr json | CatalogTimedOut jstr
  | AskPending jstr | SnapshotTimedOut jstr
  | Route command_kind jstr jstr jstr jstr jstr json | CommandTimedOut command_kind jstr
  | Prompt jstr jstr jstr jstr jstr | PromptTimedOut jstr
  | Outcome jstr jstr | Forget jstr jstr | PublishFor jstr
  | Revoke jstr | Shutdown

fun registry_step :: "runtime \<Rightarrow> int \<Rightarrow> registry_op \<Rightarrow> registry \<Rightarrow> registry" where
  "registry_step E t (Connect auth) r = add_connection auth r"
| "registry_step E t (Beat c) r = heartbeat E t c r"
| "registry_step E t (Pong c) r = markAlive t c r"
| "registry_step E t (Gone c) r = disconnect E t c (r\<lparr>socket_of := (socket_of r)(c := (socket_of r c)\<lparr>ready_open := False\<rparr>)\<rparr>)"
| "registry_step E t (SendFailed c) r = disconnect E t c r"
| "registry_step E t (SocketState c s) r = r\<lparr>socket_of := (socket_of r)(c := socket_change s (socket_of r c))\<rparr>"
| "registry_step E t (Frame c raw) r = receive E t c raw r"
| "registry_step E t (ClientConnect u e) r = addWebUiClient t u e r"
| "registry_step E t (ClientFrame cl raw) r = client_message E t cl (decodeWebUi E raw) r"
| "registry_step E t (ClientPong cl) r = set_client cl (\<lambda>w. w\<lparr>wc_alive := True\<rparr>) r"
| "registry_step E t (ClientGone cl) r = client_gone E t cl r"
| "registry_step E t (ClientBeat cl) r = client_heartbeat cl r"
| "registry_step E t (ClientExpired cl) r = client_expired t cl r"
| "registry_step E t (ClientState cl s) r = r\<lparr>client_socket := (client_socket r)(cl := socket_change s (client_socket r cl))\<rparr>"
| "registry_step E t (AskCatalog u inst q) r = fst (collectSessions E t u inst q r)"
| "registry_step E t (CatalogTimedOut rid) r = catalog_timeout rid r"
| "registry_step E t (AskPending u) r = fst (collectPendingInteractions E t u r)"
| "registry_step E t (SnapshotTimedOut key) r = snapshot_timeout key r"
| "registry_step E t (Route QuestionKind u inst rid cmd sid x) r = fst (answerQuestion E t u inst rid cmd sid x r)"
| "registry_step E t (Route PermissionKind u inst rid cmd sid x) r = fst (decidePermission E t u inst rid cmd sid x r)"
| "registry_step E t (CommandTimedOut kind key) r = command_timeout t kind key r"
| "registry_step E t (Prompt u inst sid cmd x) r = fst (sendSessionPrompt E t u inst sid cmd x r)"
| "registry_step E t (PromptTimedOut key) r = prompt_timeout key r"
| "registry_step E t (Outcome u cmd) r = fst (outcomeFor t u cmd r)"
| "registry_step E t (Forget u inst) r = fst (forgetOffline u inst r)"
| "registry_step E t (PublishFor u) r = publishSnapshot u r"
| "registry_step E t (Revoke key) r = revokeKey E t key r"
| "registry_step E t Shutdown r = closeAll E t r"

definition registry_run :: "runtime \<Rightarrow> (int \<times> registry_op) list \<Rightarrow> registry \<Rightarrow> registry" where
  "registry_run E ops r = fold (\<lambda>(t, op). registry_step E t op) ops r"

end
