(* ===== verification/InstanceIsolation.thy ===== *)
theory InstanceIsolation
  imports InstanceRegistry
begin

section \<open>Invariant and account isolation of the instance registry\<close>

text \<open>
  The invariant of the registry over everything that can happen to it, and the relation \<open>confined\<close>:
  a change that is made for one account and that no other account can observe. Accounts are
  identified by ids without a NUL (they are UUIDs of the database), which is what keeps the
  concatenated keys of the code apart.
\<close>

subsection \<open>Keys\<close>

definition account_id :: "jstr \<Rightarrow> bool" where
  "account_id u \<longleftrightarrow> 0 \<notin> set u"

lemma recordKey_inj:
  "account_id u \<Longrightarrow> account_id u' \<Longrightarrow> recordKey u i = recordKey u' i' \<longleftrightarrow> u = u' \<and> i = i'"
  unfolding recordKey_def account_id_def by (rule key_inj)

lemma ownershipKey_account:
  "account_id u \<Longrightarrow> account_id u' \<Longrightarrow> ownershipKey E u g = ownershipKey E u' g' \<Longrightarrow> u = u'"
  unfolding ownershipKey_def account_id_def using key_inj [of 0 u u'] by blast

lemma decimal_no_nul: "0 \<notin> set (decimal n)"
  using all_digits_decimal [of n] by (auto simp: all_digits_def list_all_iff is_digit_def)

lemma decimal_inj: "decimal m = decimal n \<longleftrightarrow> m = n"
  by (metis parse_decimal_decimal)

lemma pendingKey_inj [simp]: "pendingKey c a = pendingKey c' a' \<longleftrightarrow> c = c' \<and> a = a'"
  unfolding pendingKey_def using key_inj [OF decimal_no_nul decimal_no_nul] by (simp add: decimal_inj)

lemma commandKey_inj [simp]: "commandKey c a = commandKey c' a' \<longleftrightarrow> c = c' \<and> a = a'"
  unfolding commandKey_def using key_inj [OF decimal_no_nul decimal_no_nul] by (simp add: decimal_inj)

subsection \<open>The invariant\<close>

abbreviation ir_instance :: "instance_record \<Rightarrow> jstr" where
  "ir_instance i \<equiv> rg_instanceId (ir_registration i)"

abbreviation ir_ownership :: "runtime \<Rightarrow> instance_record \<Rightarrow> jstr" where
  "ir_ownership E i \<equiv> ownershipKey E (ir_userId i) (ir_registration i)"

definition record_ok :: "runtime \<Rightarrow> registry \<Rightarrow> jstr \<Rightarrow> instance_record \<Rightarrow> bool" where
  "record_ok E r k i \<longleftrightarrow>
     k = recordKey (ir_userId i) (ir_instance i) \<and> account_id (ir_userId i) \<and>
     (ir_state i = Offline \<longleftrightarrow> ir_connection i = None) \<and>
     (ir_state i = Controllable \<longrightarrow> map_get (ownership r) (ir_ownership E i) = Some (ir_instance i)) \<and>
     (\<forall>c. ir_connection i = Some c \<longrightarrow>
        c < nextConnectionUid r \<and> conn_user r c = ir_userId i \<and>
        cc_instanceId (connection_of r c) = Some (ir_instance i))"

definition inv_records :: "runtime \<Rightarrow> registry \<Rightarrow> bool" where
  "inv_records E r \<longleftrightarrow>
     distinct_keys (records r) \<and>
     (\<forall>k i. map_get (records r) k = Some i \<longrightarrow> record_ok E r k i) \<and>
     (\<forall>c < nextConnectionUid r. account_id (conn_user r c)) \<and>
     (\<forall>c \<in> set (connections r). c < nextConnectionUid r)"

definition drawn :: "runtime \<Rightarrow> registry \<Rightarrow> jstr \<Rightarrow> bool" where
  "drawn E r x \<longleftrightarrow> (\<exists>n < uuids_drawn r. x = random_uuid E n)"

definition inv_pending :: "runtime \<Rightarrow> registry \<Rightarrow> bool" where
  "inv_pending E r \<longleftrightarrow>
     distinct_keys (snapshotRequests r) \<and> distinct_keys (pendingPrompts r) \<and>
     distinct_keys (catalogRequests r) \<and> (\<forall>kind. distinct_keys (pendingCommands r kind)) \<and>
     (\<forall>k p. map_get (snapshotRequests r) k = Some p \<longrightarrow> k = pendingKey (sr_connection p) (sr_requestId p)) \<and>
     (\<forall>k p. map_get (pendingPrompts r) k = Some p \<longrightarrow> k = commandKey (pp_connection p) (pp_commandId p)) \<and>
     (\<forall>kind k p. map_get (pendingCommands r kind) k = Some p \<longrightarrow> k = commandKey (pc_connection p) (pc_commandId p)) \<and>
     (\<forall>rid c. map_get (catalogRequests r) rid = Some c \<longrightarrow> drawn E r rid)"

definition tunnel_ids :: "registry \<Rightarrow> jstr set" where
  "tunnel_ids r = set (webUiTunnels r) \<union> {tid. \<exists>cl < nextClient r. wc_tunnel (client_of r cl) = Some tid}"

definition tunnel_ok :: "registry \<Rightarrow> web_tunnel \<Rightarrow> bool" where
  "tunnel_ok r w \<longleftrightarrow>
     wt_connection w < nextConnectionUid r \<and> wt_client w < nextClient r \<and>
     conn_user r (wt_connection w) = wt_userId w \<and> wc_userId (client_of r (wt_client w)) = wt_userId w"

definition inv_tunnels :: "runtime \<Rightarrow> registry \<Rightarrow> bool" where
  "inv_tunnels E r \<longleftrightarrow>
     (\<forall>tid \<in> tunnel_ids r. drawn E r tid \<and> tunnel_ok r (tunnel_of r tid)) \<and>
     (\<forall>cl < nextClient r. \<forall>tid. wc_tunnel (client_of r cl) = Some tid \<longrightarrow> wt_client (tunnel_of r tid) = cl) \<and>
     (\<forall>cl < nextClient r. account_id (wc_userId (client_of r cl)))"

definition registry_inv :: "runtime \<Rightarrow> registry \<Rightarrow> bool" where
  "registry_inv E r \<longleftrightarrow> inv_records E r \<and> inv_pending E r \<and> inv_tunnels E r"

lemma registry_inv_new: "registry_inv E (new_registry ttl n)"
  by (simp add: registry_inv_def new_registry_def inv_records_def inv_pending_def inv_tunnels_def tunnel_ids_def)

text \<open>Two controllable records of the same machine and directory are one record.\<close>

lemma controllable_unique:
  assumes "inv_records E r" "map_get (records r) k = Some i" "map_get (records r) k' = Some i'"
    and "ir_state i = Controllable" "ir_state i' = Controllable" "ir_ownership E i = ir_ownership E i'"
  shows "k = k'"
proof -
  have ok: "record_ok E r k i" "record_ok E r k' i'" using assms(1-3) by (auto simp: inv_records_def)
  then have "ir_userId i = ir_userId i'"
    using assms(6) ownershipKey_account by (auto simp: record_ok_def)
  moreover have "ir_instance i = ir_instance i'"
    using ok assms(4-6) by (auto simp: record_ok_def)
  ultimately show ?thesis using ok by (simp add: record_ok_def)
qed

subsection \<open>What another account can observe\<close>

definition effect_for :: "jstr \<Rightarrow> registry \<Rightarrow> effect \<Rightarrow> bool" where
  "effect_for u r e =
     (case e of
        Sent c _ \<Rightarrow> c < nextConnectionUid r \<and> conn_user r c = u
      | Closed c _ \<Rightarrow> c < nextConnectionUid r \<and> conn_user r c = u
      | Terminated c \<Rightarrow> c < nextConnectionUid r \<and> conn_user r c = u
      | Pinged c \<Rightarrow> c < nextConnectionUid r \<and> conn_user r c = u
      | Published v _ \<Rightarrow> v = u
      | ClientSent cl _ \<Rightarrow> cl < nextClient r \<and> wc_userId (client_of r cl) = u
      | ClientClosed cl _ \<Rightarrow> cl < nextClient r \<and> wc_userId (client_of r cl) = u
      | ClientTerminated cl \<Rightarrow> cl < nextClient r \<and> wc_userId (client_of r cl) = u
      | ClientPinged cl \<Rightarrow> cl < nextClient r \<and> wc_userId (client_of r cl) = u
      | SnapshotSettled _ _ \<Rightarrow> True
      | CatalogSettled _ _ \<Rightarrow> True)"

text \<open>
  Everything of account \<open>v\<close>: its records and ownership, its connections with all that waits for
  them, its web clients and tunnels. (A promise is settled exactly when its entry leaves its map, so
  the maps of waiting entries say that no request of \<open>v\<close> is answered.)
\<close>

definition same_connection :: "registry \<Rightarrow> registry \<Rightarrow> nat \<Rightarrow> bool" where
  "same_connection r r' c \<longleftrightarrow>
     connection_of r' c = connection_of r c \<and> socket_of r' c = socket_of r c \<and>
     (c \<in> set (connections r') \<longleftrightarrow> c \<in> set (connections r)) \<and>
     (\<forall>k p. sr_connection p = c \<longrightarrow>
        (map_get (snapshotRequests r') k = Some p \<longleftrightarrow> map_get (snapshotRequests r) k = Some p)) \<and>
     (\<forall>kind k p. pc_connection p = c \<longrightarrow>
        (map_get (pendingCommands r' kind) k = Some p \<longleftrightarrow> map_get (pendingCommands r kind) k = Some p)) \<and>
     (\<forall>k p. pp_connection p = c \<longrightarrow>
        (map_get (pendingPrompts r') k = Some p \<longleftrightarrow> map_get (pendingPrompts r) k = Some p)) \<and>
     (\<forall>k. map_get (catalogRequests r') k = Some c \<longleftrightarrow> map_get (catalogRequests r) k = Some c)"

definition same_view :: "runtime \<Rightarrow> jstr \<Rightarrow> registry \<Rightarrow> registry \<Rightarrow> bool" where
  "same_view E v r r' \<longleftrightarrow>
     (\<forall>k i. ir_userId i = v \<longrightarrow> (map_get (records r') k = Some i \<longleftrightarrow> map_get (records r) k = Some i)) \<and>
     (\<forall>g. map_get (ownership r') (ownershipKey E v g) = map_get (ownership r) (ownershipKey E v g)) \<and>
     (\<forall>c < nextConnectionUid r. conn_user r c = v \<longrightarrow> same_connection r r' c) \<and>
     (\<forall>cl < nextClient r. wc_userId (client_of r cl) = v \<longrightarrow>
        client_of r' cl = client_of r cl \<and> client_socket r' cl = client_socket r cl) \<and>
     (\<forall>tid. drawn E r tid \<and> wt_userId (tunnel_of r tid) = v \<longrightarrow>
        tunnel_of r' tid = tunnel_of r tid \<and> (tid \<in> set (webUiTunnels r') \<longleftrightarrow> tid \<in> set (webUiTunnels r)))"

definition confined :: "runtime \<Rightarrow> jstr \<Rightarrow> registry \<Rightarrow> registry \<Rightarrow> bool" where
  "confined E u r r' \<longleftrightarrow>
     nextConnectionUid r \<le> nextConnectionUid r' \<and> nextClient r \<le> nextClient r' \<and>
     uuids_drawn r \<le> uuids_drawn r' \<and>
     (\<forall>c < nextConnectionUid r. conn_user r' c = conn_user r c) \<and>
     (\<forall>cl < nextClient r. wc_userId (client_of r' cl) = wc_userId (client_of r cl)) \<and>
     (\<exists>es. effects r' = effects r @ es \<and> (\<forall>e \<in> set es. effect_for u r' e)) \<and>
     (\<forall>v. account_id v \<and> v \<noteq> u \<longrightarrow> same_view E v r r')"

lemma within_refl [simp, intro]: "confined E u r r"
  by (simp add: confined_def same_view_def same_connection_def)

lemma effect_for_mono:
  "effect_for u r e \<Longrightarrow> confined E u' r r' \<Longrightarrow> effect_for u r' e"
  by (auto simp: effect_for_def confined_def split: effect.splits)

lemma drawn_mono: "drawn E r x \<Longrightarrow> uuids_drawn r \<le> uuids_drawn r' \<Longrightarrow> drawn E r' x"
  unfolding drawn_def using order_less_le_trans by blast

lemma same_view_trans:
  assumes "confined E u r r1" "same_view E v r r1" "same_view E v r1 r2"
  shows "same_view E v r r2"
proof -
  have le: "nextConnectionUid r \<le> nextConnectionUid r1" "nextClient r \<le> nextClient r1"
    and cu: "\<And>c. c < nextConnectionUid r \<Longrightarrow> conn_user r1 c = conn_user r c"
    and wu: "\<And>cl. cl < nextClient r \<Longrightarrow> wc_userId (client_of r1 cl) = wc_userId (client_of r cl)"
    and dr: "\<And>x. drawn E r x \<Longrightarrow> drawn E r1 x"
    using assms(1) drawn_mono by (auto simp: confined_def)
  have a: "c < nextConnectionUid r \<Longrightarrow> conn_user r c = v \<Longrightarrow> same_connection r r1 c \<and> same_connection r1 r2 c" for c
    using assms(2,3) le cu [of c] by (auto simp: same_view_def)
  have b: "c < nextConnectionUid r \<Longrightarrow> conn_user r c = v \<Longrightarrow> same_connection r r2 c" for c
    using a [of c] by (simp add: same_connection_def)
  have c: "cl < nextClient r \<Longrightarrow> wc_userId (client_of r cl) = v \<Longrightarrow>
      client_of r2 cl = client_of r cl \<and> client_socket r2 cl = client_socket r cl" for cl
    using assms(2,3) le wu [of cl] by (simp add: same_view_def)
  have d: "drawn E r tid \<Longrightarrow> wt_userId (tunnel_of r tid) = v \<Longrightarrow>
      tunnel_of r2 tid = tunnel_of r tid \<and> (tid \<in> set (webUiTunnels r2) \<longleftrightarrow> tid \<in> set (webUiTunnels r))" for tid
    using assms(2,3) dr [of tid] by (simp add: same_view_def)
  show ?thesis using b c d assms(2,3) by (simp add: same_view_def)
qed

lemma confined_trans [trans]:
  assumes "confined E u r r1" "confined E u r1 r2"
  shows "confined E u r r2"
proof -
  obtain es es' where es: "effects r1 = effects r @ es" "\<And>e. e \<in> set es \<Longrightarrow> effect_for u r1 e"
    and es': "effects r2 = effects r1 @ es'" "\<And>e. e \<in> set es' \<Longrightarrow> effect_for u r2 e"
    using assms by (auto simp: confined_def)
  have "\<exists>es. effects r2 = effects r @ es \<and> (\<forall>e \<in> set es. effect_for u r2 e)"
    using es es' effect_for_mono [OF _ assms(2)] by (intro exI [of _ "es @ es'"]) auto
  moreover have "same_view E v r r2" if "account_id v" "v \<noteq> u" for v
    using assms that same_view_trans [OF assms(1)] by (simp add: confined_def)
  ultimately show ?thesis using assms by (auto simp: confined_def)
qed

subsection \<open>Elementary updates\<close>

definition good :: "runtime \<Rightarrow> jstr \<Rightarrow> registry \<Rightarrow> registry \<Rightarrow> bool" where
  "good E u r r' \<longleftrightarrow> registry_inv E r' \<and> confined E u r r'"

lemma good_refl [intro]: "registry_inv E r \<Longrightarrow> good E u r r"
  by (simp add: good_def)

lemma good_trans: "good E u r r1 \<Longrightarrow> good E u r1 r2 \<Longrightarrow> good E u r r2"
  using confined_trans by (auto simp: good_def)

lemma good_inv: "good E u r r' \<Longrightarrow> registry_inv E r'"
  by (simp add: good_def)

lemma good_user: "good E u r r' \<Longrightarrow> c < nextConnectionUid r \<Longrightarrow> c < nextConnectionUid r' \<and> conn_user r' c = conn_user r c"
  by (auto simp: good_def confined_def)

lemma good_client:
  "good E u r r' \<Longrightarrow> cl < nextClient r \<Longrightarrow>
   cl < nextClient r' \<and> wc_userId (client_of r' cl) = wc_userId (client_of r cl)"
  by (auto simp: good_def confined_def)

named_theorems view_defs \<open>unfold the invariant and the view\<close>
declare good_def [view_defs] registry_inv_def [view_defs] inv_records_def [view_defs]
  inv_pending_def [view_defs] inv_tunnels_def [view_defs] record_ok_def [view_defs]
  tunnel_ids_def [view_defs] tunnel_ok_def [view_defs] drawn_def [view_defs]
  conn_user_def [view_defs] confined_def [view_defs] same_view_def [view_defs]
  same_connection_def [view_defs]

lemma good_emit: "registry_inv E r \<Longrightarrow> effect_for u r e \<Longrightarrow> good E u r (emit e r)"
proof -
  assume a: "registry_inv E r" "effect_for u r e"
  then have "effect_for u (emit e r) e"
    by (simp add: effect_for_def emit_def conn_user_def split: effect.splits)
  with a(1) show ?thesis by (simp add: view_defs emit_def)
qed

lemma good_publish: "registry_inv E r \<Longrightarrow> good E u r (publishSnapshot u r)"
  unfolding publishSnapshot_def by (rule good_emit) (simp_all add: effect_for_def)

lemma good_outcomes: "registry_inv E r \<Longrightarrow> good E u r (r\<lparr>commandOutcomes := m\<rparr>)"
  by (simp add: view_defs)

lemma good_settleOutcome: "registry_inv E r \<Longrightarrow> good E u r (settleOutcome t x st r)"
  by (auto simp: settleOutcome_def good_outcomes split: option.split)

lemma good_sequence: "registry_inv E r \<Longrightarrow> good E u r (r\<lparr>nextSequence := n\<rparr>)"
  by (simp add: view_defs)

lemma good_uncaught: "registry_inv E r \<Longrightarrow> good E u r (r\<lparr>uncaught := b\<rparr>)"
  by (simp add: view_defs)

lemma good_draw: "registry_inv E r \<Longrightarrow> good E u r (r\<lparr>uuids_drawn := Suc (uuids_drawn r)\<rparr>)"
  by (auto simp: view_defs less_Suc_eq)

lemma good_socket:
  "registry_inv E r \<Longrightarrow> conn_user r c = u \<Longrightarrow> good E u r (r\<lparr>socket_of := (socket_of r)(c := s)\<rparr>)"
  by (auto simp: view_defs)

lemma good_client_socket:
  "registry_inv E r \<Longrightarrow> wc_userId (client_of r cl) = u \<Longrightarrow>
   good E u r (r\<lparr>client_socket := (client_socket r)(cl := s)\<rparr>)"
  by (auto simp: view_defs)

lemma good_connections:
  "registry_inv E r \<Longrightarrow> conn_user r c = u \<Longrightarrow> good E u r (r\<lparr>connections := removeAll c (connections r)\<rparr>)"
  by (auto simp: view_defs)

lemma good_set_connection:
  "registry_inv E r \<Longrightarrow> conn_user r c = u \<Longrightarrow> cc_auth cc = cc_auth (connection_of r c) \<Longrightarrow>
   cc_instanceId cc = cc_instanceId (connection_of r c) \<Longrightarrow> good E u r (set_connection c cc r)"
  by (auto simp: view_defs set_connection_def)

lemma inv_tunnels_clients:
  "(\<And>cl. wc_userId (g cl) = wc_userId (client_of r cl) \<and> wc_tunnel (g cl) = wc_tunnel (client_of r cl)) \<Longrightarrow>
   inv_tunnels E (r\<lparr>client_of := g\<rparr>) = inv_tunnels E r"
  by (simp add: inv_tunnels_def tunnel_ids_def tunnel_ok_def drawn_def conn_user_def)

lemma good_set_client:
  assumes "registry_inv E r" "wc_userId (client_of r cl) = u"
    and f: "\<And>w. wc_userId (f w) = wc_userId w \<and> wc_tunnel (f w) = wc_tunnel w"
  shows "good E u r (set_client cl f r)"
proof -
  have "inv_tunnels E (set_client cl f r)"
    using assms(1) f unfolding set_client_def
    by (subst inv_tunnels_clients) (simp_all add: registry_inv_def)
  moreover have "inv_records E (set_client cl f r)" "inv_pending E (set_client cl f r)"
    using assms(1) by (simp_all add: set_client_def view_defs)
  moreover have "confined E u r (set_client cl f r)"
    using assms(2) f by (auto simp: confined_def same_view_def same_connection_def set_client_def conn_user_def)
  ultimately show ?thesis by (simp add: good_def registry_inv_def)
qed

lemma good_terminate:
  "registry_inv E r \<Longrightarrow> c < nextConnectionUid r \<Longrightarrow> conn_user r c = u \<Longrightarrow> good E u r (terminate c r)"
  unfolding terminate_def
  by (rule good_trans [OF good_socket good_emit])
     (simp_all add: effect_for_def good_inv [OF good_socket] conn_user_def)

lemma good_close_socket:
  "registry_inv E r \<Longrightarrow> c < nextConnectionUid r \<Longrightarrow> conn_user r c = u \<Longrightarrow> good E u r (close_socket c code r)"
  unfolding close_socket_def
  by (rule good_trans [OF good_socket good_emit])
     (simp_all add: effect_for_def good_inv [OF good_socket] conn_user_def)

lemma good_client_close:
  "registry_inv E r \<Longrightarrow> cl < nextClient r \<Longrightarrow> wc_userId (client_of r cl) = u \<Longrightarrow> good E u r (client_close cl code r)"
  unfolding client_close_def
  by (rule good_trans [OF good_client_socket good_emit])
     (simp_all add: effect_for_def good_inv [OF good_client_socket])

lemma good_client_terminate:
  "registry_inv E r \<Longrightarrow> cl < nextClient r \<Longrightarrow> wc_userId (client_of r cl) = u \<Longrightarrow> good E u r (client_terminate cl r)"
  unfolding client_terminate_def
  by (rule good_trans [OF good_client_socket good_emit])
     (simp_all add: effect_for_def good_inv [OF good_client_socket])

lemma good_client_send:
  "registry_inv E r \<Longrightarrow> cl < nextClient r \<Longrightarrow> wc_userId (client_of r cl) = u \<Longrightarrow> good E u r (client_send cl m r)"
  by (simp add: client_send_def good_uncaught good_emit effect_for_def)
end
