(* ===== verification/InstanceSteps.thy ===== *)
theory InstanceSteps
  imports InstanceIsolation
begin

section \<open>Every operation of the instance registry stays in its account\<close>

text \<open>
  The invariant is preserved and nothing leaves the account, for \<open>disconnect\<close>, \<open>promote\<close> and
  \<open>send\<close> by their common induction and for every other operation by composition.
\<close>

subsection \<open>Releasing what waits for a connection\<close>

lemma good_pending:
  assumes "registry_inv E r" "conn_user r c = u"
  shows good_snapshotRequests: "good E u r (r\<lparr>snapshotRequests := filter (\<lambda>(_, p). sr_connection p \<noteq> c) (snapshotRequests r)\<rparr>)"
    and good_pendingCommands: "good E u r (r\<lparr>pendingCommands := (pendingCommands r)
          (kind := filter (\<lambda>(_, p). pc_connection p \<noteq> c) (pendingCommands r kind))\<rparr>)"
    and good_pendingPrompts: "good E u r (r\<lparr>pendingPrompts := filter (\<lambda>(_, p). pp_connection p \<noteq> c) (pendingPrompts r)\<rparr>)"
    and good_catalogRequests: "good E u r (r\<lparr>catalogRequests := filter (\<lambda>(_, c'). c' \<noteq> c) (catalogRequests r)\<rparr>)"
  using assms
  by (auto simp: view_defs map_get_filter distinct_keys_filter split: option.splits if_splits)

lemma good_effects:
  "registry_inv E r \<Longrightarrow> (\<And>e. e \<in> set es \<Longrightarrow> effect_for u r e) \<Longrightarrow> good E u r (r\<lparr>effects := effects r @ es\<rparr>)"
proof (induction es rule: rev_induct)
  case (snoc e es)
  then have g: "good E u r (r\<lparr>effects := effects r @ es\<rparr>)" by simp
  have "effect_for u r e" using snoc.prems(2) by simp
  then have "effect_for u (r\<lparr>effects := effects r @ es\<rparr>) e"
    by (simp add: effect_for_def conn_user_def split: effect.splits)
  from good_trans [OF g good_emit [OF good_inv [OF g] this]] show ?case by (simp add: emit_def)
qed (simp add: good_refl)

lemma good_fold:
  assumes "registry_inv E r"
    and "\<And>x r'. x \<in> set xs \<Longrightarrow> good E u r r' \<Longrightarrow> good E u r' (f x r')"
  shows "good E u r (fold f xs r)"
  using assms(2)
proof (induction xs rule: rev_induct)
  case Nil
  then show ?case using assms(1) by (simp add: good_refl)
next
  case (snoc x xs)
  then have "good E u r (fold f xs r)" by simp
  moreover have "good E u (fold f xs r) (f x (fold f xs r))" using snoc.prems calculation by simp
  ultimately show ?case using good_trans by simp
qed

lemma good_drop_catalog:
  assumes "registry_inv E r" "conn_user r c = u"
  shows "good E u r (drop_catalog_requests c r)"
proof -
  let ?r = "r\<lparr>catalogRequests := filter (\<lambda>(_, c'). c' \<noteq> c) (catalogRequests r)\<rparr>"
  have g: "good E u r ?r" by (rule good_catalogRequests [OF assms])
  have "good E u ?r (?r\<lparr>effects := effects ?r @ map (\<lambda>(rid, _). CatalogSettled rid CatalogNotFound)
          (filter (\<lambda>(_, c'). c' = c) (catalogRequests r))\<rparr>)"
    by (rule good_effects [OF good_inv [OF g]]) (auto simp: effect_for_def)
  from good_trans [OF g this] show ?thesis by (simp add: drop_catalog_requests_def)
qed

lemma good_drop_snapshots:
  assumes "registry_inv E r" "conn_user r c = u"
  shows "good E u r (drop_snapshot_requests c r)"
proof -
  let ?r = "r\<lparr>snapshotRequests := filter (\<lambda>(_, p). sr_connection p \<noteq> c) (snapshotRequests r)\<rparr>"
  have g: "good E u r ?r" by (rule good_snapshotRequests [OF assms])
  have "good E u ?r (?r\<lparr>effects := effects ?r @ map (\<lambda>(_, p). SnapshotSettled (sr_requestId p) [])
          (filter (\<lambda>(_, p). sr_connection p = c) (snapshotRequests r))\<rparr>)"
    by (rule good_effects [OF good_inv [OF g]]) (auto simp: effect_for_def)
  from good_trans [OF g this] show ?thesis by (simp add: drop_snapshot_requests_def)
qed

lemma good_drop_commands:
  assumes "registry_inv E r" "conn_user r c = u"
  shows "good E u r (drop_commands t kind c r)"
  unfolding drop_commands_def
  by (rule good_trans [OF good_pendingCommands [OF assms]], rule good_fold)
     (auto simp: good_inv good_settleOutcome intro: good_inv [OF good_pendingCommands [OF assms]])

lemma good_webUiTunnels:
  assumes "registry_inv E r" "\<And>tid. tid \<in> set (webUiTunnels r) \<Longrightarrow> \<not> P tid \<Longrightarrow> wt_userId (tunnel_of r tid) = u"
  shows "good E u r (r\<lparr>webUiTunnels := filter P (webUiTunnels r)\<rparr>)"
  using assms by (auto simp: view_defs)

lemma good_drop_tunnels:
  assumes inv: "registry_inv E r" and u: "conn_user r c = u"
  shows "good E u r (drop_tunnels c r)"
proof -
  have ok: "tunnel_ok r (tunnel_of r tid)" if "tid \<in> set (webUiTunnels r)" for tid
    using that inv by (auto simp: registry_inv_def inv_tunnels_def tunnel_ids_def)
  let ?r = "r\<lparr>webUiTunnels := filter (\<lambda>tid. wt_connection (tunnel_of r tid) \<noteq> c) (webUiTunnels r)\<rparr>"
  have g: "good E u r ?r"
    using ok u by (intro good_webUiTunnels [OF inv]) (auto simp: tunnel_ok_def)
  have "good E u ?r (drop_tunnels c r)"
    unfolding drop_tunnels_def
  proof (rule good_fold [OF good_inv [OF g]])
    fix tid r'
    assume tid: "tid \<in> set (filter (\<lambda>tid. wt_connection (tunnel_of r tid) = c) (webUiTunnels r))"
      and g': "good E u ?r r'"
    let ?cl = "wt_client (tunnel_of r tid)"
    from tid ok u have "?cl < nextClient ?r" "wc_userId (client_of ?r ?cl) = u"
      by (auto simp: tunnel_ok_def)
    with good_client [OF g'] have "?cl < nextClient r'" "wc_userId (client_of r' ?cl) = u" by auto
    then show "good E u r' (client_close ?cl 1011 r')"
      by (rule good_client_close [OF good_inv [OF g']])
  qed
  with g show ?thesis by (rule good_trans)
qed

lemma good_release:
  assumes "registry_inv E r" "c < nextConnectionUid r" "conn_user r c = u"
  shows "good E u r (release t c r)"
proof -
  have nxt: "registry_inv E r' \<and> conn_user r' c = u" if "good E u r r'" for r'
    using good_inv [OF that] good_user [OF that assms(2)] assms(3) by simp
  note g1 = good_drop_catalog [OF assms(1,3)]
  have g2: "good E u r (drop_snapshot_requests c (drop_catalog_requests c r))" (is "good E u r ?r2")
    using good_trans [OF g1 good_drop_snapshots] nxt [OF g1] by blast
  have g3: "good E u r (drop_commands t QuestionKind c ?r2)" (is "good E u r ?r3")
    using good_trans [OF g2 good_drop_commands] nxt [OF g2] by blast
  have g4: "good E u r (drop_commands t PermissionKind c ?r3)" (is "good E u r ?r4")
    using good_trans [OF g3 good_drop_commands] nxt [OF g3] by blast
  have g5: "good E u r (drop_prompts c ?r4)"
    unfolding drop_prompts_def using good_trans [OF g4 good_pendingPrompts] nxt [OF g4] by blast
  show ?thesis
    unfolding release_def using good_trans [OF g5 good_drop_tunnels] nxt [OF g5] by blast
qed

subsection \<open>Records and ownership\<close>

lemma settleOutcome_frame [simp]:
  "records (settleOutcome t x st r) = records r" "ownership (settleOutcome t x st r) = ownership r"
  "connection_of (settleOutcome t x st r) = connection_of r" "socket_of (settleOutcome t x st r) = socket_of r"
  by (simp_all add: settleOutcome_def split: option.split)

lemma client_close_frame [simp]:
  "records (client_close cl code r) = records r" "ownership (client_close cl code r) = ownership r"
  "connection_of (client_close cl code r) = connection_of r" "socket_of (client_close cl code r) = socket_of r"
  by (simp_all add: client_close_def emit_def)

lemma fold_frame: "(\<And>x r. p (f x r) = p r) \<Longrightarrow> p (fold f xs r) = p r"
  by (induction xs arbitrary: r) simp_all

lemma release_frame [simp]:
  "records (release t c r) = records r" "ownership (release t c r) = ownership r"
  "connection_of (release t c r) = connection_of r" "socket_of (release t c r) = socket_of r"
  by (simp_all add: release_def drop_tunnels_def drop_prompts_def drop_commands_def
      drop_snapshot_requests_def drop_catalog_requests_def case_prod_unfold
      fold_frame [where p = records] fold_frame [where p = ownership]
      fold_frame [where p = connection_of] fold_frame [where p = socket_of])

lemma good_put_record:
  assumes "registry_inv E r" "map_get (records r) k = Some i" "ir_userId i = u" "ir_userId i' = u" "record_ok E r k i'"
  shows "good E u r (put_record k i' r)"
proof -
  have "map_has (records r) k" using assms(2) by (simp add: map_has_iff)
  then have r': "map_get (records (put_record k i' r)) = (map_get (records r))(k \<mapsto> i')"
    by (auto simp: put_record_def)
  have "inv_records E (put_record k i' r)"
  proof -
    have "record_ok E (put_record k i' r) k0 i0 = record_ok E r k0 i0" for k0 i0
      by (simp add: record_ok_def put_record_def conn_user_def)
    moreover have "distinct_keys (records (put_record k i' r))"
      using assms(1) by (simp add: put_record_def registry_inv_def inv_records_def)
    ultimately show ?thesis
      using assms(1,5) r' by (simp add: registry_inv_def inv_records_def put_record_def conn_user_def)
  qed
  moreover have "inv_pending E (put_record k i' r)" "inv_tunnels E (put_record k i' r)"
    using assms(1) by (simp_all add: registry_inv_def inv_pending_def inv_tunnels_def put_record_def
        tunnel_ids_def tunnel_ok_def drawn_def conn_user_def)
  moreover have "confined E u r (put_record k i' r)"
  proof -
    have "same_view E v r (put_record k i' r)" if "v \<noteq> u" for v
      using that assms(2-4) r'
      by (auto simp: same_view_def same_connection_def put_record_def)
    then show ?thesis by (simp add: confined_def put_record_def conn_user_def)
  qed
  ultimately show ?thesis by (simp add: good_def registry_inv_def)
qed

lemma good_ownership:
  assumes "registry_inv E r" "account_id u" "okey = ownershipKey E u g"
    and m: "\<And>x. x \<noteq> okey \<Longrightarrow> map_get m x = map_get (ownership r) x"
    and ctrl: "\<And>k i. map_get (records r) k = Some i \<Longrightarrow> ir_state i = Controllable \<Longrightarrow> ir_ownership E i = okey \<Longrightarrow>
                 map_get m okey = Some (ir_instance i)"
  shows "good E u r (r\<lparr>ownership := m\<rparr>)"
proof -
  have "record_ok E (r\<lparr>ownership := m\<rparr>) k i" if "map_get (records r) k = Some i" for k i
  proof -
    have "record_ok E r k i" using that assms(1) by (simp add: registry_inv_def inv_records_def)
    then show ?thesis
      using ctrl [OF that] m [of "ir_ownership E i"]
      by (cases "ir_ownership E i = okey") (simp_all add: record_ok_def conn_user_def)
  qed
  then have "inv_records E (r\<lparr>ownership := m\<rparr>)"
    using assms(1) by (simp add: registry_inv_def inv_records_def conn_user_def)
  moreover have "inv_pending E (r\<lparr>ownership := m\<rparr>)" "inv_tunnels E (r\<lparr>ownership := m\<rparr>)"
    using assms(1) by (simp_all add: registry_inv_def inv_pending_def inv_tunnels_def
        tunnel_ids_def tunnel_ok_def drawn_def conn_user_def)
  moreover have "confined E u r (r\<lparr>ownership := m\<rparr>)"
  proof -
    have "ownershipKey E v g' \<noteq> okey" if "account_id v" "v \<noteq> u" for v g'
      using ownershipKey_account [OF that(1) assms(2)] that(2) assms(3) by blast
    then show ?thesis using m
      by (simp add: confined_def same_view_def same_connection_def conn_user_def)
  qed
  ultimately show ?thesis by (simp add: good_def registry_inv_def)
qed

lemma inv_recordD:
  "registry_inv E r \<Longrightarrow> map_get (records r) k = Some i \<Longrightarrow> record_ok E r k i"
  by (simp add: registry_inv_def inv_records_def)

lemma candidates_head:
  assumes "registry_inv E r" "candidates E okey u r = (k, i) # rest"
  shows "map_get (records r) k = Some i \<and> ir_userId i = u \<and> ir_state i = Conflicting \<and> ir_ownership E i = okey"
proof -
  have "(k, i) \<in> set (candidates E okey u r)" using assms(2) by simp
  then have "(k, i) \<in> set (records r)" "ir_userId i = u" "ir_state i = Conflicting" "ir_ownership E i = okey"
    by (auto simp: candidates_def)
  with assms(1) show ?thesis
    by (simp add: map_get_iff registry_inv_def inv_records_def)
qed

subsection \<open>The common induction\<close>

lemma good_send_terminate:
  assumes "good E u r (disconnect E t c r)" "c < nextConnectionUid r" "conn_user r c = u"
  shows "good E u r (terminate c (disconnect E t c r))"
  using good_trans [OF assms(1) good_terminate] good_inv [OF assms(1)] good_user [OF assms(1,2)] assms(3)
  by simp

lemma good_send_if:
  assumes "registry_inv E r" "c < nextConnectionUid r" "good E (conn_user r c) r (disconnect E t c r)"
  shows "good E (conn_user r c) r (send E t c m r)"
  unfolding send.simps
  using assms good_send_terminate [OF assms(3,2)] good_emit [OF assms(1)]
  by (simp add: effect_for_def split: send_fate.split)

lemma good_take_offline:
  assumes "registry_inv E r" "map_get (records r) k = Some i"
  shows "good E (ir_userId i) r (put_record k (i\<lparr>ir_connection := None, ir_state := Offline, ir_lastSeenAt := t\<rparr>) r)"
  using inv_recordD [OF assms] by (intro good_put_record [OF assms refl]) (simp_all add: record_ok_def)

lemma put_record_ownership:
  "(put_record k i r)\<lparr>ownership := m\<rparr> = put_record k i (r\<lparr>ownership := m\<rparr>)"
  by (cases r) (simp add: put_record_def)

lemma promoted_record:
  assumes inv: "registry_inv E r" and i: "map_get (records r) k = Some i" and conf: "ir_state i = Conflicting"
    and okey: "okey = ir_ownership E i" and none: "map_get (ownership r) okey = None"
  shows "good E (ir_userId i) r
           ((put_record k (i\<lparr>ir_state := Controllable, ir_lastSeenAt := t\<rparr>) r)
              \<lparr>ownership := map_set okey (ir_instance i) (ownership r)\<rparr>)"
proof -
  note ok = inv_recordD [OF inv i]
  let ?r = "r\<lparr>ownership := map_set okey (ir_instance i) (ownership r)\<rparr>"
  have acc: "account_id (ir_userId i)" using ok by (simp add: record_ok_def)
  have "ir_ownership E i' \<noteq> okey" if "map_get (records r) k' = Some i'" "ir_state i' = Controllable" for k' i'
    using inv_recordD [OF inv that(1)] that(2) none by (auto simp: record_ok_def)
  then have g: "good E (ir_userId i) r ?r"
    by (intro good_ownership [OF inv acc okey]) auto
  have "good E (ir_userId i) ?r (put_record k (i\<lparr>ir_state := Controllable, ir_lastSeenAt := t\<rparr>) ?r)"
    using i ok okey conf by (intro good_put_record [OF good_inv [OF g]]) (auto simp: record_ok_def conn_user_def)
  with g have "good E (ir_userId i) r (put_record k (i\<lparr>ir_state := Controllable, ir_lastSeenAt := t\<rparr>) ?r)"
    by (rule good_trans)
  then show ?thesis by (simp only: put_record_ownership)
qed

text \<open>Freeing the key of a record that has gone offline leaves no controllable record behind.\<close>

lemma good_free_ownership:
  assumes inv: "registry_inv E r" and i: "map_get (records r) k = Some i" and ctrl: "ir_state i = Controllable"
    and off: "i' = i\<lparr>ir_connection := None, ir_state := Offline, ir_lastSeenAt := t\<rparr>"
    and okey: "okey = ir_ownership E i"
  shows "good E (ir_userId i) r ((put_record k i' r)\<lparr>ownership := map_delete okey (ownership r)\<rparr>)"
proof -
  note g = good_take_offline [OF inv i, of t, folded off]
  let ?r = "put_record k i' r"
  have acc: "account_id (ir_userId i)" using inv_recordD [OF inv i] by (simp add: record_ok_def)
  have "False" if j: "map_get (records ?r) k' = Some j" "ir_state j = Controllable" "ir_ownership E j = okey" for k' j
  proof (cases "k' = k")
    case True
    with j(1,2) i off show False by (auto simp: put_record_def map_has_iff)
  next
    case False
    with j(1) have "map_get (records r) k' = Some j" by (simp add: put_record_def)
    moreover have "inv_records E r" using inv by (simp add: registry_inv_def)
    ultimately show False using controllable_unique i ctrl j okey False by metis
  qed
  then have "good E (ir_userId i) ?r (?r\<lparr>ownership := map_delete okey (ownership ?r)\<rparr>)"
    by (intro good_ownership [OF good_inv [OF g] acc okey]) auto
  from good_trans [OF g this] show ?thesis by (simp add: put_record_def)
qed

lemma good_disconnect_if:
  assumes inv: "registry_inv E r" and c: "c < nextConnectionUid r"
    and IH: "\<And>k i okey r'. registry_inv E r' \<Longrightarrow> map_get (ownership r') okey = None \<Longrightarrow>
               okey = ir_ownership E i \<Longrightarrow> account_id (ir_userId i) \<Longrightarrow> c \<in> set (connections r) \<Longrightarrow>
               length (connections r') < length (connections r) \<Longrightarrow>
               good E (ir_userId i) r' (promote E t okey (ir_userId i) r')"
  shows "good E (conn_user r c) r (disconnect E t c r)"
proof (cases "c \<in> set (connections r)")
  case False
  then show ?thesis using inv by (simp add: disconnect.simps good_refl)
next
  case True
  define u where "u = conn_user r c"
  define r0 where "r0 = r\<lparr>connections := removeAll c (connections r)\<rparr>"
  define r1 where "r1 = release t c r0"
  have g0: "good E u r r0" unfolding r0_def by (rule good_connections [OF inv]) (simp add: u_def)
  have g1: "good E u r r1"
    unfolding r1_def using good_trans [OF g0 good_release] good_inv [OF g0] good_user [OF g0 c]
    by (simp add: u_def)
  have eq: "records r1 = records r" "ownership r1 = ownership r" "connection_of r1 = connection_of r"
    "connections r1 = removeAll c (connections r)"
    by (simp_all add: r1_def r0_def)
  note inv1 = good_inv [OF g1]
  note ex = disconnect.simps [of E t c r]
  show ?thesis
  proof (cases "cc_instanceId (connection_of r c)")
    case None
    then show ?thesis using g1 True by (simp add: ex eq r0_def [symmetric] r1_def [symmetric] u_def)
  next
    case (Some inst)
    let ?k = "recordKey u inst"
    show ?thesis
    proof (cases "\<exists>i. map_get (records r) ?k = Some i \<and> ir_connection i = Some c")
      case False
      then have "disconnect E t c r = r1"
        using True Some
        by (auto simp: ex eq r0_def [symmetric] r1_def [symmetric] u_def conn_user_def Let_def split: option.split)
      then show ?thesis using g1 by (simp add: u_def)
    next
      case True
      then obtain i where i: "map_get (records r1) ?k = Some i" and ci: "ir_connection i = Some c"
        using eq by auto
      have iu: "ir_userId i = u"
        using inv_recordD [OF inv] i ci eq by (auto simp: record_ok_def u_def)
      define i' where "i' = i\<lparr>ir_connection := None, ir_state := Offline, ir_lastSeenAt := t\<rparr>"
      define r2 where "r2 = put_record ?k i' r1"
      define okey where "okey = ir_ownership E i"
      define r3 where "r3 = (if ir_state i = Controllable \<and> map_get (ownership r2) okey = Some inst
          then promote E t okey (ir_userId i) (r2\<lparr>ownership := map_delete okey (ownership r2)\<rparr>) else r2)"
      have "disconnect E t c r = publishSnapshot (ir_userId i) r3"
        using \<open>c \<in> set (connections r)\<close> Some i ci
        by (simp add: ex eq r0_def [symmetric] r1_def [symmetric] u_def conn_user_def Let_def
            r3_def r2_def i'_def okey_def)
      moreover have "good E u r r3"
      proof (cases "ir_state i = Controllable \<and> map_get (ownership r2) okey = Some inst")
        case False
        have "good E u r1 r2"
          unfolding r2_def i'_def using good_take_offline [OF inv1 i, of t] iu by simp
        then show ?thesis using good_trans [OF g1] False by (auto simp: r3_def)
      next
        case True
        let ?r = "r2\<lparr>ownership := map_delete okey (ownership r2)\<rparr>"
        have f: "good E u r1 ?r"
          using good_free_ownership [OF inv1 i _ i'_def okey_def] True iu
          by (simp add: r2_def put_record_def)
        have "account_id (ir_userId i)" using inv_recordD [OF inv1 i] by (simp add: record_ok_def)
        moreover have "length (connections ?r) < length (connections r)"
          using \<open>c \<in> set (connections r)\<close> eq length_removeAll_less by (simp add: r2_def)
        ultimately have "good E u ?r (promote E t okey u ?r)"
          using IH [OF good_inv [OF f], of okey i] \<open>c \<in> set (connections r)\<close> iu by (simp add: okey_def)
        with good_trans [OF g1 f] have "good E u r (promote E t okey u ?r)" by (rule good_trans)
        then show ?thesis using True iu by (simp add: r3_def)
      qed
      ultimately show ?thesis
        using good_trans [OF _ good_publish] good_inv iu by (metis u_def)
    qed
  qed
qed

lemma good_promote_if:
  assumes inv: "registry_inv E r" and none: "map_get (ownership r) okey = None"
    and IH: "\<And>c m r'. registry_inv E r' \<Longrightarrow> c < nextConnectionUid r' \<Longrightarrow> connections r' = connections r \<Longrightarrow>
               good E (conn_user r' c) r' (send E t c m r')"
  shows "good E u r (promote E t okey u r)"
proof (cases "candidates E okey u r")
  case Nil
  then show ?thesis using inv by (simp add: promote.simps good_refl)
next
  case (Cons ki rest)
  obtain k i where ki: "ki = (k, i)" by force
  note h = candidates_head [OF inv Cons [unfolded ki]]
  then have i: "map_get (records r) k = Some i" "ir_userId i = u" "ir_state i = Conflicting" "okey = ir_ownership E i"
    by auto
  note ok = inv_recordD [OF inv i(1)]
  from ok i(3) obtain c where c: "ir_connection i = Some c" by (auto simp: record_ok_def)
  let ?r = "(put_record k (i\<lparr>ir_state := Controllable, ir_lastSeenAt := t\<rparr>) r)
              \<lparr>ownership := map_set okey (ir_instance i) (ownership r)\<rparr>"
  have g: "good E u r ?r" using promoted_record [OF inv i(1,3,4) none] i(2) by simp
  have b: "c < nextConnectionUid ?r" "conn_user ?r c = u" "connections ?r = connections r"
    using ok c i(2) by (simp_all add: record_ok_def put_record_def conn_user_def)
  have "good E u ?r (send E t c (RegistrationResult (ir_instance i) Controllable) ?r)"
    using IH [OF good_inv [OF g] b(1,3)] unfolding b(2) .
  with g have "good E u r (send E t c (RegistrationResult (ir_instance i) Controllable) ?r)" by (rule good_trans)
  moreover have "promote E t okey u r = send E t c (RegistrationResult (ir_instance i) Controllable) ?r"
    by (simp add: promote.simps Cons ki c Let_def put_record_def)
  ultimately show ?thesis by simp
qed

lemma good_all:
  fixes n :: nat
  shows "(registry_inv E r \<longrightarrow> c < nextConnectionUid r \<longrightarrow> length (connections r) = n \<longrightarrow>
            good E (conn_user r c) r (disconnect E t c r)) \<and>
         (registry_inv E r \<longrightarrow> map_get (ownership r) okey = None \<longrightarrow> length (connections r) = n \<longrightarrow>
            good E u r (promote E t okey u r))"
proof (induction n arbitrary: r c okey u rule: less_induct)
  case (less n)
  have d: "good E (conn_user r c) r (disconnect E t c r)"
    if "registry_inv E r" "c < nextConnectionUid r" "length (connections r) = n" for r c
    using less.IH that by (intro good_disconnect_if [OF that(1,2)]) blast
  have s: "good E (conn_user r c) r (send E t c m r)"
    if "registry_inv E r" "c < nextConnectionUid r" "length (connections r) = n" for r c m
    by (rule good_send_if [OF that(1,2) d [OF that]])
  have p: "good E u r (promote E t okey u r)"
    if "registry_inv E r" "map_get (ownership r) okey = None" "length (connections r) = n" for r okey u
    using s that by (intro good_promote_if [OF that(1,2)]) auto
  show ?case using d p by blast
qed

lemma good_disconnect:
  "registry_inv E r \<Longrightarrow> c < nextConnectionUid r \<Longrightarrow> conn_user r c = u \<Longrightarrow> good E u r (disconnect E t c r)"
  using good_all [of E r c "length (connections r)"] by auto

lemma good_send:
  "registry_inv E r \<Longrightarrow> c < nextConnectionUid r \<Longrightarrow> conn_user r c = u \<Longrightarrow> good E u r (send E t c m r)"
  using good_send_if good_disconnect by blast
end
