(* ===== verification/InstanceOps.thy ===== *)
theory InstanceOps
  imports InstanceSteps
begin

section \<open>The operations of the instance registry, composed\<close>

text \<open>
  For each handler of a plugin frame, each client request, timer and registration: the invariant is
  kept and other accounts see nothing. The two operations that concern many connections at once
  (revoking a key, shutting down) keep the invariant.
\<close>

subsection \<open>More elementary updates\<close>

lemma good_set_record:
  assumes inv: "registry_inv E r" and old: "\<And>i0. map_get (records r) k = Some i0 \<Longrightarrow> ir_userId i0 = u"
    and u: "ir_userId i = u" and ok: "record_ok E r k i"
  shows "good E u r (r\<lparr>records := map_set k i (records r)\<rparr>)"
proof -
  have "record_ok E (r\<lparr>records := map_set k i (records r)\<rparr>) k0 i0 = record_ok E r k0 i0" for k0 i0
    by (simp add: record_ok_def conn_user_def)
  then have "inv_records E (r\<lparr>records := map_set k i (records r)\<rparr>)"
    using inv ok by (simp add: registry_inv_def inv_records_def conn_user_def)
  moreover have "inv_pending E (r\<lparr>records := map_set k i (records r)\<rparr>)"
    "inv_tunnels E (r\<lparr>records := map_set k i (records r)\<rparr>)"
    using inv by (simp_all add: registry_inv_def inv_pending_def inv_tunnels_def
        tunnel_ids_def tunnel_ok_def drawn_def conn_user_def)
  moreover have "confined E u r (r\<lparr>records := map_set k i (records r)\<rparr>)"
    using old u by (auto simp: confined_def same_view_def same_connection_def conn_user_def)
  ultimately show ?thesis by (simp add: good_def registry_inv_def)
qed

lemma good_filter_records:
  assumes inv: "registry_inv E r" and old: "\<And>k i. map_get (records r) k = Some i \<Longrightarrow> \<not> P (k, i) \<Longrightarrow> ir_userId i = u"
  shows "good E u r (r\<lparr>records := filter P (records r)\<rparr>)"
proof -
  have dk: "distinct_keys (records r)" using inv by (simp add: registry_inv_def inv_records_def)
  have rec: "map_get (filter P (records r)) k = Some i \<longleftrightarrow> map_get (records r) k = Some i \<and> P (k, i)" for k i
    by (auto simp: map_get_filter [OF dk] split: option.splits)
  have "record_ok E (r\<lparr>records := filter P (records r)\<rparr>) k0 i0 = record_ok E r k0 i0" for k0 i0
    by (simp add: record_ok_def conn_user_def)
  then have "inv_records E (r\<lparr>records := filter P (records r)\<rparr>)"
    using inv by (simp add: registry_inv_def inv_records_def conn_user_def rec distinct_keys_filter)
  moreover have "inv_pending E (r\<lparr>records := filter P (records r)\<rparr>)"
    "inv_tunnels E (r\<lparr>records := filter P (records r)\<rparr>)"
    using inv by (simp_all add: registry_inv_def inv_pending_def inv_tunnels_def
        tunnel_ids_def tunnel_ok_def drawn_def conn_user_def)
  moreover have "confined E u r (r\<lparr>records := filter P (records r)\<rparr>)"
    using old by (auto simp: confined_def same_view_def same_connection_def conn_user_def rec)
  ultimately show ?thesis by (simp add: good_def registry_inv_def)
qed

lemma good_delete_record:
  assumes "registry_inv E r" "map_get (records r) k = Some i" "ir_userId i = u"
  shows "good E u r (r\<lparr>records := map_delete k (records r)\<rparr>)"
  unfolding map_delete_filter using assms by (intro good_filter_records) auto

text \<open>A connection that no record holds takes its instance id.\<close>

lemma good_bind:
  assumes "registry_inv E r" "conn_user r c = u" "cc_auth cc = cc_auth (connection_of r c)"
    and "\<And>k i. map_get (records r) k = Some i \<Longrightarrow> ir_connection i \<noteq> Some c"
  shows "good E u r (set_connection c cc r)"
  using assms by (auto simp: view_defs set_connection_def)

lemma good_snapshotRequests_set:
  assumes "registry_inv E r" "conn_user r (sr_connection p) = u"
  shows "good E u r (r\<lparr>snapshotRequests := map_set (pendingKey (sr_connection p) (sr_requestId p)) p (snapshotRequests r)\<rparr>)"
proof -
  have k: "sr_connection p0 = sr_connection p"
    if "map_get (snapshotRequests r) (pendingKey (sr_connection p) (sr_requestId p)) = Some p0" for p0
    using that assms(1) by (metis registry_inv_def inv_pending_def pendingKey_inj)
  show ?thesis using assms k by (auto simp: view_defs)
qed

lemma good_pendingCommands_set:
  assumes "registry_inv E r" "conn_user r (pc_connection p) = u"
  shows "good E u r (r\<lparr>pendingCommands := (pendingCommands r)
           (kind := map_set (commandKey (pc_connection p) (pc_commandId p)) p (pendingCommands r kind))\<rparr>)"
proof -
  have k: "pc_connection p0 = pc_connection p"
    if "map_get (pendingCommands r kind) (commandKey (pc_connection p) (pc_commandId p)) = Some p0" for p0
    using that assms(1) by (metis registry_inv_def inv_pending_def commandKey_inj)
  show ?thesis using assms k by (auto simp: view_defs)
qed

lemma good_pendingPrompts_set:
  assumes "registry_inv E r" "conn_user r (pp_connection p) = u"
  shows "good E u r (r\<lparr>pendingPrompts := map_set (commandKey (pp_connection p) (pp_commandId p)) p (pendingPrompts r)\<rparr>)"
proof -
  have k: "pp_connection p0 = pp_connection p"
    if "map_get (pendingPrompts r) (commandKey (pp_connection p) (pp_commandId p)) = Some p0" for p0
    using that assms(1) by (metis registry_inv_def inv_pending_def commandKey_inj)
  show ?thesis using assms k by (auto simp: view_defs)
qed

lemma good_deletes:
  assumes "registry_inv E r"
  shows good_snapshotRequests_delete:
      "map_get (snapshotRequests r) k = Some sp \<Longrightarrow> conn_user r (sr_connection sp) = u \<Longrightarrow>
       good E u r (r\<lparr>snapshotRequests := map_delete k (snapshotRequests r)\<rparr>)"
    and good_pendingCommands_delete:
      "map_get (pendingCommands r kind) k = Some cp \<Longrightarrow> conn_user r (pc_connection cp) = u \<Longrightarrow>
       good E u r (r\<lparr>pendingCommands := (pendingCommands r)(kind := map_delete k (pendingCommands r kind))\<rparr>)"
    and good_pendingPrompts_delete:
      "map_get (pendingPrompts r) k = Some pp \<Longrightarrow> conn_user r (pp_connection pp) = u \<Longrightarrow>
       good E u r (r\<lparr>pendingPrompts := map_delete k (pendingPrompts r)\<rparr>)"
    and good_catalogRequests_delete:
      "map_get (catalogRequests r) k = Some c \<Longrightarrow> conn_user r c = u \<Longrightarrow>
       good E u r (r\<lparr>catalogRequests := map_delete k (catalogRequests r)\<rparr>)"
  using assms by (auto simp: view_defs)

lemma fresh_uuid: "inj (random_uuid E) \<Longrightarrow> \<not> drawn E r (random_uuid E (uuids_drawn r))"
  by (auto simp: drawn_def dest: injD)

lemma good_catalogRequests_set:
  assumes inv: "registry_inv E r" and u: "conn_user r c = u" and inj: "inj (random_uuid E)"
  shows "good E u r (r\<lparr>uuids_drawn := Suc (uuids_drawn r),
           catalogRequests := map_set (random_uuid E (uuids_drawn r)) c (catalogRequests r)\<rparr>)"
proof -
  let ?x = "random_uuid E (uuids_drawn r)"
  have none: "map_get (catalogRequests r) ?x = None"
    using fresh_uuid [OF inj, of r] inv
    by (cases "map_get (catalogRequests r) ?x") (auto simp: registry_inv_def inv_pending_def)
  note g = good_draw [OF inv, of u]
  let ?r = "r\<lparr>uuids_drawn := Suc (uuids_drawn r)\<rparr>"
  have "drawn E ?r ?x" by (auto simp: drawn_def)
  then have "inv_pending E (?r\<lparr>catalogRequests := map_set ?x c (catalogRequests ?r)\<rparr>)"
    using good_inv [OF g] by (simp add: registry_inv_def inv_pending_def drawn_def)
  moreover have "inv_records E (?r\<lparr>catalogRequests := map_set ?x c (catalogRequests ?r)\<rparr>)"
    "inv_tunnels E (?r\<lparr>catalogRequests := map_set ?x c (catalogRequests ?r)\<rparr>)"
    using good_inv [OF g] by (simp_all add: view_defs)
  moreover have "confined E u ?r (?r\<lparr>catalogRequests := map_set ?x c (catalogRequests ?r)\<rparr>)"
    using u none by (auto simp: confined_def same_view_def same_connection_def conn_user_def)
  ultimately have "good E u ?r (?r\<lparr>catalogRequests := map_set ?x c (catalogRequests ?r)\<rparr>)"
    by (simp add: good_def registry_inv_def)
  with g have "good E u r (?r\<lparr>catalogRequests := map_set ?x c (catalogRequests ?r)\<rparr>)" by (rule good_trans)
  then show ?thesis by simp
qed

lemma good_tunnel_write:
  assumes inv: "registry_inv E r" and tid: "tid \<in> tunnel_ids r" and u: "wt_userId (tunnel_of r tid) = u"
    and w: "wt_userId w = u" "wt_client w = wt_client (tunnel_of r tid)" "wt_connection w = wt_connection (tunnel_of r tid)"
  shows "good E u r (r\<lparr>tunnel_of := (tunnel_of r)(tid := w)\<rparr>)"
proof -
  let ?r = "r\<lparr>tunnel_of := (tunnel_of r)(tid := w)\<rparr>"
  have ids: "tunnel_ids ?r = tunnel_ids r" "drawn E ?r = drawn E r" by (simp_all add: tunnel_ids_def drawn_def fun_eq_iff)
  have "tunnel_ok ?r (tunnel_of ?r x) = tunnel_ok r (tunnel_of r x)" for x
    using u w by (simp add: tunnel_ok_def conn_user_def)
  then have "inv_tunnels E ?r" using inv w by (simp add: registry_inv_def inv_tunnels_def ids)
  moreover have "inv_records E ?r" "inv_pending E ?r" using inv by (simp_all add: view_defs)
  moreover have "confined E u r ?r"
    using u by (auto simp: confined_def same_view_def same_connection_def conn_user_def)
  ultimately show ?thesis by (simp add: good_def registry_inv_def)
qed

subsection \<open>Frames of a plugin\<close>

lemma good_handleCatalogResponse:
  assumes "registry_inv E r" "conn_user r c = u"
  shows "good E u r (handleCatalogResponse c rid inst st cat r)"
proof (cases "map_get (catalogRequests r) rid = Some c \<and> cc_instanceId (connection_of r c) = Some inst")
  case True
  then have g: "good E u r (r\<lparr>catalogRequests := map_delete rid (catalogRequests r)\<rparr>)"
    using good_catalogRequests_delete [OF assms(1) _ assms(2)] by simp
  show ?thesis
    using True good_trans [OF g good_emit [OF good_inv [OF g]]]
    by (simp add: handleCatalogResponse_def effect_for_def split: option.split)
next
  case False
  then show ?thesis using assms by (auto simp: handleCatalogResponse_def good_refl split: option.split)
qed

lemma rememberStale_simps [simp]:
  "ir_userId (rememberStale t x i) = ir_userId i" "ir_registration (rememberStale t x i) = ir_registration i"
  "ir_state (rememberStale t x i) = ir_state i" "ir_connection (rememberStale t x i) = ir_connection i"
  by (simp_all add: rememberStale_def)

lemma applyProjection_simps [simp]:
  "ir_userId (applyProjection t ias i) = ir_userId i" "ir_registration (applyProjection t ias i) = ir_registration i"
  "ir_state (applyProjection t ias i) = ir_state i" "ir_connection (applyProjection t ias i) = ir_connection i"
  by (simp_all add: applyProjection_def Let_def fold_frame [where p = ir_userId]
      fold_frame [where p = ir_registration] fold_frame [where p = ir_state] fold_frame [where p = ir_connection])

text \<open>A record is rewritten with the identity, state and connection it has.\<close>

lemma good_touch_record:
  assumes "registry_inv E r" "map_get (records r) k = Some i" "ir_userId i = u"
    and "ir_userId i' = ir_userId i" "ir_registration i' = ir_registration i"
    and "ir_state i' = ir_state i" "ir_connection i' = ir_connection i"
  shows "good E u r (put_record k i' r)"
  using inv_recordD [OF assms(1,2)] assms
  by (intro good_put_record [OF assms(1,2)]) (auto simp: record_ok_def)

lemma record_of_connection:
  "registry_inv E r \<Longrightarrow> map_get (records r) k = Some i \<Longrightarrow> ir_connection i = Some c \<Longrightarrow> ir_userId i = conn_user r c"
  by (auto dest!: inv_recordD simp: record_ok_def)

lemma good_handleSnapshotResponse:
  assumes inv: "registry_inv E r" and c: "c < nextConnectionUid r" and u: "conn_user r c = u"
  shows "good E u r (handleSnapshotResponse t c rid inst ias r)"
proof (cases "cc_instanceId (connection_of r c) = Some inst \<and> map_get (snapshotRequests r) (pendingKey c rid) \<noteq> None")
  case True
  then obtain p where p: "map_get (snapshotRequests r) (pendingKey c rid) = Some p" by blast
  then have "sr_connection p = c" using inv by (metis registry_inv_def inv_pending_def pendingKey_inj)
  define r1 where "r1 = r\<lparr>snapshotRequests := map_delete (pendingKey c rid) (snapshotRequests r)\<rparr>"
  define k where "k = recordKey (conn_user r c) inst"
  define r2 where "r2 = (case map_get (records r1) k of None \<Rightarrow> r1
     | Some i \<Rightarrow> if ir_connection i = Some c then put_record k (applyProjection t ias i) r1 else r1)"
  have g1: "good E u r r1"
    unfolding r1_def using good_snapshotRequests_delete [OF inv p] \<open>sr_connection p = c\<close> u by simp
  have u1: "conn_user r1 c = u" using good_user [OF g1 c] u by simp
  have "good E u r1 r2"
    unfolding r2_def
    using good_touch_record [OF good_inv [OF g1]] record_of_connection [OF good_inv [OF g1]] u1 good_inv [OF g1]
    by (auto simp: good_refl split: option.split)
  with g1 have g2: "good E u r r2" by (rule good_trans)
  have "handleSnapshotResponse t c rid inst ias r =
        emit (SnapshotSettled (sr_requestId p) (map (enrich (sr_registration p)) ias)) r2"
    unfolding handleSnapshotResponse_def r2_def r1_def k_def Let_def using True p by simp
  then show ?thesis using good_trans [OF g2 good_emit [OF good_inv [OF g2]]] by (simp add: effect_for_def)
next
  case False
  then show ?thesis using inv by (auto simp: handleSnapshotResponse_def good_refl)
qed

lemma good_handleCommandResult:
  assumes inv: "registry_inv E r" and c: "c < nextConnectionUid r" and u: "conn_user r c = u"
  shows "good E u r (handleCommandResult t kind c cmd inst st r)"
proof (cases "cc_instanceId (connection_of r c) = Some inst \<and> map_get (pendingCommands r kind) (commandKey c cmd) \<noteq> None")
  case True
  then obtain p where p: "map_get (pendingCommands r kind) (commandKey c cmd) = Some p" by blast
  then have "pc_connection p = c" using inv by (metis registry_inv_def inv_pending_def commandKey_inj)
  define r1 where "r1 = r\<lparr>pendingCommands := (pendingCommands r)
      (kind := map_delete (commandKey c cmd) (pendingCommands r kind))\<rparr>"
  define k where "k = recordKey (conn_user r c) inst"
  define r2 where "r2 = (if st = Confirmed then (case map_get (records r1) k of None \<Rightarrow> r1
     | Some i \<Rightarrow> if ir_connection i = Some c
                 then put_record k (rememberStale t (pc_requestId p)
                        (i\<lparr>ir_projected := map_delete (pc_requestId p) (ir_projected i)\<rparr>)) r1
                 else r1) else r1)"
  have g1: "good E u r r1"
    unfolding r1_def using good_pendingCommands_delete [OF inv p] \<open>pc_connection p = c\<close> u by simp
  have u1: "conn_user r1 c = u" using good_user [OF g1 c] u by simp
  have "good E u r1 r2"
    unfolding r2_def
    using good_touch_record [OF good_inv [OF g1]] record_of_connection [OF good_inv [OF g1]] u1 good_inv [OF g1]
    by (auto simp: good_refl split: option.split)
  with g1 have g2: "good E u r r2" by (rule good_trans)
  have "handleCommandResult t kind c cmd inst st r = settleOutcome t (pc_commandId p) st r2"
    unfolding handleCommandResult_def r2_def r1_def k_def Let_def using True p by simp
  then show ?thesis using good_trans [OF g2 good_settleOutcome [OF good_inv [OF g2]]] by simp
next
  case False
  then show ?thesis using inv by (auto simp: handleCommandResult_def good_refl)
qed

lemma good_handleSessionPromptResult:
  assumes inv: "registry_inv E r" and u: "conn_user r c = u"
  shows "good E u r (handleSessionPromptResult c cmd inst r)"
proof (cases "map_get (pendingPrompts r) (commandKey c cmd)")
  case (Some p)
  then have "pp_connection p = c" using inv by (metis registry_inv_def inv_pending_def commandKey_inj)
  then show ?thesis
    using Some inv u good_pendingPrompts_delete [OF inv Some]
    by (simp add: handleSessionPromptResult_def good_refl)
qed (simp add: handleSessionPromptResult_def good_refl [OF inv])

lemma good_touch:
  assumes "registry_inv E r" "conn_user r c = u"
  shows "good E u r (touch t c r)"
  using assms good_touch_record [OF assms(1)] record_of_connection [OF assms(1)]
  by (auto simp: touch_def good_refl Let_def split: option.split)

subsection \<open>Tunnels\<close>

lemma tunnel_okD:
  "registry_inv E r \<Longrightarrow> tid \<in> tunnel_ids r \<Longrightarrow> tunnel_ok r (tunnel_of r tid) \<and> drawn E r tid"
  by (simp add: registry_inv_def inv_tunnels_def)

lemma good_closeWebUiTunnel:
  assumes inv: "registry_inv E r" and tid: "tid \<in> tunnel_ids r" and u: "wt_userId (tunnel_of r tid) = u"
  shows "good E u r (closeWebUiTunnel E t tid r)"
proof (cases "tid \<in> set (webUiTunnels r)")
  case True
  let ?r = "r\<lparr>webUiTunnels := removeAll tid (webUiTunnels r)\<rparr>"
  have g: "good E u r ?r"
    unfolding removeAll_filter_not_eq using u by (intro good_webUiTunnels [OF inv]) auto
  have "wt_connection (tunnel_of r tid) < nextConnectionUid ?r" "conn_user ?r (wt_connection (tunnel_of r tid)) = u"
    using tunnel_okD [OF inv tid] u by (simp_all add: tunnel_ok_def conn_user_def)
  from good_trans [OF g good_send [OF good_inv [OF g] this]]
  show ?thesis using g True by (simp add: closeWebUiTunnel_def Let_def)
qed (simp add: closeWebUiTunnel_def good_refl [OF inv])

lemma good_pending_request:
  assumes "registry_inv E r" "tid \<in> tunnel_ids r" "wt_userId (tunnel_of r tid) = u"
  shows "good E u r (r\<lparr>tunnel_of := (tunnel_of r)(tid := (tunnel_of r tid)\<lparr>wt_pendingRequests := ps\<rparr>)\<rparr>)"
  using assms by (intro good_tunnel_write) simp_all

lemma good_handleWebUiResponse:
  assumes inv: "registry_inv E r" and u: "conn_user r c = u"
  shows "good E u r (handleWebUiResponse E t c part tid rid body r)"
proof (cases "tid \<in> set (webUiTunnels r) \<and> wt_connection (tunnel_of r tid) = c \<and> rid \<in> set (wt_pendingRequests (tunnel_of r tid))")
  case True
  let ?w = "tunnel_of r tid" and ?cl = "wt_client (tunnel_of r tid)"
  define r1 where "r1 = (if part = ResponseEnd
    then r\<lparr>tunnel_of := (tunnel_of r)(tid := ?w\<lparr>wt_pendingRequests := removeAll rid (wt_pendingRequests ?w)\<rparr>)\<rparr> else r)"
  have tid: "tid \<in> tunnel_ids r" using True by (simp add: tunnel_ids_def)
  have w: "wt_userId ?w = u" and cl: "?cl < nextClient r" "wc_userId (client_of r ?cl) = u"
    using tunnel_okD [OF inv tid] True u by (auto simp: tunnel_ok_def)
  have g: "good E u r r1" using good_pending_request [OF inv tid w] inv by (simp add: r1_def good_refl)
  have tid1: "tid \<in> tunnel_ids r1" "wt_userId (tunnel_of r1 tid) = u" using tid w by (simp_all add: r1_def tunnel_ids_def)
  note cl1 = good_client [OF g cl(1)]
  have gc: "good E u r1 (closeWebUiTunnel E t tid r1)" by (rule good_closeWebUiTunnel [OF good_inv [OF g] tid1])
  have "good E u r1 (client_terminate ?cl (closeWebUiTunnel E t tid r1))"
    using good_trans [OF gc good_client_terminate] good_inv [OF gc] good_client [OF gc] cl cl1 by simp
  moreover have "good E u r1 (emit (ClientSent ?cl (Relayed part tid rid body)) r1)"
    using good_emit [OF good_inv [OF g]] cl cl1 by (simp add: effect_for_def)
  ultimately show ?thesis
    using True gc good_trans [OF g] by (simp add: handleWebUiResponse_def r1_def [symmetric] Let_def)
next
  case False
  then show ?thesis using inv by (auto simp: handleWebUiResponse_def Let_def good_refl)
qed

lemma good_receiveWebUiRequest:
  assumes inv: "registry_inv E r" and tid: "tid \<in> tunnel_ids r" and u: "wt_userId (tunnel_of r tid) = u"
  shows "good E u r (receiveWebUiRequest E t tid v r)"
proof -
  have c: "wt_connection (tunnel_of r tid) < nextConnectionUid r" "conn_user r (wt_connection (tunnel_of r tid)) = u"
    using tunnel_okD [OF inv tid] u by (simp_all add: tunnel_ok_def)
  have "good E u r (send E t (wt_connection (tunnel_of r tid)) m
          (r\<lparr>tunnel_of := (tunnel_of r)(tid := (tunnel_of r tid)\<lparr>wt_pendingRequests := ps\<rparr>)\<rparr>))" (is "good E u r (send E t ?c m ?r)") for m ps
  proof -
    note g = good_pending_request [OF inv tid u, of ps]
    show ?thesis
      using good_trans [OF g good_send [OF good_inv [OF g]]] good_user [OF g c(1)] c(2) by simp
  qed
  then show ?thesis
    using good_closeWebUiTunnel [OF inv tid u] inv
    by (simp add: receiveWebUiRequest_def Let_def good_refl)
qed

lemma good_addWebUiClient:
  assumes inv: "registry_inv E r" and u: "account_id u"
  shows "good E u r (addWebUiClient t u e r)"
proof -
  let ?r = "addWebUiClient t u e r"
  have old: "cl < nextClient r \<Longrightarrow> client_of ?r cl = client_of r cl" for cl by (simp add: addWebUiClient_def Let_def)
  have new: "wc_tunnel (client_of ?r (nextClient r)) = None" "wc_userId (client_of ?r (nextClient r)) = u"
    "nextClient ?r = Suc (nextClient r)" by (simp_all add: addWebUiClient_def Let_def)
  have ids: "tunnel_ids ?r = tunnel_ids r"
    using old new by (auto simp: tunnel_ids_def less_Suc_eq) (auto simp: addWebUiClient_def Let_def)
  have eq: "tunnel_of ?r = tunnel_of r" "drawn E ?r = drawn E r" "nextConnectionUid ?r = nextConnectionUid r"
    "conn_user ?r = conn_user r"
    by (simp_all add: addWebUiClient_def Let_def drawn_def conn_user_def fun_eq_iff)
  have ok: "tunnel_ok r w \<Longrightarrow> tunnel_ok ?r w" for w
    using old [of "wt_client w"] by (simp add: tunnel_ok_def eq new(3))
  have "inv_tunnels E ?r"
    using inv u ok old new by (auto simp: registry_inv_def inv_tunnels_def ids eq less_Suc_eq)
  moreover have "inv_records E ?r" "inv_pending E ?r"
    using inv by (simp_all add: view_defs addWebUiClient_def Let_def)
  moreover have "confined E u r ?r"
    by (auto simp: confined_def same_view_def same_connection_def conn_user_def addWebUiClient_def Let_def)
  ultimately show ?thesis by (simp add: good_def registry_inv_def)
qed

lemma good_auth_refresh:
  assumes inv: "registry_inv E r" and cl: "cl < nextClient r" "wc_userId (client_of r cl) = u"
  shows "good E u r (auth_refresh E t cl v r)"
proof -
  let ?r = "\<lambda>e. set_client cl (\<lambda>w. w\<lparr>wc_expiresAtMs := e, wc_expiryAt := Some (t + expiry_delay e t)\<rparr>) r"
  have g: "good E u r (?r e)" for e by (rule good_set_client [OF inv cl(2)]) simp
  have "good E u r (client_send cl m (?r e))" for m e
    using good_trans [OF g good_client_send [OF good_inv [OF g]]] good_client [OF g cl(1)] cl(2) by blast
  then show ?thesis
    using good_client_close [OF inv cl] by (auto simp: auth_refresh_def Let_def split: option.split)
qed

lemma record_at_key:
  assumes "registry_inv E r" "account_id u" "map_get (records r) (recordKey u inst) = Some i"
  shows "ir_userId i = u \<and> ir_instance i = inst"
proof -
  note ok = inv_recordD [OF assms(1,3)]
  then have k: "recordKey u inst = recordKey (ir_userId i) (ir_instance i)" and acc: "account_id (ir_userId i)"
    by (simp_all add: record_ok_def)
  then have "u = ir_userId i \<and> inst = ir_instance i" using recordKey_inj [OF assms(2) acc] by simp
  then show ?thesis by simp
qed

lemma record_connection:
  assumes "registry_inv E r" "map_get (records r) k = Some i" "ir_connection i = Some c"
  shows "c < nextConnectionUid r \<and> conn_user r c = ir_userId i"
  using inv_recordD [OF assms(1,2)] assms(3) by (simp add: record_ok_def)

lemma good_new_tunnel:
  assumes inv: "registry_inv E r" and inj: "inj (random_uuid E)" and cl: "cl < nextClient r" "wc_userId (client_of r cl) = u"
    and none: "wc_tunnel (client_of r cl) = None" and c: "c < nextConnectionUid r" "conn_user r c = u"
    and tid: "tid = random_uuid E (uuids_drawn r)"
  shows "good E u r ((set_client cl (\<lambda>w. w\<lparr>wc_tunnel := Some tid\<rparr>) r)
           \<lparr>uuids_drawn := Suc (uuids_drawn r),
            tunnel_of := (tunnel_of r)(tid := \<lparr>wt_userId = u, wt_client = cl, wt_connection = c, wt_pendingRequests = []\<rparr>),
            webUiTunnels := webUiTunnels r @ [tid]\<rparr>)" (is "good E u r ?r")
proof -
  define r' where "r' = ?r"
  have nd: "\<not> drawn E r tid" using fresh_uuid [OF inj] tid by simp
  have d: "drawn E r' x \<longleftrightarrow> drawn E r x \<or> x = tid" for x
    by (auto simp: r'_def drawn_def tid less_Suc_eq)
  have ids: "x \<in> tunnel_ids r' \<Longrightarrow> x = tid \<or> x \<in> tunnel_ids r" for x
    by (auto simp: r'_def tunnel_ids_def set_client_def split: if_splits)
  have eq: "nextConnectionUid r' = nextConnectionUid r" "nextClient r' = nextClient r" "conn_user r' = conn_user r"
    "\<And>x. x \<noteq> tid \<Longrightarrow> tunnel_of r' x = tunnel_of r x"
    "\<And>x. wc_userId (client_of r' x) = wc_userId (client_of r x)"
    "\<And>x. wc_tunnel (client_of r' x) = (if x = cl then Some tid else wc_tunnel (client_of r x))"
    "tunnel_of r' tid = \<lparr>wt_userId = u, wt_client = cl, wt_connection = c, wt_pendingRequests = []\<rparr>"
    by (simp_all add: r'_def set_client_def conn_user_def fun_eq_iff)
  have ok: "tunnel_ok r' w = tunnel_ok r w" for w by (simp add: tunnel_ok_def eq)
  have "tunnel_ok r' (tunnel_of r' x) \<and> drawn E r' x" if "x \<in> tunnel_ids r'" for x
  proof (cases "x = tid")
    case True
    then show ?thesis using c cl by (simp add: ok d eq) (simp add: tunnel_ok_def)
  next
    case False
    with ids [OF that] have "x \<in> tunnel_ids r" by simp
    with False show ?thesis using tunnel_okD [OF inv] by (simp add: ok d eq)
  qed
  moreover have "wt_client (tunnel_of r' x) = cl'" if "cl' < nextClient r" "wc_tunnel (client_of r' cl') = Some x" for cl' x
  proof (cases "cl' = cl")
    case True
    with that have "x = tid" by (simp add: eq)
    then have "tunnel_of r' x = \<lparr>wt_userId = u, wt_client = cl, wt_connection = c, wt_pendingRequests = []\<rparr>"
      by (simp only: eq(7))
    with True show ?thesis by simp
  next
    case False
    with that have x: "wc_tunnel (client_of r cl') = Some x" by (simp add: eq)
    with that have "x \<in> tunnel_ids r" by (auto simp: tunnel_ids_def)
    then have "x \<noteq> tid" using tunnel_okD [OF inv] nd by blast
    with x that inv show ?thesis by (simp add: eq registry_inv_def inv_tunnels_def)
  qed
  ultimately have "inv_tunnels E r'"
    using inv by (simp add: inv_tunnels_def eq registry_inv_def)
  moreover have "inv_records E r'" "inv_pending E r'"
    using inv by (auto simp: r'_def registry_inv_def inv_records_def inv_pending_def record_ok_def
        conn_user_def drawn_def set_client_def less_Suc_eq)
  moreover have "confined E u r r'"
  proof -
    have "same_view E v r r'" if "v \<noteq> u" for v
      using that nd cl by (auto simp: r'_def same_view_def same_connection_def set_client_def)
    then show ?thesis by (simp add: confined_def eq) (simp add: r'_def set_client_def)
  qed
  ultimately have "good E u r r'" by (simp add: good_def registry_inv_def)
  then show ?thesis by (simp only: r'_def)
qed

lemma tunnel_target_connection:
  assumes "registry_inv E r" "account_id u" "tunnel_target r u inst = Some c"
  shows "c < nextConnectionUid r \<and> conn_user r c = u"
  using assms record_at_key [OF assms(1,2)] record_connection [OF assms(1)]
  by (auto simp: tunnel_target_def split: option.splits if_splits)

lemma client_account:
  "registry_inv E r \<Longrightarrow> cl < nextClient r \<Longrightarrow> account_id (wc_userId (client_of r cl))"
  by (simp add: registry_inv_def inv_tunnels_def)

lemma good_open_tunnel:
  assumes inv: "registry_inv E r" and inj: "inj (random_uuid E)"
    and cl: "cl < nextClient r" "wc_userId (client_of r cl) = u" and none: "wc_tunnel (client_of r cl) = None"
  shows "good E u r (open_tunnel E cl v r)"
proof -
  let ?tid = "random_uuid E (uuids_drawn r)" and ?inst = "string_of (field v ''instanceId'')"
  have acc: "account_id u" using client_account [OF inv cl(1)] cl(2) by simp
  have new: "good E u r (client_send cl (TunnelReady ?tid (wc_expiresAtMs (client_of r cl)))
      ((set_client cl (\<lambda>w. w\<lparr>wc_tunnel := Some ?tid\<rparr>) r)
           \<lparr>uuids_drawn := Suc (uuids_drawn r),
            tunnel_of := (tunnel_of r)(?tid := \<lparr>wt_userId = u, wt_client = cl, wt_connection = c, wt_pendingRequests = []\<rparr>),
            webUiTunnels := webUiTunnels r @ [?tid]\<rparr>))" if "tunnel_target r u ?inst = Some c" for c
  proof -
    note g = good_new_tunnel [OF inv inj cl none _ _ refl]
    from tunnel_target_connection [OF inv acc that]
    have "good E u r ((set_client cl (\<lambda>w. w\<lparr>wc_tunnel := Some ?tid\<rparr>) r)
           \<lparr>uuids_drawn := Suc (uuids_drawn r),
            tunnel_of := (tunnel_of r)(?tid := \<lparr>wt_userId = u, wt_client = cl, wt_connection = c, wt_pendingRequests = []\<rparr>),
            webUiTunnels := webUiTunnels r @ [?tid]\<rparr>)" (is "good E u r ?r")
      using g [of c] by blast
    from good_trans [OF this good_client_send [OF good_inv [OF this]]] good_client [OF this cl(1)] cl(2)
    show ?thesis by blast
  qed
  note s = good_client_send [OF inv cl, of TunnelError]
  have "good E u r (client_close cl 1008 (client_send cl TunnelError r))"
    using good_trans [OF s good_client_close [OF good_inv [OF s]]] good_client [OF s cl(1)] cl(2) by blast
  then show ?thesis
    using new cl(2) good_client_close [OF inv cl] good_uncaught [OF inv]
    by (auto simp: open_tunnel_def Let_def split: option.split)
qed

lemma client_tunnel:
  assumes "registry_inv E r" "cl < nextClient r" "wc_tunnel (client_of r cl) = Some tid"
  shows "tid \<in> tunnel_ids r \<and> wt_userId (tunnel_of r tid) = wc_userId (client_of r cl)"
proof -
  have tid: "tid \<in> tunnel_ids r" using assms(2,3) by (auto simp: tunnel_ids_def)
  moreover have "wt_client (tunnel_of r tid) = cl"
    using assms by (simp add: registry_inv_def inv_tunnels_def)
  ultimately show ?thesis using tunnel_okD [OF assms(1) tid] by (simp add: tunnel_ok_def)
qed

lemma good_client_message:
  assumes inv: "registry_inv E r" and inj: "inj (random_uuid E)"
    and cl: "cl < nextClient r" "wc_userId (client_of r cl) = u"
  shows "good E u r (client_message E t cl frame r)"
proof (cases frame)
  case (Some v)
  define r1 where "r1 = set_client cl (\<lambda>w. w\<lparr>wc_alive := True\<rparr>) r"
  have g: "good E u r r1" unfolding r1_def by (rule good_set_client [OF inv cl(2)]) simp
  have inv1: "registry_inv E r1" and cl1: "cl < nextClient r1" "wc_userId (client_of r1 cl) = u"
    using good_inv [OF g] good_client [OF g cl(1)] cl(2) by auto
  have "good E u r1 (case wc_tunnel (client_of r1 cl) of None \<Rightarrow> open_tunnel E cl v r1
      | Some tid \<Rightarrow> receiveWebUiRequest E t tid v r1)"
    using good_open_tunnel [OF inv1 inj cl1] good_receiveWebUiRequest [OF inv1] client_tunnel [OF inv1 cl1(1)] cl1(2)
    by (auto split: option.split)
  then show ?thesis
    using good_trans [OF g] good_auth_refresh [OF inv1 cl1]
    by (simp add: client_message_def Some r1_def [symmetric] Let_def)
qed (simp add: client_message_def good_refl [OF inv])

lemma good_client_gone:
  assumes inv: "registry_inv E r" and cl: "cl < nextClient r" "wc_userId (client_of r cl) = u"
  shows "good E u r (client_gone E t cl r)"
proof -
  define r1 where "r1 = set_client cl (\<lambda>w. w\<lparr>wc_timers := False\<rparr>) r"
  have g: "good E u r r1" unfolding r1_def by (rule good_set_client [OF inv cl(2)]) simp
  have inv1: "registry_inv E r1" and cl1: "cl < nextClient r1" "wc_userId (client_of r1 cl) = u"
    using good_inv [OF g] good_client [OF g cl(1)] cl(2) by auto
  show ?thesis
    using good_trans [OF g] g good_closeWebUiTunnel [OF inv1] client_tunnel [OF inv1 cl1(1)] cl1(2)
    by (auto simp: client_gone_def r1_def [symmetric] Let_def split: option.split)
qed

lemma good_client_heartbeat:
  assumes inv: "registry_inv E r" and cl: "cl < nextClient r" "wc_userId (client_of r cl) = u"
  shows "good E u r (client_heartbeat cl r)"
proof -
  have g: "good E u r (set_client cl (\<lambda>w. w\<lparr>wc_alive := False\<rparr>) r)" (is "good E u r ?r")
    by (rule good_set_client [OF inv cl(2)]) simp
  have "effect_for u ?r (ClientPinged cl)" using good_client [OF g cl(1)] cl(2) by (simp add: effect_for_def)
  from good_trans [OF g good_emit [OF good_inv [OF g] this]]
  show ?thesis using inv good_client_terminate [OF inv cl] by (simp add: client_heartbeat_def good_refl)
qed

lemma good_client_expired:
  assumes inv: "registry_inv E r" and cl: "cl < nextClient r" "wc_userId (client_of r cl) = u"
  shows "good E u r (client_expired t cl r)"
proof -
  have g: "good E u r (set_client cl (\<lambda>w. w\<lparr>wc_expiryAt := None\<rparr>) r)" (is "good E u r ?r")
    by (rule good_set_client [OF inv cl(2)]) simp
  have "good E u ?r (client_close cl 4401 ?r)"
    using good_client_close [OF good_inv [OF g]] good_client [OF g cl(1)] cl(2) by simp
  from good_trans [OF g this] show ?thesis
    using inv by (simp add: client_expired_def good_refl split: option.split)
qed

subsection \<open>Registration\<close>

lemma frame_settle_more [simp]: "connection_of (publishSnapshot u r) = connection_of r"
  "connection_of (terminate c r) = connection_of r" "connection_of (put_record k i r) = connection_of r"
  "connection_of (emit e r) = connection_of r" "connection_of (close_socket c code r) = connection_of r"
  by (simp_all add: publishSnapshot_def emit_def terminate_def put_record_def close_socket_def)

lemma connection_of_frame:
  "connection_of (disconnect E t c r) = connection_of r"
  "connection_of (promote E t okey u r) = connection_of r"
  "connection_of (send E t c m r) = connection_of r"
proof (induction E t c r and E t okey u r and E t c m r rule: disconnect_promote_send.induct)
  case (1 E t c r)
  then show ?case
    by (subst disconnect.simps) (simp add: Let_def split: option.split)
next
  case (2 E t okey u r)
  then show ?case
    by (subst promote.simps) (auto simp: Let_def split: list.split option.split)
next
  case (3 E t c m r)
  then show ?case
    by (subst send.simps) (simp split: send_fate.split)
qed

lemma account_of_connection:
  "registry_inv E r \<Longrightarrow> c < nextConnectionUid r \<Longrightarrow> account_id (conn_user r c)"
  by (simp add: registry_inv_def inv_records_def)

text \<open>The new record, once the connection has its instance id and the owner of the key is known.\<close>

lemma good_register_record:
  assumes inv: "registry_inv E r" and c: "c < nextConnectionUid r" and u: "conn_user r c = u"
    and free: "cc_instanceId (connection_of r c) = None"
  shows "good E u r (register_record E t c g existing r)"
proof -
  let ?inst = "rg_instanceId g" and ?okey = "ownershipKey E u g"
  have acc: "account_id u" using account_of_connection [OF inv c] u by simp
  have unheld: "ir_connection i \<noteq> Some c" if "map_get (records r) k = Some i" for k i
    using inv_recordD [OF inv that] free by (auto simp: record_ok_def)
  define r1 where "r1 = set_connection c ((connection_of r c)\<lparr>cc_instanceId := Some ?inst\<rparr>) r"
  have g1: "good E u r r1" unfolding r1_def by (rule good_bind [OF inv u _ unheld]) simp
  define r2 where "r2 = pruneOfflineOwnership E u ?okey ?inst r1"
  have g2: "good E u r1 r2"
    unfolding r2_def pruneOfflineOwnership_def by (rule good_filter_records [OF good_inv [OF g1]]) auto
  define owner where "owner = map_get (ownership r2) ?okey"
  define st where "st = (if rg_protocolVersion g \<noteq> SUPPORTED_PROTOCOL_VERSION then Incompatible
      else if owner = None \<or> owner = Some ?inst then Controllable else Conflicting)"
  define r3 where "r3 = (if st = Controllable then r2\<lparr>ownership := map_set ?okey ?inst (ownership r2)\<rparr> else r2)"
  have owner_st: "st = Controllable \<Longrightarrow> owner = None \<or> owner = Some ?inst"
    by (auto simp: st_def split: if_splits)
  have g3: "good E u r2 r3"
  proof (cases "st = Controllable")
    case True
    have "good E u r2 (r2\<lparr>ownership := map_set ?okey ?inst (ownership r2)\<rparr>)"
    proof (rule good_ownership [OF good_inv [OF g2] acc refl])
      fix k i assume "map_get (records r2) k = Some i" "ir_state i = Controllable" "ir_ownership E i = ?okey"
      with inv_recordD [OF good_inv [OF g2], of k i] have "owner = Some (ir_instance i)"
        by (simp add: record_ok_def owner_def)
      with owner_st [OF True] show "map_get (map_set ?okey ?inst (ownership r2)) ?okey = Some (ir_instance i)" by simp
    qed simp
    then show ?thesis by (simp add: r3_def True)
  qed (simp add: r3_def good_refl [OF good_inv [OF g2]])
  define r4 where "r4 = (if existing = None then r3\<lparr>nextSequence := Suc (nextSequence r3)\<rparr> else r3)"
  have g4: "good E u r3 r4" using good_sequence [OF good_inv [OF g3]] good_refl [OF good_inv [OF g3]] by (simp add: r4_def)
  have g14: "good E u r r4" using good_trans [OF good_trans [OF good_trans [OF g1 g2] g3] g4] .
  define seq where "seq = (case existing of Some e \<Rightarrow> ir_sequence e | None \<Rightarrow> nextSequence r3)"
  define i where "i = \<lparr>ir_registration = g, ir_userId = u, ir_sequence = seq, ir_state = st, ir_lastSeenAt = t,
      ir_connection = Some c, ir_projected = [], ir_stale = []\<rparr>"
  define r5 where "r5 = r4\<lparr>records := map_set (recordKey u ?inst) i (records r4)\<rparr>"
  have cc: "connection_of r4 c = (connection_of r c)\<lparr>cc_instanceId := Some ?inst\<rparr>"
    by (simp add: r4_def r3_def r2_def r1_def pruneOfflineOwnership_def set_connection_def)
  have own: "st = Controllable \<Longrightarrow> map_get (ownership r4) ?okey = Some ?inst"
    by (simp add: r4_def r3_def)
  have ok: "record_ok E r4 (recordKey u ?inst) i"
    using acc own cc u good_user [OF g14 c] by (auto simp: record_ok_def i_def conn_user_def st_def)
  have g5: "good E u r4 r5"
    unfolding r5_def
    by (rule good_set_record [OF good_inv [OF g14] _ _ ok])
       (use record_at_key [OF good_inv [OF g14] acc] in \<open>auto simp: i_def\<close>)
  note g15 = good_trans [OF g14 g5]
  have "good E u r5 (send E t c (RegistrationResult ?inst st) r5)"
    using good_send [OF good_inv [OF g15]] good_user [OF g15 c] u by simp
  note g16 = good_trans [OF g15 this]
  have "register_record E t c g existing r = publishSnapshot u (send E t c (RegistrationResult ?inst st) r5)"
    unfolding register_record_def Let_def u
      r1_def [symmetric] r2_def [symmetric] owner_def [symmetric] st_def [symmetric]
      r3_def [symmetric] r4_def [symmetric] seq_def [symmetric] i_def [symmetric] r5_def [symmetric] ..
  with good_trans [OF g16 good_publish [OF good_inv [OF g16]]] show ?thesis by simp
qed

lemma good_register:
  assumes inv: "registry_inv E r" and c: "c < nextConnectionUid r" and u: "conn_user r c = u"
    and free: "cc_instanceId (connection_of r c) = None"
  shows "good E u r (register E t c g r)"
proof -
  let ?k = "recordKey u (rg_instanceId g)"
  have acc: "account_id u" using account_of_connection [OF inv c] u by simp
  note direct = good_register_record [OF inv c u free]
  have replaced: "good E u r (case map_get (records (disconnect E t c' r)) ?k of
        None \<Rightarrow> (disconnect E t c' r)\<lparr>uncaught := True\<rparr>
      | Some e1 \<Rightarrow> (case ir_connection e1 of None \<Rightarrow> (disconnect E t c' r)\<lparr>uncaught := True\<rparr>
          | Some c1 \<Rightarrow> register_record E t c g (Some e1)
              (close_socket c1 CONTROL_CLOSE_INVALID_FRAME (disconnect E t c' r))))"
    if e: "map_get (records r) ?k = Some e" "ir_connection e = Some c'" for e c'
  proof -
    have c': "c' < nextConnectionUid r" "conn_user r c' = u"
      using record_connection [OF inv e] record_at_key [OF inv acc e(1)] by auto
    define r1 where "r1 = disconnect E t c' r"
    have g1: "good E u r r1" unfolding r1_def by (rule good_disconnect [OF inv c'])
    have "good E u r1 (register_record E t c g (Some e1) (close_socket c1 CONTROL_CLOSE_INVALID_FRAME r1))"
      if e1: "map_get (records r1) ?k = Some e1" "ir_connection e1 = Some c1" for e1 c1
    proof -
      have c1: "c1 < nextConnectionUid r1" "conn_user r1 c1 = u"
        using record_connection [OF good_inv [OF g1] e1] record_at_key [OF good_inv [OF g1] acc e1(1)] by auto
      note g2 = good_close_socket [OF good_inv [OF g1] c1, of CONTROL_CLOSE_INVALID_FRAME]
      note g12 = good_trans [OF g1 g2]
      have "cc_instanceId (connection_of (close_socket c1 CONTROL_CLOSE_INVALID_FRAME r1) c) = None"
        using free by (simp add: r1_def connection_of_frame)
      then show ?thesis
        using good_trans [OF g2 good_register_record [OF good_inv [OF g12]]] good_user [OF g12 c] u by blast
    qed
    then show ?thesis
      using good_trans [OF g1] good_trans [OF g1 good_uncaught [OF good_inv [OF g1]]]
      unfolding r1_def [symmetric] by (simp split: option.split)
  qed
  show ?thesis
    using direct replaced by (simp add: register_def u Let_def split: option.split)
qed

lemma good_receive:
  assumes inv: "registry_inv E r" and c: "c < nextConnectionUid r" and u: "conn_user r c = u"
  shows "good E u r (receive E t c raw r)"
proof -
  define r1 where "r1 = set_connection c ((connection_of r c)\<lparr>cc_alive := True\<rparr>) r"
  have g: "good E u r r1" unfolding r1_def by (rule good_set_connection [OF inv u]) simp_all
  have inv1: "registry_inv E r1" and c1: "c < nextConnectionUid r1" "conn_user r1 c = u"
    using good_inv [OF g] good_user [OF g c] u by auto
  note d = good_disconnect [OF inv1 c1]
  have bad: "good E u r1 (close_socket c CONTROL_CLOSE_INVALID_FRAME (disconnect E t c r1))"
    using good_trans [OF d good_close_socket [OF good_inv [OF d]]] good_user [OF d c1(1)] c1(2) by blast
  have "good E u r1 (receive_message E t c msg r1)" for msg
    unfolding receive_message_def
    using bad good_register [OF inv1 c1]
    by (auto split: plugin_message.split command_kind.split
        simp: handleQuestionAnswerResult_def handlePermissionDecideResult_def
        intro: good_handleCatalogResponse [OF inv1 c1(2)] good_handleSnapshotResponse [OF inv1 c1]
          good_handleCommandResult [OF inv1 c1] good_handleSessionPromptResult [OF inv1 c1(2)]
          good_handleWebUiResponse [OF inv1 c1(2)])
  then show ?thesis
    using good_trans [OF g] bad by (simp add: receive_def r1_def [symmetric] Let_def split: option.split)
qed

lemma good_add_connection:
  assumes inv: "registry_inv E r" and acc: "account_id (vk_userId auth)"
  shows "good E (vk_userId auth) r (add_connection auth r)"
proof -
  let ?r = "add_connection auth r"
  have old: "c < nextConnectionUid r \<Longrightarrow> connection_of ?r c = connection_of r c" for c
    by (simp add: add_connection_def Let_def)
  then have oldu: "c < nextConnectionUid r \<Longrightarrow> conn_user ?r c = conn_user r c" for c by (simp add: conn_user_def)
  have newu: "conn_user ?r (nextConnectionUid r) = vk_userId auth" by (simp add: add_connection_def Let_def conn_user_def)
  have eq: "records ?r = records r" "ownership ?r = ownership r" "nextConnectionUid ?r = Suc (nextConnectionUid r)"
    "connections ?r = connections r @ [nextConnectionUid r]" "tunnel_of ?r = tunnel_of r" "client_of ?r = client_of r"
    "nextClient ?r = nextClient r" "tunnel_ids ?r = tunnel_ids r" "drawn E ?r = drawn E r"
    by (simp_all add: add_connection_def Let_def tunnel_ids_def drawn_def fun_eq_iff)
  have "record_ok E r k i \<Longrightarrow> record_ok E ?r k i" for k i
    using old oldu by (auto simp: record_ok_def eq)
  then have "inv_records E ?r"
    using inv acc oldu newu by (auto simp: registry_inv_def inv_records_def eq less_Suc_eq)
  moreover have "tunnel_ok r w \<Longrightarrow> tunnel_ok ?r w" for w
    using oldu by (simp add: tunnel_ok_def eq)
  then have "inv_tunnels E ?r" using inv by (simp add: registry_inv_def inv_tunnels_def eq)
  moreover have "inv_pending E ?r"
    using inv by (simp add: registry_inv_def inv_pending_def add_connection_def Let_def drawn_def)
  moreover have "confined E (vk_userId auth) r ?r"
    using oldu by (auto simp: confined_def same_view_def same_connection_def add_connection_def Let_def conn_user_def)
  ultimately show ?thesis by (simp add: good_def registry_inv_def)
qed

subsection \<open>Connections, timers and requests\<close>

lemma good_heartbeat:
  assumes inv: "registry_inv E r" and c: "c < nextConnectionUid r" "conn_user r c = u"
  shows "good E u r (heartbeat E t c r)"
proof -
  note d = good_disconnect [OF inv c]
  have "good E u r (terminate c (disconnect E t c r))" by (rule good_send_terminate [OF d c])
  moreover have g: "good E u r (set_connection c ((connection_of r c)\<lparr>cc_alive := False\<rparr>) r)" (is "good E u r ?r")
    by (rule good_set_connection [OF inv c(2)]) simp_all
  have "effect_for u ?r (Pinged c)" using good_user [OF g c(1)] c(2) by (simp add: effect_for_def)
  note good_trans [OF g good_emit [OF good_inv [OF g] this]]
  ultimately show ?thesis using d inv by (simp add: heartbeat_def good_refl)
qed

lemma good_markAlive:
  assumes inv: "registry_inv E r" and c: "c < nextConnectionUid r" "conn_user r c = u"
  shows "good E u r (markAlive t c r)"
proof -
  have g: "good E u r (set_connection c ((connection_of r c)\<lparr>cc_alive := True\<rparr>) r)"
    by (rule good_set_connection [OF inv c(2)]) simp_all
  show ?thesis
    unfolding markAlive_def using good_trans [OF g good_touch [OF good_inv [OF g]]] good_user [OF g c(1)] c(2) by simp
qed

lemma good_gone:
  assumes inv: "registry_inv E r" and c: "c < nextConnectionUid r" "conn_user r c = u"
  shows "good E u r (disconnect E t c (r\<lparr>socket_of := (socket_of r)(c := s)\<rparr>))"
proof -
  note g = good_socket [OF inv c(2), of s]
  show ?thesis using good_trans [OF g good_disconnect [OF good_inv [OF g]]] good_user [OF g c(1)] c(2) by blast
qed

lemma good_recordOutcome: "registry_inv E r \<Longrightarrow> good E u r (recordOutcome t u' cmd rid inst kind r)"
  by (simp add: recordOutcome_def pruneExpiredOutcomes_def evictOldestOutcomes_def Let_def good_outcomes)

lemma controllable_connectionD:
  assumes "registry_inv E r" "controllable_connection r u inst = Some (k, i, c)"
  shows "k = recordKey u inst \<and> map_get (records r) k = Some i \<and> ir_userId i = u \<and> ir_state i = Controllable \<and>
         ir_connection i = Some c \<and> ready_open (socket_of r c) \<and> c < nextConnectionUid r \<and> conn_user r c = u"
  using assms record_connection [OF assms(1)]
  by (auto simp: controllable_connection_def Let_def split: option.splits if_splits)

lemma routeCommand_cases:
  "routeCommand E t kind u inst rid cmd sid x r = (r, Inl NotFound) \<or>
   routeCommand E t kind u inst rid cmd sid x r = (r, Inl Conflict) \<or>
   (\<exists>k i c. controllable_connection r u inst = Some (k, i, c) \<and> map_get (ir_projected i) rid = Some (kind, sid) \<and>
      (\<forall>p \<in> set (map_vals (pendingCommands r kind)). pc_connection p = c \<longrightarrow> pc_requestId p \<noteq> rid \<and> pc_commandId p \<noteq> cmd) \<and>
      routeCommand E t kind u inst rid cmd sid x r =
        (let r1 = recordOutcome t u cmd rid (ir_instance i) kind r in
         send E t c (Command kind cmd rid sid x)
           (r1\<lparr>pendingCommands := (pendingCommands r1)(kind := map_set (commandKey c cmd)
              \<lparr>pc_connection = c, pc_requestId = rid, pc_commandId = cmd\<rparr> (pendingCommands r1 kind))\<rparr>), Inr cmd))"
  unfolding routeCommand_def Let_def
  by (auto split: option.splits prod.splits if_splits simp: list_ex_iff)

lemma good_routeCommand:
  assumes inv: "registry_inv E r"
  shows "good E u r (fst (routeCommand E t kind u inst rid cmd sid x r))"
proof -
  { fix k i c assume "controllable_connection r u inst = Some (k, i, c)"
    then have c: "c < nextConnectionUid r" "conn_user r c = u" using controllable_connectionD [OF inv] by auto
    let ?p = "\<lparr>pc_connection = c, pc_requestId = rid, pc_commandId = cmd\<rparr>"
    define r1 where "r1 = recordOutcome t u cmd rid (ir_instance i) kind r"
    have g1: "good E u r r1" unfolding r1_def by (rule good_recordOutcome [OF inv])
    have "good E u r1 (r1\<lparr>pendingCommands := (pendingCommands r1)(kind := map_set (commandKey c cmd) ?p (pendingCommands r1 kind))\<rparr>)"
      (is "good E u r1 ?r2")
      using good_pendingCommands_set [OF good_inv [OF g1], of ?p u kind] good_user [OF g1 c(1)] c(2) by simp
    note g2 = good_trans [OF g1 this]
    have "good E u r (send E t c (Command kind cmd rid sid x) ?r2)"
      using good_trans [OF g2 good_send [OF good_inv [OF g2]]] good_user [OF g2 c(1)] c(2) by blast
    then have "good E u r (let r1 = recordOutcome t u cmd rid (ir_instance i) kind r in
         send E t c (Command kind cmd rid sid x)
           (r1\<lparr>pendingCommands := (pendingCommands r1)(kind := map_set (commandKey c cmd) ?p (pendingCommands r1 kind))\<rparr>))"
      by (simp add: r1_def Let_def) }
  then show ?thesis
    using routeCommand_cases [of E t kind u inst rid cmd sid x r] good_refl [OF inv] by (auto simp: Let_def)
qed

lemma good_sendSessionPrompt:
  assumes inv: "registry_inv E r"
  shows "good E u r (fst (sendSessionPrompt E t u inst sid cmd x r))"
proof -
  { fix k i c assume "controllable_connection r u inst = Some (k, i, c)"
    then have c: "c < nextConnectionUid r" "conn_user r c = u" using controllable_connectionD [OF inv] by auto
    let ?p = "\<lparr>pp_connection = c, pp_sessionID = sid, pp_commandId = cmd\<rparr>"
    have g: "good E u r (r\<lparr>pendingPrompts := map_set (commandKey c cmd) ?p (pendingPrompts r)\<rparr>)" (is "good E u r ?r")
      using good_pendingPrompts_set [OF inv, of ?p u] c(2) by simp
    have "good E u r (send E t c (PromptCommand cmd sid x) ?r)"
      using good_trans [OF g good_send [OF good_inv [OF g]]] good_user [OF g c(1)] c(2) by blast }
  then show ?thesis
    using good_refl [OF inv] by (auto simp: sendSessionPrompt_def Let_def split: option.split)
qed

lemma good_collectSessions:
  assumes inv: "registry_inv E r" and inj: "inj (random_uuid E)" and acc: "account_id u"
  shows "good E u r (fst (collectSessions E t u inst q r))"
proof -
  { fix i c assume i: "map_get (records r) (recordKey u inst) = Some i" "ir_connection i = Some c"
    have c: "c < nextConnectionUid r" "conn_user r c = u"
      using record_connection [OF inv i] record_at_key [OF inv acc i(1)] by auto
    note g = good_catalogRequests_set [OF inv c(2) inj]
    have "good E u r (send E t c (CatalogRequest (random_uuid E (uuids_drawn r)) q)
        (r\<lparr>uuids_drawn := Suc (uuids_drawn r),
           catalogRequests := map_set (random_uuid E (uuids_drawn r)) c (catalogRequests r)\<rparr>))"
      using good_trans [OF g good_send [OF good_inv [OF g]]] good_user [OF g c(1)] c(2) by blast }
  then show ?thesis
    using good_refl [OF inv] by (auto simp: collectSessions_def Let_def split: option.split)
qed

lemma good_queryPendingSnapshot:
  assumes inv: "registry_inv E r" and c: "c < nextConnectionUid r" "conn_user r c = u"
  shows "good E u r (queryPendingSnapshot E t (i, c) r)"
proof -
  let ?rid = "random_uuid E (uuids_drawn r)"
  let ?p = "\<lparr>sr_connection = c, sr_requestId = ?rid, sr_registration = ir_registration i\<rparr>"
  note g0 = good_draw [OF inv, of u]
  let ?r0 = "r\<lparr>uuids_drawn := Suc (uuids_drawn r)\<rparr>"
  have "good E u ?r0 (?r0\<lparr>snapshotRequests := map_set (pendingKey c ?rid) ?p (snapshotRequests ?r0)\<rparr>)" (is "good E u _ ?r1")
    using good_snapshotRequests_set [OF good_inv [OF g0], of ?p u] c(2) by (simp add: conn_user_def)
  note g1 = good_trans [OF g0 this]
  have "good E u r (send E t c (SnapshotRequest ?rid) ?r1)"
    using good_trans [OF g1 good_send [OF good_inv [OF g1]]] good_user [OF g1 c(1)] c(2) by blast
  then show ?thesis by (simp add: queryPendingSnapshot_def Let_def)
qed

lemma snapshot_targetsD:
  assumes inv: "registry_inv E r" and "(i, c) \<in> set (snapshot_targets u r)"
  shows "c < nextConnectionUid r \<and> conn_user r c = u"
proof -
  from assms(2) have "i \<in> set (map_vals (records r))" and i: "ir_connection i = Some c" "ir_userId i = u"
    by (auto simp: snapshot_targets_def split: option.splits if_splits)
  then obtain k where "(k, i) \<in> set (records r)" by (auto simp: map_vals_def)
  then have "map_get (records r) k = Some i"
    using inv by (simp add: registry_inv_def inv_records_def map_get_iff)
  from record_connection [OF inv this i(1)] i(2) show ?thesis by simp
qed

lemma good_collectPendingInteractions:
  assumes inv: "registry_inv E r"
  shows "good E u r (fst (collectPendingInteractions E t u r))"
proof -
  have "good E u r (fold (queryPendingSnapshot E t) (snapshot_targets u r) r)"
  proof (rule good_fold [OF inv])
    fix ic r' assume ic: "ic \<in> set (snapshot_targets u r)" and g: "good E u r r'"
    obtain i c where "ic = (i, c)" by force
    with ic have "c < nextConnectionUid r" "conn_user r c = u" using snapshot_targetsD [OF inv] by auto
    with good_user [OF g] \<open>ic = (i, c)\<close> show "good E u r' (queryPendingSnapshot E t ic r')"
      using good_queryPendingSnapshot [OF good_inv [OF g]] by simp
  qed
  then show ?thesis by (simp add: collectPendingInteractions_def Let_def)
qed

lemma good_catalog_timeout:
  assumes inv: "registry_inv E r" and "map_get (catalogRequests r) rid = Some c" "conn_user r c = u"
  shows "good E u r (catalog_timeout rid r)"
proof -
  note g = good_catalogRequests_delete [OF assms]
  show ?thesis
    using assms(2) good_trans [OF g good_emit [OF good_inv [OF g]]]
    by (simp add: catalog_timeout_def map_has_iff effect_for_def)
qed

lemma good_snapshot_timeout:
  assumes inv: "registry_inv E r" and "map_get (snapshotRequests r) key = Some p" "conn_user r (sr_connection p) = u"
  shows "good E u r (snapshot_timeout key r)"
proof -
  note g = good_snapshotRequests_delete [OF assms]
  show ?thesis
    using assms(2) good_trans [OF g good_emit [OF good_inv [OF g]]]
    by (simp add: snapshot_timeout_def effect_for_def)
qed

lemma good_command_timeout:
  assumes inv: "registry_inv E r" and "map_get (pendingCommands r kind) key = Some p" "conn_user r (pc_connection p) = u"
  shows "good E u r (command_timeout t kind key r)"
proof -
  note g = good_pendingCommands_delete [OF assms]
  show ?thesis
    using assms(2) good_trans [OF g good_settleOutcome [OF good_inv [OF g]]]
    by (simp add: command_timeout_def)
qed

lemma good_forgetOffline:
  assumes inv: "registry_inv E r" and acc: "account_id u"
  shows "good E u r (fst (forgetOffline u inst r))"
proof -
  { fix i assume i: "map_get (records r) (recordKey u inst) = Some i"
    note g = good_delete_record [OF inv i, of u]
    have "good E u r (publishSnapshot u (r\<lparr>records := map_delete (recordKey u inst) (records r)\<rparr>))"
      using good_trans [OF g good_publish [OF good_inv [OF g]]] record_at_key [OF inv acc i] by simp }
  then show ?thesis using good_refl [OF inv] by (auto simp: forgetOffline_def Let_def split: option.split)
qed

subsection \<open>Every operation\<close>

text \<open>The operation concerns cells that exist, and its account id is one of the database.\<close>

fun enabled :: "registry_op \<Rightarrow> registry \<Rightarrow> bool" where
  "enabled (Connect auth) r = account_id (vk_userId auth)"
| "enabled (Beat c) r = (c < nextConnectionUid r)"
| "enabled (Pong c) r = (c < nextConnectionUid r)"
| "enabled (Gone c) r = (c < nextConnectionUid r)"
| "enabled (SendFailed c) r = (c < nextConnectionUid r)"
| "enabled (SocketState c s) r = (c < nextConnectionUid r)"
| "enabled (Frame c raw) r = (c < nextConnectionUid r)"
| "enabled (ClientConnect u e) r = account_id u"
| "enabled (ClientFrame cl raw) r = (cl < nextClient r)"
| "enabled (ClientPong cl) r = (cl < nextClient r)"
| "enabled (ClientGone cl) r = (cl < nextClient r)"
| "enabled (ClientBeat cl) r = (cl < nextClient r)"
| "enabled (ClientExpired cl) r = (cl < nextClient r)"
| "enabled (ClientState cl s) r = (cl < nextClient r)"
| "enabled (AskCatalog u inst q) r = account_id u"
| "enabled (AskPending u) r = account_id u"
| "enabled (Route kind u inst rid cmd sid x) r = account_id u"
| "enabled (Prompt u inst sid cmd x) r = account_id u"
| "enabled (Outcome u cmd) r = account_id u"
| "enabled (Forget u inst) r = account_id u"
| "enabled (PublishFor u) r = account_id u"
| "enabled (CatalogTimedOut rid) r = map_has (catalogRequests r) rid"
| "enabled (SnapshotTimedOut key) r = map_has (snapshotRequests r) key"
| "enabled (CommandTimedOut kind key) r = map_has (pendingCommands r kind) key"
| "enabled (PromptTimedOut key) r = map_has (pendingPrompts r) key"
| "enabled (Revoke keyId) r = True"
| "enabled Shutdown r = True"

text \<open>The account for which an operation acts.\<close>

fun op_account :: "registry_op \<Rightarrow> registry \<Rightarrow> jstr option" where
  "op_account (Connect auth) r = Some (vk_userId auth)"
| "op_account (Beat c) r = Some (conn_user r c)"
| "op_account (Pong c) r = Some (conn_user r c)"
| "op_account (Gone c) r = Some (conn_user r c)"
| "op_account (SendFailed c) r = Some (conn_user r c)"
| "op_account (SocketState c s) r = Some (conn_user r c)"
| "op_account (Frame c raw) r = Some (conn_user r c)"
| "op_account (ClientConnect u e) r = Some u"
| "op_account (ClientFrame cl raw) r = Some (wc_userId (client_of r cl))"
| "op_account (ClientPong cl) r = Some (wc_userId (client_of r cl))"
| "op_account (ClientGone cl) r = Some (wc_userId (client_of r cl))"
| "op_account (ClientBeat cl) r = Some (wc_userId (client_of r cl))"
| "op_account (ClientExpired cl) r = Some (wc_userId (client_of r cl))"
| "op_account (ClientState cl s) r = Some (wc_userId (client_of r cl))"
| "op_account (AskCatalog u inst q) r = Some u"
| "op_account (AskPending u) r = Some u"
| "op_account (Route kind u inst rid cmd sid x) r = Some u"
| "op_account (Prompt u inst sid cmd x) r = Some u"
| "op_account (Outcome u cmd) r = Some u"
| "op_account (Forget u inst) r = Some u"
| "op_account (PublishFor u) r = Some u"
| "op_account (CatalogTimedOut rid) r = map_option (conn_user r) (map_get (catalogRequests r) rid)"
| "op_account (SnapshotTimedOut key) r = map_option (\<lambda>p. conn_user r (sr_connection p)) (map_get (snapshotRequests r) key)"
| "op_account (CommandTimedOut kind key) r = map_option (\<lambda>p. conn_user r (pc_connection p)) (map_get (pendingCommands r kind) key)"
| "op_account (PromptTimedOut key) r = map_option (\<lambda>p. conn_user r (pp_connection p)) (map_get (pendingPrompts r) key)"
| "op_account (Revoke keyId) r = None"
| "op_account Shutdown r = None"

lemma step_good:
  assumes inv: "registry_inv E r" and inj: "inj (random_uuid E)" and en: "enabled op r" and u: "op_account op r = Some u"
  shows "good E u r (registry_step E t op r)"
proof (cases op)
  case (Route kind u' inst rid cmd sid x)
  then show ?thesis
    using u good_routeCommand [OF inv] by (cases kind) (simp_all add: answerQuestion_def decidePermission_def)
next
  case (Outcome u' cmd)
  then show ?thesis using good_outcomes [OF inv] by (simp add: outcomeFor_def pruneExpiredOutcomes_def Let_def)
next
  case (PromptTimedOut key)
  then show ?thesis using u good_pendingPrompts_delete [OF inv] by (auto simp: prompt_timeout_def)
qed (use en u in \<open>auto simp: good_add_connection [OF inv] good_heartbeat [OF inv] good_markAlive [OF inv]
    good_gone [OF inv] good_disconnect [OF inv] good_socket [OF inv] good_receive [OF inv]
    good_addWebUiClient [OF inv] good_client_message [OF inv inj] good_set_client [OF inv] good_client_gone [OF inv]
    good_client_heartbeat [OF inv] good_client_expired [OF inv] good_client_socket [OF inv]
    good_collectSessions [OF inv inj] good_catalog_timeout [OF inv] good_collectPendingInteractions [OF inv]
    good_snapshot_timeout [OF inv] good_command_timeout [OF inv] good_sendSessionPrompt [OF inv]
    good_forgetOffline [OF inv] good_publish [OF inv]\<close>)

lemma inv_disconnect_all:
  assumes "registry_inv E r" "\<And>c. c \<in> set cs \<Longrightarrow> c < nextConnectionUid r"
  shows "registry_inv E (fold (\<lambda>c r. if P c r then r else close_socket c code (disconnect E t c r)) cs r)"
  using assms
proof (induction cs arbitrary: r)
  case (Cons c cs)
  let ?r = "close_socket c code (disconnect E t c r)"
  note d = good_disconnect [OF Cons.prems(1) Cons.prems(2) refl, of c t, simplified]
  have g: "good E (conn_user r c) r ?r"
    using good_trans [OF d good_close_socket [OF good_inv [OF d]]] good_user [OF d] Cons.prems by simp
  have "c' < nextConnectionUid ?r" if "c' \<in> set cs" for c'
    using good_user [OF g] Cons.prems(2) that by simp
  then show ?case using Cons.IH [OF good_inv [OF g]] Cons.IH [OF Cons.prems(1)] Cons.prems(2) by simp
qed simp

lemma step_inv:
  assumes inv: "registry_inv E r" and inj: "inj (random_uuid E)" and en: "enabled op r"
  shows "registry_inv E (registry_step E t op r)"
proof (cases "op_account op r")
  case (Some u)
  then show ?thesis using good_inv [OF step_good [OF inv inj en Some]] by simp
next
  case None
  have cs: "c \<in> set (connections r) \<Longrightarrow> c < nextConnectionUid r" for c
    using inv by (simp add: registry_inv_def inv_records_def)
  from None en show ?thesis
    using inv_disconnect_all [OF inv cs, where P = "\<lambda>_ _. False"] inv_disconnect_all [OF inv cs]
    by (cases op) (simp_all add: map_has_iff revokeKey_def closeAll_def)
qed

end
