(* ===== verification/InstanceOutcomes.thy ===== *)
theory InstanceOutcomes
  imports InstanceOps
begin

section \<open>Command outcomes of the instance registry\<close>

text \<open>
  The cache of command outcomes is written by three functions only. \<open>outcome_law\<close> is the contract of
  a property that these three keep, entries being recorded for the accounts of \<open>U\<close> only: every operation of
  the registry that routes no command for another account keeps it then. It is interpreted for the bound of
  the cache, and for what the others leave of an account's entries.
\<close>

locale outcome_law =
  fixes Q :: "registry \<Rightarrow> bool" and U :: "jstr set"
  assumes cong: "commandOutcomes r' = commandOutcomes r \<Longrightarrow> maxCommandOutcomes r' = maxCommandOutcomes r \<Longrightarrow> Q r' = Q r"
    and settle: "Q r \<Longrightarrow> Q (settleOutcome t x st r)"
    and recorded: "u \<in> U \<Longrightarrow> Q r \<Longrightarrow> Q (recordOutcome t u cmd rid inst kind r)"
    and prune: "Q r \<Longrightarrow> Q (pruneExpiredOutcomes t r)"
begin

lemma frames:
  "Q (emit e r) = Q r" "Q (publishSnapshot u r) = Q r" "Q (terminate c r) = Q r" "Q (close_socket c code r) = Q r"
  "Q (client_close cl code r) = Q r" "Q (client_terminate cl r) = Q r" "Q (put_record k i r) = Q r"
  "Q (set_connection c cc r) = Q r" "Q (set_client cl f r) = Q r" "Q (client_send cl m r) = Q r"
  "Q (drop_catalog_requests c r) = Q r" "Q (drop_snapshot_requests c r) = Q r" "Q (drop_prompts c r) = Q r"
  "Q (pruneOfflineOwnership E u okey inst r) = Q r" "Q (add_connection auth r) = Q r"
  "Q (addWebUiClient t u e' r) = Q r" "Q (prompt_timeout key r) = Q r" "Q (catalog_timeout key r) = Q r"
  by (rule cong; simp add: emit_def publishSnapshot_def terminate_def close_socket_def client_close_def
      client_terminate_def put_record_def set_connection_def set_client_def client_send_def
      drop_catalog_requests_def drop_snapshot_requests_def drop_prompts_def pruneOfflineOwnership_def
      add_connection_def addWebUiClient_def prompt_timeout_def catalog_timeout_def Let_def)+

lemma updates:
  "Q (r\<lparr>records := a\<rparr>) = Q r" "Q (r\<lparr>ownership := b\<rparr>) = Q r" "Q (r\<lparr>connections := d\<rparr>) = Q r"
  "Q (r\<lparr>socket_of := f\<rparr>) = Q r" "Q (r\<lparr>snapshotRequests := g\<rparr>) = Q r" "Q (r\<lparr>pendingCommands := h\<rparr>) = Q r"
  "Q (r\<lparr>pendingPrompts := i\<rparr>) = Q r" "Q (r\<lparr>webUiTunnels := j\<rparr>) = Q r" "Q (r\<lparr>tunnel_of := k\<rparr>) = Q r"
  "Q (r\<lparr>client_socket := l\<rparr>) = Q r" "Q (r\<lparr>catalogRequests := m\<rparr>) = Q r" "Q (r\<lparr>nextSequence := n\<rparr>) = Q r"
  "Q (r\<lparr>uuids_drawn := p\<rparr>) = Q r" "Q (r\<lparr>uncaught := q\<rparr>) = Q r"
  by (rule cong; simp)+

lemmas Q_simps = frames updates

lemma fold_law: "Q r \<Longrightarrow> (\<And>x r. Q r \<Longrightarrow> Q (f x r)) \<Longrightarrow> Q (fold f xs r)"
  by (induction xs arbitrary: r) simp_all

lemma release_law: "Q r \<Longrightarrow> Q (release t c r)"
  unfolding release_def drop_tunnels_def drop_commands_def
  by (intro fold_law) (auto simp: Q_simps settle intro!: fold_law)

lemma disconnect_law:
  "Q r \<Longrightarrow> Q (disconnect E t c r)" "Q r \<Longrightarrow> Q (promote E t okey u r)" "Q r \<Longrightarrow> Q (send E t c m r)"
proof (induction E t c r and E t okey u r and E t c m r rule: disconnect_promote_send.induct)
  case (1 E t c r)
  then show ?case
    by (subst disconnect.simps) (auto simp: Let_def Q_simps release_law split: option.split)
next
  case (2 E t okey u r)
  then show ?case
    by (subst promote.simps) (auto simp: Let_def Q_simps split: list.split option.split)
next
  case (3 E t c m r)
  then show ?case
    by (subst send.simps) (simp add: Q_simps split: send_fate.split)
qed

lemma register_law: "Q r \<Longrightarrow> Q (register E t c g r)"
proof -
  have "Q r \<Longrightarrow> Q (register_record E t c g e r)" for e r
    by (simp add: register_record_def Let_def Q_simps disconnect_law)
  then show "Q r \<Longrightarrow> Q (register E t c g r)"
    by (simp add: register_def Let_def Q_simps disconnect_law split: option.split)
qed

lemma tunnel_laws:
  "Q r \<Longrightarrow> Q (closeWebUiTunnel E t tid r)" "Q r \<Longrightarrow> Q (handleWebUiResponse E t c part tid rid body r)"
  "Q r \<Longrightarrow> Q (receiveWebUiRequest E t tid v r)" "Q r \<Longrightarrow> Q (auth_refresh E t cl v r)" "Q r \<Longrightarrow> Q (open_tunnel E cl v r)"
proof -
  show close: "Q r \<Longrightarrow> Q (closeWebUiTunnel E t tid r)" for r tid
    by (simp add: closeWebUiTunnel_def Let_def Q_simps disconnect_law)
  show "Q r \<Longrightarrow> Q (handleWebUiResponse E t c part tid rid body r)"
    by (simp add: handleWebUiResponse_def Let_def Q_simps close)
  show "Q r \<Longrightarrow> Q (receiveWebUiRequest E t tid v r)"
    by (simp add: receiveWebUiRequest_def Let_def Q_simps disconnect_law close)
  show "Q r \<Longrightarrow> Q (auth_refresh E t cl v r)"
    by (simp add: auth_refresh_def Let_def Q_simps split: option.split json.split)
  show "Q r \<Longrightarrow> Q (open_tunnel E cl v r)"
    by (simp add: open_tunnel_def Let_def Q_simps split: option.split)
qed

lemma client_laws:
  "Q r \<Longrightarrow> Q (client_message E t cl frame r)" "Q r \<Longrightarrow> Q (client_gone E t cl r)"
  "Q r \<Longrightarrow> Q (client_heartbeat cl r)" "Q r \<Longrightarrow> Q (client_expired t cl r)"
  by (simp_all add: client_message_def client_gone_def client_heartbeat_def client_expired_def Let_def
      Q_simps tunnel_laws split: option.split)

lemma receive_law: "Q r \<Longrightarrow> Q (receive E t c raw r)"
proof -
  have "Q r \<Longrightarrow> Q (receive_message E t c msg r)" for msg r
    by (auto simp: receive_message_def handleCatalogResponse_def handleSnapshotResponse_def
        handleQuestionAnswerResult_def handlePermissionDecideResult_def handleCommandResult_def
        handleSessionPromptResult_def Let_def Q_simps tunnel_laws disconnect_law register_law
        intro!: settle split: plugin_message.split command_kind.split option.split)
  then show "Q r \<Longrightarrow> Q (receive E t c raw r)"
    by (simp add: receive_def Let_def Q_simps disconnect_law split: option.split)
qed

lemma request_laws:
  "u \<in> U \<Longrightarrow> Q r \<Longrightarrow> Q (fst (routeCommand E t kind u inst rid cmd sid x r))"
  "Q r \<Longrightarrow> Q (fst (sendSessionPrompt E t u inst sid cmd txt r))"
  "Q r \<Longrightarrow> Q (fst (collectSessions E t u inst q r))" "Q r \<Longrightarrow> Q (fst (collectPendingInteractions E t u r))"
  "Q r \<Longrightarrow> Q (fst (forgetOffline u inst r))" "Q r \<Longrightarrow> Q (snapshot_timeout key r)" "Q r \<Longrightarrow> Q (command_timeout t kind key r)"
proof -
  show "u \<in> U \<Longrightarrow> Q r \<Longrightarrow> Q (fst (routeCommand E t kind u inst rid cmd sid x r))"
    using routeCommand_cases [of E t kind u inst rid cmd sid x r]
    by (auto simp: Let_def Q_simps intro!: disconnect_law recorded)
  show "Q r \<Longrightarrow> Q (fst (sendSessionPrompt E t u inst sid cmd txt r))"
    by (auto simp: sendSessionPrompt_def Let_def Q_simps disconnect_law split: option.split)
  show "Q r \<Longrightarrow> Q (fst (collectSessions E t u inst q r))"
    by (auto simp: collectSessions_def Let_def Q_simps disconnect_law split: option.split)
  have "Q r \<Longrightarrow> Q (queryPendingSnapshot E t ic r)" for ic r
    by (simp add: queryPendingSnapshot_def Let_def Q_simps disconnect_law split: prod.split)
  then show "Q r \<Longrightarrow> Q (fst (collectPendingInteractions E t u r))"
    by (simp add: collectPendingInteractions_def Let_def fold_law)
  show "Q r \<Longrightarrow> Q (fst (forgetOffline u inst r))"
    by (auto simp: forgetOffline_def Let_def Q_simps split: option.split)
  show "Q r \<Longrightarrow> Q (snapshot_timeout key r)"
    by (simp add: snapshot_timeout_def Q_simps split: option.split)
  show "Q r \<Longrightarrow> Q (command_timeout t kind key r)"
    by (auto simp: command_timeout_def Q_simps intro!: settle split: option.split)
qed

lemma connection_laws: "Q r \<Longrightarrow> Q (heartbeat E t c r)" "Q r \<Longrightarrow> Q (markAlive t c r)"
  by (simp_all add: heartbeat_def markAlive_def touch_def Let_def Q_simps disconnect_law split: option.split)

lemma step_law:
  assumes "\<And>kind u inst rid cmd sid x. op = Route kind u inst rid cmd sid x \<Longrightarrow> u \<in> U" "Q r"
  shows "Q (registry_step E t op r)"
proof (cases op)
  case (Route kind u inst rid cmd sid x)
  then show ?thesis
    using assms request_laws(1) by (cases kind) (simp_all add: answerQuestion_def decidePermission_def)
next
  case (Outcome u cmd)
  then show ?thesis using assms(2) prune by (simp add: outcomeFor_def Let_def)
qed (use assms(2) in \<open>simp_all add: Q_simps connection_laws disconnect_law receive_law client_laws request_laws
    revokeKey_def closeAll_def fold_law\<close>)

end

subsection \<open>The cache is bounded\<close>

definition outcomes_bounded :: "nat \<Rightarrow> registry \<Rightarrow> bool" where
  "outcomes_bounded n r \<longleftrightarrow>
     maxCommandOutcomes r = n \<and>
     distinct_keys (commandOutcomes r) \<and> length (commandOutcomes r) \<le> n \<and>
     (\<forall>cmd e. map_get (commandOutcomes r) cmd = Some e \<longrightarrow> oe_commandId e = cmd)"

interpretation bounded: outcome_law "outcomes_bounded n" UNIV for n
proof
  fix r r' :: registry and t x st u cmd rid inst kind
  show "commandOutcomes r' = commandOutcomes r \<Longrightarrow> maxCommandOutcomes r' = maxCommandOutcomes r \<Longrightarrow>
      outcomes_bounded n r' = outcomes_bounded n r" by (simp add: outcomes_bounded_def)
  have p: "outcomes_bounded n (pruneExpiredOutcomes t r)" if "outcomes_bounded n r"
    using that le_trans [OF length_filter_le]
    by (auto simp: outcomes_bounded_def pruneExpiredOutcomes_def distinct_keys_filter map_get_filter split: option.splits if_splits)
  then show "outcomes_bounded n r \<Longrightarrow> outcomes_bounded n (pruneExpiredOutcomes t r)" .
  show "outcomes_bounded n (settleOutcome t x st r)" if "outcomes_bounded n r"
  proof (cases "map_get (commandOutcomes r) x")
    case (Some e)
    then have "map_has (commandOutcomes r) x" by (simp add: map_has_iff)
    with Some that le_trans [OF length_map_delete_le] show ?thesis
      by (auto simp: outcomes_bounded_def settleOutcome_def length_map_set)
  qed (use that in \<open>simp add: settleOutcome_def\<close>)
  show "outcomes_bounded n (recordOutcome t u cmd rid inst kind r)" if "outcomes_bounded n r"
  proof -
    define r1 where "r1 = pruneExpiredOutcomes t r"
    note r1 = p [OF that, folded r1_def]
    let ?e = "\<lparr>oe_userId = u, oe_commandId = cmd, oe_requestId = rid, oe_instanceId = inst, oe_kind = kind,
                oe_status = Accepted, oe_updatedAt = t, oe_expiresAtMs = t + outcomeTtlMs r1\<rparr>"
    let ?m = "map_set cmd ?e (commandOutcomes r1)"
    have dk: "distinct_keys ?m" using r1 by (simp add: outcomes_bounded_def)
    have "oe_commandId e = k" if "map_get (evict_oldest (maxCommandOutcomes r1) ?m) k = Some e" for k e
      using map_get_evict_oldest [OF dk that] r1 by (auto simp: outcomes_bounded_def split: if_splits)
    then show ?thesis
      using r1 dk
      by (simp add: recordOutcome_def r1_def [symmetric] evictOldestOutcomes_def Let_def outcomes_bounded_def
          length_evict_oldest)
  qed
qed

subsection \<open>Entries of another account\<close>

text \<open>
  The entries of an account against those before: each was there, under its command id, and differs at most in its
  status and the time of it.
\<close>

definition outcomes_of :: "jstr \<Rightarrow> (jstr, outcome_entry) jsmap \<Rightarrow> (jstr, outcome_entry) jsmap \<Rightarrow> bool" where
  "outcomes_of v m m' \<longleftrightarrow>
     (\<forall>cmd e'. map_get m' cmd = Some e' \<and> oe_userId e' = v \<longrightarrow>
        (\<exists>e. map_get m cmd = Some e \<and> e' = e\<lparr>oe_status := oe_status e', oe_updatedAt := oe_updatedAt e'\<rparr>))"

definition foreign_kept :: "jstr \<Rightarrow> (jstr, outcome_entry) jsmap \<Rightarrow> registry \<Rightarrow> bool" where
  "foreign_kept v m r \<longleftrightarrow> distinct_keys (commandOutcomes r) \<and> outcomes_of v m (commandOutcomes r)"

interpretation foreign: outcome_law "foreign_kept v m" "- {v}" for v m
proof
  fix r r' :: registry and t x st u cmd rid inst kind
  show "commandOutcomes r' = commandOutcomes r \<Longrightarrow> maxCommandOutcomes r' = maxCommandOutcomes r \<Longrightarrow>
      foreign_kept v m r' = foreign_kept v m r" by (simp add: foreign_kept_def)
  have p: "foreign_kept v m (pruneExpiredOutcomes t r)" if "foreign_kept v m r"
    using that
    by (auto simp: foreign_kept_def outcomes_of_def pruneExpiredOutcomes_def distinct_keys_filter map_get_filter
        split: option.splits if_splits)
  then show "foreign_kept v m r \<Longrightarrow> foreign_kept v m (pruneExpiredOutcomes t r)" .
  show "foreign_kept v m (settleOutcome t x st r)" if f: "foreign_kept v m r"
  proof (cases "map_get (commandOutcomes r) x")
    case (Some e)
    have "\<exists>e0. map_get m x = Some e0 \<and> e\<lparr>oe_status := st, oe_updatedAt := t\<rparr> = e0\<lparr>oe_status := st, oe_updatedAt := t\<rparr>"
      if "oe_userId e = v"
    proof -
      from f Some that obtain e0 where "map_get m x = Some e0" "e = e0\<lparr>oe_status := oe_status e, oe_updatedAt := oe_updatedAt e\<rparr>"
        by (auto simp: foreign_kept_def outcomes_of_def)
      moreover from this(2) have "e\<lparr>oe_status := st, oe_updatedAt := t\<rparr> = e0\<lparr>oe_status := st, oe_updatedAt := t\<rparr>"
        by (cases e; cases e0) simp
      ultimately show ?thesis by blast
    qed
    with f Some show ?thesis
      by (auto simp: foreign_kept_def outcomes_of_def settleOutcome_def map_get_set split: if_splits)
  qed (use f in \<open>simp add: settleOutcome_def\<close>)
  show "foreign_kept v m (recordOutcome t u cmd rid inst kind r)" if u: "u \<in> - {v}" and f: "foreign_kept v m r"
  proof -
    define r1 where "r1 = pruneExpiredOutcomes t r"
    note r1 = p [OF f, folded r1_def]
    let ?e = "\<lparr>oe_userId = u, oe_commandId = cmd, oe_requestId = rid, oe_instanceId = inst, oe_kind = kind,
                oe_status = Accepted, oe_updatedAt = t, oe_expiresAtMs = t + outcomeTtlMs r1\<rparr>"
    let ?m = "map_set cmd ?e (commandOutcomes r1)"
    have dk: "distinct_keys ?m" using r1 by (simp add: foreign_kept_def)
    have "outcomes_of v m (evict_oldest (maxCommandOutcomes r1) ?m)"
      unfolding outcomes_of_def
    proof (intro allI impI)
      fix k e' assume e': "map_get (evict_oldest (maxCommandOutcomes r1) ?m) k = Some e' \<and> oe_userId e' = v"
      with map_get_evict_oldest [OF dk] have "map_get ?m k = Some e'" by blast
      with e' u have "map_get (commandOutcomes r1) k = Some e'" by (auto split: if_splits)
      with r1 e' show "\<exists>e. map_get m k = Some e \<and> e' = e\<lparr>oe_status := oe_status e', oe_updatedAt := oe_updatedAt e'\<rparr>"
        by (simp add: foreign_kept_def outcomes_of_def)
    qed
    then show ?thesis
      using r1 dk
      by (simp add: recordOutcome_def r1_def [symmetric] evictOldestOutcomes_def Let_def foreign_kept_def)
  qed
qed

lemma foreign_step:
  assumes "op_account op r = Some u" "v \<noteq> u" "distinct_keys (commandOutcomes r)"
  shows "outcomes_of v (commandOutcomes r) (commandOutcomes (registry_step E t op r))"
proof -
  have "foreign_kept v (commandOutcomes r) r" using assms(3) by (simp add: foreign_kept_def outcomes_of_def)
  with assms(1,2) have "foreign_kept v (commandOutcomes r) (registry_step E t op r)" by (intro foreign.step_law) auto
  then show ?thesis by (simp add: foreign_kept_def)
qed

end
