(* ===== verification/InstanceRequests.thy ===== *)
theory InstanceRequests
  imports InstanceOps
begin

section \<open>Pending requests over a history\<close>

text \<open>
  A plugin's report is the only thing that makes a request pending again. \<open>record_law\<close> is the
  contract of a property of the records that survives the changes which add no pending request;
  every operation but a report keeps it. It is interpreted for a request that is not pending.
\<close>

definition shrunk :: "instance_record \<Rightarrow> instance_record \<Rightarrow> bool" where
  "shrunk i i' \<longleftrightarrow> (\<forall>x y. map_get (ir_projected i') x = Some y \<longrightarrow> map_get (ir_projected i) x = Some y)"

lemma shrunk_same: "ir_projected i' = ir_projected i \<Longrightarrow> shrunk i i'"
  by (simp add: shrunk_def)

text \<open>A report that names none of the requests in \<open>X\<close> as pending.\<close>

definition silent_message :: "jstr set \<Rightarrow> plugin_message \<Rightarrow> bool" where
  "silent_message X msg =
     (case msg of SnapshotResponse _ _ ias \<Rightarrow> ia_requestId ` set ias \<inter> X = {} | _ \<Rightarrow> True)"

definition silent_op :: "runtime \<Rightarrow> jstr set \<Rightarrow> registry_op \<Rightarrow> bool" where
  "silent_op E X op \<longleftrightarrow>
     (case op of
        Frame _ raw \<Rightarrow> (case valid_message E raw of Some msg \<Rightarrow> silent_message X msg | None \<Rightarrow> True)
      | _ \<Rightarrow> True)"

locale record_law =
  fixes Q :: "registry \<Rightarrow> bool" and X :: "jstr set"
  assumes cong: "records r' = records r \<Longrightarrow> Q r' = Q r"
    and keep: "Q r \<Longrightarrow> (k, i) \<in> set (records r) \<Longrightarrow> shrunk i i' \<Longrightarrow> Q (put_record k i' r)"
    and report: "Q r \<Longrightarrow> (k, i) \<in> set (records r) \<Longrightarrow> ia_requestId ` set ias \<inter> X = {} \<Longrightarrow>
                 Q (put_record k (applyProjection t ias i) r)"
    and filtered: "Q r \<Longrightarrow> Q (r\<lparr>records := filter P (records r)\<rparr>)"
    and added: "Q r \<Longrightarrow> ir_projected i = [] \<Longrightarrow> Q (r\<lparr>records := map_set k i (records r)\<rparr>)"
begin

lemma frames:
  "Q (emit e r) = Q r" "Q (publishSnapshot u r) = Q r" "Q (terminate c r) = Q r" "Q (close_socket c code r) = Q r"
  "Q (client_close cl code r) = Q r" "Q (client_terminate cl r) = Q r"
  "Q (set_connection c cc r) = Q r" "Q (set_client cl f r) = Q r" "Q (client_send cl m r) = Q r"
  "Q (release t c r) = Q r" "Q (settleOutcome t x st r) = Q r" "Q (recordOutcome t u cmd rid inst kind r) = Q r"
  "Q (pruneExpiredOutcomes t r) = Q r" "Q (add_connection auth r) = Q r"
  "Q (addWebUiClient t u e' r) = Q r" "Q (prompt_timeout key r) = Q r" "Q (catalog_timeout key r) = Q r"
  "Q (snapshot_timeout key r) = Q r"
  by (rule cong; simp add: emit_def publishSnapshot_def terminate_def close_socket_def client_close_def
      client_terminate_def set_connection_def set_client_def client_send_def recordOutcome_def
      pruneExpiredOutcomes_def evictOldestOutcomes_def add_connection_def addWebUiClient_def
      prompt_timeout_def catalog_timeout_def snapshot_timeout_def Let_def split: option.split)+

lemma updates:
  "Q (r\<lparr>ownership := b\<rparr>) = Q r" "Q (r\<lparr>connections := d\<rparr>) = Q r"
  "Q (r\<lparr>socket_of := f\<rparr>) = Q r" "Q (r\<lparr>snapshotRequests := g\<rparr>) = Q r" "Q (r\<lparr>pendingCommands := h\<rparr>) = Q r"
  "Q (r\<lparr>pendingPrompts := p\<rparr>) = Q r" "Q (r\<lparr>webUiTunnels := j\<rparr>) = Q r" "Q (r\<lparr>tunnel_of := w\<rparr>) = Q r"
  "Q (r\<lparr>client_socket := l\<rparr>) = Q r" "Q (r\<lparr>catalogRequests := m\<rparr>) = Q r" "Q (r\<lparr>nextSequence := n\<rparr>) = Q r"
  "Q (r\<lparr>uuids_drawn := o'\<rparr>) = Q r" "Q (r\<lparr>uncaught := q\<rparr>) = Q r"
  by (rule cong; simp)+

lemmas Q_simps = frames updates

lemma keep_at:
  "Q r \<Longrightarrow> map_get (records r) k = Some i \<Longrightarrow> ir_projected i' = ir_projected i \<Longrightarrow> Q (put_record k i' r)"
  using keep map_get_in_set shrunk_same by metis

lemma fold_law: "Q r \<Longrightarrow> (\<And>x r. Q r \<Longrightarrow> Q (f x r)) \<Longrightarrow> Q (fold f xs r)"
  by (induction xs arbitrary: r) simp_all

lemma fold_law': "Q r \<Longrightarrow> (\<And>x r. x \<in> set xs \<Longrightarrow> Q r \<Longrightarrow> Q (f x r)) \<Longrightarrow> Q (fold f xs r)"
  by (induction xs arbitrary: r) simp_all

lemma disconnect_law:
  "Q r \<Longrightarrow> Q (disconnect E t c r)" "Q r \<Longrightarrow> Q (promote E t okey u r)" "Q r \<Longrightarrow> Q (send E t c m r)"
proof (induction E t c r and E t okey u r and E t c m r rule: disconnect_promote_send.induct)
  case (1 E t c r)
  let ?r = "release t c (r\<lparr>connections := removeAll c (connections r)\<rparr>)"
  have "Q (put_record k (i\<lparr>ir_connection := None, ir_state := Offline, ir_lastSeenAt := t\<rparr>) ?r)"
    if "map_get (records r) k = Some i" for k i
    using "1.prems" that by (intro keep_at) (simp_all add: Q_simps)
  with 1 show ?case
    by (subst disconnect.simps) (auto simp: Let_def Q_simps split: option.split)
next
  case (2 E t okey u r)
  show ?case
  proof (cases "candidates E okey u r")
    case (Cons ki rest)
    obtain k i where ki: "ki = (k, i)" by force
    with Cons have "(k, i) \<in> set (candidates E okey u r)" by simp
    then have "(k, i) \<in> set (records r)" by (auto simp: candidates_def)
    then have "Q (put_record k (i\<lparr>ir_state := Controllable, ir_lastSeenAt := t\<rparr>) r)"
      using "2.prems" by (intro keep shrunk_same) simp_all
    then show ?thesis
      using 2 Cons ki by (subst promote.simps) (auto simp: Let_def Q_simps split: option.split)
  qed (use "2.prems" in \<open>simp add: promote.simps\<close>)
next
  case (3 E t c m r)
  then show ?case by (subst send.simps) (simp add: Q_simps split: send_fate.split)
qed

lemma register_law: "Q r \<Longrightarrow> Q (register E t c g r)"
proof -
  have "Q r \<Longrightarrow> Q (register_record E t c g e r)" for e r
    by (simp add: register_record_def pruneOfflineOwnership_def Let_def Q_simps disconnect_law added filtered)
  then show "Q r \<Longrightarrow> Q (register E t c g r)"
    by (simp add: register_def Let_def Q_simps disconnect_law split: option.split)
qed

lemma tunnel_laws:
  "Q r \<Longrightarrow> Q (closeWebUiTunnel E t tid r)" "Q r \<Longrightarrow> Q (handleWebUiResponse E t c part tid rid body r)"
  "Q r \<Longrightarrow> Q (receiveWebUiRequest E t tid v r)" "Q r \<Longrightarrow> Q (auth_refresh E t cl v r)" "Q r \<Longrightarrow> Q (open_tunnel E cl v r)"
proof -
  show close: "Q r \<Longrightarrow> Q (closeWebUiTunnel E t tid r)" for r tid
    by (simp add: closeWebUiTunnel_def Let_def Q_simps disconnect_law)
  show "Q r \<Longrightarrow> Q (handleWebUiResponse E t c part tid rid body r)"
    by (simp add: handleWebUiResponse_def Let_def Q_simps close)
  show "Q r \<Longrightarrow> Q (receiveWebUiRequest E t tid v r)"
    by (simp add: receiveWebUiRequest_def Let_def Q_simps disconnect_law close)
  show "Q r \<Longrightarrow> Q (auth_refresh E t cl v r)"
    by (simp add: auth_refresh_def Let_def Q_simps split: option.split json.split)
  show "Q r \<Longrightarrow> Q (open_tunnel E cl v r)"
    by (simp add: open_tunnel_def Let_def Q_simps split: option.split)
qed

lemma client_laws:
  "Q r \<Longrightarrow> Q (client_message E t cl frame r)" "Q r \<Longrightarrow> Q (client_gone E t cl r)"
  "Q r \<Longrightarrow> Q (client_heartbeat cl r)" "Q r \<Longrightarrow> Q (client_expired t cl r)"
  by (simp_all add: client_message_def client_gone_def client_heartbeat_def client_expired_def Let_def
      Q_simps tunnel_laws split: option.split)

lemma handler_laws:
  "Q r \<Longrightarrow> ia_requestId ` set ias \<inter> X = {} \<Longrightarrow> Q (handleSnapshotResponse t c rid inst ias r)"
  "Q r \<Longrightarrow> Q (handleCommandResult t kind c cmd inst st r)"
proof -
  show "Q r \<Longrightarrow> ia_requestId ` set ias \<inter> X = {} \<Longrightarrow> Q (handleSnapshotResponse t c rid inst ias r)"
    by (auto simp: handleSnapshotResponse_def Let_def Q_simps intro!: report dest: map_get_in_set split: option.split)
  have "shrunk i (rememberStale t x (i\<lparr>ir_projected := map_delete x (ir_projected i)\<rparr>))" for x i
    by (simp add: shrunk_def rememberStale_def)
  then show "Q r \<Longrightarrow> Q (handleCommandResult t kind c cmd inst st r)"
    by (auto simp: handleCommandResult_def Let_def Q_simps intro!: keep dest: map_get_in_set split: option.split)
qed

lemma receive_law: "Q r \<Longrightarrow> silent_op E X (Frame c' raw) \<Longrightarrow> Q (receive E t c raw r)"
proof -
  have "Q r \<Longrightarrow> silent_message X msg \<Longrightarrow> Q (receive_message E t c msg r)" for msg r
    by (auto simp: receive_message_def silent_message_def handleCatalogResponse_def
        handleQuestionAnswerResult_def handlePermissionDecideResult_def handleSessionPromptResult_def
        Let_def Q_simps tunnel_laws disconnect_law register_law handler_laws
        split: plugin_message.split command_kind.split option.split)
  then show "Q r \<Longrightarrow> silent_op E X (Frame c' raw) \<Longrightarrow> Q (receive E t c raw r)"
    by (auto simp: receive_def silent_op_def Let_def Q_simps disconnect_law split: option.splits)
qed

lemma request_laws:
  "Q r \<Longrightarrow> Q (fst (routeCommand E t kind u inst rid cmd sid x r))"
  "Q r \<Longrightarrow> Q (fst (sendSessionPrompt E t u inst sid cmd txt r))"
  "Q r \<Longrightarrow> Q (fst (collectSessions E t u inst q r))" "Q r \<Longrightarrow> Q (fst (collectPendingInteractions E t u r))"
  "Q r \<Longrightarrow> Q (fst (forgetOffline u inst r))" "Q r \<Longrightarrow> Q (command_timeout t kind key r)"
proof -
  show "Q r \<Longrightarrow> Q (fst (routeCommand E t kind u inst rid cmd sid x r))"
    using routeCommand_cases [of E t kind u inst rid cmd sid x r]
    by (auto simp: Let_def Q_simps intro!: disconnect_law)
  show "Q r \<Longrightarrow> Q (fst (sendSessionPrompt E t u inst sid cmd txt r))"
    by (auto simp: sendSessionPrompt_def Let_def Q_simps disconnect_law split: option.split)
  show "Q r \<Longrightarrow> Q (fst (collectSessions E t u inst q r))"
    by (auto simp: collectSessions_def Let_def Q_simps disconnect_law split: option.split)
  have "Q r \<Longrightarrow> Q (queryPendingSnapshot E t ic r)" for ic r
    by (simp add: queryPendingSnapshot_def Let_def Q_simps disconnect_law split: prod.split)
  then show "Q r \<Longrightarrow> Q (fst (collectPendingInteractions E t u r))"
    by (simp add: collectPendingInteractions_def Let_def fold_law)
  show "Q r \<Longrightarrow> Q (fst (forgetOffline u inst r))"
    by (auto simp: forgetOffline_def Let_def Q_simps map_delete_filter filtered split: option.split)
  show "Q r \<Longrightarrow> Q (command_timeout t kind key r)"
    by (simp add: command_timeout_def Q_simps split: option.split)
qed

lemma touch_law: "Q r \<Longrightarrow> Q (touch t c r)"
  by (auto simp: touch_def Let_def intro!: keep_at split: option.split)

lemma connection_laws: "Q r \<Longrightarrow> Q (heartbeat E t c r)" "Q r \<Longrightarrow> Q (markAlive t c r)"
  by (simp_all add: heartbeat_def markAlive_def touch_law Q_simps disconnect_law)

lemma step_law: "Q r \<Longrightarrow> silent_op E X op \<Longrightarrow> Q (registry_step E t op r)"
proof (cases op)
  case (Route kind u inst rid cmd sid x)
  then show "Q r \<Longrightarrow> ?thesis" using request_laws(1) by (cases kind) (simp_all add: answerQuestion_def decidePermission_def)
next
  case (Outcome u cmd)
  then show "Q r \<Longrightarrow> ?thesis" by (simp add: outcomeFor_def Let_def Q_simps)
next
  case (Frame c raw)
  then show "Q r \<Longrightarrow> silent_op E X op \<Longrightarrow> ?thesis" using receive_law by simp
qed (simp_all add: Q_simps connection_laws disconnect_law client_laws request_laws
    revokeKey_def closeAll_def fold_law)

end


subsection \<open>A request that is not pending\<close>

definition not_pending :: "jstr \<Rightarrow> jstr \<Rightarrow> registry \<Rightarrow> bool" where
  "not_pending k rid r \<longleftrightarrow>
     distinct_keys (records r) \<and>
     (\<forall>i. map_get (records r) k = Some i \<longrightarrow> map_get (ir_projected i) rid = None)"

lemma incoming_requests_None:
  "rid \<notin> ia_requestId ` set ias \<Longrightarrow> map_get (incoming_requests ias) rid = None"
proof -
  have "rid \<notin> ia_requestId ` set ias \<Longrightarrow> map_get m rid = None \<Longrightarrow>
      map_get (fold (\<lambda>a. map_set (ia_requestId a) (ia_kind a, ia_sessionId a)) ias m) rid = None" for m
    by (induction ias arbitrary: m) auto
  then show "rid \<notin> ia_requestId ` set ias \<Longrightarrow> ?thesis" by (simp add: incoming_requests_def)
qed

interpretation request: record_law "not_pending k rid" "{rid}" for k rid
proof
  fix r r' :: registry and k' i i' ias t P
  show "records r' = records r \<Longrightarrow> not_pending k rid r' = not_pending k rid r" by (simp add: not_pending_def)
  show "not_pending k rid r \<Longrightarrow> (k', i) \<in> set (records r) \<Longrightarrow> shrunk i i' \<Longrightarrow> not_pending k rid (put_record k' i' r)"
    by (auto simp: not_pending_def put_record_def shrunk_def map_get_iff) (metis map_get_iff not_Some_eq old.prod.exhaust)
  show "not_pending k rid r \<Longrightarrow> (k', i) \<in> set (records r) \<Longrightarrow> ia_requestId ` set ias \<inter> {rid} = {} \<Longrightarrow>
      not_pending k rid (put_record k' (applyProjection t ias i) r)"
    by (auto simp: not_pending_def put_record_def applyProjection_def Let_def incoming_requests_None)
  show "not_pending k rid r \<Longrightarrow> not_pending k rid (r\<lparr>records := filter P (records r)\<rparr>)"
    by (auto simp: not_pending_def distinct_keys_filter map_get_filter split: option.splits if_splits)
  show "not_pending k rid r \<Longrightarrow> ir_projected i = [] \<Longrightarrow> not_pending k rid (r\<lparr>records := map_set k' i (records r)\<rparr>)"
    by (auto simp: not_pending_def)
qed

lemma request_run:
  "not_pending k rid r \<Longrightarrow> (\<And>t op. (t, op) \<in> set ops \<Longrightarrow> silent_op E {rid} op) \<Longrightarrow>
   not_pending k rid (registry_run E ops r)"
  unfolding registry_run_def
  by (rule request.fold_law') (auto intro: request.step_law)

end
