(* ===== verification/InstanceProps.thy ===== *)
theory InstanceProps
  imports InstanceOutcomes InstanceRequests
begin

section \<open>What the instance registry guarantees\<close>

text \<open>
  The reachable states of the registry: every history of connections, frames, client requests and
  timers, in any order. The properties hold in all of them; their witnesses evaluate the start of a
  history in which a plugin connects twice (\<open>demo_state\<close>).
\<close>

inductive reachable_registry :: "runtime \<Rightarrow> int \<Rightarrow> nat \<Rightarrow> registry \<Rightarrow> bool" for E ttl n where
  start: "reachable_registry E ttl n (new_registry ttl n)"
| step: "reachable_registry E ttl n r \<Longrightarrow> enabled op r \<Longrightarrow> reachable_registry E ttl n (registry_step E t op r)"

lemma reachable_inv: "reachable_registry E ttl n r \<Longrightarrow> inj (random_uuid E) \<Longrightarrow> registry_inv E r"
  by (induction rule: reachable_registry.induct) (auto intro: registry_inv_new step_inv)

lemma reachable_outcomes: "reachable_registry E ttl n r \<Longrightarrow> outcomes_bounded n r"
proof (induction rule: reachable_registry.induct)
  case start
  show ?case by (simp add: outcomes_bounded_def new_registry_def)
next
  case (step r op t)
  then show ?case by (intro bounded.step_law) simp_all
qed

fun run_enabled :: "runtime \<Rightarrow> (int \<times> registry_op) list \<Rightarrow> registry \<Rightarrow> bool" where
  "run_enabled E [] r = True"
| "run_enabled E ((t, op) # ops) r = (enabled op r \<and> run_enabled E ops (registry_step E t op r))"

lemma reachable_run:
  "reachable_registry E ttl n r \<Longrightarrow> run_enabled E ops r \<Longrightarrow> reachable_registry E ttl n (registry_run E ops r)"
  by (induction E ops r rule: run_enabled.induct) (auto simp: registry_run_def intro: reachable_registry.step)

subsection \<open>A plugin that connects twice\<close>

definition demo_registration :: registration where
  "demo_registration =
     \<lparr>rg_instanceId = js ''a'', rg_machine = js ''host'', rg_project = js ''p'', rg_directory = js ''/p'',
      rg_openCodeVersion = js ''1'', rg_webUiAvailable = Some True, rg_protocolVersion = 2\<rparr>"

definition demo_question :: interaction where
  "demo_question =
     \<lparr>ia_kind = QuestionKind, ia_instanceId = [], ia_machine = [], ia_project = [], ia_directory = [],
      ia_sessionId = js ''s'', ia_requestId = js ''q'', ia_content = JNull\<rparr>"

text \<open>The UUIDs drawn are 0, 1, \<dots>; the text of a frame is none, one or two characters.\<close>

definition demo_runtime :: runtime where
  "demo_runtime =
     \<lparr>lower_case = (\<lambda>s. s), random_uuid = decimal, verify_token = (\<lambda>_. None), byte_length = length,
      parse_json = (\<lambda>s. Some (JString s)),
      validate_message = (\<lambda>v.
        case v of
          JString [] \<Rightarrow> Some (Register demo_registration)
        | JString [_] \<Rightarrow> Some (SnapshotResponse (decimal 0) (js ''a'') [demo_question])
        | _ \<Rightarrow> Some (CommandResult QuestionKind (js ''c'') (js ''a'') Confirmed))\<rparr>"

lemma demo_inj: "inj (random_uuid demo_runtime)"
  by (simp add: demo_runtime_def inj_def decimal_inj)

definition demo_key :: "string \<Rightarrow> verified_key" where
  "demo_key u = \<lparr>vk_id = js u, vk_userId = js u, vk_keyId = js u\<rparr>"

definition demo_ops :: "(int \<times> registry_op) list" where
  "demo_ops = [(0, Connect (demo_key ''alice'')), (1, Frame 0 (Some [])), (2, Connect (demo_key ''alice''))]"

definition demo_record :: instance_record where
  "demo_record =
     \<lparr>ir_registration = demo_registration, ir_userId = js ''alice'', ir_sequence = 0, ir_state = Controllable,
      ir_lastSeenAt = 1, ir_connection = Some 0, ir_projected = [], ir_stale = []\<rparr>"

text \<open>The state after the two connections, the first of which has registered.\<close>

definition demo_state :: registry where
  "demo_state =
     (new_registry 600000 1024)
       \<lparr>records := [(recordKey (js ''alice'') (js ''a''), demo_record)],
        ownership := [(ownershipKey demo_runtime (js ''alice'') demo_registration, js ''a'')],
        connections := [0, 1],
        connection_of := (connection_of (new_registry 600000 1024))
          (0 := \<lparr>cc_auth = demo_key ''alice'', cc_alive = True, cc_instanceId = Some (js ''a'')\<rparr>,
           1 := \<lparr>cc_auth = demo_key ''alice'', cc_alive = True, cc_instanceId = None\<rparr>),
        nextSequence := 1, nextConnectionUid := 2,
        effects := [Sent 0 (RegistrationResult (js ''a'') Controllable),
                    Published (js ''alice'') [toPresence demo_record]]\<rparr>"

lemma send_writes: "send_fate (socket_of r c) = Writes \<Longrightarrow> send E t c m r = emit (Sent c m) r"
  by (simp add: send.simps)

lemma account_alice: "account_id (js ''alice'')"
  by (simp add: account_id_def js_def)

lemma demo_valid:
  "valid_message demo_runtime (Some []) = Some (Register demo_registration)"
  "valid_message demo_runtime (Some [1]) = Some (SnapshotResponse (decimal 0) (js ''a'') [demo_question])"
  "valid_message demo_runtime (Some [1, 1]) = Some (CommandResult QuestionKind (js ''c'') (js ''a'') Confirmed)"
  by (simp_all add: valid_message_def decode_def demo_runtime_def CONTROL_MAX_FRAME_BYTES_def)

lemma fresh_socket_writes: "send_fate fresh_socket = Writes" "ready_open fresh_socket"
  by (simp_all add: send_fate_def fresh_socket_def WS_MAX_BUFFERED_BYTES_def)

lemma demo_run: "registry_run demo_runtime demo_ops (new_registry 600000 1024) = demo_state"
  by (simp add: registry_run_def demo_ops_def add_connection_def receive_def demo_valid receive_message_def
      register_def register_record_def pruneOfflineOwnership_def set_connection_def conn_user_def
      publishSnapshot_def emit_def new_registry_def Let_def send_writes fresh_socket_writes snapshot_def
      reachable_record_def demo_state_def demo_record_def demo_key_def SUPPORTED_PROTOCOL_VERSION_def
      demo_registration_def fun_eq_iff)

lemma demo_reachable: "reachable_registry demo_runtime 600000 1024 demo_state"
  unfolding demo_run [symmetric]
  by (rule reachable_run [OF reachable_registry.start])
     (simp add: demo_ops_def demo_key_def account_alice add_connection_def new_registry_def Let_def)


subsection \<open>One controllable instance\<close>

text \<open>
  C22: In every reachable state the ownership map names the controllable record of a machine and
  directory, no other record of the account is controllable for them, and the record is held by a
  connection whose plugin key belongs to the record's account.
\<close>

theorem one_controllable_instance:
  assumes "reachable_registry E ttl n r" "inj (random_uuid E)"
    and "map_get (records r) k = Some i" "ir_state i = Controllable"
  shows "map_get (ownership r) (ir_ownership E i) = Some (ir_instance i) \<and>
         (\<exists>c < nextConnectionUid r. ir_connection i = Some c \<and> conn_user r c = ir_userId i) \<and>
         (\<forall>k' i'. map_get (records r) k' = Some i' \<and> ir_state i' = Controllable \<and>
                  ir_ownership E i' = ir_ownership E i \<longrightarrow> k' = k)"
proof -
  note inv = reachable_inv [OF assms(1,2)]
  then have "inv_records E r" by (simp add: registry_inv_def)
  moreover note ok = inv_recordD [OF inv assms(3)]
  ultimately show ?thesis
    using assms(3,4) controllable_unique [of E r] ok by (auto simp: record_ok_def)
qed

lemma one_controllable_instance_witness:
  "ir_state demo_record = Controllable \<and>
   map_get (ownership demo_state) (ir_ownership demo_runtime demo_record) = Some (js ''a'')"
  using one_controllable_instance [OF demo_reachable demo_inj, of "recordKey (js ''alice'') (js ''a'')" demo_record]
  by (simp add: demo_state_def demo_record_def demo_registration_def)

subsection \<open>Accounts are isolated\<close>

text \<open>
  C16: Whatever happens for one account (frames of its plugins, requests and frames of its clients,
  timers of its requests: every operation but the revocation of a key and the shutdown, which act for no
  account), another account's records, ownership, connections, waiting requests and commands, clients and
  tunnels are what they were, and every frame, close and publication goes to the account that acts. The
  cache of command outcomes is shared, and less is kept there: no outcome appears for the other account or
  takes another command, request, instance, kind or expiry, but one may be swept or evicted, and its status
  overwritten (see the replay property).
\<close>

theorem accounts_isolated:
  assumes "reachable_registry E ttl n r" "inj (random_uuid E)" "enabled op r"
    and "op_account op r = Some u" "account_id v" "v \<noteq> u"
  shows "same_view E v r (registry_step E t op r) \<and>
         outcomes_of v (commandOutcomes r) (commandOutcomes (registry_step E t op r)) \<and>
         (\<exists>es. effects (registry_step E t op r) = effects r @ es \<and>
               (\<forall>e \<in> set es. effect_for u (registry_step E t op r) e))"
proof -
  have "distinct_keys (commandOutcomes r)" using reachable_outcomes [OF assms(1)] by (simp add: outcomes_bounded_def)
  from foreign_step [OF assms(4,6) this] step_good [OF reachable_inv [OF assms(1,2)] assms(2-4), of t] assms(5,6)
  show ?thesis by (simp add: good_def confined_def)
qed

lemma accounts_isolated_witness:
  "same_view demo_runtime (js ''bob'') demo_state (registry_step demo_runtime 3 (Frame 1 (Some [])) demo_state)"
  using accounts_isolated [OF demo_reachable demo_inj, of "Frame 1 (Some [])" "js ''alice''" "js ''bob''" 3]
  by (simp add: demo_state_def conn_user_def demo_key_def account_id_def js_def)

subsection \<open>Reconnecting before the old connection is noticed\<close>

text \<open>A record that has lost its connection does not get one back while others are promoted.\<close>

definition no_connection :: "jstr \<Rightarrow> registry \<Rightarrow> bool" where
  "no_connection k r \<longleftrightarrow>
     distinct_keys (records r) \<and> (\<exists>i. map_get (records r) k = Some i \<and> ir_connection i = None)"

lemma no_connection_frame [simp]:
  "no_connection k (emit e r) = no_connection k r"
  "no_connection k (publishSnapshot u r) = no_connection k r"
  "no_connection k (terminate c r) = no_connection k r"
  "no_connection k (release t c r) = no_connection k r"
  "no_connection k (r\<lparr>ownership := m\<rparr>) = no_connection k r"
  "no_connection k (r\<lparr>connections := cs\<rparr>) = no_connection k r"
  by (simp_all add: no_connection_def emit_def publishSnapshot_def terminate_def)

lemma no_connection_put:
  "no_connection k r \<Longrightarrow> ir_connection i = None \<or> k' \<noteq> k \<Longrightarrow> no_connection k (put_record k' i r)"
  by (auto simp: no_connection_def put_record_def)

lemma no_connection_kept:
  "no_connection k r \<Longrightarrow> no_connection k (disconnect E t c r)"
  "no_connection k r \<Longrightarrow> no_connection k (promote E t okey u r)"
  "no_connection k r \<Longrightarrow> no_connection k (send E t c m r)"
proof (induction E t c r and E t okey u r and E t c m r rule: disconnect_promote_send.induct)
  case (1 E t c r)
  then show ?case
    by (subst disconnect.simps) (auto simp: Let_def no_connection_put split: option.split)
next
  case (2 E t okey u r)
  show ?case
  proof (cases "candidates E okey u r")
    case (Cons ki rest)
    obtain k0 i where ki: "ki = (k0, i)" by force
    then have "(k0, i) \<in> set (candidates E okey u r)" using Cons by simp
    then have "(k0, i) \<in> set (records r)" "ir_connection i \<noteq> None" by (auto simp: candidates_def)
    moreover from this have "map_get (records r) k0 = Some i"
      using "2.prems" by (simp add: no_connection_def map_get_iff)
    ultimately have "k0 \<noteq> k" using "2.prems" by (auto simp: no_connection_def)
    then have "no_connection k (put_record k0 i' r)" for i'
      using "2.prems" by (auto intro: no_connection_put)
    then show ?thesis
      using 2 Cons ki by (subst promote.simps) (auto simp: Let_def split: option.split)
  qed (use "2.prems" in \<open>simp add: promote.simps\<close>)
next
  case (3 E t c m r)
  then show ?case by (subst send.simps) (simp split: send_fate.split)
qed

text \<open>Disconnecting a live connection takes the connection off the record that it holds.\<close>

lemma disconnect_clears:
  assumes inv: "registry_inv E r" and i: "map_get (records r) k = Some i" "ir_connection i = Some c"
    and live: "c \<in> set (connections r)"
  shows "no_connection k (disconnect E t c r)"
proof -
  note ok = inv_recordD [OF inv i(1)]
  have k: "k = recordKey (conn_user r c) (ir_instance i)" "cc_instanceId (connection_of r c) = Some (ir_instance i)"
    using ok i(2) by (auto simp: record_ok_def)
  have "no_connection k (put_record k (i\<lparr>ir_connection := None, ir_state := Offline, ir_lastSeenAt := t\<rparr>) r')"
    if "records r' = records r" for r'
    using inv i that
    by (simp add: no_connection_def put_record_def registry_inv_def inv_records_def map_has_iff)
  then show ?thesis
    using live i k no_connection_kept
    by (subst disconnect.simps) (simp add: Let_def conn_user_def)
qed

text \<open>
  A plugin that reconnects and registers its instance while the gateway still counts its old
  connection as live makes \<open>register\<close> throw out of the message listener: \<open>disconnect\<close> has cleared
  \<open>existing.connection\<close> before \<open>existing.connection.socket.close\<close> reads it. The new connection is
  not registered and the record is left without a connection.
\<close>

theorem reconnect_throws:
  assumes "reachable_registry E ttl n r" "inj (random_uuid E)"
    and "valid_message E raw = Some (Register g)"
    and "cc_instanceId (connection_of r c) = None"
    and "map_get (records r) (recordKey (conn_user r c) (rg_instanceId g)) = Some i"
    and "ir_connection i = Some c'" "c' \<in> set (connections r)"
  shows "uncaught (registry_step E t (Frame c raw) r) \<and>
         cc_instanceId (connection_of (registry_step E t (Frame c raw) r) c) = None \<and>
         no_connection (recordKey (conn_user r c) (rg_instanceId g)) (registry_step E t (Frame c raw) r)"
proof -
  let ?k = "recordKey (conn_user r c) (rg_instanceId g)"
  define r1 where "r1 = set_connection c ((connection_of r c)\<lparr>cc_alive := True\<rparr>) r"
  note inv = reachable_inv [OF assms(1,2)]
  have inv1: "registry_inv E r1"
    unfolding r1_def by (rule good_inv [OF good_set_connection [OF inv refl]]) simp_all
  have eq: "conn_user r1 c = conn_user r c" "records r1 = records r" "connections r1 = connections r"
    "cc_instanceId (connection_of r1 c) = None"
    using assms(4) by (simp_all add: r1_def set_connection_def conn_user_def)
  have "c' \<noteq> c"
    using inv_recordD [OF inv assms(5)] assms(4,6) by (auto simp: record_ok_def)
  have nc: "no_connection ?k (disconnect E t c' r1)"
    using disconnect_clears [OF inv1, of ?k i c'] assms(5-7) eq by simp
  then obtain i1 where "map_get (records (disconnect E t c' r1)) ?k = Some i1" "ir_connection i1 = None"
    by (auto simp: no_connection_def)
  then have "registry_step E t (Frame c raw) r = (disconnect E t c' r1)\<lparr>uncaught := True\<rparr>"
    using assms(3,5,6) eq \<open>c' \<noteq> c\<close>
    by (simp add: receive_def r1_def [symmetric] receive_message_def register_def Let_def)
  then show ?thesis
    using nc eq by (simp add: connection_of_frame no_connection_def)
qed

lemma reconnect_throws_witness:
  "uncaught (registry_step demo_runtime 3 (Frame 1 (Some [])) demo_state)"
  using reconnect_throws [OF demo_reachable demo_inj demo_valid(1), of 1 demo_record 0 3]
  by (simp add: demo_state_def conn_user_def demo_key_def demo_registration_def demo_record_def)


text \<open>The first connection reports a question, and the account answers it.\<close>

definition demo_answered :: registry where
  "demo_answered = registry_run demo_runtime
     [(3, AskPending (js ''alice'')), (4, Frame 0 (Some [1])),
      (5, Route QuestionKind (js ''alice'') (js ''a'') (js ''q'') (js ''c'') (js ''s'') JNull)] demo_state"

lemma demo_answered_reachable: "reachable_registry demo_runtime 600000 1024 demo_answered"
  unfolding demo_answered_def
  by (rule reachable_run [OF demo_reachable])
     (simp add: account_alice collectPendingInteractions_def snapshot_targets_def demo_state_def
        demo_record_def queryPendingSnapshot_def Let_def send_writes fresh_socket_writes emit_def new_registry_def)

lemma demo_answered_facts:
  "cc_instanceId (connection_of demo_answered 0) = Some (js ''a'') \<and>
   conn_user demo_answered 0 = js ''alice'' \<and>
   map_get (pendingCommands demo_answered QuestionKind) (commandKey 0 (js ''c'')) =
     Some \<lparr>pc_connection = 0, pc_requestId = js ''q'', pc_commandId = js ''c''\<rparr> \<and>
   map_get (records demo_answered) (recordKey (js ''alice'') (js ''a'')) =
     Some (demo_record\<lparr>ir_projected := [(js ''q'', (QuestionKind, js ''s''))]\<rparr>)"
proof -
  have rid: "random_uuid demo_runtime = decimal" by (simp add: demo_runtime_def)
  show ?thesis
    by (simp add: demo_answered_def registry_run_def collectPendingInteractions_def snapshot_targets_def demo_state_def
        demo_record_def queryPendingSnapshot_def Let_def send_writes fresh_socket_writes emit_def new_registry_def
        receive_def demo_valid receive_message_def handleSnapshotResponse_def set_connection_def conn_user_def
        put_record_def write_back_def map_has_iff applyProjection_def incoming_requests_def demo_question_def
        answerQuestion_def routeCommand_def controllable_connection_def recordOutcome_def pruneExpiredOutcomes_def
        evictOldestOutcomes_def evict_oldest_small demo_key_def rid demo_registration_def)
qed

subsection \<open>A confirmed request is closed\<close>

text \<open>
  C23: After a plugin has confirmed an answer or a decision, no command for that request is accepted
  on the instance, of either kind and with whatever command id, over any further history in which no
  plugin reports the request as pending again.
\<close>

theorem confirmed_request_is_closed:
  assumes "reachable_registry E ttl n r" "inj (random_uuid E)"
    and "valid_message E raw = Some (CommandResult kind cmd inst Confirmed)"
    and "cc_instanceId (connection_of r c) = Some inst"
    and "map_get (pendingCommands r kind) (commandKey c cmd) = Some p"
    and "map_get (records r) (recordKey (conn_user r c) inst) = Some i" "ir_connection i = Some c"
    and "\<And>t op. (t, op) \<in> set ops \<Longrightarrow> silent_op E {pc_requestId p} op"
  shows "\<exists>err. routeCommand E t' kind' (conn_user r c) inst (pc_requestId p) cmd' sid x
                 (registry_run E ops (registry_step E t (Frame c raw) r))
               = (registry_run E ops (registry_step E t (Frame c raw) r), Inl err)"
proof -
  let ?k = "recordKey (conn_user r c) inst" and ?q = "pc_requestId p"
  define r1 where "r1 = set_connection c ((connection_of r c)\<lparr>cc_alive := True\<rparr>) r"
  define r2 where "r2 = r1\<lparr>pendingCommands := (pendingCommands r1)
      (kind := map_delete (commandKey c cmd) (pendingCommands r1 kind))\<rparr>"
  let ?i = "rememberStale t ?q (i\<lparr>ir_projected := map_delete ?q (ir_projected i)\<rparr>)"
  note inv = reachable_inv [OF assms(1,2)]
  have eq: "conn_user r1 c = conn_user r c" "records r1 = records r" "pendingCommands r1 = pendingCommands r"
    "cc_instanceId (connection_of r1 c) = Some inst"
    using assms(4) by (simp_all add: r1_def set_connection_def conn_user_def)
  have "receive_message E t c (CommandResult kind cmd inst Confirmed) r1 = handleCommandResult t kind c cmd inst Confirmed r1"
    by (cases kind) (simp_all add: receive_message_def handleQuestionAnswerResult_def handlePermissionDecideResult_def)
  also have "\<dots> = settleOutcome t (pc_commandId p) Confirmed (put_record ?k ?i r2)"
    using assms(5-7) eq by (simp add: handleCommandResult_def r2_def [symmetric] Let_def) (simp add: r2_def eq)
  finally have step: "registry_step E t (Frame c raw) r = settleOutcome t (pc_commandId p) Confirmed (put_record ?k ?i r2)"
    using assms(3) by (simp add: receive_def r1_def [symmetric] Let_def)
  have "distinct_keys (records r)" using inv by (simp add: registry_inv_def inv_records_def)
  then have "not_pending ?k ?q (registry_step E t (Frame c raw) r)"
    unfolding step using assms(6) eq
    by (auto simp: not_pending_def put_record_def r2_def rememberStale_def map_has_iff)
  then have "not_pending ?k ?q (registry_run E ops (registry_step E t (Frame c raw) r))" (is "not_pending _ _ ?s")
    by (rule request_run [OF _ assms(8)])
  then show ?thesis
    by (auto simp: routeCommand_def controllable_connection_def not_pending_def Let_def split: option.split)
qed

lemma confirmed_request_is_closed_witness:
  "\<exists>err. snd (routeCommand demo_runtime 9 PermissionKind (js ''alice'') (js ''a'') (js ''q'') (js ''d'') (js ''s'') JNull
      (registry_run demo_runtime [(7, Connect (demo_key ''bob''))]
        (registry_step demo_runtime 6 (Frame 0 (Some [1, 1])) demo_answered))) = Inl err"
  using confirmed_request_is_closed [OF demo_answered_reachable demo_inj demo_valid(3), of 0
      "\<lparr>pc_connection = 0, pc_requestId = js ''q'', pc_commandId = js ''c''\<rparr>" _ "[(7, Connect (demo_key ''bob''))]"
      9 PermissionKind "js ''d''" "js ''s''" JNull 6]
    demo_answered_facts
  by (auto simp: silent_op_def demo_record_def)

subsection \<open>Command outcomes\<close>

text \<open>
  The cache of command outcomes never holds more entries than its limit, and a query returns an
  entry only to the account that recorded it, for the command it asked about, before its expiry.
\<close>

theorem outcome_cache_bounded:
  assumes "reachable_registry E ttl n r"
  shows "length (commandOutcomes r) \<le> n \<and>
         (snd (outcomeFor t u cmd r) = Some e \<longrightarrow>
            oe_userId e = u \<and> oe_commandId e = cmd \<and> t < oe_expiresAtMs e)"
  using reachable_outcomes [OF assms]
  by (auto simp: outcomes_bounded_def outcomeFor_def pruneExpiredOutcomes_def map_get_filter
      split: option.splits if_splits)

lemma outcome_cache_bounded_witness:
  "length (commandOutcomes demo_answered) \<le> 1024"
  using outcome_cache_bounded [OF demo_answered_reachable] by blast

text \<open>
  A command result settles the live outcome that is stored under its command id, whoever owns
  the entry and whatever its status: the entry is not tied to the connection or account of the
  command, so a replayed command id overwrites a settled outcome of another account.
\<close>

theorem replay_overwrites_outcome:
  assumes "cc_instanceId (connection_of r c) = Some inst"
    and "map_get (pendingCommands r kind) (commandKey c cmd) = Some p" "pc_commandId p = cmd"
    and "map_get (commandOutcomes r) cmd = Some e" "t < oe_expiresAtMs e"
  shows "map_get (commandOutcomes (handleCommandResult t kind c cmd inst st r)) cmd =
         Some (e\<lparr>oe_status := st, oe_updatedAt := t\<rparr>)"
proof -
  have "commandOutcomes (put_record k i r) = commandOutcomes r" for k i r by (simp add: put_record_def)
  then show ?thesis
    using assms by (auto simp: handleCommandResult_def settleOutcome_def Let_def split: option.split)
qed

text \<open>The witness: an outcome that alice's instance confirmed becomes stale by a result for bob's.\<close>

definition demo_replayed :: registry where
  "demo_replayed =
     demo_state
       \<lparr>connection_of := (connection_of demo_state)
          (1 := \<lparr>cc_auth = demo_key ''bob'', cc_alive = True, cc_instanceId = Some (js ''b'')\<rparr>),
        pendingCommands := (\<lambda>_. [(commandKey 1 (js ''c''), \<lparr>pc_connection = 1, pc_requestId = js ''q'', pc_commandId = js ''c''\<rparr>)]),
        commandOutcomes := [(js ''c'', \<lparr>oe_userId = js ''alice'', oe_commandId = js ''c'', oe_requestId = js ''q'',
          oe_instanceId = js ''a'', oe_kind = QuestionKind, oe_status = Confirmed, oe_updatedAt = 5, oe_expiresAtMs = 600005\<rparr>)]\<rparr>"

lemma replay_overwrites_outcome_witness:
  "conn_user demo_replayed 1 = js ''bob'' \<and>
   map_option oe_status (snd (outcomeFor 9 (js ''alice'') (js ''c'')
     (handleCommandResult 8 QuestionKind 1 (js ''c'') (js ''b'') Stale demo_replayed))) = Some Stale"
proof -
  let ?r = "handleCommandResult 8 QuestionKind 1 (js ''c'') (js ''b'') Stale demo_replayed"
  have "map_get (commandOutcomes ?r) (js ''c'') =
      Some \<lparr>oe_userId = js ''alice'', oe_commandId = js ''c'', oe_requestId = js ''q'',
          oe_instanceId = js ''a'', oe_kind = QuestionKind, oe_status = Stale, oe_updatedAt = 8, oe_expiresAtMs = 600005\<rparr>"
    using replay_overwrites_outcome [of demo_replayed 1 "js ''b''" QuestionKind "js ''c''"
        "\<lparr>pc_connection = 1, pc_requestId = js ''q'', pc_commandId = js ''c''\<rparr>" _ 8 Stale]
    by (simp add: demo_replayed_def)
  moreover have "distinct_keys (commandOutcomes ?r)"
    by (simp add: handleCommandResult_def settleOutcome_def demo_replayed_def put_record_def Let_def split: option.split)
  ultimately show ?thesis
    by (simp add: outcomeFor_def pruneExpiredOutcomes_def map_get_filter Let_def)
       (simp add: demo_replayed_def conn_user_def demo_key_def)
qed

end
