(* ===== verification/AccessTokens.thy ===== *)
theory AccessTokens
  imports Json IngestAuth
begin

section \<open>Access tokens\<close>

text \<open>
  \<open>plugins/jwt.ts\<close> and the guards that use it: HS256 tokens, which the gateway signs and verifies
  itself. The JSON text, base64url, base64 and HMAC-SHA-256 of the runtime are the fields of
  \<open>codec\<close>; what the code relies on about them is \<open>codec_ok\<close>: decoding undoes encoding for the payloads
  that are signed, and the base64url alphabet has no dot.
\<close>

definition ACCESS_TOKEN_TTL_SECONDS :: int where "ACCESS_TOKEN_TTL_SECONDS = 900"
definition ADMIN_TOKEN_TTL_SECONDS :: int where "ADMIN_TOKEN_TTL_SECONDS = 12 * 60 * 60"
definition ADMIN_TOKEN_ROLE :: jstr where "ADMIN_TOKEN_ROLE = js ''admin''"
definition MIN_SIGNING_KEY_BYTES :: nat where "MIN_SIGNING_KEY_BYTES = 32"

type_synonym bytes = "8 word list"

text \<open>
  \<open>encode_json\<close> is \<open>base64urlJson\<close>; \<open>decode_json\<close> decodes a part and parses it, without a value when
  the parser throws.
\<close>

record codec =
  encode_json :: "json \<Rightarrow> jstr"
  decode_json :: "jstr \<Rightarrow> json option"
  encode_bytes :: "bytes \<Rightarrow> jstr"
  decode_bytes :: "jstr \<Rightarrow> bytes"
  mac :: "bytes \<Rightarrow> jstr \<Rightarrow> bytes"
  base64_decode :: "jstr \<Rightarrow> bytes"
  base64_encode :: "bytes \<Rightarrow> jstr"

definition codec_ok :: "codec \<Rightarrow> json set \<Rightarrow> bool" where
  "codec_ok C payloads \<longleftrightarrow>
     (\<forall>v \<in> payloads. decode_json C (encode_json C v) = Some v) \<and> (\<forall>b. decode_bytes C (encode_bytes C b) = b) \<and>
     (\<forall>v. dot \<notin> set (encode_json C v)) \<and> (\<forall>b. dot \<notin> set (encode_bytes C b))"

subsection \<open>The signing key\<close>

datatype signing_key_error = NotCanonical | TooShort

definition base64_unit :: "16 word \<Rightarrow> bool" where
  "base64_unit u \<longleftrightarrow> 65 \<le> u \<and> u \<le> 90 \<or> 97 \<le> u \<and> u \<le> 122 \<or> 48 \<le> u \<and> u \<le> 57 \<or> u = 43 \<or> u = 47"

text \<open>\<open>/^[A-Za-z0-9+/]*={0,2}$/\<close>\<close>

definition base64_shape :: "jstr \<Rightarrow> bool" where
  "base64_shape s \<longleftrightarrow>
     (let rest = dropWhile base64_unit s in length rest \<le> 2 \<and> list_all (\<lambda>u. u = 61) rest)"

definition decodeSigningKey :: "codec \<Rightarrow> jstr \<Rightarrow> signing_key_error + bytes" where
  "decodeSigningKey C signingKey =
     (if length signingKey mod 4 \<noteq> 0 \<or> \<not> base64_shape signingKey then Inl NotCanonical
      else let key = base64_decode C signingKey in
        if base64_encode C key \<noteq> signingKey then Inl NotCanonical
        else if length key < MIN_SIGNING_KEY_BYTES then Inl TooShort
        else Inr key)"

subsection \<open>Signing and verifying\<close>

record claims =
  cl_sub :: jstr
  cl_iat :: jsnum
  cl_exp :: jsnum
  cl_role :: "json option"

definition token_header :: json where
  "token_header = JObject [(js ''alg'', JString (js ''HS256'')), (js ''typ'', JString (js ''JWT''))]"

definition token_payload :: "jstr \<Rightarrow> int \<Rightarrow> int \<Rightarrow> jstr option \<Rightarrow> json" where
  "token_payload userId iat expS role =
     JObject ([(js ''sub'', JString userId), (js ''iat'', JNumber (Finite (of_int iat))),
               (js ''exp'', JNumber (Finite (of_int expS)))]
              @ (case role of None \<Rightarrow> [] | Some x \<Rightarrow> [(js ''role'', JString x)]))"

text \<open>The payload that \<open>sign\<close> builds at an instant.\<close>

definition signed_payload :: "int \<Rightarrow> jstr \<Rightarrow> jstr option \<Rightarrow> int option \<Rightarrow> json" where
  "signed_payload nowMs userId role ttlSeconds =
     (let iat = nowMs div 1000;
          ttl = (case ttlSeconds of None \<Rightarrow> ACCESS_TOKEN_TTL_SECONDS | Some s \<Rightarrow> s)
      in token_payload userId iat (iat + ttl) role)"

definition sign_token :: "codec \<Rightarrow> bytes \<Rightarrow> int \<Rightarrow> jstr \<Rightarrow> jstr option \<Rightarrow> int option \<Rightarrow> jstr" where
  "sign_token C key nowMs userId role ttlSeconds =
     (let signingInput = encode_json C token_header @ dot # encode_json C (signed_payload nowMs userId role ttlSeconds)
      in signingInput @ dot # encode_bytes C (mac C key signingInput))"

text \<open>\<open>claims.exp <= Math.floor(nowMs / 1000)\<close>\<close>

definition expired :: "jsnum \<Rightarrow> int \<Rightarrow> bool" where
  "expired e nowMs = (case e of Finite x \<Rightarrow> x \<le> of_int (nowMs div 1000) | NegInfinity \<Rightarrow> True | _ \<Rightarrow> False)"

definition read_claims :: "json \<Rightarrow> claims option" where
  "read_claims payload =
     (case (field payload ''sub'', field payload ''iat'', field payload ''exp'') of
        (Some (JString s), Some (JNumber i), Some (JNumber e)) \<Rightarrow>
          Some \<lparr>cl_sub = s, cl_iat = i, cl_exp = e, cl_role = field payload ''role''\<rparr>
      | _ \<Rightarrow> None)"

definition verify_token :: "codec \<Rightarrow> bytes \<Rightarrow> int \<Rightarrow> jstr \<Rightarrow> claims option" where
  "verify_token C key nowMs token =
     (case split_on [dot] token of
        [h, p, s] \<Rightarrow>
          if decode_bytes C s \<noteq> mac C key (h @ dot # p) then None
          else (case decode_json C p of
                  None \<Rightarrow> None
                | Some payload \<Rightarrow>
                    (case read_claims payload of
                       None \<Rightarrow> None
                     | Some c \<Rightarrow> if expired (cl_exp c) nowMs then None else Some c))
      | _ \<Rightarrow> None)"

subsection \<open>The guards\<close>

text \<open>\<open>app.authenticate\<close>: the user id that the request is stamped with, or 401.\<close>

definition authenticate :: "codec \<Rightarrow> bytes \<Rightarrow> int \<Rightarrow> jstr option \<Rightarrow> jstr option" where
  "authenticate C key nowMs header =
     (case bearer_credential header of
        None \<Rightarrow> None
      | Some token \<Rightarrow>
          (case verify_token C key nowMs token of
             None \<Rightarrow> None
           | Some c \<Rightarrow> if cl_role c \<noteq> None then None else Some (cl_sub c)))"

datatype upgrade = Unauthorized | Forbidden | Upgraded jstr jsnum

text \<open>The pre-validation of the upgrade to \<open>/v1/ws\<close>.\<close>

definition ws_upgrade :: "codec \<Rightarrow> bytes \<Rightarrow> int \<Rightarrow> jstr list \<Rightarrow> jstr option \<Rightarrow> jstr option \<Rightarrow> upgrade" where
  "ws_upgrade C key nowMs allowedOrigins header origin =
     (case (case bearer_credential header of None \<Rightarrow> None | Some token \<Rightarrow> verify_token C key nowMs token) of
        None \<Rightarrow> Unauthorized
      | Some c \<Rightarrow>
          (case origin of
             Some x \<Rightarrow> if x \<notin> set allowedOrigins then Forbidden else Upgraded (cl_sub c) (cl_exp c)
           | None \<Rightarrow> Upgraded (cl_sub c) (cl_exp c)))"

text \<open>The pre-validation of the upgrade to \<open>/v1/webui/ws\<close>.\<close>

definition webui_upgrade :: "codec \<Rightarrow> bytes \<Rightarrow> int \<Rightarrow> jstr list \<Rightarrow> jstr option \<Rightarrow> jstr option \<Rightarrow> upgrade" where
  "webui_upgrade C key nowMs allowedOrigins header origin =
     (case (case bearer_credential header of None \<Rightarrow> None | Some token \<Rightarrow> verify_token C key nowMs token) of
        None \<Rightarrow> Unauthorized
      | Some c \<Rightarrow>
          if cl_role c \<noteq> None then Unauthorized
          else (case origin of
             Some x \<Rightarrow> if x \<notin> set allowedOrigins then Forbidden else Upgraded (cl_sub c) (cl_exp c)
           | None \<Rightarrow> Upgraded (cl_sub c) (cl_exp c)))"

subsection \<open>Round trip\<close>

lemma split_at_dots:
  assumes "dot \<notin> set a"
  shows "split_from [dot] acc (a @ dot # b) = (rev acc @ a) # split_from [dot] [] b"
    and "split_from [dot] acc a = [rev acc @ a]"
  using assms by (induction a arbitrary: acc) auto

lemma split_token:
  "dot \<notin> set h \<Longrightarrow> dot \<notin> set p \<Longrightarrow> dot \<notin> set s \<Longrightarrow> split_on [dot] (h @ dot # p @ dot # s) = [h, p, s]"
  by (simp add: split_on_def split_at_dots)

lemma read_token_payload:
  "read_claims (token_payload u i e role) =
   Some \<lparr>cl_sub = u, cl_iat = Finite (of_int i), cl_exp = Finite (of_int e), cl_role = map_option JString role\<rparr>"
  by (simp add: read_claims_def token_payload_def field_def split: option.split)

lemma bearer_credential_bearer [simp]: "bearer_credential (Some (bearer @ t)) = Some t"
  by (simp add: bearer_credential_def)

lemma verify_sign:
  assumes "codec_ok C payloads" "signed_payload t u role ttl \<in> payloads"
  shows "verify_token C key t' (sign_token C key t u role ttl) =
         (let iat = t div 1000; e = iat + (case ttl of None \<Rightarrow> ACCESS_TOKEN_TTL_SECONDS | Some s \<Rightarrow> s) in
          if e \<le> t' div 1000 then None
          else Some \<lparr>cl_sub = u, cl_iat = Finite (of_int iat), cl_exp = Finite (of_int e), cl_role = map_option JString role\<rparr>)"
proof -
  have "decode_json C (encode_json C (signed_payload t u role ttl)) = Some (signed_payload t u role ttl)"
    using assms by (simp add: codec_ok_def)
  then show ?thesis
    using assms(1)
    by (simp add: verify_token_def sign_token_def Let_def split_token codec_ok_def)
       (simp add: signed_payload_def Let_def read_token_payload expired_def)
qed

text \<open>
  C24: A token that the gateway has signed passes the user guard with its subject until 900 seconds
  after its second of issue and never later; a token with a role, such as an operator's, never does,
  however long it lives. What the guard accepts carries the gateway's code over its first two parts.
\<close>

theorem user_guard:
  assumes "codec_ok C {signed_payload t u None None, signed_payload t u (Some role) ttl}"
  shows "authenticate C key t' (Some (bearer @ sign_token C key t u None None)) =
           (if t' div 1000 < t div 1000 + 900 then Some u else None) \<and>
         authenticate C key t' (Some (bearer @ sign_token C key t u (Some role) ttl)) = None \<and>
         (authenticate C key t' (Some (bearer @ tok)) = Some v \<longrightarrow>
            (\<exists>h p s. split_on [dot] tok = [h, p, s] \<and> decode_bytes C s = mac C key (h @ dot # p)))"
proof (intro conjI impI)
  show "authenticate C key t' (Some (bearer @ sign_token C key t u None None)) =
      (if t' div 1000 < t div 1000 + 900 then Some u else None)"
    by (simp add: authenticate_def verify_sign [OF assms] Let_def ACCESS_TOKEN_TTL_SECONDS_def)
  show "authenticate C key t' (Some (bearer @ sign_token C key t u (Some role) ttl)) = None"
    by (simp add: authenticate_def verify_sign [OF assms] Let_def)
  show "\<exists>h p s. split_on [dot] tok = [h, p, s] \<and> decode_bytes C s = mac C key (h @ dot # p)"
    if "authenticate C key t' (Some (bearer @ tok)) = Some v"
    using that by (auto simp: authenticate_def verify_token_def split: option.splits list.splits if_splits)
qed

text \<open>The witnesses sign with a codec of two payloads and a code that is the key itself.\<close>

definition sample_codec :: "json \<Rightarrow> json \<Rightarrow> codec" where
  "sample_codec a b =
     \<lparr>encode_json = (\<lambda>v. if v = a then [1] else [2]), decode_json = (\<lambda>x. if x = [1] then Some a else Some b),
      encode_bytes = map (\<lambda>w. ucast w + 256), decode_bytes = map ucast, mac = (\<lambda>key _. key),
      base64_decode = (\<lambda>_. []), base64_encode = (\<lambda>_. [])\<rparr>"

lemma widened_byte: "ucast (ucast w + 256 :: 16 word) = (w :: 8 word)" "ucast w + 256 \<noteq> (46 :: 16 word)"
proof -
  have w: "unat w < 256" using unsigned_less [of w, where 'a = nat] by simp
  have eq: "(ucast w + 256 :: 16 word) = word_of_nat (unat w + 256)" by (simp add: of_nat_unat)
  then have u: "unat (ucast w + 256 :: 16 word) = unat w + 256"
    using w by (simp only: unat_of_nat eq) (simp add: take_bit_nat_eq_self_iff)
  have "(ucast (ucast w + 256 :: 16 word) :: 8 word) = word_of_nat (unat (ucast w + 256 :: 16 word))"
    by (simp only: of_nat_unat)
  also have "\<dots> = w" unfolding u by (simp add: of_nat_unat)
  finally show "ucast (ucast w + 256 :: 16 word) = (w :: 8 word)" .
  show "ucast w + 256 \<noteq> (46 :: 16 word)"
  proof
    assume "ucast w + 256 = (46 :: 16 word)"
    with u have "unat w + 256 = unat (46 :: 16 word)" by simp
    then show False by simp
  qed
qed

lemma sample_codec_ok: "codec_ok (sample_codec a b) {a, b}"
  by (auto simp: codec_ok_def sample_codec_def dot_def widened_byte o_def)

lemma user_guard_witness:
  "authenticate (sample_codec (signed_payload 5000 (js ''alice'') None None)
       (signed_payload 5000 (js ''alice'') (Some ADMIN_TOKEN_ROLE) (Some 60)))
     [7] 900000 (Some (bearer @ sign_token (sample_codec (signed_payload 5000 (js ''alice'') None None)
       (signed_payload 5000 (js ''alice'') (Some ADMIN_TOKEN_ROLE) (Some 60))) [7] 5000 (js ''alice'') None None)) = Some (js ''alice'')"
  using user_guard [OF sample_codec_ok] by simp

text \<open>
  The upgrade to the realtime channel checks the token but not its role: an operator's token, which
  both the user guard and the upgrade of the web interface refuse, opens the channel under the
  operator's subject.
\<close>

theorem role_token_opens_realtime:
  assumes "codec_ok C {signed_payload t u (Some role) (Some ttl)}" "t' div 1000 < t div 1000 + ttl"
  shows "ws_upgrade C key t' origins (Some (bearer @ sign_token C key t u (Some role) (Some ttl))) None =
           Upgraded u (Finite (of_int (t div 1000 + ttl))) \<and>
         webui_upgrade C key t' origins (Some (bearer @ sign_token C key t u (Some role) (Some ttl))) None = Unauthorized"
  using assms(2) by (simp add: ws_upgrade_def webui_upgrade_def verify_sign [OF assms(1)] Let_def)

lemma role_token_opens_realtime_witness:
  "\<exists>C. ws_upgrade C [7] 6000 [] (Some (bearer @ sign_token C [7] 5000 (js ''admin'') (Some ADMIN_TOKEN_ROLE) (Some 60))) None =
     Upgraded (js ''admin'') (Finite 65)"
proof -
  let ?p = "signed_payload 5000 (js ''admin'') (Some ADMIN_TOKEN_ROLE) (Some 60)"
  have "codec_ok (sample_codec ?p ?p) {?p}" using sample_codec_ok [of ?p ?p] by simp
  from role_token_opens_realtime [OF this, of 6000 "[7]" "[]"] show ?thesis by auto
qed

end
