(* ===== verification/PushPayload.thy ===== *)
theory PushPayload
  imports Contracts JsonText
begin

section \<open>Push content within a size budget\<close>

text \<open>
  \<open>modules/fcm/payload.ts\<close>: the notification that Android shows for an event, together with the
  serialized event, compacted until the whole message fits the budget. \<open>node:path\<close> and the text of an
  event (\<open>JSON.stringify\<close>, whose property order is that of the received body) are given by
  \<open>push_runtime\<close>; the UTF-8 size of the message is computed.
\<close>

record push_runtime =
  event_text :: "notify_event \<Rightarrow> jstr"
  posix_basename :: "jstr \<Rightarrow> jstr"
  win32_basename :: "jstr \<Rightarrow> jstr"

definition FCM_MESSAGE_BUDGET_BYTES :: nat where "FCM_MESSAGE_BUDGET_BYTES = 3600"
definition FCM_HARD_LIMIT_BYTES :: nat where "FCM_HARD_LIMIT_BYTES = 4096"
definition CHANNEL_ALERTS :: jstr where "CHANNEL_ALERTS = js ''opencode_alerts''"
definition CHANNEL_SILENT :: jstr where "CHANNEL_SILENT = js ''opencode_silent''"

record push_content =
  push_title :: jstr
  push_body :: jstr
  dataEvent :: jstr

record compaction_caps =
  cap_text :: nat
  cap_section :: nat
  cap_title :: nat
  cap_body :: nat

definition INITIAL_CAPS :: compaction_caps where
  "INITIAL_CAPS = \<lparr>cap_text = 500, cap_section = 300, cap_title = 100, cap_body = 200\<rparr>"

text \<open>\<open>Buffer.byteLength(text, "utf8")\<close>; a lone surrogate is written as the replacement character.\<close>

definition point_bytes :: "jstr \<Rightarrow> nat" where
  "point_bytes p =
     (case p of
        [u] \<Rightarrow> if u < 0x80 then 1 else if u < 0x800 then 2 else 3
      | _ \<Rightarrow> 4)"

definition utf8Bytes :: "jstr \<Rightarrow> nat" where
  "utf8Bytes text = sum_list (map point_bytes (code_points text))"

definition truncate :: "jstr \<Rightarrow> nat \<Rightarrow> jstr" where
  "truncate text maxChars = concat (take maxChars (code_points text))"

definition measureMessage :: "jstr \<Rightarrow> jstr \<Rightarrow> jstr \<Rightarrow> nat" where
  "measureMessage title body event =
     utf8Bytes (js ''{\"notification\":{\"title\":'' @ quote_json title @ js '',\"body\":'' @ quote_json body
                @ js ''},\"data\":{\"event\":'' @ quote_json event @ js ''}}'')"

subsection \<open>Compaction\<close>

definition compact_option :: "compaction_caps \<Rightarrow> question_option \<Rightarrow> question_option" where
  "compact_option caps op = \<lparr>option_label = truncate (option_label op) (cap_text caps), option_description = None\<rparr>"

definition compact_question :: "compaction_caps \<Rightarrow> question_item \<Rightarrow> question_item" where
  "compact_question caps q =
     q\<lparr>question := truncate (question q) (cap_text caps),
       question_options := map_option (map (compact_option caps)) (question_options q)\<rparr>"

definition compact_action :: "compaction_caps \<Rightarrow> action_payload \<Rightarrow> action_payload" where
  "compact_action caps a =
     (case a of
        QuestionAction rid qs \<Rightarrow> QuestionAction rid (map (compact_question caps) qs)
      | PermissionAction rid p \<Rightarrow>
          PermissionAction rid (p\<lparr>permission_summary := truncate (permission_summary p) (cap_section caps)\<rparr>)
      | ProviderAction rid d \<Rightarrow> ProviderAction rid (d\<lparr>pa_message := truncate (pa_message d) (cap_section caps)\<rparr>))"

definition compactEvent :: "notify_event \<Rightarrow> compaction_caps \<Rightarrow> notify_event" where
  "compactEvent e caps =
     (case payload e of
        Terminal oc n _ \<Rightarrow> e\<lparr>payload := Terminal oc n None\<rparr>
      | ActionRequired a \<Rightarrow> e\<lparr>payload := ActionRequired (compact_action caps a)\<rparr>
      | _ \<Rightarrow> e)"

subsection \<open>Display texts\<close>

definition displayDirectory :: "push_runtime \<Rightarrow> notify_event \<Rightarrow> jstr" where
  "displayDirectory R e =
     (let dir = directory (event_source e);
          win = (0x5C \<in> set dir);
          label = (if win then win32_basename R dir else posix_basename R dir)
      in if 0 < length label \<and> label \<noteq> js ''.'' \<and> label \<noteq> (if win then [0x5C] else js ''/'') then label
         else js ''unknown'')"

definition displayMachine :: "notify_event \<Rightarrow> jstr" where
  "displayMachine e = (let m = trim (machine (event_source e)) in if 0 < length m then m else js ''unknown'')"

definition displaySession :: "notify_event \<Rightarrow> jstr" where
  "displaySession e =
     (let t = trim (session_title (event_session e)) in
      if 0 < length t \<and> t \<noteq> session_id (event_session e) then t
      else [0x672A, 0x547D, 0x540D, 0x4F1A, 0x8BDD])"

definition statusLabel :: "notify_event \<Rightarrow> jstr" where
  "statusLabel e =
     (case payload e of
        Terminal Completed _ _ \<Rightarrow> [0x4EFB, 0x52A1, 0x5DF2, 0x5B8C, 0x6210]
      | Terminal Failed _ _ \<Rightarrow> [0x4EFB, 0x52A1, 0x5931, 0x8D25]
      | Terminal Stopped _ _ \<Rightarrow> [0x4EFB, 0x52A1, 0x5DF2, 0x505C, 0x6B62]
      | ActionRequired (QuestionAction _ _) \<Rightarrow> [0x9700, 0x8981, 0x56DE, 0x7B54]
      | ActionRequired (PermissionAction _ _) \<Rightarrow> [0x9700, 0x8981, 0x6388, 0x6743]
      | ActionRequired (ProviderAction _ _) \<Rightarrow> [0x9700, 0x8981, 0x64CD, 0x4F5C]
      | Heartbeat _ _ \<Rightarrow> [0x4EFB, 0x52A1, 0x8FDB, 0x884C, 0x4E2D]
      | ActionResolved _ _ \<Rightarrow> [0x64CD, 0x4F5C, 0x5DF2, 0x5904, 0x7406])"

definition newline :: jstr where "newline = [10]"

definition question_lines :: "question_item \<Rightarrow> jstr list" where
  "question_lines q =
     question q # (case question_options q of
                     Some (op # ops) \<Rightarrow>
                       [[0x9009, 0x9879, 0xFF1A] @ join_with [0x3001] (map option_label (op # ops))]
                   | _ \<Rightarrow> [])"

definition questionBody :: "question_item list \<Rightarrow> jstr" where
  "questionBody qs =
     (let shown = take 3 qs;
          remaining = length qs - length shown
      in join_with newline
           (concat (map question_lines shown)
            @ (if 0 < remaining then [[0x8FD8, 0x6709, 0x20] @ decimal remaining @ [0x20, 0x4E2A, 0x95EE, 0x9898]] else [])))"

definition number_text :: "int \<Rightarrow> jstr" where
  "number_text n = (if n < 0 then 45 # decimal (nat (- n)) else decimal (nat n))"

definition middle_dot :: jstr where "middle_dot = [0x20, 0xB7, 0x20]"

definition describeEvent :: "push_runtime \<Rightarrow> notify_event \<Rightarrow> compaction_caps \<Rightarrow> jstr \<times> jstr" where
  "describeEvent R e caps =
     (let title = truncate (displayMachine e @ middle_dot @ displayDirectory R e @ middle_dot @ displaySession e
                            @ middle_dot @ statusLabel e) (cap_title caps)
      in case payload e of
           Terminal _ n summary \<Rightarrow>
             (let base = [0x7528, 0x65F6, 0x20] @ number_text n @ [0x20, 0x79D2] in
              (title, truncate (case summary of None \<Rightarrow> base | Some s \<Rightarrow> base @ newline @ s) (cap_body caps)))
         | ActionRequired (QuestionAction _ qs) \<Rightarrow> (title, truncate (questionBody qs) (cap_body caps))
         | ActionRequired (PermissionAction _ p) \<Rightarrow>
             (title, truncate ([0x8BF7, 0x6C42, 0x6743, 0x9650, 0xFF1A] @ permission p @ newline @ permission_summary p)
                       (cap_body caps))
         | ActionRequired (ProviderAction _ d) \<Rightarrow> (title, truncate (pa_message d) (cap_body caps))
         | _ \<Rightarrow> (js ''OpenCode'', []))"

subsection \<open>The loop\<close>

definition floor_caps :: "compaction_caps \<Rightarrow> bool" where
  "floor_caps caps \<longleftrightarrow> cap_text caps = 1 \<and> cap_section caps = 1 \<and> cap_title caps = 1 \<and> cap_body caps = 1"

definition halve_cap :: "nat \<Rightarrow> nat" where
  "halve_cap c = max 1 (c div 2)"

definition halve_caps :: "compaction_caps \<Rightarrow> compaction_caps" where
  "halve_caps caps =
     \<lparr>cap_text = halve_cap (cap_text caps), cap_section = halve_cap (cap_section caps),
      cap_title = halve_cap (cap_title caps), cap_body = halve_cap (cap_body caps)\<rparr>"

definition push_candidate :: "push_runtime \<Rightarrow> notify_event \<Rightarrow> compaction_caps \<Rightarrow> push_content" where
  "push_candidate R candidate caps =
     (let (title, body) = describeEvent R candidate caps
      in \<lparr>push_title = title, push_body = body, dataEvent = event_text R candidate\<rparr>)"

definition fits_budget :: "push_content \<Rightarrow> bool" where
  "fits_budget c \<longleftrightarrow> measureMessage (push_title c) (push_body c) (dataEvent c) \<le> FCM_MESSAGE_BUDGET_BYTES"

text \<open>Halving lowers every cap above one; a cap of zero, which the code never has, would rise to one.\<close>

definition cap_weight :: "nat \<Rightarrow> nat" where
  "cap_weight c = (if c = 0 then 2 else c)"

lemma cap_weight_halve: "cap_weight (halve_cap c) \<le> cap_weight c"
  "c \<noteq> 1 \<Longrightarrow> cap_weight (halve_cap c) < cap_weight c"
  by (auto simp: cap_weight_def halve_cap_def max_def)

definition caps_weight :: "compaction_caps \<Rightarrow> nat" where
  "caps_weight caps =
     cap_weight (cap_text caps) + cap_weight (cap_section caps) + cap_weight (cap_title caps) + cap_weight (cap_body caps)"

lemma caps_weight_halve:
  assumes "\<not> floor_caps caps"
  shows "caps_weight (halve_caps caps) < caps_weight caps"
proof -
  note le = cap_weight_halve(1) [of "cap_text caps"] cap_weight_halve(1) [of "cap_section caps"]
    cap_weight_halve(1) [of "cap_title caps"] cap_weight_halve(1) [of "cap_body caps"]
  note lt = cap_weight_halve(2) [of "cap_text caps"] cap_weight_halve(2) [of "cap_section caps"]
    cap_weight_halve(2) [of "cap_title caps"] cap_weight_halve(2) [of "cap_body caps"]
  have eq: "caps_weight (halve_caps caps) = cap_weight (halve_cap (cap_text caps)) + cap_weight (halve_cap (cap_section caps))
      + cap_weight (halve_cap (cap_title caps)) + cap_weight (halve_cap (cap_body caps))"
    by (simp add: caps_weight_def halve_caps_def)
  from assms consider "cap_text caps \<noteq> 1" | "cap_section caps \<noteq> 1" | "cap_title caps \<noteq> 1" | "cap_body caps \<noteq> 1"
    unfolding floor_caps_def by blast
  then have "caps_weight (halve_caps caps) < cap_weight (cap_text caps) + cap_weight (cap_section caps)
      + cap_weight (cap_title caps) + cap_weight (cap_body caps)"
  proof cases
    case 1
    with le lt(1) show ?thesis unfolding eq by linarith
  next
    case 2
    with le lt(2) show ?thesis unfolding eq by linarith
  next
    case 3
    with le lt(3) show ?thesis unfolding eq by linarith
  next
    case 4
    with le lt(4) show ?thesis unfolding eq by linarith
  qed
  then show ?thesis by (simp only: caps_weight_def)
qed

function compact_loop :: "push_runtime \<Rightarrow> notify_event \<Rightarrow> notify_event \<Rightarrow> compaction_caps \<Rightarrow> push_content option" where
  "compact_loop R event candidate caps =
     (let c = push_candidate R candidate caps in
      if fits_budget c then Some c
      else if floor_caps caps then None
      else compact_loop R event (compactEvent event (halve_caps caps)) (halve_caps caps))"
  by pat_completeness simp_all
termination
  by (relation "measure (\<lambda>(R, e, c, caps). caps_weight caps)") (auto simp: caps_weight_halve)

declare compact_loop.simps [simp del]

definition buildPushContent :: "push_runtime \<Rightarrow> notify_event \<Rightarrow> push_content option" where
  "buildPushContent R event = compact_loop R event event INITIAL_CAPS"


subsection \<open>What compaction keeps\<close>

lemma truncate_points: "code_points (truncate s n) = take n (code_points s)"
  by (simp add: truncate_def code_points_take)

lemma truncate_nonempty: "s \<noteq> [] \<Longrightarrow> 0 < n \<Longrightarrow> truncate s n \<noteq> []"
  using truncate_points [of s n] by (metis code_points_Nil_iff not_gr_zero take_eq_Nil2)

lemma truncate_maxLength: "maxLength m s \<Longrightarrow> maxLength m (truncate s n)"
  by (simp add: maxLength_def truncate_points)

definition positive_caps :: "compaction_caps \<Rightarrow> bool" where
  "positive_caps caps \<longleftrightarrow> 0 < cap_text caps \<and> 0 < cap_section caps \<and> 0 < cap_title caps \<and> 0 < cap_body caps"

text \<open>Identity fields: what the client matches an event by.\<close>

definition same_identity :: "notify_event \<Rightarrow> notify_event \<Rightarrow> bool" where
  "same_identity e e' \<longleftrightarrow>
     eventId e' = eventId e \<and> occurredAt e' = occurredAt e \<and> event_source e' = event_source e \<and>
     event_session e' = event_session e \<and>
     (case (payload e, payload e') of
        (Terminal oc n _, Terminal oc' n' _) \<Rightarrow> oc' = oc \<and> n' = n
      | (ActionRequired a, ActionRequired a') \<Rightarrow>
          action_request a' = action_request a \<and>
          (case (a, a') of
             (QuestionAction _ qs, QuestionAction _ qs') \<Rightarrow> length qs' = length qs
           | (PermissionAction _ p, PermissionAction _ p') \<Rightarrow> permission p' = permission p
           | (ProviderAction _ d, ProviderAction _ d') \<Rightarrow> pa_link d' = pa_link d \<and> pa_label d' = pa_label d
           | _ \<Rightarrow> False)
      | (x, x') \<Rightarrow> x' = x)"

lemma same_identity_refl: "same_identity e e"
  by (simp add: same_identity_def split: payload.split action_payload.split)

lemma compact_same_identity: "same_identity e (compactEvent e caps)"
  by (simp add: same_identity_def compactEvent_def compact_action_def split: payload.split action_payload.split)

lemma compact_option_valid: "questionOptionSchema op \<Longrightarrow> 0 < cap_text caps \<Longrightarrow> questionOptionSchema (compact_option caps op)"
  by (simp add: questionOptionSchema_def compact_option_def truncate_nonempty)

lemma compact_question_valid: "questionItemSchema q \<Longrightarrow> 0 < cap_text caps \<Longrightarrow> questionItemSchema (compact_question caps q)"
  by (auto simp: questionItemSchema_def compact_question_def truncate_nonempty truncate_maxLength list_all_iff
      compact_option_valid split: option.splits)

lemma compact_action_valid:
  assumes "actionRequiredPayloadSchema fs a" "positive_caps caps"
  shows "actionRequiredPayloadSchema fs (compact_action caps a)"
proof (cases a)
  case (QuestionAction rid qs)
  with assms show ?thesis
    by (auto simp: actionRequiredPayloadSchema_def compact_action_def positive_caps_def list_all_iff compact_question_valid)
next
  case (PermissionAction rid p)
  with assms show ?thesis
    by (auto simp: actionRequiredPayloadSchema_def compact_action_def positive_caps_def permissionSectionSchema_def
        truncate_nonempty truncate_maxLength)
next
  case (ProviderAction rid d)
  with assms show ?thesis
    by (auto simp: actionRequiredPayloadSchema_def compact_action_def positive_caps_def providerActionSectionSchema_def
        truncate_nonempty truncate_maxLength)
qed

lemma compact_valid:
  assumes "validateNotifyEvent fs e" "positive_caps caps"
  shows "validateNotifyEvent fs (compactEvent e caps)"
proof (cases "payload e")
  case (ActionRequired a)
  with assms compact_action_valid show ?thesis
    by (simp add: validateNotifyEvent_def compactEvent_def eventEnvelope_def)
next
  case (Terminal oc n s)
  with assms show ?thesis
    by (simp add: validateNotifyEvent_def compactEvent_def eventEnvelope_def terminalPayloadSchema_def)
qed (use assms in \<open>simp_all add: validateNotifyEvent_def compactEvent_def\<close>)

subsection \<open>Size bounds\<close>

text \<open>A message is small enough when its texts are short, whatever they contain.\<close>

lemma point_bytes_le: "p \<in> set (code_points s) \<Longrightarrow> point_bytes p \<le> 3 * length p"
  by (induction s rule: code_points.induct) (auto simp: point_bytes_def split: if_splits)

lemma utf8Bytes_le: "utf8Bytes s \<le> 3 * length s"
proof -
  have "sum_list (map point_bytes (code_points s)) \<le> sum_list (map (\<lambda>p. 3 * length p) (code_points s))"
    using point_bytes_le by (intro sum_list_mono) auto
  also have "\<dots> = 3 * length (concat (code_points s))" by (simp only: length_concat sum_list_const_mult)
  finally show ?thesis by (simp add: utf8Bytes_def)
qed

lemma length_escape_point: "p \<in> set (code_points s) \<Longrightarrow> length (escape_point p) \<le> 6 * length p"
  by (induction s rule: code_points.induct) (auto simp: escape_point_def escape_unit_def split: if_splits)

lemma length_quote_json: "length (quote_json s) \<le> 6 * length s + 2"
proof -
  have "sum_list (map (\<lambda>p. length (escape_point p)) (code_points s)) \<le> sum_list (map (\<lambda>p. 6 * length p) (code_points s))"
    using length_escape_point by (intro sum_list_mono) auto
  also have "\<dots> = 6 * length (concat (code_points s))" by (simp only: length_concat sum_list_const_mult)
  finally show ?thesis by (simp add: quote_json_def length_concat o_def)
qed

lemma length_truncate: "length (truncate s n) \<le> length s"
proof -
  have "length (concat (take n (code_points s))) \<le> length (concat (code_points s))"
    by (subst (2) append_take_drop_id [of n, symmetric]) (simp only: concat_append length_append le_add1)
  then show ?thesis by (simp add: truncate_def)
qed

lemma short_message_fits:
  assumes "length (push_title c) + length (push_body c) + length (dataEvent c) \<le> 150"
  shows "fits_budget c"
proof -
  let ?q = "length (quote_json (push_title c)) + length (quote_json (push_body c)) + length (quote_json (dataEvent c))"
  have "measureMessage (push_title c) (push_body c) (dataEvent c) \<le> 3 * (60 + ?q)"
    unfolding measureMessage_def by (rule order_trans [OF utf8Bytes_le]) (simp add: js_def)
  also have "?q \<le> 906"
    using length_quote_json [of "push_title c"] length_quote_json [of "push_body c"] length_quote_json [of "dataEvent c"] assms
    by linarith
  then have "3 * (60 + ?q) \<le> 3600" by simp
  finally have "measureMessage (push_title c) (push_body c) (dataEvent c) \<le> 3600" .
  then show ?thesis by (simp add: fits_budget_def FCM_MESSAGE_BUDGET_BYTES_def)
qed

lemma length_trim: "length (trim s) \<le> length s"
  unfolding trim_def by (metis length_dropWhile_le length_rev order_trans)

subsection \<open>The result of the loop\<close>

lemma halve_positive [simp]: "positive_caps (halve_caps caps)"
  by (simp add: halve_caps_def halve_cap_def positive_caps_def less_max_iff_disj)

definition floor_caps_value :: compaction_caps where
  "floor_caps_value = \<lparr>cap_text = 1, cap_section = 1, cap_title = 1, cap_body = 1\<rparr>"

text \<open>A candidate of the loop after its first pass.\<close>

definition compacted :: "notify_event \<Rightarrow> notify_event \<Rightarrow> compaction_caps \<Rightarrow> bool" where
  "compacted event candidate caps \<longleftrightarrow> positive_caps caps \<and> candidate = compactEvent event caps"

lemma compact_loop_Some:
  assumes "compact_loop R event candidate caps = Some c"
    and "candidate = event \<or> compacted event candidate caps"
  shows "fits_budget c \<and> (\<exists>e'. dataEvent c = event_text R e' \<and> (e' = event \<or> (\<exists>k. compacted event e' k)))"
  using assms
proof (induction R event candidate caps rule: compact_loop.induct)
  case (1 R event candidate caps)
  show ?case
  proof (cases "fits_budget (push_candidate R candidate caps)")
    case True
    with "1.prems"(1) have "c = push_candidate R candidate caps" by (simp add: compact_loop.simps Let_def)
    moreover have "dataEvent (push_candidate R candidate caps) = event_text R candidate"
      by (simp add: push_candidate_def Let_def split: prod.split)
    ultimately show ?thesis using True "1.prems"(2) by auto
  next
    case False
    with "1.prems"(1) have nf: "\<not> floor_caps caps"
      and l: "compact_loop R event (compactEvent event (halve_caps caps)) (halve_caps caps) = Some c"
      by (auto simp: compact_loop.simps [of R event candidate caps] Let_def split: if_splits)
    show ?thesis using "1.IH" [OF refl False nf l] by (simp add: compacted_def)
  qed
qed

lemma compact_loop_None:
  assumes "compact_loop R event candidate caps = None"
    and "floor_caps caps \<Longrightarrow> candidate = compactEvent event caps"
  shows "\<not> fits_budget (push_candidate R (compactEvent event floor_caps_value) floor_caps_value)"
  using assms
proof (induction R event candidate caps rule: compact_loop.induct)
  case (1 R event candidate caps)
  have nb: "\<not> fits_budget (push_candidate R candidate caps)"
    using "1.prems"(1) by (auto simp: compact_loop.simps [of R event candidate caps] Let_def)
  show ?case
  proof (cases "floor_caps caps")
    case True
    then have "caps = floor_caps_value" by (cases caps) (simp add: floor_caps_def floor_caps_value_def)
    with nb "1.prems"(2) [OF True] show ?thesis by simp
  next
    case False
    with nb "1.prems"(1) have "compact_loop R event (compactEvent event (halve_caps caps)) (halve_caps caps) = None"
      by (simp add: compact_loop.simps [of R event candidate caps] Let_def)
    from "1.IH" [OF refl nb False this] show ?thesis by simp
  qed
qed

text \<open>
  C28: Push content never exceeds the budget, which is below the hard limit of the service. Its data is
  the text of an event that is valid against the contract and has the identity of the given one, the
  given one itself when that fits. There is no content only if the event does not fit even with every
  display text cut to one character.
\<close>

theorem push_content_within_budget:
  assumes "validateNotifyEvent fs event"
  shows "case buildPushContent R event of
           Some c \<Rightarrow>
             measureMessage (push_title c) (push_body c) (dataEvent c) \<le> FCM_MESSAGE_BUDGET_BYTES \<and>
             FCM_MESSAGE_BUDGET_BYTES < FCM_HARD_LIMIT_BYTES \<and>
             (\<exists>e'. dataEvent c = event_text R e' \<and> validateNotifyEvent fs e' \<and> same_identity event e' \<and>
                   (fits_budget (push_candidate R event INITIAL_CAPS) \<longrightarrow> c = push_candidate R event INITIAL_CAPS))
         | None \<Rightarrow> \<not> fits_budget (push_candidate R (compactEvent event floor_caps_value) floor_caps_value)"
proof (cases "buildPushContent R event")
  case None
  have "\<not> floor_caps INITIAL_CAPS" by (simp add: floor_caps_def INITIAL_CAPS_def)
  with compact_loop_None [OF None [unfolded buildPushContent_def]] None show ?thesis by simp
next
  case (Some c)
  from compact_loop_Some [OF Some [unfolded buildPushContent_def]] obtain e' where
    fit: "fits_budget c" and e': "dataEvent c = event_text R e'" "e' = event \<or> (\<exists>k. compacted event e' k)" by auto
  have "validateNotifyEvent fs e' \<and> same_identity event e'"
    using e'(2) assms compact_valid compact_same_identity same_identity_refl by (auto simp: compacted_def)
  moreover have "fits_budget (push_candidate R event INITIAL_CAPS) \<Longrightarrow> c = push_candidate R event INITIAL_CAPS"
    using Some by (simp add: buildPushContent_def compact_loop.simps Let_def)
  ultimately show ?thesis
    using Some fit e'(1)
    by (auto simp: fits_budget_def FCM_MESSAGE_BUDGET_BYTES_def FCM_HARD_LIMIT_BYTES_def)
qed


definition sample_event :: notify_event where
  "sample_event =
     \<lparr>eventId = js ''e'', occurredAt = js ''t'',
      event_source = \<lparr>machine = js ''m'', project = js ''p'', directory = js ''/d''\<rparr>,
      event_session = \<lparr>session_id = js ''s'', session_title = []\<rparr>,
      payload = ActionRequired (PermissionAction (js ''r'') \<lparr>permission = js ''bash'', permission_summary = js ''ls''\<rparr>)\<rparr>"

definition sample_runtime :: push_runtime where
  "sample_runtime = \<lparr>event_text = (\<lambda>_. js ''{}''), posix_basename = (\<lambda>s. s), win32_basename = (\<lambda>s. s)\<rparr>"

lemma push_content_within_budget_witness:
  "case buildPushContent sample_runtime sample_event of
     Some c \<Rightarrow> measureMessage (push_title c) (push_body c) (dataEvent c) \<le> FCM_MESSAGE_BUDGET_BYTES
   | None \<Rightarrow> \<not> fits_budget (push_candidate sample_runtime (compactEvent sample_event floor_caps_value) floor_caps_value)"
proof -
  have "validateNotifyEvent \<lparr>is_uuid = (\<lambda>_. True), is_date_time = (\<lambda>_. True), is_uri = (\<lambda>_. True)\<rparr> sample_event"
    by (simp add: sample_event_def schema_defs maxLength_def)
  from push_content_within_budget [OF this, of sample_runtime] show ?thesis
    by (auto split: option.splits)
qed

lemma sample_content: "\<exists>c. buildPushContent sample_runtime sample_event = Some c"
proof -
  let ?c = "push_candidate sample_runtime sample_event INITIAL_CAPS"
  have m: "length (displayMachine sample_event) \<le> 7"
    using length_trim [of "js ''m''"] by (simp add: displayMachine_def sample_event_def Let_def js_def)
  have d: "length (displayDirectory sample_runtime sample_event) \<le> 7"
    by (simp add: displayDirectory_def sample_event_def sample_runtime_def Let_def js_def)
  have s: "length (displaySession sample_event) \<le> 7"
    by (simp add: displaySession_def sample_event_def Let_def js_def trim_def)
  have "length (push_title ?c) \<le> 60"
    using length_truncate [of "displayMachine sample_event @ middle_dot @ displayDirectory sample_runtime sample_event @ middle_dot
        @ displaySession sample_event @ middle_dot @ statusLabel sample_event" "cap_title INITIAL_CAPS"] m d s
    by (simp add: push_candidate_def describeEvent_def Let_def middle_dot_def statusLabel_def sample_event_def)
  moreover have "length (push_body ?c) \<le> 60"
    using length_truncate [of "[0x8BF7, 0x6C42, 0x6743, 0x9650, 0xFF1A] @ js ''bash'' @ newline @ js ''ls''" "cap_body INITIAL_CAPS"]
    by (simp add: push_candidate_def describeEvent_def Let_def sample_event_def newline_def js_def)
  moreover have "length (dataEvent ?c) \<le> 2"
    by (simp add: push_candidate_def Let_def sample_runtime_def js_def split: prod.split)
  ultimately have "fits_budget ?c" by (intro short_message_fits) linarith
  then show ?thesis by (simp add: buildPushContent_def compact_loop.simps Let_def)
qed

subsection \<open>The number of passes\<close>

text \<open>The loop with a bound on its passes; without a result when the bound is reached.\<close>

fun compact_fuel :: "nat \<Rightarrow> push_runtime \<Rightarrow> notify_event \<Rightarrow> notify_event \<Rightarrow> compaction_caps \<Rightarrow> push_content option option" where
  "compact_fuel 0 R event candidate caps = None"
| "compact_fuel (Suc n) R event candidate caps =
     (let c = push_candidate R candidate caps in
      if fits_budget c then Some (Some c)
      else if floor_caps caps then Some None
      else compact_fuel n R event (compactEvent event (halve_caps caps)) (halve_caps caps))"

lemma compact_fuel_loop:
  "floor_caps ((halve_caps ^^ n) caps) \<Longrightarrow>
   compact_fuel (Suc n) R event candidate caps = Some (compact_loop R event candidate caps)"
proof (induction n arbitrary: candidate caps)
  case 0
  then show ?case by (simp add: compact_loop.simps Let_def)
next
  case (Suc n)
  then have "floor_caps ((halve_caps ^^ n) (halve_caps caps))" by (simp add: funpow_swap1)
  from Suc.IH [OF this] show ?case
    by (subst compact_fuel.simps, subst compact_loop.simps) (simp only: Let_def if_distrib [of Some])
qed

text \<open>
  C29: The loop that compacts an event ends, after at most nine passes, whatever the event, its text
  and the sizes are: eight halvings bring every cap to one.
\<close>

theorem compaction_ends: "compact_fuel 9 R event event INITIAL_CAPS = Some (buildPushContent R event)"
proof -
  have eight: "8 = Suc (Suc (Suc (Suc (Suc (Suc (Suc (Suc 0)))))))" by simp
  have "(halve_caps ^^ 8) INITIAL_CAPS = floor_caps_value"
    unfolding eight by (simp add: halve_caps_def halve_cap_def INITIAL_CAPS_def floor_caps_value_def)
  then have "floor_caps ((halve_caps ^^ 8) INITIAL_CAPS)" by (simp add: floor_caps_def floor_caps_value_def)
  from compact_fuel_loop [OF this, of R event event] show ?thesis
    by (simp add: buildPushContent_def del: compact_fuel.simps)
qed

end
