(* ===== verification/PushDispatch.thy ===== *)
theory PushDispatch
  imports PushPayload
begin

section \<open>Devices and the push fan-out\<close>

text \<open>
  The device table with the statements of \<open>devices.repository.ts\<close>, the adapter of
  \<open>firebase-fcm-sender.ts\<close> and \<open>CompositeEventDispatcher\<close> of \<open>dispatcher.ts\<close>. A dispatch is cut at its
  awaits: the realtime fan-out and the content (\<open>dispatch_begin\<close>), the target lookup with the sends
  (\<open>dispatch_sends\<close>), and the settlement of each send (\<open>settle_send\<close>), between which any statement of
  another request may run. What the push service answers is an input.
\<close>

subsection \<open>Devices\<close>

datatype device_platform = Windows | Linux | Android

record device_row =
  dv_id :: jstr
  dv_userId :: jstr
  dv_name :: jstr
  dv_platform :: device_platform
  dv_fcmToken :: "jstr option"
  dv_enabled :: bool
  dv_soundEnabled :: bool
  dv_createdAt :: int

text \<open>An absent field of a patch is \<open>None\<close>; the token may be set to null.\<close>

record device_patch =
  dp_name :: "jstr option"
  dp_enabled :: "bool option"
  dp_soundEnabled :: "bool option"
  dp_fcmToken :: "jstr option option"

record push_target =
  pt_id :: jstr
  pt_fcmToken :: jstr
  pt_soundEnabled :: bool

definition list_devices :: "jstr \<Rightarrow> device_row list \<Rightarrow> device_row list" where
  "list_devices userId db = sort_key dv_createdAt (filter (\<lambda>d. dv_userId d = userId) db)"

definition create_device :: "device_row \<Rightarrow> device_row list \<Rightarrow> device_row list \<times> device_row" where
  "create_device d db = (db @ [d], d)"

definition apply_patch :: "device_patch \<Rightarrow> device_row \<Rightarrow> device_row" where
  "apply_patch p d =
     d\<lparr>dv_name := (case dp_name p of None \<Rightarrow> dv_name d | Some x \<Rightarrow> x),
       dv_enabled := (case dp_enabled p of None \<Rightarrow> dv_enabled d | Some x \<Rightarrow> x),
       dv_soundEnabled := (case dp_soundEnabled p of None \<Rightarrow> dv_soundEnabled d | Some x \<Rightarrow> x),
       dv_fcmToken := (case dp_fcmToken p of None \<Rightarrow> dv_fcmToken d | Some x \<Rightarrow> x)\<rparr>"

definition owned_device :: "jstr \<Rightarrow> jstr \<Rightarrow> device_row \<Rightarrow> bool" where
  "owned_device userId i d \<longleftrightarrow> dv_id d = i \<and> dv_userId d = userId"

definition update_device :: "jstr \<Rightarrow> jstr \<Rightarrow> device_patch \<Rightarrow> device_row list \<Rightarrow> device_row list \<times> device_row option" where
  "update_device userId i p db =
     (map (\<lambda>d. if owned_device userId i d then apply_patch p d else d) db,
      map_option (apply_patch p) (find (owned_device userId i) db))"

definition delete_device :: "jstr \<Rightarrow> jstr \<Rightarrow> device_row list \<Rightarrow> device_row list \<times> bool" where
  "delete_device userId i db = (filter (\<lambda>d. \<not> owned_device userId i d) db, list_ex (owned_device userId i) db)"

definition listAndroidPushTargets :: "jstr \<Rightarrow> device_row list \<Rightarrow> push_target list" where
  "listAndroidPushTargets userId db =
     concat (map (\<lambda>d. case dv_fcmToken d of
                        Some tok \<Rightarrow> if dv_userId d = userId \<and> dv_platform d = Android \<and> dv_enabled d
                                    then [\<lparr>pt_id = dv_id d, pt_fcmToken = tok, pt_soundEnabled = dv_soundEnabled d\<rparr>] else []
                      | None \<Rightarrow> []) db)"

subsection \<open>The push service\<close>

record fcm_push =
  fp_token :: jstr
  fp_title :: jstr
  fp_body :: jstr
  fp_channelId :: jstr
  fp_dataEvent :: jstr

text \<open>How the call of the service ends, with the code of the error when it has one that is a string.\<close>

datatype service_answer = Accepts | Refuses "jstr option" | Never

datatype send_result = Sent | InvalidToken jstr | SendFailed "jstr option"

definition INVALID_TOKEN_CODES :: "jstr list" where
  "INVALID_TOKEN_CODES = [js ''messaging/invalid-registration-token'', js ''messaging/registration-token-not-registered'']"

definition FCM_SEND_TIMEOUT_MS :: int where "FCM_SEND_TIMEOUT_MS = 5000"

definition timeout_code :: jstr where "timeout_code = js ''notify/fcm-send-timeout''"

text \<open>
  The adapter's classification inside the race with the timeout. An answer that does not come in time
  is ignored.
\<close>

definition raced_send :: "service_answer \<Rightarrow> send_result" where
  "raced_send a =
     (case a of
        Accepts \<Rightarrow> Sent
      | Refuses (Some code) \<Rightarrow> if code \<in> set INVALID_TOKEN_CODES then InvalidToken code else SendFailed (Some code)
      | Refuses None \<Rightarrow> SendFailed None
      | Never \<Rightarrow> SendFailed (Some timeout_code))"

subsection \<open>The dispatcher\<close>

datatype log_line =
    TooLarge jstr jstr
  | TokenCleared jstr jstr jstr jstr
  | ClearFailed jstr jstr jstr "jstr option"
  | PushFailed jstr jstr jstr "jstr option"

datatype dispatch_effect = Realtime jstr notify_event | Push jstr fcm_push | Log log_line

text \<open>Up to the lookup: the effects and the content to push, if any.\<close>

definition dispatch_begin :: "push_runtime \<Rightarrow> jstr \<Rightarrow> notify_event \<Rightarrow> dispatch_effect list \<times> push_content option" where
  "dispatch_begin R userId event =
     (if event_type event \<noteq> ActionRequiredType \<and> event_type event \<noteq> TerminalType
      then ([Realtime userId event], None)
      else case buildPushContent R event of
             None \<Rightarrow> ([Realtime userId event, Log (TooLarge userId (eventId event))], None)
           | Some content \<Rightarrow> ([Realtime userId event], Some content))"

definition push_for :: "push_content \<Rightarrow> push_target \<Rightarrow> fcm_push" where
  "push_for content t =
     \<lparr>fp_token = pt_fcmToken t, fp_title = push_title content, fp_body = push_body content,
      fp_channelId = (if pt_soundEnabled t then CHANNEL_ALERTS else CHANNEL_SILENT),
      fp_dataEvent = dataEvent content\<rparr>"

text \<open>The lookup may throw, which is the only rejection of a dispatch.\<close>

definition dispatch_sends ::
    "jstr \<Rightarrow> push_content \<Rightarrow> device_row list option \<Rightarrow> (unit + push_target list) \<times> dispatch_effect list" where
  "dispatch_sends userId content store =
     (case store of
        None \<Rightarrow> (Inl (), [])
      | Some db \<Rightarrow> let ts = listAndroidPushTargets userId db
                    in (Inr ts, map (\<lambda>t. Push (pt_id t) (push_for content t)) ts))"

definition clear_token :: device_patch where
  "clear_token = \<lparr>dp_name = None, dp_enabled = None, dp_soundEnabled = None, dp_fcmToken = Some None\<rparr>"

text \<open>
  The rest of \<open>sendToTarget\<close> when the send has ended; \<open>storeError\<close> is what the clearing statement
  throws, if it does.
\<close>

definition settle_send ::
    "jstr \<Rightarrow> jstr \<Rightarrow> push_target \<Rightarrow> service_answer \<Rightarrow> jstr option option \<Rightarrow> device_row list
     \<Rightarrow> device_row list \<times> dispatch_effect list" where
  "settle_send userId evId t answer storeError db =
     (case raced_send answer of
        Sent \<Rightarrow> (db, [])
      | SendFailed code \<Rightarrow> (db, [Log (PushFailed userId (pt_id t) evId code)])
      | InvalidToken code \<Rightarrow>
          (case storeError of
             None \<Rightarrow> (fst (update_device userId (pt_id t) clear_token db), [Log (TokenCleared userId (pt_id t) evId code)])
           | Some c \<Rightarrow> (db, [Log (TokenCleared userId (pt_id t) evId code), Log (ClearFailed userId (pt_id t) evId c)])))"

text \<open>All sends of a dispatch, settled in the order of the list.\<close>

definition settle_all ::
    "jstr \<Rightarrow> jstr \<Rightarrow> (push_target \<times> service_answer) list \<Rightarrow> device_row list \<Rightarrow> device_row list" where
  "settle_all userId evId ans db = fold (\<lambda>(t, a) d. fst (settle_send userId evId t a None d)) ans db"

subsection \<open>Who is pushed to\<close>

lemma targets_iff:
  "t \<in> set (listAndroidPushTargets userId db) \<longleftrightarrow>
   (\<exists>d \<in> set db. dv_id d = pt_id t \<and> dv_userId d = userId \<and> dv_platform d = Android \<and> dv_enabled d \<and>
                 dv_fcmToken d = Some (pt_fcmToken t) \<and> dv_soundEnabled d = pt_soundEnabled t)"
  by (cases t) (auto simp: listAndroidPushTargets_def split: option.splits if_splits; force)

text \<open>
  C30: A push of a dispatch goes to an enabled Android device of the event's account under the token that
  the device has at the lookup, in the channel that the device's sound preference names, with the
  content built for the event; every such device gets one, and other devices get none. Nothing is
  pushed for heartbeats and resolved actions.
\<close>

theorem push_reaches_owner_devices:
  assumes "dispatch_begin R userId event = (es, Some content)"
    and "dispatch_sends userId content (Some db) = (Inr ts, ps)"
  shows "es = [Realtime userId event] \<and> event_type event \<in> {ActionRequiredType, TerminalType} \<and>
         buildPushContent R event = Some content \<and>
         set ps = {Push (dv_id d) \<lparr>fp_token = tok, fp_title = push_title content, fp_body = push_body content,
                      fp_channelId = (if dv_soundEnabled d then CHANNEL_ALERTS else CHANNEL_SILENT),
                      fp_dataEvent = dataEvent content\<rparr> | d tok.
                   d \<in> set db \<and> dv_userId d = userId \<and> dv_platform d = Android \<and> dv_enabled d \<and> dv_fcmToken d = Some tok} \<and>
         length ps = length (filter (\<lambda>d. dv_userId d = userId \<and> dv_platform d = Android \<and> dv_enabled d \<and> dv_fcmToken d \<noteq> None) db)"
proof -
  have b: "es = [Realtime userId event] \<and> event_type event \<in> {ActionRequiredType, TerminalType} \<and>
      buildPushContent R event = Some content"
    using assms(1) by (auto simp: dispatch_begin_def split: if_splits option.splits)
  have ps: "ps = map (\<lambda>t. Push (pt_id t) (push_for content t)) (listAndroidPushTargets userId db)"
    using assms(2) by (auto simp: dispatch_sends_def Let_def)
  have "set ps = {Push (dv_id d) \<lparr>fp_token = tok, fp_title = push_title content, fp_body = push_body content,
                      fp_channelId = (if dv_soundEnabled d then CHANNEL_ALERTS else CHANNEL_SILENT),
                      fp_dataEvent = dataEvent content\<rparr> | d tok.
                   d \<in> set db \<and> dv_userId d = userId \<and> dv_platform d = Android \<and> dv_enabled d \<and> dv_fcmToken d = Some tok}"
    unfolding ps by (auto simp: push_for_def listAndroidPushTargets_def split: option.splits if_splits; force)
  moreover have "length (listAndroidPushTargets userId db) =
      length (filter (\<lambda>d. dv_userId d = userId \<and> dv_platform d = Android \<and> dv_enabled d \<and> dv_fcmToken d \<noteq> None) db)"
    by (induction db) (auto simp: listAndroidPushTargets_def split: option.splits)
  ultimately show ?thesis using b ps by simp
qed

subsection \<open>Settling the sends\<close>

text \<open>The ids whose token the push service has called invalid.\<close>

definition invalid_ids :: "(push_target \<times> service_answer) list \<Rightarrow> jstr set" where
  "invalid_ids ans = {pt_id t | t a. (t, a) \<in> set ans \<and> (\<exists>code. raced_send a = InvalidToken code)}"

lemma settle_send_db:
  "fst (settle_send userId evId t a None db) =
   map (\<lambda>d. if dv_userId d = userId \<and> dv_id d \<in> invalid_ids [(t, a)] then d\<lparr>dv_fcmToken := None\<rparr> else d) db"
  by (auto simp: settle_send_def update_device_def owned_device_def apply_patch_def clear_token_def invalid_ids_def
      split: send_result.splits intro!: map_idI)

text \<open>
  Whatever the push service answers and in whatever order the sends of a dispatch settle, the device
  table ends as it was except that exactly the account's devices with an invalid token have none; no
  other device and no other field changes.
\<close>

theorem settlement_order_irrelevant:
  "settle_all userId evId ans db =
   map (\<lambda>d. if dv_userId d = userId \<and> dv_id d \<in> invalid_ids ans then d\<lparr>dv_fcmToken := None\<rparr> else d) db"
proof (induction ans arbitrary: db)
  case Nil
  then show ?case by (simp add: settle_all_def invalid_ids_def)
next
  case (Cons x ans)
  obtain t a where x: "x = (t, a)" by force
  have ids: "invalid_ids (x # ans) = invalid_ids [(t, a)] \<union> invalid_ids ans"
    by (auto simp: invalid_ids_def x)
  have "settle_all userId evId (x # ans) db = settle_all userId evId ans (fst (settle_send userId evId t a None db))"
    by (simp add: settle_all_def x)
  also have "\<dots> = map ((\<lambda>d. if dv_userId d = userId \<and> dv_id d \<in> invalid_ids ans then d\<lparr>dv_fcmToken := None\<rparr> else d) \<circ>
      (\<lambda>d. if dv_userId d = userId \<and> dv_id d \<in> invalid_ids [(t, a)] then d\<lparr>dv_fcmToken := None\<rparr> else d)) db"
    by (simp only: Cons.IH settle_send_db map_map)
  also have "\<dots> = map (\<lambda>d. if dv_userId d = userId \<and> dv_id d \<in> invalid_ids (x # ans) then d\<lparr>dv_fcmToken := None\<rparr> else d) db"
    unfolding ids by (rule map_cong [OF refl]) auto
  finally show ?case .
qed

text \<open>
  A send that the push service refuses for an invalid token clears the device's token even when the
  device has registered a new one since the lookup: the statement names the device but not the token
  that was refused, so the device drops out of the push targets until it registers again.
\<close>

theorem late_refusal_clears_new_token:
  assumes "d \<in> set db" "dv_id d = pt_id t" "dv_userId d = userId"
    and "raced_send answer = InvalidToken code"
    and "db' = fst (update_device userId (pt_id t) (clear_token\<lparr>dp_fcmToken := Some (Some fresh)\<rparr>) db)"
  shows "(\<exists>d' \<in> set db'. owned_device userId (pt_id t) d' \<and> dv_fcmToken d' = Some fresh) \<and>
         (\<forall>t' \<in> set (listAndroidPushTargets userId (fst (settle_send userId evId t answer None db'))). pt_id t' \<noteq> pt_id t)"
proof -
  have "apply_patch (clear_token\<lparr>dp_fcmToken := Some (Some fresh)\<rparr>) d \<in> set db'"
    using assms(1-3,5) by (force simp: update_device_def owned_device_def)
  moreover have "owned_device userId (pt_id t) (apply_patch (clear_token\<lparr>dp_fcmToken := Some (Some fresh)\<rparr>) d)"
    "dv_fcmToken (apply_patch (clear_token\<lparr>dp_fcmToken := Some (Some fresh)\<rparr>) d) = Some fresh"
    using assms(2,3) by (simp_all add: owned_device_def apply_patch_def clear_token_def)
  ultimately have new: "\<exists>d' \<in> set db'. owned_device userId (pt_id t) d' \<and> dv_fcmToken d' = Some fresh" by blast
  have inv: "pt_id t \<in> invalid_ids [(t, answer)]" using assms(4) by (auto simp: invalid_ids_def)
  have "pt_id t' \<noteq> pt_id t"
    if "t' \<in> set (listAndroidPushTargets userId (fst (settle_send userId evId t answer None db')))" for t'
  proof
    assume eq: "pt_id t' = pt_id t"
    let ?f = "\<lambda>d. if dv_userId d = userId \<and> dv_id d \<in> invalid_ids [(t, answer)] then d\<lparr>dv_fcmToken := None\<rparr> else d"
    from that obtain d1 where d1: "d1 \<in> set (map ?f db')" "dv_id d1 = pt_id t'" "dv_userId d1 = userId"
      "dv_fcmToken d1 = Some (pt_fcmToken t')"
      unfolding settle_send_db targets_iff by blast
    from d1(1) obtain d0 where "d1 = ?f d0" unfolding set_map by (rule imageE)
    with d1(2-4) inv eq show False by (auto split: if_splits)
  qed
  with new show ?thesis by blast
qed


subsection \<open>Witnesses\<close>

definition sample_device :: device_row where
  "sample_device =
     \<lparr>dv_id = js ''d'', dv_userId = js ''u'', dv_name = js ''phone'', dv_platform = Android, dv_fcmToken = Some (js ''old''),
      dv_enabled = True, dv_soundEnabled = False, dv_createdAt = 0\<rparr>"

definition sample_target :: push_target where
  "sample_target = \<lparr>pt_id = js ''d'', pt_fcmToken = js ''old'', pt_soundEnabled = False\<rparr>"

lemma late_refusal_clears_new_token_witness:
  "let db' = fst (update_device (js ''u'') (js ''d'') (clear_token\<lparr>dp_fcmToken := Some (Some (js ''new''))\<rparr>) [sample_device]) in
   \<forall>t' \<in> set (listAndroidPushTargets (js ''u'') (fst (settle_send (js ''u'') (js ''e'') sample_target
       (Refuses (Some (js ''messaging/registration-token-not-registered''))) None db'))). pt_id t' \<noteq> js ''d''"
  using late_refusal_clears_new_token [of sample_device "[sample_device]" sample_target "js ''u''"
      "Refuses (Some (js ''messaging/registration-token-not-registered''))" _ _ "js ''new''" "js ''e''"]
  by (simp add: sample_device_def sample_target_def raced_send_def INVALID_TOKEN_CODES_def Let_def)

lemma push_reaches_owner_devices_witness:
  "\<exists>c p. dispatch_begin sample_runtime (js ''u'') sample_event = ([Realtime (js ''u'') sample_event], Some c) \<and>
     dispatch_sends (js ''u'') c (Some [sample_device]) = (Inr [sample_target], [Push (js ''d'') p]) \<and>
     fp_token p = js ''old'' \<and> fp_channelId p = CHANNEL_SILENT"
proof -
  obtain c where c: "buildPushContent sample_runtime sample_event = Some c" using sample_content by blast
  then have b: "dispatch_begin sample_runtime (js ''u'') sample_event = ([Realtime (js ''u'') sample_event], Some c)"
    by (simp add: dispatch_begin_def payload_type_def sample_event_def)
  have eq: "dispatch_sends (js ''u'') c (Some [sample_device]) = (Inr [sample_target], [Push (js ''d'') (push_for c sample_target)])"
    by (simp add: dispatch_sends_def Let_def listAndroidPushTargets_def sample_device_def sample_target_def)
  from push_reaches_owner_devices [OF b eq] b eq show ?thesis by (auto simp: sample_device_def)
qed

end
