(* ===== verification/Isolation.thy ===== *)
theory Isolation
  imports Main
begin

section \<open>Actions that belong to an owner\<close>

text \<open>
  The contract that the multi-tenant stores of the gateway share (the realtime registry and the device
  table): every operation is made in the name of one account. The locale derives that accounts cannot
  observe each other, for any interleaving.
\<close>

text \<open>
  A system whose actions each belong to one owner: an action sees and changes only the owner's part,
  and what it does to the outside is done in the owner's name. Then every owner's history is the one
  that its own actions alone would give.
\<close>

locale owned_actions =
  fixes part :: "'s \<Rightarrow> 'u \<Rightarrow> 'v"
    and act :: "'u \<Rightarrow> 'a \<Rightarrow> 's \<Rightarrow> 's \<times> 'e list"
    and owner :: "'e \<Rightarrow> 'u"
  assumes others_kept: "v \<noteq> u \<Longrightarrow> part (fst (act u a s)) v = part s v"
    and own_name: "e \<in> set (snd (act u a s)) \<Longrightarrow> owner e = u"
    and part_local: "part s u = part t u \<Longrightarrow>
          part (fst (act u a s)) u = part (fst (act u a t)) u \<and> snd (act u a s) = snd (act u a t)"
begin

fun run :: "('u \<times> 'a) list \<Rightarrow> 's \<Rightarrow> 's \<times> 'e list" where
  "run [] s = (s, [])"
| "run ((u, a) # as) s = (let (s1, es1) = act u a s; (s2, es2) = run as s1 in (s2, es1 @ es2))"

lemma run_Cons:
  "fst (run ((u, a) # as) s) = fst (run as (fst (act u a s)))"
  "snd (run ((u, a) # as) s) = snd (act u a s) @ snd (run as (fst (act u a s)))"
  by (simp_all split: prod.split)

declare run.simps(2) [simp del]

lemma run_alone:
  "part s v = part t v \<Longrightarrow>
   part (fst (run as s)) v = part (fst (run (filter (\<lambda>(u, _). u = v) as) t)) v \<and>
   filter (\<lambda>e. owner e = v) (snd (run as s)) = snd (run (filter (\<lambda>(u, _). u = v) as) t)"
proof (induction as arbitrary: s t)
  case (Cons x as)
  obtain u a where x: "x = (u, a)" by force
  show ?case
  proof (cases "u = v")
    case True
    from part_local [OF Cons.prems, of a]
    have eq: "part (fst (act v a s)) v = part (fst (act v a t)) v" "snd (act v a s) = snd (act v a t)" by auto
    have mine: "filter (\<lambda>e. owner e = v) (snd (act v a s)) = snd (act v a s)"
      using own_name [of _ v a s] by (simp add: filter_id_conv)
    from Cons.IH [OF eq(1)] eq(2) mine show ?thesis by (simp add: x True run_Cons)
  next
    case False
    have none: "filter (\<lambda>e. owner e = v) (snd (act u a s)) = []"
      using own_name [of _ u a s] False by (auto simp: filter_empty_conv)
    have "part (fst (act u a s)) v = part t v" using others_kept [of v u a s] False Cons.prems by simp
    from Cons.IH [OF this] none False show ?thesis by (simp add: x run_Cons)
  qed
qed simp

end

end
