(* ===== verification/DeviceRoutes.thy ===== *)
theory DeviceRoutes
  imports PushDispatch Isolation
begin

section \<open>The device routes\<close>

text \<open>
  \<open>devices.routes.ts\<close> over the table of \<open>PushDispatch\<close>. A handler runs with the account of the access
  token; the body is checked against the contract before it. The row id and the time of an insertion
  come from the database, as arguments; statements do not fail here.
\<close>

record register_body =
  rb_name :: jstr
  rb_platform :: device_platform
  rb_fcmToken :: "jstr option"
  rb_enabled :: "bool option"
  rb_soundEnabled :: "bool option"

text \<open>The fields a patch of a client may hold; unlike the dispatcher's, its token is never null.\<close>

record patch_body =
  pb_name :: "jstr option"
  pb_enabled :: "bool option"
  pb_soundEnabled :: "bool option"
  pb_fcmToken :: "jstr option"

definition deviceName :: "jstr \<Rightarrow> bool" where
  "deviceName s \<longleftrightarrow> minLength 1 s \<and> maxLength 64 s"

definition fcmToken :: "jstr \<Rightarrow> bool" where
  "fcmToken s \<longleftrightarrow> minLength 1 s \<and> maxLength 4096 s"

definition registerDeviceBodySchema :: "register_body \<Rightarrow> bool" where
  "registerDeviceBodySchema b \<longleftrightarrow> deviceName (rb_name b) \<and> pred_option fcmToken (rb_fcmToken b)"

definition patchDeviceBodySchema :: "patch_body \<Rightarrow> bool" where
  "patchDeviceBodySchema b \<longleftrightarrow>
     (pb_name b \<noteq> None \<or> pb_enabled b \<noteq> None \<or> pb_soundEnabled b \<noteq> None \<or> pb_fcmToken b \<noteq> None) \<and>
     pred_option deviceName (pb_name b) \<and> pred_option fcmToken (pb_fcmToken b)"

record device =
  device_id :: jstr
  device_name :: jstr
  device_platform :: device_platform
  device_enabled :: bool
  device_soundEnabled :: bool
  device_fcmToken :: "jstr option"

definition toResponse :: "device_row \<Rightarrow> device" where
  "toResponse d =
     \<lparr>device_id = dv_id d, device_name = dv_name d, device_platform = dv_platform d, device_enabled = dv_enabled d,
      device_soundEnabled = dv_soundEnabled d, device_fcmToken = dv_fcmToken d\<rparr>"

definition deviceSchema :: "device \<Rightarrow> bool" where
  "deviceSchema d \<longleftrightarrow> minLength 1 (device_id d) \<and> deviceName (device_name d) \<and> pred_option fcmToken (device_fcmToken d)"

definition hex_unit :: "16 word \<Rightarrow> bool" where
  "hex_unit u \<longleftrightarrow> 48 \<le> u \<and> u \<le> 57 \<or> 97 \<le> u \<and> u \<le> 102 \<or> 65 \<le> u \<and> u \<le> 70"

text \<open>Five groups of hexadecimal digits, of 8, 4, 4, 4 and 12.\<close>

definition UUID_PATTERN :: "jstr \<Rightarrow> bool" where
  "UUID_PATTERN s \<longleftrightarrow>
     (let groups = split_on [45] s in map length groups = [8, 4, 4, 4, 12] \<and> list_all (list_all hex_unit) groups)"

datatype device_request =
    ListDevices
  | RegisterDevice register_body jstr int  \<comment> \<open>with the id and the time of the new row\<close>
  | PatchDevice jstr patch_body
  | DeleteDevice jstr

datatype device_reply =
    Devices "device list"
  | Registered device
  | Patched device
  | Deleted
  | NotFound
  | ValidationFailed

definition client_patch :: "patch_body \<Rightarrow> device_patch" where
  "client_patch b = \<lparr>dp_name = pb_name b, dp_enabled = pb_enabled b, dp_soundEnabled = pb_soundEnabled b,
     dp_fcmToken = map_option Some (pb_fcmToken b)\<rparr>"

definition default_true :: "bool option \<Rightarrow> bool" where
  "default_true x = (case x of None \<Rightarrow> True | Some b \<Rightarrow> b)"

definition handle_device :: "jstr \<Rightarrow> device_request \<Rightarrow> device_row list \<Rightarrow> device_row list \<times> device_reply" where
  "handle_device userId r db =
     (case r of
        ListDevices \<Rightarrow> (db, Devices (map toResponse (list_devices userId db)))
      | RegisterDevice b rowId now \<Rightarrow>
          if \<not> registerDeviceBodySchema b then (db, ValidationFailed)
          else (case create_device \<lparr>dv_id = rowId, dv_userId = userId, dv_name = rb_name b, dv_platform = rb_platform b,
                      dv_fcmToken = rb_fcmToken b, dv_enabled = default_true (rb_enabled b),
                      dv_soundEnabled = default_true (rb_soundEnabled b), dv_createdAt = now\<rparr> db of
                  (db', d) \<Rightarrow> (db', Registered (toResponse d)))
      | PatchDevice i b \<Rightarrow>
          if \<not> patchDeviceBodySchema b then (db, ValidationFailed)
          else if \<not> UUID_PATTERN i then (db, NotFound)
          else (case update_device userId i (client_patch b) db of
                  (db', None) \<Rightarrow> (db', NotFound)
                | (db', Some d) \<Rightarrow> (db', Patched (toResponse d)))
      | DeleteDevice i \<Rightarrow>
          if \<not> UUID_PATTERN i then (db, NotFound)
          else (case delete_device userId i db of
                  (db', True) \<Rightarrow> (db', Deleted)
                | (db', False) \<Rightarrow> (db', NotFound)))"

subsection \<open>An account's devices\<close>

definition devices_of :: "device_row list \<Rightarrow> jstr \<Rightarrow> device_row list" where
  "devices_of db userId = filter (\<lambda>d. dv_userId d = userId) db"

text \<open>A request with its answer in the name of the account.\<close>

definition device_act :: "jstr \<Rightarrow> device_request \<Rightarrow> device_row list \<Rightarrow> device_row list \<times> (jstr \<times> device_reply) list" where
  "device_act userId r db = (case handle_device userId r db of (db', a) \<Rightarrow> (db', [(userId, a)]))"

lemma devices_of_create: "devices_of (fst (create_device d db)) v = devices_of db v @ (if dv_userId d = v then [d] else [])"
  by (simp add: devices_of_def create_device_def)

lemma apply_patch_user [simp]: "dv_userId (apply_patch p d) = dv_userId d"
  by (simp add: apply_patch_def)

lemma devices_of_update:
  "devices_of (fst (update_device u i p db)) v =
   (if v = u then fst (update_device u i p (devices_of db u)) else devices_of db v)"
  by (induction db) (auto simp: devices_of_def update_device_def owned_device_def)

lemma devices_of_delete:
  "devices_of (fst (delete_device u i db)) v = (if v = u then fst (delete_device u i (devices_of db u)) else devices_of db v)"
  by (induction db) (auto simp: devices_of_def delete_device_def owned_device_def)

lemma update_device_own: "snd (update_device u i p db) = snd (update_device u i p (devices_of db u))"
  by (induction db) (auto simp: devices_of_def update_device_def owned_device_def)

lemma delete_device_own: "snd (delete_device u i db) = snd (delete_device u i (devices_of db u))"
  by (induction db) (auto simp: devices_of_def delete_device_def owned_device_def)

lemma list_devices_own: "list_devices u db = sort_key dv_createdAt (devices_of db u)"
  by (simp add: list_devices_def devices_of_def)

lemmas device_own = list_devices_own update_device_own delete_device_own

text \<open>The state and the answer of a request, by the account's own devices.\<close>

lemma handle_device_part:
  "devices_of (fst (handle_device u r db)) v =
   (if v = u then devices_of (fst (handle_device u r (devices_of db u))) u else devices_of db v)"
proof (cases r)
  case (RegisterDevice b i now)
  then show ?thesis by (simp add: handle_device_def create_device_def devices_of_def)
next
  case (PatchDevice i b)
  have "fst (handle_device u r x) = (if patchDeviceBodySchema b \<and> UUID_PATTERN i then fst (update_device u i (client_patch b) x) else x)" for x
    by (simp add: handle_device_def PatchDevice split: prod.split option.split)
  then show ?thesis by (simp add: devices_of_update) (simp add: devices_of_def)
next
  case (DeleteDevice i)
  have "fst (handle_device u r x) = (if UUID_PATTERN i then fst (delete_device u i x) else x)" for x
    by (simp add: handle_device_def DeleteDevice split: prod.split bool.split)
  then show ?thesis by (simp add: devices_of_delete) (simp add: devices_of_def)
qed (simp add: handle_device_def devices_of_def)

lemma handle_device_reply: "snd (handle_device u r db) = snd (handle_device u r (devices_of db u))"
proof (cases r)
  case (PatchDevice i b)
  have "snd (handle_device u r x) =
      (if \<not> patchDeviceBodySchema b then ValidationFailed else if \<not> UUID_PATTERN i then NotFound
       else case snd (update_device u i (client_patch b) x) of None \<Rightarrow> NotFound | Some d \<Rightarrow> Patched (toResponse d))" for x
    by (simp add: handle_device_def PatchDevice split: prod.split option.split)
  then show ?thesis using update_device_own [of u i "client_patch b" db] by simp
next
  case (DeleteDevice i)
  then show ?thesis using delete_device_own [of u i db]
    by (auto simp: handle_device_def split: prod.split bool.split)
qed (simp_all add: handle_device_def list_devices_def devices_of_def create_device_def)

interpretation dev: owned_actions devices_of device_act fst
proof unfold_locales
  show "v \<noteq> u \<Longrightarrow> devices_of (fst (device_act u a s)) v = devices_of s v" for v u a s
    using handle_device_part [of u a s v] by (simp add: device_act_def split: prod.split) (metis fst_conv)
  show "e \<in> set (snd (device_act u a s)) \<Longrightarrow> fst e = u" for e u a s
    by (auto simp: device_act_def split: prod.splits)
  show "devices_of s u = devices_of t u \<Longrightarrow>
      devices_of (fst (device_act u a s)) u = devices_of (fst (device_act u a t)) u \<and>
      snd (device_act u a s) = snd (device_act u a t)" for s t u a
    using handle_device_part [of u a s u] handle_device_part [of u a t u] handle_device_reply [of u a s]
      handle_device_reply [of u a t]
    by (simp add: device_act_def split: prod.split) (metis fst_conv snd_conv)
qed

text \<open>
  However the device requests of several accounts are interleaved, each account sees the answers and
  ends with the devices that its own requests alone would give: the id of another account's device
  answers as an unknown one, and changes nothing.
\<close>

theorem device_requests_private:
  "devices_of (fst (dev.run rs db)) v = devices_of (fst (dev.run (filter (\<lambda>(u, _). u = v) rs) db)) v \<and>
   filter (\<lambda>a. fst a = v) (snd (dev.run rs db)) = snd (dev.run (filter (\<lambda>(u, _). u = v) rs) db)"
  by (rule dev.run_alone) (rule refl)

end
