(* ===== verification/Realtime.thy ===== *)
theory Realtime
  imports InstanceRegistry Contracts Isolation
begin

section \<open>The realtime registry\<close>

text \<open>
  \<open>ConnectionRegistry\<close> of \<open>connection-registry.ts\<close>: the open sockets of each account, the fan-out,
  the heartbeat and the expiry timer of each socket. A connection object is known by a number, so that
  the sets of connections are ordered maps from these numbers. Everything that happens to the registry
  belongs to one account, which the closures of \<open>add\<close> capture: the timers and listeners of a
  connection, a fan-out, and the environment of a socket; only the shutdown reaches all of them. A
  timer of a removed connection has been cleared, and its listeners find nothing to remove.
\<close>

record rt_connection =
  rc_socket :: socket
  rc_alive :: bool
  rc_expiry :: int  \<comment> \<open>when the expiry timer fires\<close>

type_synonym connections = "(nat, rt_connection) jsmap"
type_synonym index = "(jstr, connections) jsmap"

datatype ws_message = EventFrame notify_event | PresenceFrame "presence list"

datatype rt_effect =
    Wrote jstr nat ws_message
  | Pinged jstr nat
  | Closed jstr nat int jstr
  | Terminated jstr nat

definition of_user :: "index \<Rightarrow> jstr \<Rightarrow> connections" where
  "of_user idx userId = (case map_get idx userId of None \<Rightarrow> [] | Some cs \<Rightarrow> cs)"

subsection \<open>Operations\<close>

definition rt_remove :: "jstr \<Rightarrow> nat \<Rightarrow> index \<Rightarrow> index" where
  "rt_remove userId c idx =
     (case map_get idx userId of
        None \<Rightarrow> idx
      | Some sockets \<Rightarrow>
          if \<not> map_has sockets c then idx
          else let rest = map_delete c sockets
               in if rest = [] then map_delete userId idx else map_set userId rest idx)"

definition rt_add :: "jstr \<Rightarrow> nat \<Rightarrow> socket \<Rightarrow> int \<Rightarrow> int \<Rightarrow> index \<Rightarrow> index" where
  "rt_add userId c s expiresAtMs nowMs idx =
     map_set userId
       (map_set c \<lparr>rc_socket = s, rc_alive = True, rc_expiry = nowMs + expiry_delay expiresAtMs nowMs\<rparr>
         (of_user idx userId)) idx"

text \<open>A change of one connection object, visible while it is registered.\<close>

definition change_connection :: "jstr \<Rightarrow> nat \<Rightarrow> (rt_connection \<Rightarrow> rt_connection) \<Rightarrow> index \<Rightarrow> index" where
  "change_connection userId c f idx =
     (case map_get (of_user idx userId) c of
        None \<Rightarrow> idx
      | Some con \<Rightarrow> map_set userId (map_set c (f con) (of_user idx userId)) idx)"

definition rt_beat :: "jstr \<Rightarrow> nat \<Rightarrow> index \<Rightarrow> index \<times> rt_effect list" where
  "rt_beat userId c idx =
     (case map_get (of_user idx userId) c of
        None \<Rightarrow> (idx, [])
      | Some con \<Rightarrow>
          if \<not> ready_open (rc_socket con) then (rt_remove userId c idx, [])
          else if \<not> rc_alive con then (rt_remove userId c idx, [Terminated userId c])
          else (change_connection userId c (\<lambda>con. con\<lparr>rc_alive := False\<rparr>) idx, [Pinged userId c]))"

definition rt_expire :: "jstr \<Rightarrow> nat \<Rightarrow> index \<Rightarrow> index \<times> rt_effect list" where
  "rt_expire userId c idx =
     (if map_has (of_user idx userId) c
      then (rt_remove userId c idx, [Closed userId c WS_CLOSE_TOKEN_EXPIRED (js ''access token expired'')])
      else (idx, []))"

definition userIds :: "index \<Rightarrow> jstr list" where
  "userIds idx = map_keys idx"

definition count_user :: "index \<Rightarrow> jstr \<Rightarrow> nat" where
  "count_user idx userId = (case map_get idx userId of None \<Rightarrow> 0 | Some cs \<Rightarrow> length cs)"

definition count_all :: "index \<Rightarrow> nat" where
  "count_all idx = sum_list (map length (map_vals idx))"

fun send_loop :: "jstr \<Rightarrow> ws_message \<Rightarrow> connections \<Rightarrow> index \<Rightarrow> index \<times> rt_effect list" where
  "send_loop userId message [] idx = (idx, [])"
| "send_loop userId message ((c, con) # rest) idx =
     (case send_fate (rc_socket con) of
        NotOpen \<Rightarrow> send_loop userId message rest (rt_remove userId c idx)
      | Backlogged \<Rightarrow>
          (let (idx', es) = send_loop userId message rest (rt_remove userId c idx) in (idx', Terminated userId c # es))
      | Throws \<Rightarrow> send_loop userId message rest (rt_remove userId c idx)
      | Writes \<Rightarrow> (let (idx', es) = send_loop userId message rest idx in (idx', Wrote userId c message # es)))"

definition rt_send :: "jstr \<Rightarrow> ws_message \<Rightarrow> index \<Rightarrow> index \<times> rt_effect list" where
  "rt_send userId message idx = send_loop userId message (of_user idx userId) idx"

definition rt_dispatch :: "jstr \<Rightarrow> notify_event \<Rightarrow> index \<Rightarrow> index \<times> rt_effect list" where
  "rt_dispatch userId e idx = rt_send userId (EventFrame e) idx"

fun close_sockets :: "jstr \<Rightarrow> int \<Rightarrow> jstr \<Rightarrow> connections \<Rightarrow> index \<Rightarrow> index \<times> rt_effect list" where
  "close_sockets userId code reason [] idx = (idx, [])"
| "close_sockets userId code reason ((c, con) # rest) idx =
     (let (idx', es) = close_sockets userId code reason rest (rt_remove userId c idx)
      in (idx', Closed userId c code reason # es))"

fun close_users :: "int \<Rightarrow> jstr \<Rightarrow> index \<Rightarrow> index \<Rightarrow> index \<times> rt_effect list" where
  "close_users code reason [] idx = (idx, [])"
| "close_users code reason ((userId, sockets) # rest) idx =
     (let (idx1, es1) = close_sockets userId code reason sockets idx;
          (idx2, es2) = close_users code reason rest idx1
      in (idx2, es1 @ es2))"

definition rt_closeAll :: "int \<Rightarrow> jstr \<Rightarrow> index \<Rightarrow> index \<times> rt_effect list" where
  "rt_closeAll code reason idx = close_users code reason idx idx"

text \<open>What may happen for one account.\<close>

datatype rt_action =
    Add nat socket int int
  | Beat nat
  | Expire nat
  | PeerActive nat  \<comment> \<open>a pong or a ping of the peer\<close>
  | Gone nat  \<comment> \<open>the socket closed or failed, or the callback of a send got an error\<close>
  | Post ws_message
  | SocketBecomes nat socket

definition set_rc_socket :: "socket \<Rightarrow> rt_connection \<Rightarrow> rt_connection" where
  "set_rc_socket s con = con\<lparr>rc_socket := socket_change s (rc_socket con)\<rparr>"

definition rt_act :: "jstr \<Rightarrow> rt_action \<Rightarrow> index \<Rightarrow> index \<times> rt_effect list" where
  "rt_act userId a idx =
     (case a of
        Add c s expiresAtMs nowMs \<Rightarrow> (rt_add userId c s expiresAtMs nowMs idx, [])
      | Beat c \<Rightarrow> rt_beat userId c idx
      | Expire c \<Rightarrow> rt_expire userId c idx
      | PeerActive c \<Rightarrow> (change_connection userId c (\<lambda>con. con\<lparr>rc_alive := True\<rparr>) idx, [])
      | Gone c \<Rightarrow> (rt_remove userId c idx, [])
      | Post m \<Rightarrow> rt_send userId m idx
      | SocketBecomes c s \<Rightarrow> (change_connection userId c (set_rc_socket s) idx, []))"

subsection \<open>The account's own part\<close>

lemma of_user_set [simp]: "of_user (map_set u cs idx) v = (if v = u then cs else of_user idx v)"
  by (simp add: of_user_def)

lemma of_user_delete [simp]: "of_user (map_delete u idx) v = (if v = u then [] else of_user idx v)"
  by (simp add: of_user_def)

lemma of_user_remove [simp]: "of_user (rt_remove u c idx) v = (if v = u then map_delete c (of_user idx u) else of_user idx v)"
  by (auto simp: rt_remove_def of_user_def Let_def map_has_keys map_delete_absent split: option.splits)

lemma of_user_change [simp]:
  "of_user (change_connection u c f idx) v =
   (if v = u then (case map_get (of_user idx u) c of None \<Rightarrow> of_user idx u | Some con \<Rightarrow> map_set c (f con) (of_user idx u))
    else of_user idx v)"
  by (simp add: change_connection_def split: option.splits)

text \<open>The fan-out over the connections of one account, without the index around them.\<close>

fun post_conns :: "(nat \<times> rt_connection) list \<Rightarrow> connections \<Rightarrow> connections" where
  "post_conns [] cs = cs"
| "post_conns ((c, con) # rest) cs =
     post_conns rest (if send_fate (rc_socket con) = Writes then cs else map_delete c cs)"

fun post_effects :: "jstr \<Rightarrow> ws_message \<Rightarrow> connections \<Rightarrow> rt_effect list" where
  "post_effects u m [] = []"
| "post_effects u m ((c, con) # rest) =
     (case send_fate (rc_socket con) of
        Writes \<Rightarrow> [Wrote u c m] | Backlogged \<Rightarrow> [Terminated u c] | _ \<Rightarrow> []) @ post_effects u m rest"

lemma send_loop_effects: "snd (send_loop u m cs idx) = post_effects u m cs"
  by (induction u m cs idx rule: send_loop.induct) (auto split: send_fate.split prod.split)

lemma send_loop_index:
  "of_user (fst (send_loop u m cs idx)) v = (if v = u then post_conns cs (of_user idx u) else of_user idx v)"
  by (induction u m cs idx rule: send_loop.induct) (auto split: send_fate.split prod.split)

lemma post_conns_kept:
  "post_conns cs all = filter (\<lambda>(c, con). \<forall>con'. (c, con') \<in> set cs \<longrightarrow> send_fate (rc_socket con') = Writes) all"
  by (induction cs all rule: post_conns.induct)
    (auto simp: map_delete_filter intro!: filter_cong)

lemma post_conns_self:
  assumes "distinct_keys cs"
  shows "post_conns cs cs = filter (\<lambda>(c, con). send_fate (rc_socket con) = Writes) cs"
proof -
  have "con' = con" if "(c, con) \<in> set cs" "(c, con') \<in> set cs" for c con con'
    using that assms by (simp flip: map_get_iff)
  then show ?thesis unfolding post_conns_kept by (intro filter_cong) auto
qed

lemma close_sockets_effects: "snd (close_sockets u code reason cs idx) = map (\<lambda>(c, _). Closed u c code reason) cs"
  by (induction u code reason cs idx rule: close_sockets.induct) (auto split: prod.split)

lemma close_sockets_index:
  "of_user (fst (close_sockets u code reason cs idx)) v =
   (if v = u then filter (\<lambda>(c, _). c \<notin> set (map_keys cs)) (of_user idx u) else of_user idx v)"
  by (induction u code reason cs idx rule: close_sockets.induct)
    (auto split: prod.split simp: map_delete_filter intro!: filter_cong)

subsection \<open>Well-formed index\<close>

text \<open>No account is listed twice or without connections, and no connection twice.\<close>

definition index_ok :: "index \<Rightarrow> bool" where
  "index_ok idx \<longleftrightarrow> distinct_keys idx \<and> (\<forall>(u, cs) \<in> set idx. cs \<noteq> [] \<and> distinct_keys cs)"

lemma index_ok_Nil [simp]: "index_ok []"
  by (simp add: index_ok_def)

lemma index_ok_set: "index_ok idx \<Longrightarrow> cs \<noteq> [] \<Longrightarrow> distinct_keys cs \<Longrightarrow> index_ok (map_set u cs idx)"
  by (auto simp: index_ok_def dest!: set_map_set)

lemma index_ok_delete: "index_ok idx \<Longrightarrow> index_ok (map_delete u idx)"
  by (auto simp: index_ok_def set_map_delete)

lemma index_ok_get: "index_ok idx \<Longrightarrow> map_get idx u = Some cs \<Longrightarrow> cs \<noteq> [] \<and> distinct_keys cs"
  unfolding index_ok_def using map_get_in_set by fastforce

lemma index_ok_of_user: "index_ok idx \<Longrightarrow> distinct_keys (of_user idx u)"
  by (auto simp: of_user_def index_ok_get split: option.split)

lemma map_set_nonempty [simp]: "map_set k v m \<noteq> []"
  by (cases m) (auto split: if_splits)

lemma index_ok_remove: "index_ok idx \<Longrightarrow> index_ok (rt_remove u c idx)"
  by (auto simp: rt_remove_def Let_def index_ok_get split: option.split intro!: index_ok_set index_ok_delete)

lemma index_ok_add: "index_ok idx \<Longrightarrow> index_ok (rt_add u c s e n idx)"
  by (simp add: rt_add_def index_ok_set index_ok_of_user)

lemma index_ok_change: "index_ok idx \<Longrightarrow> index_ok (change_connection u c f idx)"
  by (simp add: change_connection_def index_ok_set index_ok_of_user split: option.split)

lemma index_ok_send_loop: "index_ok idx \<Longrightarrow> index_ok (fst (send_loop u m cs idx))"
  by (induction u m cs idx rule: send_loop.induct) (auto simp: index_ok_remove split: send_fate.split prod.splits)

lemmas index_ok_intros = index_ok_remove index_ok_add index_ok_change index_ok_send_loop

lemma index_ok_act: "index_ok idx \<Longrightarrow> index_ok (fst (rt_act u a idx))"
  by (simp add: rt_act_def rt_beat_def rt_expire_def rt_send_def index_ok_intros split: rt_action.split option.split)

text \<open>The whole registry as the list of its accounts: those with a connection.\<close>

lemma of_user_Nil_iff: "index_ok idx \<Longrightarrow> of_user idx u = [] \<longleftrightarrow> u \<notin> set (userIds idx)"
  using index_ok_get [of idx u] by (auto simp: of_user_def userIds_def map_get_None_iff [symmetric] split: option.splits)

subsection \<open>Accounts do not disturb each other\<close>

fun rt_owner :: "rt_effect \<Rightarrow> jstr" where
  "rt_owner (Wrote u _ _) = u"
| "rt_owner (Pinged u _) = u"
| "rt_owner (Closed u _ _ _) = u"
| "rt_owner (Terminated u _) = u"

lemma post_effects_owner: "e \<in> set (post_effects u m cs) \<Longrightarrow> rt_owner e = u"
  by (induction u m cs rule: post_effects.induct) (auto split: send_fate.splits)

lemma rt_act_others: "v \<noteq> u \<Longrightarrow> of_user (fst (rt_act u a idx)) v = of_user idx v"
  by (simp add: rt_act_def rt_add_def rt_beat_def rt_expire_def rt_send_def send_loop_index
      split: rt_action.split option.split)

lemma rt_act_own_name: "e \<in> set (snd (rt_act u a idx)) \<Longrightarrow> rt_owner e = u"
  by (auto simp: rt_act_def rt_beat_def rt_expire_def rt_send_def send_loop_effects
      split: rt_action.splits option.splits if_splits dest: post_effects_owner)

lemma rt_act_local:
  assumes same: "of_user s u = of_user t u"
  shows "of_user (fst (rt_act u a s)) u = of_user (fst (rt_act u a t)) u \<and> snd (rt_act u a s) = snd (rt_act u a t)"
proof (cases a)
  case (Add c x e n)
  with same show ?thesis by (simp add: rt_act_def rt_add_def)
next
  case (Beat c)
  with same show ?thesis by (cases "map_get (of_user t u) c") (simp_all add: rt_act_def rt_beat_def)
next
  case (Expire c)
  with same show ?thesis by (simp add: rt_act_def rt_expire_def)
next
  case (PeerActive c)
  with same show ?thesis by (cases "map_get (of_user t u) c") (simp_all add: rt_act_def)
next
  case (Gone c)
  with same show ?thesis by (simp add: rt_act_def)
next
  case (Post m)
  with same show ?thesis by (simp add: rt_act_def rt_send_def send_loop_effects send_loop_index)
next
  case (SocketBecomes c x)
  with same show ?thesis by (cases "map_get (of_user t u) c") (simp_all add: rt_act_def)
qed

interpretation rt: owned_actions of_user rt_act rt_owner
  by unfold_locales (fact rt_act_others rt_act_own_name rt_act_local)+

subsection \<open>Properties\<close>

text \<open>
  C25: What an account's sockets receive and what becomes of them is what its own connections, timers,
  socket events and fan-outs alone would give, however the activity of other accounts is interleaved:
  no event and no presence of one account reaches a socket of another, and no slow or dead socket of
  one account delays or drops anything of another.
\<close>

theorem realtime_accounts_isolated:
  "of_user (fst (rt.run as idx)) v = of_user (fst (rt.run (filter (\<lambda>(u, _). u = v) as) idx)) v \<and>
   filter (\<lambda>e. rt_owner e = v) (snd (rt.run as idx)) = snd (rt.run (filter (\<lambda>(u, _). u = v) as) idx)"
  by (rule rt.run_alone) (rule refl)

lemma index_ok_run: "index_ok idx \<Longrightarrow> index_ok (fst (rt.run as idx))"
proof (induction as arbitrary: idx)
  case (Cons x as)
  then show ?case by (cases x) (simp add: rt.run_Cons index_ok_act)
qed simp

text \<open>The counts of a well-formed index.\<close>

lemma count_all_users:
  assumes "index_ok idx"
  shows "count_all idx = (\<Sum>u\<leftarrow>userIds idx. count_user idx u)"
proof -
  have "length cs = count_user idx u" if "(u, cs) \<in> set idx" for u cs
    using that assms by (simp add: count_user_def index_ok_def flip: map_get_iff)
  then have "map length (map_vals idx) = map (count_user idx) (userIds idx)"
    by (auto simp: map_vals_def map_keys_def userIds_def)
  then show ?thesis by (simp add: count_all_def)
qed

text \<open>The index after the given actions, from the start.\<close>

definition reached :: "(jstr \<times> rt_action) list \<Rightarrow> index" where
  "reached as = fst (rt.run as [])"

text \<open>
  However connections come and go, an account is listed for the periodic snapshots exactly while it
  has a connection, once, each connection is held once, and the totals agree.
\<close>

theorem realtime_index_exact:
  "distinct (userIds (reached as)) \<and>
         (u \<in> set (userIds (reached as)) \<longleftrightarrow> 0 < count_user (reached as) u) \<and>
         distinct (map_keys (of_user (reached as) u)) \<and>
         count_all (reached as) = (\<Sum>u\<leftarrow>userIds (reached as). count_user (reached as) u)"
proof -
  have ok: "index_ok (reached as)" unfolding reached_def by (rule index_ok_run) simp
  have "count_user (reached as) u = length (of_user (reached as) u)"
    by (simp add: count_user_def of_user_def split: option.split)
  with of_user_Nil_iff [OF ok, of u] have "u \<in> set (userIds (reached as)) \<longleftrightarrow> 0 < count_user (reached as) u" by auto
  moreover have "distinct (userIds (reached as))"
    using ok by (simp add: index_ok_def userIds_def distinct_keys_def map_keys_def)
  moreover have "distinct (map_keys (of_user (reached as) u))"
    using index_ok_of_user [OF ok] by (simp add: distinct_keys_def map_keys_def)
  ultimately show ?thesis using count_all_users [OF ok] by blast
qed

definition writable :: "connections \<Rightarrow> connections" where
  "writable cs = filter (\<lambda>(_, con). send_fate (rc_socket con) = Writes) cs"

definition backlogged :: "connections \<Rightarrow> connections" where
  "backlogged cs = filter (\<lambda>(_, con). send_fate (rc_socket con) = Backlogged) cs"

lemma post_effects_writes:
  "filter (\<lambda>e. \<exists>c. e = Wrote u c m) (post_effects u m cs) = map (\<lambda>(c, _). Wrote u c m) (writable cs)"
  by (induction u m cs rule: post_effects.induct) (auto simp: writable_def split: send_fate.split)

lemma post_effects_set:
  "set (post_effects u m cs) =
   set (map (\<lambda>(c, _). Wrote u c m) (writable cs)) \<union> set (map (\<lambda>(c, _). Terminated u c) (backlogged cs))"
  by (induction u m cs rule: post_effects.induct) (auto simp: writable_def backlogged_def split: send_fate.split)

text \<open>
  A fan-out writes the frame once to every socket of the account that is open, below the backlog
  limit and does not throw, in the order of registration; it terminates exactly the sockets beyond the
  limit; and the account keeps exactly the sockets written to.
\<close>

theorem fanout_exact:
  assumes "index_ok idx"
  shows "of_user (fst (rt_send u m idx)) u = writable (of_user idx u) \<and>
         filter (\<lambda>e. \<exists>c. e = Wrote u c m) (snd (rt_send u m idx)) = map (\<lambda>(c, _). Wrote u c m) (writable (of_user idx u)) \<and>
         set (snd (rt_send u m idx)) =
           set (map (\<lambda>(c, _). Wrote u c m) (writable (of_user idx u))) \<union>
           set (map (\<lambda>(c, _). Terminated u c) (backlogged (of_user idx u)))"
  using post_conns_self [OF index_ok_of_user [OF assms, of u]]
  by (simp add: rt_send_def send_loop_effects send_loop_index post_effects_writes post_effects_set)
    (simp add: writable_def case_prod_unfold)

text \<open>The connection is gone or waits for a sign of its peer.\<close>

definition unanswered :: "jstr \<Rightarrow> nat \<Rightarrow> index \<Rightarrow> bool" where
  "unanswered u c idx \<longleftrightarrow> (case map_get (of_user idx u) c of None \<Rightarrow> True | Some con \<Rightarrow> \<not> rc_alive con)"

lemma beat_unanswered: "unanswered u c (fst (rt_act u (Beat c) idx))"
  by (simp add: unanswered_def rt_act_def rt_beat_def split: option.split)

lemma post_conns_get: "map_get (post_conns cs all) c = Some con \<Longrightarrow> map_get all c = Some con"
proof (induction cs all rule: post_conns.induct)
  case (2 c' con' rest cs)
  then show ?case by (auto split: if_splits)
qed simp

definition signs :: "jstr \<Rightarrow> nat \<Rightarrow> (jstr \<times> rt_action) \<Rightarrow> bool" where
  "signs u c x \<longleftrightarrow> (case x of (v, PeerActive d) \<Rightarrow> v = u \<and> d = c | (v, Add d _ _ _) \<Rightarrow> v = u \<and> d = c | _ \<Rightarrow> False)"

lemma unanswered_act:
  assumes "unanswered u c idx" "\<not> signs u c (v, a)"
  shows "unanswered u c (fst (rt_act v a idx))"
proof (cases "v = u")
  case False
  with assms(1) rt_act_others [of u v a idx] show ?thesis by (simp add: unanswered_def)
next
  case True
  show ?thesis
  proof (cases a)
    case (Post m)
    with assms True show ?thesis
      by (cases "map_get (of_user (fst (rt_act v a idx)) u) c")
        (auto simp: unanswered_def rt_act_def rt_send_def send_loop_index dest!: post_conns_get)
  qed (use assms True in \<open>auto simp: unanswered_def signs_def rt_act_def rt_add_def rt_beat_def rt_expire_def set_rc_socket_def
        split: option.splits\<close>)
qed

lemma unanswered_run:
  "unanswered u c idx \<Longrightarrow> \<not> list_ex (signs u c) as \<Longrightarrow> unanswered u c (fst (rt.run as idx))"
proof (induction as arbitrary: idx)
  case (Cons x as)
  then show ?case by (cases x) (simp add: rt.run_Cons unanswered_act)
qed simp

text \<open>
  A socket whose peer gives no sign between two heartbeats is not registered after the second one,
  whatever else happens in between; while it is still open it is terminated, and a closed one is only
  dropped.
\<close>

theorem silent_peer_cut:
  assumes "\<not> list_ex (signs u c) as"
  shows "let idx1 = fst (rt.run ((u, Beat c) # as) idx); (idx2, es) = rt_act u (Beat c) idx1
         in \<not> map_has (of_user idx2 u) c \<and>
            es = (case map_get (of_user idx1 u) c of
                    Some con \<Rightarrow> if ready_open (rc_socket con) then [Terminated u c] else []
                  | None \<Rightarrow> [])"
proof -
  have "unanswered u c (fst (rt.run ((u, Beat c) # as) idx))"
    using unanswered_run [OF beat_unanswered assms] by (simp add: rt.run_Cons)
  then show ?thesis
    by (auto simp: Let_def rt_act_def rt_beat_def unanswered_def map_has_iff split: option.splits)
qed

lemma silent_peer_cut_witness:
  "let idx1 = fst (rt.run [(js ''u'', Beat 0), (js ''v'', PeerActive 0)]
                [(js ''u'', [(0, \<lparr>rc_socket = fresh_socket, rc_alive = True, rc_expiry = 900\<rparr>)])]);
       (idx2, es) = rt_act (js ''u'') (Beat 0) idx1
   in idx2 = [] \<and> es = [Terminated (js ''u'') 0]"
proof -
  let ?start = "[(js ''u'', [(0, \<lparr>rc_socket = fresh_socket, rc_alive = True, rc_expiry = 900\<rparr>)])]"
  have "\<not> list_ex (signs (js ''u'') 0) [(js ''v'', PeerActive 0)]" by (simp add: signs_def)
  from silent_peer_cut [OF this, of ?start] show ?thesis
    by (simp add: rt.run_Cons rt_act_def rt_beat_def of_user_def change_connection_def fresh_socket_def rt_remove_def
        Let_def map_has_iff)
qed

subsection \<open>Shutdown\<close>

lemma close_users_Cons:
  "fst (close_users code reason ((u, cs) # rest) idx) =
   fst (close_users code reason rest (fst (close_sockets u code reason cs idx)))"
  "snd (close_users code reason ((u, cs) # rest) idx) =
   snd (close_sockets u code reason cs idx) @ snd (close_users code reason rest (fst (close_sockets u code reason cs idx)))"
  by (simp_all split: prod.split)

declare close_users.simps(2) [simp del]

lemma close_users_effects:
  "snd (close_users code reason us idx) = concat (map (\<lambda>(u, cs). map (\<lambda>(c, _). Closed u c code reason) cs) us)"
proof (induction us arbitrary: idx)
  case (Cons x us)
  then show ?case by (cases x) (simp add: close_users_Cons close_sockets_effects)
qed simp

lemma close_users_index:
  "of_user (fst (close_users code reason us idx)) v =
   filter (\<lambda>(c, _). list_all (\<lambda>(u, cs). u = v \<longrightarrow> c \<notin> set (map_keys cs)) us) (of_user idx v)"
proof (induction us arbitrary: idx)
  case (Cons x us)
  obtain u cs where "x = (u, cs)" by force
  with Cons show ?case
    by (auto simp: close_users_Cons close_sockets_index intro!: filter_cong)
qed simp

lemma index_ok_close: "index_ok idx \<Longrightarrow> index_ok (fst (close_users code reason us idx))"
proof -
  have one: "index_ok idx \<Longrightarrow> index_ok (fst (close_sockets u code reason cs idx))" for u cs idx
    by (induction u code reason cs idx rule: close_sockets.induct) (auto split: prod.splits simp: index_ok_remove)
  show "index_ok idx \<Longrightarrow> index_ok (fst (close_users code reason us idx))"
  proof (induction us arbitrary: idx)
    case (Cons x us)
    then show ?case by (cases x) (simp add: close_users_Cons one)
  qed simp
qed

text \<open>
  The shutdown closes every connection of every account once, in order, with the given code, and
  leaves the registry empty.
\<close>

theorem shutdown_closes_all:
  assumes "index_ok idx"
  shows "rt_closeAll code reason idx =
         ([], concat (map (\<lambda>(u, cs). map (\<lambda>(c, _). Closed u c code reason) cs) idx))"
proof -
  let ?idx' = "fst (close_users code reason idx idx)"
  have ok: "index_ok ?idx'" using assms by (rule index_ok_close)
  have "of_user ?idx' v = []" for v
  proof (cases "map_get idx v")
    case None
    then have "of_user idx v = []" by (simp add: of_user_def)
    then show ?thesis by (simp add: close_users_index)
  next
    case (Some cs)
    then have "(v, cs) \<in> set idx" by (rule map_get_in_set)
    moreover have "of_user idx v = cs" using Some by (simp add: of_user_def)
    ultimately show ?thesis by (force simp: close_users_index filter_empty_conv list_all_iff map_keys_def)
  qed
  then have "userIds ?idx' = []" using of_user_Nil_iff [OF ok] by (metis list.set_intros(1) neq_Nil_conv)
  then have "?idx' = []" by (simp add: userIds_def map_keys_def)
  then show ?thesis unfolding rt_closeAll_def by (metis close_users_effects prod.collapse)
qed

subsection \<open>Witnesses\<close>

lemma fanout_exact_witness:
  "let idx = [(js ''u'', [(0, \<lparr>rc_socket = fresh_socket, rc_alive = True, rc_expiry = 900\<rparr>),
                         (1, \<lparr>rc_socket = fresh_socket\<lparr>ready_open := False\<rparr>, rc_alive = True, rc_expiry = 900\<rparr>)])]
   in of_user (fst (rt_send (js ''u'') (PresenceFrame []) idx)) (js ''u'') =
        [(0, \<lparr>rc_socket = fresh_socket, rc_alive = True, rc_expiry = 900\<rparr>)]"
proof -
  let ?idx = "[(js ''u'', [(0, \<lparr>rc_socket = fresh_socket, rc_alive = True, rc_expiry = 900\<rparr>),
                         (1::nat, \<lparr>rc_socket = fresh_socket\<lparr>ready_open := False\<rparr>, rc_alive = True, rc_expiry = 900\<rparr>)])]"
  have "index_ok ?idx" by (simp add: index_ok_def)
  from fanout_exact [OF this, of "js ''u''" "PresenceFrame []"] show ?thesis
    by (simp add: writable_def of_user_def send_fate_def fresh_socket_def WS_MAX_BUFFERED_BYTES_def)
qed

end
