(* ===== verification/PluginConfig.thy ===== *)
theory PluginConfig
  imports Json Sender
begin

section \<open>The plugin's configuration\<close>

text \<open>
  \<open>packages/plugin/src/config.ts\<close>: the environment variables, read and checked once. The WHATWG URL
  parser, \<open>JSON.parse\<close>, the host name and \<open>node:path\<close> are the fields of \<open>host\<close>; a parser that throws
  gives \<open>None\<close>. Nothing is written anywhere, so the loader is a function of the environment.
\<close>

record url =
  href :: jstr
  protocol :: jstr
  url_hostname :: jstr
  username :: jstr
  password :: jstr
  pathname :: jstr
  url_search :: jstr
  url_hash :: jstr
  origin :: jstr

record host =
  parse_url :: "jstr \<Rightarrow> url option"
  parse_json :: "jstr \<Rightarrow> json option"
  host_name :: jstr
  isAbsolute :: "jstr \<Rightarrow> bool"
  normalize :: "jstr \<Rightarrow> jstr"

type_synonym environment = "string \<Rightarrow> jstr option"

record ingest_key =
  keyId_part :: jstr
  secret_part :: jstr

record plugin_config =
  cfg_gatewayUrl :: jstr
  cfg_ingestKey :: ingest_key
  cfg_machine :: jstr
  cfg_remoteDirectories :: "jstr list"
  cfg_includeSummary :: bool
  cfg_queueCapacity :: nat
  cfg_heartbeatMs :: nat
  cfg_idleDebounceMs :: nat
  cfg_httpTimeoutMs :: nat
  cfg_maxRetries :: nat

definition CONFIG_DEFAULT_QUEUE_CAPACITY :: nat where "CONFIG_DEFAULT_QUEUE_CAPACITY = 100"
definition DEFAULT_HEARTBEAT_MS :: nat where "DEFAULT_HEARTBEAT_MS = 60000"
definition DEFAULT_IDLE_DEBOUNCE_MS :: nat where "DEFAULT_IDLE_DEBOUNCE_MS = 15000"
definition DEFAULT_HTTP_TIMEOUT_MS :: nat where "DEFAULT_HTTP_TIMEOUT_MS = 5000"
definition DEFAULT_MAX_RETRIES :: nat where "DEFAULT_MAX_RETRIES = 3"

datatype numeric_variable = QUEUE_CAPACITY | HEARTBEAT_MS | IDLE_DEBOUNCE_MS | HTTP_TIMEOUT_MS | MAX_RETRIES

text \<open>Name, default and upper bound.\<close>

fun NUMERIC_LIMITS :: "numeric_variable \<Rightarrow> string \<times> nat \<times> nat" where
  "NUMERIC_LIMITS QUEUE_CAPACITY = (''NOTIFY_QUEUE_CAPACITY'', CONFIG_DEFAULT_QUEUE_CAPACITY, 10000)"
| "NUMERIC_LIMITS HEARTBEAT_MS = (''NOTIFY_HEARTBEAT_MS'', DEFAULT_HEARTBEAT_MS, 3600000)"
| "NUMERIC_LIMITS IDLE_DEBOUNCE_MS = (''NOTIFY_IDLE_DEBOUNCE_MS'', DEFAULT_IDLE_DEBOUNCE_MS, 600000)"
| "NUMERIC_LIMITS HTTP_TIMEOUT_MS = (''NOTIFY_HTTP_TIMEOUT_MS'', DEFAULT_HTTP_TIMEOUT_MS, 300000)"
| "NUMERIC_LIMITS MAX_RETRIES = (''NOTIFY_MAX_RETRIES'', DEFAULT_MAX_RETRIES, 100)"

definition base64url_unit :: "16 word \<Rightarrow> bool" where
  "base64url_unit u \<longleftrightarrow> 65 \<le> u \<and> u \<le> 90 \<or> 97 \<le> u \<and> u \<le> 122 \<or> 48 \<le> u \<and> u \<le> 57 \<or> u = 95 \<or> u = 45"

text \<open>\<open>/^[A-Za-z0-9_-]+$/\<close>\<close>

definition BASE64URL_PATTERN :: "jstr \<Rightarrow> bool" where
  "BASE64URL_PATTERN s \<longleftrightarrow> s \<noteq> [] \<and> list_all base64url_unit s"

definition HTTP_LOOPBACK_HOSTS :: "jstr list" where
  "HTTP_LOOPBACK_HOSTS = [js ''localhost'', js ''127.0.0.1'', js ''[::1]'']"

definition parseIngestKey :: "jstr \<Rightarrow> ingest_key option" where
  "parseIngestKey raw =
     (case index_of raw dot of
        None \<Rightarrow> None
      | Some d \<Rightarrow>
          if d = 0 \<or> d = length raw - 1 then None
          else if \<not> BASE64URL_PATTERN (take d raw) then None
          else Some \<lparr>keyId_part = take d raw, secret_part = drop (d + 1) raw\<rparr>)"

text \<open>\<open>.replace(/\/+$/, "")\<close>\<close>

definition strip_slashes :: "jstr \<Rightarrow> jstr" where
  "strip_slashes s = rev (dropWhile (\<lambda>u. u = 47) (rev s))"

definition parseGatewayUrl :: "host \<Rightarrow> jstr \<Rightarrow> jstr option" where
  "parseGatewayUrl H raw =
     (case parse_url H raw of
        None \<Rightarrow> None
      | Some u \<Rightarrow>
          if username u \<noteq> [] \<or> password u \<noteq> [] then None
          else if url_search u \<noteq> [] \<or> url_hash u \<noteq> [] then None
          else if protocol u = js ''http:'' then
            (if url_hostname u \<notin> set HTTP_LOOPBACK_HOSTS then None else Some (strip_slashes (href u)))
          else if protocol u \<noteq> js ''https:'' then None
          else Some (strip_slashes (href u)))"

definition parseNumericOverride :: "environment \<Rightarrow> numeric_variable \<Rightarrow> nat option" where
  "parseNumericOverride env v =
     (case NUMERIC_LIMITS v of (name, defaultValue, maximum) \<Rightarrow>
        (case env name of
           None \<Rightarrow> Some defaultValue
         | Some raw \<Rightarrow>
             if trim raw = [] then Some defaultValue
             else if \<not> all_digits (trim raw) then None
             else let n = parse_decimal (trim raw) in if n < 1 \<or> n > maximum then None else Some n))"

text \<open>A trimmed variable that is set and not blank.\<close>

definition env_text :: "environment \<Rightarrow> string \<Rightarrow> jstr option" where
  "env_text env name =
     (case env name of None \<Rightarrow> None | Some raw \<Rightarrow> if trim raw = [] then None else Some (trim raw))"

fun directory_list :: "host \<Rightarrow> json list \<Rightarrow> jstr list option" where
  "directory_list H [] = Some []"
| "directory_list H (v # vs) =
     (case v of
        JString d \<Rightarrow>
          if 0 \<in> set d \<or> \<not> isAbsolute H d then None
          else map_option (Cons (normalize H d)) (directory_list H vs)
      | _ \<Rightarrow> None)"

definition remote_directories :: "host \<Rightarrow> environment \<Rightarrow> jstr list option" where
  "remote_directories H env =
     (case parse_json H (case env_text env ''NOTIFY_REMOTE_DIRECTORIES'' of None \<Rightarrow> js ''[]'' | Some t \<Rightarrow> t) of
        Some (JArray vs) \<Rightarrow> directory_list H vs
      | _ \<Rightarrow> None)"

definition include_summary :: "environment \<Rightarrow> bool option" where
  "include_summary env =
     (case env_text env ''NOTIFY_INCLUDE_SUMMARY'' of
        None \<Rightarrow> Some False
      | Some t \<Rightarrow> if t = js ''true'' then Some True else if t = js ''false'' then Some False else None)"

definition loadConfig :: "host \<Rightarrow> environment \<Rightarrow> plugin_config option" where
  "loadConfig H env =
     (case env_text env ''NOTIFY_GATEWAY_URL'' of
        None \<Rightarrow> None
      | Some gatewayUrlRaw \<Rightarrow>
     (case parseGatewayUrl H gatewayUrlRaw of
        None \<Rightarrow> None
      | Some base \<Rightarrow>
     (case env_text env ''NOTIFY_INGEST_KEY'' of
        None \<Rightarrow> None
      | Some ingestKeyRaw \<Rightarrow>
     (case parseIngestKey ingestKeyRaw of
        None \<Rightarrow> None
      | Some key \<Rightarrow>
          if \<not> BASE64URL_PATTERN (keyId_part key) \<or> \<not> BASE64URL_PATTERN (secret_part key) then None
          else
     (case remote_directories H env of
        None \<Rightarrow> None
      | Some dirs \<Rightarrow>
     (case include_summary env of
        None \<Rightarrow> None
      | Some summary \<Rightarrow>
     (case (parseNumericOverride env QUEUE_CAPACITY, parseNumericOverride env HEARTBEAT_MS,
            parseNumericOverride env IDLE_DEBOUNCE_MS, parseNumericOverride env HTTP_TIMEOUT_MS,
            parseNumericOverride env MAX_RETRIES) of
        (Some queue, Some beat, Some idle, Some timeout, Some retries) \<Rightarrow>
          Some \<lparr>cfg_gatewayUrl = base, cfg_ingestKey = key,
                cfg_machine = (case env_text env ''NOTIFY_MACHINE'' of None \<Rightarrow> host_name H | Some t \<Rightarrow> t),
                cfg_remoteDirectories = dirs, cfg_includeSummary = summary, cfg_queueCapacity = queue,
                cfg_heartbeatMs = beat, cfg_idleDebounceMs = idle, cfg_httpTimeoutMs = timeout,
                cfg_maxRetries = retries\<rparr>
      | _ \<Rightarrow> None)))))))"

subsection \<open>Parts\<close>

lemma base64url_no_dot: "BASE64URL_PATTERN s \<Longrightarrow> dot \<notin> set s"
  by (auto simp: BASE64URL_PATTERN_def list_all_iff base64url_unit_def dot_def)

lemma base64url_no_space: "BASE64URL_PATTERN s \<Longrightarrow> \<not> list_ex whitespace s"
  unfolding BASE64URL_PATTERN_def list_all_iff list_ex_iff base64url_unit_def whitespace_def
  by (auto simp: word_le_nat_alt word_unat_eq_iff)

lemma parseIngestKey_credential:
  assumes "BASE64URL_PATTERN k" "s \<noteq> []"
  shows "parseIngestKey (k @ dot # s) = Some \<lparr>keyId_part = k, secret_part = s\<rparr>"
proof -
  have "index_of (k @ dot # s) dot = Some (length k)" using assms(1) by (simp add: index_of_append base64url_no_dot)
  with assms show ?thesis by (simp add: parseIngestKey_def BASE64URL_PATTERN_def)
qed

lemma parseIngestKey_Some:
  assumes "parseIngestKey raw = Some key"
  shows "raw = keyId_part key @ dot # secret_part key \<and> BASE64URL_PATTERN (keyId_part key) \<and> secret_part key \<noteq> []"
proof -
  from assms obtain d where d: "index_of raw dot = Some d" "d \<noteq> 0" "d \<noteq> length raw - 1" "BASE64URL_PATTERN (take d raw)"
    "key = \<lparr>keyId_part = take d raw, secret_part = drop (d + 1) raw\<rparr>"
    by (auto simp: parseIngestKey_def split: option.splits if_splits)
  from index_of_Some [OF d(1)] have "d < length raw" "raw ! d = dot" by auto
  then have "raw = take d raw @ dot # drop (d + 1) raw" using id_take_nth_drop [of d raw] by simp
  with d \<open>d < length raw\<close> show ?thesis by auto
qed

lemma trim_no_space:
  assumes "\<not> list_ex whitespace s"
  shows "trim s = s"
proof -
  have "dropWhile whitespace t = t" if "set t \<subseteq> set s" for t
    using that assms by (cases t) (auto simp: list_ex_iff)
  then show ?thesis by (simp add: trim_def)
qed

lemma strip_slashes_end: "strip_slashes s = [] \<or> last (strip_slashes s) \<noteq> 47"
proof (cases "dropWhile (\<lambda>u. u = 47) (rev s)")
  case (Cons u us)
  then have "u \<noteq> 47" using hd_dropWhile [of "\<lambda>u. u = 47" "rev s"] by (metis list.distinct(1) list.sel(1))
  then show ?thesis by (simp add: strip_slashes_def Cons)
qed (simp add: strip_slashes_def)

lemma directory_list_Some:
  "directory_list H vs = Some ds \<Longrightarrow>
   \<exists>raws. vs = map JString raws \<and> ds = map (normalize H) raws \<and> (\<forall>d \<in> set raws. isAbsolute H d \<and> 0 \<notin> set d)"
proof (induction vs arbitrary: ds)
  case (Cons v vs)
  from Cons.prems obtain d ds' where v: "v = JString d" "0 \<notin> set d" "isAbsolute H d" "directory_list H vs = Some ds'"
    "ds = normalize H d # ds'"
    by (auto split: json.splits if_splits)
  from Cons.IH [OF v(4)] obtain raws where "vs = map JString raws" "ds' = map (normalize H) raws"
    "\<forall>d \<in> set raws. isAbsolute H d \<and> 0 \<notin> set d" by blast
  with v show ?case by (intro exI [of _ "d # raws"]) auto
qed simp

lemma parseNumericOverride_bounds:
  assumes "parseNumericOverride env v = Some n"
  shows "1 \<le> n \<and> n \<le> snd (snd (NUMERIC_LIMITS v))"
  using assms
  by (cases v) (auto simp: parseNumericOverride_def CONFIG_DEFAULT_QUEUE_CAPACITY_def DEFAULT_HEARTBEAT_MS_def
      DEFAULT_IDLE_DEBOUNCE_MS_def DEFAULT_HTTP_TIMEOUT_MS_def DEFAULT_MAX_RETRIES_def Let_def
      split: option.splits if_splits)

lemma parseGatewayUrl_Some:
  assumes "parseGatewayUrl H raw = Some b"
  shows "\<exists>u. parse_url H raw = Some u \<and> b = strip_slashes (href u) \<and> username u = [] \<and> password u = [] \<and>
             url_search u = [] \<and> url_hash u = [] \<and>
             (protocol u = js ''https:'' \<or> protocol u = js ''http:'' \<and> url_hostname u \<in> set HTTP_LOOPBACK_HOSTS)"
  using assms by (auto simp: parseGatewayUrl_def split: option.splits if_splits)

lemma env_text_Some: "env_text env x = Some t \<Longrightarrow> t \<noteq> [] \<and> (\<exists>raw. env x = Some raw \<and> t = trim raw)"
  by (auto simp: env_text_def split: option.splits if_splits)

lemma loadConfig_Some:
  assumes "loadConfig H env = Some c"
  shows "\<exists>g k. env_text env ''NOTIFY_GATEWAY_URL'' = Some g \<and> parseGatewayUrl H g = Some (cfg_gatewayUrl c) \<and>
               env_text env ''NOTIFY_INGEST_KEY'' = Some k \<and> parseIngestKey k = Some (cfg_ingestKey c) \<and>
               BASE64URL_PATTERN (secret_part (cfg_ingestKey c))"
    and "remote_directories H env = Some (cfg_remoteDirectories c)"
    and "include_summary env = Some (cfg_includeSummary c)"
    and "parseNumericOverride env QUEUE_CAPACITY = Some (cfg_queueCapacity c)"
    and "parseNumericOverride env HEARTBEAT_MS = Some (cfg_heartbeatMs c)"
    and "parseNumericOverride env IDLE_DEBOUNCE_MS = Some (cfg_idleDebounceMs c)"
    and "parseNumericOverride env HTTP_TIMEOUT_MS = Some (cfg_httpTimeoutMs c)"
    and "parseNumericOverride env MAX_RETRIES = Some (cfg_maxRetries c)"
  using assms unfolding loadConfig_def by (auto split: option.splits if_splits)

subsection \<open>Properties\<close>

text \<open>
  C40: A configuration that loads is safe to run with: the gateway is reached over https, or over http on
  the loopback interface only, without credentials in the URL and without a trailing slash; the
  credential is exactly the trimmed text of the variable, both parts base64url; every directory is
  absolute and free of NUL; and each number lies between one and its limit.
\<close>

theorem loaded_config_is_safe:
  assumes "loadConfig H env = Some c"
  shows "(\<exists>g u. env_text env ''NOTIFY_GATEWAY_URL'' = Some g \<and> parse_url H g = Some u \<and>
                cfg_gatewayUrl c = strip_slashes (href u) \<and>
                (protocol u = js ''https:'' \<or> protocol u = js ''http:'' \<and> url_hostname u \<in> set HTTP_LOOPBACK_HOSTS) \<and>
                username u = [] \<and> password u = [] \<and> url_search u = [] \<and> url_hash u = []) \<and>
         (cfg_gatewayUrl c = [] \<or> last (cfg_gatewayUrl c) \<noteq> 47) \<and>
         env_text env ''NOTIFY_INGEST_KEY'' = Some (keyId_part (cfg_ingestKey c) @ dot # secret_part (cfg_ingestKey c)) \<and>
         BASE64URL_PATTERN (keyId_part (cfg_ingestKey c)) \<and> BASE64URL_PATTERN (secret_part (cfg_ingestKey c)) \<and>
         (\<exists>raws. cfg_remoteDirectories c = map (normalize H) raws \<and> list_all (\<lambda>d. isAbsolute H d \<and> 0 \<notin> set d) raws) \<and>
         (cfg_queueCapacity c \<in> {1..10000} \<and> cfg_heartbeatMs c \<in> {1..3600000} \<and> cfg_idleDebounceMs c \<in> {1..600000} \<and>
          cfg_httpTimeoutMs c \<in> {1..300000} \<and> cfg_maxRetries c \<in> {1..100})"
proof -
  note loaded = loadConfig_Some [OF assms]
  from loaded(1) obtain g k where g: "env_text env ''NOTIFY_GATEWAY_URL'' = Some g"
    "parseGatewayUrl H g = Some (cfg_gatewayUrl c)"
    and k: "env_text env ''NOTIFY_INGEST_KEY'' = Some k" "parseIngestKey k = Some (cfg_ingestKey c)"
      "BASE64URL_PATTERN (secret_part (cfg_ingestKey c))" by blast
  from parseGatewayUrl_Some [OF g(2)] obtain u where u: "parse_url H g = Some u" "cfg_gatewayUrl c = strip_slashes (href u)"
    "username u = []" "password u = []" "url_search u = []" "url_hash u = []"
    "protocol u = js ''https:'' \<or> protocol u = js ''http:'' \<and> url_hostname u \<in> set HTTP_LOOPBACK_HOSTS" by blast
  from loaded(2) obtain vs where "directory_list H vs = Some (cfg_remoteDirectories c)"
    by (auto simp: remote_directories_def split: option.splits json.splits)
  from directory_list_Some [OF this] have dirs: "\<exists>raws. cfg_remoteDirectories c = map (normalize H) raws \<and>
      list_all (\<lambda>d. isAbsolute H d \<and> 0 \<notin> set d) raws" by (auto simp: list_all_iff)
  have nums: "cfg_queueCapacity c \<in> {1..10000} \<and> cfg_heartbeatMs c \<in> {1..3600000} \<and> cfg_idleDebounceMs c \<in> {1..600000} \<and>
      cfg_httpTimeoutMs c \<in> {1..300000} \<and> cfg_maxRetries c \<in> {1..100}"
    using loaded(4-8) [THEN parseNumericOverride_bounds] by simp
  have slash: "cfg_gatewayUrl c = [] \<or> last (cfg_gatewayUrl c) \<noteq> 47" unfolding u(2) by (rule strip_slashes_end)
  from parseIngestKey_Some [OF k(2)] k(1,3) g(1) u dirs nums slash show ?thesis by blast
qed

text \<open>
  The credential that the gateway issues for a new key, with base64url parts as its generators make
  them, is read back by the plugin as its two parts, with any white space around it; and the
  requests of a sender with these parts carry exactly the credential that was issued.
\<close>

theorem issued_credential_loads:
  assumes "issue_key sha keyId secret rowId now uid name rows = Inr (rows', r, credential)"
    and "BASE64URL_PATTERN keyId" "BASE64URL_PATTERN secret"
    and "env ''NOTIFY_INGEST_KEY'' = Some (before @ credential @ after)" "blank before" "blank after"
  shows "env_text env ''NOTIFY_INGEST_KEY'' = Some credential \<and>
         parseIngestKey credential = Some \<lparr>keyId_part = keyId, secret_part = secret\<rparr> \<and>
         (sender_keyId s = keyId \<and> sender_secret s = secret \<longrightarrow>
            authorizationHeader (signed_request hmac s body time) = js ''Bearer '' @ credential)"
proof -
  have cred: "credential = keyId @ dot # secret" using assms(1) by (auto simp: issue_key_def split: sum.splits prod.splits)
  have space: "\<not> list_ex whitespace credential"
    using base64url_no_space [OF assms(2)] base64url_no_space [OF assms(3)]
    by (simp add: cred whitespace_def dot_def)
  have nonempty: "credential \<noteq> []" by (simp add: cred)
  with space have ne: "credential \<noteq> []" "\<not> whitespace (hd credential)" "\<not> whitespace (last credential)"
    by (simp_all add: list_ex_iff)
  have front: "dropWhile whitespace (b @ x) = x" if "blank b" "x \<noteq> []" "\<not> whitespace (hd x)" for b x
    using that by (induction b) (auto simp: blank_def neq_Nil_conv)
  have "trim (before @ credential @ after) = credential"
    using front [of before "credential @ after"] front [of "rev after" "rev credential"] assms(5,6) ne
    by (simp add: trim_def blank_def list_all_iff hd_rev)
  with assms(4) ne(1) have "env_text env ''NOTIFY_INGEST_KEY'' = Some credential" by (simp add: env_text_def)
  moreover have "parseIngestKey credential = Some \<lparr>keyId_part = keyId, secret_part = secret\<rparr>"
    using assms(2,3) by (simp add: cred parseIngestKey_credential BASE64URL_PATTERN_def)
  ultimately show ?thesis by (simp add: cred signed_request_def Let_def)
qed

lemma trim_decimal: "trim (decimal n) = decimal n"
proof (rule trim_no_space)
  have "list_all is_digit (decimal n)" using all_digits_decimal [of n] by (simp add: all_digits_def)
  then show "\<not> list_ex whitespace (decimal n)"
    by (auto simp: list_all_iff list_ex_iff is_digit_def whitespace_def word_le_nat_alt word_unat_eq_iff)
qed

text \<open>
  Each numeric variable takes exactly the decimal texts from one to its limit: such a text loads as
  its number, and any other number makes the configuration invalid.
\<close>

theorem numeric_override_exact:
  assumes "env (fst (NUMERIC_LIMITS v)) = Some (decimal n)"
  shows "parseNumericOverride env v = (if 1 \<le> n \<and> n \<le> snd (snd (NUMERIC_LIMITS v)) then Some n else None) \<and>
         (\<not> (1 \<le> n \<and> n \<le> snd (snd (NUMERIC_LIMITS v))) \<longrightarrow> loadConfig H env = None)"
proof -
  have ne: "decimal n \<noteq> []" by (metis all_digits_decimal all_digits_def)
  have eq: "parseNumericOverride env v = (if 1 \<le> n \<and> n \<le> snd (snd (NUMERIC_LIMITS v)) then Some n else None)"
    using assms ne by (auto simp: parseNumericOverride_def trim_decimal all_digits_decimal parse_decimal_decimal Let_def
        split: prod.split)
  moreover have "loadConfig H env = None" if "parseNumericOverride env v = None"
    using loadConfig_Some(4-8) [of H env] that by (cases "loadConfig H env"; cases v) auto
  ultimately show ?thesis by simp
qed

text \<open>
  A gateway URL that ends in an empty query or fragment passes the checks, since \<open>search\<close> and
  \<open>hash\<close> are empty then, although its serialization keeps the delimiter: the stored base ends in it
  and every event is posted below a query instead of the events route.
\<close>

theorem empty_query_corrupts_routes:
  assumes "parse_url H raw = Some u" "protocol u = js ''https:''"
    and "username u = []" "password u = []" "url_search u = []" "url_hash u = []"
    and "href u = base @ js ''?''"
  shows "parseGatewayUrl H raw = Some (base @ js ''?'') \<and>
         (gatewayUrl s = base @ js ''?'' \<longrightarrow> url (signed_request hmac s body time) = base @ js ''?/v1/events'')"
proof -
  have "strip_slashes (base @ js ''?'') = base @ js ''?''" by (simp add: strip_slashes_def js_def)
  with assms show ?thesis by (simp add: parseGatewayUrl_def signed_request_def Let_def flip: js_append)
qed

subsection \<open>Witnesses\<close>

definition sample_url :: "url" where
  "sample_url = \<lparr>href = js ''https://h/?'', protocol = js ''https:'', url_hostname = js ''h'', username = [], password = [],
     pathname = js ''/'', url_search = [], url_hash = [], origin = js ''https://h''\<rparr>"

definition sample_host :: host where
  "sample_host = \<lparr>parse_url = (\<lambda>_. Some sample_url), parse_json = (\<lambda>_. Some (JArray [])), host_name = js ''m'',
     isAbsolute = (\<lambda>_. True), normalize = (\<lambda>d. d)\<rparr>"

definition sample_env :: environment where
  "sample_env = [''NOTIFY_GATEWAY_URL'' \<mapsto> js ''g'', ''NOTIFY_INGEST_KEY'' \<mapsto> js ''k.s'', ''NOTIFY_MAX_RETRIES'' \<mapsto> decimal 7]"

lemma trim_sample: "trim (js ''g'') = js ''g''" "trim (js ''k.s'') = js ''k.s''"
  by (simp_all add: trim_no_space js_def whitespace_def)

lemma sample_loads: "\<exists>c. loadConfig sample_host sample_env = Some c"
proof -
  have num: "\<exists>n. parseNumericOverride sample_env v = Some n" for v
    by (cases v) (simp_all add: parseNumericOverride_def sample_env_def trim_decimal all_digits_decimal parse_decimal_decimal)
  have key: "parseIngestKey (js ''k.s'') = Some \<lparr>keyId_part = js ''k'', secret_part = js ''s''\<rparr>"
    by (simp add: parseIngestKey_def js_def dot_def BASE64URL_PATTERN_def base64url_unit_def)
  have base: "parseGatewayUrl sample_host (js ''g'') = Some (js ''https://h/?'')"
    by (simp add: parseGatewayUrl_def sample_host_def sample_url_def strip_slashes_def js_def)
  from num obtain n1 n2 n3 n4 n5 where "parseNumericOverride sample_env QUEUE_CAPACITY = Some n1"
    "parseNumericOverride sample_env HEARTBEAT_MS = Some n2" "parseNumericOverride sample_env IDLE_DEBOUNCE_MS = Some n3"
    "parseNumericOverride sample_env HTTP_TIMEOUT_MS = Some n4" "parseNumericOverride sample_env MAX_RETRIES = Some n5" by metis
  moreover have "BASE64URL_PATTERN (js ''k'')" "BASE64URL_PATTERN (js ''s'')"
    by (simp_all add: BASE64URL_PATTERN_def base64url_unit_def js_def)
  moreover have "env_text sample_env ''NOTIFY_GATEWAY_URL'' = Some (js ''g'')"
    "env_text sample_env ''NOTIFY_INGEST_KEY'' = Some (js ''k.s'')"
    by (simp_all add: env_text_def sample_env_def trim_sample)
  moreover have "remote_directories sample_host sample_env = Some []"
    by (simp add: remote_directories_def sample_host_def)
  moreover have "include_summary sample_env = Some False"
    by (simp add: include_summary_def env_text_def sample_env_def)
  ultimately show ?thesis by (simp add: loadConfig_def key base)
qed

lemma loaded_config_is_safe_witness:
  "\<exists>c. loadConfig sample_host sample_env = Some c \<and> cfg_maxRetries c \<in> {1..100} \<and>
       (cfg_gatewayUrl c = [] \<or> last (cfg_gatewayUrl c) \<noteq> 47)"
proof -
  obtain c where c: "loadConfig sample_host sample_env = Some c" using sample_loads by blast
  from loaded_config_is_safe [OF c] c show ?thesis by blast
qed

lemma issued_credential_loads_witness:
  "env_text [''NOTIFY_INGEST_KEY'' \<mapsto> js '' '' @ js ''k.s''] ''NOTIFY_INGEST_KEY'' = Some (js ''k.s'') \<and>
   parseIngestKey (js ''k.s'') = Some \<lparr>keyId_part = js ''k'', secret_part = js ''s''\<rparr>"
proof -
  have "\<exists>rows' r. issue_key id (js ''k'') (js ''s'') (js ''1'') 0 (js ''u'') (js ''n'') [] = Inr (rows', r, js ''k.s'')"
    by (simp add: issue_key_def create_key_def js_def dot_def Let_def)
  then obtain rows' r where i: "issue_key id (js ''k'') (js ''s'') (js ''1'') 0 (js ''u'') (js ''n'') [] = Inr (rows', r, js ''k.s'')"
    by blast
  have k: "BASE64URL_PATTERN (js ''k'')" "BASE64URL_PATTERN (js ''s'')"
    by (simp_all add: BASE64URL_PATTERN_def base64url_unit_def js_def)
  show ?thesis
    using issued_credential_loads [OF i k, of "[''NOTIFY_INGEST_KEY'' \<mapsto> js '' '' @ js ''k.s'']" "js '' ''" "[]"]
    by (simp add: blank_def js_def whitespace_def)
qed

lemma numeric_override_exact_witness:
  "parseNumericOverride [''NOTIFY_MAX_RETRIES'' \<mapsto> decimal 101] MAX_RETRIES = None \<and>
   loadConfig sample_host [''NOTIFY_MAX_RETRIES'' \<mapsto> decimal 101] = None"
  using numeric_override_exact [of "[''NOTIFY_MAX_RETRIES'' \<mapsto> decimal 101]" MAX_RETRIES 101 sample_host] by simp

lemma empty_query_corrupts_routes_witness:
  "parseGatewayUrl sample_host (js ''https://h/?'') = Some (js ''https://h/?'')"
  using empty_query_corrupts_routes [of sample_host "js ''https://h/?''" sample_url "js ''https://h/''"]
  by (simp add: sample_host_def sample_url_def flip: js_append)

end
