(* ===== verification/GatewayConfig.thy ===== *)
theory GatewayConfig
  imports PluginConfig AccessTokens
begin

section \<open>The gateway's configuration\<close>

text \<open>
  \<open>apps/gateway/src/config.ts\<close> and \<open>port.ts\<close>. Each variable is read by a function that gives its value
  together with the issues it found; the loader lists the issues in the order of the code and returns
  a configuration when there are none. The URL and JSON parsers are those of \<open>host\<close>, base64 is that of
  \<open>codec\<close>.
\<close>

type_synonym issues = "jstr list"

definition LOG_LEVELS :: "jstr list" where
  "LOG_LEVELS = [js ''fatal'', js ''error'', js ''warn'', js ''info'', js ''debug'', js ''trace'', js ''silent'']"

record smtp_config =
  smtp_host :: jstr
  smtp_port :: nat
  smtp_secure :: bool
  smtp_user :: jstr
  smtp_password :: jstr
  smtp_from :: jstr

record gateway_config =
  gw_databaseUrl :: jstr
  gw_publicBaseUrl :: jstr
  gw_jwtSigningKey :: jstr
  gw_smtp :: smtp_config
  gw_firebaseServiceAccountJson :: jstr
  gw_allowedOrigins :: "jstr list"
  gw_logLevel :: jstr
  gw_adminUsername :: jstr
  gw_adminInitialPassword :: jstr

definition DEFAULT_ADMIN_USERNAME :: jstr where "DEFAULT_ADMIN_USERNAME = js ''admin''"
definition DEFAULT_ADMIN_INITIAL_PASSWORD :: jstr where "DEFAULT_ADMIN_INITIAL_PASSWORD = js ''12345678''"
definition DATABASE_URL_PROTOCOLS :: "jstr list" where
  "DATABASE_URL_PROTOCOLS = [js ''postgres:'', js ''postgresql:'']"
definition FIREBASE_REQUIRED_FIELDS :: "string list" where
  "FIREBASE_REQUIRED_FIELDS = [''project_id'', ''client_email'', ''private_key'']"
definition MIN_JWT_SIGNING_KEY_BYTES :: nat where "MIN_JWT_SIGNING_KEY_BYTES = 32"
definition DEFAULT_PORT :: nat where "DEFAULT_PORT = 8080"

subsection \<open>Checks\<close>

definition isBase64OfMinBytes :: "codec \<Rightarrow> jstr \<Rightarrow> nat \<Rightarrow> bool" where
  "isBase64OfMinBytes C value minBytes \<longleftrightarrow>
     length value mod 4 = 0 \<and> base64_shape value \<and> minBytes \<le> length (base64_decode C value)"

definition parseOrigin :: "host \<Rightarrow> jstr \<Rightarrow> jstr option" where
  "parseOrigin H entry =
     (case parse_url H entry of
        None \<Rightarrow> None
      | Some u \<Rightarrow>
          if protocol u \<noteq> js ''https:'' \<and> protocol u \<noteq> js ''http:'' then None
          else if username u \<noteq> [] \<or> password u \<noteq> [] then None
          else if pathname u \<noteq> js ''/'' \<or> url_search u \<noteq> [] \<or> url_hash u \<noteq> [] then None
          else Some (origin u))"

definition read_var :: "environment \<Rightarrow> string \<Rightarrow> issues \<times> jstr" where
  "read_var env name =
     (case env_text env name of None \<Rightarrow> ([js (name @ '' is required'')], []) | Some t \<Rightarrow> ([], t))"

definition readUrl :: "host \<Rightarrow> environment \<Rightarrow> string \<Rightarrow> issues \<times> jstr \<times> url option" where
  "readUrl H env name =
     (let (is, value) = read_var env name in
      if value = [] then (is, value, None)
      else case parse_url H value of
             Some u \<Rightarrow> (is, value, Some u)
           | None \<Rightarrow> (is @ [js (name @ '' must be a valid URL'')], value, None))"

definition database_url :: "host \<Rightarrow> environment \<Rightarrow> issues \<times> jstr" where
  "database_url H env =
     (let (is, value, u) = readUrl H env ''DATABASE_URL'' in
      (is @ (case u of
               Some u' \<Rightarrow> if protocol u' \<notin> set DATABASE_URL_PROTOCOLS
                         then [js ''DATABASE_URL must use the postgres:// or postgresql:// scheme''] else []
             | None \<Rightarrow> []), value))"

definition public_base_url :: "host \<Rightarrow> environment \<Rightarrow> issues \<times> jstr" where
  "public_base_url H env =
     (let (is, value, u) = readUrl H env ''PUBLIC_BASE_URL'' in
      (is @ (case u of
               Some u' \<Rightarrow> if protocol u' \<noteq> js ''https:''
                         then [js ''PUBLIC_BASE_URL must use the https:// scheme''] else []
             | None \<Rightarrow> []), value))"

definition jwt_signing_key :: "codec \<Rightarrow> environment \<Rightarrow> issues \<times> jstr" where
  "jwt_signing_key C env =
     (let (is, value) = read_var env ''JWT_SIGNING_KEY'' in
      (is @ (if value \<noteq> [] \<and> \<not> isBase64OfMinBytes C value MIN_JWT_SIGNING_KEY_BYTES
             then [js ''JWT_SIGNING_KEY must be base64 decoding to at least '' @ decimal MIN_JWT_SIGNING_KEY_BYTES
                   @ js '' bytes''] else []), value))"

definition smtp_port_issue :: jstr where
  "smtp_port_issue = js ''SMTP_PORT must be an integer between 1 and 65535''"

definition smtp_port_var :: "environment \<Rightarrow> issues \<times> nat" where
  "smtp_port_var env =
     (let (is, value) = read_var env ''SMTP_PORT'' in
      if value = [] then (is, 0)
      else if \<not> all_digits value then (is @ [smtp_port_issue], 0)
      else let p = parse_decimal value in (is @ (if p < 1 \<or> 65535 < p then [smtp_port_issue] else []), p))"

definition smtp_secure_var :: "environment \<Rightarrow> issues \<times> bool" where
  "smtp_secure_var env =
     (let (is, value) = read_var env ''SMTP_SECURE'' in
      if value = [] then (is, False)
      else if value = js ''true'' then (is, True)
      else if value = js ''false'' then (is, False)
      else (is @ [js ''SMTP_SECURE must be \"true\" or \"false\"''], False))"

text \<open>\<open>typeof parsed === "object"\<close> also holds of an array, which has no such fields.\<close>

definition firebase_missing :: "json \<Rightarrow> string list" where
  "firebase_missing parsed =
     filter (\<lambda>f. case field parsed f of Some (JString s) \<Rightarrow> trim s = [] | _ \<Rightarrow> True) FIREBASE_REQUIRED_FIELDS"

definition firebase_var :: "host \<Rightarrow> environment \<Rightarrow> issues \<times> jstr" where
  "firebase_var H env =
     (let (is, value) = read_var env ''FIREBASE_SERVICE_ACCOUNT_JSON'' in
      if value = [] then (is, value)
      else case parse_json H value of
             None \<Rightarrow> (is @ [js ''FIREBASE_SERVICE_ACCOUNT_JSON must be valid JSON''], value)
           | Some parsed \<Rightarrow>
               (is @ (if firebase_missing parsed \<noteq> []
                      then [js ''FIREBASE_SERVICE_ACCOUNT_JSON requires non-empty fields: ''
                            @ join_with (js '', '') (map js (firebase_missing parsed))] else []), value))"

definition origin_issue :: "nat \<Rightarrow> jstr" where
  "origin_issue n =
     js ''ALLOWED_ORIGINS entry '' @ decimal n
     @ js '' must be an absolute http(s) origin without credentials, path, query, or fragment''"

fun origin_entries :: "host \<Rightarrow> nat \<Rightarrow> jstr list \<Rightarrow> issues \<times> jstr list" where
  "origin_entries H i [] = ([], [])"
| "origin_entries H i (e # es) =
     (let (is, os) = origin_entries H (Suc i) es in
      case parseOrigin H e of
        None \<Rightarrow> (origin_issue (i + 1) # is, os)
      | Some o' \<Rightarrow> (is, o' # os))"

definition allowed_entries :: "jstr \<Rightarrow> jstr list" where
  "allowed_entries value = filter (\<lambda>e. e \<noteq> []) (map trim (split_on [44] value))"

definition allowed_origins :: "host \<Rightarrow> environment \<Rightarrow> issues \<times> jstr list" where
  "allowed_origins H env =
     (let (is, value) = read_var env ''ALLOWED_ORIGINS'' in
      if value = [] then (is, [])
      else let entries = allowed_entries value;
               (is', os) = origin_entries H 0 entries
           in (is @ (if entries = [] then [js ''ALLOWED_ORIGINS must list at least one origin''] else []) @ is', os))"

definition log_level :: "environment \<Rightarrow> issues \<times> jstr" where
  "log_level env =
     (let (is, value) = read_var env ''LOG_LEVEL'' in
      if value = [] then (is, js ''info'')
      else if value \<in> set LOG_LEVELS then (is, value)
      else (is @ [js ''LOG_LEVEL must be one of '' @ join_with (js '', '') LOG_LEVELS], js ''info''))"

definition admin_username :: "environment \<Rightarrow> issues \<times> jstr" where
  "admin_username env =
     (let value = (case env_text env ''ADMIN_USERNAME'' of None \<Rightarrow> DEFAULT_ADMIN_USERNAME | Some t \<Rightarrow> t) in
      (if 64 < length value then [js ''ADMIN_USERNAME must be at most 64 characters''] else [], value))"

definition admin_password :: "environment \<Rightarrow> issues \<times> jstr" where
  "admin_password env =
     (let value = (case env_text env ''ADMIN_INITIAL_PASSWORD'' of None \<Rightarrow> DEFAULT_ADMIN_INITIAL_PASSWORD | Some t \<Rightarrow> t) in
      (if length value < 8 \<or> 128 < length value
       then [js ''ADMIN_INITIAL_PASSWORD must be between 8 and 128 characters''] else [], value))"

definition load_gateway_config :: "host \<Rightarrow> codec \<Rightarrow> environment \<Rightarrow> issues + gateway_config" where
  "load_gateway_config H C env =
     (let (i1, databaseUrl) = database_url H env;
          (i2, publicBaseUrl) = public_base_url H env;
          (i3, jwtSigningKey) = jwt_signing_key C env;
          (i4, smtpHost) = read_var env ''SMTP_HOST'';
          (i5, smtpPort) = smtp_port_var env;
          (i6, smtpSecure) = smtp_secure_var env;
          (i7, smtpUser) = read_var env ''SMTP_USER'';
          (i8, smtpPassword) = read_var env ''SMTP_PASSWORD'';
          (i9, smtpFrom) = read_var env ''SMTP_FROM'';
          (i10, firebase) = firebase_var H env;
          (i11, origins) = allowed_origins H env;
          (i12, logLevel) = log_level env;
          (i13, adminUsername) = admin_username env;
          (i14, adminPassword) = admin_password env;
          issues = i1 @ i2 @ i3 @ i4 @ i5 @ i6 @ i7 @ i8 @ i9 @ i10 @ i11 @ i12 @ i13 @ i14
      in if issues \<noteq> [] then Inl issues
         else Inr \<lparr>gw_databaseUrl = databaseUrl, gw_publicBaseUrl = publicBaseUrl, gw_jwtSigningKey = jwtSigningKey,
                   gw_smtp = \<lparr>smtp_host = smtpHost, smtp_port = smtpPort, smtp_secure = smtpSecure,
                             smtp_user = smtpUser, smtp_password = smtpPassword, smtp_from = smtpFrom\<rparr>,
                   gw_firebaseServiceAccountJson = firebase, gw_allowedOrigins = origins, gw_logLevel = logLevel,
                   gw_adminUsername = adminUsername, gw_adminInitialPassword = adminPassword\<rparr>)"

definition port_issue :: jstr where
  "port_issue = js ''PORT must be an integer between 1 and 65535''"

definition resolvePort :: "environment \<Rightarrow> issues + nat" where
  "resolvePort env =
     (case env_text env ''PORT'' of
        None \<Rightarrow> Inr DEFAULT_PORT
      | Some value \<Rightarrow>
          if \<not> all_digits value then Inl [port_issue]
          else let p = parse_decimal value in if p < 1 \<or> 65535 < p then Inl [port_issue] else Inr p)"

subsection \<open>What each check accepts\<close>

text \<open>The issues of a load, and its configuration when there are none.\<close>

definition all_issues :: "host \<Rightarrow> codec \<Rightarrow> environment \<Rightarrow> issues" where
  "all_issues H C env =
     fst (database_url H env) @ fst (public_base_url H env) @ fst (jwt_signing_key C env) @ fst (read_var env ''SMTP_HOST'')
     @ fst (smtp_port_var env) @ fst (smtp_secure_var env) @ fst (read_var env ''SMTP_USER'')
     @ fst (read_var env ''SMTP_PASSWORD'') @ fst (read_var env ''SMTP_FROM'') @ fst (firebase_var H env)
     @ fst (allowed_origins H env) @ fst (log_level env) @ fst (admin_username env) @ fst (admin_password env)"

lemma load_issues: "load_gateway_config H C env = Inl is \<longleftrightarrow> all_issues H C env = is \<and> is \<noteq> []"
  unfolding load_gateway_config_def all_issues_def Let_def case_prod_unfold by auto

lemma load_fields:
  assumes "load_gateway_config H C env = Inr c"
  shows "all_issues H C env = []"
    and "c = \<lparr>gw_databaseUrl = snd (database_url H env), gw_publicBaseUrl = snd (public_base_url H env),
              gw_jwtSigningKey = snd (jwt_signing_key C env),
              gw_smtp = \<lparr>smtp_host = snd (read_var env ''SMTP_HOST''), smtp_port = snd (smtp_port_var env),
                smtp_secure = snd (smtp_secure_var env), smtp_user = snd (read_var env ''SMTP_USER''),
                smtp_password = snd (read_var env ''SMTP_PASSWORD''), smtp_from = snd (read_var env ''SMTP_FROM'')\<rparr>,
              gw_firebaseServiceAccountJson = snd (firebase_var H env), gw_allowedOrigins = snd (allowed_origins H env),
              gw_logLevel = snd (log_level env), gw_adminUsername = snd (admin_username env),
              gw_adminInitialPassword = snd (admin_password env)\<rparr>"
  using assms unfolding load_gateway_config_def all_issues_def Let_def case_prod_unfold by (auto split: if_splits)

lemma read_var_ok: "fst (read_var env x) = [] \<Longrightarrow> env_text env x = Some (snd (read_var env x)) \<and> snd (read_var env x) \<noteq> []"
  by (auto simp: read_var_def split: option.splits dest: env_text_Some)

lemma database_url_ok:
  assumes "fst (database_url H env) = []"
  shows "\<exists>u. parse_url H (snd (database_url H env)) = Some u \<and> protocol u \<in> set DATABASE_URL_PROTOCOLS"
  using assms read_var_ok [of env "''DATABASE_URL''"]
  by (auto simp: database_url_def readUrl_def Let_def case_prod_unfold split: option.splits if_splits)

lemma public_base_url_ok:
  assumes "fst (public_base_url H env) = []"
  shows "\<exists>u. parse_url H (snd (public_base_url H env)) = Some u \<and> protocol u = js ''https:''"
  using assms read_var_ok [of env "''PUBLIC_BASE_URL''"]
  by (auto simp: public_base_url_def readUrl_def Let_def case_prod_unfold split: option.splits if_splits)

lemma jwt_signing_key_ok:
  assumes "fst (jwt_signing_key C env) = []"
  shows "isBase64OfMinBytes C (snd (jwt_signing_key C env)) MIN_JWT_SIGNING_KEY_BYTES"
  using assms read_var_ok [of env "''JWT_SIGNING_KEY''"]
  by (auto simp: jwt_signing_key_def Let_def case_prod_unfold split: if_splits)

lemma smtp_port_ok:
  assumes "fst (smtp_port_var env) = []"
  shows "1 \<le> snd (smtp_port_var env) \<and> snd (smtp_port_var env) \<le> 65535"
  using assms read_var_ok [of env "''SMTP_PORT''"]
  by (auto simp: smtp_port_var_def Let_def case_prod_unfold split: if_splits)

lemma firebase_ok:
  assumes "fst (firebase_var H env) = []"
  shows "\<exists>v. parse_json H (snd (firebase_var H env)) = Some v \<and> firebase_missing v = []"
  using assms read_var_ok [of env "''FIREBASE_SERVICE_ACCOUNT_JSON''"]
  by (auto simp: firebase_var_def Let_def case_prod_unfold split: option.splits if_splits)

lemma origin_entries_ok:
  "fst (origin_entries H i es) = [] \<Longrightarrow> map (parseOrigin H) es = map Some (snd (origin_entries H i es))"
  by (induction H i es rule: origin_entries.induct) (auto split: option.splits simp: Let_def case_prod_unfold)

lemma allowed_origins_ok:
  assumes "fst (allowed_origins H env) = []"
  shows "\<exists>es. es \<noteq> [] \<and> map (parseOrigin H) es = map Some (snd (allowed_origins H env))"
  using assms read_var_ok [of env "''ALLOWED_ORIGINS''"] origin_entries_ok [of H 0]
  by (auto simp: allowed_origins_def Let_def case_prod_unfold split: if_splits)

lemma log_level_ok: "snd (log_level env) \<in> set LOG_LEVELS"
  by (auto simp: log_level_def Let_def case_prod_unfold LOG_LEVELS_def)

text \<open>
  A gateway that starts has a complete configuration: a PostgreSQL URL, an https public base, a
  signing key that decodes to at least 32 bytes, an SMTP port in range, a service account with all its
  fields, at least one allowed origin, each of them the normalized origin of a listed entry, a known log
  level, and administrator defaults within their bounds; the mail account is not blank.
\<close>

theorem gateway_config_complete:
  assumes "load_gateway_config H C env = Inr c"
  shows "(\<exists>u. parse_url H (gw_databaseUrl c) = Some u \<and> protocol u \<in> set DATABASE_URL_PROTOCOLS) \<and>
         (\<exists>u. parse_url H (gw_publicBaseUrl c) = Some u \<and> protocol u = js ''https:'') \<and>
         MIN_JWT_SIGNING_KEY_BYTES \<le> length (base64_decode C (gw_jwtSigningKey c)) \<and>
         smtp_port (gw_smtp c) \<in> {1..65535} \<and>
         [] \<notin> {smtp_host (gw_smtp c), smtp_user (gw_smtp c), smtp_password (gw_smtp c), smtp_from (gw_smtp c)} \<and>
         (\<exists>v. parse_json H (gw_firebaseServiceAccountJson c) = Some v \<and> firebase_missing v = []) \<and>
         (\<exists>es. es \<noteq> [] \<and> map (parseOrigin H) es = map Some (gw_allowedOrigins c)) \<and>
         gw_logLevel c \<in> set LOG_LEVELS \<and>
         length (gw_adminUsername c) \<le> 64 \<and> length (gw_adminInitialPassword c) \<in> {8..128}"
proof -
  have none: "fst (database_url H env) = []" "fst (public_base_url H env) = []" "fst (jwt_signing_key C env) = []"
    "fst (read_var env ''SMTP_HOST'') = []" "fst (smtp_port_var env) = []" "fst (read_var env ''SMTP_USER'') = []"
    "fst (read_var env ''SMTP_PASSWORD'') = []" "fst (read_var env ''SMTP_FROM'') = []" "fst (firebase_var H env) = []"
    "fst (allowed_origins H env) = []" "fst (admin_username env) = []" "fst (admin_password env) = []"
    using load_fields(1) [OF assms] by (simp_all add: all_issues_def)
  have key: "MIN_JWT_SIGNING_KEY_BYTES \<le> length (base64_decode C (snd (jwt_signing_key C env)))"
    using jwt_signing_key_ok [OF none(3)] by (simp add: isBase64OfMinBytes_def)
  have admin: "length (snd (admin_username env)) \<le> 64" "length (snd (admin_password env)) \<in> {8..128}"
    using none(11,12) by (auto simp: admin_username_def admin_password_def Let_def split: if_splits)
  have mail: "[] \<notin> {snd (read_var env ''SMTP_HOST''), snd (read_var env ''SMTP_USER''), snd (read_var env ''SMTP_PASSWORD''),
      snd (read_var env ''SMTP_FROM'')}"
    using none(4,6,7,8) [THEN read_var_ok] by auto
  show ?thesis
    using database_url_ok [OF none(1)] public_base_url_ok [OF none(2)] key smtp_port_ok [OF none(5)] mail
      firebase_ok [OF none(9)] allowed_origins_ok [OF none(10)] log_level_ok [of env] admin
    unfolding load_fields(2) [OF assms] by simp
qed

subsection \<open>What an error says\<close>

text \<open>The texts that name variables and limits only.\<close>

definition fixed_issues :: "jstr set" where
  "fixed_issues =
     (\<lambda>x. js (x @ '' is required'')) ` {''DATABASE_URL'', ''PUBLIC_BASE_URL'', ''JWT_SIGNING_KEY'', ''SMTP_HOST'', ''SMTP_PORT'',
        ''SMTP_SECURE'', ''SMTP_USER'', ''SMTP_PASSWORD'', ''SMTP_FROM'', ''FIREBASE_SERVICE_ACCOUNT_JSON'', ''ALLOWED_ORIGINS'',
        ''LOG_LEVEL''} \<union>
     (\<lambda>x. js (x @ '' must be a valid URL'')) ` {''DATABASE_URL'', ''PUBLIC_BASE_URL''} \<union>
     {js ''DATABASE_URL must use the postgres:// or postgresql:// scheme'', js ''PUBLIC_BASE_URL must use the https:// scheme'',
      js ''JWT_SIGNING_KEY must be base64 decoding to at least '' @ decimal MIN_JWT_SIGNING_KEY_BYTES @ js '' bytes'',
      smtp_port_issue, js ''SMTP_SECURE must be \"true\" or \"false\"'',
      js ''FIREBASE_SERVICE_ACCOUNT_JSON must be valid JSON'', js ''ALLOWED_ORIGINS must list at least one origin'',
      js ''LOG_LEVEL must be one of '' @ join_with (js '', '') LOG_LEVELS,
      js ''ADMIN_USERNAME must be at most 64 characters'', js ''ADMIN_INITIAL_PASSWORD must be between 8 and 128 characters''}"

text \<open>The texts that count entries or list missing fields.\<close>

definition listing_issues :: "jstr set" where
  "listing_issues = range origin_issue \<union>
     {js ''FIREBASE_SERVICE_ACCOUNT_JSON requires non-empty fields: '' @ join_with (js '', '') (map js fs) | fs.
        set fs \<subseteq> set FIREBASE_REQUIRED_FIELDS}"

lemma origin_entries_issues: "set (fst (origin_entries H i es)) \<subseteq> range origin_issue"
  by (induction H i es rule: origin_entries.induct) (auto split: option.splits simp: Let_def case_prod_unfold)

lemma missing_listed:
  "js ''FIREBASE_SERVICE_ACCOUNT_JSON requires non-empty fields: '' @ join_with (js '', '') (map js (firebase_missing v))
   \<in> listing_issues"
proof -
  have "set (firebase_missing v) \<subseteq> set FIREBASE_REQUIRED_FIELDS" by (auto simp: firebase_missing_def)
  then show ?thesis unfolding listing_issues_def by blast
qed

lemma firebase_issues: "set (fst (firebase_var H env)) \<subseteq> fixed_issues \<union> listing_issues"
  using missing_listed
  by (auto simp: firebase_var_def read_var_def Let_def fixed_issues_def split: option.splits if_splits)

lemma origins_issues: "set (fst (allowed_origins H env)) \<subseteq> fixed_issues \<union> listing_issues"
proof -
  have "set (fst (origin_entries H 0 es)) \<subseteq> listing_issues" for es
    using origin_entries_issues [of H 0 es] unfolding listing_issues_def by blast
  then show ?thesis
    by (auto simp: allowed_origins_def read_var_def Let_def case_prod_unfold fixed_issues_def split: option.splits if_splits)
qed

lemmas check_defs = database_url_def public_base_url_def jwt_signing_key_def smtp_port_var_def smtp_secure_var_def
  log_level_def admin_username_def admin_password_def readUrl_def read_var_def Let_def

lemma other_issues:
  "set (fst (database_url H env)) \<subseteq> fixed_issues" "set (fst (public_base_url H env)) \<subseteq> fixed_issues"
  "set (fst (jwt_signing_key C env)) \<subseteq> fixed_issues" "set (fst (smtp_port_var env)) \<subseteq> fixed_issues"
  "set (fst (smtp_secure_var env)) \<subseteq> fixed_issues" "set (fst (log_level env)) \<subseteq> fixed_issues"
  "set (fst (admin_username env)) \<subseteq> fixed_issues" "set (fst (admin_password env)) \<subseteq> fixed_issues"
  by (auto simp: check_defs fixed_issues_def split: option.splits if_splits)

lemma mail_issues:
  "x \<in> {''SMTP_HOST'', ''SMTP_USER'', ''SMTP_PASSWORD'', ''SMTP_FROM''} \<Longrightarrow> set (fst (read_var env x)) \<subseteq> fixed_issues"
  by (auto simp: read_var_def fixed_issues_def split: option.splits)

text \<open>
  A rejected configuration says why, and its messages name variables, limits, fields and positions
  only: whatever the environment holds, no value of it reaches the error.
\<close>

theorem config_error_hides_values:
  assumes "load_gateway_config H C env = Inl is"
  shows "is \<noteq> [] \<and> set is \<subseteq> fixed_issues \<union> listing_issues"
proof -
  have mail: "set (fst (read_var env ''SMTP_HOST'')) \<subseteq> fixed_issues" "set (fst (read_var env ''SMTP_USER'')) \<subseteq> fixed_issues"
    "set (fst (read_var env ''SMTP_PASSWORD'')) \<subseteq> fixed_issues" "set (fst (read_var env ''SMTP_FROM'')) \<subseteq> fixed_issues"
    by (intro mail_issues; simp)+
  have "set (all_issues H C env) \<subseteq> fixed_issues \<union> listing_issues"
    unfolding all_issues_def set_append Un_subset_iff
    by (intro conjI firebase_issues origins_issues le_supI1 other_issues mail)
  with assms show ?thesis by (simp add: load_issues)
qed

subsection \<open>Witnesses\<close>

definition gateway_host :: host where
  "gateway_host = sample_host\<lparr>
     parse_url := (\<lambda>r. Some (sample_url\<lparr>protocol := (if r = js ''d'' then js ''postgres:'' else js ''https:'')\<rparr>)),
     parse_json := (\<lambda>_. Some (JObject [(js ''project_id'', JString (js ''p'')), (js ''client_email'', JString (js ''p'')),
                                      (js ''private_key'', JString (js ''p''))]))\<rparr>"

definition gateway_codec :: codec where
  "gateway_codec = \<lparr>encode_json = (\<lambda>_. []), decode_json = (\<lambda>_. None), encode_bytes = (\<lambda>_. []), decode_bytes = (\<lambda>_. []),
     mac = (\<lambda>_ _. []), base64_decode = (\<lambda>_. replicate 32 0), base64_encode = (\<lambda>_. [])\<rparr>"

definition gateway_env :: environment where
  "gateway_env = [''DATABASE_URL'' \<mapsto> js ''d'', ''PUBLIC_BASE_URL'' \<mapsto> js ''p'', ''JWT_SIGNING_KEY'' \<mapsto> js ''AAAA'',
     ''SMTP_HOST'' \<mapsto> js ''h'', ''SMTP_PORT'' \<mapsto> decimal 25, ''SMTP_SECURE'' \<mapsto> js ''true'', ''SMTP_USER'' \<mapsto> js ''u'',
     ''SMTP_PASSWORD'' \<mapsto> js ''w'', ''SMTP_FROM'' \<mapsto> js ''f'', ''FIREBASE_SERVICE_ACCOUNT_JSON'' \<mapsto> js ''j'',
     ''ALLOWED_ORIGINS'' \<mapsto> js ''o'', ''LOG_LEVEL'' \<mapsto> js ''info'']"

lemma trim_js: "list_all (\<lambda>c. \<not> whitespace (word_of_nat (of_char c))) s \<Longrightarrow> trim (js s) = js s"
  by (rule trim_no_space) (simp add: js_def list_all_iff list_ex_iff)

lemma sample_texts:
  "trim (js ''d'') = js ''d''" "trim (js ''p'') = js ''p''" "trim (js ''AAAA'') = js ''AAAA''" "trim (js ''h'') = js ''h''"
  "trim (js ''true'') = js ''true''" "trim (js ''u'') = js ''u''" "trim (js ''w'') = js ''w''" "trim (js ''f'') = js ''f''"
  "trim (js ''j'') = js ''j''" "trim (js ''o'') = js ''o''" "trim (js ''info'') = js ''info''"
  by (simp_all add: trim_js whitespace_def)

lemma sample_reads:
  "env_text gateway_env ''DATABASE_URL'' = Some (js ''d'')" "env_text gateway_env ''PUBLIC_BASE_URL'' = Some (js ''p'')"
  "env_text gateway_env ''JWT_SIGNING_KEY'' = Some (js ''AAAA'')" "env_text gateway_env ''SMTP_HOST'' = Some (js ''h'')"
  "env_text gateway_env ''SMTP_PORT'' = Some (decimal 25)" "env_text gateway_env ''SMTP_SECURE'' = Some (js ''true'')"
  "env_text gateway_env ''SMTP_USER'' = Some (js ''u'')" "env_text gateway_env ''SMTP_PASSWORD'' = Some (js ''w'')"
  "env_text gateway_env ''SMTP_FROM'' = Some (js ''f'')" "env_text gateway_env ''FIREBASE_SERVICE_ACCOUNT_JSON'' = Some (js ''j'')"
  "env_text gateway_env ''ALLOWED_ORIGINS'' = Some (js ''o'')" "env_text gateway_env ''LOG_LEVEL'' = Some (js ''info'')"
  "env_text gateway_env ''ADMIN_USERNAME'' = None" "env_text gateway_env ''ADMIN_INITIAL_PASSWORD'' = None"
  using all_digits_decimal [of 25]
  by (simp_all add: env_text_def gateway_env_def sample_texts trim_decimal all_digits_def)

lemma sample_no_issues: "all_issues gateway_host gateway_codec gateway_env = []"
proof -
  have "split_on [44] (js ''o'') = [js ''o'']" by (simp add: split_on_def js_def)
  moreover have "fst (database_url gateway_host gateway_env) = []" "fst (public_base_url gateway_host gateway_env) = []"
    by (simp_all add: database_url_def public_base_url_def readUrl_def read_var_def sample_reads gateway_host_def sample_host_def
        sample_url_def DATABASE_URL_PROTOCOLS_def)
  moreover have "fst (jwt_signing_key gateway_codec gateway_env) = []"
    by (simp add: jwt_signing_key_def read_var_def sample_reads isBase64OfMinBytes_def gateway_codec_def base64_shape_def
        base64_unit_def js_def MIN_JWT_SIGNING_KEY_BYTES_def)
  moreover have "fst (firebase_var gateway_host gateway_env) = []"
    by (simp add: firebase_var_def read_var_def sample_reads gateway_host_def firebase_missing_def FIREBASE_REQUIRED_FIELDS_def
        field_def sample_texts)
  moreover have "fst (smtp_port_var gateway_env) = []"
    using all_digits_decimal [of 25]
    by (simp add: smtp_port_var_def read_var_def sample_reads parse_decimal_decimal all_digits_def Let_def)
  ultimately show ?thesis
    by (simp add: all_issues_def smtp_secure_var_def allowed_origins_def allowed_entries_def log_level_def admin_username_def
        admin_password_def read_var_def sample_reads sample_texts Let_def parseOrigin_def gateway_host_def sample_host_def
        sample_url_def LOG_LEVELS_def DEFAULT_ADMIN_USERNAME_def DEFAULT_ADMIN_INITIAL_PASSWORD_def)
qed

lemma gateway_config_complete_witness:
  "\<exists>c. load_gateway_config gateway_host gateway_codec gateway_env = Inr c \<and> smtp_port (gw_smtp c) \<in> {1..65535}"
proof -
  obtain c where c: "load_gateway_config gateway_host gateway_codec gateway_env = Inr c"
    using load_issues [of gateway_host gateway_codec gateway_env] sample_no_issues by (metis sum.exhaust)
  from gateway_config_complete [OF c] c show ?thesis by blast
qed

lemma config_error_hides_values_witness:
  "\<exists>is. load_gateway_config gateway_host gateway_codec Map.empty = Inl is \<and> set is \<subseteq> fixed_issues \<union> listing_issues"
proof -
  have "all_issues gateway_host gateway_codec Map.empty \<noteq> []"
    by (simp add: all_issues_def read_var_def env_text_def)
  then obtain "is" where i: "load_gateway_config gateway_host gateway_codec Map.empty = Inl is"
    using load_issues by blast
  from config_error_hides_values [OF i] i show ?thesis by blast
qed

end
