(* ===== verification/ControlFrames.thy ===== *)
theory ControlFrames
  imports Contracts InstanceRegistry
begin

section \<open>Frames of the control channel\<close>

text \<open>
  What the plugin reads from the gateway (\<open>parseAnswerCommand\<close>, \<open>parseDecisionCommand\<close>,
  \<open>parsePromptCommand\<close>, \<open>parseWebUiRequest\<close> and the dispatch of \<open>onServerFrame\<close> in
  \<open>control-channel.ts\<close>), as a function of the parsed frame, and the frames that the gateway's registry
  sends, as the objects of its \<open>send\<close> calls. Both sides meet in the property that the plugin reads back
  what the gateway sent.
\<close>

subsection \<open>Commands\<close>

datatype decision = Once | Reject | Always

record answer_command =
  ac_commandId :: jstr
  ac_requestId :: jstr
  ac_sessionID :: jstr
  ac_answers :: "jstr list list"

record decide_command =
  dc_commandId :: jstr
  dc_requestId :: jstr
  dc_sessionID :: jstr
  dc_decision :: decision

record prompt_command =
  pr_commandId :: jstr
  pr_sessionID :: jstr
  pr_text :: jstr

record webui_request =
  wr_tunnelId :: jstr
  wr_requestId :: jstr
  wr_method :: jstr
  wr_path :: jstr
  wr_headers :: "(jstr, jstr list) jsmap"
  wr_body :: "jstr option"

text \<open>All or nothing: a list of values of which each must be of the wanted shape.\<close>

fun all_of :: "('a \<Rightarrow> 'b option) \<Rightarrow> 'a list \<Rightarrow> 'b list option" where
  "all_of f [] = Some []"
| "all_of f (x # xs) =
     (case f x of None \<Rightarrow> None | Some y \<Rightarrow> map_option (Cons y) (all_of f xs))"

definition nonempty_string :: "json \<Rightarrow> jstr option" where
  "nonempty_string v = (case v of JString s \<Rightarrow> if s = [] then None else Some s | _ \<Rightarrow> None)"

definition nonempty_list :: "(json \<Rightarrow> 'b option) \<Rightarrow> json \<Rightarrow> 'b list option" where
  "nonempty_list f v = (case v of JArray vs \<Rightarrow> if vs = [] then None else all_of f vs | _ \<Rightarrow> None)"

text \<open>\<open>isQuestionAnswers\<close>, with the answers it has checked.\<close>

definition question_answers :: "json option \<Rightarrow> jstr list list option" where
  "question_answers v = (case v of Some w \<Rightarrow> nonempty_list (nonempty_list nonempty_string) w | None \<Rightarrow> None)"

definition uuid_of :: "json option \<Rightarrow> jstr option" where
  "uuid_of v = (if isUuid v then asString v else None)"

definition parseAnswerCommand :: "json \<Rightarrow> answer_command option" where
  "parseAnswerCommand frame =
     (case (uuid_of (field frame ''commandId''), asNonEmptyString (field frame ''requestId''),
            asNonEmptyString (field frame ''sessionID''), question_answers (field frame ''answers'')) of
        (Some c, Some r, Some s, Some a) \<Rightarrow>
          Some \<lparr>ac_commandId = c, ac_requestId = r, ac_sessionID = s, ac_answers = a\<rparr>
      | _ \<Rightarrow> None)"

definition decision_of :: "json option \<Rightarrow> decision option" where
  "decision_of v =
     (case v of
        Some (JString d) \<Rightarrow>
          if d = js ''once'' then Some Once else if d = js ''reject'' then Some Reject
          else if d = js ''always'' then Some Always else None
      | _ \<Rightarrow> None)"

definition parseDecisionCommand :: "json \<Rightarrow> decide_command option" where
  "parseDecisionCommand frame =
     (case (uuid_of (field frame ''commandId''), asNonEmptyString (field frame ''requestId''),
            asNonEmptyString (field frame ''sessionID''), decision_of (field frame ''decision'')) of
        (Some c, Some r, Some s, Some d) \<Rightarrow>
          Some \<lparr>dc_commandId = c, dc_requestId = r, dc_sessionID = s, dc_decision = d\<rparr>
      | _ \<Rightarrow> None)"

definition prompt_text :: "json option \<Rightarrow> jstr option" where
  "prompt_text v =
     (case v of Some (JString t) \<Rightarrow> if trim t = [] \<or> 32000 < length t then None else Some t | _ \<Rightarrow> None)"

definition parsePromptCommand :: "json \<Rightarrow> prompt_command option" where
  "parsePromptCommand frame =
     (case (uuid_of (field frame ''commandId''), asNonEmptyString (field frame ''sessionID''), prompt_text (field frame ''text'')) of
        (Some c, Some s, Some t) \<Rightarrow> Some \<lparr>pr_commandId = c, pr_sessionID = s, pr_text = t\<rparr>
      | _ \<Rightarrow> None)"

text \<open>\<open>Object.entries\<close>: each name once, with its last value.\<close>

definition object_entries :: "(jstr \<times> json) list \<Rightarrow> (jstr, json) jsmap" where
  "object_entries ps = fold (\<lambda>(k, v). map_set k v) ps []"

definition string_array :: "json \<Rightarrow> jstr list option" where
  "string_array v = (case v of JArray vs \<Rightarrow> all_of (\<lambda>x. case x of JString s \<Rightarrow> Some s | _ \<Rightarrow> None) vs | _ \<Rightarrow> None)"

definition header_lists :: "json option \<Rightarrow> (jstr, jstr list) jsmap option" where
  "header_lists v =
     (case v of
        Some (JObject ps) \<Rightarrow> all_of (\<lambda>(k, x). map_option (Pair k) (string_array x)) (object_entries ps)
      | _ \<Rightarrow> None)"

definition body_text :: "json option \<Rightarrow> jstr option option" where
  "body_text v =
     (case v of
        None \<Rightarrow> Some None
      | Some (JString b) \<Rightarrow> if 700000 < length b then None else Some (Some b)
      | _ \<Rightarrow> None)"

definition parseWebUiRequest :: "json \<Rightarrow> webui_request option" where
  "parseWebUiRequest frame =
     (case (uuid_of (field frame ''tunnelId''), uuid_of (field frame ''requestId'')) of
        (Some t, Some r) \<Rightarrow>
          if \<not> string_between 1 16 (field frame ''method'') \<or> \<not> string_between 1 8192 (field frame ''path'') then None
          else (case (header_lists (field frame ''headers''), body_text (field frame ''body'')) of
                  (Some hs, Some b) \<Rightarrow>
                    Some \<lparr>wr_tunnelId = t, wr_requestId = r, wr_method = string_of (field frame ''method''),
                          wr_path = string_of (field frame ''path''), wr_headers = hs, wr_body = b\<rparr>
                | _ \<Rightarrow> None)
      | _ \<Rightarrow> None)"

text \<open>\<open>validateSessionCatalogQuery\<close>: the compiled schema of \<open>sessions.ts\<close>.\<close>

definition catalog_id_unit :: "16 word \<Rightarrow> bool" where
  "catalog_id_unit u \<longleftrightarrow>
     65 \<le> u \<and> u \<le> 90 \<or> 97 \<le> u \<and> u \<le> 122 \<or> 48 \<le> u \<and> u \<le> 57 \<or> u = 95 \<or> u = 44 \<or> u = 46 \<or> u = 45"

definition validateSessionCatalogQuery :: "json option \<Rightarrow> bool" where
  "validateSessionCatalogQuery v =
     (case v of
        Some (JObject ps) \<Rightarrow>
          list_all (\<lambda>(k, _). k = js ''search'' \<or> k = js ''limit'' \<or> k = js ''sessionIds'') ps \<and>
          (case field (JObject ps) ''search'' of
             None \<Rightarrow> True | Some (JString s) \<Rightarrow> maxLength 200 s | _ \<Rightarrow> False) \<and>
          (case field (JObject ps) ''limit'' of
             None \<Rightarrow> True | Some (JNumber n) \<Rightarrow> (case positiveInteger n of Some k \<Rightarrow> k \<le> 200 | None \<Rightarrow> False) | _ \<Rightarrow> False) \<and>
          (case field (JObject ps) ''sessionIds'' of
             None \<Rightarrow> True | Some (JString s) \<Rightarrow> maxLength 4096 s \<and> list_all catalog_id_unit s | _ \<Rightarrow> False)
      | _ \<Rightarrow> False)"

subsection \<open>What a frame asks for\<close>

datatype server_request =
    ConfirmsRegistration
  | AsksCatalog jstr json
  | CancelsRequest jstr jstr
  | AsksSnapshot jstr
  | Answers answer_command
  | Decides decide_command
  | Prompts prompt_command
  | Fetches webui_request
  | ClosesTunnel jstr

text \<open>A frame that asks for nothing, or is malformed, gives no value and is ignored.\<close>

definition read_frame :: "bool \<Rightarrow> json \<Rightarrow> server_request option" where
  "read_frame registered frame =
     (if frame_type frame ''registration'' then Some ConfirmsRegistration
      else if \<not> registered then None
      else if frame_type frame ''session_catalog_request'' then
        (if isUuid (field frame ''requestId'') \<and> validateSessionCatalogQuery (field frame ''query'')
         then Some (AsksCatalog (string_of (field frame ''requestId'')) (the (field frame ''query''))) else None)
      else if frame_type frame ''webui_http_cancel'' then
        (if isUuid (field frame ''tunnelId'') \<and> isUuid (field frame ''requestId'')
         then Some (CancelsRequest (string_of (field frame ''tunnelId'')) (string_of (field frame ''requestId''))) else None)
      else if frame_type frame ''pending_snapshot_request'' then
        map_option AsksSnapshot (asNonEmptyString (field frame ''requestId''))
      else if frame_type frame ''question_answer_command'' then map_option Answers (parseAnswerCommand frame)
      else if frame_type frame ''permission_decide_command'' then map_option Decides (parseDecisionCommand frame)
      else if frame_type frame ''session_prompt_command'' then map_option Prompts (parsePromptCommand frame)
      else if frame_type frame ''webui_http_request'' then map_option Fetches (parseWebUiRequest frame)
      else if frame_type frame ''webui_tunnel_close'' then map_option ClosesTunnel (uuid_of (field frame ''tunnelId''))
      else None)"

subsection \<open>What the gateway sends\<close>

fun state_text :: "presence_state \<Rightarrow> string" where
  "state_text Controllable = ''controllable''"
| "state_text Conflicting = ''conflicting''"
| "state_text Incompatible = ''incompatible''"
| "state_text Offline = ''offline''"

fun decision_text :: "decision \<Rightarrow> string" where
  "decision_text Once = ''once''"
| "decision_text Reject = ''reject''"
| "decision_text Always = ''always''"

definition obj :: "(string \<times> json) list \<Rightarrow> json" where
  "obj ps = JObject (map (\<lambda>(k, v). (js k, v)) ps)"

definition str :: "string \<Rightarrow> json" where
  "str s = JString (js s)"

text \<open>The object literals of the registry's \<open>send\<close> calls.\<close>

fun frame_json :: "server_message \<Rightarrow> json" where
  "frame_json (RegistrationResult inst st) =
     obj [(''type'', str ''registration''), (''instanceId'', JString inst), (''state'', str (state_text st))]"
| "frame_json (SnapshotRequest rid) =
     obj [(''type'', str ''pending_snapshot_request''), (''requestId'', JString rid)]"
| "frame_json (Command command_kind.QuestionKind cid rid sid answers) =
     obj [(''type'', str ''question_answer_command''), (''commandId'', JString cid), (''requestId'', JString rid),
          (''sessionID'', JString sid), (''answers'', answers)]"
| "frame_json (Command command_kind.PermissionKind cid rid sid d) =
     obj [(''type'', str ''permission_decide_command''), (''commandId'', JString cid), (''requestId'', JString rid),
          (''sessionID'', JString sid), (''decision'', d)]"
| "frame_json (PromptCommand cid sid t) =
     obj [(''type'', str ''session_prompt_command''), (''commandId'', JString cid), (''sessionID'', JString sid),
          (''text'', JString t)]"
| "frame_json (CatalogRequest rid q) =
     obj [(''type'', str ''session_catalog_request''), (''requestId'', JString rid), (''query'', q)]"
| "frame_json (WebUiRequest tid rid m p hs b) =
     obj ([(''type'', str ''webui_http_request''), (''tunnelId'', JString tid), (''requestId'', JString rid),
           (''method'', JString m), (''path'', JString p), (''headers'', hs)]
          @ (case b of None \<Rightarrow> [] | Some v \<Rightarrow> [(''body'', v)]))"
| "frame_json (WebUiTunnelClose tid) =
     obj [(''type'', str ''webui_tunnel_close''), (''tunnelId'', JString tid)]"
| "frame_json (WebUiCancel tid rid) =
     obj [(''type'', str ''webui_http_cancel''), (''tunnelId'', JString tid), (''requestId'', JString rid)]"

subsection \<open>Reading back\<close>

lemma field_literal: "field (obj ps) k = map_of (rev ps) k"
proof -
  have "map_of (rev (map (\<lambda>(k, v). (js k, v)) ps)) (js k) = map_of (rev ps) k"
    by (induction ps) (auto simp: map_add_def map_of_append split: option.split)
  then show ?thesis by (simp add: field_def obj_def)
qed

lemma frame_type_obj: "frame_type (obj ps) t \<longleftrightarrow> map_of (rev ps) ''type'' = Some (str t)"
  by (simp add: frame_type_def field_literal str_def)

lemma str_eq [simp]: "str s = str t \<longleftrightarrow> s = t"
  by (simp add: str_def)

lemma all_of_map: "(\<And>x. x \<in> set xs \<Longrightarrow> f (g x) = Some x) \<Longrightarrow> all_of f (map g xs) = Some xs"
  by (induction xs) auto

definition json_answers :: "jstr list list \<Rightarrow> json" where
  "json_answers as = JArray (map (\<lambda>a. JArray (map JString a)) as)"

lemma answers_back:
  assumes "as \<noteq> []" "list_all (\<lambda>a. a \<noteq> [] \<and> list_all (\<lambda>s. s \<noteq> []) a) as"
  shows "question_answers (Some (json_answers as)) = Some as"
proof -
  have one: "nonempty_list nonempty_string (JArray (map JString a)) = Some a" if "a \<in> set as" for a
    using that assms(2) by (auto simp: nonempty_list_def list_all_iff nonempty_string_def intro!: all_of_map)
  then have "all_of (nonempty_list nonempty_string) (map (\<lambda>a. JArray (map JString a)) as) = Some as"
    by (intro all_of_map)
  with assms(1) show ?thesis by (simp add: question_answers_def json_answers_def nonempty_list_def)
qed

lemma uuid_back: "isUuid (Some (JString s)) \<Longrightarrow> uuid_of (Some (JString s)) = Some s"
  by (simp add: uuid_of_def asString_def)

text \<open>The well-formed requests, and the message that asks for each.\<close>

fun wire_ok :: "server_request \<Rightarrow> bool" where
  "wire_ok ConfirmsRegistration \<longleftrightarrow> True"
| "wire_ok (AsksCatalog rid q) \<longleftrightarrow> isUuid (Some (JString rid)) \<and> validateSessionCatalogQuery (Some q)"
| "wire_ok (CancelsRequest tid rid) \<longleftrightarrow> isUuid (Some (JString tid)) \<and> isUuid (Some (JString rid))"
| "wire_ok (AsksSnapshot rid) \<longleftrightarrow> rid \<noteq> []"
| "wire_ok (Answers c) \<longleftrightarrow>
     isUuid (Some (JString (ac_commandId c))) \<and> ac_requestId c \<noteq> [] \<and> ac_sessionID c \<noteq> [] \<and> ac_answers c \<noteq> [] \<and>
     list_all (\<lambda>a. a \<noteq> [] \<and> list_all (\<lambda>s. s \<noteq> []) a) (ac_answers c)"
| "wire_ok (Decides c) \<longleftrightarrow> isUuid (Some (JString (dc_commandId c))) \<and> dc_requestId c \<noteq> [] \<and> dc_sessionID c \<noteq> []"
| "wire_ok (Prompts c) \<longleftrightarrow>
     isUuid (Some (JString (pr_commandId c))) \<and> pr_sessionID c \<noteq> [] \<and> trim (pr_text c) \<noteq> [] \<and> length (pr_text c) \<le> 32000"
| "wire_ok (Fetches w) \<longleftrightarrow>
     isUuid (Some (JString (wr_tunnelId w))) \<and> isUuid (Some (JString (wr_requestId w))) \<and>
     1 \<le> length (wr_method w) \<and> length (wr_method w) \<le> 16 \<and> 1 \<le> length (wr_path w) \<and> length (wr_path w) \<le> 8192 \<and>
     distinct_keys (wr_headers w) \<and> pred_option (\<lambda>b. length b \<le> 700000) (wr_body w)"
| "wire_ok (ClosesTunnel tid) \<longleftrightarrow> isUuid (Some (JString tid))"

definition json_headers :: "(jstr, jstr list) jsmap \<Rightarrow> json" where
  "json_headers hs = JObject (map (\<lambda>(k, xs). (k, JArray (map JString xs))) hs)"

fun message_of :: "jstr \<Rightarrow> presence_state \<Rightarrow> server_request \<Rightarrow> server_message" where
  "message_of inst st ConfirmsRegistration = RegistrationResult inst st"
| "message_of inst st (AsksCatalog rid q) = CatalogRequest rid q"
| "message_of inst st (CancelsRequest tid rid) = WebUiCancel tid rid"
| "message_of inst st (AsksSnapshot rid) = SnapshotRequest rid"
| "message_of inst st (Answers c) =
     Command command_kind.QuestionKind (ac_commandId c) (ac_requestId c) (ac_sessionID c) (json_answers (ac_answers c))"
| "message_of inst st (Decides c) =
     Command command_kind.PermissionKind (dc_commandId c) (dc_requestId c) (dc_sessionID c) (str (decision_text (dc_decision c)))"
| "message_of inst st (Prompts c) = PromptCommand (pr_commandId c) (pr_sessionID c) (pr_text c)"
| "message_of inst st (Fetches w) =
     WebUiRequest (wr_tunnelId w) (wr_requestId w) (wr_method w) (wr_path w) (json_headers (wr_headers w))
       (map_option JString (wr_body w))"
| "message_of inst st (ClosesTunnel tid) = WebUiTunnelClose tid"

lemma object_entries_distinct: "distinct_keys ps \<Longrightarrow> object_entries ps = ps"
proof -
  have "distinct_keys (acc @ ps) \<Longrightarrow> fold (\<lambda>(k, v). map_set k v) ps acc = acc @ ps" for acc
  proof (induction ps arbitrary: acc)
    case (Cons x ps)
    obtain k v where x: "x = (k, v)" by force
    with Cons.prems have "map_get acc k = None" by (auto simp: map_get_None_iff map_keys_def distinct_keys_def)
    then have "map_set k v acc = acc @ [x]" by (simp add: map_set_new x)
    with Cons.IH [of "acc @ [x]"] Cons.prems show ?case by (simp add: x)
  qed simp
  from this [of "[]"] show "distinct_keys ps \<Longrightarrow> object_entries ps = ps" by (simp add: object_entries_def)
qed

lemma headers_back:
  assumes "distinct_keys hs"
  shows "header_lists (Some (json_headers hs)) = Some hs"
proof -
  let ?g = "\<lambda>(k, xs). (k, JArray (map JString xs))"
  have "distinct_keys (map ?g hs)" using assms by (simp add: distinct_keys_def case_prod_unfold comp_def)
  then have "object_entries (map ?g hs) = map ?g hs" by (rule object_entries_distinct)
  moreover have "all_of (\<lambda>(k, x). map_option (Pair k) (string_array x)) (map ?g hs) = Some hs"
    by (rule all_of_map) (auto simp: string_array_def all_of_map)
  ultimately show ?thesis by (simp add: header_lists_def json_headers_def)
qed

lemmas read_frame_simps = read_frame_def frame_type_obj field_literal string_of_def asNonEmptyString_def

text \<open>
  C10: What the gateway asks of a registered plugin arrives: for every well-formed request the plugin reads
  the frame that the registry sends for it back as that request, answers, decision, prompt, headers and
  body included; and before the registration is confirmed it reads nothing but the confirmation.
\<close>

theorem frames_round_trip:
  assumes "wire_ok q"
  shows "read_frame registered (frame_json (message_of inst st q)) =
         (if registered \<or> q = ConfirmsRegistration then Some q else None)"
proof (cases q)
  case (Answers c)
  with assms answers_back [of "ac_answers c"] show ?thesis
    by (simp add: read_frame_simps parseAnswerCommand_def uuid_back)
next
  case (Decides c)
  with assms show ?thesis
    by (cases "dc_decision c") (simp_all add: read_frame_simps parseDecisionCommand_def uuid_back decision_of_def str_def)
next
  case (Prompts c)
  with assms show ?thesis by (simp add: read_frame_simps parsePromptCommand_def uuid_back prompt_text_def)
next
  case (Fetches w)
  with assms headers_back [of "wr_headers w"] show ?thesis
    by (cases "wr_body w")
      (simp_all add: read_frame_simps parseWebUiRequest_def uuid_back string_between_def body_text_def)
qed (use assms in \<open>simp_all add: read_frame_simps uuid_back\<close>)

subsection \<open>What passes\<close>

lemma all_of_Some: "all_of f xs = Some ys \<Longrightarrow> length ys = length xs \<and> (\<forall>y \<in> set ys. \<exists>x \<in> set xs. f x = Some y)"
  by (induction xs arbitrary: ys) (fastforce split: option.splits)+

lemma nonempty_list_Some: "nonempty_list f v = Some ys \<Longrightarrow> ys \<noteq> [] \<and> (\<forall>y \<in> set ys. \<exists>x. f x = Some y)"
  by (force simp: nonempty_list_def split: json.splits if_splits dest: all_of_Some)

lemma nonempty_string_Some: "nonempty_string v = Some s \<Longrightarrow> s \<noteq> []"
  by (auto simp: nonempty_string_def split: json.splits if_splits)

lemma question_answers_Some:
  assumes "question_answers v = Some as"
  shows "as \<noteq> [] \<and> list_all (\<lambda>a. a \<noteq> [] \<and> list_all (\<lambda>s. s \<noteq> []) a) as"
proof -
  from assms obtain w where w: "nonempty_list (nonempty_list nonempty_string) w = Some as"
    by (auto simp: question_answers_def split: option.splits)
  have "a \<noteq> [] \<and> (\<forall>s \<in> set a. s \<noteq> [])" if "a \<in> set as" for a
  proof -
    from that nonempty_list_Some [OF w] obtain x where "nonempty_list nonempty_string x = Some a" by blast
    from nonempty_list_Some [OF this] show ?thesis by (blast dest: nonempty_string_Some)
  qed
  with nonempty_list_Some [OF w] show ?thesis by (simp add: list_all_iff)
qed

lemma uuid_of_Some: "uuid_of v = Some s \<Longrightarrow> isUuid (Some (JString s))"
  by (auto simp: uuid_of_def asString_def split: if_splits option.splits json.splits)

lemma isUuid_string: "isUuid v \<Longrightarrow> isUuid (Some (JString (string_of v)))"
proof -
  assume u: "isUuid v"
  then obtain s where "v = Some (JString s)" by (auto simp: isUuid_def split: option.splits json.splits)
  with u show ?thesis by (simp add: string_of_def)
qed

lemma query_given: "validateSessionCatalogQuery v \<Longrightarrow> validateSessionCatalogQuery (Some (the v))"
  by (cases v) (simp_all add: validateSessionCatalogQuery_def)

lemma object_entries_keys: "distinct_keys (object_entries ps)"
proof -
  have "distinct_keys acc \<Longrightarrow> distinct_keys (fold (\<lambda>(k, v). map_set k v) ps acc)" for acc
    by (induction ps arbitrary: acc) auto
  then show ?thesis by (simp add: object_entries_def)
qed

lemma header_lists_keys:
  assumes "header_lists v = Some hs"
  shows "distinct_keys hs"
proof -
  from assms obtain ps where ps: "all_of (\<lambda>(k, x). map_option (Pair k) (string_array x)) (object_entries ps) = Some hs"
    by (auto simp: header_lists_def split: option.splits json.splits)
  have "map fst ys = map fst xs" if "all_of (\<lambda>(k, x). map_option (Pair k) (string_array x)) xs = Some ys" for xs ys
    using that by (induction xs arbitrary: ys) (auto split: option.splits)
  from this [OF ps] object_entries_keys [of ps] show ?thesis by (simp add: distinct_keys_def)
qed

lemma parseWebUiRequest_ok:
  assumes "parseWebUiRequest v = Some w"
  shows "wire_ok (Fetches w)"
  using assms header_lists_keys uuid_of_Some
  by (auto simp: parseWebUiRequest_def string_between_def string_of_def body_text_def
      split: option.splits if_splits json.splits)

lemma parseCommands_ok:
  "parseAnswerCommand v = Some a \<Longrightarrow> wire_ok (Answers a)"
  "parseDecisionCommand v = Some d \<Longrightarrow> wire_ok (Decides d)"
  "parsePromptCommand v = Some t \<Longrightarrow> wire_ok (Prompts t)"
  using question_answers_Some uuid_of_Some
  by (auto simp: parseAnswerCommand_def parseDecisionCommand_def parsePromptCommand_def prompt_text_def
      split: option.splits if_splits json.splits)

lemma read_needs_registration: "read_frame registered v = Some q \<Longrightarrow> registered \<or> q = ConfirmsRegistration"
  by (auto simp: read_frame_def split: if_splits)

text \<open>
  Whatever arrives on the socket, what the plugin acts on is well formed: identifiers are UUIDs,
  answers are non-empty lists of non-empty strings, a decision is one of the three, and a prompt, a
  method, a path and a body are within their limits; before registration it acts on no command.
\<close>

theorem acts_on_well_formed:
  assumes "read_frame registered v = Some q"
  shows "wire_ok q \<and> (registered \<or> q = ConfirmsRegistration)"
  using assms parseWebUiRequest_ok parseCommands_ok isUuid_string uuid_of_Some query_given
  by (auto simp: read_frame_def simp del: wire_ok.simps(5-8) split: if_splits option.splits dest: asNonEmptyString_nonempty)

text \<open>
  A prompt whose text the contract accepts, because it counts code points, is ignored by the plugin
  when it is longer than the limit in UTF-16 units, as is one that is white space only: no result is ever
  sent for a command that the gateway has reported as accepted.
\<close>

theorem accepted_prompt_ignored:
  assumes "isUuid (Some (JString cid))" "sid \<noteq> []" "minLength 1 t" "maxLength 32000 t"
    and "32000 < length t \<or> blank t"
  shows "read_frame True (frame_json (PromptCommand cid sid t)) = None"
  using assms(5) by (auto simp: read_frame_simps parsePromptCommand_def prompt_text_def trim_Nil_iff split: option.splits)

subsection \<open>Witnesses\<close>

definition sample_uuid :: jstr where
  "sample_uuid = js ''00000000-0000-4000-8000-000000000000''"

lemma sample_isUuid: "isUuid (Some (JString sample_uuid))"
  by (simp add: isUuid_def sample_uuid_def js_def hex_digit_def upt_rec)

lemma frames_round_trip_witness:
  "read_frame True (frame_json (Command command_kind.QuestionKind sample_uuid (js ''q1'') (js ''ses'') (json_answers [[js ''yes'']]))) =
   Some (Answers \<lparr>ac_commandId = sample_uuid, ac_requestId = js ''q1'', ac_sessionID = js ''ses'', ac_answers = [[js ''yes'']]\<rparr>)"
  using frames_round_trip [of "Answers \<lparr>ac_commandId = sample_uuid, ac_requestId = js ''q1'', ac_sessionID = js ''ses'',
      ac_answers = [[js ''yes'']]\<rparr>" True "[]" Controllable]
  by (simp add: sample_isUuid)

lemma acts_on_well_formed_witness:
  "wire_ok (AsksSnapshot (js ''r''))"
  using acts_on_well_formed [of True "frame_json (SnapshotRequest (js ''r''))" "AsksSnapshot (js ''r'')"]
  by (simp add: read_frame_simps)

lemma accepted_prompt_ignored_witness:
  "maxLength 32000 (concat (replicate 20000 [0xD83D, 0xDE00])) \<and>
   read_frame True (frame_json (PromptCommand sample_uuid (js ''ses'') (concat (replicate 20000 [0xD83D, 0xDE00])))) = None"
proof -
  let ?t = "\<lambda>n. concat (replicate n [0xD83D, 0xDE00 :: 16 word])"
  have points: "code_points (?t n) = replicate n [0xD83D, 0xDE00]" for n
    by (induction n) (simp_all add: high_surrogate_def low_surrogate_def)
  have len: "length (?t n) = 2 * n" for n by (induction n) simp_all
  have ne: "?t 20000 \<noteq> []" using len [of 20000] by (metis list.size(3) mult_eq_0_iff zero_neq_numeral)
  have max: "maxLength 32000 (?t 20000)" by (simp add: maxLength_def points)
  have min: "minLength 1 (?t 20000)" using ne by (simp only: One_nat_def minLength_1 not_False_eq_True)
  have long: "32000 < length (?t 20000)" by (simp only: len)
  show ?thesis
    using accepted_prompt_ignored [OF sample_isUuid _ min max disjI1 [OF long], of "js ''ses''"] max by simp
qed

end
