(* ===== verification/ControlChannel.thy ===== *)
theory ControlChannel
  imports ControlFrames
begin

section \<open>The plugin's control channel\<close>

text \<open>
  \<open>ControlChannel\<close> of \<open>control-channel.ts\<close> as a state machine, one step per turn of the event loop. A
  call of \<open>connect\<close> that is still looking for the server's version is a probe with the generation it
  started in; a request that waits for one of the injected operations (answers, decisions, prompts,
  snapshots, catalogs, web requests) is an entry of a list with the socket it came from. Sockets, abort
  controllers and the maps of abort controllers are numbers. What the runtime decides (the time, the
  random jitter, whether the socket factory or a send throws) comes with each step; how an operation ends
  (its result, an exception, its timeout) is the environment's event.
\<close>

record channel_options =
  co_instanceId :: jstr
  co_machine :: jstr
  co_project :: jstr
  co_directory :: jstr
  has_listSessions :: bool
  has_listPending :: bool
  has_answer :: bool
  has_decide :: bool
  has_prompt :: bool
  has_webUi :: bool

definition BASE_BACKOFF_MS :: int where "BASE_BACKOFF_MS = 500"
definition MAX_BACKOFF_MS :: int where "MAX_BACKOFF_MS = 30000"
definition VERSION_READY_TIMEOUT_MS :: int where "VERSION_READY_TIMEOUT_MS = 60000"

text \<open>A pending call of \<open>connect\<close>: probing, or waiting between two probes.\<close>

record probe =
  pb_generation :: nat
  pb_deadline :: int
  pb_delay :: int
  pb_waiting :: bool

datatype operation =
    CatalogOp jstr
  | AnswerOp answer_command
  | DecideOp decide_command
  | PromptOp prompt_command

record web_operation =
  wo_socket :: nat
  wo_tunnelId :: jstr
  wo_requestId :: jstr
  wo_active :: nat  \<comment> \<open>the map of abort controllers it was entered into\<close>

datatype channel_effect =
    Opened nat
  | SentTo nat plugin_message
  | ClosedSocket nat "int option"
  | ReconnectIn int
  | Aborted nat
  | TunnelClosed jstr
  | Started nat operation
  | CollectionStarted
  | WebStarted nat

record channel =
  ch_socket :: "nat option"
  ch_timer :: bool
  ch_running :: bool
  ch_generation :: nat
  ch_attempt :: nat
  ch_version :: "jstr option"
  ch_registered :: bool
  ch_probes :: "(nat, probe) jsmap"
  ch_retries :: "nat list"  \<comment> \<open>sockets with an armed timer that retries an unknown version\<close>
  ch_operations :: "(nat, nat \<times> operation) jsmap"
  ch_collection :: "(nat \<times> jstr) list option"  \<comment> \<open>who waits for the collection in flight\<close>
  ch_tunnels :: "(jstr, nat) jsmap"  \<comment> \<open>\<open>webUiAborts\<close>\<close>
  ch_active :: "nat \<Rightarrow> (jstr, nat) jsmap"
  ch_webs :: "(nat, web_operation) jsmap"
  ch_next :: nat  \<comment> \<open>fresh identities\<close>
  ch_effects :: "channel_effect list"

record world =
  w_now :: int
  w_random :: rat
  w_factory :: bool
  w_sends :: bool
  w_webUi :: bool  \<comment> \<open>\<open>webUiAvailable()\<close>\<close>

definition new_channel :: channel where
  "new_channel =
     \<lparr>ch_socket = None, ch_timer = False, ch_running = False, ch_generation = 0, ch_attempt = 0, ch_version = None,
      ch_registered = False, ch_probes = [], ch_retries = [], ch_operations = [], ch_collection = None,
      ch_tunnels = [], ch_active = (\<lambda>_. []), ch_webs = [], ch_next = 0, ch_effects = []\<rparr>"

definition unknown :: jstr where "unknown = js ''unknown''"

definition emit_effect :: "channel_effect \<Rightarrow> channel \<Rightarrow> channel" where
  "emit_effect e ch = ch\<lparr>ch_effects := ch_effects ch @ [e]\<rparr>"

subsection \<open>Connecting\<close>

text \<open>\<open>Math.round(exponential * (0.75 + 0.5 * random))\<close>\<close>

definition backoff_delay :: "nat \<Rightarrow> rat \<Rightarrow> int" where
  "backoff_delay attempt random =
     (let exponential = min (BASE_BACKOFF_MS * 2 ^ min attempt 6) MAX_BACKOFF_MS
      in \<lfloor>of_int exponential * (3 / 4 + random / 2) + 1 / 2\<rfloor>)"

definition scheduleReconnect :: "world \<Rightarrow> channel \<Rightarrow> channel" where
  "scheduleReconnect w ch =
     (if \<not> ch_running ch \<or> ch_timer ch then ch
      else emit_effect (ReconnectIn (backoff_delay (ch_attempt ch) (w_random w)))
             (ch\<lparr>ch_attempt := Suc (ch_attempt ch), ch_timer := True\<rparr>))"

definition abort_all :: "nat list \<Rightarrow> channel \<Rightarrow> channel" where
  "abort_all as ch = ch\<lparr>ch_effects := ch_effects ch @ map Aborted as\<rparr>"

definition closeTunnel :: "jstr \<Rightarrow> channel \<Rightarrow> channel" where
  "closeTunnel tid ch =
     emit_effect (TunnelClosed tid)
       (case map_get (ch_tunnels ch) tid of
          None \<Rightarrow> ch
        | Some m \<Rightarrow> abort_all (map_vals (ch_active ch m)) (ch\<lparr>ch_tunnels := map_delete tid (ch_tunnels ch)\<rparr>))"

definition closeTunnels :: "channel \<Rightarrow> channel" where
  "closeTunnels ch = fold closeTunnel (map_keys (ch_tunnels ch)) ch"

definition drop_socket :: "world \<Rightarrow> nat \<Rightarrow> channel \<Rightarrow> channel" where
  "drop_socket w s ch =
     (if ch_socket ch \<noteq> Some s then ch
      else scheduleReconnect w
             (emit_effect (ClosedSocket s None) (closeTunnels (ch\<lparr>ch_socket := None, ch_registered := False\<rparr>))))"

definition stop_channel :: "channel \<Rightarrow> channel" where
  "stop_channel ch =
     (let ch1 = closeTunnels (ch\<lparr>ch_running := False, ch_generation := Suc (ch_generation ch), ch_registered := False\<rparr>)
      in (case ch_socket ch of None \<Rightarrow> id | Some s \<Rightarrow> emit_effect (ClosedSocket s (Some 1000)))
           (ch1\<lparr>ch_timer := False, ch_socket := None\<rparr>))"

text \<open>The end of \<open>connect\<close>: the socket, or a retry when the factory throws.\<close>

definition open_socket :: "world \<Rightarrow> channel \<Rightarrow> channel" where
  "open_socket w ch =
     (if \<not> w_factory w then scheduleReconnect w ch
      else let s = ch_next ch
           in emit_effect (Opened s)
                (ch\<lparr>ch_socket := Some s, ch_registered := False, ch_next := Suc s,
                    ch_retries := (if ch_version ch = Some unknown then s # ch_retries ch else ch_retries ch)\<rparr>))"

definition connect :: "world \<Rightarrow> channel \<Rightarrow> channel" where
  "connect w ch =
     (if \<not> ch_running ch \<or> ch_socket ch \<noteq> None then ch
      else if ch_version ch = None \<or> ch_version ch = Some unknown then
        ch\<lparr>ch_version := None,
           ch_probes := map_set (ch_next ch)
             \<lparr>pb_generation = ch_generation ch, pb_deadline = w_now w + VERSION_READY_TIMEOUT_MS, pb_delay = 500,
              pb_waiting = False\<rparr> (ch_probes ch),
           ch_next := Suc (ch_next ch)\<rparr>
      else open_socket w ch)"

definition finish_connect :: "world \<Rightarrow> nat \<Rightarrow> nat \<Rightarrow> channel \<Rightarrow> channel" where
  "finish_connect w p g ch =
     (let ch1 = ch\<lparr>ch_probes := map_delete p (ch_probes ch)\<rparr>
      in if \<not> ch_running ch1 \<or> g \<noteq> ch_generation ch1 \<or> ch_socket ch1 \<noteq> None then ch1 else open_socket w ch1)"

text \<open>A probe has ended with the version, or has thrown.\<close>

definition probe_ends :: "world \<Rightarrow> nat \<Rightarrow> jstr option \<Rightarrow> channel \<Rightarrow> channel" where
  "probe_ends w p version ch =
     (case map_get (ch_probes ch) p of
        None \<Rightarrow> ch
      | Some pb \<Rightarrow>
          if pb_waiting pb then ch
          else if \<not> ch_running ch \<or> pb_generation pb \<noteq> ch_generation ch
          then ch\<lparr>ch_probes := map_delete p (ch_probes ch)\<rparr>
          else if (case version of None \<Rightarrow> False | Some v \<Rightarrow> 0 < length (trim v) \<and> trim v \<noteq> unknown)
          then finish_connect w p (pb_generation pb) (ch\<lparr>ch_version := Some (trim (the version))\<rparr>)
          else if pb_deadline pb \<le> w_now w
          then finish_connect w p (pb_generation pb) (ch\<lparr>ch_version := Some unknown\<rparr>)
          else ch\<lparr>ch_probes := map_set p (pb\<lparr>pb_waiting := True\<rparr>) (ch_probes ch)\<rparr>)"

text \<open>The wait between two probes is over: the loop goes on or ends.\<close>

definition wait_ends :: "world \<Rightarrow> nat \<Rightarrow> channel \<Rightarrow> channel" where
  "wait_ends w p ch =
     (case map_get (ch_probes ch) p of
        None \<Rightarrow> ch
      | Some pb \<Rightarrow>
          if \<not> pb_waiting pb then ch
          else if ch_running ch \<and> pb_generation pb = ch_generation ch \<and> ch_version ch = None
          then ch\<lparr>ch_probes := map_set p (pb\<lparr>pb_waiting := False, pb_delay := min (pb_delay pb * 2) 5000\<rparr>) (ch_probes ch)\<rparr>
          else finish_connect w p (pb_generation pb) ch)"

definition start_channel :: "world \<Rightarrow> channel \<Rightarrow> channel" where
  "start_channel w ch = (if ch_running ch then ch else connect w (ch\<lparr>ch_running := True\<rparr>))"

definition reconnect_fires :: "world \<Rightarrow> channel \<Rightarrow> channel" where
  "reconnect_fires w ch = (if ch_timer ch then connect w (ch\<lparr>ch_timer := False\<rparr>) else ch)"

subsection \<open>The listeners of a socket\<close>

definition registration_of :: "channel_options \<Rightarrow> world \<Rightarrow> channel \<Rightarrow> registration" where
  "registration_of C w ch =
     \<lparr>rg_instanceId = co_instanceId C, rg_machine = co_machine C, rg_project = co_project C, rg_directory = co_directory C,
      rg_openCodeVersion = (case ch_version ch of None \<Rightarrow> unknown | Some v \<Rightarrow> v), rg_webUiAvailable = Some (w_webUi w),
      rg_protocolVersion = 2\<rparr>"

definition socket_opens :: "channel_options \<Rightarrow> world \<Rightarrow> nat \<Rightarrow> channel \<Rightarrow> channel" where
  "socket_opens C w s ch =
     (if \<not> ch_running ch \<or> ch_socket ch \<noteq> Some s then ch
      else let ch1 = ch\<lparr>ch_attempt := 0\<rparr>
           in if w_sends w then emit_effect (SentTo s (Register (registration_of C w ch1))) ch1 else drop_socket w s ch1)"

definition socket_closes :: "world \<Rightarrow> nat \<Rightarrow> int option \<Rightarrow> channel \<Rightarrow> channel" where
  "socket_closes w s code ch =
     (let ch1 = (if code = Some 4403 then (if ch_socket ch = Some s then stop_channel ch else ch) else drop_socket w s ch)
      in ch1\<lparr>ch_retries := removeAll s (ch_retries ch1)\<rparr>)"

definition retry_fires :: "world \<Rightarrow> nat \<Rightarrow> channel \<Rightarrow> channel" where
  "retry_fires w s ch =
     (if s \<notin> set (ch_retries ch) then ch
      else let ch1 = ch\<lparr>ch_retries := removeAll s (ch_retries ch)\<rparr>
           in if ch_running ch1 \<and> ch_socket ch1 = Some s then drop_socket w s ch1 else ch1)"

text \<open>A send in a listener that swallows the exception.\<close>

definition try_send :: "world \<Rightarrow> nat \<Rightarrow> plugin_message \<Rightarrow> channel \<Rightarrow> channel" where
  "try_send w s m ch =
     (if \<not> ch_running ch \<or> ch_socket ch \<noteq> Some s then ch
      else if w_sends w then emit_effect (SentTo s m) ch else ch)"

definition begin_operation :: "nat \<Rightarrow> operation \<Rightarrow> channel \<Rightarrow> channel" where
  "begin_operation s op ch =
     emit_effect (Started (ch_next ch) op)
       (ch\<lparr>ch_operations := map_set (ch_next ch) (s, op) (ch_operations ch), ch_next := Suc (ch_next ch)\<rparr>)"

text \<open>\<open>collectInteractions\<close>: a request joins the collection in flight or starts one.\<close>

definition join_collection :: "nat \<Rightarrow> jstr \<Rightarrow> channel \<Rightarrow> channel" where
  "join_collection s rid ch =
     (case ch_collection ch of
        Some waiting \<Rightarrow> ch\<lparr>ch_collection := Some (waiting @ [(s, rid)])\<rparr>
      | None \<Rightarrow> emit_effect CollectionStarted (ch\<lparr>ch_collection := Some [(s, rid)]\<rparr>))"

definition plain_text :: json where
  "plain_text = obj [(''content-type'', JArray [str ''text/plain; charset=utf-8''])]"

text \<open>The response that the channel makes itself; its text is sent in base64.\<close>

definition own_response :: "world \<Rightarrow> nat \<Rightarrow> jstr \<Rightarrow> jstr \<Rightarrow> nat \<Rightarrow> string \<Rightarrow> channel \<Rightarrow> channel" where
  "own_response w s tid rid status body ch =
     try_send w s (WebUiResponse ResponseEnd tid rid (obj []))
       (try_send w s (WebUiResponse ResponseChunk tid rid (obj [(''body'', str body)]))
         (try_send w s (WebUiResponse ResponseStart tid rid
            (obj [(''status'', JNumber (Finite (of_nat status))), (''headers'', plain_text)])) ch))"

definition begin_web :: "channel_options \<Rightarrow> world \<Rightarrow> nat \<Rightarrow> webui_request \<Rightarrow> channel \<Rightarrow> channel" where
  "begin_web C w s q ch =
     (if \<not> has_webUi C
      then own_response w s (wr_tunnelId q) (wr_requestId q) 501 ''V2ViVUkgdHVubmVsIGlzIHVuYXZhaWxhYmxl'' ch
      else let abort = ch_next ch; op = Suc abort;
               (m, n) = (case map_get (ch_tunnels ch) (wr_tunnelId q) of
                           Some m \<Rightarrow> (m, Suc op) | None \<Rightarrow> (Suc op, Suc (Suc op)));
               active = map_set (wr_requestId q) abort
                          (case map_get (ch_tunnels ch) (wr_tunnelId q) of Some m' \<Rightarrow> ch_active ch m' | None \<Rightarrow> [])
           in emit_effect (WebStarted op)
                (ch\<lparr>ch_active := (ch_active ch)(m := active), ch_tunnels := map_set (wr_tunnelId q) m (ch_tunnels ch),
                    ch_webs := map_set op \<lparr>wo_socket = s, wo_tunnelId = wr_tunnelId q, wo_requestId = wr_requestId q,
                                         wo_active = m\<rparr> (ch_webs ch),
                    ch_next := n\<rparr>))"

text \<open>\<open>onServerFrame\<close>, for a frame that parses to an object.\<close>

definition server_frame :: "channel_options \<Rightarrow> world \<Rightarrow> nat \<Rightarrow> json \<Rightarrow> channel \<Rightarrow> channel" where
  "server_frame C w s v ch =
     (if \<not> ch_running ch \<or> ch_socket ch \<noteq> Some s then ch
      else case read_frame (ch_registered ch) v of
             None \<Rightarrow> ch
           | Some ConfirmsRegistration \<Rightarrow> ch\<lparr>ch_registered := True\<rparr>
           | Some (AsksCatalog rid q) \<Rightarrow> begin_operation s (CatalogOp rid) ch
           | Some (CancelsRequest tid rid) \<Rightarrow>
               (case map_get (ch_tunnels ch) tid of
                  None \<Rightarrow> ch
                | Some m \<Rightarrow> (case map_get (ch_active ch m) rid of None \<Rightarrow> ch | Some a \<Rightarrow> abort_all [a] ch))
           | Some (AsksSnapshot rid) \<Rightarrow> join_collection s rid ch
           | Some (Answers c) \<Rightarrow> begin_operation s (AnswerOp c) ch
           | Some (Decides c) \<Rightarrow> begin_operation s (DecideOp c) ch
           | Some (Prompts c) \<Rightarrow> begin_operation s (PromptOp c) ch
           | Some (Fetches q) \<Rightarrow> begin_web C w s q ch
           | Some (ClosesTunnel tid) \<Rightarrow> closeTunnel tid ch)"

subsection \<open>The ends of operations\<close>

text \<open>The terminal status that an injected operation returned; \<open>None\<close> when it threw or timed out.\<close>

definition command_status :: "bool \<Rightarrow> outcome_status option \<Rightarrow> outcome_status" where
  "command_status present outcome =
     (if \<not> present then ResultUnknown else case outcome of Some st \<Rightarrow> st | None \<Rightarrow> ResultUnknown)"

datatype operation_end = Status "outcome_status option" | Catalog "json option"

definition reply_of :: "channel_options \<Rightarrow> operation \<Rightarrow> operation_end \<Rightarrow> plugin_message" where
  "reply_of C op e =
     (let st = (case e of Status r \<Rightarrow> r | Catalog _ \<Rightarrow> None) in
      case op of
        CatalogOp rid \<Rightarrow>
          (if \<not> has_listSessions C then CatalogResponse rid (co_instanceId C) CatalogUnsupported None
           else case e of
                  Catalog (Some c) \<Rightarrow> CatalogResponse rid (co_instanceId C) CatalogReady (Some c)
                | _ \<Rightarrow> CatalogResponse rid (co_instanceId C) CatalogFailed None)
      | AnswerOp c \<Rightarrow> CommandResult command_kind.QuestionKind (ac_commandId c) (co_instanceId C) (command_status (has_answer C) st)
      | DecideOp c \<Rightarrow> CommandResult command_kind.PermissionKind (dc_commandId c) (co_instanceId C) (command_status (has_decide C) st)
      | PromptOp c \<Rightarrow> PromptResult (pr_commandId c) (co_instanceId C) (command_status (has_prompt C) st))"

definition operation_ends :: "channel_options \<Rightarrow> world \<Rightarrow> nat \<Rightarrow> operation_end \<Rightarrow> channel \<Rightarrow> channel" where
  "operation_ends C w i e ch =
     (case map_get (ch_operations ch) i of
        None \<Rightarrow> ch
      | Some (s, op) \<Rightarrow>
          try_send w s (reply_of C op e) (ch\<lparr>ch_operations := map_delete i (ch_operations ch)\<rparr>))"

definition collection_ends :: "channel_options \<Rightarrow> world \<Rightarrow> interaction list option \<Rightarrow> channel \<Rightarrow> channel" where
  "collection_ends C w r ch =
     (case ch_collection ch of
        None \<Rightarrow> ch
      | Some waiting \<Rightarrow>
          let found = (if has_listPending C then case r of Some is \<Rightarrow> is | None \<Rightarrow> [] else [])
          in fold (\<lambda>(s, rid). try_send w s (SnapshotResponse rid (co_instanceId C) found)) waiting
               (ch\<lparr>ch_collection := None\<rparr>))"

definition web_emits :: "world \<Rightarrow> nat \<Rightarrow> web_part \<Rightarrow> json \<Rightarrow> channel \<Rightarrow> channel" where
  "web_emits w i part body ch =
     (case map_get (ch_webs ch) i of
        None \<Rightarrow> ch
      | Some o' \<Rightarrow> try_send w (wo_socket o') (WebUiResponse part (wo_tunnelId o') (wo_requestId o') body) ch)"

text \<open>
  The end of a web request. Its \<open>finally\<close> removes the request from the map it was entered into, and the
  tunnel when that map is empty.
\<close>

definition web_ends :: "world \<Rightarrow> nat \<Rightarrow> bool \<Rightarrow> channel \<Rightarrow> channel" where
  "web_ends w i threw ch =
     (case map_get (ch_webs ch) i of
        None \<Rightarrow> ch
      | Some o' \<Rightarrow>
          let ch1 = (if threw
                     then own_response w (wo_socket o') (wo_tunnelId o') (wo_requestId o') 502
                            ''T3BlbkNvZGUgV2ViVUkgcmVxdWVzdCBmYWlsZWQ='' ch
                     else ch);
              active = map_delete (wo_requestId o') (ch_active ch1 (wo_active o'))
          in ch1\<lparr>ch_webs := map_delete i (ch_webs ch1),
                 ch_active := (ch_active ch1)(wo_active o' := active),
                 ch_tunnels := (if active = [] then map_delete (wo_tunnelId o') (ch_tunnels ch1) else ch_tunnels ch1)\<rparr>)"

subsection \<open>Steps\<close>

datatype channel_event =
    Start
  | Stop
  | ProbeEnds nat "jstr option"
  | WaitEnds nat
  | ReconnectFires
  | RetryFires nat
  | SocketOpens nat
  | SocketCloses nat "int option"
  | SocketFails nat
  | ServerFrame nat json
  | OperationEnds nat operation_end
  | CollectionEnds "interaction list option"
  | WebEmits nat web_part json
  | WebEnds nat bool

fun ch_step :: "channel_options \<Rightarrow> world \<times> channel_event \<Rightarrow> channel \<Rightarrow> channel" where
  "ch_step C (w, Start) ch = start_channel w ch"
| "ch_step C (w, Stop) ch = stop_channel ch"
| "ch_step C (w, ProbeEnds p v) ch = probe_ends w p v ch"
| "ch_step C (w, WaitEnds p) ch = wait_ends w p ch"
| "ch_step C (w, ReconnectFires) ch = reconnect_fires w ch"
| "ch_step C (w, RetryFires s) ch = retry_fires w s ch"
| "ch_step C (w, SocketOpens s) ch = socket_opens C w s ch"
| "ch_step C (w, SocketCloses s code) ch = socket_closes w s code ch"
| "ch_step C (w, SocketFails s) ch = drop_socket w s ch"
| "ch_step C (w, ServerFrame s v) ch = server_frame C w s v ch"
| "ch_step C (w, OperationEnds i e) ch = operation_ends C w i e ch"
| "ch_step C (w, CollectionEnds r) ch = collection_ends C w r ch"
| "ch_step C (w, WebEmits i part body) ch = web_emits w i part body ch"
| "ch_step C (w, WebEnds i threw) ch = web_ends w i threw ch"

definition ch_run :: "channel_options \<Rightarrow> (world \<times> channel_event) list \<Rightarrow> channel \<Rightarrow> channel" where
  "ch_run C es ch = fold (ch_step C) es ch"

subsection \<open>What tunnels touch\<close>

lemma emit_effect_fields [simp]:
  "ch_socket (emit_effect e ch) = ch_socket ch" "ch_timer (emit_effect e ch) = ch_timer ch"
  "ch_running (emit_effect e ch) = ch_running ch" "ch_generation (emit_effect e ch) = ch_generation ch"
  "ch_registered (emit_effect e ch) = ch_registered ch" "ch_probes (emit_effect e ch) = ch_probes ch"
  "ch_next (emit_effect e ch) = ch_next ch" "ch_tunnels (emit_effect e ch) = ch_tunnels ch"
  "ch_operations (emit_effect e ch) = ch_operations ch" "ch_collection (emit_effect e ch) = ch_collection ch"
  "ch_webs (emit_effect e ch) = ch_webs ch" "ch_attempt (emit_effect e ch) = ch_attempt ch"
  "ch_version (emit_effect e ch) = ch_version ch" "ch_effects (emit_effect e ch) = ch_effects ch @ [e]"
  "ch_active (emit_effect e ch) = ch_active ch" "ch_retries (emit_effect e ch) = ch_retries ch"
  by (simp_all add: emit_effect_def)

lemma abort_all_fields [simp]:
  "ch_socket (abort_all as ch) = ch_socket ch" "ch_timer (abort_all as ch) = ch_timer ch"
  "ch_running (abort_all as ch) = ch_running ch" "ch_generation (abort_all as ch) = ch_generation ch"
  "ch_registered (abort_all as ch) = ch_registered ch" "ch_probes (abort_all as ch) = ch_probes ch"
  "ch_next (abort_all as ch) = ch_next ch" "ch_tunnels (abort_all as ch) = ch_tunnels ch"
  "ch_operations (abort_all as ch) = ch_operations ch" "ch_collection (abort_all as ch) = ch_collection ch"
  "ch_webs (abort_all as ch) = ch_webs ch" "ch_attempt (abort_all as ch) = ch_attempt ch"
  "ch_version (abort_all as ch) = ch_version ch" "ch_effects (abort_all as ch) = ch_effects ch @ map Aborted as"
  "ch_active (abort_all as ch) = ch_active ch" "ch_retries (abort_all as ch) = ch_retries ch"
  by (simp_all add: abort_all_def)

text \<open>The connection's part of the state.\<close>

definition link :: "channel \<Rightarrow> nat option \<times> bool \<times> bool \<times> nat \<times> bool \<times> (nat, probe) jsmap" where
  "link ch = (ch_socket ch, ch_timer ch, ch_running ch, ch_generation ch, ch_registered ch, ch_probes ch)"

lemma link_updates [simp]:
  "link (ch\<lparr>ch_operations := a\<rparr>) = link ch" "link (ch\<lparr>ch_collection := b\<rparr>) = link ch" "link (ch\<lparr>ch_tunnels := c\<rparr>) = link ch"
  "link (ch\<lparr>ch_active := d\<rparr>) = link ch" "link (ch\<lparr>ch_webs := e\<rparr>) = link ch" "link (ch\<lparr>ch_next := f\<rparr>) = link ch"
  "link (ch\<lparr>ch_effects := g\<rparr>) = link ch" "link (ch\<lparr>ch_attempt := h\<rparr>) = link ch" "link (ch\<lparr>ch_retries := i\<rparr>) = link ch"
  "link (ch\<lparr>ch_version := j\<rparr>) = link ch" "link (emit_effect x ch) = link ch" "link (abort_all as ch) = link ch"
  by (simp_all add: link_def)

lemma closeTunnel_link [simp]: "link (closeTunnel t ch) = link ch" "ch_next (closeTunnel t ch) = ch_next ch"
  by (simp_all add: closeTunnel_def split: option.split)

lemma closeTunnel_tunnels: "ch_tunnels (closeTunnel t ch) = map_delete t (ch_tunnels ch)"
  by (auto simp: closeTunnel_def map_delete_absent map_get_None_iff split: option.split)

lemma fold_closeTunnel [simp]:
  "link (fold closeTunnel ts ch) = link ch" "ch_next (fold closeTunnel ts ch) = ch_next ch"
  by (induction ts arbitrary: ch) simp_all

lemma fold_closeTunnel_tunnels:
  "ch_tunnels (fold closeTunnel ts ch) = filter (\<lambda>(t, _). t \<notin> set ts) (ch_tunnels ch)"
  by (induction ts arbitrary: ch) (auto simp: closeTunnel_tunnels map_delete_filter intro!: filter_cong)

lemma closeTunnels_link [simp]: "link (closeTunnels ch) = link ch" "ch_next (closeTunnels ch) = ch_next ch"
  by (simp_all add: closeTunnels_def)

lemma closeTunnels_none [simp]: "ch_tunnels (closeTunnels ch) = []"
  by (force simp: closeTunnels_def fold_closeTunnel_tunnels filter_empty_conv map_keys_def)

lemma link_fields:
  "link ch' = link ch \<Longrightarrow>
   ch_socket ch' = ch_socket ch \<and> ch_timer ch' = ch_timer ch \<and> ch_running ch' = ch_running ch \<and>
   ch_generation ch' = ch_generation ch \<and> ch_registered ch' = ch_registered ch \<and> ch_probes ch' = ch_probes ch"
  by (simp add: link_def)

lemmas closeTunnels_fields [simp] = link_fields [OF closeTunnels_link(1), THEN conjunct1]
  link_fields [OF closeTunnels_link(1), THEN conjunct2, THEN conjunct1]
  link_fields [OF closeTunnels_link(1), THEN conjunct2, THEN conjunct2, THEN conjunct1]
  link_fields [OF closeTunnels_link(1), THEN conjunct2, THEN conjunct2, THEN conjunct2, THEN conjunct1]
  link_fields [OF closeTunnels_link(1), THEN conjunct2, THEN conjunct2, THEN conjunct2, THEN conjunct2, THEN conjunct1]
  link_fields [OF closeTunnels_link(1), THEN conjunct2, THEN conjunct2, THEN conjunct2, THEN conjunct2, THEN conjunct2]

subsection \<open>One connection at a time\<close>

text \<open>The calls of \<open>connect\<close> that are still under way in the current generation.\<close>

definition current_probes :: "channel \<Rightarrow> (nat, probe) jsmap" where
  "current_probes ch = filter (\<lambda>(_, pb). pb_generation pb = ch_generation ch) (ch_probes ch)"

definition activity :: "channel \<Rightarrow> nat" where
  "activity ch =
     length (current_probes ch) + (if ch_timer ch then 1 else 0) + (if ch_socket ch \<noteq> None then 1 else 0)"

definition probes_ok :: "channel \<Rightarrow> bool" where
  "probes_ok ch \<longleftrightarrow>
     distinct_keys (ch_probes ch) \<and> (\<forall>(p, pb) \<in> set (ch_probes ch). p < ch_next ch \<and> pb_generation pb \<le> ch_generation ch)"

definition channel_inv :: "channel \<Rightarrow> bool" where
  "channel_inv ch \<longleftrightarrow>
     probes_ok ch \<and> activity ch = (if ch_running ch then 1 else 0) \<and>
     (ch_socket ch = None \<longrightarrow> \<not> ch_registered ch \<and> ch_tunnels ch = [])"

lemma channel_inv_link:
  assumes "channel_inv ch" "link ch' = link ch" "ch_next ch \<le> ch_next ch'"
    and "ch_socket ch = None \<Longrightarrow> ch_tunnels ch' = []"
  shows "channel_inv ch'"
  using assms link_fields [OF assms(2)]
  by (force simp: channel_inv_def probes_ok_def activity_def current_probes_def)

text \<open>With a running channel: what is left when the one activity is taken away.\<close>

definition idle_link :: "channel \<Rightarrow> bool" where
  "idle_link ch \<longleftrightarrow>
     probes_ok ch \<and> ch_running ch \<and> current_probes ch = [] \<and> \<not> ch_timer ch \<and> ch_socket ch = None \<and>
     \<not> ch_registered ch \<and> ch_tunnels ch = []"

lemma inv_scheduleReconnect:
  assumes "idle_link ch"
  shows "channel_inv (scheduleReconnect w ch)"
  using assms by (simp add: idle_link_def scheduleReconnect_def channel_inv_def probes_ok_def activity_def current_probes_def)

lemma inv_open_socket:
  assumes "idle_link ch"
  shows "channel_inv (open_socket w ch)"
proof (cases "w_factory w")
  case True
  with assms show ?thesis
    by (auto simp: open_socket_def Let_def idle_link_def channel_inv_def probes_ok_def activity_def current_probes_def
        less_Suc_eq)
qed (simp add: open_socket_def inv_scheduleReconnect assms)

lemma inv_connect:
  assumes "idle_link ch"
  shows "channel_inv (connect w ch)"
proof (cases "ch_version ch = None \<or> ch_version ch = Some unknown")
  case True
  from assms have fresh: "map_get (ch_probes ch) (ch_next ch) = None"
    by (auto simp: idle_link_def probes_ok_def map_get_None_iff map_keys_def)
  from True assms show ?thesis
    by (auto simp: connect_def idle_link_def channel_inv_def probes_ok_def activity_def current_probes_def map_set_new [OF fresh]
        distinct_keys_def less_Suc_eq)
qed (use assms inv_open_socket in \<open>auto simp: connect_def idle_link_def\<close>)

lemma inv_drop:
  assumes "channel_inv ch"
  shows "channel_inv (drop_socket w s ch)"
proof (cases "ch_socket ch = Some s")
  case True
  with assms have run: "ch_running ch" by (auto simp: channel_inv_def activity_def split: if_splits)
  have "idle_link (emit_effect (ClosedSocket s None) (closeTunnels (ch\<lparr>ch_socket := None, ch_registered := False\<rparr>)))"
    using assms True run by (auto simp: idle_link_def channel_inv_def activity_def probes_ok_def current_probes_def split: if_splits)
  with True show ?thesis by (simp add: drop_socket_def inv_scheduleReconnect)
qed (simp add: drop_socket_def assms)

lemma current_probes_stop:
  assumes "probes_ok ch"
  shows "filter (\<lambda>(_, pb). pb_generation pb = Suc (ch_generation ch)) (ch_probes ch) = []"
  using assms by (force simp: probes_ok_def filter_empty_conv)

lemma inv_stop:
  assumes "channel_inv ch"
  shows "channel_inv (stop_channel ch)"
  using assms current_probes_stop [of ch]
  by (cases "ch_socket ch")
    (auto simp: stop_channel_def Let_def channel_inv_def probes_ok_def activity_def current_probes_def le_Suc_eq)

text \<open>A probe of the current generation is the one activity of a running channel.\<close>

lemma current_probe_alone:
  assumes "channel_inv ch" "map_get (ch_probes ch) p = Some pb" "pb_generation pb = ch_generation ch"
  shows "ch_running ch \<and> current_probes ch = [(p, pb)] \<and> \<not> ch_timer ch \<and> ch_socket ch = None"
proof -
  have mem: "(p, pb) \<in> set (current_probes ch)"
    using map_get_in_set [OF assms(2)] assms(3) by (simp add: current_probes_def)
  with assms(1) have "length (current_probes ch) = 1 \<and> ch_running ch \<and> \<not> ch_timer ch \<and> ch_socket ch = None"
    unfolding channel_inv_def activity_def
    by (cases "current_probes ch") (auto split: if_splits)
  with mem show ?thesis by (auto simp: length_Suc_conv)
qed

lemma probes_ok_delete:
  assumes "probes_ok ch"
  shows "probes_ok (ch\<lparr>ch_probes := map_delete p (ch_probes ch)\<rparr>)"
  using assms by (auto simp: probes_ok_def set_map_delete)

lemma current_probes_delete:
  "filter (\<lambda>(_, pb). pb_generation pb = g) (map_delete p ps) = map_delete p (filter (\<lambda>(_, pb). pb_generation pb = g) ps)"
  by (simp add: map_delete_filter) (metis (mono_tags, lifting) case_prod_unfold filter_cong)

lemma inv_finish:
  assumes "channel_inv ch" "map_get (ch_probes ch) p = Some pb"
  shows "channel_inv (finish_connect w p (pb_generation pb) (ch\<lparr>ch_version := v\<rparr>))"
proof (cases "pb_generation pb = ch_generation ch")
  case True
  note alone = current_probe_alone [OF assms True]
  then have "idle_link (ch\<lparr>ch_version := v, ch_probes := map_delete p (ch_probes ch)\<rparr>)"
    using assms(1) probes_ok_delete [of ch p] current_probes_delete [of "ch_generation ch" p "ch_probes ch"]
    by (simp add: idle_link_def channel_inv_def probes_ok_def current_probes_def)
  with True alone show ?thesis by (simp add: finish_connect_def Let_def inv_open_socket)
next
  case False
  have "(p, pb) \<in> set (ch_probes ch)" using assms(2) by (rule map_get_in_set)
  moreover have "distinct_keys (ch_probes ch)" using assms(1) by (simp add: channel_inv_def probes_ok_def)
  ultimately have "\<forall>(q, pb') \<in> set (ch_probes ch). q = p \<longrightarrow> pb' = pb" by (auto simp flip: map_get_iff)
  then have "current_probes (ch\<lparr>ch_version := v, ch_probes := map_delete p (ch_probes ch)\<rparr>) = current_probes ch"
    using False by (auto simp: current_probes_def map_delete_filter intro!: filter_cong)
  with False assms(1) probes_ok_delete [of ch p] show ?thesis
    by (simp add: finish_connect_def Let_def channel_inv_def activity_def probes_ok_def)
qed

lemma inv_old_probe:
  assumes "channel_inv ch" "map_get (ch_probes ch) p = Some pb" "\<not> ch_running ch \<or> pb_generation pb \<noteq> ch_generation ch"
  shows "channel_inv (ch\<lparr>ch_probes := map_delete p (ch_probes ch)\<rparr>)"
proof -
  have "finish_connect w p (pb_generation pb) (ch\<lparr>ch_version := ch_version ch\<rparr>) = ch\<lparr>ch_probes := map_delete p (ch_probes ch)\<rparr>"
    for w using assms(3) by (auto simp: finish_connect_def Let_def)
  with inv_finish [OF assms(1,2)] show ?thesis by metis
qed

text \<open>A probe that goes on keeps its generation.\<close>

lemma inv_probe_goes_on:
  assumes "channel_inv ch" "map_get (ch_probes ch) p = Some pb" "pb_generation pb' = pb_generation pb"
  shows "channel_inv (ch\<lparr>ch_probes := map_set p pb' (ch_probes ch)\<rparr>)"
proof -
  have same: "map (\<lambda>(q, b). (q, pb_generation b)) (map_set p pb' ps) = map (\<lambda>(q, b). (q, pb_generation b)) ps"
    if "map_get ps p = Some pb" for ps
    using that assms(3) by (induction ps) (auto split: if_splits)
  have len: "length (filter (\<lambda>(_, b). pb_generation b = g) ps) =
      length (filter (\<lambda>(_, x). x = g) (map (\<lambda>(q, b). (q, pb_generation b)) ps))" for g :: nat and ps :: "(nat, probe) jsmap"
    by (induction ps) auto
  have mem: "(\<forall>(q, b) \<in> set ps. q < n \<and> pb_generation b \<le> g) \<longleftrightarrow>
      (\<forall>(q, x) \<in> set (map (\<lambda>(q, b). (q, pb_generation b)) ps). q < n \<and> x \<le> g)" for n g and ps :: "(nat, probe) jsmap"
    by force
  show ?thesis
    using assms(1) same [OF assms(2)]
    unfolding channel_inv_def probes_ok_def activity_def current_probes_def len mem by simp
qed

lemma inv_probe_ends:
  assumes "channel_inv ch"
  shows "channel_inv (probe_ends w p v ch)"
proof (cases "map_get (ch_probes ch) p")
  case (Some pb)
  let ?stale = "\<not> ch_running ch \<or> pb_generation pb \<noteq> ch_generation ch"
  have stale: "?stale \<Longrightarrow> channel_inv (ch\<lparr>ch_probes := map_delete p (ch_probes ch)\<rparr>)"
    using inv_old_probe [OF assms Some] by blast
  have on: "channel_inv (ch\<lparr>ch_probes := map_set p (pb\<lparr>pb_waiting := True\<rparr>) (ch_probes ch)\<rparr>)"
    by (rule inv_probe_goes_on [OF assms Some]) simp
  have split: "P (if b then x else y)" if "b \<Longrightarrow> P x" "\<not> b \<Longrightarrow> P y" for P b and x y :: channel
    using that by simp
  show ?thesis
    unfolding probe_ends_def Some option.case
    by (rule split, rule assms, rule split, erule stale, rule split, rule inv_finish [OF assms Some],
        rule split, rule inv_finish [OF assms Some], rule on)
qed (simp add: probe_ends_def assms)

lemma inv_wait_ends:
  assumes "channel_inv ch"
  shows "channel_inv (wait_ends w p ch)"
proof -
  have "channel_inv (finish_connect w p (pb_generation pb) ch)" if "map_get (ch_probes ch) p = Some pb" for pb
    using inv_finish [OF assms that, of w "ch_version ch"] by simp
  with assms inv_probe_goes_on [OF assms] show ?thesis by (auto simp: wait_ends_def split: option.split)
qed

lemma try_send_fields [simp]:
  "link (try_send w s m ch) = link ch" "ch_next (try_send w s m ch) = ch_next ch"
  "ch_tunnels (try_send w s m ch) = ch_tunnels ch" "ch_operations (try_send w s m ch) = ch_operations ch"
  "ch_collection (try_send w s m ch) = ch_collection ch" "ch_webs (try_send w s m ch) = ch_webs ch"
  "ch_active (try_send w s m ch) = ch_active ch"
  by (simp_all add: try_send_def)

lemma own_response_fields [simp]:
  "link (own_response w s t r st b ch) = link ch" "ch_next (own_response w s t r st b ch) = ch_next ch"
  "ch_tunnels (own_response w s t r st b ch) = ch_tunnels ch" "ch_operations (own_response w s t r st b ch) = ch_operations ch"
  "ch_collection (own_response w s t r st b ch) = ch_collection ch" "ch_webs (own_response w s t r st b ch) = ch_webs ch"
  "ch_active (own_response w s t r st b ch) = ch_active ch"
  by (simp_all add: own_response_def)

lemma inv_tunnels: "channel_inv ch \<Longrightarrow> ch_socket ch = None \<Longrightarrow> ch_tunnels ch = []"
  by (simp add: channel_inv_def)

lemma inv_server_frame:
  assumes "channel_inv ch"
  shows "channel_inv (server_frame C w s v ch)"
proof (cases "ch_running ch \<and> ch_socket ch = Some s")
  case True
  have keep: "channel_inv ch'" if "link ch' = link ch" "ch_next ch \<le> ch_next ch'" for ch'
    using channel_inv_link [OF assms that] True by simp
  have web: "channel_inv (begin_web C w s q ch)" for q
    by (rule keep) (simp_all add: begin_web_def Let_def split: option.split prod.split)
  have reg: "channel_inv (ch\<lparr>ch_registered := True\<rparr>)"
    using assms True by (simp add: channel_inv_def probes_ok_def activity_def current_probes_def)
  have "channel_inv (case read_frame (ch_registered ch) v of None \<Rightarrow> ch | Some q \<Rightarrow> (case q of
             ConfirmsRegistration \<Rightarrow> ch\<lparr>ch_registered := True\<rparr>
           | AsksCatalog rid q \<Rightarrow> begin_operation s (CatalogOp rid) ch
           | CancelsRequest tid rid \<Rightarrow>
               (case map_get (ch_tunnels ch) tid of
                  None \<Rightarrow> ch
                | Some m \<Rightarrow> (case map_get (ch_active ch m) rid of None \<Rightarrow> ch | Some a \<Rightarrow> abort_all [a] ch))
           | AsksSnapshot rid \<Rightarrow> join_collection s rid ch
           | Answers c \<Rightarrow> begin_operation s (AnswerOp c) ch
           | Decides c \<Rightarrow> begin_operation s (DecideOp c) ch
           | Prompts c \<Rightarrow> begin_operation s (PromptOp c) ch
           | Fetches q \<Rightarrow> begin_web C w s q ch
           | ClosesTunnel tid \<Rightarrow> closeTunnel tid ch))"
    by (simp add: assms web reg begin_operation_def join_collection_def keep split: option.split server_request.split)
  with True show ?thesis by (simp add: server_frame_def)
qed (auto simp: server_frame_def assms)

lemma fold_try_send [simp]:
  "link (fold (\<lambda>(s, rid). try_send w s (f rid)) xs ch) = link ch"
  "ch_next (fold (\<lambda>(s, rid). try_send w s (f rid)) xs ch) = ch_next ch"
  "ch_tunnels (fold (\<lambda>(s, rid). try_send w s (f rid)) xs ch) = ch_tunnels ch"
  "ch_operations (fold (\<lambda>(s, rid). try_send w s (f rid)) xs ch) = ch_operations ch"
  "ch_collection (fold (\<lambda>(s, rid). try_send w s (f rid)) xs ch) = ch_collection ch"
  "ch_webs (fold (\<lambda>(s, rid). try_send w s (f rid)) xs ch) = ch_webs ch"
  by (induction xs arbitrary: ch) (simp_all split: prod.split)

lemma inv_same_tunnels:
  assumes "channel_inv ch" "link ch' = link ch" "ch_next ch' = ch_next ch" "ch_tunnels ch' = ch_tunnels ch"
  shows "channel_inv ch'"
  using assms inv_tunnels [OF assms(1)] by (intro channel_inv_link [OF assms(1,2)]) simp_all

lemma inv_operation_ends: "channel_inv ch \<Longrightarrow> channel_inv (operation_ends C w i e ch)"
  by (erule inv_same_tunnels) (simp_all add: operation_ends_def split: option.split)

lemma inv_collection_ends: "channel_inv ch \<Longrightarrow> channel_inv (collection_ends C w r ch)"
  by (erule inv_same_tunnels) (simp_all add: collection_ends_def Let_def split: option.split)

lemma inv_web_emits: "channel_inv ch \<Longrightarrow> channel_inv (web_emits w i part body ch)"
  by (erule inv_same_tunnels) (simp_all add: web_emits_def split: option.split)

lemma inv_web_ends:
  assumes "channel_inv ch"
  shows "channel_inv (web_ends w i threw ch)"
proof (cases "map_get (ch_webs ch) i")
  case (Some o')
  have fields: "link (web_ends w i threw ch) = link ch" "ch_next (web_ends w i threw ch) = ch_next ch"
    by (simp_all add: web_ends_def Let_def Some)
  have "ch_socket ch = None \<Longrightarrow> ch_tunnels (web_ends w i threw ch) = []"
    using inv_tunnels [OF assms] by (simp add: web_ends_def Let_def Some)
  with fields show ?thesis by (intro channel_inv_link [OF assms]) simp_all
qed (simp add: web_ends_def assms)

lemma inv_start:
  assumes "channel_inv ch"
  shows "channel_inv (start_channel w ch)"
proof (cases "ch_running ch")
  case False
  with assms have "idle_link (ch\<lparr>ch_running := True\<rparr>)"
    by (auto simp: channel_inv_def activity_def idle_link_def probes_ok_def current_probes_def split: if_splits)
  with False show ?thesis by (simp add: start_channel_def inv_connect)
qed (simp add: start_channel_def assms)

lemma inv_reconnect:
  assumes "channel_inv ch"
  shows "channel_inv (reconnect_fires w ch)"
proof (cases "ch_timer ch")
  case True
  with assms have "idle_link (ch\<lparr>ch_timer := False\<rparr>)"
    by (auto simp: channel_inv_def activity_def idle_link_def probes_ok_def current_probes_def split: if_splits)
  with True show ?thesis by (simp add: reconnect_fires_def inv_connect)
qed (simp add: reconnect_fires_def assms)

lemma inv_frame_only:
  assumes "channel_inv ch"
  shows "channel_inv (ch\<lparr>ch_attempt := n\<rparr>)" "channel_inv (ch\<lparr>ch_retries := rs\<rparr>)" "channel_inv (emit_effect e ch)"
  by (rule inv_same_tunnels [OF assms]; simp)+

lemma inv_step:
  assumes "channel_inv ch"
  shows "channel_inv (ch_step C x ch)"
proof -
  obtain w e where x: "x = (w, e)" by force
  note keep = inv_start inv_stop inv_probe_ends inv_wait_ends inv_reconnect inv_drop inv_server_frame inv_operation_ends
    inv_collection_ends inv_web_emits inv_web_ends inv_frame_only
  show ?thesis
    by (cases e) (simp_all add: x keep assms retry_fires_def socket_opens_def socket_closes_def Let_def)
qed

lemma inv_run: "channel_inv ch \<Longrightarrow> channel_inv (ch_run C es ch)"
  unfolding ch_run_def by (induction es arbitrary: ch) (simp_all add: inv_step)

lemma inv_new: "channel_inv new_channel"
  by (simp add: channel_inv_def new_channel_def probes_ok_def activity_def current_probes_def)

definition channel_after :: "channel_options \<Rightarrow> (world \<times> channel_event) list \<Rightarrow> channel" where
  "channel_after C es = ch_run C es new_channel"

text \<open>
  C1: A running channel never gets stuck and never doubles: whatever the server, the network and the
  timers do, exactly one of three things is under way, a search for the version, a wait for the next
  attempt, or one socket. A stopped channel has none of them, and whatever is left of an earlier start
  belongs to an older generation.
\<close>

theorem control_channel_live:
  "length (current_probes (channel_after C es)) + (if ch_timer (channel_after C es) then 1 else 0)
     + (if ch_socket (channel_after C es) \<noteq> None then 1 else 0) = (if ch_running (channel_after C es) then 1 else 0 :: nat)"
  using inv_run [OF inv_new, of C es] by (simp add: channel_inv_def activity_def channel_after_def)

end
