(* ===== verification/ControlReplies.thy ===== *)
theory ControlReplies
  imports ControlChannel
begin

section \<open>What the control channel sends\<close>

text \<open>
  The plugin answers only on a socket on which the gateway has confirmed the registration, the delay of a
  reconnection is bounded, and how web requests that share an identifier disturb each other.
\<close>

subsection \<open>Steps that start and answer nothing\<close>

definition sent_to :: "channel \<Rightarrow> (nat \<times> plugin_message) list" where
  "sent_to ch = concat (map (\<lambda>e. case e of SentTo s m \<Rightarrow> [(s, m)] | _ \<Rightarrow> []) (ch_effects ch))"

lemma sent_to_emit [simp]:
  "sent_to (emit_effect e ch) = sent_to ch @ (case e of SentTo s m \<Rightarrow> [(s, m)] | _ \<Rightarrow> [])"
  by (simp add: sent_to_def)

lemma sent_to_abort [simp]: "sent_to (abort_all as ch) = sent_to ch"
  by (simp add: sent_to_def comp_def)

definition quiet :: "channel \<Rightarrow> channel \<Rightarrow> bool" where
  "quiet ch ch' \<longleftrightarrow>
     ch_operations ch' = ch_operations ch \<and> ch_collection ch' = ch_collection ch \<and> ch_webs ch' = ch_webs ch \<and>
     sent_to ch' = sent_to ch \<and> (ch_registered ch' \<longrightarrow> ch_registered ch \<and> ch_socket ch' = ch_socket ch)"

lemma quiet_refl [simp]: "quiet ch ch"
  by (simp add: quiet_def)

lemma quiet_trans: "quiet a b \<Longrightarrow> quiet b c \<Longrightarrow> quiet a c"
  by (auto simp: quiet_def)

lemma quiet_updates:
  "quiet ch ch' \<Longrightarrow> quiet ch (ch'\<lparr>ch_attempt := n\<rparr>)" "quiet ch ch' \<Longrightarrow> quiet ch (ch'\<lparr>ch_retries := rs\<rparr>)"
  "quiet ch ch' \<Longrightarrow> quiet ch (ch'\<lparr>ch_probes := ps\<rparr>)" "quiet ch ch' \<Longrightarrow> quiet ch (ch'\<lparr>ch_version := v\<rparr>)"
  "quiet ch ch' \<Longrightarrow> quiet ch (ch'\<lparr>ch_timer := t\<rparr>)" "quiet ch ch' \<Longrightarrow> quiet ch (ch'\<lparr>ch_running := r\<rparr>)"
  "quiet ch ch' \<Longrightarrow> quiet ch (ch'\<lparr>ch_next := k\<rparr>)" "quiet ch ch' \<Longrightarrow> quiet ch (ch'\<lparr>ch_tunnels := ts\<rparr>)"
  "quiet ch ch' \<Longrightarrow> quiet ch (ch'\<lparr>ch_generation := g\<rparr>)"
  "quiet ch ch' \<Longrightarrow> quiet ch (ch'\<lparr>ch_socket := s, ch_registered := False\<rparr>)"
  "quiet ch ch' \<Longrightarrow> quiet ch (ch'\<lparr>ch_running := r, ch_generation := g, ch_registered := False\<rparr>)"
  by (simp_all add: quiet_def sent_to_def)

lemma quiet_emit: "quiet ch ch' \<Longrightarrow> \<not> (\<exists>s m. e = SentTo s m) \<Longrightarrow> quiet ch (emit_effect e ch')"
  by (cases e) (simp_all add: quiet_def)

lemma quiet_abort: "quiet ch ch' \<Longrightarrow> quiet ch (abort_all as ch')"
  by (simp add: quiet_def)

lemma quiet_closeTunnel: "quiet ch ch' \<Longrightarrow> quiet ch (closeTunnel t ch')"
  by (simp add: closeTunnel_def quiet_emit quiet_abort quiet_updates split: option.split)

lemma quiet_closeTunnels: "quiet ch ch' \<Longrightarrow> quiet ch (closeTunnels ch')"
proof -
  have "quiet ch ch' \<Longrightarrow> quiet ch (fold closeTunnel ts ch')" for ts
    by (induction ts arbitrary: ch') (simp_all add: quiet_closeTunnel)
  then show "quiet ch ch' \<Longrightarrow> quiet ch (closeTunnels ch')" by (simp add: closeTunnels_def)
qed

lemma quiet_scheduleReconnect: "quiet ch ch' \<Longrightarrow> quiet ch (scheduleReconnect w ch')"
  by (simp add: scheduleReconnect_def quiet_emit quiet_updates)

lemma quiet_open_socket: "quiet ch ch' \<Longrightarrow> quiet ch (open_socket w ch')"
  by (auto simp: open_socket_def Let_def quiet_scheduleReconnect intro!: quiet_emit)
    (simp_all add: quiet_def sent_to_def)

lemma quiet_connect: "quiet ch ch' \<Longrightarrow> quiet ch (connect w ch')"
  by (simp add: connect_def quiet_open_socket) (auto simp: quiet_def sent_to_def)

lemma quiet_drop: "quiet ch ch' \<Longrightarrow> quiet ch (drop_socket w s ch')"
  by (simp add: drop_socket_def quiet_scheduleReconnect quiet_emit quiet_closeTunnels quiet_updates)

lemma quiet_stop: "quiet ch ch' \<Longrightarrow> quiet ch (stop_channel ch')"
proof -
  assume "quiet ch ch'"
  then have q: "quiet ch (closeTunnels (ch'\<lparr>ch_running := False, ch_generation := Suc (ch_generation ch'), ch_registered := False\<rparr>))"
    (is "quiet ch ?c")
    by (intro quiet_closeTunnels quiet_updates)
  then have "quiet ch (?c\<lparr>ch_timer := False, ch_socket := None\<rparr>)"
    by (simp add: quiet_def sent_to_def)
  then show ?thesis by (cases "ch_socket ch'") (simp_all add: stop_channel_def Let_def quiet_emit)
qed

lemma quiet_finish: "quiet ch ch' \<Longrightarrow> quiet ch (finish_connect w p g ch')"
  by (simp add: finish_connect_def Let_def quiet_open_socket quiet_updates)

lemmas quiet_intros = quiet_updates quiet_emit quiet_abort quiet_closeTunnel quiet_closeTunnels quiet_scheduleReconnect
  quiet_open_socket quiet_connect quiet_drop quiet_stop quiet_finish

lemma quiet_steps:
  "quiet ch (probe_ends w p v ch)" "quiet ch (wait_ends w p ch)" "quiet ch (start_channel w ch)"
  "quiet ch (reconnect_fires w ch)" "quiet ch (retry_fires w s ch)" "quiet ch (socket_closes w s code ch)"
  "quiet ch (drop_socket w s ch)" "quiet ch (stop_channel ch)"
  by (simp_all add: probe_ends_def wait_ends_def start_channel_def reconnect_fires_def retry_fires_def socket_closes_def
      Let_def quiet_intros split: option.split)

subsection \<open>Replies follow the registration\<close>

text \<open>With the sockets on which a confirmation has arrived.\<close>

definition answered :: "channel \<Rightarrow> nat set" where
  "answered ch = fst ` set (filter (\<lambda>(_, m). \<not> (\<exists>g. m = Register g)) (sent_to ch))"

lemma answered_same: "sent_to ch' = sent_to ch \<Longrightarrow> answered ch' = answered ch"
  by (simp add: answered_def)

lemma answered_more: "sent_to ch' = sent_to ch @ [(s, m)] \<Longrightarrow> answered ch' \<subseteq> answered ch \<union> {s}"
  by (cases "\<exists>g. m = Register g") (simp_all add: answered_def subset_insertI)

lemma answered_register: "sent_to ch' = sent_to ch @ [(s, Register g)] \<Longrightarrow> answered ch' = answered ch"
  by (simp add: answered_def)

definition confirmed_socket :: "channel \<Rightarrow> nat set" where
  "confirmed_socket ch = (if ch_registered ch then set_option (ch_socket ch) else {})"

definition operation_sockets :: "channel \<Rightarrow> nat set" where
  "operation_sockets ch = (\<lambda>(i, s, op). s) ` set (ch_operations ch)"

definition waiting_sockets :: "channel \<Rightarrow> nat set" where
  "waiting_sockets ch = (case ch_collection ch of None \<Rightarrow> {} | Some waiting \<Rightarrow> fst ` set waiting)"

definition web_sockets :: "channel \<Rightarrow> nat set" where
  "web_sockets ch = (\<lambda>(i, o'). wo_socket o') ` set (ch_webs ch)"

definition owed :: "channel \<Rightarrow> nat set" where
  "owed ch = confirmed_socket ch \<union> operation_sockets ch \<union> waiting_sockets ch \<union> web_sockets ch \<union> answered ch"

lemmas owed_parts = confirmed_socket_def operation_sockets_def waiting_sockets_def web_sockets_def

text \<open>What each part depends on.\<close>

lemma owed_subset:
  assumes "confirmed_socket ch' \<subseteq> confirmed_socket ch \<union> Q" "operation_sockets ch' \<subseteq> operation_sockets ch \<union> Q"
    and "waiting_sockets ch' \<subseteq> waiting_sockets ch \<union> Q" "web_sockets ch' \<subseteq> web_sockets ch \<union> Q"
    and "answered ch' \<subseteq> answered ch \<union> Q"
  shows "owed ch' \<subseteq> owed ch \<union> Q"
  using assms unfolding owed_def by blast

definition replies_ok :: "nat set \<Rightarrow> channel \<Rightarrow> bool" where
  "replies_ok P ch \<longleftrightarrow> owed ch \<subseteq> P"

lemma replies_ok_mono: "replies_ok P ch \<Longrightarrow> P \<subseteq> Q \<Longrightarrow> replies_ok Q ch"
  unfolding replies_ok_def by blast

lemma replies_ok_owed: "replies_ok P ch \<Longrightarrow> owed ch' \<subseteq> owed ch \<union> Q \<Longrightarrow> Q \<subseteq> P \<Longrightarrow> replies_ok P ch'"
  unfolding replies_ok_def by blast

lemma replies_ok_quiet:
  assumes "replies_ok P ch" "quiet ch ch'"
  shows "replies_ok P ch'"
proof (rule replies_ok_owed [OF assms(1) owed_subset, where Q = "{}"])
  show "confirmed_socket ch' \<subseteq> confirmed_socket ch \<union> {}"
    using assms(2) by (cases "ch_registered ch'") (simp_all add: quiet_def confirmed_socket_def)
  show "answered ch' \<subseteq> answered ch \<union> {}"
    using assms(2) answered_same [of ch' ch] by (simp add: quiet_def)
qed (use assms(2) in \<open>simp_all add: quiet_def operation_sockets_def waiting_sockets_def web_sockets_def\<close>)

lemma sent_try_send:
  "sent_to (try_send w s m ch) = sent_to ch \<or> sent_to (try_send w s m ch) = sent_to ch @ [(s, m)]"
  by (simp add: try_send_def)

lemma registered_try_send [simp]:
  "ch_registered (try_send w s m ch) = ch_registered ch" "ch_socket (try_send w s m ch) = ch_socket ch"
  by (simp_all add: try_send_def)

lemma try_send_parts [simp]:
  "operation_sockets (try_send w s m ch) = operation_sockets ch" "waiting_sockets (try_send w s m ch) = waiting_sockets ch"
  "web_sockets (try_send w s m ch) = web_sockets ch" "confirmed_socket (try_send w s m ch) = confirmed_socket ch"
  by (simp_all add: owed_parts)

lemma replies_ok_try_send:
  assumes "replies_ok P ch" "s \<in> P"
  shows "replies_ok P (try_send w s m ch)"
proof (rule replies_ok_owed [OF assms(1) owed_subset])
  show "answered (try_send w s m ch) \<subseteq> answered ch \<union> {s}"
    using sent_try_send [of w s m ch] answered_same [of "try_send w s m ch" ch] answered_more [of "try_send w s m ch" ch s m]
    by blast
qed (use assms(2) in \<open>simp_all add: subset_insertI\<close>)

lemma replies_ok_own_response: "replies_ok P ch \<Longrightarrow> s \<in> P \<Longrightarrow> replies_ok P (own_response w s t r st b ch)"
  by (simp add: own_response_def replies_ok_try_send)

lemma replies_ok_fold:
  "replies_ok P ch \<Longrightarrow> fst ` set xs \<subseteq> P \<Longrightarrow> replies_ok P (fold (\<lambda>(s, rid). try_send w s (f rid)) xs ch)"
  by (induction xs arbitrary: ch) (auto simp: replies_ok_try_send)

text \<open>What the entries of the lists stand for.\<close>

lemma owed_operation: "map_get (ch_operations ch) i = Some (s, op) \<Longrightarrow> s \<in> owed ch"
  unfolding owed_def operation_sockets_def by (drule map_get_in_set) force

lemma owed_web: "map_get (ch_webs ch) i = Some o' \<Longrightarrow> wo_socket o' \<in> owed ch"
  unfolding owed_def web_sockets_def by (drule map_get_in_set) force

lemma owed_waiting: "ch_collection ch = Some waiting \<Longrightarrow> fst ` set waiting \<subseteq> owed ch"
  unfolding owed_def waiting_sockets_def by auto

lemma owed_confirmed: "ch_registered ch \<Longrightarrow> ch_socket ch = Some s \<Longrightarrow> s \<in> owed ch"
  unfolding owed_def confirmed_socket_def by simp

lemmas owed_members = owed_operation owed_web owed_waiting owed_confirmed

lemma operation_sockets_set: "(\<lambda>(i, s, op). s) ` set (map_set k (s, op) m) \<subseteq> (\<lambda>(i, s, op). s) ` set m \<union> {s}"
proof -
  have "set (map_set k (s, op) m) \<subseteq> insert (k, s, op) (set m)" using set_map_set by fastforce
  then have "(\<lambda>(i, s, op). s) ` set (map_set k (s, op) m) \<subseteq> (\<lambda>(i, s, op). s) ` insert (k, s, op) (set m)"
    by (rule image_mono)
  then show ?thesis by simp
qed

lemma web_sockets_set: "(\<lambda>(i, o'). wo_socket o') ` set (map_set k x m) \<subseteq> (\<lambda>(i, o'). wo_socket o') ` set m \<union> {wo_socket x}"
proof -
  have "set (map_set k x m) \<subseteq> insert (k, x) (set m)" using set_map_set by fastforce
  then have "(\<lambda>(i, o'). wo_socket o') ` set (map_set k x m) \<subseteq> (\<lambda>(i, o'). wo_socket o') ` insert (k, x) (set m)"
    by (rule image_mono)
  then show ?thesis by simp
qed

lemma set_map_delete_subset: "set (map_delete k m) \<subseteq> set m"
  by (auto simp: set_map_delete)

lemma begin_web_fields:
  assumes "has_webUi C"
  shows "ch_operations (begin_web C w s r ch) = ch_operations ch" "ch_collection (begin_web C w s r ch) = ch_collection ch"
    "ch_registered (begin_web C w s r ch) = ch_registered ch" "ch_socket (begin_web C w s r ch) = ch_socket ch"
    "sent_to (begin_web C w s r ch) = sent_to ch"
    "\<exists>m. ch_webs (begin_web C w s r ch) = map_set (Suc (ch_next ch))
       \<lparr>wo_socket = s, wo_tunnelId = wr_tunnelId r, wo_requestId = wr_requestId r, wo_active = m\<rparr> (ch_webs ch)"
  using assms by (auto simp: begin_web_def Let_def sent_to_def split: option.split prod.split)

text \<open>The sockets that a step confirms.\<close>

fun confirms :: "world \<times> channel_event \<Rightarrow> nat set" where
  "confirms (w, ServerFrame s v) = (if frame_type v ''registration'' then {s} else {})"
| "confirms _ = {}"

lemma replies_ok_server_frame:
  assumes "replies_ok P ch" and Q: "P \<subseteq> Q" "frame_type v ''registration'' \<Longrightarrow> s \<in> Q"
  shows "replies_ok Q (server_frame C w s v ch)"
proof (cases "ch_running ch \<and> ch_socket ch = Some s")
  case True
  have ok: "replies_ok Q ch" by (rule replies_ok_mono [OF assms(1) Q(1)])
  show ?thesis
  proof (cases "read_frame (ch_registered ch) v")
    case None
    with True ok show ?thesis by (simp add: server_frame_def)
  next
    case (Some q)
    show ?thesis
    proof (cases "q = ConfirmsRegistration")
      case reg: True
      with Some have "frame_type v ''registration''" by (auto simp: read_frame_def split: if_splits)
      with ok Q(2) have "replies_ok Q (ch\<lparr>ch_registered := True\<rparr>)" using True
        by (auto simp: replies_ok_def owed_def owed_parts answered_def sent_to_def)
      with True Some reg show ?thesis by (simp add: server_frame_def)
    next
      case False
      have "ch_registered ch" using read_needs_registration [OF Some] False by blast
      with True assms(1) owed_members(4) have s: "s \<in> P" unfolding replies_ok_def by blast
      from s Q(1) have sQ: "{s} \<subseteq> Q" by blast
      have begin_op: "replies_ok Q (begin_operation s op ch)" for op
      proof (rule replies_ok_owed [OF ok owed_subset sQ])
        show "operation_sockets (begin_operation s op ch) \<subseteq> operation_sockets ch \<union> {s}"
          by (simp add: operation_sockets_def begin_operation_def operation_sockets_set [simplified])
      qed (simp_all add: begin_operation_def confirmed_socket_def waiting_sockets_def web_sockets_def answered_def sent_to_def
          subset_insertI)
      have join: "replies_ok Q (join_collection s rid ch)" for rid
      proof (rule replies_ok_owed [OF ok owed_subset sQ])
        show "waiting_sockets (join_collection s rid ch) \<subseteq> waiting_sockets ch \<union> {s}"
          by (simp add: waiting_sockets_def join_collection_def split: option.split)
      qed (simp_all add: join_collection_def confirmed_socket_def operation_sockets_def web_sockets_def answered_def sent_to_def
          subset_insertI split: option.split)
      have web: "replies_ok Q (begin_web C w s r ch)" for r
      proof (cases "has_webUi C")
        case True
        obtain m where m: "ch_webs (begin_web C w s r ch) = map_set (Suc (ch_next ch))
            \<lparr>wo_socket = s, wo_tunnelId = wr_tunnelId r, wo_requestId = wr_requestId r, wo_active = m\<rparr> (ch_webs ch)"
          using begin_web_fields(6) [OF True] by blast
        note same = begin_web_fields(1-4) [OF True] answered_same [OF begin_web_fields(5) [OF True]]
        show ?thesis
        proof (rule replies_ok_owed [OF ok owed_subset sQ])
          show "web_sockets (begin_web C w s r ch) \<subseteq> web_sockets ch \<union> {s}"
            unfolding web_sockets_def m using web_sockets_set by fastforce
        qed (simp_all add: same confirmed_socket_def operation_sockets_def waiting_sockets_def subset_insertI)
      next
        case False
        with ok sQ show ?thesis by (simp add: begin_web_def replies_ok_own_response)
      qed
      have "quiet ch (closeTunnel t ch)" "quiet ch (abort_all as ch)" for t as by (simp_all add: quiet_intros)
      then have "replies_ok Q (closeTunnel t ch)" "replies_ok Q (abort_all as ch)" for t as
        by (blast intro: replies_ok_quiet [OF ok])+
      with True Some False ok begin_op join web show ?thesis
        by (simp add: server_frame_def split: server_request.split option.split)
    qed
  qed
qed (use replies_ok_mono [OF assms(1) Q(1)] in \<open>auto simp: server_frame_def\<close>)

lemma replies_ok_step:
  assumes "replies_ok P ch"
  shows "replies_ok (P \<union> confirms x) (ch_step C x ch)"
proof -
  obtain w e where x: "x = (w, e)" by force
  note quiet = quiet_steps [THEN replies_ok_quiet [OF assms]]
  show ?thesis
  proof (cases e)
    case (ServerFrame s v)
    with replies_ok_server_frame [OF assms, of "P \<union> confirms x" v s] show ?thesis by (simp add: x)
  next
    case (SocketOpens s)
    have "replies_ok P (emit_effect (SentTo s (Register g)) (ch\<lparr>ch_attempt := 0\<rparr>))" for g
      by (rule replies_ok_owed [OF assms owed_subset, where Q = "{}"])
        (simp_all add: owed_parts answered_def sent_to_def)
    moreover have "replies_ok P (drop_socket w s (ch\<lparr>ch_attempt := 0\<rparr>))"
      by (rule replies_ok_quiet [OF assms]) (simp add: quiet_intros)
    ultimately show ?thesis using assms by (simp add: x SocketOpens socket_opens_def Let_def)
  next
    case (OperationEnds i r)
    have "replies_ok P (ch\<lparr>ch_operations := map_delete i (ch_operations ch)\<rparr>)"
      by (rule replies_ok_owed [OF assms owed_subset, where Q = "{}"])
        (simp_all add: confirmed_socket_def operation_sockets_def waiting_sockets_def web_sockets_def answered_def sent_to_def
          set_map_delete_subset image_mono)
    moreover have "s \<in> P" if "map_get (ch_operations ch) i = Some (s, op)" for s op
      using owed_members(1) [OF that] assms unfolding replies_ok_def by blast
    ultimately show ?thesis using assms
      by (auto simp: x OperationEnds operation_ends_def split: option.split intro!: replies_ok_try_send)
  next
    case (CollectionEnds r)
    have "replies_ok P (ch\<lparr>ch_collection := None\<rparr>)"
      by (rule replies_ok_owed [OF assms owed_subset, where Q = "{}"])
        (simp_all add: owed_parts answered_def sent_to_def)
    moreover have "fst ` set waiting \<subseteq> P" if "ch_collection ch = Some waiting" for waiting
      using owed_members(3) [OF that] assms unfolding replies_ok_def by blast
    ultimately show ?thesis using assms
      by (auto simp: x CollectionEnds collection_ends_def Let_def split: option.split intro!: replies_ok_fold)
  next
    case (WebEmits i part body)
    have "wo_socket o' \<in> P" if "map_get (ch_webs ch) i = Some o'" for o'
      using owed_members(2) [OF that] assms unfolding replies_ok_def by blast
    with assms show ?thesis
      by (auto simp: x WebEmits web_emits_def split: option.split intro!: replies_ok_try_send)
  next
    case (WebEnds i threw)
    show ?thesis
    proof (cases "map_get (ch_webs ch) i")
      case (Some o')
      have o': "wo_socket o' \<in> P" using owed_members(2) [OF Some] assms unfolding replies_ok_def by blast
      let ?ch1 = "if threw then own_response w (wo_socket o') (wo_tunnelId o') (wo_requestId o') 502
          ''T3BlbkNvZGUgV2ViVUkgcmVxdWVzdCBmYWlsZWQ='' ch else ch"
      have ch1: "replies_ok P ?ch1" using replies_ok_own_response [OF assms o'] assms by simp
      have "replies_ok P (web_ends w i threw ch)"
      proof (rule replies_ok_owed [OF ch1 owed_subset, where Q = "{}"])
        show "web_sockets (web_ends w i threw ch) \<subseteq> web_sockets ?ch1 \<union> {}"
          by (simp add: web_ends_def Let_def Some web_sockets_def set_map_delete_subset image_mono)
      qed (simp_all add: web_ends_def Let_def Some confirmed_socket_def operation_sockets_def waiting_sockets_def answered_def
          sent_to_def)
      then show ?thesis by (simp add: x WebEnds)
    qed (simp add: x WebEnds web_ends_def assms)
  qed (simp_all add: x quiet)
qed

lemma replies_ok_run: "replies_ok P ch \<Longrightarrow> replies_ok (P \<union> (\<Union>x \<in> set es. confirms x)) (ch_run C es ch)"
proof (induction es arbitrary: P ch)
  case (Cons x es)
  from Cons.IH [OF replies_ok_step [OF Cons.prems, of x C]] show ?case by (simp add: ch_run_def Un_assoc)
qed (simp add: ch_run_def)

text \<open>
  C2: The channel sends nothing but its registration on a socket until the gateway has confirmed the
  registration on that very socket: no result, snapshot, catalog or web response of a request ever leaves
  on another connection than the one that asked, nor before the confirmation.
\<close>

theorem replies_follow_registration:
  assumes "SentTo s m \<in> set (ch_effects (channel_after C es))"
  shows "(\<exists>g. m = Register g) \<or> (\<exists>w v. (w, ServerFrame s v) \<in> set es \<and> frame_type v ''registration'')"
proof -
  have "replies_ok {} new_channel" by (simp add: replies_ok_def owed_def owed_parts answered_def new_channel_def sent_to_def)
  from replies_ok_run [OF this, of es C] have ok: "replies_ok (\<Union>x \<in> set es. confirms x) (channel_after C es)"
    by (simp add: channel_after_def)
  have "(s, m) \<in> set (sent_to (channel_after C es))" using assms by (force simp: sent_to_def)
  with ok have "(\<exists>g. m = Register g) \<or> s \<in> (\<Union>x \<in> set es. confirms x)" by (force simp: replies_ok_def owed_def answered_def)
  moreover have "\<exists>w v. x = (w, ServerFrame s v) \<and> frame_type v ''registration''" if "s \<in> confirms x" for x
    using that by (cases x rule: confirms.cases) (auto split: if_splits)
  ultimately show ?thesis by blast
qed

subsection \<open>The delay of a reconnection\<close>

text \<open>
  For every number of failed attempts and every value of the jitter, a reconnection waits between
  375 ms and 37.5 s, and at least 22.5 s from the seventh attempt on.
\<close>

theorem reconnect_delay_bounds:
  assumes "0 \<le> random" "random < 1"
  shows "backoff_delay attempt random \<in> {375..37500} \<and> (6 \<le> attempt \<longrightarrow> 22500 \<le> backoff_delay attempt random)"
proof -
  define e :: int where "e = min (BASE_BACKOFF_MS * 2 ^ min attempt 6) MAX_BACKOFF_MS"
  have "(2::int) ^ min attempt 6 \<ge> 1" by simp
  then have e: "500 \<le> e" "e \<le> 30000" by (simp_all add: e_def BASE_BACKOFF_MS_def MAX_BACKOFF_MS_def)
  have big: "6 \<le> attempt \<Longrightarrow> e = 30000" by (simp add: e_def BASE_BACKOFF_MS_def MAX_BACKOFF_MS_def min_absorb2)
  have d: "backoff_delay attempt random = \<lfloor>of_int e * (3 / 4 + random / 2) + 1 / 2\<rfloor>"
    by (simp add: backoff_delay_def e_def Let_def)
  have lo: "of_int e * (3 / 4) \<le> of_int e * (3 / 4 + random / 2)"
    using e assms(1) by (intro mult_left_mono) auto
  have hi: "of_int e * (3 / 4 + random / 2) < of_int e * (5 / 4)"
    using e assms(2) by (intro mult_strict_left_mono) auto
  have "(500 :: rat) \<le> of_int e" "of_int e \<le> (30000 :: rat)" using e by (simp_all flip: of_int_le_iff)
  with lo hi have "of_int 375 \<le> of_int e * (3 / 4 + random / 2) + 1 / 2" "of_int e * (3 / 4 + random / 2) + 1 / 2 < (of_int 37501 :: rat)"
    by linarith+
  then have "375 \<le> backoff_delay attempt random" "backoff_delay attempt random < 37501"
    unfolding d le_floor_iff floor_less_iff by simp_all
  moreover have "22500 \<le> backoff_delay attempt random" if "6 \<le> attempt"
    unfolding d le_floor_iff using lo big [OF that] by simp
  ultimately show ?thesis by simp
qed

subsection \<open>Web requests that share an identifier\<close>

text \<open>
  When a request id is used again in a tunnel while the cancelled first request has not ended, the end
  of the first removes the abort controller of the second: the second goes on without one, so that neither
  a cancel nor the close of the tunnel reaches it any more.
\<close>

theorem reused_request_uncancellable:
  assumes "has_webUi C" "map_get (ch_tunnels ch) (wr_tunnelId q) = None"
  shows "let first = begin_web C w s q ch; second = begin_web C w s q first;
             after = web_ends w (Suc (ch_next ch)) threw second
         in map_has (ch_webs after) (Suc (ch_next first)) \<and> map_get (ch_tunnels after) (wr_tunnelId q) = None"
proof -
  define first where "first = begin_web C w s q ch"
  define second where "second = begin_web C w s q first"
  define after where "after = web_ends w (Suc (ch_next ch)) threw second"
  have 1: "ch_next first = Suc (Suc (Suc (ch_next ch)))" "ch_tunnels first = map_set (wr_tunnelId q) (Suc (Suc (ch_next ch))) (ch_tunnels ch)"
    "ch_active first = (ch_active ch)(Suc (Suc (ch_next ch)) := [(wr_requestId q, ch_next ch)])"
    "ch_webs first = map_set (Suc (ch_next ch)) \<lparr>wo_socket = s, wo_tunnelId = wr_tunnelId q, wo_requestId = wr_requestId q,
        wo_active = Suc (Suc (ch_next ch))\<rparr> (ch_webs ch)"
    using assms by (simp_all add: first_def begin_web_def Let_def)
  have 2: "ch_tunnels second = map_set (wr_tunnelId q) (Suc (Suc (ch_next ch))) (ch_tunnels first)"
    "ch_active second = (ch_active first)(Suc (Suc (ch_next ch)) := [(wr_requestId q, ch_next first)])"
    "ch_webs second = map_set (Suc (ch_next first)) \<lparr>wo_socket = s, wo_tunnelId = wr_tunnelId q, wo_requestId = wr_requestId q,
        wo_active = Suc (Suc (ch_next ch))\<rparr> (ch_webs first)"
    using assms(1) by (simp_all add: second_def begin_web_def Let_def 1)
  have 3: "map_get (ch_webs second) (Suc (ch_next ch)) = Some \<lparr>wo_socket = s, wo_tunnelId = wr_tunnelId q,
      wo_requestId = wr_requestId q, wo_active = Suc (Suc (ch_next ch))\<rparr>"
    by (simp add: 1 2)
  have "map_has (ch_webs after) (Suc (ch_next first)) \<and> map_get (ch_tunnels after) (wr_tunnelId q) = None"
    by (simp add: after_def web_ends_def 3 Let_def) (simp add: 1 2 map_has_iff)
  then show ?thesis by (simp add: Let_def first_def second_def after_def)
qed

subsection \<open>Witnesses\<close>

definition sample_options :: channel_options where
  "sample_options = \<lparr>co_instanceId = js ''i'', co_machine = js ''m'', co_project = js ''p'', co_directory = js ''d'',
     has_listSessions = False, has_listPending = True, has_answer = True, has_decide = True, has_prompt = True, has_webUi = True\<rparr>"

definition sample_world :: world where
  "sample_world = \<lparr>w_now = 0, w_random = 1 / 2, w_factory = True, w_sends = True, w_webUi = False\<rparr>"

definition sample_events :: "(world \<times> channel_event) list" where
  "sample_events =
     map (Pair sample_world)
       [Start, ProbeEnds 0 (Some (js ''1'')), SocketOpens 1,
        ServerFrame 1 (frame_json (RegistrationResult (js ''i'') Controllable)),
        ServerFrame 1 (frame_json (SnapshotRequest (js ''r''))), CollectionEnds (Some [])]"

lemma sample_reply: "SentTo 1 (SnapshotResponse (js ''r'') (js ''i'') []) \<in> set (ch_effects (channel_after sample_options sample_events))"
proof -
  have v: "trim (js ''1'') = js ''1''" by (simp add: trim_def js_def whitespace_def)
  have f: "read_frame False (frame_json (RegistrationResult (js ''i'') Controllable)) = Some ConfirmsRegistration"
    "read_frame True (frame_json (SnapshotRequest (js ''r''))) = Some (AsksSnapshot (js ''r''))"
    by (simp_all add: read_frame_simps)
  show ?thesis
    by (simp add: channel_after_def ch_run_def sample_events_def sample_world_def new_channel_def start_channel_def connect_def
        probe_ends_def v unknown_def finish_connect_def Let_def open_socket_def socket_opens_def server_frame_def f
        join_collection_def collection_ends_def sample_options_def try_send_def emit_effect_def del: frame_json.simps)
qed

lemma replies_follow_registration_witness:
  "\<exists>w v. (w, ServerFrame 1 v) \<in> set sample_events \<and> frame_type v ''registration''"
  using replies_follow_registration [OF sample_reply] by simp

lemma reconnect_delay_bounds_witness: "backoff_delay 9 (1 / 2) \<in> {375..37500} \<and> 22500 \<le> backoff_delay 9 (1 / 2)"
  using reconnect_delay_bounds [of "1 / 2" 9] by simp

lemma reused_request_uncancellable_witness:
  "let q = \<lparr>wr_tunnelId = js ''t'', wr_requestId = js ''r'', wr_method = js ''GET'', wr_path = js ''/'', wr_headers = [], wr_body = None\<rparr>;
       first = begin_web sample_options sample_world 0 q new_channel; second = begin_web sample_options sample_world 0 q first;
       after = web_ends sample_world 1 True second
   in map_has (ch_webs after) 4 \<and> map_get (ch_tunnels after) (js ''t'') = None"
proof -
  let ?q = "\<lparr>wr_tunnelId = js ''t'', wr_requestId = js ''r'', wr_method = js ''GET'', wr_path = js ''/'', wr_headers = [], wr_body = None\<rparr>"
  have "has_webUi sample_options" "map_get (ch_tunnels new_channel) (wr_tunnelId ?q) = None" "ch_next new_channel = 0"
    by (simp_all add: sample_options_def new_channel_def)
  moreover have "ch_next (begin_web sample_options sample_world 0 ?q new_channel) = 3"
    by (simp add: begin_web_def sample_options_def new_channel_def Let_def)
  ultimately show ?thesis
    using reused_request_uncancellable [of sample_options new_channel ?q sample_world 0 True] by (simp add: Let_def)
qed

end
