(* ===== verification/Pipeline.thy ===== *)
theory Pipeline
  imports Envelope MessageCache SessionRegistry PluginConfig
begin

section \<open>The notification pipeline\<close>

text \<open>
  \<open>createSessionNotifyHooks\<close> of \<open>packages/plugin/src/index.ts\<close>: how the host's events reach the session
  machine and its effects the delivery pump, when the control channel runs, and the disposal. Each step
  is one turn of the event loop: a call of the hook up to its \<open>await\<close> on the session's ancestry, the
  continuation after it, a timer of the machine, a discovery of the directory's sessions up to its next
  \<open>await\<close>, or a part of \<open>dispose\<close>. The pump and the control channel are behind their interfaces: their
  calls are effects, and whether one throws comes with the step.
\<close>

subsection \<open>Set-up\<close>

record host_input =
  hi_directory :: jstr
  hi_worktree :: jstr
  hi_projectRoot :: "jstr option"  \<comment> \<open>\<open>input.project?.worktree\<close>\<close>
  hi_basename :: "jstr \<Rightarrow> jstr"  \<comment> \<open>\<open>basename\<close> of the normal form, with the separator of the path\<close>

definition safeNonEmpty :: "jstr \<Rightarrow> jstr \<Rightarrow> jstr" where
  "safeNonEmpty value fallback = (if 0 < length (trim value) then value else fallback)"

fun first_label :: "(jstr \<Rightarrow> jstr) \<Rightarrow> jstr option list \<Rightarrow> jstr" where
  "first_label base [] = js ''unknown''"
| "first_label base (None # roots) = first_label base roots"
| "first_label base (Some p # roots) =
     (if length (trim p) = 0 then first_label base roots
      else if 0 < length (base (trim p)) \<and> base (trim p) \<noteq> js ''.'' then base (trim p)
      else first_label base roots)"

definition projectLabel :: "host_input \<Rightarrow> jstr" where
  "projectLabel input =
     first_label (hi_basename input) [hi_projectRoot input, Some (hi_worktree input), Some (hi_directory input)]"

text \<open>What stays fixed while the hooks live.\<close>

record hook_setup =
  su_machine :: machine_options
  su_factory :: envelope_factory
  su_directory :: jstr
  su_remote :: bool  \<comment> \<open>the normalized directory is one of \<open>remoteDirectories\<close>\<close>
  su_control :: bool  \<comment> \<open>there is a control channel\<close>
  su_formats :: formats
  su_url_ok :: "jstr \<Rightarrow> bool"
  su_sha :: "jstr \<Rightarrow> jstr"

definition hooks_source :: "host_input \<Rightarrow> plugin_config \<Rightarrow> source" where
  "hooks_source input config =
     \<lparr>machine = cfg_machine config, project = projectLabel input,
      directory = safeNonEmpty (hi_directory input) (safeNonEmpty (hi_worktree input) (js ''unknown''))\<rparr>"

definition hooks_setup ::
    "host \<Rightarrow> host_input \<Rightarrow> plugin_config \<Rightarrow> bool \<Rightarrow> formats \<Rightarrow> (jstr \<Rightarrow> bool) \<Rightarrow> (jstr \<Rightarrow> jstr) \<Rightarrow> hook_setup" where
  "hooks_setup H input config control fs url_ok sha =
     \<lparr>su_machine = \<lparr>idleDebounceMs = int (cfg_idleDebounceMs config), heartbeatMs = int (cfg_heartbeatMs config),
                    observesHeartbeat = True\<rparr>,
      su_factory = \<lparr>factory_source = hooks_source input config, includeSummary = cfg_includeSummary config\<rparr>,
      su_directory = directory (hooks_source input config),
      su_remote = (normalize H (directory (hooks_source input config)) \<in> set (cfg_remoteDirectories config)),
      su_control = control, su_formats = fs, su_url_ok = url_ok, su_sha = sha\<rparr>"

subsection \<open>State\<close>

text \<open>A call of the hook that awaits \<open>isMain\<close>; the answer is there once the promise is resolved.\<close>

record hook_call =
  call_session :: jstr
  call_event :: normalized_event
  call_answer :: "bool option option"

text \<open>A discovery: waiting for a list of at most so many sessions, or for the control channel to stop.\<close>

datatype discovery = Listing nat nat | Stopping

datatype hook_effect =
    Handed notify_event
  | QueueFailed notify_event
  | Unbuildable envelope_error
  | AncestryUnknown jstr
  | SessionMissing
  | ControlStarts
  | ControlStartFails
  | ControlStops
  | ListsSessions nat nat
  | EmptyDirectory
  | DiscoveryFails
  | DisposeStopsControl
  | PumpStops

record hooks =
  hk_registry :: registry
  hk_machine :: machine
  hk_cache :: message_cache
  hk_calls :: "(nat, hook_call) jsmap"
  hk_discoveries :: "(nat, discovery) jsmap"
  hk_next :: nat
  hk_disposed :: bool
  hk_started :: bool  \<comment> \<open>\<open>controlStarted\<close>\<close>
  hk_wanted :: bool  \<comment> \<open>\<open>controlWanted\<close>\<close>
  hk_stopping :: bool  \<comment> \<open>\<open>controlStopping\<close>\<close>
  hk_revision :: nat  \<comment> \<open>\<open>directoryRevision\<close>\<close>
  hk_scheduled :: bool  \<comment> \<open>the immediate of \<open>scheduleDiscovery\<close> is pending\<close>
  hk_flushes :: nat  \<comment> \<open>calls of \<open>dispose\<close> that wait for the control channel to stop\<close>
  hk_clears :: nat  \<comment> \<open>calls of \<open>dispose\<close> that wait for the pump to stop\<close>
  hk_out :: "hook_effect list"

text \<open>What the runtime decides in a turn.\<close>

record moment =
  mo_now :: int
  mo_seams :: "nat \<Rightarrow> seams"
  mo_pump :: bool  \<comment> \<open>\<open>pump.enqueue\<close> does not throw\<close>
  mo_start :: bool  \<comment> \<open>\<open>control.start\<close> does not throw\<close>

definition default_cache :: message_cache where
  "default_cache = \<lparr>cached_sessions = [], maxMessagesPerSession = 100, maxTextLength = 500, maxSessions = 1000\<rparr>"

definition new_hooks :: hooks where
  "new_hooks =
     \<lparr>hk_registry = newRegistry, hk_machine = newMachine, hk_cache = default_cache, hk_calls = [], hk_discoveries = [],
      hk_next = 0, hk_disposed = False, hk_started = False, hk_wanted = False, hk_stopping = False, hk_revision = 0,
      hk_scheduled = True, hk_flushes = 0, hk_clears = 0, hk_out = []\<rparr>"

definition hk_emit :: "hook_effect \<Rightarrow> hooks \<Rightarrow> hooks" where
  "hk_emit e h = h\<lparr>hk_out := hk_out h @ [e]\<rparr>"

subsection \<open>From effects of the machine to the pump\<close>

definition enqueueSafe :: "moment \<Rightarrow> notify_event \<Rightarrow> hooks \<Rightarrow> hooks" where
  "enqueueSafe mo e h = hk_emit (if mo_pump mo then Handed e else QueueFailed e) h"

definition emit_built :: "moment \<Rightarrow> envelope_error + notify_event \<Rightarrow> hooks \<Rightarrow> hooks" where
  "emit_built mo built h = (case built of Inl err \<Rightarrow> hk_emit (Unbuildable err) h | Inr e \<Rightarrow> enqueueSafe mo e h)"

definition effect_session :: "machine_effect \<Rightarrow> jstr" where
  "effect_session eff =
     (case eff of
        SessionMachine.Completed s _ \<Rightarrow> s | SessionMachine.Heartbeat s _ _ \<Rightarrow> s | FailedTerminal s _ \<Rightarrow> s
      | StoppedTerminal s _ \<Rightarrow> s | QuestionRequired s _ _ \<Rightarrow> s | PermissionRequired s _ _ _ \<Rightarrow> s
      | ProviderRequired s _ _ \<Rightarrow> s | SessionMachine.ActionResolved s _ _ \<Rightarrow> s)"

text \<open>The callbacks of the machine; \<open>emitTerminal\<close> clears the session's cache after the envelope.\<close>

definition machine_callback :: "hook_setup \<Rightarrow> moment \<Rightarrow> nat \<Rightarrow> machine_effect \<Rightarrow> hooks \<Rightarrow> hooks" where
  "machine_callback su mo i eff h =
     (let h1 = emit_built mo
                 (envelope_of (su_formats su) (su_url_ok su) (su_factory su) (mo_seams mo i)
                    (reg_title (hk_registry h)) (summary (hk_cache h)) eff) h
      in if is_terminal (effect_session eff) eff
         then h1\<lparr>hk_cache := clearSession (effect_session eff) (hk_cache h1)\<rparr> else h1)"

fun callbacks :: "hook_setup \<Rightarrow> moment \<Rightarrow> nat \<Rightarrow> machine_effect list \<Rightarrow> hooks \<Rightarrow> hooks" where
  "callbacks su mo i [] h = h"
| "callbacks su mo i (eff # effs) h = callbacks su mo (Suc i) effs (machine_callback su mo i eff h)"

definition perform :: "hook_setup \<Rightarrow> moment \<Rightarrow> machine_op \<Rightarrow> hooks \<Rightarrow> hooks" where
  "perform su mo op h =
     (let (m, effs) = machine_step (su_sha su) (su_machine su) (mo_now mo) op (hk_machine h)
      in callbacks su mo 0 effs (h\<lparr>hk_machine := m\<rparr>))"

subsection \<open>The control channel\<close>

definition startControl :: "hook_setup \<Rightarrow> moment \<Rightarrow> hooks \<Rightarrow> hooks" where
  "startControl su mo h =
     (if hk_disposed h \<or> \<not> su_control su then h
      else let h1 = (if hk_wanted h then h else h\<lparr>hk_revision := Suc (hk_revision h), hk_wanted := True\<rparr>)
           in if hk_started h1 \<or> hk_stopping h1 then h1
              else if mo_start mo then hk_emit ControlStarts (h1\<lparr>hk_started := True\<rparr>)
              else hk_emit ControlStartFails h1)"

text \<open>\<open>stopEmptyControl\<close> up to its \<open>await\<close>, with whether it waits, and after it.\<close>

definition stop_empty :: "hook_setup \<Rightarrow> hooks \<Rightarrow> hooks \<times> bool" where
  "stop_empty su h =
     (let h1 = h\<lparr>hk_wanted := False\<rparr>
      in if \<not> hk_started h1 \<or> \<not> su_control su then (h1, False)
         else (hk_emit ControlStops (h1\<lparr>hk_started := False, hk_stopping := True\<rparr>), True))"

definition stop_settled :: "hook_setup \<Rightarrow> moment \<Rightarrow> hooks \<Rightarrow> hooks" where
  "stop_settled su mo h =
     (let h1 = h\<lparr>hk_stopping := False\<rparr> in if hk_wanted h1 then startControl su mo h1 else h1)"

subsection \<open>Discovery of the directory's sessions\<close>

record host_session =
  hs_id :: jstr
  hs_parentID :: "jstr option"
  hs_title :: jstr
  hs_directory :: jstr
  hs_archived :: bool  \<comment> \<open>\<open>time\<close> has a truthy \<open>archived\<close>\<close>

definition begin_discovery :: "hook_setup \<Rightarrow> moment \<Rightarrow> hooks \<Rightarrow> hooks" where
  "begin_discovery su mo h =
     (if \<not> hk_scheduled h then h
      else let h1 = h\<lparr>hk_scheduled := False\<rparr>
           in if hk_disposed h1 \<or> \<not> su_control su then h1
              else let h2 = h1\<lparr>hk_revision := Suc (hk_revision h1)\<rparr>
                   in if su_remote su then startControl su mo h2
                      else hk_emit (ListsSessions (hk_next h2) 1)
                             (h2\<lparr>hk_discoveries := map_set (hk_next h2) (Listing (hk_revision h2) 1) (hk_discoveries h2),
                                 hk_next := Suc (hk_next h2)\<rparr>))"

text \<open>The \<open>catch\<close> of a discovery: unknown is not empty.\<close>

definition discovery_fails :: "hook_setup \<Rightarrow> moment \<Rightarrow> hooks \<Rightarrow> hooks" where
  "discovery_fails su mo h = startControl su mo (hk_emit DiscoveryFails h)"

definition record_session :: "host_session \<Rightarrow> registry \<Rightarrow> registry" where
  "record_session s r = updateFromLookup (hs_id s) (hs_parentID s) (Some (hs_title s)) (hs_archived s) r"

definition lists_main :: "host_session \<Rightarrow> bool" where
  "lists_main s \<longleftrightarrow>
     (hs_parentID s = None \<or> hs_parentID s = Some []) \<and> \<not> isInternalSession (Some (hs_title s)) \<and> \<not> hs_archived s"

text \<open>
  The host has answered with a list (an entry that is no session is \<open>None\<close>), or has failed. The limits
  are 1, 50 and 200.
\<close>

definition list_settled ::
    "hook_setup \<Rightarrow> moment \<Rightarrow> nat \<Rightarrow> host_session option list option \<Rightarrow> hooks \<Rightarrow> hooks" where
  "list_settled su mo d answer h =
     (case map_get (hk_discoveries h) d of
        Some (Listing revision limit) \<Rightarrow>
          (let h1 = h\<lparr>hk_discoveries := map_delete d (hk_discoveries h)\<rparr> in
           if hk_disposed h1 \<or> revision \<noteq> hk_revision h1 then h1
           else case answer of
                  None \<Rightarrow> discovery_fails su mo h1
                | Some found \<Rightarrow>
                    if list_ex (\<lambda>s. case s of None \<Rightarrow> True | Some x \<Rightarrow> hs_directory x \<noteq> su_directory su) found
                    then discovery_fails su mo h1
                    else let sessions = map the found;
                             h2 = h1\<lparr>hk_registry := fold record_session sessions (hk_registry h1)\<rparr>
                         in if list_ex lists_main sessions then startControl su mo h2
                            else if length sessions < limit
                            then (case stop_empty su h2 of
                                    (h3, True) \<Rightarrow> h3\<lparr>hk_discoveries := map_set d Stopping (hk_discoveries h3)\<rparr>
                                  | (h3, False) \<Rightarrow> hk_emit EmptyDirectory h3)
                            else if limit < 200
                            then let next = (if limit = 1 then 50 else 200)
                                 in hk_emit (ListsSessions d next)
                                      (h2\<lparr>hk_discoveries := map_set d (Listing revision next) (hk_discoveries h2)\<rparr>)
                            else discovery_fails su mo h2)
      | _ \<Rightarrow> h)"

definition control_stopped :: "hook_setup \<Rightarrow> moment \<Rightarrow> nat \<Rightarrow> hooks \<Rightarrow> hooks" where
  "control_stopped su mo d h =
     (case map_get (hk_discoveries h) d of
        Some Stopping \<Rightarrow>
          hk_emit EmptyDirectory (stop_settled su mo (h\<lparr>hk_discoveries := map_delete d (hk_discoveries h)\<rparr>))
      | _ \<Rightarrow> h)"

subsection \<open>The event hook\<close>

definition cache_role :: "message_role \<Rightarrow> role" where
  "cache_role r = (case r of UserRole \<Rightarrow> User | AssistantRole \<Rightarrow> Assistant)"

definition message_outcome :: "hook_setup \<Rightarrow> moment \<Rightarrow> jstr \<Rightarrow> error_outcome \<Rightarrow> hooks \<Rightarrow> hooks" where
  "message_outcome su mo sid outcome h =
     perform su mo (case outcome of StoppedOutcome \<Rightarrow> SessionMachine.Stop sid | FailedOutcome \<Rightarrow> Fail sid) h"

fun dispatch :: "hook_setup \<Rightarrow> moment \<Rightarrow> normalized_event \<Rightarrow> hooks \<Rightarrow> hooks" where
  "dispatch su mo (SessionStatus sid st retry) h =
     perform su mo
       (case st of
          BusyStatus \<Rightarrow> SessionMachine.Busy sid
        | RetryStatus \<Rightarrow> SessionMachine.Retry sid (case retry of None \<Rightarrow> None | Some r \<Rightarrow> retry_action r)
        | IdleStatus \<Rightarrow> Idle sid) h"
| "dispatch su mo (SessionError sid outcome) h =
     (case sid of None \<Rightarrow> h | Some s \<Rightarrow> message_outcome su mo s outcome h)"
| "dispatch su mo (MessageRole sid mid r outcome) h =
     (let h1 = h\<lparr>hk_cache := onRole sid mid (cache_role r) (hk_cache h)\<rparr>
      in case outcome of None \<Rightarrow> h1 | Some oc \<Rightarrow> message_outcome su mo sid oc h1)"
| "dispatch su mo (MessageText sid mid pid t) h = h\<lparr>hk_cache := onText sid mid t (hk_cache h)\<rparr>"
| "dispatch su mo (QuestionAsked sid rid qs) h = perform su mo (AskQuestion sid rid qs) h"
| "dispatch su mo (QuestionResolved sid rid) h = perform su mo (ResolveQuestion sid rid) h"
| "dispatch su mo (PermissionAsked sid rid p y) h = perform su mo (AskPermission sid rid p y) h"
| "dispatch su mo (PermissionResolved sid rid) h = perform su mo (ResolvePermission sid rid) h"
| "dispatch su mo (SessionUpsert f) h = h"
| "dispatch su mo (SessionDeleted f) h = h"

definition handle_session_info :: "hook_setup \<Rightarrow> moment \<Rightarrow> session_fields \<Rightarrow> bool \<Rightarrow> hooks \<Rightarrow> hooks" where
  "handle_session_info su mo f deleted h =
     (if sf_directory f \<noteq> None \<and> sf_directory f \<noteq> Some (su_directory su) then h
      else let sid = sf_sessionID f;
               wasExcluded = reg_excluded (hk_registry h) sid;
               removed = deleted \<or> sf_archived f;
               h1 = h\<lparr>hk_registry := reg_update sid (sf_parentID f) (Some (sf_title f)) removed (hk_registry h)\<rparr>
           in if reg_excluded (hk_registry h1) sid
              then let h2 = perform su mo (Dispose sid) h1;
                       h3 = h2\<lparr>hk_cache := clearSession sid (hk_cache h2)\<rparr>
                   in if removed \<or> \<not> wasExcluded
                      then h3\<lparr>hk_revision := Suc (hk_revision h3), hk_scheduled := True\<rparr> else h3
              else startControl su mo (h1\<lparr>hk_revision := Suc (hk_revision h1)\<rparr>))"

fun event_session :: "normalized_event \<Rightarrow> jstr option" where
  "event_session (SessionUpsert f) = Some (sf_sessionID f)"
| "event_session (SessionDeleted f) = Some (sf_sessionID f)"
| "event_session (SessionStatus sid st retry) = Some sid"
| "event_session (SessionError sid outcome) = sid"
| "event_session (MessageRole sid mid r outcome) = Some sid"
| "event_session (MessageText sid mid pid t) = Some sid"
| "event_session (QuestionAsked sid rid qs) = Some sid"
| "event_session (QuestionResolved sid rid) = Some sid"
| "event_session (PermissionAsked sid rid p y) = Some sid"
| "event_session (PermissionResolved sid rid) = Some sid"

text \<open>The hook up to its \<open>await\<close>.\<close>

definition await_ancestry :: "jstr \<Rightarrow> normalized_event \<Rightarrow> hooks \<Rightarrow> hooks" where
  "await_ancestry sid n h =
     (let (r, a) = isMain (hk_next h) sid (hk_registry h)
      in h\<lparr>hk_registry := r, hk_next := Suc (hk_next h),
           hk_calls := map_set (hk_next h) \<lparr>call_session = sid, call_event = n, call_answer = map_option Some a\<rparr> (hk_calls h)\<rparr>)"

definition onEvent :: "hook_setup \<Rightarrow> moment \<Rightarrow> json \<Rightarrow> hooks \<Rightarrow> hooks" where
  "onEvent su mo raw h =
     (if hk_disposed h then h
      else case normalizeEvent raw of
             None \<Rightarrow> h
           | Some (SessionUpsert f) \<Rightarrow> handle_session_info su mo f False h
           | Some (SessionDeleted f) \<Rightarrow> handle_session_info su mo f True h
           | Some n \<Rightarrow>
               (case event_session n of
                  None \<Rightarrow> hk_emit SessionMissing h
                | Some sid \<Rightarrow> await_ancestry sid n h))"

text \<open>The host's answer to an ancestry lookup resolves the promises of its callers.\<close>

definition answer_call :: "nat \<times> bool option \<Rightarrow> (nat, hook_call) jsmap \<Rightarrow> (nat, hook_call) jsmap" where
  "answer_call ca cs =
     (case map_get cs (fst ca) of
        None \<Rightarrow> cs
      | Some c \<Rightarrow> map_set (fst ca) (c\<lparr>call_answer := Some (snd ca)\<rparr>) cs)"

definition ancestry_settled :: "jstr \<Rightarrow> json option \<Rightarrow> hooks \<Rightarrow> hooks" where
  "ancestry_settled sid response h =
     (let (r, answers) = lookup_settled sid response (hk_registry h)
      in h\<lparr>hk_registry := r, hk_calls := fold answer_call answers (hk_calls h)\<rparr>)"

text \<open>The hook after its \<open>await\<close>.\<close>

definition resume_call :: "hook_setup \<Rightarrow> moment \<Rightarrow> nat \<Rightarrow> hooks \<Rightarrow> hooks" where
  "resume_call su mo i h =
     (case map_get (hk_calls h) i of
        None \<Rightarrow> h
      | Some c \<Rightarrow>
          (case call_answer c of
             None \<Rightarrow> h
           | Some main \<Rightarrow>
               let h1 = h\<lparr>hk_calls := map_delete i (hk_calls h)\<rparr> in
               (case main of
                  None \<Rightarrow> hk_emit (AncestryUnknown (call_session c)) h1
                | Some False \<Rightarrow> h1
                | Some True \<Rightarrow>
                    if hk_disposed h1 \<or> reg_excluded (hk_registry h1) (call_session c) then h1
                    else dispatch su mo (call_event c) (startControl su mo h1))))"

subsection \<open>Disposal\<close>

definition dispose_begins :: "hook_setup \<Rightarrow> hooks \<Rightarrow> hooks" where
  "dispose_begins su h =
     (let h1 = h\<lparr>hk_disposed := True, hk_scheduled := False, hk_flushes := Suc (hk_flushes h)\<rparr>
      in if su_control su then hk_emit DisposeStopsControl h1 else h1)"

definition dispose_flushes :: "hook_setup \<Rightarrow> moment \<Rightarrow> hooks \<Rightarrow> hooks" where
  "dispose_flushes su mo h =
     (if hk_flushes h = 0 then h
      else let h1 = h\<lparr>hk_flushes := hk_flushes h - 1, hk_clears := Suc (hk_clears h)\<rparr>
           in hk_emit PumpStops (perform su mo DisposeAll (perform su mo Flush h1)))"

definition dispose_ends :: "hooks \<Rightarrow> hooks" where
  "dispose_ends h =
     (if hk_clears h = 0 then h else h\<lparr>hk_clears := hk_clears h - 1, hk_cache := clear (hk_cache h)\<rparr>)"

subsection \<open>Turns\<close>

datatype turn =
    HostEvent json
  | AncestrySettled jstr "json option"
  | Resumes nat
  | TimerFires nat
  | DiscoveryDue
  | ListSettled nat "host_session option list option"
  | ControlStopped nat
  | DisposeCalled
  | DisposeFlushes
  | DisposeEnds

fun hk_step :: "hook_setup \<Rightarrow> moment \<times> turn \<Rightarrow> hooks \<Rightarrow> hooks" where
  "hk_step su (mo, HostEvent raw) h = onEvent su mo raw h"
| "hk_step su (mo, AncestrySettled sid response) h = ancestry_settled sid response h"
| "hk_step su (mo, Resumes i) h = resume_call su mo i h"
| "hk_step su (mo, TimerFires t) h = perform su mo (Fire t) h"
| "hk_step su (mo, DiscoveryDue) h = begin_discovery su mo h"
| "hk_step su (mo, ListSettled d answer) h = list_settled su mo d answer h"
| "hk_step su (mo, ControlStopped d) h = control_stopped su mo d h"
| "hk_step su (mo, DisposeCalled) h = dispose_begins su h"
| "hk_step su (mo, DisposeFlushes) h = dispose_flushes su mo h"
| "hk_step su (mo, DisposeEnds) h = dispose_ends h"

definition hooks_after :: "hook_setup \<Rightarrow> (moment \<times> turn) list \<Rightarrow> hooks" where
  "hooks_after su ts = fold (hk_step su) ts new_hooks"

end
