(* ===== verification/PipelineProps.thy ===== *)
theory PipelineProps
  imports Pipeline
begin

section \<open>What reaches the pump\<close>

text \<open>
  The gate of the pipeline over all histories of its turns: every event handed to the pump is valid and
  of a session that the registry knows as a main session at that time, and a disposed pipeline is silent.
  The session machine enters through its refinement to phases.
\<close>

subsection \<open>Effects of the machine by session\<close>

abbreviation unseen :: spec_state where "unseen \<equiv> (Fresh, [])"

definition own_event :: "jstr \<Rightarrow> session_event \<Rightarrow> bool" where
  "own_event sid ev = (case ev of EAsk _ _ eff \<Rightarrow> effect_session eff = sid | _ \<Rightarrow> True)"

definition spontaneous :: "session_event \<Rightarrow> bool" where
  "spontaneous ev = (ev = EDebounce \<or> ev = ETick \<or> ev = EDispose)"

lemma spec_step_session:
  "own_event sid ev \<Longrightarrow> eff \<in> set (snd (spec_step sha t sid ev st)) \<Longrightarrow> effect_session eff = sid"
  by (cases "(sha, t, sid, ev, st)" rule: spec_step.cases)
    (auto simp: own_event_def effect_session_def request_provider_def end_round_def Let_def
      split: if_splits phase.splits prod.splits)

lemma spec_step_spontaneous: "spontaneous ev \<Longrightarrow> spec_step sha t sid ev unseen = (unseen, [])"
  by (auto simp: spontaneous_def)

lemma spec_run_spontaneous:
  assumes "spec_run sha evs v = (v', out)" "\<forall>(t, sid, ev) \<in> set evs. spontaneous ev"
  shows "(\<forall>s. v s = unseen \<longrightarrow> v' s = unseen) \<and> (\<forall>eff \<in> set out. v (effect_session eff) \<noteq> unseen)"
  using assms
proof (induction evs arbitrary: v out)
  case (Cons x evs)
  obtain t sid ev where x: "x = (t, sid, ev)" by (cases x)
  obtain st o1 where st: "spec_step sha t sid ev (v sid) = (st, o1)" by (cases "spec_step sha t sid ev (v sid)")
  obtain o2 where r: "spec_run sha evs (v(sid := st)) = (v', o2)" "out = o1 @ o2"
    using Cons.prems(1) x st by (auto simp: Let_def split: prod.splits)
  have p: "spontaneous ev" using Cons.prems(2) x by auto
  then have own: "own_event sid ev" by (auto simp: spontaneous_def own_event_def)
  have keep: "(v(sid := st)) s = unseen" if "v s = unseen" for s
    using that spec_step_spontaneous [OF p, of sha t sid] st by auto
  have IH: "(\<forall>s. (v(sid := st)) s = unseen \<longrightarrow> v' s = unseen) \<and>
      (\<forall>eff \<in> set o2. (v(sid := st)) (effect_session eff) \<noteq> unseen)"
    using Cons.IH [OF r(1)] Cons.prems(2) by simp
  have "v (effect_session eff) \<noteq> unseen" if "eff \<in> set o1" for eff
  proof -
    have "effect_session eff = sid" using spec_step_session [OF own, of eff sha t "v sid"] st that by simp
    then show ?thesis using spec_step_spontaneous [OF p, of sha t sid] st that by auto
  qed
  then show ?case using IH keep r(2) by fastforce
qed simp

lemma spec_run_single:
  "spec_run sha [(t, sid, ev)] v = (v(sid := fst (spec_step sha t sid ev (v sid))), snd (spec_step sha t sid ev (v sid)))"
  by (simp add: split_beta Let_def)

definition spontaneous_op :: "machine_op \<Rightarrow> bool" where
  "spontaneous_op op = (case op of Fire _ \<Rightarrow> True | Flush \<Rightarrow> True | Dispose _ \<Rightarrow> True | DisposeAll \<Rightarrow> True | _ \<Rightarrow> False)"

lemma spontaneous_op_events: "spontaneous_op op \<Longrightarrow> \<forall>(t', sid, ev) \<in> set (at_time t (events_of m op)). spontaneous ev"
  by (cases op) (auto simp: spontaneous_op_def at_time_def spontaneous_def split: option.splits timer_kind.splits)

lemma spontaneous_step:
  assumes "machine_inv opts m" "spontaneous_op op" "machine_step sha opts t op m = (m', out)"
  shows "machine_inv opts m' \<and> (\<forall>s. view m s = unseen \<longrightarrow> view m' s = unseen) \<and>
         (\<forall>eff \<in> set out. view m (effect_session eff) \<noteq> unseen)"
proof -
  have "refines_run sha opts (at_time t (events_of m op)) m (m', out)"
    using step_refines [OF assms(1), of sha t op] assms(3) by simp
  then have "machine_inv opts m'" and r: "spec_run sha (at_time t (events_of m op)) (view m) = (view m', out)"
    by (simp_all add: refines_run_def)
  then show ?thesis using spec_run_spontaneous [OF r spontaneous_op_events [OF assms(2)]] by blast
qed

lemma session_step:
  assumes "machine_inv opts m" "events_of m op = [(sid, ev)]" "own_event sid ev"
    and "machine_step sha opts t op m = (m', out)"
  shows "machine_inv opts m' \<and> (\<forall>s. s \<noteq> sid \<longrightarrow> view m' s = view m s) \<and> (\<forall>eff \<in> set out. effect_session eff = sid)"
proof -
  have r: "machine_inv opts m'" "spec_run sha [(t, sid, ev)] (view m) = (view m', out)"
    using step_refines [OF assms(1), of sha t op] assms(2,4) by (simp_all add: refines_run_def)
  from r(2) have "view m' = (view m)(sid := fst (spec_step sha t sid ev (view m sid)))"
    "out = snd (spec_step sha t sid ev (view m sid))" unfolding spec_run_single by simp_all
  then show ?thesis using r(1) spec_step_session [OF assms(3)] by simp
qed

lemma dispose_step:
  assumes "machine_inv opts m" "machine_step sha opts t (Dispose sid) m = (m', out)"
  shows "machine_inv opts m' \<and> (\<forall>s. view m' s = (if s = sid then unseen else view m s)) \<and> out = []"
proof -
  have "machine_inv opts m'" "spec_run sha [(t, sid, EDispose)] (view m) = (view m', out)"
    using step_refines [OF assms(1), of sha t "Dispose sid"] assms(2) by (simp_all add: refines_run_def)
  moreover have "spec_step sha t sid EDispose (view m sid) = (unseen, [])" by (cases "view m sid") simp
  ultimately show ?thesis unfolding spec_run_single by (auto simp: fun_eq_iff)
qed

subsection \<open>What a turn adds\<close>

definition extends :: "(notify_event \<Rightarrow> bool) \<Rightarrow> hooks \<Rightarrow> hooks \<Rightarrow> bool" where
  "extends P h h' \<longleftrightarrow> (\<exists>es. hk_out h' = hk_out h @ es \<and> (\<forall>e. Handed e \<in> set es \<longrightarrow> P e))"

lemma extends_same: "hk_out h' = hk_out h \<Longrightarrow> extends P h h'"
  by (simp add: extends_def)

lemma extends_refl [simp, intro]: "extends P h h"
  by (simp add: extends_def)

lemma extends_updates [simp]:
  "extends P h (h'\<lparr>hk_registry := r\<rparr>) = extends P h h'" "extends P h (h'\<lparr>hk_calls := cs\<rparr>) = extends P h h'"
  "extends P h (h'\<lparr>hk_discoveries := ds\<rparr>) = extends P h h'" "extends P h (h'\<lparr>hk_next := n\<rparr>) = extends P h h'"
  "extends P h (h'\<lparr>hk_scheduled := b\<rparr>) = extends P h h'" "extends P h (h'\<lparr>hk_revision := n\<rparr>) = extends P h h'"
  by (simp_all add: extends_def)

lemma extends_trans: "extends P h1 h2 \<Longrightarrow> extends P h2 h3 \<Longrightarrow> extends P h1 h3"
  by (fastforce simp: extends_def)

lemma extends_emit: "extends P h h' \<Longrightarrow> (\<And>e. x = Handed e \<Longrightarrow> P e) \<Longrightarrow> extends P h (hk_emit x h')"
  by (fastforce simp: extends_def hk_emit_def)

lemma extends_out: "hk_out h2 = hk_out h1 \<Longrightarrow> extends P h h1 \<Longrightarrow> extends P h h2"
  by (simp add: extends_def)

text \<open>What the gate reads of the state.\<close>

definition core :: "hooks \<Rightarrow> registry \<times> machine \<times> (nat, hook_call) jsmap \<times> bool \<times> nat \<times> nat" where
  "core h = (hk_registry h, hk_machine h, hk_calls h, hk_disposed h, hk_flushes h, hk_next h)"

lemma core_fields:
  "core h' = core h \<Longrightarrow> hk_registry h' = hk_registry h \<and> hk_machine h' = hk_machine h \<and> hk_calls h' = hk_calls h \<and>
     hk_disposed h' = hk_disposed h \<and> hk_flushes h' = hk_flushes h \<and> hk_next h' = hk_next h"
  by (simp add: core_def)

lemma core_emit [simp]: "core (hk_emit x h) = core h"
  by (simp add: core_def hk_emit_def)

lemma core_start [simp]: "core (startControl su mo h) = core h"
  by (simp add: startControl_def Let_def core_def hk_emit_def)

lemma extends_start: "extends P h h' \<Longrightarrow> extends P h (startControl su mo h')"
  by (auto simp: startControl_def Let_def intro!: extends_emit elim: extends_out [rotated])

lemma core_stop_settled [simp]: "core (stop_settled su mo h) = core h"
proof -
  have "core (h\<lparr>hk_stopping := False\<rparr>) = core h" by (simp add: core_def)
  then show ?thesis by (simp add: stop_settled_def Let_def)
qed

lemma extends_stop_settled: "extends P h h' \<Longrightarrow> extends P h (stop_settled su mo h')"
  by (auto simp: stop_settled_def Let_def intro!: extends_start elim: extends_out [rotated])

lemma core_stop_empty: "stop_empty su h = (h', w) \<Longrightarrow> core h' = core h"
  by (auto simp: stop_empty_def Let_def core_def hk_emit_def split: if_splits)

lemma extends_stop_empty: "stop_empty su h' = (h'', w) \<Longrightarrow> extends P h h' \<Longrightarrow> extends P h h''"
  by (auto simp: stop_empty_def Let_def intro!: extends_emit split: if_splits elim: extends_out [rotated])

lemma envelope_session:
  assumes "envelope_of fs url_ok F w title summ eff = Inr e"
  shows "session_id (Contracts.event_session e) = effect_session eff \<and> validateNotifyEvent fs e"
proof -
  have b: "session_id (Contracts.event_session e) = es_id s \<and> validateNotifyEvent fs e" if "build fs F w s p = Inr e" for s p
    using that by (auto simp: build_def finalize_def sessionSection_def split: option.splits if_splits)
  show ?thesis using assms
    by (cases eff) (auto simp: envelope_of_def factory_defs effect_session_def Let_def split: if_splits dest!: b)
qed

subsection \<open>The callbacks\<close>

lemma callback_core [simp]: "core (machine_callback su mo i eff h) = core h"
  by (simp add: machine_callback_def emit_built_def enqueueSafe_def hk_emit_def core_def Let_def split: sum.split)

lemma callbacks_core [simp]: "core (callbacks su mo i effs h) = core h"
  by (induction effs arbitrary: i h) simp_all

definition valid_of :: "hook_setup \<Rightarrow> (jstr \<Rightarrow> bool) \<Rightarrow> notify_event \<Rightarrow> bool" where
  "valid_of su S e \<longleftrightarrow> S (session_id (Contracts.event_session e)) \<and> validateNotifyEvent (su_formats su) e"

lemma callback_extends:
  assumes "S (effect_session eff)"
  shows "extends (valid_of su S) h (machine_callback su mo i eff h)"
proof -
  define r where "r = envelope_of (su_formats su) (su_url_ok su) (su_factory su) (mo_seams mo i)
                    (reg_title (hk_registry h)) (summary (hk_cache h)) eff"
  have "extends (valid_of su S) h (emit_built mo r h)"
  proof (cases r)
    case (Inr e)
    then have "valid_of su S e" using envelope_session [of _ _ _ _ _ _ eff e] assms unfolding r_def valid_of_def by metis
    with Inr show ?thesis by (auto simp: emit_built_def enqueueSafe_def intro!: extends_emit)
  qed (auto simp: emit_built_def intro!: extends_emit)
  then show ?thesis
    unfolding machine_callback_def r_def [symmetric] Let_def by (auto elim: extends_out [rotated])
qed

lemma callbacks_extends:
  "\<forall>eff \<in> set effs. S (effect_session eff) \<Longrightarrow> extends (valid_of su S) h (callbacks su mo i effs h)"
proof (induction effs arbitrary: i h)
  case Nil
  show ?case by (simp add: extends_same)
next
  case (Cons eff effs)
  have "extends (valid_of su S) h (machine_callback su mo i eff h)"
    using Cons.prems by (intro callback_extends) simp
  moreover have "extends (valid_of su S) (machine_callback su mo i eff h) (callbacks su mo (Suc i) effs (machine_callback su mo i eff h))"
    using Cons.prems by (intro Cons.IH) simp
  ultimately show ?case by (auto intro: extends_trans)
qed

lemma perform_step:
  assumes "machine_step (su_sha su) (su_machine su) (mo_now mo) op (hk_machine h) = (m, effs)"
  shows "core (perform su mo op h) = core (h\<lparr>hk_machine := m\<rparr>)"
    and "\<forall>eff \<in> set effs. S (effect_session eff) \<Longrightarrow> extends (valid_of su S) h (perform su mo op h)"
proof -
  show "core (perform su mo op h) = core (h\<lparr>hk_machine := m\<rparr>)" using assms by (simp add: perform_def)
  assume "\<forall>eff \<in> set effs. S (effect_session eff)"
  then have "extends (valid_of su S) (h\<lparr>hk_machine := m\<rparr>) (callbacks su mo 0 effs (h\<lparr>hk_machine := m\<rparr>))"
    by (rule callbacks_extends)
  then show "extends (valid_of su S) h (perform su mo op h)" using assms by (simp add: perform_def extends_def)
qed

subsection \<open>The ancestry of a session stays known\<close>

definition known_more :: "registry \<Rightarrow> registry \<Rightarrow> bool" where
  "known_more r r' \<longleftrightarrow> (\<forall>s. known_main r s \<noteq> None \<longrightarrow> known_main r' s = known_main r s)"

lemma known_more_refl [simp]: "known_more r r"
  by (simp add: known_more_def)

lemma known_more_trans: "known_more r r' \<Longrightarrow> known_more r' r'' \<Longrightarrow> known_more r r''"
  unfolding known_more_def by metis

lemma known_update:
  "known_main (reg_update sid p t a r) s =
     (if s = sid then Some (\<not> reg_excluded (reg_update sid p t a r) sid) else known_main r s)"
  by (auto simp: known_main_def reg_update_def reg_excluded_def Let_def split: option.splits)

lemma known_excluded: "known_main r s \<noteq> None \<Longrightarrow> known_main r s = Some (\<not> reg_excluded r s)"
  by (auto simp: known_main_def reg_excluded_def split: option.splits)

lemma known_lookup: "known_more r (updateFromLookup sid p t a r)"
  by (auto simp: known_more_def updateFromLookup_def known_update map_has_iff)
    (auto simp: known_main_def split: option.splits)

lemma inflight_lookup [simp]: "reg_inflight (updateFromLookup sid p t a r) = reg_inflight r"
  by (simp add: updateFromLookup_def reg_update_def Let_def)

lemma inflight_update [simp]: "reg_inflight (reg_update sid p t a r) = reg_inflight r"
  by (simp add: reg_update_def Let_def)

lemma record_sessions:
  "known_more r (fold record_session ss r) \<and> reg_inflight (fold record_session ss r) = reg_inflight r"
proof (induction ss arbitrary: r)
  case (Cons s ss)
  have "known_more r (record_session s r)" "reg_inflight (record_session s r) = reg_inflight r"
    by (simp_all add: record_session_def known_lookup)
  with Cons [of "record_session s r"] show ?case by (auto intro: known_more_trans)
qed simp

lemma known_inflight [simp]: "known_main (r\<lparr>reg_inflight := f\<rparr>) = known_main r"
  by (simp add: known_main_def fun_eq_iff)

lemma known_resolve:
  assumes "resolve sid l r = (r', answer)"
  shows "known_more r r' \<and> reg_inflight r' = reg_inflight r \<and> (answer \<noteq> None \<longrightarrow> known_main r' sid \<noteq> None)"
proof (cases "known_main r sid")
  case None
  with assms show ?thesis
    by (cases l) (auto simp: resolve_def known_more_def known_main_def Let_def split: option.splits if_splits)
next
  case (Some b)
  with assms show ?thesis by (auto simp: resolve_def)
qed

lemma known_settled:
  assumes "lookup_settled sid response r = (r', answers)"
  shows "known_more r r'"
    and "reg_inflight r' = map_delete sid (reg_inflight r) \<or> r' = r \<and> answers = []"
    and "\<And>c b. (c, Some b) \<in> set answers \<Longrightarrow> known_main r' sid \<noteq> None \<and> (\<exists>cs. map_get (reg_inflight r) sid = Some cs \<and> c \<in> set cs)"
proof -
  have "known_more r r' \<and> (reg_inflight r' = map_delete sid (reg_inflight r) \<or> r' = r \<and> answers = []) \<and>
    (\<forall>c b. (c, Some b) \<in> set answers \<longrightarrow>
       known_main r' sid \<noteq> None \<and> (\<exists>cs. map_get (reg_inflight r) sid = Some cs \<and> c \<in> set cs))"
  proof (cases "map_get (reg_inflight r) sid")
    case None
    with assms show ?thesis by (auto simp: lookup_settled_def)
  next
    case (Some cs)
    let ?info = "sdk_session sid response"
    define r1 where "r1 = (case ?info of None \<Rightarrow> r | Some i \<Rightarrow> updateFromLookup sid (info_parent i) (info_title i) (info_archived i) r)"
    obtain r2 answer where r2: "resolve sid (map_option info_parent ?info) r1 = (r2, answer)" by force
    have r1: "known_more r r1" "reg_inflight r1 = reg_inflight r"
      by (simp_all add: r1_def known_lookup split: option.split)
    have res: "r' = r2\<lparr>reg_inflight := map_delete sid (reg_inflight r2)\<rparr>" "answers = map (\<lambda>c. (c, answer)) cs"
      using assms Some r2 unfolding lookup_settled_def r1_def by (auto simp: Let_def)
    have "known_more r r2" using r1(1) known_resolve [OF r2] by (auto intro: known_more_trans)
    then have "known_more r r'" by (simp add: known_more_def res(1))
    then show ?thesis using known_resolve [OF r2] r1(2) Some by (auto simp: res)
  qed
  then show "known_more r r'" "reg_inflight r' = map_delete sid (reg_inflight r) \<or> r' = r \<and> answers = []"
    "\<And>c b. (c, Some b) \<in> set answers \<Longrightarrow> known_main r' sid \<noteq> None \<and> (\<exists>cs. map_get (reg_inflight r) sid = Some cs \<and> c \<in> set cs)"
    by blast+
qed

lemma known_isMain:
  assumes "isMain c sid r = (r', answer)"
  shows "known_main r' = known_main r \<and> (answer \<noteq> None \<longrightarrow> known_main r sid \<noteq> None) \<and>
         (\<forall>s cs. map_get (reg_inflight r') s = Some cs \<longrightarrow>
            (\<forall>x \<in> set cs. (x = c \<and> s = sid) \<or> (\<exists>cs0. map_get (reg_inflight r) s = Some cs0 \<and> x \<in> set cs0)))"
  using assms by (auto simp: isMain_def map_get_set split: option.splits if_splits)

subsection \<open>The gate\<close>

definition live_known :: "registry \<Rightarrow> machine \<Rightarrow> bool" where
  "live_known r m \<longleftrightarrow> (\<forall>s. view m s \<noteq> unseen \<longrightarrow> known_main r s = Some True)"

definition calls_ok :: "registry \<Rightarrow> (nat, hook_call) jsmap \<Rightarrow> nat \<Rightarrow> bool" where
  "calls_ok r cs n \<longleftrightarrow>
     (\<forall>i c. map_get cs i = Some c \<longrightarrow>
        i < n \<and> event_session (call_event c) = Some (call_session c) \<and>
        (\<forall>b. call_answer c = Some (Some b) \<longrightarrow> known_main r (call_session c) \<noteq> None)) \<and>
     (\<forall>s ws x. map_get (reg_inflight r) s = Some ws \<longrightarrow> x \<in> set ws \<longrightarrow>
        x < n \<and> (\<forall>c. map_get cs x = Some c \<longrightarrow> call_session c = s))"

definition gate_inv :: "hook_setup \<Rightarrow> hooks \<Rightarrow> bool" where
  "gate_inv su h \<longleftrightarrow>
     machine_inv (su_machine su) (hk_machine h) \<and> live_known (hk_registry h) (hk_machine h) \<and>
     calls_ok (hk_registry h) (hk_calls h) (hk_next h) \<and>
     (hk_disposed h \<and> hk_flushes h = 0 \<longrightarrow> sessions (hk_machine h) = [])"

lemma gate_core: "core h' = core h \<Longrightarrow> gate_inv su h \<Longrightarrow> gate_inv su h'"
  unfolding gate_inv_def by (drule core_fields) simp

lemma live_known_more: "known_more r r' \<Longrightarrow> live_known r m \<Longrightarrow> live_known r' m"
  unfolding known_more_def live_known_def by (metis option.distinct(1))

lemma calls_ok_more:
  assumes "known_more r r'" "reg_inflight r' = reg_inflight r" "calls_ok r cs n"
  shows "calls_ok r' cs n"
proof -
  have "known_main r s \<noteq> None \<Longrightarrow> known_main r' s \<noteq> None" for s using assms(1) by (simp add: known_more_def)
  with assms(3) show ?thesis unfolding calls_ok_def assms(2) by blast
qed

text \<open>An operation on the machine: its own turns, and those of a main session.\<close>

lemma perform_spontaneous:
  assumes "gate_inv su h" "spontaneous_op op" "sessions (hk_machine h) = [] \<Longrightarrow> sessions (fst (machine_step (su_sha su) (su_machine su) (mo_now mo) op (hk_machine h))) = []"
  shows "gate_inv su (perform su mo op h) \<and>
         extends (valid_of su (\<lambda>s. known_main (hk_registry h) s = Some True)) h (perform su mo op h)"
proof -
  obtain m effs where st: "machine_step (su_sha su) (su_machine su) (mo_now mo) op (hk_machine h) = (m, effs)" by force
  note facts = spontaneous_step [OF _ assms(2) st]
  have eff: "\<forall>eff \<in> set effs. known_main (hk_registry h) (effect_session eff) = Some True"
    using assms(1) facts by (auto simp: gate_inv_def live_known_def)
  have g: "gate_inv su (h\<lparr>hk_machine := m\<rparr>)"
    using assms(1,3) facts st by (auto simp: gate_inv_def live_known_def)
  show ?thesis using gate_core [OF perform_step(1) [OF st] g] perform_step(2) [OF st eff] by simp
qed

lemma perform_session:
  assumes "gate_inv su h" "events_of (hk_machine h) op = [(sid, ev)]" "own_event sid ev"
    and "known_main (hk_registry h) sid = Some True" "\<not> hk_disposed h"
  shows "gate_inv su (perform su mo op h) \<and>
         extends (valid_of su (\<lambda>s. known_main (hk_registry h) s = Some True)) h (perform su mo op h)"
proof -
  obtain m effs where st: "machine_step (su_sha su) (su_machine su) (mo_now mo) op (hk_machine h) = (m, effs)" by force
  note facts = session_step [OF _ assms(2,3) st]
  have eff: "\<forall>eff \<in> set effs. known_main (hk_registry h) (effect_session eff) = Some True"
    using assms(1,4) facts by (auto simp: gate_inv_def)
  have g: "gate_inv su (h\<lparr>hk_machine := m\<rparr>)"
    using assms(1,4,5) facts by (auto simp: gate_inv_def live_known_def)
  show ?thesis using gate_core [OF perform_step(1) [OF st] g] perform_step(2) [OF st eff] by simp
qed

text \<open>A turn keeps the gate, and hands the pump only events of main sessions.\<close>

definition gated :: "hook_setup \<Rightarrow> hooks \<Rightarrow> hooks \<Rightarrow> bool" where
  "gated su h h' \<longleftrightarrow> gate_inv su h' \<and> extends (valid_of su (\<lambda>s. known_main (hk_registry h') s = Some True)) h h'"

lemma gated_perform_session:
  assumes "gate_inv su h" "events_of (hk_machine h) op = [(sid, ev)]" "own_event sid ev"
    and "known_main (hk_registry h) sid = Some True" "\<not> hk_disposed h"
  shows "gated su h (perform su mo op h)"
proof -
  obtain m effs where st: "machine_step (su_sha su) (su_machine su) (mo_now mo) op (hk_machine h) = (m, effs)" by force
  have "hk_registry (perform su mo op h) = hk_registry h" using core_fields [OF perform_step(1) [OF st]] by simp
  with perform_session [OF assms, of mo] show ?thesis by (simp add: gated_def)
qed

lemma gated_perform_spontaneous:
  assumes "gate_inv su h" "spontaneous_op op" "sessions (hk_machine h) = [] \<Longrightarrow> sessions (fst (machine_step (su_sha su) (su_machine su) (mo_now mo) op (hk_machine h))) = []"
  shows "gated su h (perform su mo op h)"
proof -
  obtain m effs where st: "machine_step (su_sha su) (su_machine su) (mo_now mo) op (hk_machine h) = (m, effs)" by force
  have "hk_registry (perform su mo op h) = hk_registry h" using core_fields [OF perform_step(1) [OF st]] by simp
  with perform_spontaneous [OF assms] show ?thesis by (simp add: gated_def)
qed

lemma gated_core: "gate_inv su h \<Longrightarrow> core h' = core h \<Longrightarrow> extends (\<lambda>_. False) h h' \<Longrightarrow> gated su h h'"
  by (auto simp: gated_def extends_def intro: gate_core)

lemma gated_before:
  assumes "gated su h1 h'" "extends (\<lambda>_. False) h h1"
  shows "gated su h h'"
proof -
  have "extends (valid_of su (\<lambda>s. known_main (hk_registry h') s = Some True)) h h1" using assms(2) by (auto simp: extends_def)
  with assms(1) show ?thesis by (auto simp: gated_def intro: extends_trans)
qed

lemma gated_after:
  assumes "gated su h h1" "core h' = core h1" "extends (\<lambda>_. False) h1 h'"
  shows "gated su h h'"
proof -
  have "hk_registry h' = hk_registry h1" using core_fields [OF assms(2)] by simp
  moreover have "extends P h1 h'" for P using assms(3) by (auto simp: extends_def)
  ultimately show ?thesis using assms(1,2) by (auto simp: gated_def intro: gate_core extends_trans)
qed

subsection \<open>Every turn keeps the gate\<close>

lemma gated_refl: "gate_inv su h \<Longrightarrow> gated su h h"
  by (simp add: gated_def extends_refl)

lemma gated_start: "gate_inv su h \<Longrightarrow> gated su h (startControl su mo h)"
  by (intro gated_core) (auto intro: extends_start)

lemma extends_update: "hk_out h' = hk_out h \<Longrightarrow> extends P h h'"
  by (rule extends_same)

lemma message_outcome_gated:
  assumes "gate_inv su h" "known_main (hk_registry h) sid = Some True" "\<not> hk_disposed h"
  shows "gated su h (message_outcome su mo sid outcome h)"
  using assms unfolding message_outcome_def
  by (cases outcome) (auto intro!: gated_perform_session simp: own_event_def)

lemma cache_gated: "gate_inv su h \<Longrightarrow> gate_inv su (h\<lparr>hk_cache := c\<rparr>)"
  by (rule gate_core [of _ h]) (simp_all add: core_def)

lemma dispatch_gated:
  assumes "gate_inv su h" "event_session n = Some sid" "known_main (hk_registry h) sid = Some True" "\<not> hk_disposed h"
  shows "gated su h (dispatch su mo n h)"
proof (cases n)
  case (MessageRole s mid r oc)
  let ?h1 = "h\<lparr>hk_cache := onRole s mid (cache_role r) (hk_cache h)\<rparr>"
  have g: "gate_inv su ?h1" by (rule cache_gated [OF assms(1)])
  have "gated su ?h1 (dispatch su mo n h)"
    using MessageRole assms g by (auto simp: Let_def intro!: message_outcome_gated gated_refl split: option.split)
  then show ?thesis by (rule gated_before) (simp add: extends_same)
next
  case (MessageText s mid pid t)
  then show ?thesis using assms(1) by (auto intro!: gated_core extends_same simp: core_def)
next
  case (SessionStatus s st retry)
  then show ?thesis using assms
    by (cases st) (auto intro!: gated_perform_session simp: own_event_def)
next
  case (SessionError s oc)
  then show ?thesis using assms by (auto intro!: message_outcome_gated)
qed (use assms in \<open>auto intro!: gated_perform_session gated_refl simp: own_event_def effect_session_def\<close>)

lemma calls_ok_update:
  assumes "calls_ok r cs n"
  shows "calls_ok (reg_update sid p t a r) cs n"
proof -
  have "known_main r s \<noteq> None \<Longrightarrow> known_main (reg_update sid p t a r) s \<noteq> None" for s by (simp add: known_update)
  with assms show ?thesis unfolding calls_ok_def inflight_update by blast
qed

text \<open>Session info: an excluded session loses its rounds before anything else runs.\<close>

lemma handle_session_info_gated:
  assumes g: "gate_inv su h" and nd: "\<not> hk_disposed h"
  shows "gated su h (handle_session_info su mo f deleted h)"
proof (cases "sf_directory f \<noteq> None \<and> sf_directory f \<noteq> Some (su_directory su)")
  case True
  with g show ?thesis by (simp add: handle_session_info_def gated_refl)
next
  case False
  define sid where "sid = sf_sessionID f"
  define r where "r = reg_update sid (sf_parentID f) (Some (sf_title f)) (deleted \<or> sf_archived f) (hk_registry h)"
  define h1 where "h1 = h\<lparr>hk_registry := r\<rparr>"
  have inv: "machine_inv (su_machine su) (hk_machine h)" "live_known (hk_registry h) (hk_machine h)"
    "calls_ok r (hk_calls h) (hk_next h)"
    using g calls_ok_update by (auto simp: gate_inv_def r_def)
  have other: "known_main r s = (if s = sid then Some (\<not> reg_excluded r sid) else known_main (hk_registry h) s)" for s
    unfolding r_def by (rule known_update)
  show ?thesis
  proof (cases "reg_excluded r sid")
    case True
    obtain m effs where st: "machine_step (su_sha su) (su_machine su) (mo_now mo) (Dispose sid) (hk_machine h) = (m, effs)" by force
    note facts = dispose_step [OF inv(1) st]
    have st1: "machine_step (su_sha su) (su_machine su) (mo_now mo) (Dispose sid) (hk_machine h1) = (m, effs)"
      using st by (simp add: h1_def)
    have p: "core (perform su mo (Dispose sid) h1) = core (h1\<lparr>hk_machine := m\<rparr>)"
      "extends (valid_of su (\<lambda>_. False)) h1 (perform su mo (Dispose sid) h1)"
      using perform_step [OF st1] facts by auto
    have "live_known r m" using inv(2) facts other by (auto simp: live_known_def)
    then have "gate_inv su (h1\<lparr>hk_machine := m\<rparr>)" using inv(3) facts nd by (simp add: gate_inv_def h1_def)
    then have g2: "gate_inv su (perform su mo (Dispose sid) h1)" by (rule gate_core [OF p(1)])
    have e2: "extends (\<lambda>_. False) h (perform su mo (Dispose sid) h1)"
      using p(2) by (simp add: extends_def valid_of_def h1_def)
    define h3 where "h3 = handle_session_info su mo f deleted h"
    have "core h3 = core (perform su mo (Dispose sid) h1)" "hk_out h3 = hk_out (perform su mo (Dispose sid) h1)"
      using False True unfolding h3_def handle_session_info_def h1_def r_def sid_def by (auto simp: core_def Let_def)
    then have "gate_inv su h3" "extends (\<lambda>_. False) h h3" using g2 e2 gate_core extends_out by blast+
    then show ?thesis unfolding h3_def [symmetric] by (auto simp: gated_def extends_def)
  next
    case not_excluded: False
    have "live_known r (hk_machine h)" using inv(2) other not_excluded by (auto simp: live_known_def)
    then have "gate_inv su (h1\<lparr>hk_revision := Suc (hk_revision h1)\<rparr>)" using inv nd by (simp add: gate_inv_def h1_def)
    then have "gated su (h1\<lparr>hk_revision := Suc (hk_revision h1)\<rparr>) (handle_session_info su mo f deleted h)"
      using False not_excluded gated_start unfolding handle_session_info_def h1_def r_def sid_def by (auto simp: Let_def)
    then show ?thesis by (rule gated_before) (simp add: extends_same h1_def)
  qed
qed

lemma await_gated:
  assumes g: "gate_inv su h" and n: "event_session n = Some sid" and nd: "\<not> hk_disposed h"
  shows "gated su h (await_ancestry sid n h)"
proof -
  obtain r a where m: "isMain (hk_next h) sid (hk_registry h) = (r, a)" by force
  note facts = known_isMain [OF m]
  have c: "calls_ok (hk_registry h) (hk_calls h) (hk_next h)" using g by (simp add: gate_inv_def)
  have km: "known_main r = known_main (hk_registry h)" using facts by blast
  define c0 where "c0 = \<lparr>call_session = sid, call_event = n, call_answer = map_option Some a\<rparr>"
  have c0: "call_session c0 = sid" "call_event c0 = n" "call_answer c0 = map_option Some a" by (simp_all add: c0_def)
  have "calls_ok r (map_set (hk_next h) c0 (hk_calls h)) (Suc (hk_next h))"
    unfolding calls_ok_def km
  proof (intro conjI allI impI)
    fix i c assume "map_get (map_set (hk_next h) c0 (hk_calls h)) i = Some c"
    then have i: "i = hk_next h \<and> c = c0 \<or> map_get (hk_calls h) i = Some c" by (simp split: if_splits)
    then show "i < Suc (hk_next h)" using c unfolding calls_ok_def by (auto simp: less_Suc_eq)
    show "event_session (call_event c) = Some (call_session c)" using i c n c0 unfolding calls_ok_def by auto
    fix b assume "call_answer c = Some (Some b)"
    then show "known_main (hk_registry h) (call_session c) \<noteq> None"
      using i c facts c0 unfolding calls_ok_def by (cases a) auto
  next
    fix s ws x assume w: "map_get (reg_inflight r) s = Some ws" "x \<in> set ws"
    then have x: "x = hk_next h \<and> s = sid \<or> (\<exists>cs0. map_get (reg_inflight (hk_registry h)) s = Some cs0 \<and> x \<in> set cs0)"
      using facts by blast
    then show "x < Suc (hk_next h)" using c unfolding calls_ok_def by (auto simp: less_Suc_eq)
    fix c1 assume "map_get (map_set (hk_next h) c0 (hk_calls h)) x = Some c1"
    then have "x = hk_next h \<and> c1 = c0 \<or> x \<noteq> hk_next h \<and> map_get (hk_calls h) x = Some c1" by (simp split: if_splits)
    then show "call_session c1 = s" using x c c0 unfolding calls_ok_def by blast
  qed
  moreover have "live_known r (hk_machine h)" using g km by (simp add: gate_inv_def live_known_def)
  ultimately have "gate_inv su (await_ancestry sid n h)" using g nd m by (simp add: gate_inv_def await_ancestry_def c0_def)
  moreover have "hk_out (await_ancestry sid n h) = hk_out h" using m by (simp add: await_ancestry_def)
  ultimately show ?thesis by (simp add: gated_def extends_same)
qed

lemma onEvent_gated:
  assumes "gate_inv su h"
  shows "gated su h (onEvent su mo raw h)"
proof (cases "hk_disposed h \<or> normalizeEvent raw = None")
  case True
  with assms show ?thesis by (auto simp: onEvent_def gated_refl)
next
  case False
  then obtain n where n: "normalizeEvent raw = Some n" and nd: "\<not> hk_disposed h" by auto
  have missing: "gated su h (hk_emit SessionMissing h)" using assms by (intro gated_core) (auto intro: extends_emit)
  show ?thesis
    by (cases n) (use n nd assms missing in
      \<open>auto simp: onEvent_def intro!: handle_session_info_gated await_gated split: option.split\<close>)
qed

lemma answered_calls:
  "map_get (fold answer_call as cs) i = Some c \<Longrightarrow>
   \<exists>c0. map_get cs i = Some c0 \<and> call_session c = call_session c0 \<and> call_event c = call_event c0 \<and>
        (call_answer c = call_answer c0 \<or> (\<exists>b. (i, b) \<in> set as \<and> call_answer c = Some b))"
proof (induction as arbitrary: cs)
  case (Cons a as)
  obtain x b where a: "a = (x, b)" by (cases a)
  from Cons.IH [of "answer_call a cs"] Cons.prems obtain c1 where c1: "map_get (answer_call a cs) i = Some c1"
    "call_session c = call_session c1" "call_event c = call_event c1"
    "call_answer c = call_answer c1 \<or> (\<exists>b. (i, b) \<in> set as \<and> call_answer c = Some b)" by auto
  from c1(1) a have "\<exists>c0. map_get cs i = Some c0 \<and> call_session c1 = call_session c0 \<and> call_event c1 = call_event c0 \<and>
      (call_answer c1 = call_answer c0 \<or> i = x \<and> call_answer c1 = Some b)"
    by (auto simp: answer_call_def split: option.splits if_splits)
  with c1 a show ?case by fastforce
qed auto

lemma ancestry_gated:
  assumes g: "gate_inv su h"
  shows "gated su h (ancestry_settled sid response h)"
proof -
  obtain r answers where ls: "lookup_settled sid response (hk_registry h) = (r, answers)" by force
  note km = known_settled [OF ls]
  define cs where "cs = fold answer_call answers (hk_calls h)"
  have c: "calls_ok (hk_registry h) (hk_calls h) (hk_next h)" using g by (simp add: gate_inv_def)
  have inflight: "map_get (reg_inflight (hk_registry h)) s = Some ws" if "map_get (reg_inflight r) s = Some ws" for s ws
    using that km(2) by (auto split: if_splits)
  have more: "known_main (hk_registry h) s \<noteq> None \<Longrightarrow> known_main r s \<noteq> None" for s
    using km(1) by (simp add: known_more_def)
  have "calls_ok r cs (hk_next h)"
    unfolding calls_ok_def
  proof (intro conjI allI impI)
    fix i c1 assume "map_get cs i = Some c1"
    from answered_calls [OF this [unfolded cs_def]] obtain c0 where c0: "map_get (hk_calls h) i = Some c0"
      "call_session c1 = call_session c0" "call_event c1 = call_event c0"
      "call_answer c1 = call_answer c0 \<or> (\<exists>b. (i, b) \<in> set answers \<and> call_answer c1 = Some b)" by blast
    show "i < hk_next h" using c c0(1) unfolding calls_ok_def by blast
    show "event_session (call_event c1) = Some (call_session c1)" using c c0 unfolding calls_ok_def by simp
    fix b assume "call_answer c1 = Some (Some b)"
    with c0(4) consider "call_answer c0 = Some (Some b)" | "(i, Some b) \<in> set answers" by auto
    then show "known_main r (call_session c1) \<noteq> None"
    proof cases
      case 1
      then have "known_main (hk_registry h) (call_session c0) \<noteq> None" using c c0(1) unfolding calls_ok_def by blast
      then show ?thesis using more c0(2) by simp
    next
      case 2
      from km(3) [OF 2] obtain ws where "known_main r sid \<noteq> None"
        "map_get (reg_inflight (hk_registry h)) sid = Some ws" "i \<in> set ws" by blast
      moreover from this(2,3) c0(1) have "call_session c0 = sid" using c unfolding calls_ok_def by blast
      ultimately show ?thesis using c0(2) by simp
    qed
  next
    fix s ws x assume w: "map_get (reg_inflight r) s = Some ws" "x \<in> set ws"
    show "x < hk_next h" using c inflight [OF w(1)] w(2) unfolding calls_ok_def by blast
    fix c1 assume "map_get cs x = Some c1"
    from answered_calls [OF this [unfolded cs_def]] obtain c0 where "map_get (hk_calls h) x = Some c0"
      "call_session c1 = call_session c0" by blast
    then show "call_session c1 = s" using c inflight [OF w(1)] w(2) unfolding calls_ok_def by metis
  qed
  moreover have "live_known r (hk_machine h)" using g km(1) live_known_more by (simp add: gate_inv_def)
  ultimately have "gate_inv su (ancestry_settled sid response h)"
    using g ls by (simp add: gate_inv_def ancestry_settled_def cs_def)
  moreover have "hk_out (ancestry_settled sid response h) = hk_out h" using ls by (simp add: ancestry_settled_def)
  ultimately show ?thesis by (simp add: gated_def extends_same)
qed

lemma calls_ok_delete:
  assumes "calls_ok r cs n"
  shows "calls_ok r (map_delete i cs) n"
proof -
  have "map_get (map_delete i cs) x = Some c \<Longrightarrow> map_get cs x = Some c" for x c by (simp split: if_splits)
  with assms show ?thesis unfolding calls_ok_def by blast
qed

lemma resume_gated:
  assumes g: "gate_inv su h"
  shows "gated su h (resume_call su mo i h)"
proof (cases "\<exists>c a. map_get (hk_calls h) i = Some c \<and> call_answer c = Some a")
  case False
  then show ?thesis using g by (auto simp: resume_call_def gated_refl split: option.splits)
next
  case True
  then obtain c a where c: "map_get (hk_calls h) i = Some c" and a: "call_answer c = Some a" by blast
  define h1 where "h1 = h\<lparr>hk_calls := map_delete i (hk_calls h)\<rparr>"
  have h1: "gate_inv su h1" "extends (\<lambda>_. False) h h1"
    using g by (simp_all add: h1_def gate_inv_def calls_ok_delete extends_same)
  have ok: "calls_ok (hk_registry h) (hk_calls h) (hk_next h)" using g by (simp add: gate_inv_def)
  then have n: "event_session (call_event c) = Some (call_session c)" using c unfolding calls_ok_def by blast
  have "gated su h1 (resume_call su mo i h)"
  proof (cases "a = Some True \<and> \<not> hk_disposed h \<and> \<not> reg_excluded (hk_registry h) (call_session c)")
    case True
    then have "known_main (hk_registry h) (call_session c) \<noteq> None" using ok c a unfolding calls_ok_def by blast
    with True known_excluded have main: "known_main (hk_registry h) (call_session c) = Some True" by force
    define h2 where "h2 = startControl su mo h1"
    have h2: "gate_inv su h2" "extends (\<lambda>_. False) h1 h2" "core h2 = core h1"
      using gated_start [OF h1(1)] extends_start [OF extends_refl] by (simp_all add: gated_def h2_def)
    have "gated su h2 (dispatch su mo (call_event c) h2)"
      using main True core_fields [OF h2(3)] by (intro dispatch_gated [OF h2(1) n]) (simp_all add: h1_def)
    then have "gated su h1 (dispatch su mo (call_event c) h2)" by (rule gated_before) (rule h2(2))
    moreover have "resume_call su mo i h = dispatch su mo (call_event c) h2"
      using True c a by (simp add: resume_call_def Let_def h1_def h2_def)
    ultimately show ?thesis by simp
  next
    case False
    then have "resume_call su mo i h = (if a = None then hk_emit (AncestryUnknown (call_session c)) h1 else h1)"
      using c a by (auto simp: resume_call_def Let_def h1_def split: option.splits bool.splits)
    then show ?thesis using h1(1) by (auto intro!: gated_core extends_emit)
  qed
  then show ?thesis by (rule gated_before) (rule h1(2))
qed

subsection \<open>Discovery and disposal\<close>

lemma gated_same:
  assumes "gate_inv su h" "core h' = core h" "hk_out h' = hk_out h"
  shows "gated su h h'"
  using assms by (intro gated_core) (simp_all add: extends_same)

lemma registry_gated:
  assumes "gate_inv su h"
  shows "gate_inv su (h\<lparr>hk_registry := fold record_session ss (hk_registry h)\<rparr>)"
  using assms record_sessions [of "hk_registry h" ss] live_known_more calls_ok_more
  unfolding gate_inv_def by simp blast

lemma begin_discovery_core: "core (begin_discovery su mo h) = core h \<or>
    core (begin_discovery su mo h) = core (h\<lparr>hk_next := Suc (hk_next h)\<rparr>)"
  by (auto simp: begin_discovery_def Let_def startControl_def core_def hk_emit_def)

lemma gate_next: "gate_inv su h \<Longrightarrow> gate_inv su (h\<lparr>hk_next := Suc (hk_next h)\<rparr>)"
  by (fastforce simp: gate_inv_def calls_ok_def)

lemma begin_discovery_gated:
  assumes "gate_inv su h"
  shows "gated su h (begin_discovery su mo h)"
proof -
  have "gate_inv su (begin_discovery su mo h)"
    using begin_discovery_core gate_core assms gate_next by metis
  moreover have "extends P h (begin_discovery su mo h)" for P
    by (auto simp: begin_discovery_def Let_def intro!: extends_start extends_emit)
  ultimately show ?thesis by (simp add: gated_def)
qed

lemma discovery_fails_gated:
  assumes "gate_inv su h"
  shows "gated su h (discovery_fails su mo h)"
  using assms unfolding discovery_fails_def
  by (intro gated_core) (auto intro!: extends_start extends_emit)

lemma stop_empty_gated:
  assumes "gate_inv su h" "stop_empty su h = (h', w)"
  shows "gated su h h'"
  by (rule gated_core [OF assms(1) core_stop_empty [OF assms(2)] extends_stop_empty [OF assms(2) extends_refl]])

lemma list_settled_gated:
  assumes g: "gate_inv su h"
  shows "gated su h (list_settled su mo d answer h)"
proof (cases "\<exists>revision limit. map_get (hk_discoveries h) d = Some (Listing revision limit)")
  case False
  then show ?thesis using g by (auto simp: list_settled_def gated_refl split: option.splits discovery.splits)
next
  case True
  then obtain revision limit where d: "map_get (hk_discoveries h) d = Some (Listing revision limit)" by blast
  define h1 where "h1 = h\<lparr>hk_discoveries := map_delete d (hk_discoveries h)\<rparr>"
  have h1: "gate_inv su h1" "extends (\<lambda>_. False) h h1"
    using g by (auto simp: h1_def gate_inv_def extends_same)
  have rest: "gated su h1 (list_settled su mo d answer h)"
    if nd: "\<not> (hk_disposed h1 \<or> revision \<noteq> hk_revision h1)" and ans: "answer = Some found"
      and ok: "\<not> list_ex (\<lambda>s. case s of None \<Rightarrow> True | Some x \<Rightarrow> hs_directory x \<noteq> su_directory su) found" for found
  proof -
    define ss where "ss = map the found"
    define h2 where "h2 = h1\<lparr>hk_registry := fold record_session ss (hk_registry h1)\<rparr>"
    have h2: "gate_inv su h2" "extends (\<lambda>_. False) h1 h2"
      unfolding h2_def by (rule registry_gated [OF h1(1)]) (simp add: extends_same)
    obtain h3 w where h3: "stop_empty su h2 = (h3, w)" by force
    have g3: "gated su h2 h3" by (rule stop_empty_gated [OF h2(1) h3])
    have waits: "gated su h2 (h3\<lparr>hk_discoveries := map_set d Stopping (hk_discoveries h3)\<rparr>)"
      using g3 by (rule gated_after) (simp_all add: core_def extends_same)
    have ends: "gated su h2 (hk_emit EmptyDirectory h3)"
      using g3 by (rule gated_after) (auto intro: extends_emit)
    have more: "gated su h2 (hk_emit (ListsSessions d n) (h2\<lparr>hk_discoveries := map_set d (Listing revision n) (hk_discoveries h2)\<rparr>))" for n
      using h2(1) by (intro gated_core) (auto simp: core_def hk_emit_def extends_def)
    have "gated su h2 (list_settled su mo d answer h)"
      using d nd ans ok waits ends more h3 gated_start [OF h2(1)] discovery_fails_gated [OF h2(1)]
      unfolding list_settled_def h1_def [symmetric]
      by (auto simp: Let_def ss_def [symmetric] h2_def [symmetric] split: bool.splits)
    then show ?thesis by (rule gated_before) (rule h2(2))
  qed
  have "gated su h1 (list_settled su mo d answer h)"
  proof (cases "hk_disposed h1 \<or> revision \<noteq> hk_revision h1")
    case True
    then show ?thesis using d gated_refl [OF h1(1)] by (simp add: list_settled_def h1_def Let_def)
  next
    case live: False
    show ?thesis
    proof (cases answer)
      case None
      then show ?thesis using d live discovery_fails_gated [OF h1(1)] by (simp add: list_settled_def h1_def Let_def)
    next
      case (Some found)
      then show ?thesis using d live discovery_fails_gated [OF h1(1)] rest
        by (cases "list_ex (\<lambda>s. case s of None \<Rightarrow> True | Some x \<Rightarrow> hs_directory x \<noteq> su_directory su) found")
          (simp_all add: list_settled_def h1_def Let_def)
    qed
  qed
  then show ?thesis by (rule gated_before) (rule h1(2))
qed

lemma control_stopped_gated:
  assumes "gate_inv su h"
  shows "gated su h (control_stopped su mo d h)"
proof -
  have "gated su h (hk_emit EmptyDirectory (stop_settled su mo (h\<lparr>hk_discoveries := map_delete d (hk_discoveries h)\<rparr>)))"
    using assms by (intro gated_core) (auto simp: core_def [of "h\<lparr>hk_discoveries := _\<rparr>"] core_def [of h]
      intro!: extends_emit extends_stop_settled)
  with assms show ?thesis by (auto simp: control_stopped_def gated_refl split: option.split discovery.split)
qed

lemma dispose_begins_gated:
  assumes "gate_inv su h"
  shows "gated su h (dispose_begins su h)"
  using assms by (auto simp: dispose_begins_def Let_def gated_def gate_inv_def hk_emit_def extends_def)

lemma dispose_all_empty: "sessions (disposeAll m) = []"
proof -
  have "sessions (fold disposeSession ks m) = fold map_delete ks (sessions m)" for ks
    by (induction ks arbitrary: m) (auto simp: disposeSession_def Let_def cancelIdle_def clearHeartbeat_def modify_def clearTimeout_def split: option.splits)
  moreover have "fold map_delete (map_keys xs) xs = []" for xs :: "(jstr, nat) jsmap"
  proof -
    have "map_get (fold map_delete ks xs) k = (if k \<in> set ks then None else map_get xs k)" for ks k
      by (induction ks arbitrary: xs) auto
    then have "map_get (fold map_delete (map_keys xs) xs) k = None" for k
      by (simp add: map_get_None_iff)
    then show ?thesis by (metis list.exhaust map_get_simps(2) option.distinct(1) prod.exhaust)
  qed
  ultimately show ?thesis by (simp add: disposeAll_def)
qed

lemma dispose_flushes_gated:
  assumes "gate_inv su h"
  shows "gated su h (dispose_flushes su mo h)"
proof (cases "hk_flushes h = 0")
  case True
  with assms show ?thesis by (simp add: dispose_flushes_def gated_refl)
next
  case False
  define h1 where "h1 = perform su mo Flush h"
  define h2 where "h2 = perform su mo DisposeAll h1"
  have g1: "gated su h h1" unfolding h1_def
    using assms by (intro gated_perform_spontaneous) (simp_all add: spontaneous_op_def flushPendingCompletions_def)
  have g2: "gated su h1 h2" unfolding h2_def
    using g1 by (intro gated_perform_spontaneous) (simp_all add: gated_def spontaneous_op_def dispose_all_empty)
  have empty: "sessions (hk_machine h2) = []"
  proof -
    obtain m effs where st: "machine_step (su_sha su) (su_machine su) (mo_now mo) DisposeAll (hk_machine h1) = (m, effs)" by force
    then have "sessions m = []" using dispose_all_empty by (metis fst_conv machine_step.simps(13))
    then show ?thesis using core_fields [OF perform_step(1) [OF st]] by (simp add: h2_def)
  qed
  have same: "perform su mo op (h\<lparr>hk_flushes := f, hk_clears := c\<rparr>) = (perform su mo op h)\<lparr>hk_flushes := f, hk_clears := c\<rparr>"
    for op h f c
  proof -
    have cb: "machine_callback su mo i eff (h\<lparr>hk_flushes := f, hk_clears := c\<rparr>) =
      (machine_callback su mo i eff h)\<lparr>hk_flushes := f, hk_clears := c\<rparr>" for i eff h f c
      by (simp add: machine_callback_def emit_built_def enqueueSafe_def hk_emit_def Let_def split: sum.split)
    have cbs: "callbacks su mo i effs (h\<lparr>hk_flushes := f, hk_clears := c\<rparr>) =
      (callbacks su mo i effs h)\<lparr>hk_flushes := f, hk_clears := c\<rparr>" for i effs h f c
      by (induction effs arbitrary: i h) (simp_all add: cb)
    obtain m effs where st: "machine_step (su_sha su) (su_machine su) (mo_now mo) op (hk_machine h) = (m, effs)" by force
    have swap: "h\<lparr>hk_flushes := f, hk_clears := c, hk_machine := m\<rparr> = h\<lparr>hk_machine := m, hk_flushes := f, hk_clears := c\<rparr>" by simp
    have sel: "hk_machine (h\<lparr>hk_flushes := f, hk_clears := c\<rparr>) = hk_machine h" by simp
    show ?thesis by (simp only: perform_def sel st Let_def prod.case swap cbs)
  qed
  have reg: "hk_registry h2 = hk_registry h1"
  proof -
    obtain m effs where st: "machine_step (su_sha su) (su_machine su) (mo_now mo) DisposeAll (hk_machine h1) = (m, effs)" by force
    show ?thesis using core_fields [OF perform_step(1) [OF st]] by (simp add: h2_def)
  qed
  have "dispose_flushes su mo h = hk_emit PumpStops (h2\<lparr>hk_flushes := hk_flushes h - 1, hk_clears := Suc (hk_clears h)\<rparr>)"
    using False by (simp add: dispose_flushes_def Let_def same h1_def h2_def)
  moreover have "gate_inv su (h2\<lparr>hk_flushes := hk_flushes h - 1, hk_clears := Suc (hk_clears h)\<rparr>)"
    using g2 empty by (simp add: gated_def gate_inv_def)
  moreover have "extends (valid_of su (\<lambda>s. known_main (hk_registry h2) s = Some True)) h h2"
    using g1 g2 reg by (auto simp: gated_def intro: extends_trans)
  ultimately show ?thesis
    by (auto simp: gated_def intro!: extends_emit intro: gate_core) (auto simp: hk_emit_def extends_def)
qed

lemma timer_gated:
  assumes "gate_inv su h"
  shows "gated su h (perform su mo (Fire t) h)"
proof (rule gated_perform_spontaneous [OF assms])
  show "spontaneous_op (Fire t)" by (simp add: spontaneous_op_def)
  assume "sessions (hk_machine h) = []"
  moreover have "links (su_machine su) (hk_machine h)" using assms by (simp add: gate_inv_def machine_inv_def)
  ultimately have "timers (hk_machine h) t = None" by (metis links_timer map_get_simps(1) option.distinct(1) option.exhaust)
  then show "sessions (fst (machine_step (su_sha su) (su_machine su) (mo_now mo) (Fire t) (hk_machine h))) = []"
    using \<open>sessions (hk_machine h) = []\<close> by (simp add: fire_def)
qed

lemma step_gated:
  assumes "gate_inv su h"
  shows "gated su h (hk_step su x h)"
proof (cases "(su, x, h)" rule: hk_step.cases)
  case (10 su' mo h')
  with assms show ?thesis by (auto simp: dispose_ends_def intro!: gated_same simp: core_def)
qed (use assms in \<open>simp_all add: onEvent_gated ancestry_gated resume_gated timer_gated begin_discovery_gated
    list_settled_gated control_stopped_gated dispose_begins_gated dispose_flushes_gated\<close>)

lemma gate_new: "gate_inv su new_hooks"
  by (simp add: gate_inv_def new_hooks_def live_known_def calls_ok_def newRegistry_def spec_init_def)

lemma gate_after: "gate_inv su (hooks_after su ts)"
proof -
  have "gate_inv su h \<Longrightarrow> gate_inv su (fold (hk_step su) ts h)" for h
    by (induction ts arbitrary: h) (use step_gated in \<open>auto simp: gated_def\<close>)
  then show ?thesis by (simp add: hooks_after_def gate_new)
qed

text \<open>The effects of one turn.\<close>

definition turn_effects :: "hook_setup \<Rightarrow> moment \<times> turn \<Rightarrow> hooks \<Rightarrow> hook_effect list" where
  "turn_effects su x h = drop (length (hk_out h)) (hk_out (hk_step su x h))"

text \<open>
  C7: Only main sessions are notified: over any history of host events, lookups, timers, discoveries and
  disposals, every event a turn hands to the pump is valid against the contract and of a session that
  the registry knows at that time as a main session. Child, internal, archived and deleted sessions and
  sessions of unknown ancestry never are, also when the verdict changes while a call waits for it.
\<close>

theorem only_main_sessions_notified:
  "{e. Handed e \<in> set (turn_effects su x (hooks_after su ts))} \<subseteq>
   {e. known_main (hk_registry (hk_step su x (hooks_after su ts))) (session_id (Contracts.event_session e)) = Some True \<and>
       validateNotifyEvent (su_formats su) e}"
  using step_gated [OF gate_after, of su ts x] by (auto simp: gated_def extends_def valid_of_def turn_effects_def)

text \<open>
  After a disposal has flushed the pending completions the pipeline is silent: no turn hands an event
  to the pump, queries the host's sessions or starts the control channel again; all that is left are the
  log lines of calls that were waiting and of a stop that was under way, and repeated disposals.
\<close>

theorem disposed_pipeline_is_silent:
  assumes "hk_disposed (hooks_after su ts)" "hk_flushes (hooks_after su ts) = 0"
  shows "set (turn_effects su x (hooks_after su ts)) \<subseteq> {EmptyDirectory, DisposeStopsControl} \<union> range AncestryUnknown"
proof -
  define h where "h = hooks_after su ts"
  have d: "hk_disposed h" "hk_flushes h = 0" using assms by (simp_all add: h_def)
  have "sessions (hk_machine h) = []" "links (su_machine su) (hk_machine h)"
    using gate_after [of su ts] d by (simp_all add: gate_inv_def h_def machine_inv_def)
  then have timers: "timers (hk_machine h) t = None" for t
    by (metis links_timer map_get_simps(1) option.distinct(1) option.exhaust)
  have "set (turn_effects su x h) \<subseteq> {EmptyDirectory, DisposeStopsControl} \<union> range AncestryUnknown"
  proof (cases "(su, x, h)" rule: hk_step.cases)
    case (1 su' mo raw h')
    with d show ?thesis by (simp add: turn_effects_def onEvent_def)
  next
    case (2 su' mo sid response h')
    with d show ?thesis by (simp add: turn_effects_def ancestry_settled_def split: prod.split)
  next
    case (3 su' mo i h')
    with d show ?thesis by (auto simp: turn_effects_def resume_call_def hk_emit_def Let_def split: option.splits bool.splits)
  next
    case (4 su' mo t h')
    with timers show ?thesis by (simp add: turn_effects_def perform_def fire_def)
  next
    case (5 su' mo h')
    with d show ?thesis by (simp add: turn_effects_def begin_discovery_def Let_def)
  next
    case (6 su' mo i answer h')
    with d show ?thesis by (auto simp: turn_effects_def list_settled_def Let_def split: option.split discovery.split)
  next
    case (7 su' mo i h')
    with d show ?thesis
      by (auto simp: turn_effects_def control_stopped_def stop_settled_def startControl_def hk_emit_def Let_def
        split: option.splits discovery.splits)
  next
    case (8 su' mo h')
    then show ?thesis by (auto simp: turn_effects_def dispose_begins_def hk_emit_def Let_def)
  next
    case (9 su' mo h')
    with d show ?thesis by (simp add: turn_effects_def dispose_flushes_def)
  next
    case (10 su' mo h')
    then show ?thesis by (simp add: turn_effects_def dispose_ends_def)
  qed
  then show ?thesis by (simp add: h_def)
qed

text \<open>An input and a moment for the examples.\<close>

definition sample_setup :: hook_setup where
  "sample_setup =
     \<lparr>su_machine = \<lparr>idleDebounceMs = 15000, heartbeatMs = 60000, observesHeartbeat = True\<rparr>,
      su_factory = \<lparr>factory_source = \<lparr>machine = js ''m'', project = js ''p'', directory = js ''/p''\<rparr>, includeSummary = False\<rparr>,
      su_directory = js ''/p'', su_remote = True, su_control = True,
      su_formats = \<lparr>is_uuid = \<lambda>_. True, is_date_time = \<lambda>_. True, is_uri = \<lambda>_. True\<rparr>, su_url_ok = \<lambda>_. True, su_sha = id\<rparr>"

definition sample_moment :: moment where
  "sample_moment = \<lparr>mo_now = 1000, mo_seams = \<lambda>_. \<lparr>seam_uuid = js ''u'', seam_now = 1000\<rparr>, mo_pump = True, mo_start = True\<rparr>"

lemma disposed_pipeline_is_silent_witness:
  "let h = hooks_after sample_setup
             [(sample_moment, DiscoveryDue), (sample_moment, DisposeCalled), (sample_moment, DisposeFlushes)]
   in hk_out h = [ControlStarts, DisposeStopsControl, PumpStops] \<and>
      set (turn_effects sample_setup (sample_moment, DiscoveryDue) h) \<subseteq> {EmptyDirectory, DisposeStopsControl} \<union> range AncestryUnknown"
proof -
  let ?ts = "[(sample_moment, DiscoveryDue), (sample_moment, DisposeCalled), (sample_moment, DisposeFlushes)]"
  have h: "hk_disposed (hooks_after sample_setup ?ts)" "hk_flushes (hooks_after sample_setup ?ts) = 0"
    "hk_out (hooks_after sample_setup ?ts) = [ControlStarts, DisposeStopsControl, PumpStops]"
    by (simp_all add: hooks_after_def new_hooks_def begin_discovery_def startControl_def hk_emit_def dispose_begins_def
      dispose_flushes_def perform_def flushPendingCompletions_def disposeAll_def newMachine_def sample_setup_def sample_moment_def)
  from disposed_pipeline_is_silent [OF h(1,2), of "(sample_moment, DiscoveryDue)"] h(3) show ?thesis by (simp add: Let_def)
qed

end
