(* ===== verification/PipelineControl.thy ===== *)
theory PipelineControl
  imports PipelineProps
begin

section \<open>When the control channel runs\<close>

text \<open>
  The book-keeping of \<open>startControl\<close>, \<open>stopEmptyControl\<close> and the discoveries of \<open>index.ts\<close>: the flags
  \<open>controlStarted\<close>, \<open>controlWanted\<close> and \<open>controlStopping\<close> against the calls that were made.
\<close>

definition control_effect :: "hook_effect \<Rightarrow> bool" where
  "control_effect e \<longleftrightarrow> e = ControlStarts \<or> e = ControlStops \<or> e = ControlStartFails \<or> e = DisposeStopsControl"

definition control_calls :: "hook_effect list \<Rightarrow> hook_effect list" where
  "control_calls es = filter control_effect es"

definition ctl :: "hooks \<Rightarrow> bool \<times> bool \<times> bool \<times> bool \<times> (nat, discovery) jsmap \<times> nat \<times> hook_effect list" where
  "ctl h = (hk_started h, hk_wanted h, hk_stopping h, hk_disposed h, hk_discoveries h, hk_next h, control_calls (hk_out h))"

text \<open>
  What the calls of the channel's \<open>start\<close> and \<open>stop\<close> in a history come to. A start while it runs, a stop of an
  empty directory while it does not, and either of them after \<open>dispose\<close> has called \<open>stop\<close> are out of order;
  \<open>dispose\<close> calls it whether the channel runs or not, once per call.
\<close>

datatype channel_phase = ChannelOff | ChannelOn | ChannelDisposed | OutOfOrder

fun channel_call :: "hook_effect \<Rightarrow> channel_phase \<Rightarrow> channel_phase" where
  "channel_call ControlStarts ph = (if ph = ChannelOff then ChannelOn else OutOfOrder)"
| "channel_call ControlStops ph = (if ph = ChannelOn then ChannelOff else OutOfOrder)"
| "channel_call DisposeStopsControl ph = (if ph = OutOfOrder then OutOfOrder else ChannelDisposed)"
| "channel_call _ ph = ph"

definition channel_after :: "hook_effect list \<Rightarrow> channel_phase" where
  "channel_after es = fold channel_call es ChannelOff"

definition channel_phase :: "bool \<Rightarrow> bool \<Rightarrow> channel_phase" where
  "channel_phase disposed started = (if disposed then ChannelDisposed else if started then ChannelOn else ChannelOff)"

text \<open>The control channel is stopping exactly while one discovery waits for it.\<close>

definition stops_ok :: "bool \<Rightarrow> (nat, discovery) jsmap \<Rightarrow> nat \<Rightarrow> bool" where
  "stops_ok stopping ds n \<longleftrightarrow>
     (stopping \<longleftrightarrow> (\<exists>d. map_get ds d = Some Stopping)) \<and>
     (\<forall>d d'. map_get ds d = Some Stopping \<longrightarrow> map_get ds d' = Some Stopping \<longrightarrow> d = d') \<and>
     (\<forall>d s. map_get ds d = Some s \<longrightarrow> d < n)"

definition control_inv :: "hook_setup \<Rightarrow> hooks \<Rightarrow> bool" where
  "control_inv su h \<longleftrightarrow>
     channel_after (control_calls (hk_out h)) = channel_phase (hk_disposed h \<and> su_control su) (hk_started h) \<and>
     \<not> (hk_started h \<and> hk_stopping h) \<and> (hk_started h \<longrightarrow> su_control su) \<and>
     (hk_wanted h \<and> \<not> hk_disposed h \<and> su_control su \<longrightarrow>
        hk_started h \<or> hk_stopping h \<or> ControlStartFails \<in> set (control_calls (hk_out h))) \<and>
     stops_ok (hk_stopping h) (hk_discoveries h) (hk_next h)"

lemma channel_after_simps [simp]:
  "channel_after [] = ChannelOff" "channel_after (es @ [e]) = channel_call e (channel_after es)"
  by (simp_all add: channel_after_def)

lemma channel_phase_simps [simp]:
  "channel_phase True b = ChannelDisposed" "channel_phase False True = ChannelOn" "channel_phase False False = ChannelOff"
  "channel_phase d b \<noteq> OutOfOrder"
  by (simp_all add: channel_phase_def)

text \<open>The calls alone decide the phase.\<close>

lemma channel_after_calls: "channel_after (control_calls es) = channel_after es"
proof -
  have "fold channel_call (control_calls es) ph = fold channel_call es ph" for ph
  proof (induction es arbitrary: ph)
    case (Cons e es)
    then show ?case by (cases e) (simp_all add: control_calls_def control_effect_def)
  qed (simp add: control_calls_def)
  then show ?thesis by (simp add: channel_after_def)
qed

lemma stops_ok_delete: "stops_ok sp ds n \<Longrightarrow> map_get ds d \<noteq> Some Stopping \<Longrightarrow> stops_ok sp (map_delete d ds) n"
  by (auto simp: stops_ok_def)

lemma stops_ok_listing:
  assumes "stops_ok sp ds n" "map_get ds d \<noteq> Some Stopping" "d < n'" "n \<le> n'"
  shows "stops_ok sp (map_set d (Listing r l) ds) n'"
proof -
  have "d' < n'" if "map_get (map_set d (Listing r l) ds) d' = Some x" for d' x
  proof (cases "d' = d")
    case False
    with that assms(1) have "d' < n" by (simp add: stops_ok_def)
    with assms(4) show ?thesis by simp
  qed (use assms(3) in simp)
  moreover have "map_get (map_set d (Listing r l) ds) d' = Some Stopping \<longleftrightarrow> map_get ds d' = Some Stopping" for d'
    using assms(2) by simp
  ultimately show ?thesis using assms(1) unfolding stops_ok_def by metis
qed

lemma stops_ok_begin:
  assumes "stops_ok False ds n" "d < n"
  shows "stops_ok True (map_set d Stopping ds) n"
proof -
  have "map_get (map_set d Stopping ds) d' = Some Stopping \<longleftrightarrow> d' = d" for d' using assms(1) by (simp add: stops_ok_def)
  moreover have "d' < n" if "map_get (map_set d Stopping ds) d' = Some x" for d' x
    using that assms by (cases "d' = d") (simp_all add: stops_ok_def)
  ultimately show ?thesis unfolding stops_ok_def by metis
qed

lemma stops_ok_end:
  assumes "stops_ok sp ds n" "map_get ds d = Some Stopping"
  shows "sp \<and> stops_ok False (map_delete d ds) n"
proof -
  have sub: "map_get (map_delete d ds) d' = Some x \<Longrightarrow> map_get ds d' = Some x \<and> d' \<noteq> d" for d' x
    by (simp split: if_splits)
  have none: "map_get (map_delete d ds) d' \<noteq> Some Stopping" for d'
    using sub [of d' Stopping] assms unfolding stops_ok_def by metis
  have "d' < n" if "map_get (map_delete d ds) d' = Some x" for d' x
    using sub [OF that] assms(1) unfolding stops_ok_def by metis
  moreover have sp using assms by (auto simp: stops_ok_def)
  ultimately show ?thesis using none unfolding stops_ok_def by metis
qed

lemma ctl_inv: "ctl h' = ctl h \<Longrightarrow> control_inv su h' = control_inv su h"
  by (simp add: ctl_def control_inv_def)

lemma control_calls_snoc [simp]:
  "control_calls (es @ [e]) = control_calls es @ (if control_effect e then [e] else [])" "control_calls [] = []"
  by (simp_all add: control_calls_def)

lemma control_effects [simp]:
  "control_effect ControlStarts" "control_effect ControlStops" "control_effect ControlStartFails"
  "\<not> control_effect (Handed e)" "\<not> control_effect (QueueFailed e)" "\<not> control_effect (Unbuildable err)"
  "\<not> control_effect (AncestryUnknown s)" "\<not> control_effect SessionMissing" "\<not> control_effect (ListsSessions d n)"
  "\<not> control_effect EmptyDirectory" "\<not> control_effect DiscoveryFails" "control_effect DisposeStopsControl"
  "\<not> control_effect PumpStops"
  by (simp_all add: control_effect_def)

subsection \<open>What leaves the control channel alone\<close>

lemma ctl_callback [simp]: "ctl (machine_callback su mo i eff h) = ctl h"
  by (simp add: machine_callback_def emit_built_def enqueueSafe_def hk_emit_def ctl_def Let_def split: sum.split)

lemma ctl_callbacks [simp]: "ctl (callbacks su mo i effs h) = ctl h"
  by (induction effs arbitrary: i h) simp_all

lemma ctl_perform [simp]: "ctl (perform su mo op h) = ctl h"
proof -
  have "ctl (h\<lparr>hk_machine := m\<rparr>) = ctl h" for m by (simp add: ctl_def)
  then show ?thesis by (simp add: perform_def split: prod.split)
qed

lemma ctl_updates [simp]:
  "ctl (h\<lparr>hk_cache := c\<rparr>) = ctl h" "ctl (h\<lparr>hk_registry := r\<rparr>) = ctl h" "ctl (h\<lparr>hk_calls := cs\<rparr>) = ctl h"
  "ctl (h\<lparr>hk_revision := n\<rparr>) = ctl h" "ctl (h\<lparr>hk_scheduled := b\<rparr>) = ctl h" "ctl (h\<lparr>hk_flushes := n\<rparr>) = ctl h"
  "ctl (h\<lparr>hk_clears := n\<rparr>) = ctl h"
  by (simp_all add: ctl_def)

lemma ctl_emit [simp]: "\<not> control_effect e \<Longrightarrow> ctl (hk_emit e h) = ctl h"
  by (simp add: ctl_def hk_emit_def)

lemma ctl_dispatch [simp]: "ctl (dispatch su mo n h) = ctl h"
  by (cases "(su, mo, n, h)" rule: dispatch.cases) (auto simp: message_outcome_def Let_def split: option.split)

subsection \<open>What runs it\<close>

lemma inv_start_control: "control_inv su h \<Longrightarrow> control_inv su (startControl su mo h)"
  by (auto simp: control_inv_def startControl_def hk_emit_def Let_def)

lemma inv_stop_settled:
  assumes "control_inv su h" "map_get (hk_discoveries h) d = Some Stopping"
  shows "control_inv su (stop_settled su mo (h\<lparr>hk_discoveries := map_delete d (hk_discoveries h)\<rparr>))"
proof -
  have st: "stops_ok (hk_stopping h) (hk_discoveries h) (hk_next h)" using assms(1) by (simp add: control_inv_def)
  note ends = stops_ok_end [OF st assms(2)]
  from assms(1) ends show ?thesis
    by (auto simp: control_inv_def stop_settled_def startControl_def hk_emit_def Let_def)
qed

text \<open>A discovery that finds the directory empty waits for the control channel, or ends.\<close>

lemma inv_stop_empty:
  assumes "control_inv su h" "stop_empty su h = (h', w)" "d < hk_next h" "map_get (hk_discoveries h) d = None" "\<not> hk_disposed h"
  shows "control_inv su (if w then h'\<lparr>hk_discoveries := map_set d Stopping (hk_discoveries h')\<rparr> else hk_emit EmptyDirectory h')"
proof (cases "hk_started h \<and> su_control su")
  case False
  with assms show ?thesis by (auto simp: stop_empty_def Let_def control_inv_def hk_emit_def)
next
  case True
  then have sp: "\<not> hk_stopping h" using assms(1) by (simp add: control_inv_def)
  then have "stops_ok False (hk_discoveries h) (hk_next h)" using assms(1) by (simp add: control_inv_def)
  from stops_ok_begin [OF this assms(3)] True sp assms(1,2,5) show ?thesis
    by (auto simp: stop_empty_def Let_def control_inv_def hk_emit_def)
qed

lemma inv_discovery_set:
  assumes "control_inv su h" "map_get (hk_discoveries h) d \<noteq> Some Stopping" "d < n" "hk_next h \<le> n"
  shows "control_inv su (h\<lparr>hk_discoveries := map_set d (Listing r l) (hk_discoveries h), hk_next := n\<rparr>)"
  using assms(1) stops_ok_listing [OF _ assms(2-4)] by (simp add: control_inv_def)

lemma inv_discovery_delete:
  assumes "control_inv su h" "map_get (hk_discoveries h) d \<noteq> Some Stopping"
  shows "control_inv su (h\<lparr>hk_discoveries := map_delete d (hk_discoveries h)\<rparr>)"
  using assms(1) stops_ok_delete [OF _ assms(2)] by (simp add: control_inv_def)

lemma inv_begin_discovery:
  assumes "control_inv su h"
  shows "control_inv su (begin_discovery su mo h)"
proof -
  define h2 where "h2 = h\<lparr>hk_scheduled := False, hk_revision := Suc (hk_revision h)\<rparr>"
  have h2: "control_inv su h2" using assms ctl_inv [of h2 h] by (simp add: h2_def)
  have "map_get (hk_discoveries h2) (hk_next h2) \<noteq> Some Stopping" using h2 by (auto simp: control_inv_def stops_ok_def)
  note listing = inv_discovery_set [OF h2 this, of "Suc (hk_next h2)" "hk_revision h2" 1]
  have "control_inv su (hk_emit (ListsSessions (hk_next h2) 1)
      (h2\<lparr>hk_discoveries := map_set (hk_next h2) (Listing (hk_revision h2) 1) (hk_discoveries h2), hk_next := Suc (hk_next h2)\<rparr>))"
    using listing by (simp add: ctl_inv [OF ctl_emit [OF control_effects(9)]])
  moreover have "control_inv su (h\<lparr>hk_scheduled := False\<rparr>)" using assms by (simp add: ctl_inv [OF ctl_updates(5)])
  ultimately show ?thesis using assms inv_start_control [OF h2] by (simp add: begin_discovery_def Let_def h2_def)
qed

lemma inv_discovery_fails: "control_inv su h \<Longrightarrow> control_inv su (discovery_fails su mo h)"
  unfolding discovery_fails_def by (rule inv_start_control) (simp add: ctl_inv [OF ctl_emit [OF control_effects(11)]])

lemma inv_list_settled:
  assumes "control_inv su h"
  shows "control_inv su (list_settled su mo d answer h)"
proof (cases "\<exists>revision limit. map_get (hk_discoveries h) d = Some (Listing revision limit)")
  case False
  then show ?thesis using assms by (auto simp: list_settled_def split: option.splits discovery.splits)
next
  case True
  then obtain revision limit where d: "map_get (hk_discoveries h) d = Some (Listing revision limit)" by blast
  define h1 where "h1 = h\<lparr>hk_discoveries := map_delete d (hk_discoveries h)\<rparr>"
  have h1: "control_inv su h1" unfolding h1_def using assms d by (intro inv_discovery_delete) simp_all
  have dn: "d < hk_next h1" using assms d by (simp add: h1_def control_inv_def stops_ok_def)
  have h2: "control_inv su (h1\<lparr>hk_registry := r\<rparr>)" for r using h1 by (simp add: ctl_inv [OF ctl_updates(2)])
  have again: "control_inv su (hk_emit (ListsSessions d n)
      (h1\<lparr>hk_registry := r, hk_discoveries := map_set d (Listing revision n) (hk_discoveries h1)\<rparr>))" for r n
  proof -
    have "map_get (hk_discoveries (h1\<lparr>hk_registry := r\<rparr>)) d \<noteq> Some Stopping" by (simp add: h1_def)
    from inv_discovery_set [OF h2 this, of "hk_next h1" revision n] dn show ?thesis
      using ctl_inv [OF ctl_emit [OF control_effects(9)]] by simp
  qed
  have settled: "control_inv su (case stop_empty su (h1\<lparr>hk_registry := r\<rparr>) of
      (h3, True) \<Rightarrow> h3\<lparr>hk_discoveries := map_set d Stopping (hk_discoveries h3)\<rparr> | (h3, False) \<Rightarrow> hk_emit EmptyDirectory h3)"
    if "\<not> hk_disposed h1" for r
  proof -
    obtain h3 w where e: "stop_empty su (h1\<lparr>hk_registry := r\<rparr>) = (h3, w)" by force
    have "map_get (hk_discoveries h1) d = None" by (simp add: h1_def)
    with inv_stop_empty [OF h2 e, of d] dn that show ?thesis by (cases w) (simp_all add: e)
  qed
  show ?thesis
  proof (cases "hk_disposed h1 \<or> revision \<noteq> hk_revision h1")
    case True
    then show ?thesis using d h1 by (simp add: list_settled_def h1_def Let_def)
  next
    case live: False
    show ?thesis
    proof (cases answer)
      case None
      then show ?thesis using d live inv_discovery_fails [OF h1] by (simp add: list_settled_def h1_def Let_def)
    next
      case (Some found)
      define h4 where "h4 = h1\<lparr>hk_registry := fold record_session (map the found) (hk_registry h1)\<rparr>"
      have "list_settled su mo d answer h =
        (if list_ex (\<lambda>s. case s of None \<Rightarrow> True | Some x \<Rightarrow> hs_directory x \<noteq> su_directory su) found then discovery_fails su mo h1
         else if list_ex lists_main (map the found) then startControl su mo h4
         else if length (map the found) < limit then (case stop_empty su h4 of
            (h3, True) \<Rightarrow> h3\<lparr>hk_discoveries := map_set d Stopping (hk_discoveries h3)\<rparr> | (h3, False) \<Rightarrow> hk_emit EmptyDirectory h3)
         else if limit < 200 then hk_emit (ListsSessions d (if limit = 1 then 50 else 200))
            (h4\<lparr>hk_discoveries := map_set d (Listing revision (if limit = 1 then 50 else 200)) (hk_discoveries h4)\<rparr>)
         else discovery_fails su mo h4)"
        using d live Some unfolding list_settled_def by (simp add: h1_def h4_def Let_def)
      then show ?thesis
        using inv_discovery_fails [OF h1] inv_discovery_fails [OF h2] inv_start_control [OF h2] again settled live by (simp add: h4_def)
    qed
  qed
qed

lemma inv_control_stopped:
  assumes "control_inv su h"
  shows "control_inv su (control_stopped su mo d h)"
proof (cases "map_get (hk_discoveries h) d = Some Stopping")
  case True
  from inv_stop_settled [OF assms True, of mo] True show ?thesis
    using ctl_inv [OF ctl_emit [OF control_effects(10)]] by (simp add: control_stopped_def)
next
  case False
  with assms show ?thesis by (auto simp: control_stopped_def split: option.split discovery.split)
qed

lemmas same_ctl = ctl_updates [THEN ctl_inv] ctl_perform [THEN ctl_inv] ctl_dispatch [THEN ctl_inv]
  ctl_emit [THEN ctl_inv]

lemma inv_handle_session_info: "control_inv su h \<Longrightarrow> control_inv su (handle_session_info su mo f deleted h)"
  by (simp add: handle_session_info_def Let_def same_ctl inv_start_control)

lemma inv_next: "control_inv su h \<Longrightarrow> control_inv su (h\<lparr>hk_next := Suc (hk_next h)\<rparr>)"
  by (auto simp: control_inv_def stops_ok_def less_Suc_eq)

lemma ctl_await: "ctl (await_ancestry sid n h) = ctl (h\<lparr>hk_next := Suc (hk_next h)\<rparr>)"
  by (simp add: await_ancestry_def ctl_def split: prod.split)

lemma inv_onEvent:
  assumes "control_inv su h"
  shows "control_inv su (onEvent su mo raw h)"
proof (cases "hk_disposed h \<or> normalizeEvent raw = None")
  case True
  with assms show ?thesis by (auto simp: onEvent_def)
next
  case False
  then obtain n where n: "normalizeEvent raw = Some n" "\<not> hk_disposed h" by auto
  have awaits: "control_inv su (await_ancestry sid n h)" for sid n
    using inv_next [OF assms] by (simp add: ctl_inv [OF ctl_await])
  show ?thesis
    by (cases n) (use n assms awaits in \<open>simp_all add: onEvent_def inv_handle_session_info same_ctl split: option.split\<close>)
qed

lemma inv_resume: "control_inv su h \<Longrightarrow> control_inv su (resume_call su mo i h)"
  by (simp add: resume_call_def Let_def same_ctl inv_start_control split: option.split bool.split)

lemma ctl_disposal:
  "ctl (dispose_flushes su mo h) = ctl h" "ctl (dispose_ends h) = ctl h" "ctl (ancestry_settled sid response h) = ctl h"
  by (simp_all add: dispose_flushes_def dispose_ends_def ancestry_settled_def Let_def split: prod.split)

lemma inv_dispose_begins: "control_inv su h \<Longrightarrow> control_inv su (dispose_begins su h)"
  by (auto simp: dispose_begins_def control_inv_def hk_emit_def Let_def)

lemma control_inv_step:
  assumes "control_inv su h"
  shows "control_inv su (hk_step su x h)"
  using assms
  by (cases "(su, x, h)" rule: hk_step.cases)
    (simp_all add: inv_onEvent inv_resume ctl_inv [OF ctl_disposal(1)] ctl_inv [OF ctl_disposal(2)]
      ctl_inv [OF ctl_disposal(3)] ctl_inv [OF ctl_perform] inv_begin_discovery inv_list_settled inv_control_stopped
      inv_dispose_begins)

lemma control_inv_after: "control_inv su (hooks_after su ts)"
proof -
  have "control_inv su h \<Longrightarrow> control_inv su (fold (hk_step su) ts h)" for h
    by (induction ts arbitrary: h) (simp_all add: control_inv_step)
  moreover have "control_inv su new_hooks" by (simp add: control_inv_def new_hooks_def stops_ok_def)
  ultimately show ?thesis by (simp add: hooks_after_def)
qed

text \<open>
  C9: Over any history the pipeline starts the control channel only while it does not run, and stops it for
  an empty directory only while it does; it does neither once \<open>dispose\<close> has called the channel's \<open>stop\<close>, which
  alone is called whatever the channel does. The channel never counts as running while its stop is under
  way. While it is wanted and the pipeline is not disposed, and as long as no start has thrown, it runs, or
  one stop is under way after which it is started again: no order of discoveries, session events and slow
  stops leaves a directory with a main session without its remote entry.
\<close>

theorem wanted_control_runs:
  "let h = hooks_after su ts in
     channel_after (hk_out h) = channel_phase (hk_disposed h \<and> su_control su) (hk_started h) \<and>
     \<not> (hk_started h \<and> hk_stopping h) \<and>
     (hk_wanted h \<and> su_control su \<and> \<not> hk_disposed h \<and> ControlStartFails \<notin> set (hk_out h) \<longrightarrow>
        hk_started h \<or>
        (\<exists>d. map_get (hk_discoveries h) d = Some Stopping \<and>
           (\<forall>mo. mo_start mo \<longrightarrow> hk_started (hk_step su (mo, ControlStopped d) h))))"
proof -
  define h where "h = hooks_after su ts"
  have inv: "control_inv su h" unfolding h_def by (rule control_inv_after)
  have "hk_started h \<or> (\<exists>d. map_get (hk_discoveries h) d = Some Stopping \<and>
      (\<forall>mo. mo_start mo \<longrightarrow> hk_started (hk_step su (mo, ControlStopped d) h)))"
    if w: "hk_wanted h" "su_control su" "\<not> hk_disposed h" "ControlStartFails \<notin> set (hk_out h)"
  proof (cases "hk_started h")
    case False
    have "ControlStartFails \<notin> set (control_calls (hk_out h))" using w(4) by (simp add: control_calls_def)
    with inv w(1-3) False have "hk_stopping h" by (auto simp: control_inv_def)
    with inv obtain d where d: "map_get (hk_discoveries h) d = Some Stopping" by (auto simp: control_inv_def stops_ok_def)
    then have "hk_started (hk_step su (mo, ControlStopped d) h)" if "mo_start mo" for mo
      using that w(1-3) False by (simp add: control_stopped_def stop_settled_def startControl_def hk_emit_def Let_def)
    with d show ?thesis by blast
  qed simp
  then show ?thesis
    using inv unfolding h_def [symmetric] Let_def control_inv_def channel_after_calls by blast
qed

lemma wanted_control_runs_witness:
  "hk_out (hooks_after sample_setup [(sample_moment, DiscoveryDue)]) = [ControlStarts] \<and>
   hk_started (hooks_after sample_setup [(sample_moment, DiscoveryDue)])"
proof -
  let ?h = "hooks_after sample_setup [(sample_moment, DiscoveryDue)]"
  have h: "hk_wanted ?h" "\<not> hk_disposed ?h" "hk_out ?h = [ControlStarts]" "hk_discoveries ?h = []" "su_control sample_setup"
    by (simp_all add: hooks_after_def new_hooks_def begin_discovery_def startControl_def hk_emit_def
      sample_setup_def sample_moment_def)
  from wanted_control_runs [of sample_setup "[(sample_moment, DiscoveryDue)]"] h show ?thesis by (simp add: Let_def)
qed

subsection \<open>A run\<close>

text \<open>A question of a main session starts the control channel and reaches the pump; a child's does not.\<close>

definition sample_upsert :: "(string \<times> json) list \<Rightarrow> json" where
  "sample_upsert parent =
     obj [(''type'', str ''session.created''),
          (''properties'', obj [(''info'', obj ([(''id'', str ''s1''), (''title'', str ''t'')] @ parent))])]"

definition sample_question :: json where
  "sample_question =
     obj [(''type'', str ''question.asked''),
          (''properties'', obj [(''sessionID'', str ''s1''), (''id'', str ''r1''),
             (''questions'', JArray [obj [(''question'', str ''Q'')]])])]"

definition sample_run :: "(string \<times> json) list \<Rightarrow> (moment \<times> turn) list" where
  "sample_run parent =
     [(sample_moment, HostEvent (sample_upsert parent)), (sample_moment, HostEvent sample_question), (sample_moment, Resumes 0)]"

lemma absent_fields: "asNonEmptyString None = None" "asString None = None" "asRecord None = None"
  by (simp_all add: asNonEmptyString_def asString_def asRecord_def)

lemma sample_events:
  "normalizeEvent (sample_upsert []) =
     Some (SessionUpsert \<lparr>sf_sessionID = js ''s1'', sf_parentID = None, sf_title = js ''t'', sf_directory = None, sf_archived = False\<rparr>)"
  "normalizeEvent (sample_upsert [(''parentID'', str ''s0'')]) =
     Some (SessionUpsert \<lparr>sf_sessionID = js ''s1'', sf_parentID = Some (js ''s0''), sf_title = js ''t'', sf_directory = None, sf_archived = False\<rparr>)"
  "normalizeEvent sample_question =
     Some (QuestionAsked (js ''s1'') (js ''r1'') [\<lparr>nq_question = js ''Q'', nq_options = [], nq_multiple = None\<rparr>])"
  by (simp_all add: sample_upsert_def sample_question_def normalizeEvent_def normalizeSessionUpsert_def readSessionInfo_def
    normalizeQuestionAsked_def normalizeQuestion_def List.map_filter_def absent_fields)

lemma child_question_is_dropped: "hk_out (hooks_after sample_setup (sample_run [(''parentID'', str ''s0'')])) = []"
  by (simp add: hooks_after_def sample_run_def onEvent_def sample_events handle_session_info_def reg_update_def
    reg_excluded_def new_hooks_def newRegistry_def empty_entry_def isInternalSession_def perform_def disposeSession_def newMachine_def
    await_ancestry_def isMain_def known_main_def resume_call_def Let_def)

lemma not_internal: "\<not> isInternalSession (Some (js ''t''))"
  by (simp add: isInternalSession_def js_def)

lemma main_question_performed:
  "hooks_after sample_setup (sample_run []) =
   perform sample_setup sample_moment (AskQuestion (js ''s1'') (js ''r1'') [\<lparr>nq_question = js ''Q'', nq_options = [], nq_multiple = None\<rparr>])
     (new_hooks\<lparr>hk_registry := \<lparr>reg_entries = [(js ''s1'', \<lparr>entry_parent = Some None, entry_title = Some (js ''t''), entry_excluded = Some False\<rparr>)],
                reg_inflight = []\<rparr>,
        hk_next := 1, hk_started := True, hk_wanted := True, hk_revision := Suc (Suc 0), hk_out := [ControlStarts]\<rparr>)"
  by (simp add: hooks_after_def sample_run_def onEvent_def sample_events handle_session_info_def reg_update_def
    reg_excluded_def new_hooks_def newRegistry_def empty_entry_def not_internal
    await_ancestry_def isMain_def known_main_def resume_call_def Let_def startControl_def sample_setup_def sample_moment_def hk_emit_def)

lemma main_question_is_handed:
  "\<exists>e. hk_out (hooks_after sample_setup (sample_run [])) = [ControlStarts, Handed e]"
proof -
  obtain t where "toISOString 1000 = Some t" using toISOString_total [of 1000] by auto
  then have "\<exists>e. envelope_of (su_formats sample_setup) (su_url_ok sample_setup) (su_factory sample_setup) (mo_seams sample_moment i) title summ
      (QuestionRequired (js ''s1'') (js ''r1'') [\<lparr>nq_question = js ''Q'', nq_options = [], nq_multiple = None\<rparr>]) = Inr e" for i title summ
    by (simp add: envelope_of_def questionRequired_def boundQuestion_def List.map_filter_def cap_defs truncateMarked_def
      build_def finalize_def schema_defs sessionSection_def sample_setup_def sample_moment_def maxLength_def)
  then obtain e where "envelope_of (su_formats sample_setup) (su_url_ok sample_setup) (su_factory sample_setup) (mo_seams sample_moment 0)
      (reg_title \<lparr>reg_entries = [(js ''s1'', \<lparr>entry_parent = Some None, entry_title = Some (js ''t''), entry_excluded = Some False\<rparr>)],
                reg_inflight = []\<rparr>) (summary default_cache)
      (QuestionRequired (js ''s1'') (js ''r1'') [\<lparr>nq_question = js ''Q'', nq_options = [], nq_multiple = None\<rparr>]) = Inr e" by blast
  then show ?thesis unfolding main_question_performed
    by (simp add: perform_def onQuestionAsked_def onAsked_def stateFor_def newMachine_def fresh_state_def machine_callback_def
      emit_built_def enqueueSafe_def hk_emit_def is_terminal_def new_hooks_def Let_def sample_moment_def modify_def)
qed

end
