(* ===== verification/SessionCatalog.thy ===== *)
theory SessionCatalog
  imports Pipeline
begin

section \<open>The catalog of a directory's sessions\<close>

text \<open>
  \<open>session-catalog.ts\<close> and the method \<open>catalog\<close> of \<open>v2-api.ts\<close>, with the schema of \<open>sessions.ts\<close> they
  validate against: one page of the host's list and the bookmarked sessions looked up one by one. The two
  generations of the host differ in the test of what is visible and in the source of a session's status.
\<close>

subsection \<open>Sessions and queries\<close>

record listed_session = host_session +
  ls_updated :: jsnum

record catalog_query =
  cq_limit :: "nat option"
  cq_sessionIds :: "jstr option"

record catalog_entry =
  ce_sessionId :: jstr
  ce_title :: jstr
  ce_directory :: jstr
  ce_updatedAt :: jstr
  ce_status :: jstr

record session_catalog =
  sc_hasMore :: bool
  sc_sessions :: "catalog_entry list"

text \<open>The answer of the host to a lookup of one session.\<close>

datatype lookup = Missing | LookupFails | Found listed_session

definition catalog_limit :: "catalog_query \<Rightarrow> nat" where
  "catalog_limit q = (case cq_limit q of None \<Rightarrow> 50 | Some n \<Rightarrow> n)"

text \<open>\<open>[...new Set(xs)]\<close>: the first occurrence of each.\<close>

definition js_unique :: "'a list \<Rightarrow> 'a list" where
  "js_unique xs = rev (remdups (rev xs))"

definition bookmarks :: "catalog_query \<Rightarrow> jstr list" where
  "bookmarks q =
     take 50 (js_unique (filter (\<lambda>s. s \<noteq> [])
       (case cq_sessionIds q of None \<Rightarrow> [] | Some t \<Rightarrow> split_on (js '','') t)))"

definition v1_visible :: "jstr \<Rightarrow> listed_session \<Rightarrow> bool" where
  "v1_visible dir s \<longleftrightarrow> hs_directory s = dir \<and> (hs_parentID s = None \<or> hs_parentID s = Some []) \<and> \<not> hs_archived s"

definition v2_visible :: "jstr \<Rightarrow> listed_session \<Rightarrow> bool" where
  "v2_visible dir s \<longleftrightarrow>
     hs_directory s = dir \<and> (hs_parentID s = None \<or> hs_parentID s = Some []) \<and> \<not> hs_archived s \<and>
     \<not> isInternalSession (Some (hs_title s))"

subsection \<open>Collecting\<close>

definition page_sessions :: "(listed_session \<Rightarrow> bool) \<Rightarrow> nat \<Rightarrow> listed_session list \<Rightarrow> (jstr, listed_session) jsmap" where
  "page_sessions visible limit found = fold (\<lambda>s m. map_set (hs_id s) s m) (filter visible (take limit found)) []"

fun add_bookmarks ::
    "(listed_session \<Rightarrow> bool) \<Rightarrow> (jstr \<Rightarrow> lookup) \<Rightarrow> jstr list \<Rightarrow> (jstr, listed_session) jsmap \<Rightarrow>
     (jstr, listed_session) jsmap option" where
  "add_bookmarks visible look [] m = Some m"
| "add_bookmarks visible look (sid # rest) m =
     (if map_has m sid then add_bookmarks visible look rest m
      else case look sid of
             Missing \<Rightarrow> add_bookmarks visible look rest m
           | LookupFails \<Rightarrow> None
           | Found s \<Rightarrow> add_bookmarks visible look rest (if visible s then map_set sid s m else m))"

text \<open>\<open>new Date(t).toISOString()\<close>, \<open>None\<close> when it throws.\<close>

type_synonym date_printer = "jsnum \<Rightarrow> jstr option"

definition catalog_entry_of :: "date_printer \<Rightarrow> (jstr \<Rightarrow> jstr) \<Rightarrow> listed_session \<Rightarrow> catalog_entry option" where
  "catalog_entry_of printed status_of s =
     map_option
       (\<lambda>t. \<lparr>ce_sessionId = hs_id s, ce_title = take 1000 (hs_title s), ce_directory = hs_directory s,
             ce_updatedAt = t, ce_status = status_of (hs_id s)\<rparr>)
       (printed (ls_updated s))"

fun entries_of :: "date_printer \<Rightarrow> (jstr \<Rightarrow> jstr) \<Rightarrow> listed_session list \<Rightarrow> catalog_entry list option" where
  "entries_of printed status_of [] = Some []"
| "entries_of printed status_of (s # rest) =
     (case (catalog_entry_of printed status_of s, entries_of printed status_of rest) of
        (Some e, Some es) \<Rightarrow> Some (e # es) | _ \<Rightarrow> None)"

definition catalogSessionSchema :: "formats \<Rightarrow> catalog_entry \<Rightarrow> bool" where
  "catalogSessionSchema fs e \<longleftrightarrow>
     minLength 1 (ce_sessionId e) \<and> maxLength 200 (ce_sessionId e) \<and> maxLength 1000 (ce_title e) \<and>
     minLength 1 (ce_directory e) \<and> maxLength 4096 (ce_directory e) \<and> is_date_time fs (ce_updatedAt e) \<and>
     ce_status e \<in> {js ''idle'', js ''busy'', js ''retry'', js ''unknown''}"

definition validateSessionCatalog :: "formats \<Rightarrow> session_catalog \<Rightarrow> bool" where
  "validateSessionCatalog fs c \<longleftrightarrow> length (sc_sessions c) \<le> 250 \<and> list_all (catalogSessionSchema fs) (sc_sessions c)"

text \<open>
  The catalog of a page (\<open>None\<close> when the host's answer is no list), or \<open>None\<close> when the method throws.
\<close>

definition catalog_with ::
    "formats \<Rightarrow> date_printer \<Rightarrow> (listed_session \<Rightarrow> bool) \<Rightarrow> (jstr \<Rightarrow> jstr) \<Rightarrow> (jstr \<Rightarrow> lookup) \<Rightarrow> catalog_query \<Rightarrow>
     listed_session list option \<Rightarrow> session_catalog option" where
  "catalog_with fs printed visible status_of look q page =
     (case page of
        None \<Rightarrow> None
      | Some found \<Rightarrow>
          (case add_bookmarks visible look (bookmarks q) (page_sessions visible (catalog_limit q) found) of
             None \<Rightarrow> None
           | Some m \<Rightarrow>
               (case entries_of printed status_of (map_vals m) of
                  None \<Rightarrow> None
                | Some es \<Rightarrow>
                    let c = \<lparr>sc_hasMore = catalog_limit q < length found, sc_sessions = es\<rparr>
                    in if validateSessionCatalog fs c then Some c else None)))"

text \<open>The statuses the host knows, \<open>None\<close> when the call has failed.\<close>

definition v1_status :: "(jstr \<Rightarrow> jstr option) option \<Rightarrow> jstr \<Rightarrow> jstr" where
  "v1_status statuses sid =
     (case statuses of None \<Rightarrow> js ''unknown''
      | Some f \<Rightarrow> (case f sid of None \<Rightarrow> js ''idle'' | Some st \<Rightarrow> st))"

definition v2_status :: "(jstr \<Rightarrow> bool) option \<Rightarrow> jstr \<Rightarrow> jstr" where
  "v2_status active sid =
     (case active of None \<Rightarrow> js ''unknown'' | Some f \<Rightarrow> if f sid then js ''busy'' else js ''idle'')"

definition v1_catalog ::
    "formats \<Rightarrow> date_printer \<Rightarrow> jstr \<Rightarrow> (jstr \<Rightarrow> jstr option) option \<Rightarrow> (jstr \<Rightarrow> lookup) \<Rightarrow> catalog_query \<Rightarrow>
     listed_session list option \<Rightarrow> session_catalog option" where
  "v1_catalog fs printed dir statuses look q page = catalog_with fs printed (v1_visible dir) (v1_status statuses) look q page"

definition v2_catalog ::
    "formats \<Rightarrow> date_printer \<Rightarrow> jstr \<Rightarrow> (jstr \<Rightarrow> bool) option \<Rightarrow> (jstr \<Rightarrow> lookup) \<Rightarrow> catalog_query \<Rightarrow>
     listed_session list option \<Rightarrow> session_catalog option" where
  "v2_catalog fs printed dir active look q page = catalog_with fs printed (v2_visible dir) (v2_status active) look q page"

subsection \<open>What a catalog shows\<close>

lemma js_unique_facts: "set (js_unique xs) = set xs" "distinct (js_unique xs)"
  by (simp_all add: js_unique_def)

lemma length_bookmarks: "length (bookmarks q) \<le> 50"
  by (simp add: bookmarks_def)

lemma map_get_fold_set:
  "map_get (fold (\<lambda>s m. map_set (f s) s m) xs m) k = Some s \<Longrightarrow> map_get m k = Some s \<or> s \<in> set xs \<and> f s = k"
  by (induction xs arbitrary: m) (fastforce split: if_splits)+

lemma keys_fold_set: "set (map_keys (fold (\<lambda>s m. map_set (f s) s m) xs m)) = set (map_keys m) \<union> f ` set xs"
  by (induction xs arbitrary: m) auto

lemma length_fold_set: "length (fold (\<lambda>s m. map_set (f s) s m) xs m) \<le> length m + length xs"
proof (induction xs arbitrary: m)
  case (Cons x xs)
  have "length (map_set (f x) x m) \<le> Suc (length m)" by (simp add: length_map_set)
  then show ?case using Cons.IH [of "map_set (f x) x m"] by simp
qed simp

lemma distinct_fold_set: "distinct_keys m \<Longrightarrow> distinct_keys (fold (\<lambda>s m. map_set (f s) s m) xs m)"
  by (induction xs arbitrary: m) auto

text \<open>What both collections keep: the key is the session's id, and every session is visible.\<close>

definition shown_ok :: "(listed_session \<Rightarrow> bool) \<Rightarrow> (jstr, listed_session) jsmap \<Rightarrow> bool" where
  "shown_ok visible m \<longleftrightarrow> distinct_keys m \<and> (\<forall>k s. map_get m k = Some s \<longrightarrow> hs_id s = k \<and> visible s)"

lemma page_shown: "shown_ok visible (page_sessions visible limit found)"
  by (auto simp: shown_ok_def page_sessions_def distinct_fold_set dest!: map_get_fold_set)

definition honest :: "(jstr \<Rightarrow> lookup) \<Rightarrow> bool" where
  "honest look \<longleftrightarrow> (\<forall>sid s. look sid = Found s \<longrightarrow> hs_id s = sid)"

lemma bookmarks_shown:
  "add_bookmarks visible look ids m = Some m' \<Longrightarrow> honest look \<Longrightarrow> shown_ok visible m \<Longrightarrow> shown_ok visible m'"
proof (induction visible look ids m rule: add_bookmarks.induct)
  case (2 visible look sid rest m)
  have "shown_ok visible (map_set sid s m)" if "look sid = Found s" "visible s" for s
    using 2(5,6) that by (auto simp: shown_ok_def honest_def)
  with 2 show ?case by (auto split: if_splits lookup.splits)
qed simp

lemma bookmarks_keys:
  "add_bookmarks visible look ids m = Some m' \<Longrightarrow>
   set (map_keys m') = set (map_keys m) \<union> {sid \<in> set ids. \<exists>s. look sid = Found s \<and> visible s \<and> sid \<notin> set (map_keys m)}"
proof (induction visible look ids m rule: add_bookmarks.induct)
  case (2 visible look sid rest m)
  then show ?case by (fastforce simp: map_has_keys split: if_splits lookup.splits)
qed simp

lemma bookmarks_length: "add_bookmarks visible look ids m = Some m' \<Longrightarrow> length m' \<le> length m + length ids"
proof (induction visible look ids m rule: add_bookmarks.induct)
  case (2 visible look sid rest m)
  then show ?case by (fastforce simp: length_map_set split: if_splits lookup.splits)
qed simp

lemma entries_of_map:
  "entries_of printed status_of ss = Some es \<Longrightarrow>
   map ce_sessionId es = map hs_id ss \<and> map ce_directory es = map hs_directory ss \<and> length es = length ss"
  by (induction printed status_of ss arbitrary: es rule: entries_of.induct) (auto simp: catalog_entry_of_def split: option.splits)

text \<open>
  A catalog of either generation of the host shows exactly the visible sessions of the first page and
  the visible ones among the first fifty distinct bookmarks: sessions of this directory that are no
  children and not archived, each once, at most fifty more than the page's limit. A catalog that is
  returned satisfies the schema, and it says whether the host has more than the page.
\<close>

theorem catalog_shows_visible:
  assumes "catalog_with fs printed visible status_of look q (Some found) = Some c" "honest look"
    and "visible \<in> {v1_visible dir, v2_visible dir}"
  shows "set (map ce_sessionId (sc_sessions c)) =
           hs_id ` {s \<in> set (take (catalog_limit q) found). visible s} \<union>
           {sid \<in> set (bookmarks q). \<exists>s. look sid = Found s \<and> visible s} \<and>
         distinct (map ce_sessionId (sc_sessions c)) \<and> set (map ce_directory (sc_sessions c)) \<subseteq> {dir} \<and>
         length (sc_sessions c) \<le> catalog_limit q + 50 \<and>
         sc_hasMore c = (catalog_limit q < length found) \<and> validateSessionCatalog fs c"
proof -
  define page where "page = page_sessions visible (catalog_limit q) found"
  obtain m es where m: "add_bookmarks visible look (bookmarks q) page = Some m"
    and es: "entries_of printed status_of (map_vals m) = Some es"
    and c: "c = \<lparr>sc_hasMore = catalog_limit q < length found, sc_sessions = es\<rparr>" "validateSessionCatalog fs c"
    using assms(1) by (auto simp: catalog_with_def page_def Let_def split: option.splits if_splits)
  have shown: "shown_ok visible m" using m assms(2) page_shown unfolding page_def by (rule bookmarks_shown)
  have vals: "(k, s) \<in> set m \<Longrightarrow> hs_id s = k \<and> visible s" for k s
    using shown by (simp add: shown_ok_def map_get_iff [symmetric])
  have ids: "map hs_id (map_vals m) = map_keys m" using vals by (auto simp: map_vals_def map_keys_def)
  have dirs: "hs_directory s = dir" if "visible s" for s using assms(3) that by (auto simp: v1_visible_def v2_visible_def)
  have keys: "set (map_keys page) = hs_id ` {s \<in> set (take (catalog_limit q) found). visible s}"
    by (auto simp: page_def page_sessions_def keys_fold_set)
  have "length page \<le> catalog_limit q"
    using length_fold_set [of hs_id "filter visible (take (catalog_limit q) found)" "[]"]
      length_filter_le [of visible "take (catalog_limit q) found"]
    by (simp add: page_def page_sessions_def)
  then have "length es \<le> catalog_limit q + 50"
    using bookmarks_length [OF m] length_bookmarks [of q] entries_of_map [OF es] by (simp add: map_vals_def)
  moreover have "set (map ce_sessionId es) = set (map_keys page) \<union> {sid \<in> set (bookmarks q). \<exists>s. look sid = Found s \<and> visible s}"
    using bookmarks_keys [OF m] entries_of_map [OF es] ids by auto
  moreover have "distinct (map ce_sessionId es)"
    using entries_of_map [OF es] ids shown by (simp add: shown_ok_def distinct_keys_def map_keys_def)
  moreover have "set (map ce_directory es) \<subseteq> {dir}"
    using entries_of_map [OF es] vals dirs by (auto simp: map_vals_def)
  ultimately show ?thesis using c keys by simp
qed

definition sample_listed :: "string \<Rightarrow> listed_session" where
  "sample_listed sid =
     \<lparr>hs_id = js sid, hs_parentID = None, hs_title = js ''t'', hs_directory = js ''/d'', hs_archived = False, ls_updated = Finite 0\<rparr>"

definition sample_lookup :: "jstr \<Rightarrow> lookup" where
  "sample_lookup sid = (if sid = js ''b'' then Found (sample_listed ''b'') else Missing)"

definition sample_catalog :: "session_catalog option" where
  "sample_catalog =
     catalog_with \<lparr>is_uuid = (\<lambda>_. True), is_date_time = (\<lambda>_. True), is_uri = (\<lambda>_. True)\<rparr> (\<lambda>_. Some (js ''d'')) (v2_visible (js ''/d''))
       (v2_status None) sample_lookup \<lparr>cq_limit = None, cq_sessionIds = Some (js ''b'')\<rparr> (Some [sample_listed ''a''])"

lemma sample_bookmarks: "bookmarks \<lparr>cq_limit = None, cq_sessionIds = Some (js ''b'')\<rparr> = [js ''b'']"
  by code_simp

lemma sample_visible: "v2_visible (js ''/d'') (sample_listed sid)"
  by (simp add: v2_visible_def sample_listed_def isInternalSession_def) (simp add: js_def)

lemma sample_catalog_is:
  "sample_catalog =
     Some \<lparr>sc_hasMore = False,
           sc_sessions = map (\<lambda>sid. \<lparr>ce_sessionId = js sid, ce_title = js ''t'', ce_directory = js ''/d'', ce_updatedAt = js ''d'',
                                    ce_status = js ''unknown''\<rparr>) [''a'', ''b'']\<rparr>"
proof -
  have page: "page_sessions (v2_visible (js ''/d'')) 50 [sample_listed ''a''] = [(js ''a'', sample_listed ''a'')]"
    using sample_visible [of "''a''"] by (simp add: page_sessions_def) (simp add: sample_listed_def)
  have limit: "catalog_limit \<lparr>cq_limit = None, cq_sessionIds = Some (js ''b'')\<rparr> = 50" by (simp add: catalog_limit_def)
  show ?thesis
    using sample_visible [of "''b''"]
    by (simp add: sample_catalog_def catalog_with_def sample_bookmarks limit page sample_lookup_def map_has_iff)
       (simp add: sample_listed_def catalog_limit_def catalog_entry_of_def v2_status_def validateSessionCatalog_def catalogSessionSchema_def
         minLength_def maxLength_def)
qed

lemma honest_sample: "honest sample_lookup"
  by (simp add: honest_def sample_lookup_def sample_listed_def)

lemma catalog_shows_visible_witness:
  "\<exists>c. sample_catalog = Some c \<and> set (map ce_sessionId (sc_sessions c)) = {js ''a'', js ''b''} \<and> length (sc_sessions c) \<le> 100"
proof -
  obtain c where c: "sample_catalog = Some c" using sample_catalog_is by blast
  have "{s \<in> set (take 50 [sample_listed ''a'']). v2_visible (js ''/d'') s} = {sample_listed ''a''}"
    "{sid \<in> {js ''b''}. \<exists>s. sample_lookup sid = Found s \<and> v2_visible (js ''/d'') s} = {js ''b''}"
    using sample_visible by (auto simp: sample_lookup_def)
  moreover have "hs_id (sample_listed ''a'') = js ''a''" by (simp add: sample_listed_def)
  ultimately show ?thesis
    using catalog_shows_visible [OF c [unfolded sample_catalog_def] honest_sample, of "js ''/d''"] c
    by (intro exI [of _ c]) (simp add: sample_bookmarks catalog_limit_def insert_commute)
qed

end
