(* ===== verification/PendingAdapter.thy ===== *)
theory PendingAdapter
  imports Json Contracts
begin

section \<open>Pending interactions of the host\<close>

text \<open>
  \<open>packages/plugin/src/pending-adapter.ts\<close> and the contract it must meet, \<open>pending.ts\<close> of the contracts:
  the host's lists of open questions and permissions, read as JSON of unknown shape, become the snapshot
  that clients see. The lemmas say when each interaction was first observed, over any history of polls,
  and exactly which snapshots the contract accepts.
\<close>

subsection \<open>Interactions\<close>

record pending_source =
  src_instanceId :: jstr
  src_machine :: jstr
  src_project :: jstr
  src_directory :: jstr

record pending_tool =
  tool_messageId :: jstr
  tool_callId :: jstr

record pending_option =
  opt_label :: jstr
  opt_description :: jstr

record pending_item =
  item_header :: jstr
  item_question :: jstr
  item_options :: "pending_option list"
  item_multiple :: bool
  item_custom :: bool

datatype pending_content =
    PendingQuestions "pending_item list"
  | PendingPermission (pc_permission: jstr) (pc_patterns: "jstr list") (pc_always: "jstr list") (pc_metadata: json)

record pending_interaction =
  pend_source :: pending_source
  pend_sessionId :: jstr
  pend_sessionTitle :: jstr
  pend_requestId :: jstr
  pend_occurredAt :: jstr
  pend_content :: pending_content
  pend_tool :: "pending_tool option"

subsection \<open>Reading the lists\<close>

text \<open>\<open>v != null\<close>\<close>

definition present :: "json option \<Rightarrow> bool" where
  "present v \<longleftrightarrow> v \<noteq> None \<and> v \<noteq> Some JNull"

definition listPayload :: "json \<Rightarrow> json list option" where
  "listPayload response =
     (if \<not> isRecord response \<or> present (field response ''error'') then None
      else case asRecord (field response ''data'') of
             None \<Rightarrow> None
           | Some d \<Rightarrow>
               if present (field d ''error'') then None
               else (case field d ''data'' of Some (JArray vs) \<Rightarrow> Some vs | _ \<Rightarrow> None))"

definition mapTool :: "json option \<Rightarrow> pending_tool option" where
  "mapTool tool =
     (case asRecord tool of
        None \<Rightarrow> None
      | Some t \<Rightarrow>
          if field t ''type'' \<noteq> None \<and> field t ''type'' \<noteq> Some (JString (js ''tool'')) then None
          else (case (asNonEmptyString (field t ''messageID''), asNonEmptyString (field t ''callID'')) of
                  (Some m, Some c) \<Rightarrow> Some \<lparr>tool_messageId = m, tool_callId = c\<rparr>
                | _ \<Rightarrow> None))"

definition map_option_entry :: "json \<Rightarrow> pending_option option" where
  "map_option_entry v =
     (if \<not> isRecord v then None
      else case asNonEmptyString (field v ''label'') of
             None \<Rightarrow> None
           | Some l \<Rightarrow>
               Some \<lparr>opt_label = l,
                     opt_description = (case asString (field v ''description'') of Some d \<Rightarrow> d | None \<Rightarrow> [])\<rparr>)"

definition boolean_or :: "bool \<Rightarrow> json option \<Rightarrow> bool" where
  "boolean_or d v = (case v of Some (JBool b) \<Rightarrow> b | _ \<Rightarrow> d)"

definition mapQuestionItem :: "json \<Rightarrow> pending_item option" where
  "mapQuestionItem v =
     (if \<not> isRecord v then None
      else case (asNonEmptyString (field v ''header''), asNonEmptyString (field v ''question''), field v ''options'') of
             (Some h, Some q, Some (JArray opts)) \<Rightarrow>
               Some \<lparr>item_header = h, item_question = q, item_options = List.map_filter map_option_entry opts,
                     item_multiple = boolean_or False (field v ''multiple''),
                     item_custom = boolean_or True (field v ''custom'')\<rparr>
           | _ \<Rightarrow> None)"

definition title_of :: "(jstr \<Rightarrow> jstr option) \<Rightarrow> jstr \<Rightarrow> jstr" where
  "title_of titleForSession sid = (case titleForSession sid of Some t \<Rightarrow> t | None \<Rightarrow> [])"

definition mapQuestion :: "(jstr \<Rightarrow> jstr option) \<Rightarrow> pending_source \<Rightarrow> json \<Rightarrow> pending_interaction option" where
  "mapQuestion titleForSession src raw =
     (if \<not> isRecord raw then None
      else case (asNonEmptyString (field raw ''id''), asNonEmptyString (field raw ''sessionID''), field raw ''questions'') of
             (Some rid, Some sid, Some (JArray qs)) \<Rightarrow>
               (let items = List.map_filter mapQuestionItem qs
                in if items = [] then None
                   else Some \<lparr>pend_source = src, pend_sessionId = sid, pend_sessionTitle = title_of titleForSession sid,
                              pend_requestId = rid, pend_occurredAt = [], pend_content = PendingQuestions items,
                              pend_tool = mapTool (field raw ''tool'')\<rparr>)
           | _ \<Rightarrow> None)"

definition strings :: "json option \<Rightarrow> jstr list" where
  "strings v = (case v of Some (JArray vs) \<Rightarrow> List.map_filter (\<lambda>x. asString (Some x)) vs | _ \<Rightarrow> [])"

definition mapPermission :: "(jstr \<Rightarrow> jstr option) \<Rightarrow> pending_source \<Rightarrow> json \<Rightarrow> pending_interaction option" where
  "mapPermission titleForSession src raw =
     (if \<not> isRecord raw then None
      else case (asNonEmptyString (field raw ''id''), asNonEmptyString (field raw ''sessionID''),
                 asNonEmptyString (field raw ''action''), field raw ''resources'') of
             (Some rid, Some sid, Some act, Some (JArray vs)) \<Rightarrow>
               Some \<lparr>pend_source = src, pend_sessionId = sid, pend_sessionTitle = title_of titleForSession sid,
                     pend_requestId = rid, pend_occurredAt = [],
                     pend_content =
                       PendingPermission act (strings (Some (JArray vs))) (strings (field raw ''save''))
                         (case asRecord (field raw ''metadata'') of Some m \<Rightarrow> m | None \<Rightarrow> JObject []),
                     pend_tool = mapTool (field raw ''source'')\<rparr>
           | _ \<Rightarrow> None)"

subsection \<open>The time of the first observation\<close>

type_synonym observations = "(jstr, jstr) jsmap"

definition content_kind :: "pending_content \<Rightarrow> jstr" where
  "content_kind c = (case c of PendingQuestions _ \<Rightarrow> js ''question'' | PendingPermission _ _ _ _ \<Rightarrow> js ''permission'')"

definition observation_key :: "pending_interaction \<Rightarrow> jstr" where
  "observation_key ia = content_kind (pend_content ia) @ js '':'' @ pend_requestId ia"

fun stamp_loop :: "jstr \<Rightarrow> pending_interaction list \<Rightarrow> observations \<Rightarrow> pending_interaction list \<times> observations" where
  "stamp_loop nowIso [] fo = ([], fo)"
| "stamp_loop nowIso (ia # rest) fo =
     (let first = map_get fo (observation_key ia);
          observed = (case first of Some t \<Rightarrow> t | None \<Rightarrow> nowIso);
          (stamped, fo') = stamp_loop nowIso rest (if first = None then map_set (observation_key ia) observed fo else fo)
      in (ia\<lparr>pend_occurredAt := observed\<rparr> # stamped, fo'))"

definition stampOccurredAt ::
    "jstr \<Rightarrow> pending_interaction list \<Rightarrow> observations \<Rightarrow> pending_interaction list \<times> observations" where
  "stampOccurredAt nowIso ias fo =
     (let (stamped, fo') = stamp_loop nowIso ias fo
      in (stamped, filter (\<lambda>(k, t). k \<in> set (map observation_key ias)) fo'))"

subsection \<open>A poll\<close>

text \<open>
  One call of \<open>list\<close>, at the turn in which both answers of the host are there; \<open>poll_answers\<close> is \<open>None\<close>
  when one of the two calls is rejected.
\<close>

record poll =
  poll_titles :: "jstr \<Rightarrow> jstr option"
  poll_source :: pending_source
  poll_now :: jstr
  poll_answers :: "(json \<times> json) option"

definition listed :: "poll \<Rightarrow> pending_interaction list option" where
  "listed p =
     (case poll_answers p of
        None \<Rightarrow> None
      | Some (questions, permissions) \<Rightarrow>
          (case (listPayload questions, listPayload permissions) of
             (Some qs, Some ps) \<Rightarrow>
               Some (List.map_filter (mapQuestion (poll_titles p) (poll_source p)) qs
                     @ List.map_filter (mapPermission (poll_titles p) (poll_source p)) ps)
           | _ \<Rightarrow> None))"

definition list_pending :: "poll \<Rightarrow> observations \<Rightarrow> pending_interaction list \<times> observations" where
  "list_pending p fo =
     (case listed p of None \<Rightarrow> ([], fo) | Some ias \<Rightarrow> stampOccurredAt (poll_now p) ias fo)"

definition observed_after :: "poll list \<Rightarrow> observations" where
  "observed_after ps = fold (\<lambda>p fo. snd (list_pending p fo)) ps []"

subsection \<open>The contract\<close>

definition toolSchema :: "pending_tool \<Rightarrow> bool" where
  "toolSchema t \<longleftrightarrow> minLength 1 (tool_messageId t) \<and> minLength 1 (tool_callId t)"

definition pendingQuestionOptionSchema :: "pending_option \<Rightarrow> bool" where
  "pendingQuestionOptionSchema op \<longleftrightarrow> minLength 1 (opt_label op)"

definition pendingQuestionItemSchema :: "pending_item \<Rightarrow> bool" where
  "pendingQuestionItemSchema it \<longleftrightarrow>
     minLength 1 (item_header it) \<and> minLength 1 (item_question it) \<and>
     list_all pendingQuestionOptionSchema (item_options it)"

definition pendingSourceProperties :: "formats \<Rightarrow> pending_interaction \<Rightarrow> bool" where
  "pendingSourceProperties fs ia \<longleftrightarrow>
     is_uuid fs (src_instanceId (pend_source ia)) \<and> minLength 1 (src_machine (pend_source ia)) \<and>
     minLength 1 (src_project (pend_source ia)) \<and> minLength 1 (src_directory (pend_source ia)) \<and>
     minLength 1 (pend_sessionId ia) \<and> minLength 1 (pend_requestId ia) \<and> is_date_time fs (pend_occurredAt ia)"

definition pendingContentSchema :: "pending_content \<Rightarrow> bool" where
  "pendingContentSchema c =
     (case c of
        PendingQuestions items \<Rightarrow> items \<noteq> [] \<and> list_all pendingQuestionItemSchema items
      | PendingPermission act patterns always metadata \<Rightarrow>
          minLength 1 act \<and> list_all (minLength 1) patterns \<and> list_all (minLength 1) always \<and> isRecord metadata)"

definition pendingInteractionSchema :: "formats \<Rightarrow> pending_interaction \<Rightarrow> bool" where
  "pendingInteractionSchema fs ia \<longleftrightarrow>
     pendingSourceProperties fs ia \<and> pendingContentSchema (pend_content ia) \<and>
     (case pend_tool ia of None \<Rightarrow> True | Some t \<Rightarrow> toolSchema t)"

subsection \<open>First observation\<close>

text \<open>
  The specification: the newest poll comes first, a failed one counts for nothing, and the time is that of
  the oldest poll of the uninterrupted run of polls that list the request.
\<close>

fun first_presence :: "jstr \<Rightarrow> poll list \<Rightarrow> jstr option" where
  "first_presence k [] = None"
| "first_presence k (p # older) =
     (case listed p of
        None \<Rightarrow> first_presence k older
      | Some ias \<Rightarrow>
          if k \<in> observation_key ` set ias
          then Some (case first_presence k older of None \<Rightarrow> poll_now p | Some t \<Rightarrow> t) else None)"

definition stamped_at :: "observations \<Rightarrow> jstr \<Rightarrow> jstr \<Rightarrow> jstr" where
  "stamped_at fo now k = (case map_get fo k of None \<Rightarrow> now | Some t \<Rightarrow> t)"

lemma observation_key_stamp [simp]: "observation_key (ia\<lparr>pend_occurredAt := t\<rparr>) = observation_key ia"
  by (simp add: observation_key_def)

lemma stamp_loop_stamps:
  "fst (stamp_loop now ias fo) = map (\<lambda>ia. ia\<lparr>pend_occurredAt := stamped_at fo now (observation_key ia)\<rparr>) ias"
  by (induction now ias fo rule: stamp_loop.induct)
     (auto simp: Let_def stamped_at_def split: option.splits prod.splits)

lemma stamp_loop_observes:
  "map_get (snd (stamp_loop now ias fo)) k =
     (if k \<in> observation_key ` set ias then Some (stamped_at fo now k) else map_get fo k)"
  by (induction now ias fo rule: stamp_loop.induct)
     (auto simp: Let_def stamped_at_def split: option.splits prod.splits)

lemma map_get_filter_keys: "map_get (filter (\<lambda>(k, t). P k) m) k = (if P k then map_get m k else None)"
  by (induction m) auto

lemma stamp_observes:
  "map_get (snd (stampOccurredAt now ias fo)) k =
     (if k \<in> observation_key ` set ias then Some (stamped_at fo now k) else None)"
  using stamp_loop_observes [of now ias fo k]
  by (auto simp: stampOccurredAt_def map_get_filter_keys split: prod.splits)

lemma observed_first: "map_get (observed_after ps) k = first_presence k (rev ps)"
proof (induction ps rule: rev_induct)
  case Nil
  show ?case by (simp add: observed_after_def)
next
  case (snoc p ps)
  have "observed_after (ps @ [p]) = snd (list_pending p (observed_after ps))" by (simp add: observed_after_def)
  then show ?case
    using snoc stamp_observes [of "poll_now p" _ "observed_after ps" k]
    by (auto simp: list_pending_def stamped_at_def split: option.splits)
qed

lemma stampOccurredAt_stamps:
  "fst (stampOccurredAt now ias fo) = map (\<lambda>ia. ia\<lparr>pend_occurredAt := stamped_at fo now (observation_key ia)\<rparr>) ias"
  by (simp add: stampOccurredAt_def stamp_loop_stamps [symmetric] split: prod.split)

lemma listed_stamps:
  "fst (list_pending p fo) =
     (case listed p of
        None \<Rightarrow> []
      | Some ias \<Rightarrow> map (\<lambda>ia. ia\<lparr>pend_occurredAt := stamped_at fo (poll_now p) (observation_key ia)\<rparr>) ias)"
  by (simp add: list_pending_def stampOccurredAt_stamps split: option.split)

text \<open>
  C11: Over any history of polls, a poll returns what the host's two lists contain, nothing when one of them
  is unavailable, and stamps each interaction with the time of the poll that first listed it: the oldest
  of the polls that have listed it without interruption. A poll that fails neither ends a presence nor
  restarts its time; a request that has left and returns starts a new one.
\<close>

theorem occurred_at_first_presence:
  "fst (list_pending p (observed_after ps)) =
     (case listed p of
        None \<Rightarrow> []
      | Some ias \<Rightarrow>
          map (\<lambda>ia. ia\<lparr>pend_occurredAt := the (first_presence (observation_key ia) (p # rev ps))\<rparr>) ias)"
  by (auto simp: listed_stamps observed_first stamped_at_def split: option.splits)

subsection \<open>What the contract accepts\<close>

lemma map_filter_all: "list_all P (List.map_filter f xs) \<longleftrightarrow> (\<forall>x \<in> set xs. \<forall>y. f x = Some y \<longrightarrow> P y)"
  by (induction xs) (auto simp: List.map_filter_def split: option.splits)

lemma mapTool_ok: "mapTool v = Some t \<Longrightarrow> toolSchema t"
  by (auto simp: mapTool_def toolSchema_def split: option.splits if_splits)

lemma mapQuestionItem_ok: "mapQuestionItem v = Some it \<Longrightarrow> pendingQuestionItemSchema it"
  by (auto simp: mapQuestionItem_def map_option_entry_def pendingQuestionItemSchema_def pendingQuestionOptionSchema_def
      map_filter_all split: option.splits if_splits json.splits)

text \<open>The only strings that the adapter passes on unchecked.\<close>

definition empty_pattern :: "pending_interaction \<Rightarrow> bool" where
  "empty_pattern ia =
     (case pend_content ia of
        PendingQuestions _ \<Rightarrow> False
      | PendingPermission _ patterns always _ \<Rightarrow> [] \<in> set patterns \<or> [] \<in> set always)"

definition source_ok :: "formats \<Rightarrow> pending_source \<Rightarrow> bool" where
  "source_ok fs s \<longleftrightarrow>
     is_uuid fs (src_instanceId s) \<and> src_machine s \<noteq> [] \<and> src_project s \<noteq> [] \<and> src_directory s \<noteq> []"

lemma mapQuestion_schema:
  assumes "mapQuestion titles src raw = Some ia" "source_ok fs src" "is_date_time fs t"
  shows "pendingInteractionSchema fs (ia\<lparr>pend_occurredAt := t\<rparr>) \<and> \<not> empty_pattern ia"
  using assms mapTool_ok
  by (auto simp: mapQuestion_def pendingInteractionSchema_def pendingSourceProperties_def pendingContentSchema_def
      source_ok_def empty_pattern_def Let_def map_filter_all mapQuestionItem_ok
      split: if_splits option.splits json.splits)

lemma asRecord_record: "asRecord v = Some m \<Longrightarrow> isRecord m"
  by (auto simp: asRecord_def split: option.splits if_splits)

lemma mapPermission_schema:
  assumes "mapPermission titles src raw = Some ia" "source_ok fs src" "is_date_time fs t"
  shows "pendingInteractionSchema fs (ia\<lparr>pend_occurredAt := t\<rparr>) \<longleftrightarrow> \<not> empty_pattern ia"
  using assms mapTool_ok asRecord_record
  by (auto simp: mapPermission_def pendingInteractionSchema_def pendingSourceProperties_def pendingContentSchema_def
      source_ok_def empty_pattern_def list_all_iff isRecord_def
      split: if_splits option.splits json.splits)

lemma first_presence_polled: "first_presence k ps = Some t \<Longrightarrow> \<exists>q \<in> set ps. t = poll_now q"
  by (induction ps arbitrary: t) (auto split: option.splits if_splits)

lemma listed_cases:
  assumes "listed p = Some ias" "ia \<in> set ias"
  obtains raw where "mapQuestion (poll_titles p) (poll_source p) raw = Some ia"
    | raw where "mapPermission (poll_titles p) (poll_source p) raw = Some ia"
  using assms by (auto simp: listed_def List.map_filter_def split: option.splits)

lemma empty_pattern_stamp [simp]: "empty_pattern (ia\<lparr>pend_occurredAt := t\<rparr>) = empty_pattern ia"
  by (simp add: empty_pattern_def)

lemma listed_schema:
  assumes "listed p = Some ias" "ia \<in> set ias" "source_ok fs (poll_source p)" "is_date_time fs t"
  shows "pendingInteractionSchema fs (ia\<lparr>pend_occurredAt := t\<rparr>) \<longleftrightarrow> \<not> empty_pattern ia"
  using assms(1,2) by (rule listed_cases) (use assms(3,4) mapQuestion_schema mapPermission_schema in blast)+

text \<open>
  With a source the contract accepts and a clock that prints dates, a snapshot meets the contract
  exactly when no permission in it carries an empty pattern: ids, texts, labels, tools and times always
  pass, but the strings of a permission's resources and of its saved patterns are passed on unchecked,
  and a single empty one makes the contract refuse the whole snapshot.
\<close>

theorem snapshot_contract_exact:
  assumes "source_ok fs (poll_source p)" "\<forall>q \<in> set (p # ps). is_date_time fs (poll_now q)"
  shows "list_all (pendingInteractionSchema fs) (fst (list_pending p (observed_after ps))) \<longleftrightarrow>
         \<not> list_ex empty_pattern (fst (list_pending p (observed_after ps)))"
proof (cases "listed p")
  case None
  then show ?thesis by (simp add: list_pending_def)
next
  case (Some ias)
  have dates: "is_date_time fs (stamped_at (observed_after ps) (poll_now p) k)" for k
    using assms(2) first_presence_polled [of k "rev ps"]
    by (auto simp: stamped_at_def observed_first split: option.split)
  have "pendingInteractionSchema fs
          (ia\<lparr>pend_occurredAt := stamped_at (observed_after ps) (poll_now p) (observation_key ia)\<rparr>) \<longleftrightarrow> \<not> empty_pattern ia"
    if "ia \<in> set ias" for ia
    by (rule listed_schema [OF Some that assms(1) dates])
  then show ?thesis by (auto simp: listed_stamps Some list_all_iff list_ex_iff)
qed

definition any_format :: formats where
  "any_format = \<lparr>is_uuid = (\<lambda>_. True), is_date_time = (\<lambda>_. True), is_uri = (\<lambda>_. True)\<rparr>"

definition host_list :: "json list \<Rightarrow> json" where
  "host_list vs = JObject [(js ''data'', JObject [(js ''data'', JArray vs)])]"

definition sample_poll :: "json list \<Rightarrow> json list \<Rightarrow> string \<Rightarrow> poll" where
  "sample_poll qs ps now =
     \<lparr>poll_titles = (\<lambda>_. None),
      poll_source = \<lparr>src_instanceId = js ''i'', src_machine = js ''m'', src_project = js ''p'', src_directory = js ''/d''\<rparr>,
      poll_now = js now, poll_answers = Some (host_list qs, host_list ps)\<rparr>"

definition sample_pending_permission :: "string list \<Rightarrow> json" where
  "sample_pending_permission resources =
     JObject [(js ''id'', JString (js ''r'')), (js ''sessionID'', JString (js ''s'')), (js ''action'', JString (js ''bash'')),
              (js ''resources'', JArray (map (\<lambda>r. JString (js r)) resources))]"

lemma sample_pending_permission_mapped:
  "mapPermission (\<lambda>_. None) src (sample_pending_permission rs) =
     Some \<lparr>pend_source = src, pend_sessionId = js ''s'', pend_sessionTitle = [], pend_requestId = js ''r'',
           pend_occurredAt = [], pend_content = PendingPermission (js ''bash'') (map js rs) [] (JObject []), pend_tool = None\<rparr>"
  by (simp add: mapPermission_def sample_pending_permission_def isRecord_def field_def asNonEmptyString_def asRecord_def
      strings_def asString_def title_of_def mapTool_def List.map_filter_def o_def)

lemma sample_poll_listed:
  "listed (sample_poll [] [sample_pending_permission rs] now) =
     Some [\<lparr>pend_source = poll_source (sample_poll [] [] now), pend_sessionId = js ''s'', pend_sessionTitle = [], pend_requestId = js ''r'',
            pend_occurredAt = [], pend_content = PendingPermission (js ''bash'') (map js rs) [] (JObject []), pend_tool = None\<rparr>]"
  by (simp add: listed_def sample_poll_def host_list_def listPayload_def isRecord_def field_def present_def asRecord_def
      List.map_filter_def sample_pending_permission_mapped)

lemma sample_poll_empty_pattern:
  "list_ex empty_pattern (fst (list_pending (sample_poll [] [sample_pending_permission [''ls'', []]] now) fo))"
  unfolding listed_stamps sample_poll_listed by (simp add: empty_pattern_def)

lemma sample_poll_source: "source_ok any_format (poll_source (sample_poll qs ps now))"
  by (simp add: source_ok_def any_format_def sample_poll_def)

lemma snapshot_contract_exact_witness:
  "\<not> list_all (pendingInteractionSchema any_format)
      (fst (list_pending (sample_poll [] [sample_pending_permission [''ls'', []]] ''t1'')
              (observed_after [sample_poll [] [] ''t0''])))"
  using snapshot_contract_exact [OF sample_poll_source [of "[]" "[sample_pending_permission [''ls'', []]]" "''t1''"],
      of "[sample_poll [] [] ''t0'']"] sample_poll_empty_pattern
  by (simp add: any_format_def)

end
