(* ===== verification/V2Host.thy ===== *)
theory V2Host
  imports SessionCatalog PendingAdapter ControlFrames
begin

section \<open>Commands to the host\<close>

text \<open>
  How an account's answers, decisions and prompts reach the host: the adapters of the host's first
  generation (\<open>question-reply-adapter.ts\<close>, \<open>permission-reply-adapter.ts\<close>, \<open>session-prompt-adapter.ts\<close>), and
  the forms and commands of the second (\<open>v2-api.ts\<close>). Answers of the host are arguments: a parsed response,
  or \<open>None\<close> for a call that is rejected, aborted or not answered.
\<close>

subsection \<open>The first generation\<close>

definition errorTag :: "json option \<Rightarrow> jstr option" where
  "errorTag e = (case asRecord e of None \<Rightarrow> None | Some r \<Rightarrow> asString (field r ''_tag''))"

definition mapReply :: "json \<Rightarrow> outcome_status" where
  "mapReply response =
     (if \<not> isRecord response then ResultUnknown
      else if present (field response ''error'') then
        (case errorTag (field response ''error'') of
           None \<Rightarrow> ResultUnknown
         | Some t \<Rightarrow>
             if t = js ''QuestionNotFoundError'' \<or> t = js ''SessionNotFoundError'' then Stale else UpstreamError)
      else Confirmed)"

definition mapDecision :: "json \<Rightarrow> outcome_status" where
  "mapDecision response =
     (if \<not> isRecord response then ResultUnknown
      else if present (field response ''error'') then
        (case errorTag (field response ''error'') of
           None \<Rightarrow> ResultUnknown
         | Some t \<Rightarrow>
             if t = js ''PermissionNotFoundError'' \<or> t = js ''SessionNotFoundError'' then Stale else UpstreamError)
      else if field response ''data'' = Some (JBool False) then ResultUnknown
      else Confirmed)"

definition question_reply :: "json option \<Rightarrow> outcome_status" where
  "question_reply response = (case response of None \<Rightarrow> ResultUnknown | Some r \<Rightarrow> mapReply r)"

definition permission_reply :: "json option \<Rightarrow> outcome_status" where
  "permission_reply response = (case response of None \<Rightarrow> ResultUnknown | Some r \<Rightarrow> mapDecision r)"

text \<open>The response of \<open>fetch\<close>; of the prompt's only \<open>ok\<close> counts.\<close>

record http_answer =
  ha_status :: nat
  ha_body :: "json option"  \<comment> \<open>what \<open>json()\<close> gives, \<open>None\<close> when it rejects\<close>
  ha_cancels :: bool  \<comment> \<open>cancelling the body does not reject\<close>

definition response_ok :: "http_answer \<Rightarrow> bool" where
  "response_ok a \<longleftrightarrow> 200 \<le> ha_status a \<and> ha_status a \<le> 299"

definition session_prompt :: "http_answer option \<Rightarrow> outcome_status" where
  "session_prompt response =
     (case response of None \<Rightarrow> ResultUnknown | Some a \<Rightarrow> if response_ok a then Confirmed else UpstreamError)"

subsection \<open>Forms of the second generation\<close>

record v2_option =
  vo_value :: jstr
  vo_label :: jstr
  vo_description :: "jstr option"

record v2_field =
  vf_key :: jstr
  vf_type :: jstr
  vf_title :: "jstr option"
  vf_description :: "jstr option"
  vf_custom :: "bool option"
  vf_options :: "v2_option list option"

record v2_form =
  form_id :: jstr
  form_sessionID :: jstr
  form_kind :: "jstr option"  \<comment> \<open>\<open>form.metadata?.kind\<close>\<close>
  form_tool :: "(jstr \<times> jstr) option"  \<comment> \<open>message and id of \<open>form.metadata.tool\<close>\<close>
  form_fields :: "v2_field list"

text \<open>\<open>v || d\<close>\<close>

definition text_or :: "jstr option \<Rightarrow> jstr \<Rightarrow> jstr" where
  "text_or v d = (case v of None \<Rightarrow> d | Some t \<Rightarrow> if t = [] then d else t)"

definition question_field :: "nat \<Rightarrow> v2_field \<Rightarrow> bool" where
  "question_field i f \<longleftrightarrow>
     vf_key f = js ''q'' @ decimal i \<and> (vf_type f = js ''string'' \<or> vf_type f = js ''multiselect'') \<and>
     (case vf_options f of None \<Rightarrow> False | Some os \<Rightarrow> list_all (\<lambda>op. vo_value op = vo_label op) os)"

fun question_fields :: "nat \<Rightarrow> v2_field list \<Rightarrow> bool" where
  "question_fields i [] \<longleftrightarrow> True"
| "question_fields i (f # fs) \<longleftrightarrow> question_field i f \<and> question_fields (Suc i) fs"

definition option_json :: "v2_option \<Rightarrow> json" where
  "option_json op =
     JObject ([(js ''value'', JString (vo_value op)), (js ''label'', JString (vo_label op))]
              @ (case vo_description op of None \<Rightarrow> [] | Some d \<Rightarrow> [(js ''description'', JString d)]))"

definition field_json :: "v2_field \<Rightarrow> json" where
  "field_json f =
     JObject [(js ''header'', JString (text_or (vf_title f) (js ''Question''))),
              (js ''question'', JString (text_or (vf_description f) (text_or (vf_title f) (js ''Question'')))),
              (js ''options'', JArray (case vf_options f of None \<Rightarrow> [] | Some os \<Rightarrow> map option_json os)),
              (js ''multiple'', JBool (vf_type f = js ''multiselect'')),
              (js ''custom'', JBool (vf_custom f = Some True))]"

definition questionFromForm :: "v2_form \<Rightarrow> json option" where
  "questionFromForm form =
     (if form_kind form \<noteq> Some (js ''question'') \<or> form_fields form = [] \<or> \<not> question_fields 0 (form_fields form)
      then None
      else Some (JObject
        ([(js ''id'', JString (form_id form)), (js ''sessionID'', JString (form_sessionID form)),
          (js ''questions'', JArray (map field_json (form_fields form)))]
         @ (case form_tool form of
              None \<Rightarrow> []
            | Some (m, c) \<Rightarrow> [(js ''tool'', JObject [(js ''messageID'', JString m), (js ''callID'', JString c)])]))))"

subsection \<open>Lists of pending requests\<close>

definition list_json :: "json list \<Rightarrow> json" where
  "list_json vs = JObject [(js ''data'', JObject [(js ''data'', JArray vs)])]"

definition v2_question_list :: "v2_form list \<Rightarrow> json" where
  "v2_question_list forms = list_json (List.map_filter questionFromForm forms)"

definition v2_permission_item :: "json \<Rightarrow> json" where
  "v2_permission_item item =
     (case (item, field item ''source'') of
        (JObject ps, Some (JObject ss)) \<Rightarrow>
          JObject (ps @ [(js ''source'', JObject
            (filter (\<lambda>(k, v). k \<noteq> js ''callID'') ss
             @ (case field (JObject ss) ''id'' of None \<Rightarrow> [] | Some v \<Rightarrow> [(js ''callID'', v)])))])
      | _ \<Rightarrow> item)"

definition v2_permission_list :: "json list \<Rightarrow> json option" where
  "v2_permission_list items =
     (if JNull \<in> set items then None else Some (list_json (map v2_permission_item items)))"

text \<open>What a poll of the pending adapter gets; each list is \<open>None\<close> when its request fails.\<close>

definition v2_pending_answers :: "v2_form list option \<Rightarrow> json list option \<Rightarrow> (json \<times> json) option" where
  "v2_pending_answers forms items =
     (case (forms, items) of
        (Some fs, Some is) \<Rightarrow> map_option (Pair (v2_question_list fs)) (v2_permission_list is)
      | _ \<Rightarrow> None)"

subsection \<open>Requests of the second generation\<close>

datatype api_error = ApiError nat "jstr option" | OtherError

definition error_of :: "http_answer \<Rightarrow> api_error" where
  "error_of a =
     (case ha_body a of
        None \<Rightarrow> ApiError (ha_status a) None
      | Some JNull \<Rightarrow> OtherError
      | Some v \<Rightarrow> ApiError (ha_status a) (asString (field v ''_tag'')))"

definition v2_json :: "http_answer option \<Rightarrow> api_error + json" where
  "v2_json answer =
     (case answer of
        None \<Rightarrow> Inl OtherError
      | Some a \<Rightarrow>
          if \<not> response_ok a then Inl (error_of a)
          else (case ha_body a of None \<Rightarrow> Inl OtherError | Some v \<Rightarrow> Inr v))"

definition truthy :: "json option \<Rightarrow> bool" where
  "truthy v =
     (case v of
        None \<Rightarrow> False | Some JNull \<Rightarrow> False | Some (JBool b) \<Rightarrow> b
      | Some (JNumber n) \<Rightarrow> n \<noteq> Finite 0 \<and> n \<noteq> NaN
      | Some (JString s) \<Rightarrow> s \<noteq> []
      | _ \<Rightarrow> True)"

definition sub_field :: "json \<Rightarrow> string \<Rightarrow> string \<Rightarrow> json option" where
  "sub_field v a b = (case field v a of None \<Rightarrow> None | Some w \<Rightarrow> field w b)"

definition hostSession :: "json \<Rightarrow> listed_session option" where
  "hostSession v =
     (case (asString (field v ''id''), asString (sub_field v ''location'' ''directory''), sub_field v ''time'' ''updated'') of
        (Some sid, Some dir, Some (JNumber n)) \<Rightarrow>
          Some \<lparr>hs_id = sid, hs_parentID = asString (field v ''parentID''),
                hs_title = (case asString (field v ''title'') of None \<Rightarrow> [] | Some t \<Rightarrow> t),
                hs_directory = dir, hs_archived = truthy (sub_field v ''time'' ''archived''), ls_updated = n\<rparr>
      | _ \<Rightarrow> None)"

definition v2_session :: "jstr \<Rightarrow> jstr \<Rightarrow> http_answer option \<Rightarrow> api_error + listed_session" where
  "v2_session dir sid answer =
     (case v2_json answer of
        Inl e \<Rightarrow> Inl e
      | Inr result \<Rightarrow>
          (case field result ''data'' of
             None \<Rightarrow> Inl OtherError
           | Some v \<Rightarrow>
               (case hostSession v of
                  None \<Rightarrow> Inl OtherError
                | Some s \<Rightarrow>
                    if hs_id s \<noteq> sid \<or> hs_directory s \<noteq> dir
                    then Inl (ApiError 404 (Some (js ''SessionNotFoundError''))) else Inr s)))"

text \<open>The lookup of a bookmark by the catalog.\<close>

definition v2_lookup :: "jstr \<Rightarrow> (jstr \<Rightarrow> http_answer option) \<Rightarrow> jstr \<Rightarrow> lookup" where
  "v2_lookup dir answers sid =
     (case v2_session dir sid (answers sid) of
        Inr s \<Rightarrow> Found s
      | Inl (ApiError code t) \<Rightarrow> if code = 404 then Missing else LookupFails
      | Inl OtherError \<Rightarrow> LookupFails)"

definition commandError :: "api_error \<Rightarrow> outcome_status" where
  "commandError e =
     (case e of
        OtherError \<Rightarrow> ResultUnknown
      | ApiError code t \<Rightarrow>
          if t \<in> Some ` {js ''SessionNotFoundError'', js ''FormNotFoundError'', js ''FormAlreadySettledError'',
                           js ''PermissionNotFoundError''}
          then Stale else UpstreamError)"

text \<open>\<open>command\<close>, with the payload it posts, if it gets so far.\<close>

definition v2_command ::
    "jstr \<Rightarrow> jstr \<Rightarrow> http_answer option \<Rightarrow> api_error + json \<Rightarrow> http_answer option \<Rightarrow> outcome_status \<times> json option" where
  "v2_command dir sid session_answer load answer =
     (case v2_session dir sid session_answer of
        Inl e \<Rightarrow> (commandError e, None)
      | Inr s \<Rightarrow>
          (case load of
             Inl e \<Rightarrow> (commandError e, None)
           | Inr body \<Rightarrow>
               (case answer of
                  None \<Rightarrow> ResultUnknown
                | Some a \<Rightarrow>
                    if response_ok a then (if ha_cancels a then Confirmed else ResultUnknown)
                    else commandError (error_of a), Some body)))"

definition answer_value :: "v2_field \<Rightarrow> jstr list \<Rightarrow> json" where
  "answer_value f a =
     (if vf_type f = js ''multiselect'' then JArray (map JString a)
      else JString (case a of [] \<Rightarrow> [] | t # _ \<Rightarrow> t))"

definition answer_payload :: "v2_form \<Rightarrow> jstr list list \<Rightarrow> api_error + json" where
  "answer_payload form answers =
     (if questionFromForm form = None \<or> length (form_fields form) \<noteq> length answers \<or>
         list_ex (\<lambda>(f, a). vf_type f = js ''string'' \<and> 1 < length a) (zip (form_fields form) answers)
      then Inl (ApiError 400 None)
      else Inr (JObject [(js ''answer'', JObject (map (\<lambda>(f, a). (vf_key f, answer_value f a)) (zip (form_fields form) answers)))]))"

text \<open>The form with the status of its state, as the host answers it.\<close>

definition v2_answer ::
    "jstr \<Rightarrow> jstr \<Rightarrow> http_answer option \<Rightarrow> api_error + v2_form \<times> jstr \<Rightarrow> jstr list list \<Rightarrow> http_answer option \<Rightarrow>
     outcome_status \<times> json option" where
  "v2_answer dir sid session_answer form answers answer =
     v2_command dir sid session_answer
       (case form of
          Inl e \<Rightarrow> Inl e
        | Inr (f, st) \<Rightarrow>
            if st \<noteq> js ''pending'' then Inl (ApiError 409 (Some (js ''FormAlreadySettledError''))) else answer_payload f answers)
       answer"

definition v2_decide ::
    "jstr \<Rightarrow> jstr \<Rightarrow> http_answer option \<Rightarrow> decision \<Rightarrow> http_answer option \<Rightarrow> outcome_status \<times> json option" where
  "v2_decide dir sid session_answer d answer =
     v2_command dir sid session_answer (Inr (JObject [(js ''decision'', JString (js (decision_text d)))])) answer"

definition v2_prompt ::
    "jstr \<Rightarrow> jstr \<Rightarrow> http_answer option \<Rightarrow> jstr \<Rightarrow> http_answer option \<Rightarrow> outcome_status \<times> json option" where
  "v2_prompt dir sid session_answer t answer =
     (let (st, posted) = v2_command dir sid session_answer (Inr (JObject [(js ''text'', JString t)])) answer
      in (if st = Stale then UpstreamError else st, posted))"

subsection \<open>One form, two views\<close>

lemma text_or_nonempty [simp]: "d \<noteq> [] \<Longrightarrow> text_or v d \<noteq> []"
  by (simp add: text_or_def split: option.split)

lemma map_filter_total: "(\<And>x. x \<in> set xs \<Longrightarrow> f x = Some (g x)) \<Longrightarrow> List.map_filter f xs = map g xs"
  by (induction xs) (auto simp: List.map_filter_def)

lemma map_filter_option: "List.map_filter f (map g xs) = List.map_filter (f \<circ> g) xs"
  by (induction xs) (auto simp: List.map_filter_def split: option.split)

lemmas json_reads = isRecord_def field_def asNonEmptyString_def asString_def

lemma option_views:
  "map_option_entry (option_json op) =
     (if vo_label op = [] then None
      else Some \<lparr>opt_label = vo_label op, opt_description = (case vo_description op of None \<Rightarrow> [] | Some d \<Rightarrow> d)\<rparr>)"
  "questionOption (option_json op) = (if vo_label op = [] then None else Some (vo_label op))"
  by (simp_all add: map_option_entry_def questionOption_def option_json_def json_reads split: option.split)

lemma option_lists:
  "map opt_label (List.map_filter map_option_entry (map option_json os)) = List.map_filter questionOption (map option_json os)"
  by (induction os) (simp_all add: option_views List.map_filter_def)

definition item_view :: "v2_field \<Rightarrow> pending_item" where
  "item_view f =
     \<lparr>item_header = text_or (vf_title f) (js ''Question''),
      item_question = text_or (vf_description f) (text_or (vf_title f) (js ''Question'')),
      item_options = List.map_filter map_option_entry (case vf_options f of None \<Rightarrow> [] | Some os \<Rightarrow> map option_json os),
      item_multiple = (vf_type f = js ''multiselect''), item_custom = (vf_custom f = Some True)\<rparr>"

definition event_view :: "v2_field \<Rightarrow> normalized_question" where
  "event_view f =
     \<lparr>nq_question = text_or (vf_description f) (text_or (vf_title f) (js ''Question'')),
      nq_options = List.map_filter questionOption (case vf_options f of None \<Rightarrow> [] | Some os \<Rightarrow> map option_json os),
      nq_multiple = Some (vf_type f = js ''multiselect'')\<rparr>"

lemma field_views:
  "mapQuestionItem (field_json f) = Some (item_view f)" "normalizeQuestion (field_json f) = Some (event_view f)"
  by (simp_all add: mapQuestionItem_def normalizeQuestion_def field_json_def json_reads boolean_or_def item_view_def event_view_def)

definition asked_event :: "json \<Rightarrow> json" where
  "asked_event q = JObject [(js ''type'', JString (js ''question.asked'')), (js ''properties'', q)]"

text \<open>
  C13: The notification and the pending snapshot of one form of the host describe the same request: the same
  session and request, one question per field in the order of the fields, with the same text, labels and
  choice of one or many. No field is lost on either way, so the answers of a client stand at the positions
  of the fields they answer.
\<close>

theorem form_views_agree:
  assumes "questionFromForm form = Some q" "form_id form \<noteq> []" "form_sessionID form \<noteq> []"
  shows "\<exists>qs ia items.
           normalizeEvent (asked_event q) = Some (QuestionAsked (form_sessionID form) (form_id form) qs) \<and>
           mapQuestion titles src q = Some ia \<and> pend_requestId ia = form_id form \<and>
           pend_sessionId ia = form_sessionID form \<and> pend_content ia = PendingQuestions items \<and>
           length qs = length (form_fields form) \<and>
           map (\<lambda>n. (nq_question n, nq_options n, nq_multiple n)) qs =
             map (\<lambda>it. (item_question it, map opt_label (item_options it), Some (item_multiple it))) items"
proof -
  have q: "q = JObject
        ([(js ''id'', JString (form_id form)), (js ''sessionID'', JString (form_sessionID form)),
          (js ''questions'', JArray (map field_json (form_fields form)))]
         @ (case form_tool form of
              None \<Rightarrow> []
            | Some (m, c) \<Rightarrow> [(js ''tool'', JObject [(js ''messageID'', JString m), (js ''callID'', JString c)])]))"
    and nonempty: "form_fields form \<noteq> []"
    using assms(1) by (simp_all add: questionFromForm_def split: if_splits)
  have reads: "field q ''id'' = Some (JString (form_id form))" "field q ''sessionID'' = Some (JString (form_sessionID form))"
    "field q ''questions'' = Some (JArray (map field_json (form_fields form)))" "isRecord q"
    unfolding q by (auto simp: field_def isRecord_def split: option.split)
  have items: "List.map_filter mapQuestionItem (map field_json (form_fields form)) = map item_view (form_fields form)"
    "List.map_filter normalizeQuestion (map field_json (form_fields form)) = map event_view (form_fields form)"
    by (simp_all add: map_filter_option map_filter_total field_views)
  have "normalizeEvent (asked_event q) =
      Some (QuestionAsked (form_sessionID form) (form_id form) (map event_view (form_fields form)))"
    using reads assms(2,3) nonempty items
    by (simp add: normalizeEvent_def asked_event_def normalizeQuestionAsked_def asNonEmptyString_def asRecord_def
        field_def [of "JObject _"] asString_def)
  moreover obtain ia where "mapQuestion titles src q = Some ia" "pend_requestId ia = form_id form"
    "pend_sessionId ia = form_sessionID form" "pend_content ia = PendingQuestions (map item_view (form_fields form))"
    using reads assms(2,3) nonempty items by (simp add: mapQuestion_def asNonEmptyString_def)
  moreover have "map (\<lambda>n. (nq_question n, nq_options n, nq_multiple n)) (map event_view (form_fields form)) =
      map (\<lambda>it. (item_question it, map opt_label (item_options it), Some (item_multiple it))) (map item_view (form_fields form))"
    using option_lists by (auto simp: event_view_def item_view_def List.map_filter_simps split: option.split)
  ultimately show ?thesis
    by (intro exI [of _ "map event_view (form_fields form)"] exI [of _ ia] exI [of _ "map item_view (form_fields form)"]) simp
qed

subsection \<open>Answers reach their fields\<close>

lemma question_fields_nth: "question_fields i fs \<Longrightarrow> j < length fs \<Longrightarrow> question_field (i + j) (fs ! j)"
proof (induction fs arbitrary: i j)
  case (Cons f fs)
  then show ?case by (cases j) (auto dest: Cons.IH [of "Suc i"])
qed simp

lemma decimal_inject: "decimal m = decimal n \<longleftrightarrow> m = n"
  by (metis parse_decimal_decimal)

lemma field_keys_distinct: "question_fields 0 fs \<Longrightarrow> distinct (map vf_key fs)"
proof -
  assume "question_fields 0 fs"
  then have "vf_key (fs ! j) = js ''q'' @ decimal j" if "j < length fs" for j
    using question_fields_nth [of 0 fs j] that by (simp add: question_field_def)
  then show ?thesis by (simp add: distinct_conv_nth decimal_inject)
qed

text \<open>What the host reads for a field.\<close>

definition read_answer :: "json option \<Rightarrow> jstr list option" where
  "read_answer v =
     (case v of
        Some (JArray vs) \<Rightarrow> all_of (\<lambda>x. asString (Some x)) vs
      | Some (JString t) \<Rightarrow> Some [t]
      | _ \<Rightarrow> None)"

lemma all_of_strings: "all_of (\<lambda>x. asString (Some x)) (map JString a) = Some a"
  by (induction a) (simp_all add: asString_def)

lemma read_answer_value:
  assumes "a \<noteq> []" "\<not> (vf_type f = js ''string'' \<and> 1 < length a)" "vf_type f = js ''string'' \<or> vf_type f = js ''multiselect''"
  shows "read_answer (Some (answer_value f a)) = Some a"
  using assms by (cases a) (auto simp: read_answer_def answer_value_def all_of_strings simp del: list.map)

lemma answer_payload_reads:
  assumes "answer_payload f answers = Inr body" "\<forall>a \<in> set answers. a \<noteq> []"
  shows "length answers = length (form_fields f) \<and>
    (\<exists>entries. body = JObject [(js ''answer'', JObject entries)] \<and> map fst entries = map vf_key (form_fields f) \<and>
       (\<forall>i < length answers. read_answer (map_of (rev entries) (vf_key (form_fields f ! i))) = Some (answers ! i)))"
proof -
  let ?fs = "form_fields f"
  let ?entries = "map (\<lambda>(f, a). (vf_key f, answer_value f a)) (zip ?fs answers)"
  have ok: "question_fields 0 ?fs" "length ?fs = length answers" and body: "body = JObject [(js ''answer'', JObject ?entries)]"
    and short: "\<forall>(f, a) \<in> set (zip ?fs answers). \<not> (vf_type f = js ''string'' \<and> 1 < length a)"
    using assms(1) by (auto simp: answer_payload_def questionFromForm_def list_ex_iff split: if_splits)
  have keys: "map fst ?entries = map vf_key ?fs" using ok(2) by (intro nth_equalityI) simp_all
  have reads: "read_answer (map_of (rev ?entries) (vf_key (?fs ! i))) = Some (answers ! i)" if i: "i < length answers" for i
  proof -
    have "(vf_key (?fs ! i), answer_value (?fs ! i) (answers ! i)) \<in> set (rev ?entries)"
      using i ok(2) by (auto simp: set_zip intro!: image_eqI [of _ _ "(?fs ! i, answers ! i)"])
    moreover have "distinct (map fst (rev ?entries))"
      unfolding rev_map [symmetric] keys using field_keys_distinct [OF ok(1)] by simp
    ultimately have "map_of (rev ?entries) (vf_key (?fs ! i)) = Some (answer_value (?fs ! i) (answers ! i))"
      by (simp add: map_of_eq_Some_iff)
    moreover have "question_field i (?fs ! i)" using question_fields_nth [OF ok(1), of i] i ok(2) by simp
    moreover have "(?fs ! i, answers ! i) \<in> set (zip ?fs answers)" using i ok(2) by (auto simp: set_zip)
    ultimately show ?thesis using i short assms(2) by (auto simp: question_field_def intro!: read_answer_value)
  qed
  show ?thesis using body keys reads ok(2) by auto
qed

lemma v2_session_in_directory: "v2_session dir sid answer = Inr s \<Longrightarrow> hs_id s = sid \<and> hs_directory s = dir"
  by (auto simp: v2_session_def split: sum.splits option.splits if_splits)

lemma v2_command_posts:
  assumes "v2_command dir sid sa load answer = (st, posted)"
  shows "posted = Some body \<Longrightarrow> load = Inr body \<and> (\<exists>s. v2_session dir sid sa = Inr s)"
    and "st = Confirmed \<Longrightarrow> posted \<noteq> None \<and> (\<exists>a. answer = Some a \<and> response_ok a)"
  using assms by (auto simp: v2_command_def commandError_def split: sum.splits option.splits if_splits api_error.splits)

text \<open>
  C17: Answers to a form of the host are posted only when the host has confirmed that the session exists and
  is one of this plugin's directory, and that the form is still pending; what is posted names exactly the
  form's fields, and the host reads for each field the answer at its position. The client is told that
  they are confirmed only after the host has accepted the post.
\<close>

theorem v2_answer_delivered:
  assumes "v2_answer dir sid session_answer form answers answer = (st, posted)" "\<forall>a \<in> set answers. a \<noteq> []"
  shows "(st = Confirmed \<longrightarrow> posted \<noteq> None \<and> (\<exists>a. answer = Some a \<and> response_ok a)) \<and>
    (\<forall>body. posted = Some body \<longrightarrow>
       (\<exists>s f entries. v2_session dir sid session_answer = Inr s \<and> hs_id s = sid \<and> hs_directory s = dir \<and>
          form = Inr (f, js ''pending'') \<and> body = JObject [(js ''answer'', JObject entries)] \<and>
          map fst entries = map vf_key (form_fields f) \<and> length answers = length (form_fields f) \<and>
          (\<forall>i < length answers. read_answer (map_of (rev entries) (vf_key (form_fields f ! i))) = Some (answers ! i))))"
proof -
  note posts = v2_command_posts [OF assms(1) [unfolded v2_answer_def]]
  have "\<exists>s f entries. v2_session dir sid session_answer = Inr s \<and> hs_id s = sid \<and> hs_directory s = dir \<and>
          form = Inr (f, js ''pending'') \<and> body = JObject [(js ''answer'', JObject entries)] \<and>
          map fst entries = map vf_key (form_fields f) \<and> length answers = length (form_fields f) \<and>
          (\<forall>i < length answers. read_answer (map_of (rev entries) (vf_key (form_fields f ! i))) = Some (answers ! i))"
    if "posted = Some body" for body
  proof -
    from posts(1) [OF that] obtain s f where s: "v2_session dir sid session_answer = Inr s"
      and f: "form = Inr (f, js ''pending'')" and load: "answer_payload f answers = Inr body"
      by (auto split: sum.splits if_splits)
    show ?thesis using answer_payload_reads [OF load assms(2)] v2_session_in_directory [OF s] s f by auto
  qed
  then show ?thesis using posts(2) by blast
qed

definition sample_form :: v2_form where
  "sample_form =
     \<lparr>form_id = js ''f'', form_sessionID = js ''s'', form_kind = Some (js ''question''), form_tool = None,
      form_fields =
        [\<lparr>vf_key = js ''q0'', vf_type = js ''multiselect'', vf_title = None, vf_description = Some (js ''which?''), vf_custom = None,
          vf_options = Some [\<lparr>vo_value = js ''a'', vo_label = js ''a'', vo_description = None\<rparr>]\<rparr>]\<rparr>"

definition sample_session_answer :: http_answer where
  "sample_session_answer =
     \<lparr>ha_status = 200,
      ha_body = Some (JObject [(js ''data'', JObject [(js ''id'', JString (js ''s'')),
        (js ''location'', JObject [(js ''directory'', JString (js ''/d''))]), (js ''time'', JObject [(js ''updated'', JNumber (Finite 0))])])]),
      ha_cancels = True\<rparr>"

lemma decimal_0: "js ''q'' @ decimal 0 = js ''q0''"
  by (simp add: decimal.simps digit_def js_def)

lemma sample_form_json: "\<exists>q. questionFromForm sample_form = Some q"
  by (simp add: questionFromForm_def sample_form_def question_field_def decimal_0)

definition sample_form_source :: pending_source where
  "sample_form_source =
     \<lparr>src_instanceId = js ''i'', src_machine = js ''h'', src_project = js ''p'', src_directory = js ''/d''\<rparr>"

lemma form_views_agree_witness:
  "\<exists>q qs ia. questionFromForm sample_form = Some q \<and>
     normalizeEvent (asked_event q) = Some (QuestionAsked (js ''s'') (js ''f'') qs) \<and>
     mapQuestion (\<lambda>_. None) sample_form_source q = Some ia"
proof -
  obtain q where "questionFromForm sample_form = Some q" using sample_form_json by blast
  with form_views_agree [of sample_form q "\<lambda>_. None" sample_form_source] show ?thesis by (fastforce simp: sample_form_def)
qed

lemma sample_session: "\<exists>s. v2_session (js ''/d'') (js ''s'') (Some sample_session_answer) = Inr s"
  by (simp add: v2_session_def v2_json_def sample_session_answer_def response_ok_def hostSession_def sub_field_def json_reads)

lemma sample_answer:
  "\<exists>body. v2_answer (js ''/d'') (js ''s'') (Some sample_session_answer) (Inr (sample_form, js ''pending'')) [[js ''a'', js ''b'']]
     (Some sample_session_answer) = (Confirmed, Some body)"
proof -
  obtain q where "questionFromForm sample_form = Some q" using sample_form_json by blast
  moreover obtain s where "v2_session (js ''/d'') (js ''s'') (Some sample_session_answer) = Inr s" using sample_session by blast
  moreover have "form_fields sample_form \<noteq> []" "length (form_fields sample_form) = 1"
    "\<forall>f \<in> set (form_fields sample_form). vf_type f \<noteq> js ''string''" by (simp_all add: sample_form_def)
  ultimately show ?thesis
    by (simp add: v2_answer_def v2_command_def answer_payload_def length_Suc_conv)
       (auto simp: sample_session_answer_def response_ok_def)
qed

lemma v2_answer_delivered_witness:
  "\<exists>body entries.
     v2_answer (js ''/d'') (js ''s'') (Some sample_session_answer) (Inr (sample_form, js ''pending'')) [[js ''a'', js ''b'']]
       (Some sample_session_answer) = (Confirmed, Some body) \<and>
     body = JObject [(js ''answer'', JObject entries)] \<and>
     read_answer (map_of (rev entries) (js ''q0'')) = Some [js ''a'', js ''b'']"
proof -
  obtain body where b: "v2_answer (js ''/d'') (js ''s'') (Some sample_session_answer) (Inr (sample_form, js ''pending''))
      [[js ''a'', js ''b'']] (Some sample_session_answer) = (Confirmed, Some body)" using sample_answer by blast
  from v2_answer_delivered [OF b] obtain entries where "body = JObject [(js ''answer'', JObject entries)]"
    "read_answer (map_of (rev entries) (vf_key (form_fields sample_form ! 0))) = Some [js ''a'', js ''b'']" by auto
  then show ?thesis using b by (intro exI [of _ body] exI [of _ entries]) (simp add: sample_form_def)
qed

end
