(* ===== verification/V2Events.thy ===== *)
theory V2Events
  imports V2Host
begin

section \<open>Events of the second generation\<close>

text \<open>
  \<open>v2.ts\<close>: the host's event stream of the second generation is translated, one event at a time, into the
  events of the first that the pipeline consumes. The state is the map of the sessions seen; the answer of
  the host to a session lookup, the form behind a value and the text of a template literal are arguments.
\<close>

record v2_event =
  ve_type :: jstr
  ve_data :: "json option"
  ve_location :: "jstr option"  \<comment> \<open>\<open>event.location?.directory\<close>\<close>

record v2_runtime =
  rt_directory :: jstr
  rt_form :: "json \<Rightarrow> v2_form option"  \<comment> \<open>\<open>None\<close>: reading the value as a form throws\<close>
  rt_text :: "json option \<Rightarrow> jstr"  \<comment> \<open>\<open>`${v}`\<close>\<close>

type_synonym seen = "(jstr, json) jsmap"

text \<open>An object literal; a property whose value is \<open>undefined\<close> is left out.\<close>

definition literal :: "(string \<times> json option) list \<Rightarrow> json" where
  "literal ps = JObject (List.map_filter (\<lambda>(k, v). map_option (Pair (js k)) v) ps)"

definition v1_event :: "string \<Rightarrow> json \<Rightarrow> json" where
  "v1_event t p = JObject [(js ''type'', JString (js t)), (js ''properties'', p)]"

text \<open>\<open>getSession\<close>: the session as the pipeline sees it, or nothing when it throws.\<close>

definition with_title :: "json \<Rightarrow> listed_session \<Rightarrow> json" where
  "with_title raw s =
     (case raw of
        JObject ps \<Rightarrow> JObject (ps @ [(js ''title'', JString (hs_title s)), (js ''directory'', JString (hs_directory s))])
      | _ \<Rightarrow> raw)"

definition getSession :: "v2_runtime \<Rightarrow> jstr \<Rightarrow> json option \<Rightarrow> json option" where
  "getSession R sid answer =
     (case answer of
        None \<Rightarrow> None
      | Some raw \<Rightarrow>
          (case hostSession raw of
             None \<Rightarrow> None
           | Some s \<Rightarrow> if hs_id s \<noteq> sid \<or> hs_directory s \<noteq> rt_directory R then None else Some (with_title raw s)))"

definition refreshing :: "jstr list" where
  "refreshing = map js [''session.created'', ''session.renamed'', ''session.moved'', ''session.forked'', ''session.metadata.updated'']"

definition seen_title :: "seen \<Rightarrow> jstr \<Rightarrow> json" where
  "seen_title m sid =
     (case map_get m sid of
        None \<Rightarrow> JString []
      | Some s \<Rightarrow> (case field s ''title'' of Some t \<Rightarrow> if t = JNull then JString [] else t | None \<Rightarrow> JString []))"

definition retry_text :: "json \<Rightarrow> json" where
  "retry_text data =
     (case sub_field data ''error'' ''message'' of Some v \<Rightarrow> if v = JNull then JString [] else v | None \<Rightarrow> JString [])"

definition status_event :: "json option \<Rightarrow> json \<Rightarrow> json" where
  "status_event sid st = v1_event ''session.status'' (literal [(''sessionID'', sid), (''status'', Some st)])"

definition error_event :: "json option \<Rightarrow> string \<Rightarrow> json" where
  "error_event sid name =
     v1_event ''session.error'' (literal [(''sessionID'', sid), (''error'', Some (literal [(''name'', Some (JString (js name)))]))])"

definition permission_properties :: "json \<Rightarrow> json" where
  "permission_properties data =
     (case data of
        JObject ps \<Rightarrow>
          (case literal [(''permission'', field data ''action''), (''patterns'', field data ''resources'')] of
             JObject qs \<Rightarrow> JObject (filter (\<lambda>(k, v). k \<noteq> js ''permission'' \<and> k \<noteq> js ''patterns'') ps @ qs) | v \<Rightarrow> v)
      | v \<Rightarrow> v)"

text \<open>The emitted events and the new map; \<open>None\<close> when the translation throws, which is logged.\<close>

definition translate_session :: "v2_runtime \<Rightarrow> json option \<Rightarrow> jstr \<Rightarrow> json \<Rightarrow> jstr \<Rightarrow> seen \<Rightarrow> (json list \<times> seen) option" where
  "translate_session R answer t data sid m =
     (let target = asString (sub_field data ''location'' ''directory'') in
      if t = js ''session.moved'' \<and> target \<noteq> None \<and> target \<noteq> Some [] \<and> target \<noteq> Some (rt_directory R)
      then (case map_get m sid of
              None \<Rightarrow> Some ([], m)
            | Some s \<Rightarrow> Some ([v1_event ''session.deleted'' (literal [(''info'', Some s)])], map_delete sid m))
      else case getSession R sid answer of
             None \<Rightarrow> None
           | Some s \<Rightarrow> Some ([v1_event ''session.updated'' (literal [(''info'', Some s)])], map_set sid s m))"

definition translate :: "v2_runtime \<Rightarrow> json option \<Rightarrow> jstr \<Rightarrow> json \<Rightarrow> seen \<Rightarrow> (json list \<times> seen) option" where
  "translate R answer t data m =
     (let sid = asString (field data ''sessionID'');
          sj = map_option JString sid;
          kind = (\<lambda>name. literal [(''type'', Some (JString (js name)))])
      in
      if t \<in> set refreshing \<and> sid \<noteq> None \<and> sid \<noteq> Some [] then translate_session R answer t data (the sid) m
      else if t = js ''session.deleted'' \<and> sid \<noteq> None \<and> sid \<noteq> Some [] then
        Some ([v1_event ''session.deleted'' (literal [(''info'', Some (literal
                 [(''id'', sj), (''directory'', Some (JString (rt_directory R))), (''title'', Some (seen_title m (the sid)))]))])],
              map_delete (the sid) m)
      else if t = js ''session.status'' then Some ([v1_event ''session.status'' data], m)
      else if t = js ''session.retry.scheduled'' then
        Some ([status_event sj (literal
                 [(''type'', Some (JString (js ''retry''))), (''attempt'', field data ''attempt''), (''next'', field data ''at''),
                  (''message'', Some (retry_text data))])], m)
      else if t = js ''session.step.started'' then Some ([status_event sj (kind ''busy'')], m)
      else if t = js ''session.execution.started'' then Some ([status_event sj (kind ''busy'')], m)
      else if t = js ''session.execution.succeeded'' then Some ([status_event sj (kind ''idle'')], m)
      else if t = js ''session.execution.failed'' then Some ([error_event sj ''V2ExecutionError''], m)
      else if t = js ''session.execution.interrupted'' then Some ([error_event sj ''MessageAbortedError''], m)
      else if t = js ''session.text.ended'' then
        Some ([v1_event ''message.updated'' (literal [(''info'', Some (literal
                 [(''id'', field data ''assistantMessageID''), (''sessionID'', sj), (''role'', Some (JString (js ''assistant'')))]))]),
               v1_event ''message.part.updated'' (literal [(''part'', Some (literal
                 [(''id'', Some (JString (rt_text R (field data ''assistantMessageID'') @ js '':'' @ rt_text R (field data ''ordinal'')))),
                  (''messageID'', field data ''assistantMessageID''), (''sessionID'', sj), (''type'', Some (JString (js ''text''))),
                  (''text'', field data ''text'')]))])], m)
      else if t = js ''form.created'' then
        (case Option.bind (field data ''form'') (rt_form R) of
           None \<Rightarrow> None
         | Some form \<Rightarrow> Some (case questionFromForm form of None \<Rightarrow> [] | Some q \<Rightarrow> [v1_event ''question.asked'' q], m))
      else if t = js ''form.replied'' \<or> t = js ''form.cancelled'' then
        Some ([v1_event ''question.replied'' (literal [(''sessionID'', sj), (''requestID'', field data ''id'')])], m)
      else if t = js ''permission.asked'' then Some ([v1_event ''permission.asked'' (permission_properties data)], m)
      else if t = js ''permission.replied'' then Some ([v1_event ''permission.replied'' data], m)
      else Some ([], m))"

definition v2_turn :: "v2_runtime \<Rightarrow> json option \<Rightarrow> v2_event \<Rightarrow> seen \<Rightarrow> json list \<times> seen" where
  "v2_turn R answer e m =
     (case ve_data e of
        None \<Rightarrow> ([], m)
      | Some data \<Rightarrow>
          if ve_location e \<noteq> None \<and> ve_location e \<noteq> Some (rt_directory R) \<and> ve_type e \<noteq> js ''session.moved'' then ([], m)
          else (case translate R answer (ve_type e) data m of None \<Rightarrow> ([], m) | Some r \<Rightarrow> r))"

subsection \<open>The stream and the lookups\<close>

text \<open>
  What happens to the map: an event of the stream, a lookup by the pipeline, a list for its discovery.
\<close>

datatype v2_input =
    Streamed v2_event "json option"
  | LookedUp jstr "json option"
  | Paged "json list"

definition page_seen :: "v2_runtime \<Rightarrow> json list \<Rightarrow> seen \<Rightarrow> seen" where
  "page_seen R raws m =
     (if list_ex (\<lambda>v. hostSession v = None) raws then m
      else fold (\<lambda>v m. let s = the (hostSession v) in
                       if hs_directory s = rt_directory R then map_set (hs_id s) (with_title v s) m else m) raws m)"

fun v2_step :: "v2_runtime \<Rightarrow> v2_input \<Rightarrow> seen \<Rightarrow> json list \<times> seen" where
  "v2_step R (Streamed e answer) m = v2_turn R answer e m"
| "v2_step R (LookedUp sid answer) m =
     ([], case getSession R sid answer of None \<Rightarrow> m | Some s \<Rightarrow> map_set sid s m)"
| "v2_step R (Paged raws) m = ([], page_seen R raws m)"

definition v2_emitted :: "v2_runtime \<Rightarrow> v2_input list \<Rightarrow> json list" where
  "v2_emitted R steps = fst (fold (\<lambda>st (out, m). let (es, m') = v2_step R st m in (out @ es, m')) steps ([], []))"

subsection \<open>What the pipeline is told\<close>

lemma literal_record [simp]: "isRecord (literal ps)"
  by (simp add: literal_def isRecord_def)

definition defined :: "(string \<times> json option) list \<Rightarrow> (jstr \<times> json) list" where
  "defined ps = List.map_filter (\<lambda>(k, v). map_option (Pair (js k)) v) ps"

lemma defined_simps [simp]:
  "defined [] = []" "defined ((k, v) # ps) = (case v of None \<Rightarrow> defined ps | Some w \<Rightarrow> (js k, w) # defined ps)"
  by (simp_all add: defined_def List.map_filter_simps split: option.split)

lemma defined_keys: "(js k, w) \<in> set (defined ps) \<Longrightarrow> k \<in> fst ` set ps"
  by (induction ps) (auto split: option.splits)

lemma distinct_defined: "distinct (map fst ps) \<Longrightarrow> distinct (map fst (defined ps))"
proof (induction ps)
  case (Cons p ps)
  have "js (fst p) \<notin> fst ` set (defined ps)" using Cons.prems by (force dest: defined_keys)
  with Cons show ?case by (cases p) (simp split: option.split)
qed simp

lemma literal_field:
  assumes "distinct (map fst ps)"
  shows "field (literal ps) k = (case map_of ps k of None \<Rightarrow> None | Some v \<Rightarrow> v)"
proof -
  have "map_of (defined ps) (js k) = (case map_of ps k of None \<Rightarrow> None | Some v \<Rightarrow> v)"
    using assms
  proof (induction ps)
    case (Cons p ps)
    have "map_of (defined ps) (js (fst p)) = None"
      using Cons.prems defined_keys [of "fst p" _ ps] by (auto simp: map_of_eq_None_iff)
    with Cons show ?case by (cases p) (auto split: option.split)
  qed simp
  moreover have "map_of (rev (defined ps)) = map_of (defined ps)"
    using distinct_defined [OF assms] by (intro map_of_inject_set [THEN iffD2]) (simp_all add: rev_map [symmetric])
  ultimately show ?thesis by (simp add: field_def literal_def defined_def)
qed

lemma v1_event_reads:
  "field (v1_event t p) ''type'' = Some (JString (js t))" "field (v1_event t p) ''properties'' = Some p"
  by (simp_all add: v1_event_def field_def)

definition told :: "v2_runtime \<Rightarrow> string \<Rightarrow> json \<Rightarrow> seen \<Rightarrow> normalized_event option list" where
  "told R t data m =
     map normalizeEvent (fst (v2_turn R None \<lparr>ve_type = js t, ve_data = Some data, ve_location = None\<rparr> m))"

lemmas told_simps = told_def v2_turn_def translate_def refreshing_def status_event_def error_event_def
  normalizeEvent_def v1_event_reads asRecord_def literal_field asString_def

lemma status_told:
  assumes "asNonEmptyString (field data ''sessionID'') = Some sid"
  shows "told R ''session.execution.started'' data m = [Some (SessionStatus sid BusyStatus None)]"
    and "told R ''session.step.started'' data m = [Some (SessionStatus sid BusyStatus None)]"
    and "told R ''session.execution.succeeded'' data m = [Some (SessionStatus sid IdleStatus None)]"
  using assms asNonEmptyString_asString [OF assms] asNonEmptyString_nonempty [OF assms]
  by (simp_all add: told_simps Let_def normalizeSessionStatus_def asNonEmptyString_def asString_def)

lemma error_told:
  assumes "asNonEmptyString (field data ''sessionID'') = Some sid"
  shows "told R ''session.execution.failed'' data m = [Some (SessionError (Some sid) FailedOutcome)]"
    and "told R ''session.execution.interrupted'' data m = [Some (SessionError (Some sid) StoppedOutcome)]"
  using assms asNonEmptyString_asString [OF assms] asNonEmptyString_nonempty [OF assms]
  by (simp_all add: told_simps Let_def normalizeSessionError_def errorOutcome_def ABORT_ERROR_NAMES_def
      asNonEmptyString_def asString_def)

lemma text_told:
  assumes "asNonEmptyString (field data ''sessionID'') = Some sid"
    and "asNonEmptyString (field data ''assistantMessageID'') = Some mid" "asString (field data ''text'') = Some t"
  shows "told R ''session.text.ended'' data m =
    [Some (MessageRole sid mid AssistantRole None),
     Some (MessageText sid mid (rt_text R (field data ''assistantMessageID'') @ js '':'' @ rt_text R (field data ''ordinal'')) t)]"
proof -
  have "asNonEmptyString (Some (JString (rt_text R (field data ''assistantMessageID'') @ js '':'' @ rt_text R (field data ''ordinal'')))) =
      Some (rt_text R (field data ''assistantMessageID'') @ js '':'' @ rt_text R (field data ''ordinal''))"
    by (simp add: asNonEmptyString_def)
  moreover have "asNonEmptyString (Some (JString sid)) = Some sid"
    using asNonEmptyString_nonempty [OF assms(1)] by (simp add: asNonEmptyString_def)
  moreover have "field data ''assistantMessageID'' = Some (JString mid)" "field data ''text'' = Some (JString t)"
    using assms(2,3) by (auto simp: asNonEmptyString_def asString_def split: option.splits json.splits if_splits)
  ultimately show ?thesis
    using assms asNonEmptyString_asString [OF assms(1)]
    by (simp add: told_simps Let_def normalizeMessage_def normalizeMessagePart_def)
qed

text \<open>
  The pipeline is told of a session's execution what the host's stream says: the start of an execution
  or of a step as busy, a success as idle, a failure as failed and an interruption as stopped; and the end
  of a text as a message of the assistant with this text, in this order and under one message id.
\<close>

theorem v2_stream_meaning:
  assumes "asNonEmptyString (field data ''sessionID'') = Some sid"
    and "asNonEmptyString (field data ''assistantMessageID'') = Some mid" "asString (field data ''text'') = Some t"
  shows "told R ''session.execution.started'' data m = [Some (SessionStatus sid BusyStatus None)] \<and>
    told R ''session.step.started'' data m = [Some (SessionStatus sid BusyStatus None)] \<and>
    told R ''session.execution.succeeded'' data m = [Some (SessionStatus sid IdleStatus None)] \<and>
    told R ''session.execution.failed'' data m = [Some (SessionError (Some sid) FailedOutcome)] \<and>
    told R ''session.execution.interrupted'' data m = [Some (SessionError (Some sid) StoppedOutcome)] \<and>
    (\<exists>part. told R ''session.text.ended'' data m =
       [Some (MessageRole sid mid AssistantRole None), Some (MessageText sid mid part t)])"
  using status_told [OF assms(1)] error_told [OF assms(1)] text_told [OF assms] by blast

subsection \<open>Only sessions of the plugin's directory\<close>

definition own_info :: "v2_runtime \<Rightarrow> json \<Rightarrow> bool" where
  "own_info R ev =
     (case normalizeEvent ev of
        Some (SessionUpsert f) \<Rightarrow> sf_directory f = Some (rt_directory R)
      | Some (SessionDeleted f) \<Rightarrow> sf_directory f = Some (rt_directory R)
      | _ \<Rightarrow> True)"

definition own_session :: "v2_runtime \<Rightarrow> json \<Rightarrow> bool" where
  "own_session R s \<longleftrightarrow> isRecord s \<and> field s ''directory'' = Some (JString (rt_directory R))"

definition seen_ok :: "v2_runtime \<Rightarrow> seen \<Rightarrow> bool" where
  "seen_ok R m \<longleftrightarrow> (\<forall>k s. map_get m k = Some s \<longrightarrow> own_session R s)"

lemma upsert_directory:
  assumes "own_session R s" "normalizeSessionUpsert (literal [(''info'', Some s)]) = Some f"
  shows "sf_directory f = Some (rt_directory R)"
proof -
  have "readSessionInfo (literal [(''info'', Some s)]) = Some s"
    using assms(1) by (simp add: readSessionInfo_def asRecord_def literal_field own_session_def)
  moreover have "asString (field s ''directory'') = Some (rt_directory R)"
    using assms(1) by (simp add: own_session_def asString_def)
  ultimately show ?thesis using assms(2) by (auto simp: normalizeSessionUpsert_def split: option.splits)
qed

lemma session_events:
  "normalizeEvent (v1_event ''session.updated'' (literal ps)) = map_option SessionUpsert (normalizeSessionUpsert (literal ps))"
  "normalizeEvent (v1_event ''session.deleted'' (literal ps)) = map_option SessionDeleted (normalizeSessionUpsert (literal ps))"
  by (simp_all add: normalizeEvent_def v1_event_reads asString_def asRecord_def)

lemma own_info_event:
  "own_session R s \<Longrightarrow> own_info R (v1_event ''session.updated'' (literal [(''info'', Some s)]))"
  "own_session R s \<Longrightarrow> own_info R (v1_event ''session.deleted'' (literal [(''info'', Some s)]))"
  using upsert_directory [of R s] by (auto simp: own_info_def session_events split: option.split)

text \<open>Events of the other kinds carry no session.\<close>

definition no_info :: "normalized_event option \<Rightarrow> bool" where
  "no_info n = (case n of Some (SessionUpsert f) \<Rightarrow> False | Some (SessionDeleted f) \<Rightarrow> False | _ \<Rightarrow> True)"

lemma no_info_kinds:
  "no_info (normalizeSessionStatus p)" "no_info (normalizeSessionIdle p)" "no_info (Some (normalizeSessionError p))"
  "no_info (normalizeMessage p)" "no_info (normalizeMessagePart p)" "no_info (normalizeQuestionAsked p)"
  "no_info (normalizePermissionAsked p)" "no_info (normalizeResolved QuestionResolved p)"
  "no_info (normalizeResolved PermissionResolved p)" "no_info None"
  by (auto simp: no_info_def normalizeSessionStatus_def normalizeSessionIdle_def normalizeSessionError_def normalizeMessage_def
      normalizeMessagePart_def normalizeQuestionAsked_def normalizeResolved_def normalizePermissionAsked_def Let_def
      split: option.split json.split)

lemma other_no_info:
  assumes "t \<notin> {''session.created'', ''session.updated'', ''session.deleted''}"
  shows "no_info (normalizeEvent (v1_event t p))"
  using assms no_info_kinds by (simp add: normalizeEvent_def v1_event_reads asString_def split: option.split)

lemma own_other_event:
  "t \<notin> {''session.created'', ''session.updated'', ''session.deleted''} \<Longrightarrow> own_info R (v1_event t p)"
  using other_no_info [of t p] by (auto simp: own_info_def no_info_def split: option.split normalized_event.split)

lemma hostSession_object: "hostSession raw = Some s \<Longrightarrow> \<exists>ps. raw = JObject ps"
  by (cases raw) (auto simp: hostSession_def field_def asString_def)

lemma with_title_own: "hostSession raw = Some s \<Longrightarrow> hs_directory s = rt_directory R \<Longrightarrow> own_session R (with_title raw s)"
  by (auto simp: own_session_def with_title_def isRecord_def field_def dest!: hostSession_object)

lemma getSession_own: "getSession R sid answer = Some s \<Longrightarrow> own_session R s"
  by (auto simp: getSession_def with_title_own split: option.splits if_splits)

lemma seen_ok_set: "seen_ok R m \<Longrightarrow> own_session R s \<Longrightarrow> seen_ok R (map_set k s m)"
  by (simp add: seen_ok_def)

lemma seen_ok_delete: "seen_ok R m \<Longrightarrow> seen_ok R (map_delete k m)"
  by (simp add: seen_ok_def)

definition own_result :: "v2_runtime \<Rightarrow> (json list \<times> seen) option \<Rightarrow> bool" where
  "own_result R x = (case x of None \<Rightarrow> True | Some r \<Rightarrow> list_all (own_info R) (fst r) \<and> seen_ok R (snd r))"

lemma own_result_simps [simp]:
  "own_result R None" "own_result R (Some (es, m)) \<longleftrightarrow> list_all (own_info R) es \<and> seen_ok R m"
  by (simp_all add: own_result_def)

lemma own_result_if: "(c \<Longrightarrow> own_result R x) \<Longrightarrow> (\<not> c \<Longrightarrow> own_result R y) \<Longrightarrow> own_result R (if c then x else y)"
  by simp

lemma translate_session_own: "seen_ok R m \<Longrightarrow> own_result R (translate_session R answer t data sid m)"
  using getSession_own [of R sid answer]
  by (auto simp: translate_session_def Let_def own_info_event seen_ok_set seen_ok_delete split: option.split)
     (auto simp: seen_ok_def own_info_event)

lemma deleted_own:
  "own_info R (v1_event ''session.deleted'' (literal [(''info'', Some (literal
     [(''id'', a), (''directory'', Some (JString (rt_directory R))), (''title'', b)]))]))"
  by (rule own_info_event(2)) (simp add: own_session_def literal_field)

lemma translate_own: "seen_ok R m \<Longrightarrow> own_result R (translate R answer t data m)"
  unfolding translate_def Let_def
  by (intro own_result_if)
     (simp_all add: translate_session_own deleted_own own_other_event seen_ok_delete status_event_def error_event_def
       split: option.split)

lemma page_seen_ok: "seen_ok R m \<Longrightarrow> seen_ok R (page_seen R raws m)"
proof -
  have "seen_ok R (fold (\<lambda>v m. let s = the (hostSession v) in
                       if hs_directory s = rt_directory R then map_set (hs_id s) (with_title v s) m else m) raws m)"
    if "\<forall>v \<in> set raws. hostSession v \<noteq> None" "seen_ok R m"
    using that by (induction raws arbitrary: m) (auto simp: Let_def seen_ok_set with_title_own)
  then show "seen_ok R m \<Longrightarrow> seen_ok R (page_seen R raws m)" by (auto simp: page_seen_def list_ex_iff)
qed

lemma v2_turn_own:
  assumes "seen_ok R m"
  shows "list_all (own_info R) (fst (v2_turn R answer e m)) \<and> seen_ok R (snd (v2_turn R answer e m))"
proof -
  have "translate R answer t data m = Some r \<Longrightarrow> list_all (own_info R) (fst r) \<and> seen_ok R (snd r)" for t data r
    using translate_own [OF assms, of answer t data] by (simp add: own_result_def)
  then show ?thesis using assms by (fastforce simp: v2_turn_def split: option.split)
qed

lemma v2_step_own: "seen_ok R m \<Longrightarrow> list_all (own_info R) (fst (v2_step R st m)) \<and> seen_ok R (snd (v2_step R st m))"
  using v2_turn_own [of R m] getSession_own [of R]
  by (cases st) (auto simp: page_seen_ok seen_ok_set split: option.split)

text \<open>
  Whatever the host streams and answers, the session records in the translated events are of the plugin's
  directory: a session that is reported as created or changed has been fetched with this directory, and one
  that is reported as deleted carries it, also when it has been moved away. Events that name a session by its id
  only are passed on for any session; what becomes of them is the subject of the theory \<open>V2Pipeline\<close>.
\<close>

theorem v2_only_own_sessions: "list_all (own_info R) (v2_emitted R steps)"
proof -
  have "list_all (own_info R) (fst (fold (\<lambda>st (out, m). let (es, m') = v2_step R st m in (out @ es, m')) steps (out, m)))"
    if "list_all (own_info R) out" "seen_ok R m" for out m
    using that
  proof (induction steps arbitrary: out m)
    case (Cons st steps)
    then show ?case using v2_step_own [of R m st] by (simp add: case_prod_beta Let_def)
  qed simp
  then show ?thesis by (simp add: v2_emitted_def seen_ok_def)
qed

definition sample_v2_runtime :: v2_runtime where
  "sample_v2_runtime = \<lparr>rt_directory = js ''/d'', rt_form = (\<lambda>_. None), rt_text = (\<lambda>_. js ''0'')\<rparr>"

lemma v2_stream_meaning_witness:
  "\<exists>part. told sample_v2_runtime ''session.text.ended''
     (literal [(''sessionID'', Some (JString (js ''s''))), (''assistantMessageID'', Some (JString (js ''m''))),
               (''text'', Some (JString (js ''hi'')))]) [] =
     [Some (MessageRole (js ''s'') (js ''m'') AssistantRole None), Some (MessageText (js ''s'') (js ''m'') part (js ''hi''))]"
  by (rule v2_stream_meaning [THEN conjunct2, THEN conjunct2, THEN conjunct2, THEN conjunct2, THEN conjunct2])
     (simp_all add: literal_field asNonEmptyString_def asString_def)

end
