(* ===== verification/V2Pipeline.thy ===== *)
theory V2Pipeline
  imports V2Events PipelineProps
begin

section \<open>The pipeline under a host of the second generation\<close>

text \<open>
  How \<open>setupV2\<close> of \<open>v2.ts\<close> feeds the pipeline of \<open>index.ts\<close>: the translated events go to its event hook,
  \<open>getSession\<close> answers its ancestry lookups, and the pages of \<open>V2Api.sessions\<close> answer its discoveries,
  unfiltered. The locale \<open>session_gate\<close> is the contract between the two: what the pipeline is told of a main
  session, by whichever of the three ways, is of a set of admitted sessions. It is interpreted with the sessions
  that the host has described with the plugin's own directory.
\<close>

subsection \<open>The composition\<close>

text \<open>
  An event of the stream, with the answer to the lookup it may cause; the delivery of an emitted event to the hook
  (the events wait in \<open>vs_sent\<close>; that each is delivered once and in order is not used); the end of an ancestry lookup
  or of a list request, \<open>None\<close> when the host fails; and every other turn of the pipeline.
\<close>

datatype v2_action =
    Streams v2_event "json option"
  | Delivers nat
  | Looks jstr "json option"
  | Lists nat "json list option"
  | Turns turn

record v2_system =
  vs_seen :: seen
  vs_sent :: "json list"
  vs_hooks :: hooks

definition new_v2_system :: v2_system where
  "new_v2_system = \<lparr>vs_seen = [], vs_sent = [], vs_hooks = new_hooks\<rparr>"

text \<open>The client's \<open>get\<close> as \<open>setupV2\<close> builds it: \<open>{ data }\<close>, or a rejection.\<close>

definition v2_get :: "v2_runtime \<Rightarrow> jstr \<Rightarrow> json option \<Rightarrow> json option" where
  "v2_get R sid answer = map_option (\<lambda>s. literal [(''data'', Some s)]) (getSession R sid answer)"

text \<open>The client's \<open>list\<close>: the whole page, or a rejection when an entry is no session.\<close>

definition v2_list :: "json list option \<Rightarrow> host_session option list option" where
  "v2_list raws =
     Option.bind raws (\<lambda>vs. if list_ex (\<lambda>v. hostSession v = None) vs then None
       else Some (map (\<lambda>v. map_option host_session.truncate (hostSession v)) vs))"

fun pipeline_turn :: "turn \<Rightarrow> bool" where
  "pipeline_turn (HostEvent raw) = False"
| "pipeline_turn (AncestrySettled sid response) = False"
| "pipeline_turn (ListSettled d answer) = False"
| "pipeline_turn _ = True"

fun v2_system_step :: "v2_runtime \<Rightarrow> hook_setup \<Rightarrow> moment \<times> v2_action \<Rightarrow> v2_system \<Rightarrow> v2_system" where
  "v2_system_step R su (mo, Streams e answer) y =
     (let (es, m) = v2_turn R answer e (vs_seen y) in y\<lparr>vs_seen := m, vs_sent := vs_sent y @ es\<rparr>)"
| "v2_system_step R su (mo, Delivers i) y =
     (if i < length (vs_sent y) then y\<lparr>vs_hooks := hk_step su (mo, HostEvent (vs_sent y ! i)) (vs_hooks y)\<rparr> else y)"
| "v2_system_step R su (mo, Looks sid answer) y =
     y\<lparr>vs_seen := snd (v2_step R (LookedUp sid answer) (vs_seen y)),
       vs_hooks := hk_step su (mo, AncestrySettled sid (v2_get R sid answer)) (vs_hooks y)\<rparr>"
| "v2_system_step R su (mo, Lists d raws) y =
     y\<lparr>vs_seen := (case raws of None \<Rightarrow> vs_seen y | Some vs \<Rightarrow> page_seen R vs (vs_seen y)),
       vs_hooks := hk_step su (mo, ListSettled d (v2_list raws)) (vs_hooks y)\<rparr>"
| "v2_system_step R su (mo, Turns t) y =
     (if pipeline_turn t then y\<lparr>vs_hooks := hk_step su (mo, t) (vs_hooks y)\<rparr> else y)"

definition v2_run :: "v2_runtime \<Rightarrow> hook_setup \<Rightarrow> (moment \<times> v2_action) list \<Rightarrow> v2_system" where
  "v2_run R su acts = fold (v2_system_step R su) acts new_v2_system"

text \<open>The sessions that an answer of the host describes with the plugin's own directory.\<close>

definition own_ids :: "v2_runtime \<Rightarrow> json list \<Rightarrow> jstr list" where
  "own_ids R vs =
     List.map_filter (\<lambda>v. case hostSession v of
       None \<Rightarrow> None | Some s \<Rightarrow> if hs_directory s = rt_directory R then Some (hs_id s) else None) vs"

fun described :: "v2_runtime \<Rightarrow> v2_action \<Rightarrow> jstr list" where
  "described R (Streams e answer) = own_ids R (case answer of None \<Rightarrow> [] | Some v \<Rightarrow> [v])"
| "described R (Looks sid answer) = own_ids R (case answer of None \<Rightarrow> [] | Some v \<Rightarrow> [v])"
| "described R (Lists d raws) = own_ids R (case raws of None \<Rightarrow> [] | Some vs \<Rightarrow> vs)"
| "described R _ = []"

subsection \<open>Where the registry learns of main sessions\<close>

definition main_in :: "jstr set \<Rightarrow> SessionRegistry.registry \<Rightarrow> bool" where
  "main_in S r \<longleftrightarrow> (\<forall>s. known_main r s = Some True \<longrightarrow> s \<in> S)"

lemma main_in_inflight [simp]: "main_in S (r\<lparr>reg_inflight := f\<rparr>) = main_in S r"
  by (simp add: main_in_def)

lemma main_in_update: "main_in S r \<Longrightarrow> sid \<in> S \<or> archived \<Longrightarrow> main_in S (reg_update sid p t archived r)"
  by (auto simp: main_in_def known_update) (auto simp: reg_excluded_def reg_update_def Let_def)

lemma main_in_lookup: "main_in S r \<Longrightarrow> sid \<in> S \<Longrightarrow> main_in S (updateFromLookup sid p t a r)"
  by (simp add: updateFromLookup_def main_in_update)

lemma main_in_sessions: "main_in S r \<Longrightarrow> \<forall>s \<in> set ss. hs_id s \<in> S \<Longrightarrow> main_in S (fold record_session ss r)"
  by (induction ss arbitrary: r) (simp_all add: record_session_def main_in_lookup)

lemma main_in_resolve: "main_in S r \<Longrightarrow> l \<noteq> None \<Longrightarrow> sid \<in> S \<Longrightarrow> main_in S (fst (resolve sid l r))"
  by (auto simp: main_in_def resolve_def known_main_def Let_def split: option.splits if_splits)

lemma resolve_unknown [simp]: "fst (resolve sid None r) = r"
  by (simp add: resolve_def split: option.split)

lemma main_in_settled:
  assumes "main_in S r" "sdk_session sid response \<noteq> None \<longrightarrow> sid \<in> S"
  shows "main_in S (fst (lookup_settled sid response r))"
proof (cases "sdk_session sid response")
  case None
  with assms(1) show ?thesis by (auto simp: lookup_settled_def Let_def resolve_def split: option.split prod.split)
next
  case (Some i)
  let ?r = "updateFromLookup sid (info_parent i) (info_title i) (info_archived i) r"
  have "main_in S (fst (resolve sid (Some (info_parent i)) ?r))"
    using assms Some by (intro main_in_resolve main_in_lookup) simp_all
  with assms(1) Some show ?thesis by (simp add: lookup_settled_def case_prod_beta Let_def split: option.split)
qed

lemma main_in_isMain: "main_in S r \<Longrightarrow> main_in S (fst (isMain c sid r))"
  by (auto simp: isMain_def split: option.split)

lemma main_in_mono: "S \<subseteq> S' \<Longrightarrow> main_in S r \<Longrightarrow> main_in S' r"
  by (auto simp: main_in_def)

subsection \<open>The contract of the three ways\<close>

lemma perform_registry [simp]: "hk_registry (perform su mo op h) = hk_registry h"
proof -
  obtain m effs where st: "machine_step (su_sha su) (su_machine su) (mo_now mo) op (hk_machine h) = (m, effs)" by force
  show ?thesis using core_fields [OF perform_step(1) [OF st]] by simp
qed

lemma start_registry [simp]: "hk_registry (startControl su mo h) = hk_registry h"
  using core_fields [OF core_start] by blast

lemma dispatch_registry [simp]: "hk_registry (dispatch su mo n h) = hk_registry h"
  by (cases n) (auto simp: message_outcome_def Let_def split: option.split)

lemma emit_registry [simp]: "hk_registry (hk_emit e h) = hk_registry h"
  by (simp add: hk_emit_def)

lemma resume_registry [simp]: "hk_registry (resume_call su mo i h) = hk_registry h"
  by (auto simp: resume_call_def Let_def split: option.split bool.split)

lemma stop_empty_registry: "stop_empty su h = (h', w) \<Longrightarrow> hk_registry h' = hk_registry h"
  using core_fields [OF core_stop_empty] by blast

lemma fails_registry [simp]: "hk_registry (discovery_fails su mo h) = hk_registry h"
  by (simp add: discovery_fails_def)

lemma info_registry:
  "hk_registry (handle_session_info su mo f deleted h) = hk_registry h \<or>
   hk_registry (handle_session_info su mo f deleted h) =
     reg_update (sf_sessionID f) (sf_parentID f) (Some (sf_title f)) (deleted \<or> sf_archived f) (hk_registry h)"
  by (simp add: handle_session_info_def Let_def)

lemma listed_registry:
  "hk_registry (list_settled su mo d answer h) = hk_registry h \<or>
   (\<exists>found. answer = Some found \<and> (\<forall>s \<in> set found. s \<noteq> None \<and> hs_directory (the s) = su_directory su) \<and>
      hk_registry (list_settled su mo d answer h) = fold record_session (map the found) (hk_registry h))"
proof (cases "\<exists>revision limit found. map_get (hk_discoveries h) d = Some (Listing revision limit) \<and> answer = Some found \<and>
    \<not> list_ex (\<lambda>s. case s of None \<Rightarrow> True | Some x \<Rightarrow> hs_directory x \<noteq> su_directory su) found \<and>
    \<not> (hk_disposed h \<or> revision \<noteq> hk_revision h)")
  case False
  then show ?thesis by (auto simp: list_settled_def Let_def split: option.splits discovery.splits)
next
  case True
  then obtain revision limit found where a: "map_get (hk_discoveries h) d = Some (Listing revision limit)" "answer = Some found"
    "\<not> list_ex (\<lambda>s. case s of None \<Rightarrow> True | Some x \<Rightarrow> hs_directory x \<noteq> su_directory su) found"
    "\<not> (hk_disposed h \<or> revision \<noteq> hk_revision h)" by blast
  define r where "r = fold record_session (map the found) (hk_registry h)"
  define h2 where "h2 = h\<lparr>hk_discoveries := map_delete d (hk_discoveries h), hk_registry := r\<rparr>"
  obtain h3 w where h3: "stop_empty su h2 = (h3, w)" by force
  have "hk_registry h3 = r" using stop_empty_registry [OF h3] by (simp add: h2_def)
  then have "hk_registry (list_settled su mo d answer h) = r"
    using a h3 by (cases w) (simp_all add: list_settled_def Let_def r_def [symmetric] h2_def [symmetric], simp_all add: h2_def)
  moreover have "\<forall>s \<in> set found. s \<noteq> None \<and> hs_directory (the s) = su_directory su"
    using a(3) by (auto simp: list_ex_iff split: option.splits)
  ultimately show ?thesis using a(2) r_def by blast
qed

locale session_gate =
  fixes S :: "jstr set" and dir :: jstr and admits :: "turn \<Rightarrow> bool"
  assumes event_law: "admits (HostEvent raw) \<Longrightarrow> normalizeEvent raw = Some (SessionUpsert f) \<Longrightarrow> sf_sessionID f \<in> S"
    and lookup_law: "admits (AncestrySettled sid response) \<Longrightarrow> sdk_session sid response \<noteq> None \<Longrightarrow> sid \<in> S"
    and page_law: "admits (ListSettled d (Some found)) \<Longrightarrow> Some s \<in> set found \<Longrightarrow> hs_directory s = dir \<Longrightarrow> hs_id s \<in> S"
begin

lemma event_keeps:
  assumes "admits (HostEvent raw)" "main_in S (hk_registry h)"
  shows "main_in S (hk_registry (onEvent su mo raw h))"
proof (cases "normalizeEvent raw")
  case None
  with assms(2) show ?thesis by (simp add: onEvent_def)
next
  case (Some n)
  have info: "main_in S (hk_registry (handle_session_info su mo f deleted h))" if "sf_sessionID f \<in> S \<or> deleted" for f deleted
    using info_registry [of su mo f deleted h] main_in_update [OF assms(2)] assms(2) that by metis
  have await: "main_in S (hk_registry (await_ancestry sid n h))" for sid n
    using main_in_isMain [OF assms(2)] by (simp add: await_ancestry_def case_prod_beta)
  show ?thesis
    using Some assms event_law [OF assms(1)] info await
    by (cases n) (auto simp: onEvent_def split: option.split)
qed

lemma list_keeps:
  assumes "admits (ListSettled d answer)" "main_in S (hk_registry h)" "su_directory su = dir"
  shows "main_in S (hk_registry (list_settled su mo d answer h))"
  using listed_registry [of su mo d answer h]
proof
  assume "\<exists>found. answer = Some found \<and> (\<forall>s \<in> set found. s \<noteq> None \<and> hs_directory (the s) = su_directory su) \<and>
      hk_registry (list_settled su mo d answer h) = fold record_session (map the found) (hk_registry h)"
  then obtain found where f: "answer = Some found" "\<forall>s \<in> set found. s \<noteq> None \<and> hs_directory (the s) = su_directory su"
    "hk_registry (list_settled su mo d answer h) = fold record_session (map the found) (hk_registry h)" by blast
  have "\<forall>s \<in> set (map the found). hs_id s \<in> S"
    using f(1,2) assms(1,3) page_law by (fastforce simp: image_iff)
  with main_in_sessions [OF assms(2)] f(3) show ?thesis by metis
qed (use assms(2) in simp)

lemma turn_keeps:
  assumes "admits t" "main_in S (hk_registry h)" "su_directory su = dir"
  shows "main_in S (hk_registry (hk_step su (mo, t) h))"
proof (cases t)
  case (AncestrySettled sid response)
  have "main_in S (fst (lookup_settled sid response (hk_registry h)))"
    using assms(1,2) AncestrySettled lookup_law by (intro main_in_settled) auto
  with AncestrySettled show ?thesis by (simp add: ancestry_settled_def case_prod_beta)
qed (use assms event_keeps list_keeps in \<open>auto simp: begin_discovery_def control_stopped_def stop_settled_def
    dispose_begins_def dispose_flushes_def dispose_ends_def Let_def split: option.split discovery.split\<close>)

text \<open>So every event of an admitted history that reaches the pump is of an admitted session.\<close>

definition handed_in :: "hooks \<Rightarrow> bool" where
  "handed_in h \<longleftrightarrow> (\<forall>e. Handed e \<in> set (hk_out h) \<longrightarrow> session_id (Contracts.event_session e) \<in> S)"

lemma turn_handed:
  assumes "gate_inv su h" "handed_in h" "admits t" "main_in S (hk_registry h)" "su_directory su = dir"
  shows "handed_in (hk_step su (mo, t) h)"
proof -
  have m: "main_in S (hk_registry (hk_step su (mo, t) h))" by (rule turn_keeps) fact+
  from step_gated [OF assms(1), of "(mo, t)"] obtain es where es: "hk_out (hk_step su (mo, t) h) = hk_out h @ es"
    "\<And>e. Handed e \<in> set es \<Longrightarrow> known_main (hk_registry (hk_step su (mo, t) h)) (session_id (Contracts.event_session e)) = Some True"
    by (auto simp: gated_def extends_def valid_of_def)
  then show ?thesis using assms(2) m by (auto simp: handed_in_def main_in_def)
qed

end

subsection \<open>What the host's answers admit\<close>

text \<open>The turns that the host of the second generation causes, with answers that describe sessions of \<open>S\<close> only as own.\<close>

definition given :: "v2_runtime \<Rightarrow> jstr set \<Rightarrow> turn \<Rightarrow> bool" where
  "given R S t =
     (case t of
        HostEvent raw \<Rightarrow> \<exists>e answer m. raw \<in> set (fst (v2_turn R answer e m)) \<and> set (described R (Streams e answer)) \<subseteq> S
      | AncestrySettled sid response \<Rightarrow> \<exists>answer. response = v2_get R sid answer \<and> set (described R (Looks sid answer)) \<subseteq> S
      | ListSettled d found \<Rightarrow> \<exists>raws. found = v2_list raws \<and> set (described R (Lists d raws)) \<subseteq> S
      | _ \<Rightarrow> True)"

lemma own_ids_set:
  "set (own_ids R vs) = {hs_id s | v s. v \<in> set vs \<and> hostSession v = Some s \<and> hs_directory s = rt_directory R}"
  by (induction vs) (auto simp: own_ids_def List.map_filter_simps split: option.splits if_splits)

lemma hostSession_id: "hostSession raw = Some s \<Longrightarrow> field raw ''id'' = Some (JString (hs_id s))"
  by (auto simp: hostSession_def asString_def split: option.splits json.splits jsnum.splits)

lemma with_title_id: "hostSession raw = Some s \<Longrightarrow> field (with_title raw s) ''id'' = Some (JString (hs_id s))"
  using hostSession_id [of raw s] hostSession_object [of raw s] by (auto simp: with_title_def field_def)

text \<open>\<open>getSession\<close> gives the session it was asked for, and only when the host describes it as own.\<close>

lemma getSession_described:
  assumes "getSession R sid answer = Some s"
  shows "sid \<in> set (own_ids R (case answer of None \<Rightarrow> [] | Some v \<Rightarrow> [v]))" "field s ''id'' = Some (JString sid)" "isRecord s"
proof -
  from assms obtain raw x where a: "answer = Some raw" "hostSession raw = Some x" "hs_id x = sid"
    "hs_directory x = rt_directory R" "s = with_title raw x"
    by (auto simp: getSession_def split: option.splits if_splits)
  then show "sid \<in> set (own_ids R (case answer of None \<Rightarrow> [] | Some v \<Rightarrow> [v]))" "field s ''id'' = Some (JString sid)"
    using with_title_id [of raw x] by (auto simp: own_ids_set)
  show "isRecord s" using a with_title_own [of raw x R] by (simp add: own_session_def)
qed

lemma updated_id:
  assumes "isRecord s" "field s ''id'' = Some (JString sid)"
    and "normalizeEvent (v1_event ''session.updated'' (literal [(''info'', Some s)])) = Some (SessionUpsert f)"
  shows "sf_sessionID f = sid"
proof -
  have "readSessionInfo (literal [(''info'', Some s)]) = Some s"
    using assms(1) by (simp add: readSessionInfo_def asRecord_def literal_field)
  with assms(2,3) show ?thesis
    by (auto simp: session_events normalizeSessionUpsert_def asNonEmptyString_def split: option.splits if_splits)
qed

definition upserts_in :: "jstr set \<Rightarrow> json \<Rightarrow> bool" where
  "upserts_in S raw \<longleftrightarrow> (\<forall>f. normalizeEvent raw = Some (SessionUpsert f) \<longrightarrow> sf_sessionID f \<in> S)"

lemma upserts_other:
  "t \<notin> {''session.created'', ''session.updated''} \<Longrightarrow> upserts_in S (v1_event t p)"
proof (cases "t = ''session.deleted''")
  case True
  then show ?thesis by (auto simp: upserts_in_def normalizeEvent_def v1_event_reads asString_def split: option.splits)
next
  case False
  assume "t \<notin> {''session.created'', ''session.updated''}"
  with False other_no_info [of t p] show ?thesis by (auto simp: upserts_in_def no_info_def)
qed

lemma translated_upserts:
  assumes "translate R answer t data m = Some (es, m')" "set (own_ids R (case answer of None \<Rightarrow> [] | Some v \<Rightarrow> [v])) \<subseteq> S"
  shows "list_all (upserts_in S) es"
proof -
  have fetched: "upserts_in S (v1_event ''session.updated'' (literal [(''info'', Some s)]))"
    if "getSession R sid answer = Some s" for sid s
    using getSession_described [OF that] updated_id assms(2) by (auto simp: upserts_in_def)
  have session: "list_all (upserts_in S) es" if "translate_session R answer t data sid m = Some (es, m')" for sid
    using that fetched [of sid] upserts_other [of "''session.deleted''" S]
    by (auto simp: translate_session_def Let_def split: if_splits option.splits)
  show ?thesis
    using assms(1) session upserts_other [of _ S]
    by (auto simp: translate_def Let_def status_event_def error_event_def split: if_splits option.splits)
qed

interpretation own: session_gate S "rt_directory R" "given R S" for S R
proof
  fix raw f
  assume "given R S (HostEvent raw)" and f: "normalizeEvent raw = Some (SessionUpsert f)"
  then obtain e answer m where g: "raw \<in> set (fst (v2_turn R answer e m))"
    "set (own_ids R (case answer of None \<Rightarrow> [] | Some v \<Rightarrow> [v])) \<subseteq> S" by (auto simp: given_def)
  then obtain data es m' where "translate R answer (ve_type e) data m = Some (es, m')" "raw \<in> set es"
    by (auto simp: v2_turn_def split: option.splits if_splits)
  with translated_upserts [OF _ g(2)] f show "sf_sessionID f \<in> S" by (auto simp: list_all_iff upserts_in_def)
next
  fix sid response
  assume g: "given R S (AncestrySettled sid response)" and i: "sdk_session sid response \<noteq> None"
  from g obtain answer where a: "response = v2_get R sid answer"
    "set (own_ids R (case answer of None \<Rightarrow> [] | Some v \<Rightarrow> [v])) \<subseteq> S" by (auto simp: given_def)
  from i have "response \<noteq> None" by (cases response) (simp_all add: sdk_session_def)
  with a(1) obtain s where "getSession R sid answer = Some s" by (auto simp: v2_get_def)
  with a(2) getSession_described(1) show "sid \<in> S" by blast
next
  fix d found s
  assume "given R S (ListSettled d (Some found))" and s: "Some s \<in> set found" "hs_directory s = rt_directory R"
  then obtain raws where r: "v2_list raws = Some found" "set (own_ids R (case raws of None \<Rightarrow> [] | Some vs \<Rightarrow> vs)) \<subseteq> S"
    by (auto simp: given_def)
  then obtain vs v where v: "raws = Some vs" "v \<in> set vs" "Some s = map_option host_session.truncate (hostSession v)"
    using s(1) by (auto simp: v2_list_def split: bind_splits if_splits)
  then obtain x where "hostSession v = Some x" "s = host_session.truncate x" by (cases "hostSession v") auto
  with v r(2) s(2) show "hs_id s \<in> S" by (auto simp: own_ids_set host_session.defs)
qed

subsection \<open>No notification of another directory's session\<close>

definition system_ok :: "v2_runtime \<Rightarrow> hook_setup \<Rightarrow> jstr set \<Rightarrow> v2_system \<Rightarrow> bool" where
  "system_ok R su S y \<longleftrightarrow>
     gate_inv su (vs_hooks y) \<and> main_in S (hk_registry (vs_hooks y)) \<and> own.handed_in S (vs_hooks y) \<and>
     (\<forall>raw \<in> set (vs_sent y). given R S (HostEvent raw))"

lemma system_mono: "system_ok R su S y \<Longrightarrow> S \<subseteq> S' \<Longrightarrow> system_ok R su S' y"
  unfolding system_ok_def own.handed_in_def given_def using main_in_mono [of S S'] by (simp; blast)

lemma hooks_ok:
  assumes "system_ok R su S y" "given R S t" "su_directory su = rt_directory R"
  shows "gate_inv su (hk_step su (mo, t) (vs_hooks y)) \<and> main_in S (hk_registry (hk_step su (mo, t) (vs_hooks y))) \<and>
    own.handed_in S (hk_step su (mo, t) (vs_hooks y))"
  using assms own.turn_keeps [of R S t "vs_hooks y" su mo] own.turn_handed [of su "vs_hooks y" S R t mo]
    step_gated [of su "vs_hooks y" "(mo, t)"]
  by (auto simp: system_ok_def gated_def)

lemma system_step:
  assumes "system_ok R su S y" "set (described R act) \<subseteq> S" "su_directory su = rt_directory R"
  shows "system_ok R su S (v2_system_step R su (mo, act) y)"
proof (cases act)
  case (Streams e answer)
  have "given R S (HostEvent raw)" if "raw \<in> set (fst (v2_turn R answer e (vs_seen y)))" for raw
    using that assms(2) Streams unfolding given_def by auto
  with Streams assms(1) show ?thesis by (auto simp: system_ok_def case_prod_beta Let_def)
next
  case (Delivers i)
  with assms(1) hooks_ok [OF assms(1) _ assms(3), of "HostEvent (vs_sent y ! i)" mo] show ?thesis
    by (auto simp: system_ok_def)
next
  case (Looks sid answer)
  have "given R S (AncestrySettled sid (v2_get R sid answer))" using assms(2) Looks by (auto simp: given_def)
  from hooks_ok [OF assms(1) this assms(3), of mo] Looks assms(1) show ?thesis by (simp add: system_ok_def)
next
  case (Lists d raws)
  have "given R S (ListSettled d (v2_list raws))" using assms(2) Lists by (auto simp: given_def)
  from hooks_ok [OF assms(1) this assms(3), of mo] Lists assms(1) show ?thesis by (simp add: system_ok_def)
next
  case (Turns t)
  have "pipeline_turn t \<Longrightarrow> given R S t" by (cases t) (simp_all add: given_def)
  with hooks_ok [OF assms(1) _ assms(3), of t mo] Turns assms(1) show ?thesis by (auto simp: system_ok_def)
qed

lemma system_run:
  assumes "su_directory su = rt_directory R"
  shows "system_ok R su (set (concat (map (described R \<circ> snd) acts))) (v2_run R su acts)"
proof (induction acts rule: rev_induct)
  case Nil
  show ?case using gate_new by (simp add: v2_run_def new_v2_system_def system_ok_def own.handed_in_def main_in_def
      new_hooks_def newRegistry_def known_main_def)
next
  case (snoc x acts)
  let ?S = "set (concat (map (described R \<circ> snd) (acts @ [x])))"
  obtain mo act where x: "x = (mo, act)" by force
  have "system_ok R su ?S (v2_run R su acts)" by (rule system_mono [OF snoc]) auto
  from system_step [OF this _ assms, of act mo] show ?case by (simp add: v2_run_def x)
qed

text \<open>
  C12: Under a host of the second generation the plugin notifies of sessions of its own directory only. Over
  any history of stream events, deliveries to the hook in any order, ancestry lookups, session lists, timers and
  disposals, every event handed to the pump is of a session that the host has by then described with the
  plugin's own directory, in an answer to a lookup or in a list. The stream passes on events that only name a
  session, of whatever directory, and the list hands whole pages to the pipeline; such a session never becomes
  a known main session there.
\<close>

theorem v2_notifies_own_sessions:
  assumes "su_directory su = rt_directory R"
  shows "{session_id (Contracts.event_session e) | e. Handed e \<in> set (hk_out (vs_hooks (v2_run R su acts)))}
    \<subseteq> set (concat (map (described R \<circ> snd) acts))"
  using system_run [OF assms, of acts] by (auto simp: system_ok_def own.handed_in_def)

subsection \<open>A run\<close>

text \<open>
  A permission of the own session \<open>s1\<close>, whose ancestry the host answers, reaches the pump; that of a session which the
  host describes with another directory does not.
\<close>

definition sample_described :: "string \<Rightarrow> json" where
  "sample_described dir =
     JObject [(js ''id'', JString (js ''s1'')), (js ''title'', JString (js ''t'')),
              (js ''location'', JObject [(js ''directory'', JString (js dir))]),
              (js ''time'', JObject [(js ''updated'', JNumber (Finite 1))])]"

definition sample_permission_event :: v2_event where
  "sample_permission_event =
     \<lparr>ve_type = js ''permission.asked'',
      ve_data = Some (JObject [(js ''sessionID'', JString (js ''s1'')), (js ''id'', JString (js ''r1'')), (js ''action'', JString (js ''edit''))]),
      ve_location = None\<rparr>"

definition sample_actions :: "string \<Rightarrow> (moment \<times> v2_action) list" where
  "sample_actions dir =
     [(sample_moment, Streams sample_permission_event None), (sample_moment, Delivers 0),
      (sample_moment, Looks (js ''s1'') (Some (sample_described dir))), (sample_moment, Turns (Resumes 0))]"

definition own_runtime :: v2_runtime where
  "own_runtime = \<lparr>rt_directory = js ''/p'', rt_form = (\<lambda>_. None), rt_text = (\<lambda>_. [])\<rparr>"

lemma sample_described_ids:
  "own_ids own_runtime [sample_described ''/p''] = [js ''s1'']" "own_ids own_runtime [sample_described ''/q''] = []"
  by (simp_all add: own_ids_def List.map_filter_simps hostSession_def sub_field_def sample_described_def field_def asString_def
      own_runtime_def)

lemma sample_translated: "v2_turn own_runtime None sample_permission_event [] =
  ([v1_event ''permission.asked'' (JObject
     [(js ''sessionID'', JString (js ''s1'')), (js ''id'', JString (js ''r1'')), (js ''action'', JString (js ''edit'')),
      (js ''permission'', JString (js ''edit''))])], [])"
  by (simp add: v2_turn_def translate_def sample_permission_event_def refreshing_def permission_properties_def literal_def field_def List.map_filter_simps own_runtime_def Let_def asString_def)

lemma sample_asked: "normalizeEvent (v1_event ''permission.asked'' (JObject
     [(js ''sessionID'', JString (js ''s1'')), (js ''id'', JString (js ''r1'')), (js ''action'', JString (js ''edit'')),
      (js ''permission'', JString (js ''edit''))])) = Some (PermissionAsked (js ''s1'') (js ''r1'') (js ''edit'') (buildPermissionSummary (js ''edit'') None))"
  by (simp add: normalizeEvent_def v1_event_def normalizePermissionAsked_def or_else_def asString_def asRecord_def isRecord_def asNonEmptyString_def field_def)

lemma sample_looked_up: "sdk_session (js ''s1'') (v2_get own_runtime (js ''s1'') (Some (sample_described ''/p''))) =
  Some \<lparr>info_parent = None, info_title = Some (js ''t''), info_archived = False\<rparr>"
  by (simp add: sdk_session_def v2_get_def getSession_def hostSession_def with_title_def sample_described_def field_def sub_field_def asString_def own_runtime_def
   literal_def List.map_filter_simps isRecord_def asRecord_def positiveNumber_def Let_def)

lemma title_shown: "\<not> isInternalSession (Some (js ''t''))"
  by (simp add: isInternalSession_def js_def)

lemma sample_performed: "vs_hooks (v2_run own_runtime sample_setup (sample_actions ''/p'')) =
   perform sample_setup sample_moment (AskPermission (js ''s1'') (js ''r1'') (js ''edit'') (buildPermissionSummary (js ''edit'') None))
     (new_hooks\<lparr>hk_registry := \<lparr>reg_entries = [(js ''s1'', \<lparr>entry_parent = Some None, entry_title = Some (js ''t''), entry_excluded = Some False\<rparr>)],
                reg_inflight = []\<rparr>,
        hk_next := 1, hk_started := True, hk_wanted := True, hk_revision := Suc 0, hk_out := [ControlStarts]\<rparr>)"
  by (simp add: v2_run_def new_v2_system_def sample_actions_def sample_translated onEvent_def sample_asked await_ancestry_def isMain_def known_main_def new_hooks_def newRegistry_def
   ancestry_settled_def lookup_settled_def sample_looked_up updateFromLookup_def reg_update_def empty_entry_def title_shown resolve_def answer_call_def resume_call_def reg_excluded_def
   startControl_def sample_setup_def sample_moment_def hk_emit_def Let_def)

lemma own_permission_handed: "\<exists>e. hk_out (vs_hooks (v2_run own_runtime sample_setup (sample_actions ''/p''))) = [ControlStarts, Handed e]"
proof -
  let ?perm = "PermissionRequired (js ''s1'') (js ''r1'') (js ''edit'') (buildPermissionSummary (js ''edit'') None)"
  let ?title = "reg_title \<lparr>reg_entries = [(js ''s1'', \<lparr>entry_parent = Some None, entry_title = Some (js ''t''), entry_excluded = Some False\<rparr>)], reg_inflight = []\<rparr>"
  obtain t where "toISOString 1000 = Some t" using toISOString_total [of 1000] by auto
  then have "\<exists>e. envelope_of (su_formats sample_setup) (su_url_ok sample_setup) (su_factory sample_setup) (mo_seams sample_moment 0) ?title (summary default_cache)
      ?perm = Inr e"
    by (simp add: envelope_of_def permissionRequired_def buildPermissionSummary_def PERMISSION_SUMMARY_MAX_LENGTH_def Let_def List.map_filter_def cap_defs truncateMarked_def
      build_def finalize_def schema_defs sessionSection_def sample_setup_def sample_moment_def maxLength_def)
  then obtain e where "envelope_of (su_formats sample_setup) (su_url_ok sample_setup) (su_factory sample_setup) (mo_seams sample_moment 0) ?title (summary default_cache)
      ?perm = Inr e" by blast
  then show ?thesis unfolding sample_performed
    by (simp add: perform_def onPermissionAsked_def onAsked_def stateFor_def newMachine_def fresh_state_def machine_callback_def
      emit_built_def enqueueSafe_def hk_emit_def is_terminal_def new_hooks_def Let_def sample_moment_def modify_def)
qed

lemma v2_notifies_own_sessions_witness:
  "(\<exists>e. hk_out (vs_hooks (v2_run own_runtime sample_setup (sample_actions ''/p''))) = [ControlStarts, Handed e] \<and>
      session_id (Contracts.event_session e) = js ''s1'') \<and>
   {session_id (Contracts.event_session e) | e. Handed e \<in> set (hk_out (vs_hooks (v2_run own_runtime sample_setup (sample_actions ''/q''))))}
     = {}"
proof -
  have "su_directory sample_setup = rt_directory own_runtime" by (simp add: sample_setup_def own_runtime_def)
  note run = v2_notifies_own_sessions [OF this]
  have ids: "concat (map (described own_runtime \<circ> snd) (sample_actions dir)) = own_ids own_runtime [sample_described dir]" for dir
    by (simp add: sample_actions_def own_ids_def List.map_filter_simps)
  obtain e where "hk_out (vs_hooks (v2_run own_runtime sample_setup (sample_actions ''/p''))) = [ControlStarts, Handed e]"
    using own_permission_handed by blast
  with run [of "sample_actions ''/p''"] run [of "sample_actions ''/q''"] ids show ?thesis by (auto simp: sample_described_ids)
qed

end
