(* ===== verification/WebProxy.thy ===== *)
theory WebProxy
  imports ControlFrames
begin

section \<open>The web proxy of the plugin\<close>

text \<open>
  \<open>webui-proxy.ts\<close> and \<open>direct-fetch.ts\<close>: what a tunnel request of the gateway becomes at the local host,
  and the response frames of what the host answers. The URL parser, the codecs of node's \<open>Buffer\<close> and the
  response are arguments; the header list of the platform's \<open>Headers\<close> is modelled as the platform has it.
\<close>

subsection \<open>Header lists\<close>

type_synonym headers = "(jstr \<times> jstr) list"

text \<open>
  \<open>toLowerCase\<close>, as far as it gives ASCII: the letters and the Kelvin sign. Other units give none.
\<close>

definition lower_unit :: "16 word \<Rightarrow> 16 word" where
  "lower_unit u = (if 65 \<le> u \<and> u \<le> 90 then u + 32 else if u = 0x212A then 107 else u)"

definition lower :: "jstr \<Rightarrow> jstr" where
  "lower s = map lower_unit s"

definition token_unit :: "16 word \<Rightarrow> bool" where
  "token_unit u \<longleftrightarrow>
     48 \<le> u \<and> u \<le> 57 \<or> 65 \<le> u \<and> u \<le> 90 \<or> 97 \<le> u \<and> u \<le> 122 \<or>
     u \<in> {33, 35, 36, 37, 38, 39, 42, 43, 45, 46, 94, 95, 96, 124, 126}"

definition header_name :: "jstr \<Rightarrow> bool" where
  "header_name s \<longleftrightarrow> s \<noteq> [] \<and> list_all token_unit s"

definition http_space :: "16 word \<Rightarrow> bool" where
  "http_space u \<longleftrightarrow> u \<in> {9, 10, 13, 32}"

definition header_value :: "jstr \<Rightarrow> jstr option" where
  "header_value v =
     (let n = rev (dropWhile http_space (rev (dropWhile http_space v)))
      in if list_ex (\<lambda>u. 255 < u) v \<or> list_ex (\<lambda>u. u \<in> {0, 10, 13}) n then None else Some n)"

text \<open>\<open>append\<close> and \<open>set\<close>; \<open>None\<close> when they throw.\<close>

definition header_append :: "jstr \<Rightarrow> jstr \<Rightarrow> headers \<Rightarrow> headers option" where
  "header_append name v hs =
     (if \<not> header_name name then None else map_option (\<lambda>n. hs @ [(lower name, n)]) (header_value v))"

definition header_set :: "jstr \<Rightarrow> jstr \<Rightarrow> headers \<Rightarrow> headers option" where
  "header_set name v hs =
     (if \<not> header_name name then None
      else map_option (\<lambda>n. filter (\<lambda>(k, w). k \<noteq> lower name) hs @ [(lower name, n)]) (header_value v))"

subsection \<open>The request\<close>

record page_url =
  url_origin :: jstr
  url_path :: jstr
  url_params :: "(jstr \<times> jstr) list"

record web_proxy =
  wp_origin :: jstr
  wp_base :: jstr
  wp_directory :: jstr
  wp_second :: bool  \<comment> \<open>\<open>generation === 2\<close>\<close>

record platform =
  pf_resolve :: "jstr \<Rightarrow> page_url option"  \<comment> \<open>\<open>new URL(path, baseUrl)\<close>, \<open>None\<close> when it throws\<close>
  pf_decode :: "jstr \<Rightarrow> 8 word list"  \<comment> \<open>\<open>Buffer.from(s, "base64")\<close>\<close>
  pf_path_text :: "jstr \<Rightarrow> jstr"  \<comment> \<open>\<open>Buffer.from(s, "base64url").toString("utf8")\<close>\<close>
  pf_utf8 :: "jstr \<Rightarrow> 8 word list"
  pf_quote :: "jstr \<Rightarrow> jstr"  \<comment> \<open>\<open>JSON.stringify\<close> of a string\<close>

definition HOP_BY_HOP_HEADERS :: "jstr list" where
  "HOP_BY_HOP_HEADERS =
     map js [''connection'', ''keep-alive'', ''proxy-authenticate'', ''proxy-authorization'', ''te'', ''trailer'',
             ''transfer-encoding'', ''upgrade'']"

definition skipped_header :: "jstr \<Rightarrow> bool" where
  "skipped_header name \<longleftrightarrow>
     lower name \<in> set HOP_BY_HOP_HEADERS \<or>
     lower name \<in> {js ''host'', js ''origin'', js ''referer''} \<or> lower name = js ''accept-encoding''"

fun append_values :: "jstr \<Rightarrow> jstr list \<Rightarrow> headers \<Rightarrow> headers option" where
  "append_values name [] hs = Some hs"
| "append_values name (v # vs) hs = Option.bind (header_append name v hs) (append_values name vs)"

fun forward_headers :: "(jstr, jstr list) jsmap \<Rightarrow> headers \<Rightarrow> headers option" where
  "forward_headers [] hs = Some hs"
| "forward_headers ((name, vs) # rest) hs =
     (if skipped_header name then forward_headers rest hs
      else Option.bind (append_values name vs hs) (forward_headers rest))"

definition set_if :: "bool \<Rightarrow> string \<Rightarrow> jstr \<Rightarrow> headers \<Rightarrow> headers option" where
  "set_if c name v hs = (if c then header_set (js name) v hs else Some hs)"

definition request_headers :: "web_proxy \<Rightarrow> webui_request \<Rightarrow> headers option" where
  "request_headers P r =
     Option.bind (forward_headers (wr_headers r) [])
       (\<lambda>h1. Option.bind (set_if (map_has (wr_headers r) (js ''origin'')) ''origin'' (wp_origin P) h1)
         (\<lambda>h2. Option.bind (set_if (map_has (wr_headers r) (js ''referer'')) ''referer'' (wp_base P) h2)
           (set_if (\<not> wp_second P) ''x-opencode-directory'' (wp_directory P))))"

definition local_path :: "jstr \<Rightarrow> bool" where
  "local_path p \<longleftrightarrow> prefix (js ''/'') p \<and> \<not> prefix (js ''//'') p \<and> 92 \<notin> set p"

definition with_directory :: "web_proxy \<Rightarrow> page_url \<Rightarrow> page_url" where
  "with_directory P u =
     (if \<not> wp_second P \<and> \<not> list_ex (\<lambda>(k, v). k = js ''directory'') (url_params u) \<and> wp_directory P \<noteq> js ''unknown''
      then u\<lparr>url_params := url_params u @ [(js ''directory'', wp_directory P)]\<rparr> else u)"

text \<open>\<open>/^\/([A-Za-z0-9_-]+)\/session(?:\/(ses[A-Za-z0-9_-]+))?$/\<close>\<close>

definition word_unit :: "16 word \<Rightarrow> bool" where
  "word_unit u \<longleftrightarrow> 48 \<le> u \<and> u \<le> 57 \<or> 65 \<le> u \<and> u \<le> 90 \<or> 97 \<le> u \<and> u \<le> 122 \<or> u = 95 \<or> u = 45"

definition legacy_path :: "jstr \<Rightarrow> (jstr \<times> jstr option) option" where
  "legacy_path p =
     (case split_on (js ''/'') p of
        [e, a, s] \<Rightarrow>
          if e = [] \<and> a \<noteq> [] \<and> list_all word_unit a \<and> s = js ''session'' then Some (a, None) else None
      | [e, a, s, t] \<Rightarrow>
          if e = [] \<and> a \<noteq> [] \<and> list_all word_unit a \<and> s = js ''session'' \<and> prefix (js ''ses'') t \<and> 3 < length t \<and>
             list_all word_unit t
          then Some (a, Some t) else None
      | _ \<Rightarrow> None)"

record proxied =
  px_url :: page_url
  px_method :: jstr
  px_headers :: headers
  px_body :: "8 word list option"

datatype proxy_action = Redirects "jstr option" | Fetched proxied

text \<open>The request up to \<open>fetch\<close>; \<open>None\<close> when it throws, which ends the operation with an error.\<close>

definition proxy_request :: "platform \<Rightarrow> web_proxy \<Rightarrow> webui_request \<Rightarrow> proxy_action option" where
  "proxy_request F P r =
     (case pf_resolve F (wr_path r) of
        None \<Rightarrow> None
      | Some u \<Rightarrow>
          if \<not> local_path (wr_path r) \<or> url_origin u \<noteq> wp_origin P then None
          else
            (case (if wp_second P \<and> wr_method r = js ''GET'' then legacy_path (url_path u) else None) of
               Some (a, session) \<Rightarrow>
                 if pf_path_text F a = wp_directory P then Some (Redirects session)
                 else map_option (\<lambda>hs. Fetched \<lparr>px_url = with_directory P u, px_method = wr_method r, px_headers = hs,
                                               px_body = map_option (pf_decode F) (wr_body r)\<rparr>) (request_headers P r)
             | None \<Rightarrow>
                 map_option (\<lambda>hs. Fetched \<lparr>px_url = with_directory P u, px_method = wr_method r, px_headers = hs,
                                          px_body = map_option (pf_decode F) (wr_body r)\<rparr>) (request_headers P r)))"

subsection \<open>The response\<close>

datatype web_frame =
    FrameStart nat "(jstr, jstr list) jsmap"
  | FrameChunk "8 word list"
  | FrameEnd

definition MAX_CHUNK_BYTES :: nat where "MAX_CHUNK_BYTES = 450000"

text \<open>\<open>responseHeaders\<close>, over the pairs that \<open>forEach\<close> visits: names in lower case, each once but \<open>set-cookie\<close>.\<close>

definition kept_header :: "jstr \<Rightarrow> bool" where
  "kept_header name \<longleftrightarrow>
     lower name \<notin> set HOP_BY_HOP_HEADERS \<and> lower name \<noteq> js ''content-length'' \<and> lower name \<noteq> js ''content-encoding''"

definition responseHeaders :: "headers \<Rightarrow> (jstr, jstr list) jsmap" where
  "responseHeaders visited = fold (\<lambda>(name, v) m. if kept_header name then map_set name [v] m else m) visited []"

function chunked :: "8 word list \<Rightarrow> web_frame list" where
  "chunked bytes =
     (if bytes = [] then [] else FrameChunk (take MAX_CHUNK_BYTES bytes) # chunked (drop MAX_CHUNK_BYTES bytes))"
  by pat_completeness auto
termination
  by (relation "measure length") (auto simp: MAX_CHUNK_BYTES_def)

declare chunked.simps [simp del]

record host_response =
  hr_status :: nat
  hr_headers :: headers
  hr_reads :: "8 word list list option"  \<comment> \<open>\<open>None\<close>: there is no body\<close>
  hr_fails :: bool  \<comment> \<open>the last read rejects\<close>

text \<open>The frames, and whether the operation ends well.\<close>

definition relay :: "host_response \<Rightarrow> web_frame list \<times> bool" where
  "relay h =
     (let start = FrameStart (hr_status h) (responseHeaders (hr_headers h)) in
      case hr_reads h of
        None \<Rightarrow> ([start, FrameEnd], True)
      | Some reads \<Rightarrow>
          (start # concat (map chunked reads) @ (if hr_fails h then [] else [FrameEnd]), \<not> hr_fails h))"

definition quote_mark :: jstr where "quote_mark = [39]"

definition redirect_script :: "platform \<Rightarrow> jstr option \<Rightarrow> jstr" where
  "redirect_script F session =
     (case session of
        None \<Rightarrow> js ''location.replace('' @ quote_mark @ js ''/'' @ quote_mark @ js '');''
      | Some s \<Rightarrow>
          js ''const key=btoa(location.origin).replace(/'' @ [92] @ js ''+/g,'' @ quote_mark @ js ''-'' @ quote_mark @
          js '').replace(/'' @ [92] @ js ''//g,'' @ quote_mark @ js ''_'' @ quote_mark @ js '').replace(/=+$/,'' @
          quote_mark @ quote_mark @ js '');location.replace('' @ quote_mark @ js ''/server/'' @ quote_mark @ js ''+key+'' @
          quote_mark @ js ''/session/'' @ quote_mark @ js ''+'' @ pf_quote F s @ js '');'')"

definition redirect_frames :: "platform \<Rightarrow> jstr option \<Rightarrow> web_frame list" where
  "redirect_frames F session =
     [FrameStart 200 [(js ''content-type'', [js ''text/html; charset=utf-8'']), (js ''cache-control'', [js ''no-store''])],
      FrameChunk (pf_utf8 F (js ''<!doctype html><script>'' @ redirect_script F session @ js ''</script>'')),
      FrameEnd]"

text \<open>A whole request; \<open>answer\<close> is what \<open>fetch\<close> gives, \<open>None\<close> when it rejects.\<close>

definition proxy ::
    "platform \<Rightarrow> web_proxy \<Rightarrow> webui_request \<Rightarrow> (proxied \<Rightarrow> host_response option) \<Rightarrow> web_frame list \<times> bool" where
  "proxy F P r answer =
     (case proxy_request F P r of
        None \<Rightarrow> ([], False)
      | Some (Redirects session) \<Rightarrow> (redirect_frames F session, True)
      | Some (Fetched p) \<Rightarrow> (case answer p of None \<Rightarrow> ([], False) | Some h \<Rightarrow> relay h))"

subsection \<open>The direct connection\<close>

record fetch_parts =
  fp_url :: jstr
  fp_headers :: "(jstr, jstr) jsmap"

record credentials =
  cr_password :: "jstr option"
  cr_username :: "jstr option"

datatype route = DirectHttp | GlobalFetch

definition direct_fetch ::
    "(jstr \<Rightarrow> jstr) \<Rightarrow> (jstr \<Rightarrow> jstr) \<Rightarrow> credentials \<Rightarrow> jstr option \<Rightarrow> fetch_parts \<Rightarrow> route \<times> fetch_parts" where
  "direct_fetch origin_of base64 C serverOrigin r =
     (let r1 = (case (cr_password C, serverOrigin) of
                  (Some p, Some o') \<Rightarrow>
                    if p \<noteq> [] \<and> origin_of (fp_url r) = o'
                    then r\<lparr>fp_headers := map_set (js ''authorization'')
                             (js ''Basic '' @ base64 ((case cr_username C of
                                                        Some u \<Rightarrow> if u = [] then js ''opencode'' else u
                                                      | None \<Rightarrow> js ''opencode'') @ js '':'' @ p)) (fp_headers r)\<rparr>
                    else r
                | _ \<Rightarrow> r)
      in (if prefix (js ''http://'') (fp_url r1) then DirectHttp else GlobalFetch, r1))"

subsection \<open>Requests stay local\<close>




lemma lower_names [simp]:
  "lower (js ''origin'') = js ''origin''" "lower (js ''referer'') = js ''referer''"
  "lower (js ''x-opencode-directory'') = js ''x-opencode-directory''"
  by code_simp+










subsection \<open>Responses\<close>

lemma chunked_chunks:
  "\<exists>cs. chunked bytes = map FrameChunk cs \<and> concat cs = bytes \<and> (\<forall>c \<in> set cs. c \<noteq> [] \<and> length c \<le> MAX_CHUNK_BYTES)"
proof (induction bytes rule: chunked.induct)
  case (1 bytes)
  show ?case
  proof (cases "bytes = []")
    case True
    then show ?thesis by (intro exI [of _ "[]"]) (simp add: chunked.simps)
  next
    case False
    with 1 obtain cs where "chunked (drop MAX_CHUNK_BYTES bytes) = map FrameChunk cs" "concat cs = drop MAX_CHUNK_BYTES bytes"
      "\<forall>c \<in> set cs. c \<noteq> [] \<and> length c \<le> MAX_CHUNK_BYTES" by blast
    then show ?thesis
      using False by (intro exI [of _ "take MAX_CHUNK_BYTES bytes # cs"]) (simp add: chunked.simps [of bytes] MAX_CHUNK_BYTES_def)
  qed
qed

lemma all_chunked:
  "\<exists>cs. concat (map chunked reads) = map FrameChunk cs \<and> concat cs = concat reads \<and>
     (\<forall>c \<in> set cs. c \<noteq> [] \<and> length c \<le> MAX_CHUNK_BYTES)"
proof (induction reads)
  case (Cons x reads)
  obtain cs ds where "concat (map chunked reads) = map FrameChunk cs" "concat cs = concat reads"
    "\<forall>c \<in> set cs. c \<noteq> [] \<and> length c \<le> MAX_CHUNK_BYTES" "chunked x = map FrameChunk ds" "concat ds = x"
    "\<forall>c \<in> set ds. c \<noteq> [] \<and> length c \<le> MAX_CHUNK_BYTES" using Cons chunked_chunks [of x] by blast
  then show ?case by (intro exI [of _ "ds @ cs"]) auto
qed simp

text \<open>
  A response is relayed as one start frame, the bytes of its body in order in chunks of at most 450000
  bytes, none of them empty, and one end frame; when a read fails the operation fails and there is no end.
\<close>

theorem response_relayed:
  "\<exists>cs. relay h =
     (FrameStart (hr_status h) (responseHeaders (hr_headers h)) # map FrameChunk cs
        @ (if hr_reads h \<noteq> None \<and> hr_fails h then [] else [FrameEnd]), hr_reads h = None \<or> \<not> hr_fails h) \<and>
     concat cs = (case hr_reads h of None \<Rightarrow> [] | Some reads \<Rightarrow> concat reads) \<and>
     (\<forall>c \<in> set cs. 0 < length c \<and> length c \<le> 450000)"
proof (cases "hr_reads h")
  case None
  then show ?thesis by (intro exI [of _ "[]"]) (simp add: relay_def)
next
  case (Some reads)
  with all_chunked [of reads] show ?thesis by (auto simp: relay_def MAX_CHUNK_BYTES_def)
qed

lemma responseHeaders_get:
  "map_get (responseHeaders visited) k =
     (if kept_header k \<and> k \<in> fst ` set visited then map_option (\<lambda>v. [v]) (map_of (rev visited) k) else None)"
proof (induction visited rule: rev_induct)
  case (snoc p visited)
  have "responseHeaders (visited @ [p]) =
      (if kept_header (fst p) then map_set (fst p) [snd p] (responseHeaders visited) else responseHeaders visited)"
    by (simp add: responseHeaders_def case_prod_beta)
  with snoc show ?case by (auto simp: kept_header_def)
qed (simp add: responseHeaders_def)

text \<open>
  Of the cookies a response sets the browser gets only the last: the platform visits every
  \<open>set-cookie\<close> header on its own, and each one replaces the list of the one before.
\<close>

theorem only_last_cookie:
  "map_get (responseHeaders (before @ [(js ''set-cookie'', v)] @ filter (\<lambda>(k, w). k \<noteq> js ''set-cookie'') rest)) (js ''set-cookie'') =
     Some [v]"
proof -
  have "kept_header (js ''set-cookie'')" by (simp add: kept_header_def HOP_BY_HOP_HEADERS_def) code_simp
  moreover have "map_of (rev (filter (\<lambda>(k, w). k \<noteq> js ''set-cookie'') rest)) (js ''set-cookie'') = None"
    by (auto simp: map_of_eq_None_iff)
  ultimately show ?thesis by (simp add: responseHeaders_get map_add_def)
qed

text \<open>
  In a directory whose path has a character beyond Latin-1 every request of a first-generation tunnel
  fails before anything is fetched: the directory is set as a header, which the platform refuses.
\<close>

theorem unicode_directory_unreachable:
  assumes "\<not> wp_second P" "\<exists>u \<in> set (wp_directory P). 255 < u"
  shows "proxy F P r answer = ([], False)"
proof -
  have "header_value (wp_directory P) = None" using assms(2) by (auto simp: header_value_def Let_def list_ex_iff)
  then have none: "request_headers P r = None"
    using assms(1) by (auto simp: request_headers_def set_if_def header_set_def split: bind_splits)
  have "proxy_request F P r = None" using assms(1) none by (simp add: proxy_request_def split: option.split)
  then show ?thesis by (simp add: proxy_def)
qed

definition sample_platform :: platform where
  "sample_platform =
     \<lparr>pf_resolve = (\<lambda>p. Some \<lparr>url_origin = js ''http://h'', url_path = p, url_params = []\<rparr>), pf_decode = (\<lambda>_. []),
      pf_path_text = (\<lambda>s. s), pf_utf8 = (\<lambda>_. []), pf_quote = (\<lambda>s. s)\<rparr>"

definition sample_proxy :: "jstr \<Rightarrow> web_proxy" where
  "sample_proxy dir = \<lparr>wp_origin = js ''http://h'', wp_base = js ''http://h/'', wp_directory = dir, wp_second = False\<rparr>"

definition sample_web_request :: webui_request where
  "sample_web_request =
     \<lparr>wr_tunnelId = js ''t'', wr_requestId = js ''r'', wr_method = js ''GET'', wr_path = js ''/x'',
      wr_headers = [(js ''Host'', [js ''evil'']), (js ''origin'', [js ''http://evil''])], wr_body = None\<rparr>"





lemma unicode_directory_unreachable_witness:
  "proxy sample_platform (sample_proxy (js ''/'' @ [0x7528])) sample_web_request (\<lambda>_. None) = ([], False)"
  by (rule unicode_directory_unreachable) (simp_all add: sample_proxy_def)

end
