(* ===== verification/HttpErrors.thy ===== *)
theory HttpErrors
  imports JsString Json
begin

section \<open>Bodies and error replies of the gateway\<close>

text \<open>
  \<open>apps/gateway/src/lib/errors.ts\<close> and the error handler of \<open>app.ts\<close>: the codes of the error contract, the
  code of a client error by its status, and what the handler makes of an error that a route or the framework
  has raised. A reply is its status and its body; \<open>errorBody\<close> is the constructor \<open>Failure\<close>. The first part is
  the form that the body schemas of \<open>packages/contracts\<close> share.
\<close>

subsection \<open>Bodies\<close>

definition body_field :: "json \<Rightarrow> string \<Rightarrow> jstr" where
  "body_field v name = (case asString (field v name) of Some s \<Rightarrow> s | None \<Rightarrow> [])"

definition is_text :: "(jstr \<Rightarrow> bool) \<Rightarrow> json \<Rightarrow> bool" where
  "is_text ok v = (case v of JString s \<Rightarrow> ok s | _ \<Rightarrow> False)"

text \<open>An object with properties of the given kinds, the first list required, the second optional, and no others.\<close>

definition exact_object :: "(string \<times> (json \<Rightarrow> bool)) list \<Rightarrow> (string \<times> (json \<Rightarrow> bool)) list \<Rightarrow> json \<Rightarrow> bool" where
  "exact_object required optional v =
     (case v of
        JObject es \<Rightarrow>
          list_all (\<lambda>(name, ok). case field v name of Some x \<Rightarrow> ok x | None \<Rightarrow> False) required \<and>
          list_all (\<lambda>(name, ok). case field v name of Some x \<Rightarrow> ok x | None \<Rightarrow> True) optional \<and>
          set (map fst es) \<subseteq> set (map (\<lambda>(name, _). js name) (required @ optional))
      | _ \<Rightarrow> False)"

subsection \<open>Replies\<close>

datatype error_code =
    NOT_FOUND
  | VALIDATION_FAILED
  | BAD_REQUEST
  | UNAUTHORIZED
  | FORBIDDEN
  | CONFLICT
  | UNSUPPORTED_MEDIA_TYPE
  | RATE_LIMITED
  | CLIENT_ERROR
  | INTERNAL
  | EMAIL_TAKEN
  | EMAIL_NOT_ALLOWED
  | INVALID_CODE
  | SERVICE_UNAVAILABLE
  | INVALID_CREDENTIALS
  | EMAIL_UNVERIFIED
  | REFRESH_REUSED

datatype 'a response =
    Success int 'a
  | Failure int error_code jstr

fun response_status :: "'a response \<Rightarrow> int" where
  "response_status (Success st _) = st"
| "response_status (Failure st _ _) = st"

definition clientErrorCode :: "int \<Rightarrow> error_code" where
  "clientErrorCode st =
     (if st = 400 then BAD_REQUEST
      else if st = 401 then UNAUTHORIZED
      else if st = 403 then FORBIDDEN
      else if st = 404 then NOT_FOUND
      else if st = 415 then UNSUPPORTED_MEDIA_TYPE
      else if st = 429 then RATE_LIMITED
      else CLIENT_ERROR)"

text \<open>
  An error as the handler reads it; an \<open>AppError\<close> has a status, an error of a driver none. The status that a
  foreign error claims may be any number.
\<close>

record http_error =
  he_validation :: bool
  he_statusCode :: "int option"
  he_message :: jstr

definition AppError :: "jstr \<Rightarrow> int \<Rightarrow> http_error" where
  "AppError message st = \<lparr>he_validation = False, he_statusCode = Some st, he_message = message\<rparr>"

definition setErrorHandler :: "http_error \<Rightarrow> 'a response" where
  "setErrorHandler e =
     (if he_validation e then Failure 400 VALIDATION_FAILED (he_message e)
      else let statusCode = (case he_statusCode e of None \<Rightarrow> 500 | Some st \<Rightarrow> st) in
        if 400 \<le> statusCode \<and> statusCode < 500 then Failure statusCode (clientErrorCode statusCode) (he_message e)
        else let st = (if 500 \<le> statusCode \<and> statusCode < 600 then statusCode else 500) in
          if st = 503 then Failure 503 SERVICE_UNAVAILABLE (js ''Service unavailable'')
          else Failure st INTERNAL (js ''Internal server error''))"

text \<open>An error with no status, as a driver throws it.\<close>

definition thrown_error :: "jstr \<Rightarrow> http_error" where
  "thrown_error message = \<lparr>he_validation = False, he_statusCode = None, he_message = message\<rparr>"

lemma thrown_error_reply [simp]:
  "setErrorHandler (thrown_error m) = Failure 500 INTERNAL (js ''Internal server error'')"
  by (simp add: setErrorHandler_def thrown_error_def)

lemma validation_error_reply [simp]:
  "setErrorHandler \<lparr>he_validation = True, he_statusCode = st, he_message = m\<rparr> = Failure 400 VALIDATION_FAILED m"
  by (simp add: setErrorHandler_def)

text \<open>
  The error handler answers every error with a status from 400 to 599. The message of the error is in
  the body only below 500; from 500 on the body is one of two constants, whatever the error says, and a
  503 stays a 503.
\<close>

theorem server_errors_opaque:
  "\<exists>st code text. (setErrorHandler e :: 'a response) = Failure st code text \<and> 400 \<le> st \<and> st < 600 \<and>
     (if st < 500 then text = he_message e
      else (code, text) = (if st = 503 then (SERVICE_UNAVAILABLE, js ''Service unavailable'')
                           else (INTERNAL, js ''Internal server error'')) \<and>
           (setErrorHandler (e\<lparr>he_message := other\<rparr>) :: 'a response) = setErrorHandler e) \<and>
     ((setErrorHandler (AppError m 503) :: 'a response) = Failure 503 SERVICE_UNAVAILABLE (js ''Service unavailable''))"
  by (auto simp: setErrorHandler_def AppError_def Let_def split: option.split)

end
