(* ===== verification/AuthRoutes.thy ===== *)
theory AuthRoutes
  imports AuthProps HttpErrors Contracts
begin

section \<open>The account routes\<close>

text \<open>
  \<open>auth.routes.ts\<close> over the service of \<open>AuthService\<close>, with the body schemas of
  \<open>packages/contracts/src/schemas/auth.ts\<close>. A handler is one step here: a body that the schema refuses is a
  validation error, the service runs on the tables, and its failure is mapped to a reply by \<open>sendAuthError\<close> or,
  when it is no \<open>AuthError\<close>, by the handler of \<open>HttpErrors\<close>. The rate limit of the framework is not modelled.
  The format check of an email, the messages of the validator and of the driver are arguments, like the
  functions of \<open>AuthService\<close>.
\<close>

subsection \<open>Bodies\<close>

definition passwordProperty :: "jstr \<Rightarrow> bool" where
  "passwordProperty s \<longleftrightarrow> minLength 8 s \<and> maxLength 128 s"

text \<open>\<open>^[A-Za-z0-9]{8}$\<close>\<close>

definition alphanumeric :: "16 word \<Rightarrow> bool" where
  "alphanumeric u \<longleftrightarrow> 65 \<le> u \<and> u \<le> 90 \<or> 97 \<le> u \<and> u \<le> 122 \<or> 48 \<le> u \<and> u \<le> 57"

definition oneTimeCodeProperty :: "jstr \<Rightarrow> bool" where
  "oneTimeCodeProperty s \<longleftrightarrow> minLength 8 s \<and> maxLength 8 s \<and> length s = 8 \<and> list_all alphanumeric s"

definition refreshTokenProperty :: "jstr \<Rightarrow> bool" where
  "refreshTokenProperty s \<longleftrightarrow> minLength 1 s"

datatype auth_route =
    RegisterRoute
  | VerifyEmailRoute
  | ResendVerificationRoute
  | ForgotPasswordRoute
  | ResetPasswordRoute
  | LoginRoute
  | RefreshRoute
  | LogoutRoute

definition registerBodySchema :: "(jstr \<Rightarrow> bool) \<Rightarrow> json \<Rightarrow> bool" where
  "registerBodySchema email = exact_object [(''email'', is_text email), (''password'', is_text passwordProperty)] []"

definition loginBodySchema :: "(jstr \<Rightarrow> bool) \<Rightarrow> json \<Rightarrow> bool" where
  "loginBodySchema email = exact_object [(''email'', is_text email), (''password'', is_text passwordProperty)] []"

definition emailBodySchema :: "(jstr \<Rightarrow> bool) \<Rightarrow> json \<Rightarrow> bool" where
  "emailBodySchema email = exact_object [(''email'', is_text email)] []"

definition verifyEmailBodySchema :: "(jstr \<Rightarrow> bool) \<Rightarrow> json \<Rightarrow> bool" where
  "verifyEmailBodySchema email = exact_object [(''email'', is_text email), (''code'', is_text oneTimeCodeProperty)] []"

definition resetPasswordBodySchema :: "(jstr \<Rightarrow> bool) \<Rightarrow> json \<Rightarrow> bool" where
  "resetPasswordBodySchema email =
     exact_object [(''email'', is_text email), (''code'', is_text oneTimeCodeProperty),
       (''password'', is_text passwordProperty)] []"

definition refreshBodySchema :: "json \<Rightarrow> bool" where
  "refreshBodySchema = exact_object [(''refreshToken'', is_text refreshTokenProperty)] []"

fun route_schema :: "(jstr \<Rightarrow> bool) \<Rightarrow> auth_route \<Rightarrow> json \<Rightarrow> bool" where
  "route_schema email RegisterRoute = registerBodySchema email"
| "route_schema email VerifyEmailRoute = verifyEmailBodySchema email"
| "route_schema email ResendVerificationRoute = emailBodySchema email"
| "route_schema email ForgotPasswordRoute = emailBodySchema email"
| "route_schema email ResetPasswordRoute = resetPasswordBodySchema email"
| "route_schema email LoginRoute = loginBodySchema email"
| "route_schema email RefreshRoute = refreshBodySchema"
| "route_schema email LogoutRoute = refreshBodySchema"

subsection \<open>Failures\<close>

text \<open>The messages that the service gives its errors; \<open>refresh\<close> has a second one for a reused token.\<close>

fun auth_message :: "auth_error_kind \<Rightarrow> jstr" where
  "auth_message auth_error_kind.EMAIL_TAKEN = js ''Email already registered''"
| "auth_message auth_error_kind.EMAIL_NOT_ALLOWED = js ''Email is not allowed to register; contact the administrator''"
| "auth_message auth_error_kind.INVALID_CODE = js ''Invalid, expired, or already used code''"
| "auth_message MAIL_UNAVAILABLE = js ''Email delivery failed; please try again later''"
| "auth_message auth_error_kind.INVALID_CREDENTIALS = js ''Invalid email or password''"
| "auth_message auth_error_kind.EMAIL_UNVERIFIED = js ''Email address is not verified''"
| "auth_message INVALID_REFRESH = js ''Invalid or expired refresh token''"
| "auth_message auth_error_kind.REFRESH_REUSED = js ''Refresh token family was revoked''"

definition rotation_message :: "auth_error_kind \<Rightarrow> jstr" where
  "rotation_message kind =
     (if kind = auth_error_kind.REFRESH_REUSED then js ''Refresh token was already used'' else auth_message kind)"

text \<open>\<open>sendAuthError\<close>, and the rethrown rest as the error handler answers it.\<close>

fun sendAuthError :: "(auth_error_kind \<Rightarrow> jstr) \<Rightarrow> jstr \<Rightarrow> auth_failure \<Rightarrow> 'a response" where
  "sendAuthError msg driver (AuthError auth_error_kind.EMAIL_TAKEN) =
     Failure 409 error_code.EMAIL_TAKEN (msg auth_error_kind.EMAIL_TAKEN)"
| "sendAuthError msg driver (AuthError auth_error_kind.EMAIL_NOT_ALLOWED) =
     Failure 403 error_code.EMAIL_NOT_ALLOWED (msg auth_error_kind.EMAIL_NOT_ALLOWED)"
| "sendAuthError msg driver (AuthError auth_error_kind.INVALID_CODE) =
     Failure 400 error_code.INVALID_CODE (msg auth_error_kind.INVALID_CODE)"
| "sendAuthError msg driver (AuthError MAIL_UNAVAILABLE) = Failure 503 SERVICE_UNAVAILABLE (msg MAIL_UNAVAILABLE)"
| "sendAuthError msg driver (AuthError auth_error_kind.INVALID_CREDENTIALS) =
     Failure 401 error_code.INVALID_CREDENTIALS (msg auth_error_kind.INVALID_CREDENTIALS)"
| "sendAuthError msg driver (AuthError auth_error_kind.EMAIL_UNVERIFIED) =
     Failure 403 error_code.EMAIL_UNVERIFIED (msg auth_error_kind.EMAIL_UNVERIFIED)"
| "sendAuthError msg driver (AuthError INVALID_REFRESH) = Failure 401 UNAUTHORIZED (msg INVALID_REFRESH)"
| "sendAuthError msg driver (AuthError auth_error_kind.REFRESH_REUSED) =
     Failure 401 error_code.REFRESH_REUSED (msg auth_error_kind.REFRESH_REUSED)"
| "sendAuthError msg driver Uncaught = setErrorHandler (thrown_error driver)"

subsection \<open>The handlers\<close>

record route_env =
  re_auth :: auth_env
  re_policy :: "whitelist_entry list option"
  re_hash :: "jstr \<Rightarrow> jstr"
  re_email :: "jstr \<Rightarrow> bool"
  re_invalid :: "json \<Rightarrow> jstr"
  re_driver :: jstr

definition answer :: "route_env \<Rightarrow> int \<Rightarrow> 'db \<times> (auth_failure + unit) \<Rightarrow> 'db \<times> token_pair option response" where
  "answer E st = (\<lambda>(db, result).
     (db, case result of Inl e \<Rightarrow> sendAuthError auth_message (re_driver E) e | Inr _ \<Rightarrow> Success st None))"

definition register_account :: "route_env \<Rightarrow> draws \<Rightarrow> jstr \<Rightarrow> jstr \<Rightarrow> auth_db \<Rightarrow> auth_db \<times> (auth_failure + unit)" where
  "register_account E d email password db =
     (let A = re_auth E in
      case register_check (env_lower A) (re_policy E) email db of
        Inl e \<Rightarrow> (db, Inl e)
      | Inr normalized \<Rightarrow> register_create (env_sha A) (env_violation A) d normalized (re_hash E password) db)"

definition handle_login :: "route_env \<Rightarrow> draws \<Rightarrow> json \<Rightarrow> auth_db \<Rightarrow> auth_db \<times> token_pair option response" where
  "handle_login E d v db =
     (let A = re_auth E in
      case login (env_lower A) (env_sha A) (env_verifyPassword A) d (body_field v ''email'') (body_field v ''password'') db of
        (db', Inl e) \<Rightarrow> (db', sendAuthError auth_message (re_driver E) e)
      | (db', Inr pair) \<Rightarrow> (db', Success 200 (Some pair)))"

definition handle_refresh :: "route_env \<Rightarrow> draws \<Rightarrow> json \<Rightarrow> auth_db \<Rightarrow> auth_db \<times> token_pair option response" where
  "handle_refresh E d v db =
     (let A = re_auth E in
      case refresh_lookup (env_sha A) (drawn_at d) (body_field v ''refreshToken'') db of
        Inl e \<Rightarrow> (db, sendAuthError auth_message (re_driver E) e)
      | Inr r \<Rightarrow>
          (case refresh_rotate (env_sha A) d r db of
             (db', Inl e) \<Rightarrow> (db', sendAuthError rotation_message (re_driver E) e)
           | (db', Inr pair) \<Rightarrow> (db', Success 200 (Some pair))))"

fun run_auth :: "route_env \<Rightarrow> draws \<Rightarrow> auth_route \<Rightarrow> json \<Rightarrow> auth_db \<Rightarrow> auth_db \<times> token_pair option response" where
  "run_auth E d RegisterRoute v db =
     answer E 201 (register_account E d (body_field v ''email'') (body_field v ''password'') db)"
| "run_auth E d VerifyEmailRoute v db =
     answer E 204 (verifyEmail (env_lower (re_auth E)) (env_sha (re_auth E)) d (body_field v ''email'') (body_field v ''code'') db)"
| "run_auth E d ResendVerificationRoute v db =
     answer E 204 (resendVerification (env_lower (re_auth E)) (env_sha (re_auth E)) d (body_field v ''email'') db)"
| "run_auth E d ForgotPasswordRoute v db =
     answer E 204 (forgotPassword (env_lower (re_auth E)) (env_sha (re_auth E)) d (body_field v ''email'') db)"
| "run_auth E d ResetPasswordRoute v db =
     answer E 204 (resetPassword (env_lower (re_auth E)) (env_sha (re_auth E)) d (body_field v ''email'') (body_field v ''code'')
       (re_hash E (body_field v ''password'')) db)"
| "run_auth E d LoginRoute v db = handle_login E d v db"
| "run_auth E d RefreshRoute v db = handle_refresh E d v db"
| "run_auth E d LogoutRoute v db =
     (logout (env_sha (re_auth E)) (drawn_at d) (body_field v ''refreshToken'') db, Success 204 None)"

definition handle_auth :: "route_env \<Rightarrow> draws \<Rightarrow> auth_route \<Rightarrow> json \<Rightarrow> auth_db \<Rightarrow> auth_db \<times> token_pair option response" where
  "handle_auth E d route v db =
     (if \<not> route_schema (re_email E) route v
      then (db, setErrorHandler \<lparr>he_validation = True, he_statusCode = Some 400, he_message = re_invalid E v\<rparr>)
      else run_auth E d route v db)"

subsection \<open>Nothing to enumerate\<close>

text \<open>
  The request does not prove any knowledge about an account of these tables: the password is not the one of
  the account with the address, the hash of the code or token is not stored. A code that is drawn is fresh.
\<close>

fun proves_nothing :: "route_env \<Rightarrow> draws \<Rightarrow> auth_route \<Rightarrow> json \<Rightarrow> auth_db \<Rightarrow> bool" where
  "proves_nothing E d VerifyEmailRoute v db \<longleftrightarrow>
     env_sha (re_auth E) (body_field v ''code'') \<notin> set (map ct_tokenHash (emailVerificationTokens db))"
| "proves_nothing E d ForgotPasswordRoute v db \<longleftrightarrow>
     rowId2 d \<notin> set (map ct_id (passwordResetTokens db)) \<and>
     env_sha (re_auth E) (randomText d) \<notin> set (map ct_tokenHash (passwordResetTokens db))"
| "proves_nothing E d ResetPasswordRoute v db \<longleftrightarrow>
     env_sha (re_auth E) (body_field v ''code'') \<notin> set (map ct_tokenHash (passwordResetTokens db))"
| "proves_nothing E d LoginRoute v db \<longleftrightarrow>
     list_all (\<lambda>u. u_email u = normalizeEmail (env_lower (re_auth E)) (body_field v ''email'') \<longrightarrow>
       \<not> env_verifyPassword (re_auth E) (u_passwordHash u) (body_field v ''password'')) (users db)"
| "proves_nothing E d RefreshRoute v db \<longleftrightarrow>
     env_sha (re_auth E) (body_field v ''refreshToken'') \<notin> set (map rt_tokenHash (refreshTokens db))"
| "proves_nothing E d LogoutRoute v db \<longleftrightarrow> True"
| "proves_nothing E d RegisterRoute v db \<longleftrightarrow> False"
| "proves_nothing E d ResendVerificationRoute v db \<longleftrightarrow> False"

text \<open>The reply to such a request.\<close>

fun blank_reply :: "auth_route \<Rightarrow> token_pair option response" where
  "blank_reply VerifyEmailRoute = Failure 400 error_code.INVALID_CODE (js ''Invalid, expired, or already used code'')"
| "blank_reply ResetPasswordRoute = Failure 400 error_code.INVALID_CODE (js ''Invalid, expired, or already used code'')"
| "blank_reply LoginRoute = Failure 401 error_code.INVALID_CREDENTIALS (js ''Invalid email or password'')"
| "blank_reply RefreshRoute = Failure 401 UNAUTHORIZED (js ''Invalid or expired refresh token'')"
| "blank_reply _ = Success 204 None"

lemma not_live: "h \<notin> set (map ct_tokenHash rows) \<Longrightarrow> c \<in> set rows \<Longrightarrow> \<not> live_code uid h t c"
  by (auto simp: live_code_def)

lemma found_user: "findUserByEmail email db = Some u \<Longrightarrow> \<exists>r \<in> set (users db). u_email r = email \<and> u = user_of r"
  by (auto simp: findUserByEmail_def find_Some_iff)

lemma wrong_password:
  assumes "list_all (\<lambda>u. u_email u = normalizeEmail lo email \<longrightarrow> \<not> vp (u_passwordHash u) password) (users db)"
  shows "login lo h vp d email password db = (db, Inl (AuthError auth_error_kind.INVALID_CREDENTIALS))"
  using assms by (auto simp: login_def user_of_def list_all_iff split: option.split dest!: found_user)

lemma unknown_refresh:
  assumes "h \<notin> set (map rt_tokenHash (refreshTokens db))"
  shows "findRefreshTokenByHash db h = None"
proof -
  have "[(t, f). t \<leftarrow> refreshTokens db, f \<leftarrow> refreshTokenFamilies db, rt_familyId t = fam_id f \<and> rt_tokenHash t = h] = []"
    using assms by (auto simp: concat_eq_Nil_conv)
  then show ?thesis by (simp only: findRefreshTokenByHash_def list.case)
qed

text \<open>
  C6: Logging in with a wrong password, verifying or resetting with a code that is stored for no account,
  refreshing with an unknown token, asking for a reset code and logging out have one reply each, the same whether or not the
  address belongs to an account, whatever the tables hold and whether or not mail goes out; and the failing
  ones leave the tables as they are.
\<close>

theorem accounts_not_enumerable:
  assumes "route_schema (re_email E) route v" "proves_nothing E d route v db"
  shows "snd (handle_auth E d route v db) = blank_reply route \<and>
    (route \<in> {VerifyEmailRoute, ResetPasswordRoute, LoginRoute, RefreshRoute} \<longrightarrow> fst (handle_auth E d route v db) = db)"
proof (cases route)
  case VerifyEmailRoute
  with assms show ?thesis
    by (auto simp: handle_auth_def answer_def verifyEmail_def consumeVerificationToken_def not_live split: option.split)
next
  case ResetPasswordRoute
  with assms show ?thesis
    by (auto simp: handle_auth_def answer_def resetPassword_def consumePasswordResetToken_def not_live split: option.split)
next
  case ForgotPasswordRoute
  with assms show ?thesis
    by (auto simp: handle_auth_def answer_def forgotPassword_def createPasswordResetToken_def insert_code_def split: option.split)
next
  case LoginRoute
  with assms show ?thesis by (simp add: handle_auth_def handle_login_def Let_def wrong_password)
next
  case RefreshRoute
  with assms show ?thesis by (simp add: handle_auth_def handle_refresh_def Let_def refresh_lookup_def unknown_refresh)
qed (use assms in \<open>simp_all add: handle_auth_def\<close>)

text \<open>An account, and a guess of its password: the reply is that of an unknown address.\<close>

definition sample_route_env :: route_env where
  "sample_route_env =
     \<lparr>re_auth = \<lparr>env_lower = id, env_sha = id, env_verifyPassword = (=), env_violation = Thrown None None\<rparr>,
      re_policy = Some [EmailEntry (js ''b'')], re_hash = id, re_email = (\<lambda>s. s \<noteq> []), re_invalid = (\<lambda>_. js ''bad''),
      re_driver = js ''down''\<rparr>"

definition sample_draws :: draws where
  "sample_draws = \<lparr>drawn_at = 10, rowId1 = js ''1'', rowId2 = js ''2'', randomText = js ''c'', mailDelivered = False\<rparr>"

definition sample_accounts :: auth_db where
  "sample_accounts = empty_db\<lparr>users := [\<lparr>u_id = js ''u'', u_email = js ''a'', u_passwordHash = js ''12345678'',
     u_emailVerifiedAt = None, u_createdAt = 0, u_updatedAt = 0\<rparr>]\<rparr>"

definition sample_credentials :: "string \<Rightarrow> json" where
  "sample_credentials pw = JObject [(js ''email'', JString (js ''a'')), (js ''password'', JString (js pw))]"

lemma sample_guess:
  "route_schema (re_email sample_route_env) LoginRoute (sample_credentials ''87654321'')"
  "proves_nothing sample_route_env sample_draws LoginRoute (sample_credentials ''87654321'') sample_accounts"
  by code_simp+

lemma accounts_not_enumerable_witness:
  "snd (handle_auth sample_route_env sample_draws LoginRoute (sample_credentials ''87654321'') sample_accounts) =
     Failure 401 error_code.INVALID_CREDENTIALS (js ''Invalid email or password'') \<and>
   snd (handle_auth sample_route_env sample_draws LoginRoute (sample_credentials ''12345678'') sample_accounts) =
     Failure 403 error_code.EMAIL_UNVERIFIED (js ''Email address is not verified'')"
proof
  show "snd (handle_auth sample_route_env sample_draws LoginRoute (sample_credentials ''87654321'') sample_accounts) =
     Failure 401 error_code.INVALID_CREDENTIALS (js ''Invalid email or password'')"
    using accounts_not_enumerable [OF sample_guess] by simp
qed code_simp

text \<open>
  Asking again for a verification mail does tell: while mail cannot be delivered, an address with an
  account that is not yet verified is answered 503 and every other one 204.
\<close>

theorem resend_tells_while_mail_is_down:
  assumes "route_schema (re_email E) ResendVerificationRoute v" "\<not> mailDelivered d"
    and "rowId2 d \<notin> set (map ct_id (emailVerificationTokens db))"
    and "env_sha (re_auth E) (randomText d) \<notin> set (map ct_tokenHash (emailVerificationTokens db))"
  shows "snd (handle_auth E d ResendVerificationRoute v db) =
    (case findUserByEmail (normalizeEmail (env_lower (re_auth E)) (body_field v ''email'')) db of
       None \<Rightarrow> Success 204 None
     | Some u \<Rightarrow>
         if ur_emailVerifiedAt u = None
         then Failure 503 SERVICE_UNAVAILABLE (js ''Email delivery failed; please try again later'')
         else Success 204 None)"
  using assms
  by (auto simp: handle_auth_def answer_def resendVerification_def issueVerificationCode_def createVerificationToken_def
        insert_code_def split: option.split)

lemma resend_tells_while_mail_is_down_witness:
  "snd (handle_auth sample_route_env sample_draws ResendVerificationRoute (JObject [(js ''email'', JString (js ''a''))])
     sample_accounts) = Failure 503 SERVICE_UNAVAILABLE (js ''Email delivery failed; please try again later'')"
proof -
  have "route_schema (re_email sample_route_env) ResendVerificationRoute (JObject [(js ''email'', JString (js ''a''))])"
    "findUserByEmail (normalizeEmail (env_lower (re_auth sample_route_env))
       (body_field (JObject [(js ''email'', JString (js ''a''))]) ''email'')) sample_accounts =
     Some \<lparr>ur_id = js ''u'', ur_email = js ''a'', ur_passwordHash = js ''12345678'', ur_emailVerifiedAt = None\<rparr>"
    by code_simp+
  then show ?thesis
    using resend_tells_while_mail_is_down [of sample_route_env "JObject [(js ''email'', JString (js ''a''))]" sample_draws
        sample_accounts]
    by (simp add: sample_draws_def sample_accounts_def empty_db_def)
qed

subsection \<open>The documented replies\<close>

text \<open>
  The statuses that \<open>packages/contracts/scripts/generate-openapi.ts\<close> lists for each path, success first, less
  the 429 of the rate limit.
\<close>

fun openapi_statuses :: "auth_route \<Rightarrow> int list" where
  "openapi_statuses RegisterRoute = [201, 400, 409, 503]"
| "openapi_statuses VerifyEmailRoute = [204, 400]"
| "openapi_statuses ResendVerificationRoute = [204, 503]"
| "openapi_statuses ForgotPasswordRoute = [204]"
| "openapi_statuses ResetPasswordRoute = [204, 400]"
| "openapi_statuses LoginRoute = [200, 400, 401, 403]"
| "openapi_statuses RefreshRoute = [200, 400, 401]"
| "openapi_statuses LogoutRoute = [204, 400]"

text \<open>What the code answers besides: the whitelist's refusal, and invalid bodies of two routes.\<close>

fun undocumented :: "auth_route \<Rightarrow> (int \<times> error_code) list" where
  "undocumented RegisterRoute = [(403, error_code.EMAIL_NOT_ALLOWED)]"
| "undocumented ResendVerificationRoute = [(400, VALIDATION_FAILED)]"
| "undocumented ForgotPasswordRoute = [(400, VALIDATION_FAILED)]"
| "undocumented _ = []"

definition auth_reply_ok :: "auth_route \<Rightarrow> token_pair option response \<Rightarrow> bool" where
  "auth_reply_ok route reply =
     (case reply of
        Success st pair \<Rightarrow> st = hd (openapi_statuses route) \<and> (pair = None) = (st \<noteq> 200)
      | Failure st code text \<Rightarrow>
          400 \<le> st \<and>
          (st \<in> set (openapi_statuses route) \<or> (st, code) \<in> set (undocumented route) \<or> (st, code) = (500, INTERNAL)) \<and>
          (code = VALIDATION_FAILED \<or> 0 < length text))"

lemma auth_reply_ok_simps [simp]:
  "auth_reply_ok route (Success st pair) \<longleftrightarrow> st = hd (openapi_statuses route) \<and> (pair = None) = (st \<noteq> 200)"
  "auth_reply_ok route (Failure st code text) \<longleftrightarrow>
     400 \<le> st \<and>
     (st \<in> set (openapi_statuses route) \<or> (st, code) \<in> set (undocumented route) \<or> (st, code) = (500, INTERNAL)) \<and>
     (code = VALIDATION_FAILED \<or> 0 < length text)"
  by (simp_all add: auth_reply_ok_def)

text \<open>
  Every reply of an account route is its documented success, with a token pair exactly for the two routes
  that issue one; or an error with a documented status, one of the listed exceptions or the static 500, and a message
  that the contract accepts.
\<close>

theorem auth_replies_documented: "auth_reply_ok route (snd (handle_auth E d route v db))"
  by (cases route)
     (auto simp: handle_auth_def answer_def verifyEmail_def resendVerification_def forgotPassword_def
        resetPassword_def handle_login_def login_def handle_refresh_def refresh_lookup_def refresh_rotate_def
        register_account_def register_check_def register_create_def issueVerificationCode_def Let_def
        rotation_message_def split: option.split prod.split sum.split repo_error.split rotation_outcome.split)

lemma register_refusal_undocumented:
  "snd (handle_auth sample_route_env sample_draws RegisterRoute (sample_credentials ''12345678'') empty_db) =
     Failure 403 error_code.EMAIL_NOT_ALLOWED (js ''Email is not allowed to register; contact the administrator'') \<and>
   403 \<notin> set (openapi_statuses RegisterRoute)"
  by code_simp

end
