(* ===== verification/ControlRoutes.thy ===== *)
theory ControlRoutes
  imports InstanceProps AccessTokens DeviceRoutes ControlFrames HttpErrors
begin

section \<open>The routes of instances, sessions and ingest keys\<close>

text \<open>
  \<open>instances.routes.ts\<close>, \<open>session-control.routes.ts\<close> and \<open>pending-interactions.routes.ts\<close> over the registry of
  \<open>InstanceRegistry\<close>; \<open>ingest-keys.routes.ts\<close> over the table of \<open>IngestKeys\<close> and that registry; the guard of
  \<open>control-ws.routes.ts\<close>. A request is checked in the order of the framework: the schema of its parameters, query and
  body, then the access token, then the handler. The uuid format and the messages of the validator are arguments.
\<close>

subsection \<open>Bodies\<close>

definition uuid_text :: "(jstr \<Rightarrow> bool) \<Rightarrow> json \<Rightarrow> bool" where
  "uuid_text uuid = is_text uuid"

definition answers_schema :: "json \<Rightarrow> bool" where
  "answers_schema v = (question_answers (Some v) \<noteq> None)"

definition permissionDecisionSchema :: "jstr \<Rightarrow> bool" where
  "permissionDecisionSchema s \<longleftrightarrow> s \<in> {js ''once'', js ''reject'', js ''always''}"

definition answerQuestionBodySchema :: "(jstr \<Rightarrow> bool) \<Rightarrow> json \<Rightarrow> bool" where
  "answerQuestionBodySchema uuid =
     exact_object [(''commandId'', uuid_text uuid), (''sessionId'', is_text (minLength 1)), (''answers'', answers_schema)] []"

definition decidePermissionBodySchema :: "(jstr \<Rightarrow> bool) \<Rightarrow> json \<Rightarrow> bool" where
  "decidePermissionBodySchema uuid =
     exact_object [(''commandId'', uuid_text uuid), (''sessionId'', is_text (minLength 1)),
       (''decision'', is_text permissionDecisionSchema)] []"

definition sendPromptBodySchema :: "(jstr \<Rightarrow> bool) \<Rightarrow> json \<Rightarrow> bool" where
  "sendPromptBodySchema uuid =
     exact_object [(''commandId'', uuid_text uuid), (''text'', is_text (\<lambda>s. minLength 1 s \<and> maxLength 32000 s))] []"

text \<open>The query of the session list: a \<open>limit\<close> of digits becomes a number before the check, a missing one 50 after it.\<close>

definition with_field :: "string \<Rightarrow> json \<Rightarrow> json \<Rightarrow> json" where
  "with_field name x v = (case v of JObject es \<Rightarrow> JObject (es @ [(js name, x)]) | _ \<Rightarrow> v)"

definition read_limit :: "json \<Rightarrow> json" where
  "read_limit v =
     (case field v ''limit'' of
        Some (JString s) \<Rightarrow>
          if all_digits s then with_field ''limit'' (JNumber (Finite (of_nat (parse_decimal s)))) v else v
      | _ \<Rightarrow> v)"

definition limit_schema :: "json \<Rightarrow> bool" where
  "limit_schema v = (case v of JNumber (Finite n) \<Rightarrow> n = of_int \<lfloor>n\<rfloor> \<and> 1 \<le> n \<and> n \<le> 200 | _ \<Rightarrow> False)"

definition session_id_unit :: "16 word \<Rightarrow> bool" where
  "session_id_unit u \<longleftrightarrow> 65 \<le> u \<and> u \<le> 90 \<or> 97 \<le> u \<and> u \<le> 122 \<or> 48 \<le> u \<and> u \<le> 57 \<or> u \<in> {95, 44, 46, 45}"

definition sessionCatalogQuerySchema :: "json \<Rightarrow> bool" where
  "sessionCatalogQuerySchema =
     exact_object [] [(''search'', is_text (maxLength 200)), (''limit'', limit_schema),
       (''sessionIds'', is_text (\<lambda>s. maxLength 4096 s \<and> list_all session_id_unit s))]"

definition default_limit :: "json \<Rightarrow> json" where
  "default_limit v = (if field v ''limit'' = None then with_field ''limit'' (JNumber (Finite 50)) v else v)"

subsection \<open>Requests and replies\<close>

datatype control_request =
    GetInstances
  | DeleteInstance jstr
  | GetPendingInteractions
  | PostAnswer jstr jstr json
  | PostDecision jstr jstr json
  | GetCommandOutcome jstr
  | GetSessions jstr json
  | PostPrompt jstr jstr json

datatype control_body =
    NoBody
  | InstanceList "presence list"
  | CommandAccepted jstr
  | CommandOutcome outcome_entry
  | SessionCatalogBody json

text \<open>A handler replies at once, or waits for a catalog request or for the snapshots of instances.\<close>

datatype control_progress =
    Replied "control_body response"
  | AwaitsCatalog jstr
  | AwaitsSnapshots "jstr list"

record control_env =
  ce_runtime :: runtime
  ce_uuid :: "jstr \<Rightarrow> bool"
  ce_invalid :: "control_request \<Rightarrow> jstr"

fun request_schema :: "(jstr \<Rightarrow> bool) \<Rightarrow> control_request \<Rightarrow> bool" where
  "request_schema uuid (PostAnswer inst rid v) = answerQuestionBodySchema uuid v"
| "request_schema uuid (PostDecision inst rid v) = decidePermissionBodySchema uuid v"
| "request_schema uuid (PostPrompt inst sid v) = sendPromptBodySchema uuid v"
| "request_schema uuid (GetSessions inst q) \<longleftrightarrow> uuid inst \<and> sessionCatalogQuerySchema (read_limit q)"
| "request_schema uuid _ = True"

definition command_reply :: "string \<Rightarrow> string \<Rightarrow> command_error + jstr \<Rightarrow> control_body response" where
  "command_reply conflict missing outcome =
     (case outcome of
        Inl Conflict \<Rightarrow> Failure 409 CONFLICT (js conflict)
      | Inl command_error.NotFound \<Rightarrow> Failure 404 NOT_FOUND (js missing)
      | Inr commandId \<Rightarrow> Success 202 (CommandAccepted commandId))"

definition forget_reply :: "forget_outcome \<Rightarrow> control_body response" where
  "forget_reply outcome =
     (case outcome of
        ForgetNotFound \<Rightarrow> Failure 404 NOT_FOUND (js ''OpenCode instance not found'')
      | NotOffline \<Rightarrow> Failure 409 CONFLICT (js ''Active OpenCode instances cannot be forgotten'')
      | forget_outcome.Deleted \<Rightarrow> Success 204 NoBody)"

text \<open>The reply once the catalog request is settled; \<open>not_found\<close> is also the answer when none could be sent.\<close>

definition catalog_reply :: "catalog_result \<Rightarrow> control_body response" where
  "catalog_reply result =
     (case result of
        CatalogIs v \<Rightarrow> Success 200 (SessionCatalogBody v)
      | CatalogNotFound \<Rightarrow> Failure 404 NOT_FOUND (js ''Session catalog not_found'')
      | CatalogTimeout \<Rightarrow> Failure 504 SERVICE_UNAVAILABLE (js ''Session catalog timeout'')
      | CatalogNotSupported \<Rightarrow> Failure 501 SERVICE_UNAVAILABLE (js ''Session catalog unsupported'')
      | CatalogError \<Rightarrow> Failure 502 SERVICE_UNAVAILABLE (js ''Session catalog error''))"

text \<open>The handlers, for the user of the access token.\<close>

definition get_instances :: "jstr \<Rightarrow> registry \<Rightarrow> registry \<times> control_progress" where
  "get_instances u r = (r, Replied (Success 200 (InstanceList (snapshot u r))))"

definition delete_instance :: "jstr \<Rightarrow> jstr \<Rightarrow> registry \<Rightarrow> registry \<times> control_progress" where
  "delete_instance u inst r =
     (if \<not> UUID_PATTERN inst then (r, Replied (Failure 404 NOT_FOUND (js ''OpenCode instance not found'')))
      else (case forgetOffline u inst r of (r', outcome) \<Rightarrow> (r', Replied (forget_reply outcome))))"

definition get_pending :: "runtime \<Rightarrow> int \<Rightarrow> jstr \<Rightarrow> registry \<Rightarrow> registry \<times> control_progress" where
  "get_pending E t u r = (case collectPendingInteractions E t u r of (r', insts) \<Rightarrow> (r', AwaitsSnapshots insts))"

definition post_answer :: "runtime \<Rightarrow> int \<Rightarrow> jstr \<Rightarrow> jstr \<Rightarrow> jstr \<Rightarrow> json \<Rightarrow> registry \<Rightarrow> registry \<times> control_progress" where
  "post_answer E t u inst rid v r =
     (case answerQuestion E t u inst rid (body_field v ''commandId'') (body_field v ''sessionId'') (the (field v ''answers'')) r of
        (r', outcome) \<Rightarrow>
          (r', Replied (command_reply ''Question request is stale or not pending'' ''Question request not found'' outcome)))"

definition post_decision :: "runtime \<Rightarrow> int \<Rightarrow> jstr \<Rightarrow> jstr \<Rightarrow> jstr \<Rightarrow> json \<Rightarrow> registry \<Rightarrow> registry \<times> control_progress" where
  "post_decision E t u inst rid v r =
     (case decidePermission E t u inst rid (body_field v ''commandId'') (body_field v ''sessionId'') (the (field v ''decision'')) r of
        (r', outcome) \<Rightarrow>
          (r', Replied (command_reply ''Permission request is stale or not pending'' ''Permission request not found'' outcome)))"

definition get_outcome :: "int \<Rightarrow> jstr \<Rightarrow> jstr \<Rightarrow> registry \<Rightarrow> registry \<times> control_progress" where
  "get_outcome t u cmd r =
     (case outcomeFor t u cmd r of
        (r', None) \<Rightarrow> (r', Replied (Failure 404 NOT_FOUND (js ''Command outcome not found'')))
      | (r', Some e) \<Rightarrow> (r', Replied (Success 200 (CommandOutcome e))))"

definition get_sessions :: "runtime \<Rightarrow> int \<Rightarrow> jstr \<Rightarrow> jstr \<Rightarrow> json \<Rightarrow> registry \<Rightarrow> registry \<times> control_progress" where
  "get_sessions E t u inst q r =
     (case collectSessions E t u inst (default_limit (read_limit q)) r of
        (r', None) \<Rightarrow> (r', Replied (catalog_reply CatalogNotFound))
      | (r', Some rid) \<Rightarrow> (r', AwaitsCatalog rid))"

definition post_prompt :: "runtime \<Rightarrow> int \<Rightarrow> jstr \<Rightarrow> jstr \<Rightarrow> jstr \<Rightarrow> json \<Rightarrow> registry \<Rightarrow> registry \<times> control_progress" where
  "post_prompt E t u inst sid v r =
     (case sendSessionPrompt E t u inst sid (body_field v ''commandId'') (body_field v ''text'') r of
        (r', outcome) \<Rightarrow>
          (r', Replied (command_reply ''Prompt command is already in flight'' ''OpenCode instance not found'' outcome)))"

lemmas handler_defs = get_instances_def delete_instance_def get_pending_def post_answer_def post_decision_def
  get_outcome_def get_sessions_def post_prompt_def

fun handle_control :: "runtime \<Rightarrow> int \<Rightarrow> jstr \<Rightarrow> control_request \<Rightarrow> registry \<Rightarrow> registry \<times> control_progress" where
  "handle_control E t u GetInstances r = get_instances u r"
| "handle_control E t u (DeleteInstance inst) r = delete_instance u inst r"
| "handle_control E t u GetPendingInteractions r = get_pending E t u r"
| "handle_control E t u (PostAnswer inst rid v) r = post_answer E t u inst rid v r"
| "handle_control E t u (PostDecision inst rid v) r = post_decision E t u inst rid v r"
| "handle_control E t u (GetCommandOutcome cmd) r = get_outcome t u cmd r"
| "handle_control E t u (GetSessions inst q) r = get_sessions E t u inst q r"
| "handle_control E t u (PostPrompt inst sid v) r = post_prompt E t u inst sid v r"

text \<open>The whole route; \<open>user\<close> is what \<open>authenticate\<close> makes of the header.\<close>

definition serve_control :: "control_env \<Rightarrow> int \<Rightarrow> jstr option \<Rightarrow> control_request \<Rightarrow> registry \<Rightarrow> registry \<times> control_progress" where
  "serve_control C t user req r =
     (if \<not> request_schema (ce_uuid C) req
      then (r, Replied (setErrorHandler \<lparr>he_validation = True, he_statusCode = Some 400, he_message = ce_invalid C req\<rparr>))
      else case user of
             None \<Rightarrow> (r, Replied (Failure 401 UNAUTHORIZED (js ''Missing or invalid access token'')))
           | Some u \<Rightarrow> handle_control (ce_runtime C) t u req r)"

subsection \<open>Instances of other accounts\<close>

fun request_instance :: "control_request \<Rightarrow> jstr option" where
  "request_instance (DeleteInstance inst) = Some inst"
| "request_instance (PostAnswer inst rid v) = Some inst"
| "request_instance (PostDecision inst rid v) = Some inst"
| "request_instance (GetSessions inst q) = Some inst"
| "request_instance (PostPrompt inst sid v) = Some inst"
| "request_instance _ = None"

text \<open>The reply about an instance that the account does not have, a function of the request alone.\<close>

fun missing_text :: "control_request \<Rightarrow> string" where
  "missing_text (PostAnswer inst rid v) = ''Question request not found''"
| "missing_text (PostDecision inst rid v) = ''Permission request not found''"
| "missing_text (GetSessions inst q) = ''Session catalog not_found''"
| "missing_text (GetCommandOutcome cmd) = ''Command outcome not found''"
| "missing_text _ = ''OpenCode instance not found''"

definition blind_reply :: "control_env \<Rightarrow> control_request \<Rightarrow> control_body response" where
  "blind_reply C req =
     (if request_schema (ce_uuid C) req then Failure 404 NOT_FOUND (js (missing_text req))
      else Failure 400 VALIDATION_FAILED (ce_invalid C req))"

lemma unknown_guard: "map_get (records r) (recordKey u inst) = None \<Longrightarrow> controllable_connection r u inst = None"
  by (simp add: controllable_connection_def)

text \<open>What the request names is not the account's: no record of the instance, or no live outcome of its own.\<close>

fun unknown_to :: "int \<Rightarrow> jstr \<Rightarrow> control_request \<Rightarrow> registry \<Rightarrow> bool" where
  "unknown_to t u (GetCommandOutcome cmd) r =
     (case map_get (commandOutcomes r) cmd of None \<Rightarrow> True | Some e \<Rightarrow> oe_userId e \<noteq> u \<or> oe_expiresAtMs e \<le> t)"
| "unknown_to t u req r =
     (case request_instance req of None \<Rightarrow> False | Some inst \<Rightarrow> map_get (records r) (recordKey u inst) = None)"

text \<open>
  C5: An account that asks about an instance it has no record of, to answer, decide, prompt, list sessions or
  forget it, or for the outcome of a command that it has not submitted, gets 404 (or 400 for an invalid
  request) with a text that depends only on the request; and nothing changes, but for the sweep of expired outcomes.
  Whether the instance or the command exists for someone else makes no difference.
\<close>

theorem foreign_instance_is_unknown:
  assumes "unknown_to t u req r" "distinct_keys (commandOutcomes r)"
  shows "\<exists>r' \<in> {r, pruneExpiredOutcomes t r}. serve_control C t (Some u) req r = (r', Replied (blind_reply C req))"
proof (cases req)
  case (GetCommandOutcome cmd)
  have "outcomeFor t u cmd r = (pruneExpiredOutcomes t r, None)"
    using assms GetCommandOutcome
    by (auto simp: outcomeFor_def pruneExpiredOutcomes_def Let_def map_get_filter split: option.split)
  then show ?thesis using GetCommandOutcome by (simp add: serve_control_def blind_reply_def get_outcome_def)
qed (use assms in \<open>simp_all add: handler_defs serve_control_def blind_reply_def forgetOffline_def forget_reply_def answerQuestion_def
      decidePermission_def routeCommand_def unknown_guard command_reply_def sendSessionPrompt_def collectSessions_def
      catalog_reply_def Let_def\<close>)

lemma foreign_instance_is_unknown_witness:
  "snd (serve_control \<lparr>ce_runtime = demo_runtime, ce_uuid = (\<lambda>_. True), ce_invalid = (\<lambda>_. [])\<rparr> 5 (Some (js ''bob''))
     (DeleteInstance (js ''a'')) demo_state) = Replied (Failure 404 NOT_FOUND (js ''OpenCode instance not found''))"
proof -
  let ?C = "\<lparr>ce_runtime = demo_runtime, ce_uuid = (\<lambda>_. True), ce_invalid = (\<lambda>_. [])\<rparr>"
  have "unknown_to 5 (js ''bob'') (DeleteInstance (js ''a'')) demo_state" "distinct_keys (commandOutcomes demo_state)"
    by (simp_all add: demo_state_def recordKey_def new_registry_def js_def)
  from foreign_instance_is_unknown [OF this, of ?C] show ?thesis by (auto simp: blind_reply_def)
qed

subsection \<open>Ingest keys\<close>

definition createIngestKeyBodySchema :: "json \<Rightarrow> bool" where
  "createIngestKeyBodySchema = exact_object [(''name'', is_text (\<lambda>s. minLength 1 s \<and> maxLength 64 s))] []"

record key_item =
  ki_id :: jstr
  ki_name :: jstr
  ki_createdAt :: int
  ki_lastUsedAt :: "int option"

definition toListItem :: "key_record \<Rightarrow> key_item" where
  "toListItem k = \<lparr>ki_id = kr_id k, ki_name = kr_name k, ki_createdAt = kr_createdAt k, ki_lastUsedAt = kr_lastUsedAt k\<rparr>"

datatype key_body =
    KeyList "key_item list"
  | NewKey key_item jstr
  | KeyRevoked

datatype key_request =
    ListKeys
  | CreateIngestKey json jstr jstr jstr int  \<comment> \<open>with the random key id and secret, the row id and the time of the row\<close>
  | DeleteIngestKey jstr int

text \<open>
  The database compares an id that a client has written with the column of type uuid, whatever its letter
  case; \<open>canon\<close> gives the text under which the database returns the id. The registry compares texts.
\<close>

record key_env =
  ke_sha :: "jstr \<Rightarrow> jstr"
  ke_canon :: "jstr \<Rightarrow> jstr"
  ke_invalid :: "json \<Rightarrow> jstr"
  ke_runtime :: runtime

record key_state =
  ks_rows :: "ingest_row list"
  ks_registry :: registry

definition delete_ingest_key :: "key_env \<Rightarrow> jstr \<Rightarrow> jstr \<Rightarrow> int \<Rightarrow> key_state \<Rightarrow> key_state \<times> key_body response" where
  "delete_ingest_key K u i t s =
     (if \<not> UUID_PATTERN i then (s, Failure 404 NOT_FOUND (js ''Ingest key not found''))
      else case revoke_key u (ke_canon K i) t (ks_rows s) of
             (rows, revoked) \<Rightarrow>
               if \<not> revoked then (s\<lparr>ks_rows := rows\<rparr>, Failure 404 NOT_FOUND (js ''Ingest key not found''))
               else (s\<lparr>ks_rows := rows, ks_registry := revokeKey (ke_runtime K) t i (ks_registry s)\<rparr>, Success 204 KeyRevoked))"

definition handle_key :: "key_env \<Rightarrow> jstr \<Rightarrow> key_request \<Rightarrow> key_state \<Rightarrow> key_state \<times> key_body response" where
  "handle_key K u req s =
     (case req of
        ListKeys \<Rightarrow> (s, Success 200 (KeyList (map toListItem (list_keys u (ks_rows s)))))
      | CreateIngestKey v keyId secret rowId now \<Rightarrow>
          (case issue_key (ke_sha K) keyId secret rowId now u (body_field v ''name'') (ks_rows s) of
             Inl _ \<Rightarrow> (s, setErrorHandler (thrown_error []))
           | Inr (rows, k, credential) \<Rightarrow> (s\<lparr>ks_rows := rows\<rparr>, Success 201 (NewKey (toListItem k) credential)))
      | DeleteIngestKey i t \<Rightarrow> delete_ingest_key K u i t s)"

definition serve_key :: "key_env \<Rightarrow> jstr option \<Rightarrow> key_request \<Rightarrow> key_state \<Rightarrow> key_state \<times> key_body response" where
  "serve_key K user req s =
     (case req of
        CreateIngestKey v _ _ _ _ \<Rightarrow>
          if createIngestKeyBodySchema v then
            (case user of
               None \<Rightarrow> (s, Failure 401 UNAUTHORIZED (js ''Missing or invalid access token''))
             | Some u \<Rightarrow> handle_key K u req s)
          else (s, setErrorHandler \<lparr>he_validation = True, he_statusCode = Some 400, he_message = ke_invalid K v\<rparr>)
      | _ \<Rightarrow>
          (case user of
             None \<Rightarrow> (s, Failure 401 UNAUTHORIZED (js ''Missing or invalid access token''))
           | Some u \<Rightarrow> handle_key K u req s))"

text \<open>The guard of the plugin's upgrade to \<open>/v1/plugin/ws\<close>; \<open>add_connection\<close> follows for a verified key.\<close>

definition plugin_upgrade :: "(jstr \<Rightarrow> jstr) \<Rightarrow> ingest_row list \<Rightarrow> jstr option \<Rightarrow> unit response + verified_key" where
  "plugin_upgrade sha rows header =
     (case (case bearer_credential header of None \<Rightarrow> None | Some credential \<Rightarrow> verify sha (findActiveByKeyId rows) credential) of
        None \<Rightarrow> Inl (Failure 401 UNAUTHORIZED (js ''Missing or invalid Plugin key''))
      | Some k \<Rightarrow> Inr k)"

subsection \<open>Revocation\<close>

text \<open>Connections are only lost and effects only added while a connection is given up.\<close>

definition within_bounds :: "nat set \<Rightarrow> effect set \<Rightarrow> registry \<Rightarrow> bool" where
  "within_bounds S X r \<longleftrightarrow> set (connections r) \<subseteq> S \<and> X \<subseteq> set (effects r)"

lemma within_updates [simp]:
  "within_bounds S X (put_record k i r) = within_bounds S X r"
  "within_bounds S X (r\<lparr>ownership := m\<rparr>) = within_bounds S X r"
  "within_bounds S X (r\<lparr>pendingCommands := cmds\<rparr>) = within_bounds S X r"
  "within_bounds S X (settleOutcome t x st r) = within_bounds S X r"
  by (simp_all add: within_bounds_def put_record_def settleOutcome_def split: option.split)

lemma within_emits [intro]:
  "within_bounds S X r \<Longrightarrow> within_bounds S X (emit e r)"
  "within_bounds S X r \<Longrightarrow> within_bounds S X (publishSnapshot u r)"
  "within_bounds S X r \<Longrightarrow> within_bounds S X (terminate c r)"
  "within_bounds S X r \<Longrightarrow> within_bounds S X (close_socket c code r)"
  "within_bounds S X r \<Longrightarrow> within_bounds S X (client_close cl code r)"
  by (auto simp: within_bounds_def emit_def publishSnapshot_def terminate_def close_socket_def client_close_def)

lemma within_fold: "within_bounds S X r \<Longrightarrow> (\<And>x r. within_bounds S X r \<Longrightarrow> within_bounds S X (f x r)) \<Longrightarrow> within_bounds S X (fold f xs r)"
  by (induction xs arbitrary: r) simp_all

lemma within_release: "within_bounds S X r \<Longrightarrow> within_bounds S X (release t c r)"
proof -
  have tunnels: "within_bounds S X (drop_tunnels c r)" if "within_bounds S X r" for r
    unfolding drop_tunnels_def using that by (intro within_fold within_emits) (auto simp: within_bounds_def)
  have commands: "within_bounds S X (drop_commands t kind c r)" if "within_bounds S X r" for kind r
    unfolding drop_commands_def using that by (intro within_fold) (auto split: prod.split)
  have rest: "within_bounds S X (drop_prompts c r)" "within_bounds S X (drop_snapshot_requests c r)"
    "within_bounds S X (drop_catalog_requests c r)" if "within_bounds S X r" for r
    using that by (auto simp: within_bounds_def drop_prompts_def drop_snapshot_requests_def drop_catalog_requests_def)
  assume "within_bounds S X r"
  then show ?thesis unfolding release_def by (intro tunnels commands rest)
qed

lemma within_kept:
  "within_bounds S X r \<Longrightarrow> within_bounds S X (disconnect E t c r)"
  "within_bounds S X r \<Longrightarrow> within_bounds S X (promote E t okey u r)"
  "within_bounds S X r \<Longrightarrow> within_bounds S X (send E t c m r)"
proof (induction E t c r and E t okey u r and E t c m r rule: disconnect_promote_send.induct)
  case (1 E t c r)
  have "within_bounds S X (release t c (r\<lparr>connections := removeAll c (connections r)\<rparr>))"
    using "1.prems" by (intro within_release) (auto simp: within_bounds_def)
  then show ?case
    using 1 by (subst disconnect.simps) (auto simp: Let_def split: option.split)
next
  case (2 E t okey u r)
  then show ?case by (subst promote.simps) (auto simp: Let_def split: list.split option.split)
next
  case (3 E t c m r)
  then show ?case by (subst send.simps) (auto split: send_fate.split)
qed

lemma within_disconnect: "within_bounds S X r \<Longrightarrow> within_bounds (S - {c}) X (disconnect E t c r)"
proof -
  assume "within_bounds S X r"
  then have "within_bounds (S - {c}) X (release t c (r\<lparr>connections := removeAll c (connections r)\<rparr>))"
    by (intro within_release) (auto simp: within_bounds_def)
  moreover have "c \<notin> set (connections r) \<Longrightarrow> within_bounds (S - {c}) X r"
    using \<open>within_bounds S X r\<close> by (auto simp: within_bounds_def)
  ultimately show ?thesis
    by (subst disconnect.simps) (auto simp: Let_def within_kept split: option.split)
qed


definition connections_of_key :: "jstr \<Rightarrow> registry \<Rightarrow> nat set" where
  "connections_of_key i r = {c \<in> set (connections r). vk_id (cc_auth (connection_of r c)) = i}"

lemma connection_of_close [simp]: "connection_of (close_socket c code (disconnect E t c' r)) = connection_of r"
  by (simp add: connection_of_frame)

text \<open>The loop of \<open>revokeKey\<close> over the connections it started with.\<close>

lemma revoke_loop:
  fixes E t i
  defines "drop_one \<equiv> \<lambda>c r. if vk_id (cc_auth (connection_of r c)) \<noteq> i then r
                     else close_socket c CONTROL_CLOSE_KEY_REVOKED (disconnect E t c r)"
  assumes "within_bounds S X r"
  shows "connection_of (fold drop_one cs r) = connection_of r \<and>
    within_bounds (S - {c \<in> set cs. vk_id (cc_auth (connection_of r c)) = i})
      (X \<union> (\<lambda>c. Closed c CONTROL_CLOSE_KEY_REVOKED) ` {c \<in> set cs. vk_id (cc_auth (connection_of r c)) = i}) (fold drop_one cs r)"
  using assms(2)
proof (induction cs arbitrary: r S X)
  case (Cons c cs)
  let ?r = "drop_one c r"
  have conn: "connection_of ?r = connection_of r"
    using connection_of_close by (simp add: drop_one_def)
  show ?case
  proof (cases "vk_id (cc_auth (connection_of r c)) = i")
    case True
    have "within_bounds (S - {c}) (insert (Closed c CONTROL_CLOSE_KEY_REVOKED) X) ?r"
      using within_disconnect [OF Cons.prems, of c E t] True
      by (simp add: drop_one_def within_bounds_def close_socket_def emit_def) blast
    note ih = Cons.IH [OF this]
    have split: "{c' \<in> set (c # cs). vk_id (cc_auth (connection_of r c')) = i} =
        insert c {c' \<in> set cs. vk_id (cc_auth (connection_of r c')) = i}" using True by auto
    have less: "S - insert c B = S - {c} - B" for B by blast
    from ih show ?thesis
      unfolding split less [of "{c' \<in> set cs. vk_id (cc_auth (connection_of r c')) = i}"]
      by (simp only: conn fold.simps(2) comp_apply image_insert Un_insert_left Un_insert_right)
  next
    case False
    then have "?r = r" by (simp add: drop_one_def)
    moreover have "{c' \<in> set (c # cs). vk_id (cc_auth (connection_of r c')) = i} =
        {c' \<in> set cs. vk_id (cc_auth (connection_of r c')) = i}" using False by auto
    ultimately show ?thesis using Cons.IH [OF Cons.prems] by simp
  qed
qed simp

lemma revokeKey_cuts:
  "connections_of_key i (revokeKey E t i r) = {}"
  "\<forall>c \<in> connections_of_key i r. Closed c CONTROL_CLOSE_KEY_REVOKED \<in> set (effects (revokeKey E t i r))"
  "set (connections (revokeKey E t i r)) \<subseteq> set (connections r)"
  using revoke_loop [where S = "set (connections r)" and X = "{}" and r = r and cs = "connections r" and E = E and t = t and i = i]
  by (auto simp: revokeKey_def connections_of_key_def within_bounds_def)

text \<open>The row of a revoked key stays revoked and its id taken.\<close>

definition dead_row :: "jstr \<Rightarrow> ingest_row list \<Rightarrow> bool" where
  "dead_row i rows \<longleftrightarrow> i \<in> set (map ik_id rows) \<and> (\<forall>row \<in> set rows. ik_id row = i \<longrightarrow> ik_revokedAt row \<noteq> None)"

lemma dead_row_step: "dead_row i rows \<Longrightarrow> dead_row i (key_step op rows)"
  by (cases op) (force simp: dead_row_def key_step_def create_key_def Let_def revoke_key_def record_use_def image_iff)+

lemma dead_row_run: "dead_row i rows \<Longrightarrow> dead_row i (fold key_step ops rows)"
  by (induction ops arbitrary: rows) (simp_all add: dead_row_step)

lemma dead_row_refused:
  assumes "dead_row i rows" "plugin_upgrade sha rows header = Inr v"
  shows "vk_id v \<noteq> i"
  using assms
  by (auto simp: plugin_upgrade_def verify_def dead_row_def findActiveByKeyId_def find_Some_iff Let_def
      split: option.splits if_splits)

lemma revoked_is_dead:
  assumes "distinct (map ik_id rows)" "revoke_key u i t rows = (rows', True)"
  shows "dead_row i rows'"
proof -
  from assms(2) obtain r where r: "r \<in> set rows" "owned_active u i r"
    and rows': "rows' = map (\<lambda>r. if owned_active u i r then r\<lparr>ik_revokedAt := Some t\<rparr> else r) rows"
    by (auto simp: revoke_key_def)
  have same: "row = r" if "row \<in> set rows" "ik_id row = i" for row
    using assms(1) that r by (auto simp: distinct_map inj_on_def owned_active_def)
  have "i \<in> set (map ik_id rows')"
    using r by (force simp: rows' owned_active_def)
  moreover have "ik_revokedAt row' \<noteq> None" if "row' \<in> set rows'" "ik_id row' = i" for row'
    using that same r(2) by (auto simp: rows' split: if_splits)
  ultimately show ?thesis by (simp add: dead_row_def)
qed

text \<open>
  C3: A key that its owner has revoked is cut off. After the 204, in whatever spelling of its id, no upgrade
  is let in as that key, after any later creations, uses and revocations of keys. Each control connection
  of the key with the id as it was spelled in the request is closed and gone from the registry with the
  reply, and no other connection is added: these are all the key's connections when the request spells the
  id as the database does, and none in another spelling, where they stay open (the next theorem).
\<close>

theorem revoked_key_is_cut_off:
  assumes "distinct (map ik_id (ks_rows s))"
    and "serve_key K (Some u) (DeleteIngestKey i t) s = (s', Success 204 KeyRevoked)"
  shows "(\<forall>ops header v. plugin_upgrade sha (fold key_step ops (ks_rows s')) header = Inr v \<longrightarrow> vk_id v \<noteq> ke_canon K i) \<and>
    connections_of_key i (ks_registry s') = {} \<and>
    (\<forall>c \<in> connections_of_key i (ks_registry s). Closed c CONTROL_CLOSE_KEY_REVOKED \<in> set (effects (ks_registry s'))) \<and>
    set (connections (ks_registry s')) \<subseteq> set (connections (ks_registry s))"
proof -
  obtain rows where rows: "revoke_key u (ke_canon K i) t (ks_rows s) = (rows, True)"
    and s': "s' = s\<lparr>ks_rows := rows, ks_registry := revokeKey (ke_runtime K) t i (ks_registry s)\<rparr>"
    using assms(2) by (auto simp: serve_key_def handle_key_def delete_ingest_key_def split: if_splits prod.splits)
  have "dead_row (ke_canon K i) (fold key_step ops rows)" for ops
    using dead_row_run revoked_is_dead [OF assms(1) rows] by blast
  then show ?thesis using dead_row_refused revokeKey_cuts unfolding s' by fastforce
qed

text \<open>
  In another spelling of the same id, which the pattern of the route and the database accept, the key is
  revoked and 204 answered, but the registry is not touched: control connections of the key stay
  open.
\<close>

theorem respelled_revocation_keeps_connections:
  assumes "UUID_PATTERN i" "\<exists>row \<in> set (ks_rows s). owned_active u (ke_canon K i) row"
    and "connections_of_key i (ks_registry s) = {}"
  shows "\<exists>s'. serve_key K (Some u) (DeleteIngestKey i t) s = (s', Success 204 KeyRevoked) \<and>
    ks_registry s' = ks_registry s \<and>
    list_all (\<lambda>row. ik_id row = ke_canon K i \<longrightarrow> ik_userId row = u \<longrightarrow> ik_revokedAt row \<noteq> None) (ks_rows s')"
proof -
  have "revokeKey E t i r = r" if "connections_of_key i r = {}" for E r
  proof -
    have "fold (\<lambda>c r. if vk_id (cc_auth (connection_of r c)) \<noteq> i then r
        else close_socket c CONTROL_CLOSE_KEY_REVOKED (disconnect E t c r)) cs r = r" if "set cs \<subseteq> set (connections r)" for cs
      using that \<open>connections_of_key i r = {}\<close> by (induction cs) (auto simp: connections_of_key_def)
    then show ?thesis by (simp add: revokeKey_def)
  qed
  then show ?thesis
    using assms
    by (auto simp: serve_key_def handle_key_def delete_ingest_key_def revoke_key_def owned_active_def list_all_iff)
qed

text \<open>A key with one control connection, and a database that lowers letters.\<close>

definition sample_key_id :: "string \<Rightarrow> jstr" where
  "sample_key_id x = js (x @ x @ ''-'' @ x @ ''-'' @ x @ ''-'' @ x @ ''-'' @ x @ x @ x)"

definition sample_key_env :: key_env where
  "sample_key_env =
     \<lparr>ke_sha = id, ke_canon = map (\<lambda>u. if 65 \<le> u \<and> u \<le> 90 then u + 32 else u), ke_invalid = (\<lambda>_. []),
      ke_runtime = demo_runtime\<rparr>"

definition sample_key_rows :: "ingest_row list" where
  "sample_key_rows =
     [\<lparr>ik_id = sample_key_id ''abcd'', ik_userId = js ''u'', ik_keyId = js ''k'', ik_secretHash = js ''h'', ik_name = js ''n'',
       ik_createdAt = 0, ik_lastUsedAt = None, ik_revokedAt = None\<rparr>]"

definition sample_key_state :: key_state where
  "sample_key_state =
     \<lparr>ks_rows = sample_key_rows,
      ks_registry = add_connection \<lparr>vk_id = sample_key_id ''abcd'', vk_userId = js ''u'', vk_keyId = js ''k''\<rparr> (new_registry 600000 1024)\<rparr>"

lemma sample_key_facts:
  "UUID_PATTERN (sample_key_id ''abcd'')" "UUID_PATTERN (sample_key_id ''ABCD'')"
  "ke_canon sample_key_env (sample_key_id ''abcd'') = sample_key_id ''abcd''"
  "ke_canon sample_key_env (sample_key_id ''ABCD'') = sample_key_id ''abcd''"
  "sample_key_id ''ABCD'' \<noteq> sample_key_id ''abcd''"
  "distinct (map ik_id (ks_rows sample_key_state))"
  "\<exists>row \<in> set (ks_rows sample_key_state). owned_active (js ''u'') (sample_key_id ''abcd'') row"
proof -
  show "UUID_PATTERN (sample_key_id ''abcd'')" "UUID_PATTERN (sample_key_id ''ABCD'')"
    "ke_canon sample_key_env (sample_key_id ''abcd'') = sample_key_id ''abcd''"
    "ke_canon sample_key_env (sample_key_id ''ABCD'') = sample_key_id ''abcd''"
    "sample_key_id ''ABCD'' \<noteq> sample_key_id ''abcd''"
    by code_simp+
qed (simp_all add: sample_key_state_def sample_key_rows_def owned_active_def)

lemma sample_key_connection:
  "connections_of_key i (ks_registry sample_key_state) = (if i = sample_key_id ''abcd'' then {0} else {})"
  by (auto simp: connections_of_key_def sample_key_state_def add_connection_def new_registry_def Let_def)

lemma revoked_key_is_cut_off_witness:
  "\<exists>s'. serve_key sample_key_env (Some (js ''u'')) (DeleteIngestKey (sample_key_id ''abcd'') 5) sample_key_state =
       (s', Success 204 KeyRevoked) \<and>
     Closed 0 CONTROL_CLOSE_KEY_REVOKED \<in> set (effects (ks_registry s')) \<and>
     connections_of_key (sample_key_id ''abcd'') (ks_registry s') = {}"
proof -
  have "snd (revoke_key (js ''u'') (sample_key_id ''abcd'') 5 (ks_rows sample_key_state))"
    using sample_key_facts(7) by (simp only: revoke_key_def snd_conv)
  then obtain rows where "revoke_key (js ''u'') (sample_key_id ''abcd'') 5 (ks_rows sample_key_state) = (rows, True)"
    by (cases "revoke_key (js ''u'') (sample_key_id ''abcd'') 5 (ks_rows sample_key_state)") simp
  then obtain s' where s': "serve_key sample_key_env (Some (js ''u'')) (DeleteIngestKey (sample_key_id ''abcd'') 5)
      sample_key_state = (s', Success 204 KeyRevoked)"
    by (simp add: serve_key_def handle_key_def delete_ingest_key_def sample_key_facts(1,3))
  from revoked_key_is_cut_off [OF sample_key_facts(6) s', where sha = id]
  have "connections_of_key (sample_key_id ''abcd'') (ks_registry s') = {}"
    "\<forall>c \<in> connections_of_key (sample_key_id ''abcd'') (ks_registry sample_key_state).
       Closed c CONTROL_CLOSE_KEY_REVOKED \<in> set (effects (ks_registry s'))" by blast+
  with s' show ?thesis
    unfolding sample_key_connection by (intro exI [of _ s']) simp
qed

lemma respelled_revocation_keeps_connections_witness:
  "\<exists>s'. serve_key sample_key_env (Some (js ''u'')) (DeleteIngestKey (sample_key_id ''ABCD'') 5) sample_key_state =
       (s', Success 204 KeyRevoked) \<and> connections_of_key (sample_key_id ''abcd'') (ks_registry s') = {0}"
proof -
  have row: "\<exists>row \<in> set (ks_rows sample_key_state). owned_active (js ''u'') (ke_canon sample_key_env (sample_key_id ''ABCD'')) row"
    unfolding sample_key_facts(4) by (rule sample_key_facts(7))
  have none: "connections_of_key (sample_key_id ''ABCD'') (ks_registry sample_key_state) = {}"
    unfolding sample_key_connection by (rule if_not_P [OF sample_key_facts(5)])
  obtain s' where "serve_key sample_key_env (Some (js ''u'')) (DeleteIngestKey (sample_key_id ''ABCD'') 5) sample_key_state =
       (s', Success 204 KeyRevoked)" "ks_registry s' = ks_registry sample_key_state"
    using respelled_revocation_keeps_connections [OF sample_key_facts(2) row none] by blast
  moreover have "connections_of_key (sample_key_id ''abcd'') (ks_registry sample_key_state) = {0}"
    unfolding sample_key_connection by (rule if_P [OF refl])
  ultimately show ?thesis by (intro exI [of _ s']) simp
qed

end
