(* ===== verification/Lifecycle.thy ===== *)
theory Lifecycle
  imports GatewayConfig HttpErrors "HOL-Library.List_Lexorder"
begin

section \<open>Starting, probing and stopping the gateway\<close>

text \<open>
  \<open>modules/fcm/firebase-app.ts\<close> (the service account and the process-wide app of its project),
  \<open>db/migrate.ts\<close> (whether the applied migrations are the bundled ones), \<open>health/health.routes.ts\<close> over both, and
  \<open>shutdown.ts\<close> as a state machine of its listeners, its sequence and its backstop. What the database, the file
  system and the Firebase library answer are arguments.
\<close>

subsection \<open>The service account\<close>

record service_account =
  sa_projectId :: jstr
  sa_clientEmail :: jstr
  sa_privateKey :: jstr

text \<open>The issue of an \<open>InvalidServiceAccountError\<close>, or the account.\<close>

definition parseServiceAccountJson :: "host \<Rightarrow> jstr \<Rightarrow> jstr + service_account" where
  "parseServiceAccountJson H text =
     (case parse_json H text of
        None \<Rightarrow> Inl (js ''must be valid JSON'')
      | Some v \<Rightarrow>
          if firebase_missing v \<noteq> []
          then Inl (js ''requires non-empty fields: '' @ join_with (js '', '') (map js (firebase_missing v)))
          else Inr \<lparr>sa_projectId = trim (body_field v ''project_id''), sa_clientEmail = trim (body_field v ''client_email''),
                    sa_privateKey = body_field v ''private_key''\<rparr>)"

definition app_name :: "service_account \<Rightarrow> jstr" where
  "app_name a = js ''notify-fcm-'' @ sa_projectId a"

text \<open>
  The names of the process's Firebase apps, in order; \<open>valid\<close> is whether the library takes the credential of an
  account. A result that is absent was thrown; otherwise it is the name of the app that sends.
\<close>

definition messagingFromServiceAccountJson ::
    "host \<Rightarrow> (service_account \<Rightarrow> bool) \<Rightarrow> jstr \<Rightarrow> jstr list \<Rightarrow> jstr list \<times> jstr option" where
  "messagingFromServiceAccountJson H valid text apps =
     (case parseServiceAccountJson H text of
        Inl _ \<Rightarrow> (apps, None)
      | Inr a \<Rightarrow>
          if app_name a \<in> set apps then (apps, Some (app_name a))
          else if valid a then (apps @ [app_name a], Some (app_name a))
          else (apps, None))"

lemma messaging_distinct:
  "distinct apps \<Longrightarrow> distinct (fst (messagingFromServiceAccountJson H valid text apps))"
  by (simp add: messagingFromServiceAccountJson_def split: sum.split)

lemma body_field_present: "f \<in> set FIREBASE_REQUIRED_FIELDS \<Longrightarrow> firebase_missing v = [] \<Longrightarrow> trim (body_field v f) \<noteq> []"
proof -
  assume "f \<in> set FIREBASE_REQUIRED_FIELDS" "firebase_missing v = []"
  then have "\<not> (case field v f of Some (JString s) \<Rightarrow> trim s = [] | _ \<Rightarrow> True)"
    unfolding firebase_missing_def filter_empty_conv by blast
  then show ?thesis by (simp add: body_field_def asString_def split: option.splits json.splits)
qed

text \<open>
  The two checks of the service account agree: the text of a configuration that has loaded is never refused
  by the Firebase module, its fields are filled in, and asking for the messaging service any number of times makes one
  app.
\<close>

theorem loaded_account_is_usable:
  assumes "load_gateway_config H C env = Inr c"
  shows "\<exists>a. parseServiceAccountJson H (gw_firebaseServiceAccountJson c) = Inr a \<and>
    sa_projectId a \<noteq> [] \<and> sa_clientEmail a \<noteq> [] \<and> sa_privateKey a \<noteq> [] \<and>
    (valid a \<longrightarrow> ((\<lambda>apps. fst (messagingFromServiceAccountJson H valid (gw_firebaseServiceAccountJson c) apps)) ^^ Suc n) [] =
       [app_name a])"
proof -
  have "fst (firebase_var H env) = []" using load_fields(1) [OF assms] by (simp add: all_issues_def)
  from firebase_ok [OF this] obtain v where v: "parse_json H (gw_firebaseServiceAccountJson c) = Some v" "firebase_missing v = []"
    unfolding load_fields(2) [OF assms] by auto
  let ?a = "\<lparr>sa_projectId = trim (body_field v ''project_id''), sa_clientEmail = trim (body_field v ''client_email''),
              sa_privateKey = body_field v ''private_key''\<rparr>"
  have parsed: "parseServiceAccountJson H (gw_firebaseServiceAccountJson c) = Inr ?a"
    using v by (simp add: parseServiceAccountJson_def)
  have full: "trim (body_field v f) \<noteq> []" if "f \<in> set FIREBASE_REQUIRED_FIELDS" for f
    using body_field_present that v(2) by blast
  have filled: "trim (body_field v ''project_id'') \<noteq> []" "trim (body_field v ''client_email'') \<noteq> []"
    "trim (body_field v ''private_key'') \<noteq> []" by (rule full, simp add: FIREBASE_REQUIRED_FIELDS_def)+
  then have key: "body_field v ''private_key'' \<noteq> []" by (auto simp: trim_def)
  have "((\<lambda>apps. fst (messagingFromServiceAccountJson H valid (gw_firebaseServiceAccountJson c) apps)) ^^ Suc n) [] = [app_name ?a]"
    if "valid ?a"
    using that by (induction n) (simp_all add: messagingFromServiceAccountJson_def parsed)
  then show ?thesis using parsed filled key by (intro exI [of _ ?a]) simp
qed

lemma loaded_account_is_usable_witness:
  "\<exists>c a. load_gateway_config gateway_host gateway_codec gateway_env = Inr c \<and>
     parseServiceAccountJson gateway_host (gw_firebaseServiceAccountJson c) = Inr a \<and> sa_projectId a \<noteq> []"
proof -
  obtain c where c: "load_gateway_config gateway_host gateway_codec gateway_env = Inr c"
    using load_issues [of gateway_host gateway_codec gateway_env] sample_no_issues by (metis sum.exhaust)
  from loaded_account_is_usable [OF c] c show ?thesis by blast
qed

subsection \<open>The schema\<close>

text \<open>
  The hashes of the bundled migrations and of the applied ones, absent when they cannot be read. \<open>sort\<close> orders texts by
  their code units, as the code's sort does.
\<close>

definition isSchemaCurrent :: "jstr list option \<Rightarrow> jstr list option \<Rightarrow> bool" where
  "isSchemaCurrent bundled rows =
     (case bundled of
        None \<Rightarrow> False
      | Some hashes \<Rightarrow>
          (case rows of
             None \<Rightarrow> False
           | Some found \<Rightarrow>
               let expected = sort hashes; applied = sort found in
               length applied = length expected \<and>
               list_all (\<lambda>n. applied ! n = expected ! n) [0..<length applied]))"

lemma isSchemaCurrent_mset:
  "isSchemaCurrent bundled rows \<longleftrightarrow> (\<exists>b a. bundled = Some b \<and> rows = Some a \<and> mset a = mset b)"
proof -
  have "(length (sort a) = length (sort b) \<and> list_all (\<lambda>n. sort a ! n = sort b ! n) [0..<length (sort a)]) \<longleftrightarrow> mset a = mset b"
    for a b :: "jstr list"
  proof -
    have "(length (sort a) = length (sort b) \<and> list_all (\<lambda>n. sort a ! n = sort b ! n) [0..<length (sort a)]) \<longleftrightarrow> sort a = sort b"
      unfolding list_eq_iff_nth_eq [of "sort a"] by (simp only: list_all_iff set_upt atLeast0LessThan lessThan_iff Ball_def)
    also have "\<dots> \<longleftrightarrow> mset a = mset b"
    proof
      assume "sort a = sort b"
      then have "mset (sort a) = mset (sort b)" by (rule arg_cong)
      then show "mset a = mset b" by simp
    next
      assume "mset a = mset b"
      then show "sort a = sort b" by (intro properties_for_sort) simp_all
    qed
    finally show ?thesis .
  qed
  then show ?thesis by (auto simp: isSchemaCurrent_def Let_def split: option.splits)
qed

subsection \<open>The probes\<close>

datatype check = DatabaseCheck | SchemaCheck | FirebaseCheck

record readiness_probe =
  pb_database :: bool  \<comment> \<open>there is a handle and \<open>select 1\<close> answers\<close>
  pb_bundled :: "jstr list option"
  pb_applied :: "jstr list option"
  pb_firebase :: bool  \<comment> \<open>the messaging service initialises\<close>

definition readiness_failures :: "readiness_probe \<Rightarrow> check list" where
  "readiness_failures p =
     (if \<not> pb_database p then [DatabaseCheck] else []) @
     (if pb_database p \<and> \<not> isSchemaCurrent (pb_bundled p) (pb_applied p) then [SchemaCheck] else []) @
     (if \<not> pb_firebase p then [FirebaseCheck] else [])"

definition health_live :: "jstr response" where
  "health_live = Success 200 (js ''ok'')"

text \<open>The reply, and the checks that the log names.\<close>

definition health_ready :: "readiness_probe \<Rightarrow> jstr response \<times> check list" where
  "health_ready p =
     (let failures = readiness_failures p in
      if failures \<noteq> [] then (Failure 503 SERVICE_UNAVAILABLE (js ''Service unavailable''), failures)
      else (Success 200 (js ''ok''), []))"

text \<open>
  The readiness probe answers 200 exactly when the database answers, the applied migrations are the bundled
  ones, each as often and in any order, and the push service initialises; otherwise the one generic 503, whatever has
  failed.
\<close>

theorem ready_exactly_when:
  "fst (health_ready p) =
     (if pb_database p \<and> (\<exists>b a. pb_bundled p = Some b \<and> pb_applied p = Some a \<and> mset a = mset b) \<and> pb_firebase p
      then Success 200 (js ''ok'') else Failure 503 SERVICE_UNAVAILABLE (js ''Service unavailable''))"
proof -
  have "readiness_failures p = [] \<longleftrightarrow>
      pb_database p \<and> isSchemaCurrent (pb_bundled p) (pb_applied p) \<and> pb_firebase p"
    by (auto simp: readiness_failures_def)
  then show ?thesis unfolding isSchemaCurrent_mset by (simp add: health_ready_def Let_def)
qed

subsection \<open>Shutdown\<close>

text \<open>
  Where the sequence is: \<open>app.close()\<close> pending, then \<open>closeDatabase()\<close> pending, with whether a step has failed.
\<close>

datatype drain = NotStarted | ClosingApp | ClosingDatabase bool | Drained

record shutdown_state =
  sd_listening :: bool
  sd_drain :: drain
  sd_settled :: bool
  sd_backstop :: bool
  sd_exits :: "int list"

datatype shutdown_op =
    OsSignal
  | CallShutdown
  | AppClosed bool
  | DatabaseClosed bool
  | BackstopFires
  | Uninstall

definition installGracefulShutdown :: shutdown_state where
  "installGracefulShutdown =
     \<lparr>sd_listening = True, sd_drain = NotStarted, sd_settled = False, sd_backstop = False, sd_exits = []\<rparr>"

definition shutdown :: "shutdown_state \<Rightarrow> shutdown_state" where
  "shutdown s =
     (if sd_drain s \<noteq> NotStarted then s
      else s\<lparr>sd_listening := False, sd_settled := False, sd_backstop := True, sd_drain := ClosingApp\<rparr>)"

text \<open>
  A step settles, well or not. The timer's callback may still run after \<open>cancelBackstop\<close>, when it was already due, so
  it is not asked here whether the timer is armed.
\<close>

fun shutdown_step :: "shutdown_op \<Rightarrow> shutdown_state \<Rightarrow> shutdown_state" where
  "shutdown_step OsSignal s = (if sd_listening s then shutdown s else s)"
| "shutdown_step CallShutdown s = shutdown s"
| "shutdown_step (AppClosed ok) s =
     (if sd_drain s = ClosingApp then s\<lparr>sd_drain := ClosingDatabase (\<not> ok)\<rparr> else s)"
| "shutdown_step (DatabaseClosed ok) s =
     (case sd_drain s of
        ClosingDatabase failed \<Rightarrow>
          let s1 = s\<lparr>sd_drain := Drained, sd_backstop := False\<rparr> in
          if sd_settled s1 then s1
          else s1\<lparr>sd_settled := True, sd_exits := sd_exits s1 @ [if failed \<or> \<not> ok then 1 else 0]\<rparr>
      | _ \<Rightarrow> s)"
| "shutdown_step BackstopFires s =
     (if sd_drain s = NotStarted \<or> sd_settled s then s
      else s\<lparr>sd_settled := True, sd_exits := sd_exits s @ [1]\<rparr>)"
| "shutdown_step Uninstall s = s\<lparr>sd_listening := False\<rparr>"

definition shutdown_run :: "shutdown_op list \<Rightarrow> shutdown_state" where
  "shutdown_run ops = fold shutdown_step ops installGracefulShutdown"

text \<open>What the steps of a run have brought: the last results of the two steps that the sequence has waited for.\<close>

definition shutdown_inv :: "shutdown_op list \<Rightarrow> shutdown_state \<Rightarrow> bool" where
  "shutdown_inv ops s \<longleftrightarrow>
     (sd_settled s = (sd_exits s \<noteq> [])) \<and> length (sd_exits s) \<le> 1 \<and> set (sd_exits s) \<subseteq> {0, 1} \<and>
     (sd_drain s = NotStarted \<longrightarrow> \<not> sd_settled s) \<and>
     (sd_drain s = Drained \<longrightarrow> sd_settled s) \<and>
     (sd_drain s = ClosingDatabase False \<longrightarrow> AppClosed True \<in> set ops) \<and>
     (0 \<in> set (sd_exits s) \<longrightarrow> AppClosed True \<in> set ops \<and> DatabaseClosed True \<in> set ops \<and> sd_drain s = Drained)"

lemma shutdown_inv_step: "shutdown_inv ops s \<Longrightarrow> shutdown_inv (ops @ [op]) (shutdown_step op s)"
  by (cases op) (auto simp: shutdown_inv_def shutdown_def Let_def split: drain.split)

lemma shutdown_inv_run: "shutdown_inv ops (shutdown_run ops)"
proof (induction ops rule: rev_induct)
  case Nil
  show ?case by (simp add: shutdown_inv_def shutdown_run_def installGracefulShutdown_def)
next
  case (snoc op ops)
  then show ?case using shutdown_inv_step by (simp add: shutdown_run_def)
qed


text \<open>
  C27: Whatever signals, calls, results and timers come, in any order, the process is told to exit at most once,
  with 0 or 1: with 0 only when the application and then the database have closed well. Once a shutdown has begun
  and either the backstop has fired or the sequence has run out, the exit has been given.
\<close>

theorem exits_exactly_once:
  "length (sd_exits (shutdown_run ops)) \<le> 1 \<and>
   (sd_exits (shutdown_run ops) = [0] \<longrightarrow> AppClosed True \<in> set ops \<and> DatabaseClosed True \<in> set ops) \<and>
   (sd_drain (shutdown_run ops) \<noteq> NotStarted \<longrightarrow>
      length (sd_exits (shutdown_run (ops @ [BackstopFires]))) = 1 \<and>
      length (sd_exits (shutdown_run (ops @ [AppClosed a, DatabaseClosed b]))) = 1)"
proof -
  have inv: "shutdown_inv ops (shutdown_run ops)" for ops by (rule shutdown_inv_run)
  have one: "length (sd_exits (shutdown_run ops')) = 1" if "sd_settled (shutdown_run ops')" for ops'
    using inv [of ops'] that by (cases "sd_exits (shutdown_run ops')") (auto simp: shutdown_inv_def)
  have fired: "sd_settled (shutdown_run (ops @ [BackstopFires]))" if "sd_drain (shutdown_run ops) \<noteq> NotStarted"
    using that by (auto simp: shutdown_run_def)
  have ran: "sd_settled (shutdown_run (ops @ [AppClosed a, DatabaseClosed b]))" if "sd_drain (shutdown_run ops) \<noteq> NotStarted"
    using that inv [of ops] by (cases "sd_drain (shutdown_run ops)") (auto simp: shutdown_run_def shutdown_inv_def Let_def)
  show ?thesis
    using inv [of ops] one fired ran by (auto simp: shutdown_inv_def)
qed

lemma exits_exactly_once_witness:
  "sd_exits (shutdown_run [OsSignal, AppClosed True, DatabaseClosed True]) = [0] \<and>
   length (sd_exits (shutdown_run [OsSignal, BackstopFires])) = 1"
proof -
  have "sd_drain (shutdown_run [OsSignal]) \<noteq> NotStarted"
    by (simp add: shutdown_run_def installGracefulShutdown_def shutdown_def)
  with exits_exactly_once [of "[OsSignal]"] have "length (sd_exits (shutdown_run [OsSignal, BackstopFires])) = 1" by simp
  then show ?thesis by (simp add: shutdown_run_def installGracefulShutdown_def shutdown_def)
qed

end
