(* ===== verification/AdminPanel.thy ===== *)
theory AdminPanel
  imports AuthProps GatewayConfig HttpErrors Contracts
begin

section \<open>The operator's panel\<close>

text \<open>
  \<open>modules/admin\<close>: the operator accounts and the whitelist of \<open>admin.repository.ts\<close>, the service of
  \<open>admin.service.ts\<close> over them and over the account tables of \<open>AuthStore\<close>, and the routes of \<open>admin.routes.ts\<close>.
  The constraints of \<open>db/schema.ts\<close> are part of a statement: the CHECK that a user name or a whitelist value is
  \<open>lower(btrim(..))\<close> of itself, and UNIQUE. The database's \<open>lower\<close> and its order of texts, the lower case of the
  language, the password functions, the codec of tokens and the formats of the validator are arguments. The page
  itself is not modelled.
\<close>

subsection \<open>Tables\<close>

record admin_row =
  ad_id :: jstr
  ad_username :: jstr
  ad_passwordHash :: jstr
  ad_updatedAt :: int

record admin_db =
  adb_admins :: "admin_row list"
  adb_whitelist :: "whitelist_entry list"
  adb_accounts :: auth_db

record admin_env =
  ae_lower :: "jstr \<Rightarrow> jstr"
  ae_pg_lower :: "jstr \<Rightarrow> jstr"
  ae_rank :: "jstr \<Rightarrow> nat"
  ae_hash :: "jstr \<Rightarrow> jstr"
  ae_verifyPassword :: "jstr \<Rightarrow> jstr \<Rightarrow> bool"
  ae_violation :: thrown
  ae_codec :: codec
  ae_signingKey :: bytes
  ae_email :: "jstr \<Rightarrow> bool"
  ae_uuid :: "jstr \<Rightarrow> bool"
  ae_seedUsername :: jstr
  ae_seedPassword :: jstr

definition btrim :: "jstr \<Rightarrow> jstr" where
  "btrim s = rev (dropWhile (\<lambda>u. u = 32) (rev (dropWhile (\<lambda>u. u = 32) s)))"

definition pg_normal :: "admin_env \<Rightarrow> jstr \<Rightarrow> bool" where
  "pg_normal A s \<longleftrightarrow> s = ae_pg_lower A (btrim s)"

text \<open>The statements; an absent result is an error of the driver.\<close>

definition ensureAdminAccount :: "admin_env \<Rightarrow> jstr \<Rightarrow> int \<Rightarrow> jstr \<Rightarrow> jstr \<Rightarrow> admin_db \<Rightarrow> admin_db option" where
  "ensureAdminAccount A rowId now uname passwordHash db =
     (if \<not> pg_normal A uname then None
      else if uname \<in> set (map ad_username (adb_admins db)) then Some db
      else if rowId \<in> set (map ad_id (adb_admins db)) then None
      else Some (db\<lparr>adb_admins := adb_admins db @
             [\<lparr>ad_id = rowId, ad_username = uname, ad_passwordHash = passwordHash, ad_updatedAt = now\<rparr>]\<rparr>))"

definition countAdminAccounts :: "admin_db \<Rightarrow> nat" where
  "countAdminAccounts db = length (take 1 (adb_admins db))"

definition findAdminByUsername :: "jstr \<Rightarrow> admin_db \<Rightarrow> admin_row option" where
  "findAdminByUsername uname db = List.find (\<lambda>a. ad_username a = uname) (adb_admins db)"

definition findAdminById :: "jstr \<Rightarrow> admin_db \<Rightarrow> admin_row option" where
  "findAdminById i db = List.find (\<lambda>a. ad_id a = i) (adb_admins db)"

definition updateAdminPassword :: "jstr \<Rightarrow> jstr \<Rightarrow> int \<Rightarrow> admin_db \<Rightarrow> admin_db" where
  "updateAdminPassword i passwordHash now db =
     db\<lparr>adb_admins := map (\<lambda>a. if ad_id a = i then a\<lparr>ad_passwordHash := passwordHash, ad_updatedAt := now\<rparr> else a) (adb_admins db)\<rparr>"

record admin_user =
  au_id :: jstr
  au_email :: jstr
  au_verified :: bool
  au_createdAt :: int

definition admin_user_of :: "user_row \<Rightarrow> admin_user" where
  "admin_user_of u =
     \<lparr>au_id = u_id u, au_email = u_email u, au_verified = (u_emailVerifiedAt u \<noteq> None), au_createdAt = u_createdAt u\<rparr>"

definition listUsers :: "admin_db \<Rightarrow> admin_user list" where
  "listUsers db = map admin_user_of (sort_key u_createdAt (users (adb_accounts db)))"

definition entry_value :: "whitelist_entry \<Rightarrow> jstr" where
  "entry_value w = (case w of DomainEntry v \<Rightarrow> v | EmailEntry v \<Rightarrow> v)"

definition listWhitelist :: "admin_env \<Rightarrow> admin_db \<Rightarrow> whitelist_entry list" where
  "listWhitelist A db = sort_key (\<lambda>w. ae_rank A (entry_value w)) (adb_whitelist db)"

text \<open>The delete and the insert are one transaction: a constraint that is hit undoes both.\<close>

definition replace_entries :: "admin_env \<Rightarrow> whitelist_entry list \<Rightarrow> admin_db \<Rightarrow> admin_db option" where
  "replace_entries A ws db =
     (if distinct (map entry_value ws) \<and> list_all (\<lambda>w. pg_normal A (entry_value w)) ws
      then Some (db\<lparr>adb_whitelist := ws\<rparr>) else None)"

subsection \<open>The service\<close>

datatype admin_error_kind = INVALID_CREDENTIALS | EMAIL_TAKEN | USER_NOT_FOUND | INVALID_WHITELIST_ENTRY

datatype admin_failure = AdminError admin_error_kind jstr | Uncaught

definition seedIfEmpty :: "admin_env \<Rightarrow> jstr \<Rightarrow> int \<Rightarrow> admin_db \<Rightarrow> admin_db option" where
  "seedIfEmpty A rowId now db =
     (if 0 < countAdminAccounts db then Some db
      else ensureAdminAccount A rowId now (ae_seedUsername A) (ae_hash A (ae_seedPassword A)) db)"

definition admin_login :: "admin_env \<Rightarrow> jstr \<Rightarrow> int \<Rightarrow> jstr \<Rightarrow> jstr \<Rightarrow> admin_db \<Rightarrow> admin_db \<times> (admin_failure + jstr)" where
  "admin_login A rowId now uname pw db =
     (let normalized = ae_lower A (trim uname) in
      case seedIfEmpty A rowId now db of
        None \<Rightarrow> (db, Inl Uncaught)
      | Some db' \<Rightarrow>
          (case findAdminByUsername normalized db' of
             None \<Rightarrow> (db', Inl (AdminError INVALID_CREDENTIALS (js ''Invalid username or password'')))
           | Some account \<Rightarrow>
               if \<not> ae_verifyPassword A (ad_passwordHash account) pw
               then (db', Inl (AdminError INVALID_CREDENTIALS (js ''Invalid username or password'')))
               else (db', Inr (sign_token (ae_codec A) (ae_signingKey A) now (ad_id account) (Some ADMIN_TOKEN_ROLE)
                                 (Some ADMIN_TOKEN_TTL_SECONDS)))))"

definition changePasswordFor :: "admin_env \<Rightarrow> int \<Rightarrow> jstr \<Rightarrow> jstr \<Rightarrow> jstr \<Rightarrow> admin_db \<Rightarrow> admin_db \<times> (admin_failure + unit)" where
  "changePasswordFor A now adminId currentPassword newPassword db =
     (case findAdminById adminId db of
        None \<Rightarrow> (db, Inl (AdminError INVALID_CREDENTIALS (js ''Current password is incorrect'')))
      | Some account \<Rightarrow>
          if \<not> ae_verifyPassword A (ad_passwordHash account) currentPassword
          then (db, Inl (AdminError INVALID_CREDENTIALS (js ''Current password is incorrect'')))
          else (updateAdminPassword adminId (ae_hash A newPassword) now db, Inr ()))"

definition admin_createUser :: "admin_env \<Rightarrow> jstr \<Rightarrow> int \<Rightarrow> jstr \<Rightarrow> jstr \<Rightarrow> admin_db \<Rightarrow> admin_db \<times> (admin_failure + admin_user)" where
  "admin_createUser A rowId now email pw db =
     (case createVerifiedUser (ae_violation A) rowId now (normalizeEmail (ae_lower A) email) (ae_hash A pw) (adb_accounts db) of
        Inl DuplicateEmailError \<Rightarrow> (db, Inl (AdminError EMAIL_TAKEN (js ''Email already registered'')))
      | Inl (DriverError _) \<Rightarrow> (db, Inl Uncaught)
      | Inr (accounts, u) \<Rightarrow>
          (db\<lparr>adb_accounts := accounts\<rparr>,
           Inr \<lparr>au_id = ur_id u, au_email = ur_email u, au_verified = (ur_emailVerifiedAt u \<noteq> None), au_createdAt = now\<rparr>))"

definition resetUserPassword :: "admin_env \<Rightarrow> int \<Rightarrow> jstr \<Rightarrow> jstr \<Rightarrow> admin_db \<Rightarrow> admin_db \<times> (admin_failure + unit)" where
  "resetUserPassword A now userId pw db =
     (case setUserPassword userId (ae_hash A pw) now (adb_accounts db) of
        (accounts, updated) \<Rightarrow>
          (db\<lparr>adb_accounts := accounts\<rparr>,
           if updated then Inr () else Inl (AdminError USER_NOT_FOUND (js ''User not found''))))"

subsection \<open>The whitelist\<close>

record whitelist =
  wl_domains :: "jstr list"
  wl_emails :: "jstr list"

definition MAX_WHITELIST_ENTRIES :: nat where "MAX_WHITELIST_ENTRIES = 1000"

definition getWhitelist :: "admin_env \<Rightarrow> admin_db \<Rightarrow> whitelist" where
  "getWhitelist A db =
     (let entries = listWhitelist A db in
      \<lparr>wl_domains = List.map_filter (\<lambda>w. case w of DomainEntry v \<Rightarrow> Some v | EmailEntry _ \<Rightarrow> None) entries,
       wl_emails = List.map_filter (\<lambda>w. case w of EmailEntry v \<Rightarrow> Some v | DomainEntry _ \<Rightarrow> None) entries\<rparr>)"

definition normalizeDomainValue :: "(jstr \<Rightarrow> jstr) \<Rightarrow> jstr \<Rightarrow> jstr" where
  "normalizeDomainValue lower value =
     (let s = lower (trim value) in if prefix (js ''*@'') s then drop 2 s else s)"

text \<open>Two or more labels of small letters, digits and inner hyphens, joined by dots.\<close>

definition label_unit :: "16 word \<Rightarrow> bool" where
  "label_unit u \<longleftrightarrow> 97 \<le> u \<and> u \<le> 122 \<or> 48 \<le> u \<and> u \<le> 57"

definition domain_shape :: "(16 word \<Rightarrow> bool) \<Rightarrow> jstr \<Rightarrow> bool" where
  "domain_shape ok s \<longleftrightarrow>
     (let labels = split_on [46] s in
      2 \<le> length labels \<and>
      list_all (\<lambda>l. l \<noteq> [] \<and> ok (hd l) \<and> ok (last l) \<and> list_all (\<lambda>u. ok u \<or> u = 45) l) labels)"

definition DOMAIN_PATTERN :: "jstr \<Rightarrow> bool" where
  "DOMAIN_PATTERN s = domain_shape label_unit s"

definition isValidEmailShape :: "jstr \<Rightarrow> bool" where
  "isValidEmailShape s \<longleftrightarrow>
     \<not> list_ex whitespace s \<and>
     (case split_on [64] s of
        [a, b] \<Rightarrow> a \<noteq> [] \<and> list_ex (\<lambda>i. b ! i = 46) [1..<length b - 1]
      | _ \<Rightarrow> False)"

definition valid_domain :: "jstr \<Rightarrow> bool" where
  "valid_domain value \<longleftrightarrow> \<not> (value = [] \<or> 253 < length value \<or> \<not> DOMAIN_PATTERN value)"

fun collect_domains :: "admin_env \<Rightarrow> jstr list \<Rightarrow> jstr list \<Rightarrow> admin_failure + jstr list" where
  "collect_domains A [] domains = Inr domains"
| "collect_domains A (raw # raws) domains =
     (let value = normalizeDomainValue (ae_lower A) raw in
      if \<not> valid_domain value
      then Inl (AdminError INVALID_WHITELIST_ENTRY
                  (js ''Invalid domain entry: '' @ (if raw = [] then js ''(empty)'' else raw)))
      else collect_domains A raws (if value \<in> set domains then domains else domains @ [value]))"

fun collect_emails :: "admin_env \<Rightarrow> jstr list \<Rightarrow> jstr list \<Rightarrow> admin_failure + jstr list" where
  "collect_emails A [] emails = Inr emails"
| "collect_emails A (raw # raws) emails =
     (let value = normalizeEmail (ae_lower A) raw in
      if \<not> isValidEmailShape value then Inl (AdminError INVALID_WHITELIST_ENTRY (js ''Invalid email entry: '' @ raw))
      else collect_emails A raws (if value \<in> set emails then emails else emails @ [value]))"

definition replaceWhitelist :: "admin_env \<Rightarrow> whitelist \<Rightarrow> admin_db \<Rightarrow> admin_db \<times> (admin_failure + whitelist)" where
  "replaceWhitelist A input db =
     (case collect_domains A (wl_domains input) [] of
        Inl e \<Rightarrow> (db, Inl e)
      | Inr domains \<Rightarrow>
          (case collect_emails A (wl_emails input) [] of
             Inl e \<Rightarrow> (db, Inl e)
           | Inr emails \<Rightarrow>
               if MAX_WHITELIST_ENTRIES < length domains \<or> MAX_WHITELIST_ENTRIES < length emails
               then (db, Inl (AdminError INVALID_WHITELIST_ENTRY (js ''Too many whitelist entries'')))
               else (case replace_entries A (map DomainEntry domains @ map EmailEntry emails) db of
                       None \<Rightarrow> (db, Inl Uncaught)
                     | Some db' \<Rightarrow> (db', Inr \<lparr>wl_domains = domains, wl_emails = emails\<rparr>))))"

subsection \<open>The routes\<close>

definition usernameProperty :: "jstr \<Rightarrow> bool" where
  "usernameProperty s \<longleftrightarrow> minLength 1 s \<and> maxLength 64 s"

definition admin_passwordProperty :: "jstr \<Rightarrow> bool" where
  "admin_passwordProperty s \<longleftrightarrow> minLength 8 s \<and> maxLength 128 s"

definition domainProperty :: "jstr \<Rightarrow> bool" where
  "domainProperty s \<longleftrightarrow> domain_shape (\<lambda>u. label_unit u \<or> 65 \<le> u \<and> u \<le> 90) s \<and> minLength 4 s \<and> maxLength 253 s"

definition adminLoginBodySchema :: "json \<Rightarrow> bool" where
  "adminLoginBodySchema = exact_object [(''username'', is_text usernameProperty), (''password'', is_text admin_passwordProperty)] []"

definition adminChangePasswordBodySchema :: "json \<Rightarrow> bool" where
  "adminChangePasswordBodySchema =
     exact_object [(''currentPassword'', is_text (\<lambda>s. minLength 1 s \<and> maxLength 128 s)),
       (''newPassword'', is_text admin_passwordProperty)] []"

definition adminCreateUserBodySchema :: "(jstr \<Rightarrow> bool) \<Rightarrow> json \<Rightarrow> bool" where
  "adminCreateUserBodySchema email =
     exact_object [(''email'', is_text email), (''password'', is_text admin_passwordProperty)] []"

definition adminResetPasswordBodySchema :: "json \<Rightarrow> bool" where
  "adminResetPasswordBodySchema = exact_object [(''password'', is_text admin_passwordProperty)] []"

definition text_array :: "nat \<Rightarrow> (jstr \<Rightarrow> bool) \<Rightarrow> json \<Rightarrow> bool" where
  "text_array maxItems ok v = (case v of JArray vs \<Rightarrow> length vs \<le> maxItems \<and> list_all (is_text ok) vs | _ \<Rightarrow> False)"

definition adminWhitelistSchema :: "(jstr \<Rightarrow> bool) \<Rightarrow> json \<Rightarrow> bool" where
  "adminWhitelistSchema email =
     exact_object [(''domains'', text_array 1000 domainProperty), (''emails'', text_array 1000 email)] []"

definition body_texts :: "json \<Rightarrow> string \<Rightarrow> jstr list" where
  "body_texts v name =
     (case field v name of
        Some (JArray vs) \<Rightarrow> List.map_filter (\<lambda>x. asString (Some x)) vs
      | _ \<Rightarrow> [])"

datatype admin_request =
    AdminLogin json
  | ChangePassword json
  | GetUsers
  | PostUser json
  | PostUserPassword jstr json
  | GetWhitelist
  | PutWhitelist json

datatype admin_body =
    NoAdminBody
  | AdminToken jstr
  | UserList nat "admin_user list"
  | UserBody admin_user
  | WhitelistBody whitelist

fun admin_schema :: "admin_env \<Rightarrow> admin_request \<Rightarrow> bool" where
  "admin_schema A (AdminLogin v) = adminLoginBodySchema v"
| "admin_schema A (ChangePassword v) = adminChangePasswordBodySchema v"
| "admin_schema A (PostUser v) = adminCreateUserBodySchema (ae_email A) v"
| "admin_schema A (PostUserPassword i v) \<longleftrightarrow> ae_uuid A i \<and> adminResetPasswordBodySchema v"
| "admin_schema A (PutWhitelist v) = adminWhitelistSchema (ae_email A) v"
| "admin_schema A _ = True"

fun sendAdminError :: "admin_failure \<Rightarrow> admin_body response" where
  "sendAdminError (AdminError admin_error_kind.INVALID_CREDENTIALS m) = Failure 401 error_code.INVALID_CREDENTIALS m"
| "sendAdminError (AdminError admin_error_kind.EMAIL_TAKEN m) = Failure 409 error_code.EMAIL_TAKEN m"
| "sendAdminError (AdminError USER_NOT_FOUND m) = Failure 404 NOT_FOUND m"
| "sendAdminError (AdminError INVALID_WHITELIST_ENTRY m) = Failure 400 VALIDATION_FAILED m"
| "sendAdminError admin_failure.Uncaught = setErrorHandler (thrown_error [])"

definition admin_answer :: "int \<Rightarrow> ('a \<Rightarrow> admin_body) \<Rightarrow> 'db \<times> (admin_failure + 'a) \<Rightarrow> 'db \<times> admin_body response" where
  "admin_answer st body = (\<lambda>(db, result).
     (db, case result of Inl e \<Rightarrow> sendAdminError e | Inr x \<Rightarrow> Success st (body x)))"

definition requireAdmin :: "codec \<Rightarrow> bytes \<Rightarrow> int \<Rightarrow> jstr option \<Rightarrow> jstr option" where
  "requireAdmin C key nowMs header =
     (case bearer_credential header of
        None \<Rightarrow> None
      | Some token \<Rightarrow>
          (case AccessTokens.verify_token C key nowMs token of
             None \<Rightarrow> None
           | Some c \<Rightarrow> if cl_role c \<noteq> Some (JString ADMIN_TOKEN_ROLE) then None else Some (cl_sub c)))"

text \<open>The handlers behind the guard, for the operator \<open>adminId\<close>; the id and the time of a new row are arguments.\<close>

fun handle_admin :: "admin_env \<Rightarrow> jstr \<Rightarrow> int \<Rightarrow> jstr \<Rightarrow> admin_request \<Rightarrow> admin_db \<Rightarrow> admin_db \<times> admin_body response" where
  "handle_admin A rowId now adminId (ChangePassword v) db =
     admin_answer 204 (\<lambda>_. NoAdminBody)
       (changePasswordFor A now adminId (body_field v ''currentPassword'') (body_field v ''newPassword'') db)"
| "handle_admin A rowId now adminId GetUsers db = (db, Success 200 (UserList (length (listUsers db)) (listUsers db)))"
| "handle_admin A rowId now adminId (PostUser v) db =
     admin_answer 201 UserBody (admin_createUser A rowId now (body_field v ''email'') (body_field v ''password'') db)"
| "handle_admin A rowId now adminId (PostUserPassword i v) db =
     admin_answer 204 (\<lambda>_. NoAdminBody) (resetUserPassword A now i (body_field v ''password'') db)"
| "handle_admin A rowId now adminId GetWhitelist db = (db, Success 200 (WhitelistBody (getWhitelist A db)))"
| "handle_admin A rowId now adminId (PutWhitelist v) db =
     admin_answer 204 (\<lambda>_. NoAdminBody)
       (replaceWhitelist A \<lparr>wl_domains = body_texts v ''domains'', wl_emails = body_texts v ''emails''\<rparr> db)"
| "handle_admin A rowId now adminId (AdminLogin v) db =
     admin_answer 200 AdminToken (admin_login A rowId now (body_field v ''username'') (body_field v ''password'') db)"

definition serve_admin ::
    "admin_env \<Rightarrow> jstr \<Rightarrow> int \<Rightarrow> jstr option \<Rightarrow> admin_request \<Rightarrow> admin_db \<Rightarrow> admin_db \<times> admin_body response" where
  "serve_admin A rowId now header req db =
     (if \<not> admin_schema A req
      then (db, setErrorHandler \<lparr>he_validation = True, he_statusCode = Some 400, he_message = []\<rparr>)
      else case req of
             AdminLogin _ \<Rightarrow> handle_admin A rowId now [] req db
           | _ \<Rightarrow>
               (case requireAdmin (ae_codec A) (ae_signingKey A) now header of
                  None \<Rightarrow> (db, Failure 401 UNAUTHORIZED (js ''Missing or invalid admin token''))
                | Some adminId \<Rightarrow> handle_admin A rowId now adminId req db))"

subsection \<open>The operator's login\<close>

text \<open>
  C21: On an empty table the configured operator, whose name is in the form the database takes for normal, can log
  in in any spelling that trims and lowers to it. The account is created then, and the token opens the panel as that
  account for twelve hours from its second of issue and no longer. The guard of the users' routes and the upgrade of
  the web interface refuse it; the upgrade of the users' realtime connection checks no role and takes it, for as long.
\<close>

theorem first_login_opens_panel:
  assumes "adb_admins db = []" "pg_normal A (ae_seedUsername A)"
    and "admin_schema A (AdminLogin v)" "ae_lower A (trim (body_field v ''username'')) = ae_seedUsername A"
    and "ae_verifyPassword A (ae_hash A (ae_seedPassword A)) (body_field v ''password'')"
    and "codec_ok (ae_codec A) {signed_payload now rowId (Some ADMIN_TOKEN_ROLE) (Some ADMIN_TOKEN_TTL_SECONDS)}"
  shows "\<exists>db' token. serve_admin A rowId now header (AdminLogin v) db = (db', Success 200 (AdminToken token)) \<and>
    map ad_username (adb_admins db') = [ae_seedUsername A] \<and>
    requireAdmin (ae_codec A) (ae_signingKey A) t (Some (bearer @ token)) =
      (if t div 1000 < now div 1000 + 12 * 60 * 60 then Some rowId else None) \<and>
    authenticate (ae_codec A) (ae_signingKey A) t (Some (bearer @ token)) = None \<and>
    webui_upgrade (ae_codec A) (ae_signingKey A) t origins (Some (bearer @ token)) None = Unauthorized \<and>
    ws_upgrade (ae_codec A) (ae_signingKey A) t origins (Some (bearer @ token)) None =
      (if t div 1000 < now div 1000 + 12 * 60 * 60 then Upgraded rowId (Finite (of_int (now div 1000 + 12 * 60 * 60)))
       else Unauthorized)"
proof -
  note verified = verify_sign [OF assms(6), where key = "ae_signingKey A" and t' = t, simplified]
  show ?thesis
    using assms(1-5)
    by (simp add: serve_admin_def admin_answer_def admin_login_def Let_def seedIfEmpty_def countAdminAccounts_def
        ensureAdminAccount_def findAdminByUsername_def requireAdmin_def authenticate_def webui_upgrade_def ws_upgrade_def
        verified ADMIN_TOKEN_TTL_SECONDS_def)
qed

text \<open>A history of requests, each with the id of a new row, its time and its authorization header.\<close>

type_synonym admin_call = "jstr \<times> int \<times> jstr option \<times> admin_request"

fun serve_admins :: "admin_env \<Rightarrow> admin_call list \<Rightarrow> admin_db \<Rightarrow> admin_db \<times> admin_body response list" where
  "serve_admins A [] db = (db, [])"
| "serve_admins A ((rowId, now, header, req) # calls) db =
     (let (db1, reply) = serve_admin A rowId now header req db; (db2, replies) = serve_admins A calls db1
      in (db2, reply # replies))"

definition locked_out_reply :: "admin_env \<Rightarrow> admin_call \<Rightarrow> admin_body response" where
  "locked_out_reply A = (\<lambda>(rowId, now, header, req).
     if \<not> admin_schema A req then Failure 400 VALIDATION_FAILED []
     else case req of
            AdminLogin _ \<Rightarrow> Failure 500 INTERNAL (js ''Internal server error'')
          | _ \<Rightarrow> Failure 401 UNAUTHORIZED (js ''Missing or invalid admin token''))"

text \<open>
  C32: A configured operator name that is not in the database's normal form, such as one with a capital letter, is
  accepted by the configuration and never by the table. As long as it stays configured, from a table without an
  operator on, over any history of requests of which none carries a token that passes the guard (such tokens come
  from logins only): every login attempt with a valid body, whatever its credentials, is answered with the 500 of an
  uncaught error, everything else with 400 or 401, no token is given out, and the table stays empty.
\<close>

theorem capital_operator_locked_out:
  assumes "env_text env ''ADMIN_USERNAME'' = Some u" "length u \<le> 64" "ae_seedUsername A = snd (admin_username env)"
    and "\<not> pg_normal A u" "adb_admins db = []"
    and "\<forall>(rowId, now, header, req) \<in> set calls. requireAdmin (ae_codec A) (ae_signingKey A) now header = None"
  shows "fst (admin_username env) = [] \<and> serve_admins A calls db = (db, map (locked_out_reply A) calls)"
proof -
  have seed: "ae_seedUsername A = u" "fst (admin_username env) = []"
    using assms(1-3) by (simp_all add: admin_username_def)
  have "serve_admin A rowId now header req db = (db, locked_out_reply A (rowId, now, header, req))"
    if "requireAdmin (ae_codec A) (ae_signingKey A) now header = None" for rowId now header req
    using that assms(4,5) seed(1)
    by (cases req) (simp_all add: serve_admin_def locked_out_reply_def admin_answer_def admin_login_def Let_def
      seedIfEmpty_def countAdminAccounts_def ensureAdminAccount_def)
  with assms(6) have "serve_admins A calls db = (db, map (locked_out_reply A) calls)"
    by (induction A calls db rule: serve_admins.induct) simp_all
  with seed(2) show ?thesis by simp
qed

subsection \<open>The registration gate\<close>

lemma collect_domains_Inr:
  "collect_domains A raws ds = Inr ds' \<Longrightarrow> distinct ds \<Longrightarrow> list_all valid_domain ds \<Longrightarrow>
     distinct ds' \<and> list_all valid_domain ds' \<and> set ds' = set ds \<union> normalizeDomainValue (ae_lower A) ` set raws"
  by (induction A raws ds rule: collect_domains.induct) (auto simp: Let_def split: if_splits)

lemma collect_emails_Inr:
  "collect_emails A raws es = Inr es' \<Longrightarrow> distinct es \<Longrightarrow> list_all isValidEmailShape es \<Longrightarrow>
     distinct es' \<and> list_all isValidEmailShape es' \<and> set es' = set es \<union> normalizeEmail (ae_lower A) ` set raws"
  by (induction A raws es rule: collect_emails.induct) (auto simp: Let_def split: if_splits)

lemma whitelist_shown:
  assumes "replace_entries A (map DomainEntry ds @ map EmailEntry es) db = Some db'"
  shows "set (listWhitelist A db') = DomainEntry ` set ds \<union> EmailEntry ` set es"
    "set (wl_domains (getWhitelist A db')) = set ds" "set (wl_emails (getWhitelist A db')) = set es"
proof -
  show listed: "set (listWhitelist A db') = DomainEntry ` set ds \<union> EmailEntry ` set es"
    using assms by (auto simp: replace_entries_def listWhitelist_def split: if_splits)
  have filtered: "set (List.map_filter f xs) = {y. \<exists>x \<in> set xs. f x = Some y}" for f :: "whitelist_entry \<Rightarrow> jstr option" and xs
    by (induction xs) (auto simp: List.map_filter_simps split: option.split)
  show "set (wl_domains (getWhitelist A db')) = set ds" "set (wl_emails (getWhitelist A db')) = set es"
    by (auto simp: getWhitelist_def Let_def filtered listed split: whitelist_entry.splits)
qed

text \<open>
  C18: Replacing the whitelist is all or nothing. On success at most a thousand domains and a thousand addresses are
  stored, none twice and all well formed, the panel shows what was stored, and from then on exactly those addresses
  may register that equal one of the given addresses after trimming and lowering or end with \<open>@\<close> and one of the given
  domains; so an empty whitelist lets nobody in. On a failure the whitelist and everything else stays.
\<close>

theorem whitelist_gates_registration:
  "let (db', result) = replaceWhitelist A input db in
   case result of
     Inl _ \<Rightarrow> db' = db
   | Inr out \<Rightarrow>
       length (wl_domains out) \<le> 1000 \<and> length (wl_emails out) \<le> 1000 \<and>
       distinct (wl_domains out) \<and> distinct (wl_emails out) \<and>
       list_all valid_domain (wl_domains out) \<and> list_all isValidEmailShape (wl_emails out) \<and>
       set (wl_domains (getWhitelist A db')) = set (wl_domains out) \<and>
       set (wl_emails (getWhitelist A db')) = set (wl_emails out) \<and>
       (isEmailAllowed (ae_lower A) (listWhitelist A db') email =
          (let e = normalizeEmail (ae_lower A) email in
           e \<in> normalizeEmail (ae_lower A) ` set (wl_emails input) \<or>
           (\<exists>raw \<in> set (wl_domains input). ends_with e (js ''@'' @ normalizeDomainValue (ae_lower A) raw))))"
proof (cases "collect_domains A (wl_domains input) []")
  case (Inr ds)
  note ds = collect_domains_Inr [OF Inr, simplified]
  show ?thesis
  proof (cases "collect_emails A (wl_emails input) []")
    case es: (Inr es)
    note ess = collect_emails_Inr [OF es, simplified]
    show ?thesis
    proof (cases "MAX_WHITELIST_ENTRIES < length ds \<or> MAX_WHITELIST_ENTRIES < length es")
      case False
      show ?thesis
      proof (cases "replace_entries A (map DomainEntry ds @ map EmailEntry es) db")
        case (Some db')
        note shown = whitelist_shown [OF Some]
        have "isEmailAllowed (ae_lower A) (listWhitelist A db') email =
            (let e = normalizeEmail (ae_lower A) email in
             e \<in> set es \<or> (\<exists>d \<in> set ds. ends_with e (js ''@'' @ d)))"
          by (auto simp: isEmailAllowed_def Let_def list_ex_iff shown(1) bex_Un)
        then show ?thesis
          using ds ess shown False Inr es Some by (simp add: replaceWhitelist_def MAX_WHITELIST_ENTRIES_def Let_def)
      qed (use Inr es False in \<open>simp add: replaceWhitelist_def\<close>)
    qed (use Inr es in \<open>auto simp: replaceWhitelist_def\<close>)
  qed (use Inr in \<open>simp add: replaceWhitelist_def\<close>)
qed (simp add: replaceWhitelist_def)

text \<open>The witnesses: lower case of the ASCII letters, and passwords that are their own hashes.\<close>

definition ascii_lower :: "jstr \<Rightarrow> jstr" where
  "ascii_lower = map (\<lambda>u. if 65 \<le> u \<and> u \<le> 90 then u + 32 else u)"

definition sample_admin_env :: "string \<Rightarrow> admin_env" where
  "sample_admin_env seed =
     \<lparr>ae_lower = ascii_lower, ae_pg_lower = ascii_lower, ae_rank = length, ae_hash = id, ae_verifyPassword = (=),
      ae_violation = Thrown None None,
      ae_codec = (let p = signed_payload 5000 (js ''1'') (Some ADMIN_TOKEN_ROLE) (Some ADMIN_TOKEN_TTL_SECONDS) in sample_codec p p),
      ae_signingKey = [7], ae_email = (\<lambda>_. True), ae_uuid = (\<lambda>_. True), ae_seedUsername = js seed,
      ae_seedPassword = js ''12345678''\<rparr>"

definition sample_admin_db :: admin_db where
  "sample_admin_db = \<lparr>adb_admins = [], adb_whitelist = [], adb_accounts = empty_db\<rparr>"

definition sample_admin_login :: "string \<Rightarrow> json" where
  "sample_admin_login name = JObject [(js ''username'', JString (js name)), (js ''password'', JString (js ''12345678''))]"

lemma sample_admin_facts:
  "adminLoginBodySchema (sample_admin_login '' Root'')" "ascii_lower (trim (body_field (sample_admin_login '' Root'') ''username'')) = js ''root''"
  "body_field (sample_admin_login '' Root'') ''password'' = js ''12345678''"
  "ascii_lower (btrim (js ''root'')) = js ''root''" "ascii_lower (btrim (js ''Root'')) \<noteq> js ''Root''" "trim (js ''Root'') = js ''Root''"
  by code_simp+

lemma first_login_opens_panel_witness:
  "\<exists>db' token. serve_admin (sample_admin_env ''root'') (js ''1'') 5000 None (AdminLogin (sample_admin_login '' Root'')) sample_admin_db =
       (db', Success 200 (AdminToken token)) \<and>
     requireAdmin (ae_codec (sample_admin_env ''root'')) [7] 43000000 (Some (bearer @ token)) = Some (js ''1'')"
proof -
  let ?A = "sample_admin_env ''root''"
  have ok: "pg_normal ?A (ae_seedUsername ?A)" "admin_schema ?A (AdminLogin (sample_admin_login '' Root''))"
    "ae_lower ?A (trim (body_field (sample_admin_login '' Root'') ''username'')) = ae_seedUsername ?A"
    "ae_verifyPassword ?A (ae_hash ?A (ae_seedPassword ?A)) (body_field (sample_admin_login '' Root'') ''password'')"
    by (simp_all add: pg_normal_def sample_admin_env_def sample_admin_facts)
  have codec: "codec_ok (ae_codec ?A) {signed_payload 5000 (js ''1'') (Some ADMIN_TOKEN_ROLE) (Some ADMIN_TOKEN_TTL_SECONDS)}"
    using sample_codec_ok [of "signed_payload 5000 (js ''1'') (Some ADMIN_TOKEN_ROLE) (Some ADMIN_TOKEN_TTL_SECONDS)"
        "signed_payload 5000 (js ''1'') (Some ADMIN_TOKEN_ROLE) (Some ADMIN_TOKEN_TTL_SECONDS)"]
    by (simp add: sample_admin_env_def Let_def)
  have fixed: "adb_admins sample_admin_db = []" "ae_signingKey ?A = [7]" by (simp_all add: sample_admin_db_def sample_admin_env_def)
  from first_login_opens_panel [OF fixed(1) ok codec, where t = 43000000 and header = None] show ?thesis
    unfolding fixed(2) by fastforce
qed

lemma capital_operator_locked_out_witness:
  "serve_admins (sample_admin_env ''Root'')
     [(js ''1'', 5000, None, AdminLogin (sample_admin_login '' Root'')), (js ''2'', 6000, None, GetUsers),
      (js ''3'', 7000, None, AdminLogin (sample_admin_login '' Root''))] sample_admin_db =
   (sample_admin_db, [Failure 500 INTERNAL (js ''Internal server error''),
      Failure 401 UNAUTHORIZED (js ''Missing or invalid admin token''), Failure 500 INTERNAL (js ''Internal server error'')])"
proof -
  let ?env = "[''ADMIN_USERNAME'' \<mapsto> js ''Root'']"
  let ?calls = "[(js ''1'', 5000, None, AdminLogin (sample_admin_login '' Root'')), (js ''2'', 6000, None, GetUsers),
      (js ''3'', 7000, None, AdminLogin (sample_admin_login '' Root''))] :: admin_call list"
  have "env_text ?env ''ADMIN_USERNAME'' = Some (js ''Root'')" by (simp add: env_text_def sample_admin_facts)
  moreover from this have "ae_seedUsername (sample_admin_env ''Root'') = snd (admin_username ?env)"
    by (simp add: sample_admin_env_def admin_username_def)
  moreover have "\<not> pg_normal (sample_admin_env ''Root'') (js ''Root'')"
    using sample_admin_facts(5) by (auto simp: pg_normal_def sample_admin_env_def)
  moreover have "\<forall>(rowId, now, header, req) \<in> set ?calls.
      requireAdmin (ae_codec (sample_admin_env ''Root'')) (ae_signingKey (sample_admin_env ''Root'')) now header = None"
    by (simp add: requireAdmin_def bearer_credential_def)
  ultimately have "serve_admins (sample_admin_env ''Root'') ?calls sample_admin_db =
      (sample_admin_db, map (locked_out_reply (sample_admin_env ''Root'')) ?calls)"
    using capital_operator_locked_out [of ?env "js ''Root''" "sample_admin_env ''Root''" sample_admin_db ?calls]
    by (simp add: sample_admin_db_def)
  then show ?thesis by (simp add: locked_out_reply_def sample_admin_facts)
qed

end
