(* ===== verification/Spec2Isabelle.thy ===== *)
theory Spec2Isabelle
  imports Pump EventIngress MessageCache SessionRegistry SessionActions Envelope AuthProps InstanceProps
    AccessTokens PushDispatch DeviceRoutes Realtime GatewayConfig ControlReplies PipelineControl
    V2Pipeline WebProxy AuthRoutes ControlRoutes Lifecycle AdminPanel
begin

text \<open>
  Verification library for the notification hub. The program has two halves. A plugin runs inside each
  OpenCode host: it turns the host's session events into signed notification events and posts them to the
  gateway (\<open>packages/plugin/src\<close>), and it keeps one control socket to the gateway over which an account's
  clients answer questions, decide permissions, send prompts and browse the host's web interface. The
  gateway (\<open>apps/gateway/src\<close>) keeps accounts, keys and devices, authenticates and deduplicates incoming
  events, fans them out to desktop clients and Android devices, and routes commands to plugins. Both share
  the message formats of \<open>packages/contracts/src\<close>.

  \<^bold>\<open>Reading order.\<close> The theories, the code they model and what their lemmas show:

  \<^item> \<open>Prelude\<close>, \<open>JsString\<close>, \<open>Json\<close>, \<open>JsonText\<close>: what the models share. Insertion-ordered maps as the
    language's \<open>Map\<close> (association lists with \<open>map_get\<close>, \<open>map_set\<close>, \<open>map_delete\<close>), strings as lists of
    16-bit units with code points and surrogate pairs, JSON values and their printed text.
  \<^item> \<open>Contracts\<close> (\<open>contracts/src/schemas/events.ts\<close>): the notification event and its validator.
  \<^item> \<open>BoundedQueue\<close>, \<open>Pump\<close>, \<open>Sender\<close> (\<open>queue.ts\<close>, \<open>pump.ts\<close>, \<open>sender.ts\<close>): delivery. The queue
    refines three first-in-first-out lanes, the pump accounts for every event and its stop drains, the
    sender's retries are an exact policy and its requests are what the gateway accepts.
  \<^item> \<open>Redaction\<close> (\<open>log.ts\<close>): log entries cannot contain a secret.
  \<^item> \<open>Events\<close>, \<open>MessageCache\<close>, \<open>SessionRegistry\<close> (\<open>events.ts\<close>, \<open>message-cache.ts\<close>,
    \<open>session-registry.ts\<close>): what the plugin reads from the host. Normalised events are well formed,
    permission metadata have no influence, summaries are the assistant's text, ancestry is fail-closed.
  \<^item> \<open>SessionMachine\<close>, \<open>SessionRounds\<close>, \<open>SessionProps\<close>, \<open>SessionActions\<close> (\<open>state-machine.ts\<close>): records
    and timers as the code has them, refined to a four-phase machine per session; one terminal per round.
  \<^item> \<open>Envelope\<close> (\<open>envelope.ts\<close>): which effects become a valid event.
  \<^item> \<open>PluginConfig\<close>, \<open>GatewayConfig\<close> (the two \<open>config.ts\<close>, \<open>port.ts\<close>): a loaded configuration is safe
    and complete, its errors hide values, an issued credential loads.
  \<^item> \<open>ControlFrames\<close>, \<open>ControlChannel\<close>, \<open>ControlReplies\<close> (\<open>control-channel.ts\<close>): the plugin's end of the
    control socket. Frames of the gateway are read back as sent; a running channel always has exactly one
    of a probe, a timer and a socket; replies go to the socket that asked, after its registration.
  \<^item> \<open>Pipeline\<close>, \<open>PipelineProps\<close>, \<open>PipelineControl\<close> (\<open>index.ts\<close>): the plugin's components put together.
    Turns of the event loop over the hooks' shared state: only main sessions are notified, a disposed
    pipeline is silent, and the control channel runs while it is wanted, its starts and stops in order.
  \<^item> \<open>PendingAdapter\<close>, \<open>SessionCatalog\<close>, \<open>V2Host\<close>, \<open>V2Events\<close>, \<open>WebProxy\<close> (\<open>pending-adapter.ts\<close>,
    \<open>session-catalog.ts\<close>, the reply adapters, \<open>v2-api.ts\<close>, \<open>v2.ts\<close>, \<open>webui-proxy.ts\<close>,
    \<open>direct-fetch.ts\<close>): what the control channel asks of the host, in both of its generations. Snapshots
    and catalogs show exactly what they should, answers reach the fields they answer, requests stay local.
  \<^item> \<open>V2Pipeline\<close> (\<open>setupV2\<close> of \<open>v2.ts\<close> with \<open>index.ts\<close>): the pipeline under a host of the second generation.
    What the stream, the lookups and the lists tell it admits sessions of the plugin's own directory only
    (the locale \<open>session_gate\<close>), so no other session is notified of.
  \<^item> \<open>IngestKeys\<close>, \<open>IngestAuth\<close>, \<open>EventIngress\<close> (\<open>ingest-keys.repository.ts\<close>, \<open>ingest-auth.ts\<close>,
    \<open>events.routes.ts\<close>, \<open>dedupe.ts\<close>, \<open>rate-limit.ts\<close>): keys, signatures, the events route with its
    limiter and its dedupe of concurrent requests.
  \<^item> \<open>AuthStore\<close>, \<open>AuthService\<close>, \<open>AuthProps\<close> (\<open>auth.repository.ts\<close>, \<open>auth.service.ts\<close>, parts of the
    admin module): account tables and every statement on them, requests split where another can run.
  \<^item> \<open>HttpErrors\<close>, \<open>AuthRoutes\<close>, \<open>ControlRoutes\<close>, \<open>AdminPanel\<close> (\<open>lib/errors.ts\<close>, the error handler of
    \<open>app.ts\<close>, \<open>auth.routes.ts\<close>, the routes under \<open>control\<close> and \<open>ingest-keys\<close>, \<open>admin\<close>): requests from the
    schema check to the reply, over the modelled services. Replies do not tell accounts or instances apart
    that a caller has no right to know of, a revoked key is cut off, the whitelist gates registration.
  \<^item> \<open>Lifecycle\<close> (\<open>firebase-app.ts\<close>, \<open>migrate.ts\<close>, \<open>health.routes.ts\<close>, \<open>shutdown.ts\<close>): the account that a
    loaded configuration holds is usable, readiness is exact, the process exits once.
  \<^item> \<open>AccessTokens\<close> (\<open>plugins/jwt.ts\<close> and the guards of the two upgrade routes).
  \<^item> \<open>Sockets\<close>, \<open>InstanceRegistry\<close> and the \<open>Instance\<close> theories (\<open>instance-registry.ts\<close>): the gateway's
    end of the control socket, with ownership, commands, outcomes, snapshots and web tunnels.
  \<^item> \<open>Isolation\<close>: the interface (a locale) of components whose operations belong to accounts, with the
    theorem that interleaving does not matter; \<open>Realtime\<close> (\<open>connection-registry.ts\<close>) and
    \<open>DeviceRoutes\<close> (\<open>devices.routes.ts\<close>) interpret it.
  \<^item> \<open>PushPayload\<close>, \<open>PushDispatch\<close> (\<open>fcm/payload.ts\<close>, \<open>dispatcher.ts\<close>, \<open>devices.repository.ts\<close>): the
    content of a push within its budget, and who is pushed to.

  \<^bold>\<open>Conventions.\<close> A class is a record and each method a function that returns it updated; a method that
  awaits is split where another turn of the event loop can run, and its waiting part is an entry of the
  state. Exceptions are values of a sum or option type, or an effect in an effect list. Timers, clocks,
  random numbers, hashes, sockets' answers and library parsers are arguments, or events of the
  environment; hypotheses about them are named definitions (\<open>codec_ok\<close>, for example) with a witness that
  they can hold. Numbers that can leave the exact range of a double are kept as the code bounds them.

  \<^bold>\<open>Bounds and fuel.\<close> No definition of the model runs on fuel: loops are structural recursions or have a
  measure. The compaction of a push has one (the sum of its caps); \<open>compact_fuel\<close> counts its passes, and
  \<open>compaction_ends\<close> shows that nine always suffice since eight halvings bring every cap to one. The drain of a stopped pump has an explicit
  bound on its steps.

  \<^bold>\<open>Not modelled.\<close> The transport of calls to the host (fetch, the SDK, node's http request), the discovery of
  the second-generation server, the page of the operator's panel, the mail text, fastify's wiring with its
  per-address rate limits, the registration of process signals, build and test scripts, and the Dart
  client with its generated bindings.
\<close>

end
